(* ===== verification/Prelude.thy ===== *)
theory Prelude
  imports Main "HOL-Library.Word"
begin

text \<open>
  Shared vocabulary of the development: Rust results and saturating integers,
  the row operations that the SQL statements of the run store use, JSON values,
  and the step machines whose invariants are lifted to whole runs.
\<close>

section \<open>Lemma collections\<close>

text \<open>
  \<open>row_simps\<close> rewrites the list operations that stand for SQL statements,
  \<open>result_simps\<close> the sequencing of fallible computations.
\<close>

named_theorems row_simps
named_theorems result_simps

section \<open>Machine integers\<close>

type_synonym u32 = "32 word"
type_synonym u64 = "64 word"

text \<open>\<open>saturating_add\<close>, \<open>saturating_sub\<close> and \<open>saturating_mul\<close> of Rust's unsigned integers.\<close>

definition sat_add :: "'a::len word \<Rightarrow> 'a word \<Rightarrow> 'a word" where
  "sat_add a b = (if unat a + unat b < 2 ^ LENGTH('a) then a + b else - 1)"

definition sat_sub :: "'a::len word \<Rightarrow> 'a word \<Rightarrow> 'a word" where
  "sat_sub a b = (if b \<le> a then a - b else 0)"

definition sat_mul :: "'a::len word \<Rightarrow> 'a word \<Rightarrow> 'a word" where
  "sat_mul a b = (if unat a * unat b < 2 ^ LENGTH('a) then a * b else - 1)"

lemma unat_max_word: "unat (- 1 :: 'a::len word) = 2 ^ LENGTH('a) - 1"
  by (simp add: unsigned_minus_1_eq_mask mask_eq_exp_minus_1)

lemma unat_sat_add: "unat (sat_add a b) = min (unat a + unat b) (2 ^ LENGTH('a) - 1)"
  for a b :: "'a::len word"
proof (cases "unat a + unat b < 2 ^ LENGTH('a)")
  case True
  then have "unat (a + b) = unat a + unat b"
    by (simp add: unat_word_ariths)
  with True show ?thesis by (simp add: sat_add_def)
next
  case False
  then show ?thesis by (simp add: sat_add_def unat_max_word)
qed

lemma unat_sat_mul: "unat (sat_mul a b) = min (unat a * unat b) (2 ^ LENGTH('a) - 1)"
  for a b :: "'a::len word"
proof (cases "unat a * unat b < 2 ^ LENGTH('a)")
  case True
  then have "unat (a * b) = unat a * unat b"
    by (simp add: unat_word_ariths)
  with True show ?thesis by (simp add: sat_mul_def)
next
  case False
  then show ?thesis by (simp add: sat_mul_def unat_max_word)
qed

lemma sat_add_ge: "a \<le> sat_add a b"
  for a b :: "'a::len word"
proof -
  have "unat a < 2 ^ LENGTH('a)" by (rule unsigned_less)
  then have "unat a \<le> 2 ^ LENGTH('a) - 1" by linarith
  then show ?thesis by (simp add: word_le_nat_alt unat_sat_add)
qed

lemma sat_add_max: "sat_add (- 1) b = - 1"
  for b :: "'a::len word"
proof (rule iffD2 [OF word_eq_iff_unsigned])
  show "unat (sat_add (- 1) b) = unat (- 1 :: 'a word)"
    unfolding unat_sat_add unat_max_word by simp
qed

section \<open>Results\<close>

text \<open>
  A Rust \<open>Result<T, E>\<close> is \<open>'e + 'a\<close>, \<open>Inl\<close> for the error. \<open>bindE\<close> is the
  \<open>?\<close> operator, \<open>require\<close> an early \<open>return Err(..)\<close>, \<open>ok_or\<close> is \<open>Option::ok_or\<close>.
\<close>

definition bindE :: "'e + 'a \<Rightarrow> ('a \<Rightarrow> 'e + 'b) \<Rightarrow> 'e + 'b" where
  "bindE m f = (case m of Inl e \<Rightarrow> Inl e | Inr x \<Rightarrow> f x)"

definition require :: "bool \<Rightarrow> 'e \<Rightarrow> 'e + unit" where
  "require c e = (if c then Inr () else Inl e)"

definition ok_or :: "'e \<Rightarrow> 'a option \<Rightarrow> 'e + 'a" where
  "ok_or e m = (case m of None \<Rightarrow> Inl e | Some x \<Rightarrow> Inr x)"

lemma bindE_simps [simp]:
  "bindE (Inl e) f = Inl e"
  "bindE (Inr x) f = f x"
  by (simp_all add: bindE_def)

lemma bindE_Inr_iff [result_simps]: "bindE m f = Inr y \<longleftrightarrow> (\<exists>x. m = Inr x \<and> f x = Inr y)"
  by (cases m) auto

lemma bindE_Inl_iff: "bindE m f = Inl e \<longleftrightarrow> m = Inl e \<or> (\<exists>x. m = Inr x \<and> f x = Inl e)"
  by (cases m) auto

lemma require_simps [simp]:
  "require True e = Inr ()"
  "require False e = Inl e"
  by (simp_all add: require_def)

lemma require_Inr_iff [result_simps]: "require c e = Inr u \<longleftrightarrow> c"
  by (simp add: require_def)

lemma ok_or_simps [simp]:
  "ok_or e None = Inl e"
  "ok_or e (Some x) = Inr x"
  by (simp_all add: ok_or_def)

lemma ok_or_Inr_iff [result_simps]: "ok_or e m = Inr x \<longleftrightarrow> m = Some x"
  by (cases m) auto

section \<open>Rows\<close>

text \<open>
  A SQL table is the list of its rows in rowid order. \<open>UPDATE .. SET .. WHERE p\<close> is
  \<open>update_where\<close>, \<open>SELECT count(*) .. WHERE p\<close> is \<open>count_where\<close>, a \<open>query_row\<close> on a
  key is \<open>find_key\<close>.
\<close>

definition update_where :: "('r \<Rightarrow> bool) \<Rightarrow> ('r \<Rightarrow> 'r) \<Rightarrow> 'r list \<Rightarrow> 'r list" where
  "update_where p f rs = map (\<lambda>r. if p r then f r else r) rs"

definition count_where :: "('r \<Rightarrow> bool) \<Rightarrow> 'r list \<Rightarrow> nat" where
  "count_where p rs = length (filter p rs)"

definition find_key :: "('r \<Rightarrow> 'k) \<Rightarrow> 'k \<Rightarrow> 'r list \<Rightarrow> 'r option" where
  "find_key key k rs = find (\<lambda>r. key r = k) rs"

lemma update_where_Nil [simp]: "update_where p f [] = []"
  by (simp add: update_where_def)

lemma update_where_append: "update_where p f (xs @ ys) = update_where p f xs @ update_where p f ys"
  by (simp add: update_where_def)

lemma set_update_where: "set (update_where p f rs) = (\<lambda>r. if p r then f r else r) ` set rs"
  by (simp add: update_where_def)

lemma update_where_id: "(\<And>r. r \<in> set rs \<Longrightarrow> \<not> p r) \<Longrightarrow> update_where p f rs = rs"
  by (induction rs) (auto simp: update_where_def)

lemma map_update_where [row_simps]:
  "(\<And>r. g (f r) = g r) \<Longrightarrow> map g (update_where p f rs) = map g rs"
  by (simp add: update_where_def)

lemma image_update_where [row_simps]:
  assumes "\<And>r. g (f r) = g r"
  shows "g ` set (update_where p f rs) = g ` set rs"
  using arg_cong [OF map_update_where [of g f p rs, OF assms], of set] by simp

lemma length_update_where [simp]: "length (update_where p f rs) = length rs"
  by (simp add: update_where_def)

lemma count_where_Nil [simp]: "count_where p [] = 0"
  by (simp add: count_where_def)

lemma count_where_append [row_simps]: "count_where p (xs @ ys) = count_where p xs + count_where p ys"
  by (simp add: count_where_def)

lemma count_where_Cons: "count_where p (x # xs) = (if p x then Suc (count_where p xs) else count_where p xs)"
  by (simp add: count_where_def)

lemma count_where_0_iff: "count_where p rs = 0 \<longleftrightarrow> (\<forall>r\<in>set rs. \<not> p r)"
  by (simp add: count_where_def filter_empty_conv)

lemma count_where_le: "(\<And>r. r \<in> set rs \<Longrightarrow> p r \<Longrightarrow> q r) \<Longrightarrow> count_where p rs \<le> count_where q rs"
  by (induction rs) (auto simp: count_where_Cons)

lemma count_where_cong:
  "(\<And>r. r \<in> set rs \<Longrightarrow> p r = q r) \<Longrightarrow> count_where p rs = count_where q rs"
  by (induction rs) (auto simp: count_where_Cons)

lemma count_where_update:
  "count_where q (update_where p f rs) = count_where (\<lambda>r. q (if p r then f r else r)) rs"
  by (induction rs) (auto simp: update_where_def count_where_Cons)

lemma count_where_update_le:
  "(\<And>r. r \<in> set rs \<Longrightarrow> p r \<Longrightarrow> q (f r) \<Longrightarrow> q r) \<Longrightarrow>
   count_where q (update_where p f rs) \<le> count_where q rs"
  unfolding count_where_update by (rule count_where_le) (auto split: if_splits)

lemma find_key_Some_iff:
  assumes "distinct (map key rs)"
  shows "find_key key k rs = Some r \<longleftrightarrow> r \<in> set rs \<and> key r = k"
  using assms by (induction rs) (auto simp: find_key_def)

lemma find_key_SomeD: "find_key key k rs = Some r \<Longrightarrow> r \<in> set rs \<and> key r = k"
  by (auto simp: find_key_def find_Some_iff)

lemma find_key_None_iff [row_simps]: "find_key key k rs = None \<longleftrightarrow> k \<notin> key ` set rs"
  by (auto simp: find_key_def find_None_iff)

lemma find_key_simps [simp]:
  "find_key key k [] = None"
  "find_key key k (x # xs) = (if key x = k then Some x else find_key key k xs)"
  by (simp_all add: find_key_def)

lemma find_key_append:
  "find_key key k (xs @ ys) =
     (case find_key key k xs of None \<Rightarrow> find_key key k ys | Some r \<Rightarrow> Some r)"
  by (induction xs) (auto simp: find_key_def)

lemma find_key_update_where:
  "(\<And>r. key (f r) = key r) \<Longrightarrow>
   find_key key k (update_where p f rs) =
     map_option (\<lambda>r. if p r then f r else r) (find_key key k rs)"
  by (induction rs) (auto simp: update_where_def find_key_def)

lemma distinct_key_inj:
  "distinct (map key rs) \<Longrightarrow> r \<in> set rs \<Longrightarrow> r' \<in> set rs \<Longrightarrow> key r = key r' \<Longrightarrow> r = r'"
  by (auto simp: distinct_map inj_on_def)

section \<open>JSON\<close>

text \<open>
  \<open>serde_json::Value\<close>. Numbers the code builds are integers; any other number is kept
  as its text. \<open>json_get\<close> is \<open>Value::get\<close> on an object key (and \<open>value[key]\<close>, which
  yields \<open>Null\<close> where \<open>get\<close> yields \<open>None\<close>).
\<close>

datatype json =
    JNull
  | JBool bool
  | JInt int
  | JNum string
  | JStr string
  | JArr "json list"
  | JObj "(string \<times> json) list"

definition json_get :: "string \<Rightarrow> json \<Rightarrow> json option" where
  "json_get k v = (case v of JObj kvs \<Rightarrow> map_of kvs k | _ \<Rightarrow> None)"

definition json_str :: "json \<Rightarrow> string option" where
  "json_str v = (case v of JStr s \<Rightarrow> Some s | _ \<Rightarrow> None)"

definition json_opt :: "('a \<Rightarrow> json) \<Rightarrow> 'a option \<Rightarrow> json" where
  "json_opt f m = (case m of None \<Rightarrow> JNull | Some x \<Rightarrow> f x)"

section \<open>Step machines\<close>

text \<open>
  The shared contract of every stateful component: each operation is one atomic step (its
  mutex or its single task serialises it) and keeps the component's invariant. What holds
  after every step then holds after every run.
\<close>

locale step_machine =
  fixes step :: "'s \<Rightarrow> 'e \<Rightarrow> 's"
    and inv :: "'s \<Rightarrow> bool"
  assumes step_inv: "inv s \<Longrightarrow> inv (step s e)"
begin

lemma run_inv: "inv s \<Longrightarrow> inv (foldl step s es)"
  by (induction es arbitrary: s) (auto intro: step_inv)

lemma run_prefix_inv: "inv s \<Longrightarrow> inv (foldl step s (take n es))"
  by (rule run_inv)

end

text \<open>
  A machine whose steps respect a preorder on its states: what a step may change, it may
  only move forward. Then so does every run.
\<close>

locale progress_machine = step_machine +
  fixes le :: "'s \<Rightarrow> 's \<Rightarrow> bool"
  assumes le_refl: "le s s"
    and le_trans: "le s t \<Longrightarrow> le t u \<Longrightarrow> le s u"
    and step_le: "inv s \<Longrightarrow> le s (step s e)"
begin

lemma run_le: "inv s \<Longrightarrow> le s (foldl step s es)"
proof (induction es arbitrary: s)
  case Nil
  then show ?case by (simp add: le_refl)
next
  case (Cons e es)
  from Cons.prems have "le (step s e) (foldl step (step s e) es)"
    by (intro Cons.IH step_inv)
  with step_le [OF Cons.prems] show ?case by (auto intro: le_trans)
qed

lemma run_le_later: "inv s \<Longrightarrow> le (foldl step s es) (foldl step s (es @ es'))"
  by (simp add: run_le run_inv)

end

end
