(* ===== verification/Rust_Text.thy ===== *)
theory Rust_Text
  imports Prelude "HOL-Library.Sublist"
begin

text \<open>
  Rust's \<open>str\<close> and \<open>String\<close> as the components use them. A \<open>string\<close> is the list of the
  UTF-8 bytes (so \<open>length\<close> is \<open>str::len\<close>); the operations below are the standard library's
  \<open>trim\<close>, \<open>split_whitespace\<close>, \<open>splitn\<close>, \<open>contains\<close>, \<open>to_ascii_lowercase\<close>, integer
  formatting and \<open>parse\<close>, and \<open>from_utf8\<close>, written over bytes.
\<close>

section \<open>White space\<close>

definition byte :: "char \<Rightarrow> nat" where
  "byte c = of_char c"

definition ascii_ws :: "char \<Rightarrow> bool" where
  "ascii_ws c \<longleftrightarrow> (9 \<le> byte c \<and> byte c \<le> 13) \<or> byte c = 32"

text \<open>The two- and three-byte encodings of the Unicode property \<open>White_Space\<close>.\<close>

definition ws2 :: "char \<Rightarrow> char \<Rightarrow> bool" where
  "ws2 a b \<longleftrightarrow> byte a = 0xC2 \<and> (byte b = 0x85 \<or> byte b = 0xA0)"

definition ws3 :: "char \<Rightarrow> char \<Rightarrow> char \<Rightarrow> bool" where
  "ws3 a b c \<longleftrightarrow>
     byte a = 0xE1 \<and> byte b = 0x9A \<and> byte c = 0x80 \<or>
     byte a = 0xE2 \<and> byte b = 0x80 \<and>
       (0x80 \<le> byte c \<and> byte c \<le> 0x8A \<or> byte c = 0xA8 \<or> byte c = 0xA9 \<or> byte c = 0xAF) \<or>
     byte a = 0xE2 \<and> byte b = 0x81 \<and> byte c = 0x9F \<or>
     byte a = 0xE3 \<and> byte b = 0x80 \<and> byte c = 0x80"

text \<open>Number of bytes of the white-space character a string begins with, 0 if none.\<close>

fun ws_len :: "string \<Rightarrow> nat" where
  "ws_len (a # b # c # s) =
     (if ascii_ws a then 1 else if ws2 a b then 2 else if ws3 a b c then 3 else 0)"
| "ws_len [a, b] = (if ascii_ws a then 1 else if ws2 a b then 2 else 0)"
| "ws_len [a] = (if ascii_ws a then 1 else 0)"
| "ws_len [] = 0"

text \<open>The same at the end of the string, read from the reversed bytes.\<close>

fun ws_len_rev :: "string \<Rightarrow> nat" where
  "ws_len_rev (c # b # a # s) =
     (if ascii_ws c then 1 else if ws2 b c then 2 else if ws3 a b c then 3 else 0)"
| "ws_len_rev [c, b] = (if ascii_ws c then 1 else if ws2 b c then 2 else 0)"
| "ws_len_rev [c] = (if ascii_ws c then 1 else 0)"
| "ws_len_rev [] = 0"

lemma ws_len_le: "ws_len s \<le> length s"
  by (cases s rule: ws_len.cases) simp_all

lemma ws_len_rev_le: "ws_len_rev s \<le> length s"
  by (cases s rule: ws_len_rev.cases) simp_all

function trim_start :: "string \<Rightarrow> string" where
  "trim_start s = (if ws_len s = 0 then s else trim_start (drop (ws_len s) s))"
  by pat_completeness auto
termination
proof (relation "measure length")
  fix s assume "ws_len s \<noteq> 0"
  then show "(drop (ws_len s) s, s) \<in> measure length"
    using ws_len_le [of s] by simp
qed simp

function trim_rev :: "string \<Rightarrow> string" where
  "trim_rev s = (if ws_len_rev s = 0 then s else trim_rev (drop (ws_len_rev s) s))"
  by pat_completeness auto
termination
proof (relation "measure length")
  fix s assume "ws_len_rev s \<noteq> 0"
  then show "(drop (ws_len_rev s) s, s) \<in> measure length"
    using ws_len_rev_le [of s] by simp
qed simp

declare trim_start.simps [simp del] trim_rev.simps [simp del]

definition trim_end :: "string \<Rightarrow> string" where
  "trim_end s = rev (trim_rev (rev s))"

definition trim :: "string \<Rightarrow> string" where
  "trim s = trim_end (trim_start s)"

text \<open>\<open>s.trim().is_empty()\<close>\<close>

definition is_blank :: "string \<Rightarrow> bool" where
  "is_blank s \<longleftrightarrow> trim s = []"

lemma trim_start_Nil [simp]: "trim_start [] = []"
  by (simp add: trim_start.simps)

lemma trim_rev_Nil [simp]: "trim_rev [] = []"
  by (simp add: trim_rev.simps)

lemma is_blank_Nil [simp]: "is_blank []"
  by (simp add: is_blank_def trim_def trim_end_def)

lemma trim_id:
  assumes "ws_len s = 0" and "ws_len_rev (rev s) = 0"
  shows "trim s = s"
  using assms by (simp add: trim_def trim_end_def trim_start.simps trim_rev.simps)

lemma not_blankI: "ws_len s = 0 \<Longrightarrow> ws_len_rev (rev s) = 0 \<Longrightarrow> s \<noteq> [] \<Longrightarrow> \<not> is_blank s"
  by (simp add: is_blank_def trim_id)

text \<open>\<open>split_whitespace\<close>: the maximal runs of bytes outside white space.\<close>

function split_ws :: "string \<Rightarrow> string \<Rightarrow> string list" where
  "split_ws acc s =
     (if s = [] then (if acc = [] then [] else [rev acc])
      else if ws_len s > 0 then
        (if acc = [] then [] else [rev acc]) @ split_ws [] (drop (ws_len s) s)
      else split_ws (hd s # acc) (tl s))"
  by pat_completeness auto
termination
proof (relation "measure (\<lambda>(acc, s). length s)")
  fix acc s :: string assume "s \<noteq> []" "0 < ws_len s"
  then show "(([], drop (ws_len s) s), (acc, s)) \<in> measure (\<lambda>(acc, s). length s)"
    using ws_len_le [of s] by simp
qed simp_all

declare split_ws.simps [simp del]

definition split_whitespace :: "string \<Rightarrow> string list" where
  "split_whitespace s = split_ws [] s"

text \<open>\<open>chars().count()\<close>: the bytes that are not UTF-8 continuation bytes.\<close>

definition char_count :: "string \<Rightarrow> nat" where
  "char_count s = length (filter (\<lambda>c. \<not> (0x80 \<le> byte c \<and> byte c < 0xC0)) s)"

section \<open>Searching and splitting\<close>

definition starts_with :: "string \<Rightarrow> string \<Rightarrow> bool" where
  "starts_with s p \<longleftrightarrow> prefix p s"

definition ends_with :: "string \<Rightarrow> string \<Rightarrow> bool" where
  "ends_with s p \<longleftrightarrow> suffix p s"

fun contains :: "string \<Rightarrow> string \<Rightarrow> bool" where
  "contains [] p \<longleftrightarrow> p = []"
| "contains (c # s) p \<longleftrightarrow> prefix p (c # s) \<or> contains s p"

lemma contains_iff_sublist: "contains s p \<longleftrightarrow> sublist p s"
  by (induction s) (auto simp: sublist_Cons_right)

lemma contains_append: "contains (a @ p @ b) p"
  by (simp add: contains_iff_sublist)

text \<open>\<open>splitn(n, c)\<close> for a one-byte separator.\<close>

fun splitn :: "nat \<Rightarrow> char \<Rightarrow> string \<Rightarrow> string list" where
  "splitn 0 c s = []"
| "splitn (Suc 0) c s = [s]"
| "splitn (Suc (Suc n)) c s =
     (if c \<in> set s
      then takeWhile (\<lambda>d. d \<noteq> c) s # splitn (Suc n) c (tl (dropWhile (\<lambda>d. d \<noteq> c) s))
      else [s])"

lemma splitn_sep:
  "c \<notin> set p \<Longrightarrow> splitn (Suc (Suc n)) c (p @ c # s) = p # splitn (Suc n) c s"
  by (induction p) auto

text \<open>\<open>split(pred)\<close>: the pieces between separator bytes, empty ones included.\<close>

fun split_on :: "(char \<Rightarrow> bool) \<Rightarrow> string \<Rightarrow> string list" where
  "split_on p [] = [[]]"
| "split_on p (c # s) =
     (if p c then [] # split_on p s
      else case split_on p s of [] \<Rightarrow> [[c]] | w # ws \<Rightarrow> (c # w) # ws)"

lemma split_on_not_Nil: "split_on p s \<noteq> []"
  by (induction s) (auto split: list.splits)

definition ascii_lower :: "char \<Rightarrow> char" where
  "ascii_lower c = (if 65 \<le> byte c \<and> byte c \<le> 90 then char_of (byte c + 32) else c)"

definition to_ascii_lowercase :: "string \<Rightarrow> string" where
  "to_ascii_lowercase s = map ascii_lower s"

lemma length_to_ascii_lowercase [simp]: "length (to_ascii_lowercase s) = length s"
  by (simp add: to_ascii_lowercase_def)

lemma byte_char_of: "n < 256 \<Longrightarrow> byte (char_of n) = n"
  by (simp add: byte_def)

lemma ascii_lower_idem: "ascii_lower (ascii_lower c) = ascii_lower c"
proof (cases "65 \<le> byte c \<and> byte c \<le> 90")
  case True
  then have "byte (ascii_lower c) = byte c + 32"
    by (simp add: ascii_lower_def byte_char_of)
  with True show ?thesis by (simp add: ascii_lower_def [of "ascii_lower c"])
next
  case False
  then have "ascii_lower c = c" by (simp only: ascii_lower_def if_False)
  then show ?thesis by simp
qed

lemma to_ascii_lowercase_idem: "to_ascii_lowercase (to_ascii_lowercase s) = to_ascii_lowercase s"
  by (simp add: to_ascii_lowercase_def ascii_lower_idem)

section \<open>Decimal numbers\<close>

definition digit_char :: "nat \<Rightarrow> char" where
  "digit_char d = char_of (48 + d)"

definition is_digit :: "char \<Rightarrow> bool" where
  "is_digit c \<longleftrightarrow> 48 \<le> byte c \<and> byte c \<le> 57"

fun dec :: "nat \<Rightarrow> string" where
  "dec n = (if n < 10 then [digit_char n] else dec (n div 10) @ [digit_char (n mod 10)])"

declare dec.simps [simp del]

fun digits_val :: "nat \<Rightarrow> string \<Rightarrow> nat option" where
  "digits_val a [] = Some a"
| "digits_val a (c # s) = (if is_digit c then digits_val (10 * a + (byte c - 48)) s else None)"

definition parse_digits :: "string \<Rightarrow> nat option" where
  "parse_digits s = (if s = [] then None else digits_val 0 s)"

text \<open>\<open>str::parse::<u64>\<close>, \<open>::<i64>\<close>: an optional sign, digits, a range check.\<close>

definition parse_u64 :: "string \<Rightarrow> nat option" where
  "parse_u64 s =
     (case parse_digits (case s of c # r \<Rightarrow> if c = CHR ''+'' then r else s | [] \<Rightarrow> s) of
        None \<Rightarrow> None
      | Some n \<Rightarrow> if n < 2 ^ 64 then Some n else None)"

definition parse_i64 :: "string \<Rightarrow> int option" where
  "parse_i64 s =
     (let neg = (case s of c # r \<Rightarrow> c = CHR ''-'' | [] \<Rightarrow> False);
          body = (case s of c # r \<Rightarrow> if c = CHR ''+'' \<or> c = CHR ''-'' then r else s | [] \<Rightarrow> s)
      in case parse_digits body of
           None \<Rightarrow> None
         | Some n \<Rightarrow>
             if neg then (if n \<le> 2 ^ 63 then Some (- int n) else None)
             else if n < 2 ^ 63 then Some (int n) else None)"

lemma byte_digit_char: "d < 10 \<Longrightarrow> byte (digit_char d) = 48 + d"
  by (simp add: digit_char_def byte_char_of)

lemma is_digit_digit_char: "d < 10 \<Longrightarrow> is_digit (digit_char d)"
  by (simp add: is_digit_def byte_digit_char)

lemma digits_val_append:
  "digits_val a (xs @ ys) = (case digits_val a xs of None \<Rightarrow> None | Some b \<Rightarrow> digits_val b ys)"
  by (induction xs arbitrary: a) auto

lemma digits_val_dec: "digits_val 0 (dec n) = Some n"
proof (induction n rule: dec.induct)
  case (1 n)
  show ?case
  proof (cases "n < 10")
    case True
    then show ?thesis
      by (subst dec.simps) (simp add: is_digit_digit_char byte_digit_char)
  next
    case False
    then have "digits_val 0 (dec n) = digits_val (n div 10) [digit_char (n mod 10)]"
      by (subst dec.simps) (simp add: digits_val_append 1)
    also have "\<dots> = Some n"
      by (simp add: is_digit_digit_char byte_digit_char)
    finally show ?thesis .
  qed
qed

lemma dec_not_Nil: "dec n \<noteq> []"
  by (subst dec.simps) simp

lemma set_dec: "c \<in> set (dec n) \<Longrightarrow> is_digit c"
proof (induction n rule: dec.induct)
  case (1 n)
  then show ?case
    by (subst (asm) (2) dec.simps) (auto simp: is_digit_digit_char split: if_splits)
qed

lemma dec_hd_not: "\<not> is_digit x \<Longrightarrow> dec n = c # s \<Longrightarrow> c \<noteq> x"
  using set_dec [of c n] by auto

lemma parse_digits_dec [simp]: "parse_digits (dec n) = Some n"
  by (simp add: parse_digits_def dec_not_Nil digits_val_dec)

lemma dec_inj: "dec m = dec n \<longleftrightarrow> m = n"
  using parse_digits_dec by (metis option.inject)

lemma sign_not_digit: "\<not> is_digit CHR ''+''" "\<not> is_digit CHR ''-''"
  by (simp_all add: is_digit_def byte_def)

lemma parse_u64_dec: "n < 2 ^ 64 \<Longrightarrow> parse_u64 (dec n) = Some n"
proof -
  have "(case dec n of c # r \<Rightarrow> if c = CHR ''+'' then r else dec n | [] \<Rightarrow> dec n) = dec n"
    using dec_hd_not [OF sign_not_digit(1)] by (auto split: list.splits)
  then show "n < 2 ^ 64 \<Longrightarrow> parse_u64 (dec n) = Some n" by (simp add: parse_u64_def)
qed

lemma parse_i64_dec: "n < 2 ^ 63 \<Longrightarrow> parse_i64 (dec n) = Some (int n)"
proof -
  have "\<not> (case dec n of c # r \<Rightarrow> c = CHR ''-'' | [] \<Rightarrow> False)"
    and "(case dec n of c # r \<Rightarrow> if c = CHR ''+'' \<or> c = CHR ''-'' then r else dec n | [] \<Rightarrow> dec n) = dec n"
    using dec_hd_not [OF sign_not_digit(1)] dec_hd_not [OF sign_not_digit(2)]
    by (auto split: list.splits)
  then show "n < 2 ^ 63 \<Longrightarrow> parse_i64 (dec n) = Some (int n)" by (simp add: parse_i64_def)
qed

section \<open>UTF-8\<close>

definition cont :: "nat \<Rightarrow> bool" where
  "cont b \<longleftrightarrow> 0x80 \<le> b \<and> b \<le> 0xBF"

text \<open>The well-formed sequences \<open>String::from_utf8\<close> accepts.\<close>

fun utf8_bytes_ok :: "nat list \<Rightarrow> bool" where
  "utf8_bytes_ok [] = True"
| "utf8_bytes_ok (a # s) =
     (if a < 0x80 then utf8_bytes_ok s
      else case s of [] \<Rightarrow> False | b # s1 \<Rightarrow>
        if 0xC2 \<le> a \<and> a \<le> 0xDF then cont b \<and> utf8_bytes_ok s1
        else case s1 of [] \<Rightarrow> False | c # s2 \<Rightarrow>
          if 0xE0 \<le> a \<and> a \<le> 0xEF then
            cont b \<and> (a = 0xE0 \<longrightarrow> 0xA0 \<le> b) \<and> (a = 0xED \<longrightarrow> b \<le> 0x9F) \<and> cont c \<and> utf8_bytes_ok s2
          else case s2 of [] \<Rightarrow> False | d # s3 \<Rightarrow>
            0xF0 \<le> a \<and> a \<le> 0xF4 \<and> cont b \<and> (a = 0xF0 \<longrightarrow> 0x90 \<le> b) \<and> (a = 0xF4 \<longrightarrow> b \<le> 0x8F) \<and>
            cont c \<and> cont d \<and> utf8_bytes_ok s3)"

definition from_utf8 :: "string \<Rightarrow> string option" where
  "from_utf8 s = (if utf8_bytes_ok (map byte s) then Some s else None)"

text \<open>The UTF-8 encoding of a list of scalar values, for the program's own text constants.\<close>

definition utf8_encode :: "nat \<Rightarrow> string" where
  "utf8_encode n =
     map char_of
       (if n < 0x80 then [n]
        else if n < 0x800 then [0xC0 + n div 64, 0x80 + n mod 64]
        else if n < 0x10000 then [0xE0 + n div 4096, 0x80 + n div 64 mod 64, 0x80 + n mod 64]
        else [0xF0 + n div 262144, 0x80 + n div 4096 mod 64, 0x80 + n div 64 mod 64, 0x80 + n mod 64])"

definition utf8 :: "nat list \<Rightarrow> string" where
  "utf8 ns = concat (map utf8_encode ns)"

text \<open>\<open>chars().take(n)\<close>: the first \<open>n\<close> characters of a UTF-8 string.\<close>

fun take_chars :: "nat \<Rightarrow> string \<Rightarrow> string" where
  "take_chars n [] = []"
| "take_chars n (c # s) =
     (if cont (byte c) then c # take_chars n s
      else case n of 0 \<Rightarrow> [] | Suc m \<Rightarrow> c # take_chars m s)"

end
