(* ===== verification/Provider_Types.thy ===== *)
theory Provider_Types
  imports Rust_Text
begin

text \<open>
  The provider contract of \<open>src/provider.rs\<close> and \<open>src/provider/error.rs\<close>,
  \<open>attempt.rs\<close>: messages, tool calls, stream events, execution identities with their
  text encoding, typed errors and token usage. The base64 codec is a third-party crate:
  \<open>b64_encode\<close> and \<open>b64_decode\<close> are parameters of the definitions that use it.
\<close>

section \<open>Data\<close>

datatype api_type = OpenaiChat | AnthropicMessages | Ollama

datatype identity_source = WireId string | Position nat

record execution_identity =
  domain :: api_type
  source :: identity_source

record tool_call =
  tc_id :: string
  tc_name :: string
  tc_arguments :: json

record stream_error =
  se_code :: string
  se_message :: string

datatype response =
    Text string
  | ToolCalls "tool_call list"
  | ToolAssemblyFailed stream_error

datatype fragment = Append string | AuthoritativeSnapshot string

record provider_usage =
  input_tokens :: "u64 option"
  output_tokens :: "u64 option"
  cache_read_tokens :: "u64 option"
  cache_creation_tokens :: "u64 option"

datatype provider_event =
    ResponseStarted
  | ProtocolDone
  | Usage provider_usage
  | TextDelta string
  | ThinkingDelta string
  | OutputTruncated
  | ToolCallStarted execution_identity string
  | ToolCallDelta execution_identity fragment
  | ToolCallCompleted execution_identity
  | ToolCallFailed stream_error

definition is_semantic :: "provider_event \<Rightarrow> bool" where
  "is_semantic ev \<longleftrightarrow>
     (case ev of
        TextDelta t \<Rightarrow> t \<noteq> []
      | ThinkingDelta t \<Rightarrow> t \<noteq> []
      | ToolCallStarted i n \<Rightarrow> True
      | ToolCallDelta i f \<Rightarrow> True
      | ToolCallCompleted i \<Rightarrow> True
      | ToolCallFailed e \<Rightarrow> True
      | OutputTruncated \<Rightarrow> True
      | _ \<Rightarrow> False)"

section \<open>API types\<close>

definition api_as_str :: "api_type \<Rightarrow> string" where
  "api_as_str a = (case a of
     OpenaiChat \<Rightarrow> ''openai-chat''
   | AnthropicMessages \<Rightarrow> ''anthropic-messages''
   | Ollama \<Rightarrow> ''ollama'')"

definition api_from_str :: "string \<Rightarrow> api_type option" where
  "api_from_str v =
     (let s = to_ascii_lowercase (trim v) in
      if s = ''openai-chat'' then Some OpenaiChat
      else if s = ''anthropic-messages'' then Some AnthropicMessages
      else if s = ''ollama'' then Some Ollama
      else None)"

lemma api_from_str_as_str: "api_from_str (api_as_str a) = Some a"
  by (cases a)
    (simp_all add: api_from_str_def api_as_str_def trim_id ascii_ws_def byte_def ws2_def ws3_def
      to_ascii_lowercase_def ascii_lower_def)

lemma colon_notin_api: "CHR '':'' \<notin> set (api_as_str a)"
  by (cases a) (simp_all add: api_as_str_def)

section \<open>Execution identities\<close>

definition wire :: "api_type \<Rightarrow> string \<Rightarrow> execution_identity" where
  "wire d i = \<lparr>domain = d, source = WireId i\<rparr>"

definition position :: "api_type \<Rightarrow> nat \<Rightarrow> execution_identity" where
  "position d p = \<lparr>domain = d, source = Position p\<rparr>"

definition wire_id :: "execution_identity \<Rightarrow> string option" where
  "wire_id i = (case source i of WireId w \<Rightarrow> Some w | Position p \<Rightarrow> None)"

definition identity_encode :: "(string \<Rightarrow> string) \<Rightarrow> execution_identity \<Rightarrow> string" where
  "identity_encode b64_encode i =
     (case source i of
        WireId w \<Rightarrow> ''tc1:'' @ api_as_str (domain i) @ '':id:'' @ b64_encode w
      | Position p \<Rightarrow> ''tc1:'' @ api_as_str (domain i) @ '':pos:'' @ dec p)"

definition identity_decode :: "(string \<Rightarrow> string option) \<Rightarrow> string \<Rightarrow> execution_identity option" where
  "identity_decode b64_decode v =
     (case splitn 4 CHR '':'' v of
        [tag, dm, knd, src] \<Rightarrow>
          if tag \<noteq> ''tc1'' then None
          else Option.bind (api_from_str dm) (\<lambda>d.
            if knd = ''id'' then
              Option.bind (b64_decode src) (\<lambda>bytes. map_option (wire d) (from_utf8 bytes))
            else if knd = ''pos'' then map_option (position d) (parse_u64 src)
            else None)
      | _ \<Rightarrow> None)"

text \<open>
  What the program's types guarantee of an identity: a wire id is a Rust string (valid
  UTF-8), a position is a \<open>u64\<close>.
\<close>

definition identity_ok :: "execution_identity \<Rightarrow> bool" where
  "identity_ok i = (case source i of
     WireId w \<Rightarrow> utf8_bytes_ok (map byte w)
   | Position p \<Rightarrow> p < 2 ^ 64)"

lemma splitn_identity:
  assumes "CHR '':'' \<notin> set k"
  shows "splitn 4 CHR '':'' (''tc1:'' @ api_as_str a @ CHR '':'' # k @ CHR '':'' # s)
           = [''tc1'', api_as_str a, k, s]"
proof -
  have e: "''tc1:'' @ api_as_str a @ CHR '':'' # k @ CHR '':'' # s =
      ''tc1'' @ CHR '':'' # (api_as_str a @ CHR '':'' # (k @ CHR '':'' # s))" by simp
  have n: "(4::nat) = Suc (Suc (Suc (Suc 0)))" by simp
  have t: "CHR '':'' \<notin> set ''tc1''" by simp
  show ?thesis
    unfolding e n splitn_sep [OF t] splitn_sep [OF colon_notin_api] splitn_sep [OF assms]
      splitn.simps(2) ..
qed

lemma identity_roundtrip:
  assumes "\<And>w. b64_decode (b64_encode w) = Some w" and "identity_ok i"
  shows "identity_decode b64_decode (identity_encode b64_encode i) = Some i"
proof (cases "source i")
  case (WireId w)
  have "splitn 4 CHR '':'' (identity_encode b64_encode i) =
      [''tc1'', api_as_str (domain i), ''id'', b64_encode w]"
    using splitn_identity [of "''id''" "domain i" "b64_encode w"]
    by (simp add: identity_encode_def WireId)
  with WireId assms show ?thesis
    by (cases i) (simp add: identity_decode_def api_from_str_as_str from_utf8_def identity_ok_def
        wire_def)
next
  case (Position p)
  have "splitn 4 CHR '':'' (identity_encode b64_encode i) =
      [''tc1'', api_as_str (domain i), ''pos'', dec p]"
    using splitn_identity [of "''pos''" "domain i" "dec p"]
    by (simp add: identity_encode_def Position)
  with Position assms show ?thesis
    by (cases i) (simp add: identity_decode_def api_from_str_as_str parse_u64_dec identity_ok_def
        position_def)
qed

definition outbound_wire_id :: "(string \<Rightarrow> string option) \<Rightarrow> string \<Rightarrow> string option" where
  "outbound_wire_id b64_decode internal_id =
     (case (case identity_decode b64_decode internal_id of None \<Rightarrow> None | Some i \<Rightarrow> wire_id i) of
        Some w \<Rightarrow> Some w
      | None \<Rightarrow> if internal_id \<noteq> [] then Some internal_id else None)"

text \<open>
  What the code relies on in the base64 crate: decoding inverts encoding.
\<close>

definition b64_inverse :: "(string \<Rightarrow> string) \<Rightarrow> (string \<Rightarrow> string option) \<Rightarrow> bool" where
  "b64_inverse b64_encode b64_decode \<longleftrightarrow> (\<forall>w. b64_decode (b64_encode w) = Some w)"

lemma identity_encode_inj:
  assumes "b64_inverse b64_encode b64_decode" "identity_ok i" "identity_ok j"
    and "identity_encode b64_encode i = identity_encode b64_encode j"
  shows "i = j"
  using assms identity_roundtrip by (metis b64_inverse_def option.inject)

text \<open>
  Round trip. For every identity the types allow, \<open>decode(encode(i))\<close> is \<open>i\<close>, so two calls
  never share an encoded id, and the wire id sent back to the provider is the one it sent.
\<close>

theorem identity_codec_roundtrip:
  assumes "b64_inverse b64_encode b64_decode" and "identity_ok i"
  shows "identity_decode b64_decode (identity_encode b64_encode i) = Some i \<and>
         (identity_ok j \<and> identity_encode b64_encode j = identity_encode b64_encode i \<longrightarrow> j = i) \<and>
         (\<forall>w. source i = WireId w \<longrightarrow> outbound_wire_id b64_decode (identity_encode b64_encode i) = Some w)"
proof -
  have rt: "identity_decode b64_decode (identity_encode b64_encode i) = Some i"
    using assms by (intro identity_roundtrip) (simp_all add: b64_inverse_def)
  then show ?thesis
    using identity_encode_inj [OF assms(1) _ assms(2)]
    by (simp add: outbound_wire_id_def wire_id_def)
qed

theorem identity_codec_roundtrip_witness:
  "b64_inverse id Some \<and> identity_ok (wire Ollama ''a:b'') \<and>
   identity_decode Some (identity_encode id (wire Ollama ''a:b'')) = Some (wire Ollama ''a:b'') \<and>
   identity_encode id (wire Ollama ''a:b'') = ''tc1:ollama:id:a:b''"
proof -
  have h: "b64_inverse id Some" "identity_ok (wire Ollama ''a:b'')"
    by (simp_all add: b64_inverse_def identity_ok_def wire_def byte_def)
  show ?thesis
    using identity_codec_roundtrip [OF h] h
    by (simp add: identity_encode_def wire_def api_as_str_def)
qed

section \<open>Typed errors\<close>

datatype timeout_phase = Connect | FirstEvent | StreamIdle | Overall

datatype error_kind =
    Auth | AccessDenied | RateLimit | QuotaExceeded | InvalidRequest | ContextOverflow
  | ContentPolicy | Timeout timeout_phase | Transport | Server | Protocol | EmptyCompletion
  | ReasoningOnly | KOutputTruncated | Cancelled

record diagnostic =
  http_status :: "nat option"
  upstream_code :: "string option"
  diag_request_id :: "string option"
  retry_after_ms :: "u64 option"

record provider_error =
  kind :: error_kind
  diag :: diagnostic

definition plain_error :: "error_kind \<Rightarrow> provider_error" where
  "plain_error k = \<lparr>kind = k,
     diag = \<lparr>http_status = None, upstream_code = None, diag_request_id = None,
            retry_after_ms = None\<rparr>\<rparr>"

section \<open>Token usage\<close>

definition empty_usage :: provider_usage where
  "empty_usage = \<lparr>input_tokens = None, output_tokens = None, cache_read_tokens = None,
                  cache_creation_tokens = None\<rparr>"

definition or_else :: "'a option \<Rightarrow> 'a option \<Rightarrow> 'a option" where
  "or_else src tgt = (case src of None \<Rightarrow> tgt | Some v \<Rightarrow> Some v)"

definition merge_partial :: "provider_usage \<Rightarrow> provider_usage \<Rightarrow> provider_usage" where
  "merge_partial u v =
     \<lparr>input_tokens = or_else (input_tokens v) (input_tokens u),
      output_tokens = or_else (output_tokens v) (output_tokens u),
      cache_read_tokens = or_else (cache_read_tokens v) (cache_read_tokens u),
      cache_creation_tokens = or_else (cache_creation_tokens v) (cache_creation_tokens u)\<rparr>"

definition add_tokens :: "u64 option \<Rightarrow> u64 option \<Rightarrow> u64 option" where
  "add_tokens src tgt =
     (case src of None \<Rightarrow> tgt
      | Some v \<Rightarrow> Some (sat_add (case tgt of None \<Rightarrow> 0 | Some t \<Rightarrow> t) v))"

definition add_attempt :: "provider_usage \<Rightarrow> provider_usage \<Rightarrow> provider_usage" where
  "add_attempt u v =
     \<lparr>input_tokens = add_tokens (input_tokens v) (input_tokens u),
      output_tokens = add_tokens (output_tokens v) (output_tokens u),
      cache_read_tokens = add_tokens (cache_read_tokens v) (cache_read_tokens u),
      cache_creation_tokens = add_tokens (cache_creation_tokens v) (cache_creation_tokens u)\<rparr>"

datatype attempt_status = Started | Succeeded | Failed | ACancelled

record provider_attempt =
  attempt_id :: string
  at_run_id :: string
  at_round :: u32
  at_candidate_index :: u32
  at_profile_id :: string
  at_api_type :: api_type
  at_model :: string
  at_status :: attempt_status
  at_error_kind :: "error_kind option"
  at_diagnostic :: "diagnostic option"
  at_retry_after_ms :: "u64 option"
  at_stream_committed :: bool
  at_started_at_ms :: int
  at_first_event_at_ms :: "int option"
  at_finished_at_ms :: "int option"
  at_usage :: "provider_usage option"

end
