(* ===== verification/ToolCalls.thy ===== *)
theory ToolCalls
  imports Provider_Types
begin

text \<open>
  The canonical tool-call assembler of \<open>src/tool_calls.rs\<close>. The provider's stream events
  go through \<open>accept\<close> one by one and \<open>finish\<close> yields the response. \<open>BTreeMap\<close> is an
  association list with unique keys (its order is never observed). The JSON parser and
  the base64 encoder are parameters: \<open>json_parse\<close> is \<open>serde_json::from_str\<close>, with the
  text of its error on the left.
\<close>

section \<open>State\<close>

record pending_call =
  pc_name :: string
  pc_arguments :: string
  snapshot_seen :: bool
  completed :: bool

record assembler =
  text_acc :: string
  calls :: "(execution_identity \<times> pending_call) list"
  order :: "execution_identity list"
  failure :: "stream_error option"
  output_truncated :: bool

definition default_assembler :: assembler where
  "default_assembler = \<lparr>text_acc = [], calls = [], order = [], failure = None, output_truncated = False\<rparr>"

definition put :: "'k \<Rightarrow> 'v \<Rightarrow> ('k \<times> 'v) list \<Rightarrow> ('k \<times> 'v) list" where
  "put k v kvs = (k, v) # filter (\<lambda>kv. fst kv \<noteq> k) kvs"

lemma map_of_filter_other: "x \<noteq> k \<Longrightarrow> map_of (filter (\<lambda>kv. fst kv \<noteq> k) kvs) x = map_of kvs x"
  by (induction kvs) auto

lemma map_of_put [simp]: "map_of (put k v kvs) = (map_of kvs)(k \<mapsto> v)"
  by (rule ext) (simp add: put_def map_of_filter_other)

lemma put_not_Nil [simp]: "put k v kvs \<noteq> []"
  by (simp add: put_def)

text \<open>The messages the assembler puts into its errors.\<close>

definition msg_blank_name :: string where
  "msg_blank_name = utf8 [24037, 20855, 35843, 29992, 21517, 31216, 20026, 31354]"

definition msg_restarted :: string where
  "msg_restarted = utf8 [101, 120, 101, 99, 117, 116, 105, 111, 110, 32, 105, 100, 101, 110, 116, 105, 116, 121,
     32, 37325, 22797, 24320, 22987, 65306]"

definition msg_anonymous_delta :: string where
  "msg_anonymous_delta = utf8 [97, 114, 103, 117, 109, 101, 110, 116, 115, 32, 20998, 29255, 27809, 26377, 24050,
     24320, 22987, 30340, 35843, 29992, 65306]"

definition msg_late_delta :: string where
  "msg_late_delta = utf8 [24050, 23436, 25104, 35843, 29992, 25910, 21040, 36831, 21040, 20998, 29255, 65306]"

definition msg_delta_after_snapshot :: string where
  "msg_delta_after_snapshot = utf8 [26435, 23041, 24555, 29031, 21518, 25910, 21040, 22686, 37327, 20998, 29255, 65306]"

definition msg_duplicate_snapshot :: string where
  "msg_duplicate_snapshot = utf8 [35843, 29992, 25910, 21040, 37325, 22797, 26435, 23041, 24555, 29031, 65306]"

definition msg_complete_without_start :: string where
  "msg_complete_without_start = utf8 [24037, 20855, 23436, 25104, 20107, 20214, 27809, 26377, 23545, 24212, 24320, 22987,
     65306]"

definition msg_duplicate_complete :: string where
  "msg_duplicate_complete = utf8 [24037, 20855, 35843, 29992, 37325, 22797, 23436, 25104, 65306]"

definition msg_output_truncated :: string where
  "msg_output_truncated = utf8 [27169, 22411, 21709, 24212, 36798, 21040, 36755, 20986, 32, 116, 111, 107, 101, 110, 32,
     19978, 38480, 65292, 24037, 20855, 21442, 25968, 21487, 33021, 34987, 25130, 26029,
     65307, 26412, 36718, 24037, 20855, 35843, 29992, 24050, 20840, 37096, 25298, 32477]"

definition msg_incomplete :: string where
  "msg_incomplete = utf8 [27969, 32467, 26463, 26102, 24037, 20855, 35843, 29992, 26410, 23436, 25104, 65306]"

definition msg_order_index :: string where
  "msg_order_index = utf8 [24037, 20855, 35843, 29992, 39034, 24207, 32034, 24341, 19982, 29366, 24577, 34920,
     19981, 19968, 33268]"

definition msg_invalid_pre :: string where
  "msg_invalid_pre = utf8 [24037, 20855, 32]"

definition msg_invalid_post :: string where
  "msg_invalid_post = utf8 [32, 30340, 32, 97, 114, 103, 117, 109, 101, 110, 116, 115, 32, 19981, 26159, 21512,
     27861, 32, 74, 83, 79, 78, 65306]"

section \<open>Accepting events\<close>

definition new_error :: "string \<Rightarrow> string \<Rightarrow> stream_error" where
  "new_error code message = \<lparr>se_code = code, se_message = message\<rparr>"

definition fail :: "string \<Rightarrow> string \<Rightarrow> assembler \<Rightarrow> assembler" where
  "fail code message a =
     (if failure a = None then a\<lparr>failure := Some (new_error code message)\<rparr> else a)"

definition accept_started ::
  "(string \<Rightarrow> string) \<Rightarrow> execution_identity \<Rightarrow> string \<Rightarrow> assembler \<Rightarrow> assembler" where
  "accept_started enc i name a =
     (if is_blank name then fail ''missing_name'' msg_blank_name a
      else if map_of (calls a) i \<noteq> None then
        fail ''identity_conflict'' (msg_restarted @ identity_encode enc i) a
      else a\<lparr>order := order a @ [i],
             calls := put i \<lparr>pc_name = name, pc_arguments = [], snapshot_seen = False,
                             completed = False\<rparr> (calls a)\<rparr>)"

definition accept_delta ::
  "(string \<Rightarrow> string) \<Rightarrow> execution_identity \<Rightarrow> fragment \<Rightarrow> assembler \<Rightarrow> assembler" where
  "accept_delta enc i fragment a =
     (case map_of (calls a) i of
        None \<Rightarrow> fail ''anonymous_delta'' (msg_anonymous_delta @ identity_encode enc i) a
      | Some call \<Rightarrow>
          if completed call then
            fail ''delta_after_complete'' (msg_late_delta @ identity_encode enc i) a
          else case fragment of
            Append f \<Rightarrow>
              if snapshot_seen call then
                fail ''delta_after_snapshot'' (msg_delta_after_snapshot @ identity_encode enc i) a
              else a\<lparr>calls := put i (call\<lparr>pc_arguments := pc_arguments call @ f\<rparr>) (calls a)\<rparr>
          | AuthoritativeSnapshot s \<Rightarrow>
              if snapshot_seen call then
                fail ''duplicate_snapshot'' (msg_duplicate_snapshot @ identity_encode enc i) a
              else a\<lparr>calls := put i (call\<lparr>pc_arguments := s, snapshot_seen := True\<rparr>) (calls a)\<rparr>)"

definition accept_completed ::
  "(string \<Rightarrow> string) \<Rightarrow> execution_identity \<Rightarrow> assembler \<Rightarrow> assembler" where
  "accept_completed enc i a =
     (case map_of (calls a) i of
        None \<Rightarrow> fail ''complete_without_start'' (msg_complete_without_start @ identity_encode enc i) a
      | Some call \<Rightarrow>
          if completed call then
            fail ''duplicate_complete'' (msg_duplicate_complete @ identity_encode enc i) a
          else a\<lparr>calls := put i (call\<lparr>completed := True\<rparr>) (calls a)\<rparr>)"

definition accept ::
  "(string \<Rightarrow> string) \<Rightarrow> assembler \<Rightarrow> provider_event \<Rightarrow> string option \<times> assembler" where
  "accept enc a ev =
     (if failure a \<noteq> None then
        (case ev of TextDelta d \<Rightarrow> Some d | _ \<Rightarrow> None, a)
      else
        case ev of
          ResponseStarted \<Rightarrow> (None, a)
        | ProtocolDone \<Rightarrow> (None, a)
        | Usage u \<Rightarrow> (None, a)
        | TextDelta d \<Rightarrow> (Some d, a\<lparr>text_acc := text_acc a @ d\<rparr>)
        | ThinkingDelta d \<Rightarrow> (None, a)
        | OutputTruncated \<Rightarrow> (None, a\<lparr>output_truncated := True\<rparr>)
        | ToolCallStarted i name \<Rightarrow> (None, accept_started enc i name a)
        | ToolCallDelta i f \<Rightarrow> (None, accept_delta enc i f a)
        | ToolCallCompleted i \<Rightarrow> (None, accept_completed enc i a)
        | ToolCallFailed e \<Rightarrow> (None, a\<lparr>failure := Some e\<rparr>))"

section \<open>Finishing\<close>

definition call_arguments ::
  "(string \<Rightarrow> string + json) \<Rightarrow> pending_call \<Rightarrow> stream_error + json" where
  "call_arguments json_parse call =
     (if is_blank (pc_arguments call) then Inr (JObj [])
      else case json_parse (pc_arguments call) of
        Inr v \<Rightarrow> Inr v
      | Inl e \<Rightarrow> Inl (new_error ''invalid_json'' (msg_invalid_pre @ pc_name call @ msg_invalid_post @ e)))"

fun collect_calls ::
  "(string \<Rightarrow> string) \<Rightarrow> (string \<Rightarrow> string + json) \<Rightarrow> (execution_identity \<times> pending_call) list \<Rightarrow>
   execution_identity list \<Rightarrow> stream_error + tool_call list" where
  "collect_calls enc json_parse cs [] = Inr []"
| "collect_calls enc json_parse cs (i # is) =
     bindE (ok_or (new_error ''identity_conflict'' msg_order_index) (map_of cs i)) (\<lambda>call.
     bindE (call_arguments json_parse call) (\<lambda>arguments.
     bindE (collect_calls enc json_parse cs is) (\<lambda>rest.
       Inr (\<lparr>tc_id = identity_encode enc i, tc_name = pc_name call, tc_arguments = arguments\<rparr> # rest))))"

definition incomplete :: "assembler \<Rightarrow> execution_identity \<Rightarrow> bool" where
  "incomplete a i \<longleftrightarrow> (case map_of (calls a) i of None \<Rightarrow> False | Some call \<Rightarrow> \<not> completed call)"

definition finish ::
  "(string \<Rightarrow> string) \<Rightarrow> (string \<Rightarrow> string + json) \<Rightarrow> assembler \<Rightarrow> response" where
  "finish enc json_parse a =
     (case failure a of
        Some e \<Rightarrow> ToolAssemblyFailed e
      | None \<Rightarrow>
          if output_truncated a \<and> calls a \<noteq> [] then
            ToolAssemblyFailed (new_error ''output_truncated'' msg_output_truncated)
          else case find (incomplete a) (order a) of
            Some i \<Rightarrow>
              ToolAssemblyFailed (new_error ''incomplete_call'' (msg_incomplete @ identity_encode enc i))
          | None \<Rightarrow>
              if calls a = [] then Text (text_acc a)
              else case collect_calls enc json_parse (calls a) (order a) of
                Inl e \<Rightarrow> ToolAssemblyFailed e
              | Inr output \<Rightarrow> ToolCalls output)"

text \<open>\<open>collect_provider_response\<close>: every event in arrival order, then \<open>finish\<close>.\<close>

definition assemble :: "(string \<Rightarrow> string) \<Rightarrow> provider_event list \<Rightarrow> assembler" where
  "assemble enc evs = foldl (\<lambda>a ev. snd (accept enc a ev)) default_assembler evs"

definition collect_response ::
  "(string \<Rightarrow> string) \<Rightarrow> (string \<Rightarrow> string + json) \<Rightarrow> provider_event list \<Rightarrow> response" where
  "collect_response enc json_parse evs = finish enc json_parse (assemble enc evs)"

lemma assemble_Nil [simp]: "assemble enc [] = default_assembler"
  by (simp add: assemble_def)

lemma assemble_snoc [simp]: "assemble enc (evs @ [ev]) = snd (accept enc (assemble enc evs) ev)"
  by (simp add: assemble_def)

section \<open>The stream grammar of one call\<close>

text \<open>
  Specification, independent of the assembler's tables: the events of one identity must be
  a start with a name, then fragments, then one completion, where a snapshot ends the
  fragments. \<open>call_phase i evs\<close> runs this automaton over the events of \<open>i\<close> alone.
\<close>

datatype call_phase = NotStarted | Receiving | Snapshotted | Done | Malformed

fun phase_step :: "execution_identity \<Rightarrow> call_phase \<Rightarrow> provider_event \<Rightarrow> call_phase" where
  "phase_step i p (ToolCallStarted j n) =
     (if j \<noteq> i then p else if p = NotStarted \<and> \<not> is_blank n then Receiving else Malformed)"
| "phase_step i p (ToolCallDelta j (Append f)) =
     (if j \<noteq> i then p else if p = Receiving then Receiving else Malformed)"
| "phase_step i p (ToolCallDelta j (AuthoritativeSnapshot f)) =
     (if j \<noteq> i then p else if p = Receiving then Snapshotted else Malformed)"
| "phase_step i p (ToolCallCompleted j) =
     (if j \<noteq> i then p else if p = Receiving \<or> p = Snapshotted then Done else Malformed)"
| "phase_step i p _ = p"

definition call_phase :: "execution_identity \<Rightarrow> provider_event list \<Rightarrow> call_phase" where
  "call_phase i evs = foldl (phase_step i) NotStarted evs"

fun is_failure :: "provider_event \<Rightarrow> bool" where
  "is_failure (ToolCallFailed e) \<longleftrightarrow> True"
| "is_failure _ \<longleftrightarrow> False"

fun started :: "provider_event \<Rightarrow> execution_identity option" where
  "started (ToolCallStarted i n) = Some i"
| "started _ = None"

definition started_ids :: "provider_event list \<Rightarrow> execution_identity list" where
  "started_ids evs = List.map_filter started evs"

fun name_step :: "execution_identity \<Rightarrow> string \<Rightarrow> provider_event \<Rightarrow> string" where
  "name_step i n (ToolCallStarted j m) = (if j = i then m else n)"
| "name_step i n _ = n"

text \<open>The arguments a well-formed call carries: its appended fragments, or its snapshot.\<close>

fun args_step :: "execution_identity \<Rightarrow> string \<Rightarrow> provider_event \<Rightarrow> string" where
  "args_step i a (ToolCallDelta j (Append f)) = (if j = i then a @ f else a)"
| "args_step i a (ToolCallDelta j (AuthoritativeSnapshot s)) = (if j = i then s else a)"
| "args_step i a _ = a"

definition call_name :: "execution_identity \<Rightarrow> provider_event list \<Rightarrow> string" where
  "call_name i evs = foldl (name_step i) [] evs"

definition call_args :: "execution_identity \<Rightarrow> provider_event list \<Rightarrow> string" where
  "call_args i evs = foldl (args_step i) [] evs"

fun text_of :: "provider_event \<Rightarrow> string" where
  "text_of (TextDelta d) = d"
| "text_of _ = []"

definition well_formed_stream :: "provider_event list \<Rightarrow> bool" where
  "well_formed_stream evs \<longleftrightarrow>
     (\<forall>ev \<in> set evs. \<not> is_failure ev) \<and> (\<forall>i. call_phase i evs \<noteq> Malformed)"

lemma call_phase_snoc [simp]: "call_phase i (evs @ [ev]) = phase_step i (call_phase i evs) ev"
  by (simp add: call_phase_def)

lemma call_name_snoc [simp]: "call_name i (evs @ [ev]) = name_step i (call_name i evs) ev"
  by (simp add: call_name_def)

lemma call_args_snoc [simp]: "call_args i (evs @ [ev]) = args_step i (call_args i evs) ev"
  by (simp add: call_args_def)

lemma started_ids_snoc:
  "started_ids (evs @ [ev]) = started_ids evs @ (case started ev of None \<Rightarrow> [] | Some i \<Rightarrow> [i])"
  by (simp add: started_ids_def List.map_filter_def split: option.splits)

lemma phase_Malformed [simp]: "phase_step i Malformed ev = Malformed"
  by (cases "(i, Malformed, ev)" rule: phase_step.cases) auto

section \<open>The assembler implements the grammar\<close>

text \<open>
  The simulation relation: as long as nothing failed, the assembler's row for each identity
  is exactly what the identity's own events say, however the calls were interleaved.
\<close>

definition row_agrees :: "provider_event list \<Rightarrow> execution_identity \<Rightarrow> pending_call option \<Rightarrow> bool" where
  "row_agrees evs i m \<longleftrightarrow>
     (case m of
        None \<Rightarrow> call_phase i evs = NotStarted
      | Some call \<Rightarrow>
          call_phase i evs \<noteq> NotStarted \<and> call_phase i evs \<noteq> Malformed \<and>
          pc_name call = call_name i evs \<and> pc_arguments call = call_args i evs \<and>
          completed call = (call_phase i evs = Done) \<and>
          (call_phase i evs = Receiving \<longrightarrow> \<not> snapshot_seen call) \<and>
          (call_phase i evs = Snapshotted \<longrightarrow> snapshot_seen call))"

definition simulates :: "provider_event list \<Rightarrow> assembler \<Rightarrow> bool" where
  "simulates evs a \<longleftrightarrow>
     (\<forall>i. row_agrees evs i (map_of (calls a) i)) \<and>
     order a = started_ids evs \<and> distinct (order a) \<and>
     (\<forall>i. i \<in> set (order a) \<longleftrightarrow> map_of (calls a) i \<noteq> None) \<and>
     text_acc a = concat (map text_of evs) \<and>
     output_truncated a = (OutputTruncated \<in> set evs) \<and>
     (\<forall>i. call_phase i evs = NotStarted \<longrightarrow> call_args i evs = [])"

lemma simulates_row: "simulates evs a \<Longrightarrow> row_agrees evs i (map_of (calls a) i)"
  by (simp add: simulates_def)

lemma row_agrees_other:
  "phase_step i (call_phase i evs) ev = call_phase i evs \<Longrightarrow>
   name_step i (call_name i evs) ev = call_name i evs \<Longrightarrow>
   args_step i (call_args i evs) ev = call_args i evs \<Longrightarrow>
   row_agrees (evs @ [ev]) i m = row_agrees evs i m"
  by (cases m) (simp_all add: row_agrees_def)

lemma fail_failure [simp]:
  "failure (fail c m a) = None \<longleftrightarrow> False"
  "\<exists>e. failure (fail c m a) = Some e"
  by (auto simp: fail_def)

lemma started_sim:
  assumes sim: "simulates evs a" and nf: "failure a = None"
    and ph: "call_phase i evs \<noteq> Malformed"
  shows "let a' = accept_started enc i n a; ev = ToolCallStarted i n in
    (failure a' = None \<longleftrightarrow> phase_step i (call_phase i evs) ev \<noteq> Malformed) \<and>
    (failure a' = None \<longrightarrow> simulates (evs @ [ev]) a')"
proof -
  note row = simulates_row [OF sim, of i]
  have dom: "map_of (calls a) i = None \<longleftrightarrow> call_phase i evs = NotStarted"
    using row by (auto simp: row_agrees_def split: option.splits)
  show ?thesis
  proof (cases "is_blank n \<or> map_of (calls a) i \<noteq> None")
    case True
    then show ?thesis by (auto simp: accept_started_def dom Let_def)
  next
    case False
    let ?call = "\<lparr>pc_name = n, pc_arguments = [], snapshot_seen = False, completed = False\<rparr>"
    have "row_agrees (evs @ [ToolCallStarted i n]) j (((map_of (calls a))(i \<mapsto> ?call)) j)" for j
    proof (cases "j = i")
      case True
      with False sim dom show ?thesis by (simp add: row_agrees_def simulates_def)
    next
      case False
      then show ?thesis using simulates_row [OF sim, of j] by (simp add: row_agrees_other)
    qed
    moreover have "i \<notin> set (order a)"
      using False sim unfolding simulates_def by blast
    ultimately show ?thesis
      using False sim nf dom
      by (auto simp: accept_started_def simulates_def started_ids_snoc Let_def split: if_splits)
  qed
qed

lemma delta_sim:
  assumes sim: "simulates evs a" and nf: "failure a = None"
    and ph: "call_phase i evs \<noteq> Malformed"
  shows "let a' = accept_delta enc i f a; ev = ToolCallDelta i f in
    (failure a' = None \<longleftrightarrow> phase_step i (call_phase i evs) ev \<noteq> Malformed) \<and>
    (failure a' = None \<longrightarrow> simulates (evs @ [ev]) a')"
proof -
  note row = simulates_row [OF sim, of i]
  show ?thesis
  proof (cases "map_of (calls a) i")
    case None
    with row have "call_phase i evs = NotStarted" by (simp add: row_agrees_def)
    with None show ?thesis by (cases f) (simp_all add: accept_delta_def Let_def)
  next
    case (Some call)
    note row = row [unfolded Some]
    show ?thesis
    proof (cases "completed call \<or> snapshot_seen call")
      case True
      with row have "call_phase i evs \<noteq> Receiving" by (auto simp: row_agrees_def)
      with True Some show ?thesis by (cases f) (auto simp: accept_delta_def Let_def)
    next
      case False
      with row have rec: "call_phase i evs = Receiving"
        by (cases "call_phase i evs") (auto simp: row_agrees_def)
      obtain call' where call': "accept_delta enc i f a = a\<lparr>calls := put i call' (calls a)\<rparr>"
        and agree: "row_agrees (evs @ [ToolCallDelta i f]) i (Some call')"
      proof (cases f)
        case (Append s)
        with False Some row rec that show ?thesis
          by (auto simp: accept_delta_def row_agrees_def)
      next
        case (AuthoritativeSnapshot s)
        with False Some row rec that show ?thesis
          by (auto simp: accept_delta_def row_agrees_def)
      qed
      have "row_agrees (evs @ [ToolCallDelta i f]) j (((map_of (calls a))(i \<mapsto> call')) j)" for j
        using agree simulates_row [OF sim, of j]
        by (cases "j = i"; cases f) (simp_all add: row_agrees_other)
      then have "simulates (evs @ [ToolCallDelta i f]) (accept_delta enc i f a)"
        using sim Some rec unfolding call'
        by (cases f) (auto simp: simulates_def started_ids_snoc)
      then show ?thesis
        using nf rec call' by (cases f) (simp_all add: Let_def)
    qed
  qed
qed

lemma completed_sim:
  assumes sim: "simulates evs a" and nf: "failure a = None"
    and ph: "call_phase i evs \<noteq> Malformed"
  shows "let a' = accept_completed enc i a; ev = ToolCallCompleted i in
    (failure a' = None \<longleftrightarrow> phase_step i (call_phase i evs) ev \<noteq> Malformed) \<and>
    (failure a' = None \<longrightarrow> simulates (evs @ [ev]) a')"
proof -
  note row = simulates_row [OF sim, of i]
  show ?thesis
  proof (cases "map_of (calls a) i")
    case None
    with row have "call_phase i evs = NotStarted" by (simp add: row_agrees_def)
    with None show ?thesis by (simp add: accept_completed_def Let_def)
  next
    case (Some call)
    note row = row [unfolded Some]
    show ?thesis
    proof (cases "completed call")
      case True
      with row have "call_phase i evs = Done" by (simp add: row_agrees_def)
      with True Some show ?thesis by (simp add: accept_completed_def Let_def)
    next
      case False
      with row have ph: "call_phase i evs = Receiving \<or> call_phase i evs = Snapshotted"
        by (cases "call_phase i evs") (auto simp: row_agrees_def)
      have "row_agrees (evs @ [ToolCallCompleted i]) j
              (((map_of (calls a))(i \<mapsto> call\<lparr>completed := True\<rparr>)) j)" for j
      proof (cases "j = i")
        case True
        with row ph show ?thesis by (auto simp: row_agrees_def)
      next
        case False
        then show ?thesis using simulates_row [OF sim, of j] by (simp add: row_agrees_other)
      qed
      then show ?thesis
        using False Some sim nf ph
        by (auto simp: accept_completed_def simulates_def started_ids_snoc Let_def split: if_splits)
    qed
  qed
qed

lemma other_sim:
  assumes "simulates evs a" and "started ev = None"
    and "\<And>i. phase_step i (call_phase i evs) ev = call_phase i evs"
    and "\<And>i. name_step i (call_name i evs) ev = call_name i evs"
    and "\<And>i t. args_step i t ev = t"
    and "a' = a\<lparr>text_acc := text_acc a @ text_of ev,
                output_truncated := (output_truncated a \<or> ev = OutputTruncated)\<rparr>"
  shows "simulates (evs @ [ev]) a'"
  using assms by (auto simp: simulates_def row_agrees_other started_ids_snoc)

lemma step_sim:
  assumes sim: "simulates evs a" and nf: "failure a = None" and wf: "well_formed_stream evs"
  shows "(failure (snd (accept enc a ev)) = None \<longleftrightarrow> well_formed_stream (evs @ [ev])) \<and>
         (failure (snd (accept enc a ev)) = None \<longrightarrow> simulates (evs @ [ev]) (snd (accept enc a ev)))"
proof -
  have nm: "call_phase i evs \<noteq> Malformed" for i
    using wf by (simp add: well_formed_stream_def)
  have one: "well_formed_stream (evs @ [ev]) \<longleftrightarrow> phase_step i (call_phase i evs) ev \<noteq> Malformed"
    if "\<not> is_failure ev" and "\<And>j. j \<noteq> i \<Longrightarrow> phase_step j (call_phase j evs) ev = call_phase j evs" for i
    using wf that nm unfolding well_formed_stream_def by (metis Un_iff call_phase_snoc empty_iff
        empty_set list.set_intros(1) set_ConsD set_append)
  have self: "a = a\<lparr>text_acc := text_acc a @ [], output_truncated := (output_truncated a \<or> False)\<rparr>"
    by simp
  show ?thesis
  proof (cases ev)
    case (ToolCallStarted i n)
    show ?thesis
      using started_sim [OF sim nf nm, of enc i n] one [of i] nf
      by (simp add: accept_def ToolCallStarted Let_def)
  next
    case (ToolCallDelta i f)
    have "j \<noteq> i \<Longrightarrow> phase_step j (call_phase j evs) ev = call_phase j evs" for j
      by (cases f) (simp_all add: ToolCallDelta)
    then show ?thesis
      using delta_sim [OF sim nf nm, of enc i f] one [of i] nf
      by (simp add: accept_def ToolCallDelta Let_def)
  next
    case (ToolCallCompleted i)
    show ?thesis
      using completed_sim [OF sim nf nm, of enc i] one [of i] nf
      by (simp add: accept_def ToolCallCompleted Let_def)
  next
    case (ToolCallFailed e)
    show ?thesis using nf by (simp add: accept_def ToolCallFailed well_formed_stream_def)
  qed (use one nm nf other_sim [OF sim, of ev] in \<open>simp_all add: accept_def\<close>)
qed

lemma well_formed_prefix: "well_formed_stream (evs @ [ev]) \<Longrightarrow> well_formed_stream evs"
  unfolding well_formed_stream_def by (metis Un_iff call_phase_snoc phase_Malformed set_append)

lemma accept_keeps_failure: "failure a = Some e \<Longrightarrow> snd (accept enc a ev) = a"
  by (simp add: accept_def)

lemma assemble_sim:
  "(failure (assemble enc evs) = None \<longleftrightarrow> well_formed_stream evs) \<and>
   (well_formed_stream evs \<longrightarrow> simulates evs (assemble enc evs))"
proof (induction evs rule: rev_induct)
  case Nil
  show ?case
    by (simp add: well_formed_stream_def default_assembler_def simulates_def row_agrees_def
        call_phase_def call_args_def started_ids_def)
next
  case (snoc ev evs)
  show ?case
  proof (cases "failure (assemble enc evs)")
    case None
    with snoc have "well_formed_stream evs" "simulates evs (assemble enc evs)" by auto
    with None step_sim [of evs "assemble enc evs" enc ev] show ?thesis by simp
  next
    case (Some e)
    with snoc have "\<not> well_formed_stream evs" by simp
    then have "\<not> well_formed_stream (evs @ [ev])" using well_formed_prefix by blast
    then show ?thesis using Some by (simp add: accept_keeps_failure)
  qed
qed


section \<open>What finish returns\<close>

definition expected_call ::
  "(string \<Rightarrow> string) \<Rightarrow> (string \<Rightarrow> string + json) \<Rightarrow> provider_event list \<Rightarrow> execution_identity \<Rightarrow>
   tool_call option" where
  "expected_call enc json_parse evs i =
     map_option (\<lambda>v. \<lparr>tc_id = identity_encode enc i, tc_name = call_name i evs, tc_arguments = v\<rparr>)
       (if is_blank (call_args i evs) then Some (JObj [])
        else case json_parse (call_args i evs) of Inr v \<Rightarrow> Some v | Inl e \<Rightarrow> None)"

lemma simulates_call:
  assumes "simulates evs a" and "i \<in> set (started_ids evs)"
  obtains call where "map_of (calls a) i = Some call" "pc_name call = call_name i evs"
    "pc_arguments call = call_args i evs" "completed call = (call_phase i evs = Done)"
proof -
  from assms obtain call where c: "map_of (calls a) i = Some call"
    by (auto simp: simulates_def)
  with simulates_row [OF assms(1), of i] that show thesis by (auto simp: row_agrees_def)
qed

lemma simulates_incomplete:
  assumes "simulates evs a" and "i \<in> set (started_ids evs)"
  shows "incomplete a i \<longleftrightarrow> call_phase i evs \<noteq> Done"
  using simulates_call [OF assms] by (metis incomplete_def option.simps(5))

lemma simulates_no_calls: "simulates evs a \<Longrightarrow> calls a = [] \<longleftrightarrow> started_ids evs = []"
  by (cases "started_ids evs"; cases "calls a")
    (auto simp: simulates_def, (metis (no_types, lifting) map_of_eq_None_iff option.simps(3)
      list.set_intros(1) image_eqI fst_conv prod.exhaust)+)

lemma collect_calls_expected:
  assumes "simulates evs a" and "set is \<subseteq> set (started_ids evs)"
  shows "collect_calls enc json_parse (calls a) is = Inr cs \<longleftrightarrow>
         those (map (expected_call enc json_parse evs) is) = Some cs"
  using assms(2)
proof (induction "is" arbitrary: cs)
  case Nil
  then show ?case by auto
next
  case (Cons i "is")
  then have "i \<in> set (started_ids evs)" by simp
  then obtain call where call: "map_of (calls a) i = Some call" "pc_name call = call_name i evs"
    "pc_arguments call = call_args i evs"
    using simulates_call [OF assms(1)] by blast
  have ih: "collect_calls enc json_parse (calls a) is = Inr cs' \<longleftrightarrow>
      those (map (expected_call enc json_parse evs) is) = Some cs'" for cs'
    using Cons by simp
  show ?case
    by (auto simp: call expected_call_def [of enc json_parse evs i] call_arguments_def ih bindE_Inr_iff
        split: option.splits sum.splits)
qed

lemma collect_response_sim:
  assumes "well_formed_stream evs"
  shows "collect_response enc json_parse evs =
     (if OutputTruncated \<in> set evs \<and> started_ids evs \<noteq> [] then
        ToolAssemblyFailed (new_error ''output_truncated'' msg_output_truncated)
      else case find (\<lambda>i. call_phase i evs \<noteq> Done) (started_ids evs) of
        Some i \<Rightarrow> ToolAssemblyFailed (new_error ''incomplete_call'' (msg_incomplete @ identity_encode enc i))
      | None \<Rightarrow>
          if started_ids evs = [] then Text (concat (map text_of evs))
          else case collect_calls enc json_parse (calls (assemble enc evs)) (started_ids evs) of
            Inl e \<Rightarrow> ToolAssemblyFailed e | Inr cs \<Rightarrow> ToolCalls cs)"
proof -
  let ?a = "assemble enc evs"
  have nf: "failure ?a = None" and sim: "simulates evs ?a"
    using assms assemble_sim by blast+
  have "find (incomplete ?a) (started_ids evs) = find (\<lambda>i. call_phase i evs \<noteq> Done) (started_ids evs)"
    by (rule find_cong) (simp_all add: simulates_incomplete [OF sim])
  moreover have "text_acc ?a = concat (map text_of evs)" "output_truncated ?a = (OutputTruncated \<in> set evs)"
    "order ?a = started_ids evs"
    using sim by (simp_all add: simulates_def)
  ultimately show ?thesis
    by (simp add: collect_response_def finish_def nf simulates_no_calls [OF sim] split: option.splits)
qed

lemma collect_response_failed:
  assumes "\<not> well_formed_stream evs"
  shows "\<exists>e. collect_response enc json_parse evs = ToolAssemblyFailed e"
  using assms assemble_sim [of enc evs] by (auto simp: collect_response_def finish_def)

text \<open>
  All or nothing. The response is a batch of tool calls exactly when the stream is well
  formed and not truncated, every started call was completed, and the arguments of every one
  parse; the batch is then the started calls in start order, each with the encoded identity,
  the announced name and the parse of its own fragments (an empty object for blank text).
  Otherwise no call of the stream is returned.
\<close>

theorem tool_batch_all_or_nothing:
  "collect_response enc json_parse evs = ToolCalls cs \<longleftrightarrow>
     well_formed_stream evs \<and> OutputTruncated \<notin> set evs \<and> started_ids evs \<noteq> [] \<and>
     list_all (\<lambda>i. call_phase i evs = Done) (started_ids evs) \<and>
     those (map (expected_call enc json_parse evs) (started_ids evs)) = Some cs"
proof (cases "well_formed_stream evs")
  case False
  then show ?thesis using collect_response_failed [OF False, of enc json_parse] by auto
next
  case True
  then have "simulates evs (assemble enc evs)" using assemble_sim by blast
  then show ?thesis
    using collect_calls_expected [of evs "assemble enc evs" "started_ids evs" enc json_parse cs] True
    by (auto simp: collect_response_sim list_all_iff find_None_iff
        find_Some_iff split: option.splits sum.splits)
qed

text \<open>
  Text is never lost to truncation. The response is text exactly when the stream is well
  formed and starts no call, and it is then the concatenation of the text deltas, whether or
  not the provider reported a truncated output.
\<close>

theorem text_response:
  "collect_response enc json_parse evs = Text t \<longleftrightarrow>
     well_formed_stream evs \<and> started_ids evs = [] \<and> t = concat (map text_of evs)"
proof (cases "well_formed_stream evs")
  case False
  then show ?thesis using collect_response_failed [OF False, of enc json_parse] by auto
next
  case True
  then show ?thesis
    by (auto simp: collect_response_sim split: option.splits sum.splits)
qed

section \<open>Responses of non-streaming providers\<close>

text \<open>
  \<open>emit_legacy_response\<close> of \<open>src/provider.rs\<close> turns a complete response into stream
  events, so that it takes the same path through the assembler. \<open>json_print\<close> is
  \<open>Value::to_string\<close>. The event list is what the receiver sees; sending fails only when the
  receiver is gone, and then nobody assembles anything.
\<close>

definition legacy_identity ::
  "(string \<Rightarrow> string option) \<Rightarrow> api_type \<Rightarrow> nat \<Rightarrow> string \<Rightarrow> execution_identity" where
  "legacy_identity b64_decode api p call_id =
     (case identity_decode b64_decode call_id of
        Some i \<Rightarrow> i
      | None \<Rightarrow> if call_id = [] then position api p else wire api call_id)"

definition legacy_call ::
  "(json \<Rightarrow> string) \<Rightarrow> execution_identity \<times> tool_call \<Rightarrow> provider_event list" where
  "legacy_call json_print ic =
     [ToolCallStarted (fst ic) (tc_name (snd ic)),
      ToolCallDelta (fst ic) (AuthoritativeSnapshot (json_print (tc_arguments (snd ic)))),
      ToolCallCompleted (fst ic)]"

definition legacy_ids ::
  "(string \<Rightarrow> string option) \<Rightarrow> api_type \<Rightarrow> tool_call list \<Rightarrow> execution_identity list" where
  "legacy_ids b64_decode api cs =
     map (\<lambda>(p, c). legacy_identity b64_decode api p (tc_id c)) (enumerate 0 cs)"

text \<open>The message of the empty batch.\<close>

definition msg_empty_batch :: string where
  "msg_empty_batch = ''provider '' @ utf8 [36820, 22238, 20102, 31354, 24037, 20855, 35843, 29992, 25209, 27425]"

definition emit_legacy_response ::
  "(string \<Rightarrow> string option) \<Rightarrow> (json \<Rightarrow> string) \<Rightarrow> response \<Rightarrow> api_type \<Rightarrow> provider_event list" where
  "emit_legacy_response b64_decode json_print r api =
     (case r of
        Text t \<Rightarrow> [TextDelta t]
      | ToolCalls cs \<Rightarrow>
          if cs = [] then [ToolCallFailed (new_error ''empty_tool_calls'' msg_empty_batch)]
          else concat (map (legacy_call json_print) (zip (legacy_ids b64_decode api cs) cs))
      | ToolAssemblyFailed e \<Rightarrow> [ToolCallFailed e])"

lemma length_legacy_ids [simp]: "length (legacy_ids b64_decode api cs) = length cs"
  by (simp add: legacy_ids_def)

lemma legacy_ids_eq_Nil [simp]: "legacy_ids b64_decode api cs = [] \<longleftrightarrow> cs = []"
  using length_legacy_ids [of b64_decode api cs] by (simp flip: length_0_conv)

lemma phase_legacy_other:
  "i \<notin> fst ` set ics \<Longrightarrow> foldl (phase_step i) p (concat (map (legacy_call json_print) ics)) = p"
  by (induction ics) (auto simp: legacy_call_def)

lemma args_legacy_other:
  "i \<notin> fst ` set ics \<Longrightarrow> foldl (args_step i) a (concat (map (legacy_call json_print) ics)) = a"
  by (induction ics) (auto simp: legacy_call_def)

lemma name_legacy_other:
  "i \<notin> fst ` set ics \<Longrightarrow> foldl (name_step i) n (concat (map (legacy_call json_print) ics)) = n"
  by (induction ics) (auto simp: legacy_call_def)

lemma legacy_steps:
  assumes "distinct (map fst ics)" and "(i, c) \<in> set ics" and "\<not> is_blank (tc_name c)"
  shows "call_phase i (concat (map (legacy_call json_print) ics)) = Done"
    and "call_name i (concat (map (legacy_call json_print) ics)) = tc_name c"
    and "call_args i (concat (map (legacy_call json_print) ics)) = json_print (tc_arguments c)"
proof -
  obtain xs ys where ics: "ics = xs @ (i, c) # ys" using assms(2) by (meson split_list)
  with assms(1) have "i \<notin> fst ` set xs" "i \<notin> fst ` set ys" by auto
  with assms(3) show "call_phase i (concat (map (legacy_call json_print) ics)) = Done"
    "call_name i (concat (map (legacy_call json_print) ics)) = tc_name c"
    "call_args i (concat (map (legacy_call json_print) ics)) = json_print (tc_arguments c)"
    by (simp_all add: ics call_phase_def call_name_def call_args_def phase_legacy_other
        name_legacy_other args_legacy_other) (simp_all add: legacy_call_def)
qed

lemma started_legacy: "started_ids (concat (map (legacy_call json_print) ics)) = map fst ics"
  by (induction ics) (simp_all add: started_ids_def legacy_call_def)

lemma well_formed_legacy:
  assumes "distinct (map fst ics)" and "\<forall>(i, c) \<in> set ics. \<not> is_blank (tc_name c)"
  shows "well_formed_stream (concat (map (legacy_call json_print) ics))"
proof -
  have "call_phase i (concat (map (legacy_call json_print) ics)) \<noteq> Malformed" for i
  proof (cases "i \<in> fst ` set ics")
    case True
    then obtain c where "(i, c) \<in> set ics" by auto
    with assms have "call_phase i (concat (map (legacy_call json_print) ics)) = Done"
      by (auto intro!: legacy_steps(1))
    then show ?thesis by simp
  next
    case False
    then show ?thesis by (simp add: call_phase_def phase_legacy_other)
  qed
  moreover have "\<not> is_failure ev" if "ev \<in> set (concat (map (legacy_call json_print) ics))" for ev
    using that by (auto simp: legacy_call_def)
  ultimately show ?thesis by (simp add: well_formed_stream_def)
qed

lemma those_expected:
  "(\<And>x. x \<in> set xs \<Longrightarrow> f x = Some (g x)) \<Longrightarrow> those (map f xs) = Some (map g xs)"
  by (induction xs) auto

lemma assemble_legacy:
  assumes dist: "distinct (map fst ics)" and ne: "ics \<noteq> []"
    and nb: "\<forall>(i, c) \<in> set ics. \<not> is_blank (tc_name c)"
    and js: "\<forall>(i, c) \<in> set ics. \<not> is_blank (json_print (tc_arguments c)) \<and>
               json_parse (json_print (tc_arguments c)) = Inr (tc_arguments c)"
    and id: "\<forall>(i, c) \<in> set ics. identity_encode enc i = tc_id c"
  shows "collect_response enc json_parse (concat (map (legacy_call json_print) ics)) =
         ToolCalls (map snd ics)"
proof -
  let ?evs = "concat (map (legacy_call json_print) ics)"
  have call: "call_phase i ?evs = Done \<and> expected_call enc json_parse ?evs i = Some c"
    if "(i, c) \<in> set ics" for i c
  proof -
    note steps = legacy_steps [OF dist that, of json_print]
    show ?thesis using steps that nb js id by (fastforce simp: expected_call_def)
  qed
  have "those (map (expected_call enc json_parse ?evs) (map fst ics)) = Some (map snd ics)"
    unfolding map_map by (rule those_expected) (use call in auto)
  moreover have "list_all (\<lambda>i. call_phase i ?evs = Done) (map fst ics)"
    using call by (auto simp: list_all_iff)
  moreover have "OutputTruncated \<notin> set ?evs" by (auto simp: legacy_call_def)
  ultimately show ?thesis
    using ne well_formed_legacy [OF dist nb]
    by (subst tool_batch_all_or_nothing) (simp add: started_legacy)
qed

text \<open>
  A complete response survives the stream. A non-empty batch of calls whose ids are
  encoded identities, distinct and with non-blank names, and whose arguments the JSON
  library prints and parses back, goes through \<open>emit_legacy_response\<close> and the assembler
  unchanged, in order.
\<close>

theorem legacy_response_roundtrip:
  assumes "b64_inverse b64_encode b64_decode" and "cs \<noteq> []" and "distinct (map tc_id cs)"
    and "\<forall>c \<in> set cs. \<exists>i. identity_ok i \<and> tc_id c = identity_encode b64_encode i"
    and "\<forall>c \<in> set cs. \<not> is_blank (tc_name c)"
    and "\<forall>c \<in> set cs. \<not> is_blank (json_print (tc_arguments c)) \<and>
                      json_parse (json_print (tc_arguments c)) = Inr (tc_arguments c)"
  shows "collect_response b64_encode json_parse
           (emit_legacy_response b64_decode json_print (ToolCalls cs) api) = ToolCalls cs"
proof -
  let ?ids = "legacy_ids b64_decode api cs"
  have enc: "identity_encode b64_encode (legacy_identity b64_decode api p (tc_id c)) = tc_id c"
    if c: "c \<in> set cs" for p c
  proof -
    obtain i where i: "identity_ok i" "tc_id c = identity_encode b64_encode i"
      using bspec [OF assms(4) c] by blast
    have "identity_decode b64_decode (identity_encode b64_encode i) = Some i"
      using assms(1) i(1) by (intro identity_roundtrip) (simp_all add: b64_inverse_def)
    then show ?thesis unfolding legacy_identity_def i(2) by simp
  qed
  have nth: "identity_encode b64_encode (?ids ! n) = tc_id (cs ! n)" if "n < length cs" for n
    using that by (simp add: legacy_ids_def nth_enumerate_eq enc)
  have "map (identity_encode b64_encode) ?ids = map tc_id cs"
    by (rule nth_equalityI) (simp_all add: nth)
  then have "distinct ?ids"
    using assms(3) by (metis distinct_map)
  then have dist: "distinct (map fst (zip ?ids cs))" by simp
  have "identity_encode b64_encode i = tc_id c" if "(i, c) \<in> set (zip ?ids cs)" for i c
    using that by (auto simp: set_zip nth)
  then have "collect_response b64_encode json_parse
      (concat (map (legacy_call json_print) (zip ?ids cs))) = ToolCalls (map snd (zip ?ids cs))"
    using dist assms(2,5,6)
    by (intro assemble_legacy) (auto dest: set_zip_rightD simp: zip_eq_Nil_iff)
  then show ?thesis using assms(2) by (simp add: emit_legacy_response_def)
qed

lemma dec_01: "dec 0 = ''0''" "dec (Suc 0) = ''1''"
  by code_simp+

theorem legacy_response_roundtrip_witness:
  "collect_response id (\<lambda>s. Inr (JStr s))
     (emit_legacy_response Some (\<lambda>v. case v of JStr s \<Rightarrow> s | _ \<Rightarrow> []) (ToolCalls
        [\<lparr>tc_id = ''tc1:ollama:pos:0'', tc_name = ''f'', tc_arguments = JStr ''x''\<rparr>,
         \<lparr>tc_id = ''tc1:ollama:pos:1'', tc_name = ''g'', tc_arguments = JStr ''y''\<rparr>]) OpenaiChat) =
   ToolCalls
        [\<lparr>tc_id = ''tc1:ollama:pos:0'', tc_name = ''f'', tc_arguments = JStr ''x''\<rparr>,
         \<lparr>tc_id = ''tc1:ollama:pos:1'', tc_name = ''g'', tc_arguments = JStr ''y''\<rparr>]"
proof -
  have d: "\<exists>i. identity_ok i \<and> ''tc1:ollama:pos:0'' = identity_encode id i"
    by (rule exI [of _ "position Ollama 0"])
      (simp add: identity_encode_def position_def api_as_str_def dec_01 identity_ok_def)
  have d': "\<exists>i. identity_ok i \<and> ''tc1:ollama:pos:1'' = identity_encode id i"
    by (rule exI [of _ "position Ollama 1"])
      (simp add: identity_encode_def position_def api_as_str_def dec_01 identity_ok_def)
  have nb: "\<not> is_blank ''f''" "\<not> is_blank ''g''" "\<not> is_blank ''x''" "\<not> is_blank ''y''"
    by (simp_all add: not_blankI ascii_ws_def byte_def)
  show ?thesis
    using d d' nb by (intro legacy_response_roundtrip) (simp_all add: b64_inverse_def)
qed

end
