(* ===== verification/Circuit.thy ===== *)
theory Circuit
  imports Prelude
begin

text \<open>
  The per-candidate circuit breaker of \<open>src/provider/circuit.rs\<close>: \<open>entry\<close>, \<open>breaker\<close>,
  \<open>acquire\<close> and \<open>record_outcome\<close> (\<open>record\<close> is a keyword here) are the structs and methods. Every
  method runs under the breaker's mutex, so a call is one step. \<open>Instant\<close>s are read from
  the argument \<open>now\<close> (nanoseconds), and \<open>elapsed\<close> saturates at zero as \<open>Instant::elapsed\<close>
  does, which is subtraction on \<open>nat\<close>.
\<close>

section \<open>State and operations\<close>

datatype circuit_state = Closed | Open | HalfOpen

record entry =
  failures :: u32
  opened_at :: "nat option"
  probe_active :: bool

record breaker =
  entries :: "string \<rightharpoonup> entry"
  open_duration :: nat

definition new_entry :: entry where
  "new_entry = \<lparr>failures = 0, opened_at = None, probe_active = False\<rparr>"

definition default_breaker :: breaker where
  "default_breaker = \<lparr>entries = Map.empty, open_duration = 30 * 10 ^ 9\<rparr>"

text \<open>\<open>entries.entry(key).or_insert(..)\<close>\<close>

definition entry_or_insert :: "breaker \<Rightarrow> string \<Rightarrow> entry" where
  "entry_or_insert b key = (case entries b key of None \<Rightarrow> new_entry | Some e \<Rightarrow> e)"

definition acquire_entry :: "nat \<Rightarrow> nat \<Rightarrow> entry \<Rightarrow> circuit_state \<times> entry" where
  "acquire_entry dur now e =
     (case opened_at e of
        Some at \<Rightarrow>
          if now - at < dur \<or> probe_active e then (Open, e)
          else (HalfOpen, e\<lparr>probe_active := True\<rparr>)
      | None \<Rightarrow> (Closed, e))"

definition acquire :: "nat \<Rightarrow> string \<Rightarrow> breaker \<Rightarrow> circuit_state \<times> breaker" where
  "acquire now key b =
     (let (c, e) = acquire_entry (open_duration b) now (entry_or_insert b key)
      in (c, b\<lparr>entries := (entries b)(key \<mapsto> e)\<rparr>))"

definition record_entry :: "nat \<Rightarrow> bool \<Rightarrow> bool \<Rightarrow> entry \<Rightarrow> circuit_state \<times> entry" where
  "record_entry now success transient_failure e0 =
     (let e = e0\<lparr>probe_active := False\<rparr> in
      if success then (Closed, e\<lparr>failures := 0, opened_at := None\<rparr>)
      else
        let e1 = (if transient_failure then e\<lparr>failures := sat_add (failures e) 1\<rparr>
                  else e\<lparr>failures := 0, opened_at := None\<rparr>)
        in if failures e1 \<ge> 3 then (Open, e1\<lparr>opened_at := Some now\<rparr>) else (Closed, e1))"

definition record_outcome :: "nat \<Rightarrow> string \<Rightarrow> bool \<Rightarrow> bool \<Rightarrow> breaker \<Rightarrow> circuit_state \<times> breaker" where
  "record_outcome now key success transient_failure b =
     (let (c, e) = record_entry now success transient_failure (entry_or_insert b key)
      in (c, b\<lparr>entries := (entries b)(key \<mapsto> e)\<rparr>))"

section \<open>Invariant\<close>

text \<open>
  An entry is open exactly when it has counted three consecutive transient failures, and
  only an open entry has a probe in flight.
\<close>

definition entry_ok :: "entry \<Rightarrow> bool" where
  "entry_ok e \<longleftrightarrow> (opened_at e \<noteq> None \<longleftrightarrow> failures e \<ge> 3) \<and> (probe_active e \<longrightarrow> opened_at e \<noteq> None)"

definition breaker_ok :: "breaker \<Rightarrow> bool" where
  "breaker_ok b \<longleftrightarrow> (\<forall>e \<in> ran (entries b). entry_ok e)"

lemma new_entry_ok: "entry_ok new_entry"
  by (simp add: entry_ok_def new_entry_def)

lemma entry_or_insert_ok: "breaker_ok b \<Longrightarrow> entry_ok (entry_or_insert b key)"
  by (auto simp: breaker_ok_def entry_or_insert_def new_entry_ok ran_def split: option.splits)

lemma breaker_ok_upd:
  "breaker_ok b \<Longrightarrow> entry_ok e \<Longrightarrow> breaker_ok (b\<lparr>entries := (entries b)(key \<mapsto> e)\<rparr>)"
  by (auto simp: breaker_ok_def ran_def)

lemma acquire_entry_ok: "entry_ok e \<Longrightarrow> entry_ok (snd (acquire_entry dur now e))"
  by (auto simp: acquire_entry_def entry_ok_def split: option.splits)

lemma sat_add_one_ge: "3 \<le> f \<Longrightarrow> 3 \<le> sat_add f 1" for f :: u32
  using sat_add_ge order_trans by blast

lemma record_entry_ok: "entry_ok e \<Longrightarrow> entry_ok (snd (record_entry now s t e))"
  by (auto simp: record_entry_def entry_ok_def Let_def dest: sat_add_one_ge)

lemma default_breaker_ok: "breaker_ok default_breaker"
  by (simp add: breaker_ok_def default_breaker_def)

section \<open>The breaker as a step machine\<close>

datatype circuit_op = Acquire nat string | Record nat string bool bool

fun circuit_step :: "breaker \<Rightarrow> circuit_op \<Rightarrow> breaker" where
  "circuit_step b (Acquire now key) = snd (acquire now key b)"
| "circuit_step b (Record now key s t) = snd (record_outcome now key s t b)"

interpretation circuit: step_machine circuit_step breaker_ok
proof
  fix b op assume ok: "breaker_ok b"
  then show "breaker_ok (circuit_step b op)"
    by (cases op)
      (auto simp: acquire_def record_outcome_def Let_def split_beta
        intro!: breaker_ok_upd acquire_entry_ok record_entry_ok entry_or_insert_ok)
qed

section \<open>Refinement of the three-phase breaker\<close>

text \<open>
  The contract a caller relies on: a candidate is in one of three phases, and only the
  phase decides what \<open>acquire\<close> answers.
\<close>

datatype phase = Counting nat | Tripped nat | Probing nat

fun spec_acquire :: "nat \<Rightarrow> nat \<Rightarrow> phase \<Rightarrow> circuit_state \<times> phase" where
  "spec_acquire dur now (Counting n) = (Closed, Counting n)"
| "spec_acquire dur now (Tripped at) =
     (if now - at < dur then (Open, Tripped at) else (HalfOpen, Probing at))"
| "spec_acquire dur now (Probing at) = (Open, Probing at)"

fun spec_record :: "nat \<Rightarrow> bool \<Rightarrow> bool \<Rightarrow> phase \<Rightarrow> circuit_state \<times> phase" where
  "spec_record now True t p = (Closed, Counting 0)"
| "spec_record now False False p = (Closed, Counting 0)"
| "spec_record now False True (Counting n) =
     (if Suc n < 3 then (Closed, Counting (Suc n)) else (Open, Tripped now))"
| "spec_record now False True p = (Open, Tripped now)"

definition phase_of :: "entry \<Rightarrow> phase" where
  "phase_of e = (case opened_at e of
     None \<Rightarrow> Counting (unat (failures e))
   | Some at \<Rightarrow> if probe_active e then Probing at else Tripped at)"

lemma unat_ge_3: "3 \<le> f \<longleftrightarrow> 3 \<le> unat f" for f :: u32
  by (simp add: word_le_nat_alt)

lemma unat_sat_Suc: "unat (sat_add f 1) = Suc (unat f)" if "\<not> 3 \<le> f" for f :: u32
  using that by (simp add: unat_ge_3 unat_sat_add)

lemma acquire_entry_refines:
  assumes "entry_ok e"
  shows "map_prod id phase_of (acquire_entry dur now e) = spec_acquire dur now (phase_of e)"
  using assms by (auto simp: acquire_entry_def phase_of_def entry_ok_def split: option.splits)

lemma record_entry_transient_refines:
  assumes "entry_ok e"
  shows "map_prod id phase_of (record_entry now False True e) = spec_record now False True (phase_of e)"
proof (cases "opened_at e")
  case None
  with assms have f: "\<not> 3 \<le> failures e" by (simp add: entry_ok_def)
  then have "3 \<le> sat_add (failures e) 1 \<longleftrightarrow> \<not> Suc (unat (failures e)) < 3"
    by (simp add: unat_ge_3 [of "sat_add _ _"] unat_sat_Suc not_less)
  with None f show ?thesis
    by (simp add: record_entry_def phase_of_def Let_def unat_sat_Suc del: not_less)
next
  case (Some at)
  with assms have "3 \<le> sat_add (failures e) 1" by (simp add: entry_ok_def sat_add_one_ge)
  with Some show ?thesis by (simp add: record_entry_def phase_of_def Let_def)
qed

lemma record_entry_refines:
  assumes "entry_ok e"
  shows "map_prod id phase_of (record_entry now s t e) = spec_record now s t (phase_of e)"
proof (cases "\<not> s \<and> t")
  case True
  with assms show ?thesis by (simp add: record_entry_transient_refines)
next
  case False
  then consider "s" | "\<not> s" "\<not> t" by blast
  then show ?thesis
    by cases (auto simp: record_entry_def phase_of_def Let_def)
qed

text \<open>
  C10: Refinement. In a breaker whose entries are well formed, \<open>acquire\<close> and \<open>record\<close> act on
  the key's entry exactly as the three-phase breaker does (a \<open>u32\<close> failure counter that
  saturates, an optional opening time and a probe flag implement the phases) and leave
  every other key alone.
\<close>

theorem breaker_refines_phases:
  assumes "breaker_ok b"
  shows "(let (c, b') = acquire now key b; (c', b'') = record_outcome now key s t b in
           (c, phase_of (entry_or_insert b' key)) =
             spec_acquire (open_duration b) now (phase_of (entry_or_insert b key)) \<and>
           (c', phase_of (entry_or_insert b'' key)) =
             spec_record now s t (phase_of (entry_or_insert b key)) \<and>
           (\<forall>k. k \<noteq> key \<longrightarrow> entries b' k = entries b k \<and> entries b'' k = entries b k))"
proof -
  have ok: "entry_ok (entry_or_insert b key)" using assms by (rule entry_or_insert_ok)
  have e: "entry_or_insert (b\<lparr>entries := (entries b)(key \<mapsto> x)\<rparr>) key = x" for x
    by (simp add: entry_or_insert_def)
  show ?thesis
    using acquire_entry_refines [OF ok, of "open_duration b" now] record_entry_refines [OF ok, of now s t]
    by (simp add: acquire_def record_outcome_def Let_def split_beta e prod_eq_iff)
qed

theorem breaker_refines_phases_witness:
  "breaker_ok default_breaker \<and>
   snd (spec_record 5 False True (phase_of (entry_or_insert default_breaker ''a''))) = Counting 1 \<and>
   phase_of (entry_or_insert (snd (record_outcome 5 ''a'' False True default_breaker)) ''a'') = Counting 1"
proof -
  have "snd (spec_record 5 False True (phase_of (entry_or_insert default_breaker ''a''))) = Counting 1"
    by (simp add: entry_or_insert_def default_breaker_def phase_of_def new_entry_def)
  then show ?thesis
    using breaker_refines_phases [OF default_breaker_ok, where now = 5 and key = "''a''" and s = False and t = True] default_breaker_ok
    by (auto simp: Let_def split_beta prod_eq_iff)
qed

section \<open>Admission over a run\<close>

fun circuit_answer :: "string \<Rightarrow> breaker \<Rightarrow> circuit_op \<Rightarrow> circuit_state option" where
  "circuit_answer key b (Acquire now k) = (if k = key then Some (fst (acquire now k b)) else None)"
| "circuit_answer key b (Record now k s t) = None"

fun circuit_answers :: "string \<Rightarrow> breaker \<Rightarrow> circuit_op list \<Rightarrow> circuit_state list" where
  "circuit_answers key b [] = []"
| "circuit_answers key b (op # ops) =
     (case circuit_answer key b op of None \<Rightarrow> [] | Some c \<Rightarrow> [c])
       @ circuit_answers key (circuit_step b op) ops"

fun records_key :: "string \<Rightarrow> circuit_op \<Rightarrow> bool" where
  "records_key key (Record now k s t) \<longleftrightarrow> k = key"
| "records_key key (Acquire now k) \<longleftrightarrow> False"

lemma probing_stays:
  assumes "\<forall>op \<in> set ops. \<not> records_key key op"
    and "opened_at (entry_or_insert b key) = Some at" and "probe_active (entry_or_insert b key)"
  shows "set (circuit_answers key b ops) \<subseteq> {Open}"
  using assms
proof (induction ops arbitrary: b)
  case Nil
  then show ?case by simp
next
  case (Cons op ops)
  have step: "entry_or_insert (circuit_step b op) key = entry_or_insert b key"
    using Cons.prems
    by (cases op) (auto simp: acquire_def acquire_entry_def record_outcome_def Let_def split_beta
        entry_or_insert_def split: option.splits)
  have "set (circuit_answers key (circuit_step b op) ops) \<subseteq> {Open}"
    using Cons.prems by (intro Cons.IH) (simp_all add: step)
  moreover have "circuit_answer key b op \<in> {None, Some Open}"
    using Cons.prems by (cases op) (auto simp: acquire_def acquire_entry_def Let_def split_beta)
  ultimately show ?case by auto
qed

text \<open>
  A tripped candidate lets at most one request through. Whatever is acquired and
  whatever other candidates report, between two outcomes recorded for a key at most one
  \<open>acquire\<close> of that key answers \<open>HalfOpen\<close>.
\<close>

theorem single_half_open_probe:
  assumes "\<forall>op \<in> set ops. \<not> records_key key op"
  shows "count_list (circuit_answers key b ops) HalfOpen \<le> 1"
  using assms
proof (induction ops arbitrary: b)
  case Nil
  then show ?case by simp
next
  case (Cons op ops)
  show ?case
  proof (cases "circuit_answer key b op = Some HalfOpen")
    case False
    with Cons show ?thesis by (auto split: option.splits)
  next
    case True
    then obtain now where op: "op = Acquire now key" and h: "fst (acquire now key b) = HalfOpen"
      by (cases op) (auto split: if_splits)
    from h have "probe_active (entry_or_insert (circuit_step b op) key)"
      and "\<exists>at. opened_at (entry_or_insert (circuit_step b op) key) = Some at"
      by (auto simp: op acquire_def acquire_entry_def Let_def split_beta entry_or_insert_def
          split: option.splits if_splits)
    then have "set (circuit_answers key (circuit_step b op) ops) \<subseteq> {Open}"
      using Cons.prems probing_stays [of ops key "circuit_step b op"] by auto
    then have "HalfOpen \<notin> set (circuit_answers key (circuit_step b op) ops)" by auto
    then have "count_list (circuit_answers key (circuit_step b op) ops) HalfOpen = 0"
      by (simp add: count_list_0_iff)
    with True show ?thesis by simp
  qed
qed

definition tripped_a :: breaker where
  "tripped_a = foldl circuit_step default_breaker (replicate 3 (Record 0 ''a'' False True))"

theorem single_half_open_probe_witness:
  "count_list (circuit_answers ''a'' tripped_a
     [Acquire (31 * 10 ^ 9) ''a'', Record 1 ''b'' False True, Acquire (99 * 10 ^ 9) ''a'']) HalfOpen \<le> 1"
  by (rule single_half_open_probe) simp

lemma all_open_while_open:
  assumes "opened_at (entry_or_insert b key) = Some at"
    and "\<forall>op \<in> set ops. \<not> records_key key op"
    and "\<forall>now. Acquire now key \<in> set ops \<longrightarrow> now - at < open_duration b"
  shows "set (circuit_answers key b ops) \<subseteq> {Open}"
  using assms
proof (induction ops arbitrary: b)
  case Nil
  then show ?case by simp
next
  case (Cons op ops)
  have ans: "circuit_answer key b op \<in> {None, Some Open}"
    using Cons.prems by (cases op) (auto simp: acquire_def acquire_entry_def Let_def split_beta)
  have step: "entry_or_insert (circuit_step b op) key = entry_or_insert b key"
    using Cons.prems
    by (cases op) (auto simp: acquire_def acquire_entry_def record_outcome_def Let_def split_beta
        entry_or_insert_def split: option.splits)
  have dur: "open_duration (circuit_step b op) = open_duration b"
    by (cases op) (simp_all add: acquire_def record_outcome_def Let_def split_beta)
  have "set (circuit_answers key (circuit_step b op) ops) \<subseteq> {Open}"
    using Cons.prems by (intro Cons.IH) (auto simp: step dur)
  with ans show ?case by auto
qed

text \<open>
  Three transient failures in a row trip a candidate, whatever it had counted before:
  until \<open>open_duration\<close> has passed since the last of them, and as long as no outcome is
  recorded for the key, every \<open>acquire\<close> of it answers \<open>Open\<close>.
\<close>

theorem three_failures_trip:
  assumes ok: "breaker_ok b"
    and quiet: "\<forall>op \<in> set ops. \<not> records_key key op"
    and early: "\<forall>now. Acquire now key \<in> set ops \<longrightarrow> now - t3 < open_duration b"
  shows "set (circuit_answers key
           (foldl circuit_step b [Record t1 key False True, Record t2 key False True, Record t3 key False True])
           ops) \<subseteq> {Open}"
proof -
  let ?b1 = "circuit_step b (Record t1 key False True)"
  let ?b2 = "circuit_step ?b1 (Record t2 key False True)"
  let ?b3 = "circuit_step ?b2 (Record t3 key False True)"
  have oks: "breaker_ok ?b1" "breaker_ok ?b2"
    using ok by (blast intro: circuit.step_inv)+
  have ph: "phase_of (entry_or_insert (circuit_step c (Record t key False True)) key) =
      snd (spec_record t False True (phase_of (entry_or_insert c key)))" if "breaker_ok c" for c t
    using record_entry_refines [OF entry_or_insert_ok [OF that], of t False True key]
    by (simp add: record_outcome_def Let_def split_beta entry_or_insert_def prod_eq_iff)
  have "phase_of (entry_or_insert ?b3 key) = Tripped t3"
    unfolding ph [OF oks(2)] ph [OF oks(1)] ph [OF ok]
    by (cases "phase_of (entry_or_insert b key)") auto
  then have "opened_at (entry_or_insert ?b3 key) = Some t3"
    by (auto simp: phase_of_def split: option.splits if_splits)
  moreover have "open_duration ?b3 = open_duration b"
    by (simp add: record_outcome_def Let_def split_beta)
  ultimately have "set (circuit_answers key ?b3 ops) \<subseteq> {Open}"
    using quiet early by (intro all_open_while_open) auto
  then show ?thesis by simp
qed

theorem three_failures_trip_witness:
  "set (circuit_answers ''a''
     (foldl circuit_step default_breaker
        [Record 1 ''a'' False True, Record 2 ''a'' False True, Record 3 ''a'' False True])
     [Acquire 4 ''a'', Record 5 ''b'' True False, Acquire 6 ''a'']) \<subseteq> {Open}"
  by (rule three_failures_trip [OF default_breaker_ok]) (auto simp: default_breaker_def)

end
