(* ===== verification/Retry.thy ===== *)
theory Retry
  imports Provider_Types
begin

text \<open>
  Typed provider errors and the retry policy: \<open>ProviderError::from_http\<close> and
  \<open>parse_retry_after\<close> of \<open>src/provider/error.rs\<close>, \<open>RetryPolicy::decide\<close> of
  \<open>src/provider/retry.rs\<close>. Durations are milliseconds. Parameters: \<open>json_parse\<close>
  (serde_json) and \<open>rfc2822\<close> (chrono), the timestamp of a date in that format.
\<close>

section \<open>Classifying an HTTP failure\<close>

definition safe_char :: "char \<Rightarrow> bool" where
  "safe_char c \<longleftrightarrow> 48 \<le> byte c \<and> byte c \<le> 57 \<or> 65 \<le> byte c \<and> byte c \<le> 90 \<or>
                  97 \<le> byte c \<and> byte c \<le> 122"

definition code_ok :: "string \<Rightarrow> bool" where
  "code_ok code \<longleftrightarrow> length code \<le> 64 \<and>
     list_all (\<lambda>c. safe_char c \<or> c = CHR ''_'' \<or> c = CHR ''-'') code"

definition request_id_ok :: "string \<Rightarrow> bool" where
  "request_id_ok rid \<longleftrightarrow> length rid \<le> 128 \<and>
     list_all (\<lambda>c. safe_char c \<or> c = CHR ''-'' \<or> c = CHR ''_'' \<or> c = CHR ''.'') rid"

definition or_else_get :: "'a option \<Rightarrow> 'a option \<Rightarrow> 'a option" where
  "or_else_get m n = (case m of Some x \<Rightarrow> Some x | None \<Rightarrow> n)"

definition filter_option :: "('a \<Rightarrow> bool) \<Rightarrow> 'a option \<Rightarrow> 'a option" where
  "filter_option p m = (case m of Some x \<Rightarrow> if p x then Some x else None | None \<Rightarrow> None)"

text \<open>\<open>json.pointer("/error/<key>")\<close>\<close>

definition error_pointer :: "string \<Rightarrow> json \<Rightarrow> json option" where
  "error_pointer k v = Option.bind (json_get ''error'' v) (json_get k)"

definition upstream_code_of :: "(string \<Rightarrow> string + json) \<Rightarrow> string \<Rightarrow> string option" where
  "upstream_code_of json_parse body =
     filter_option code_ok
       (case json_parse body of
          Inl e \<Rightarrow> None
        | Inr v \<Rightarrow>
            Option.bind
              (or_else_get (or_else_get (error_pointer ''code'' v) (error_pointer ''type'' v))
                 (json_get ''code'' v))
              json_str)"

definition code_contains :: "string option \<Rightarrow> string \<Rightarrow> bool" where
  "code_contains code p = (case code of None \<Rightarrow> False | Some c \<Rightarrow> contains c p)"

definition http_kind :: "nat \<Rightarrow> string option \<Rightarrow> error_kind" where
  "http_kind status code =
     (if status = 401 then Auth
      else if status = 403 then AccessDenied
      else if status = 429 \<and> code_contains code ''quota'' then QuotaExceeded
      else if status = 429 then RateLimit
      else if status = 400 \<and> (code_contains code ''context'' \<or> code_contains code ''token'')
        then ContextOverflow
      else if status = 400 \<and> (code_contains code ''content_policy'' \<or> code_contains code ''safety'')
        then ContentPolicy
      else if 400 \<le> status \<and> status \<le> 499 then InvalidRequest
      else Server)"

text \<open>
  \<open>parse_retry_after\<close> yields seconds. \<open>now_secs\<close> is the wall clock, \<open>None\<close> when it is
  before the epoch; \<open>saturating_sub\<close> cannot saturate for the timestamps chrono yields.
\<close>

definition parse_retry_after ::
  "(string \<Rightarrow> int option) \<Rightarrow> nat option \<Rightarrow> string \<Rightarrow> nat option" where
  "parse_retry_after rfc2822 now_secs v =
     (case parse_u64 (trim v) of
        Some seconds \<Rightarrow> Some seconds
      | None \<Rightarrow>
          Option.bind (rfc2822 v) (\<lambda>instant.
          map_option (\<lambda>now. nat (max (instant - int now) 0)) now_secs))"

definition millis_u64 :: "nat \<Rightarrow> u64" where
  "millis_u64 secs = of_nat (min (secs * 1000) (2 ^ 64 - 1))"

definition from_http ::
  "(string \<Rightarrow> string + json) \<Rightarrow> (string \<Rightarrow> int option) \<Rightarrow> nat option \<Rightarrow>
   nat \<Rightarrow> string option \<Rightarrow> string option \<Rightarrow> string \<Rightarrow> provider_error" where
  "from_http json_parse rfc2822 now_secs status retry_after request_id body =
     (let code = upstream_code_of json_parse body in
      \<lparr>kind = http_kind status code,
       diag = \<lparr>http_status = Some status, upstream_code = code,
               diag_request_id = filter_option request_id_ok request_id,
               retry_after_ms = map_option millis_u64
                 (Option.bind retry_after (parse_retry_after rfc2822 now_secs))\<rparr>\<rparr>)"

text \<open>
  No response text leaks. Whatever the body and the headers hold, the error carries of
  the body only a code of at most 64 letters, digits, underscores and dashes, and of the
  headers only a request id of at most 128 such characters and dots; the kind depends on
  nothing but the status and that code.
\<close>

theorem from_http_redacted:
  "(let e = from_http json_parse rfc2822 now_secs status retry_after request_id body in
     kind e = http_kind status (upstream_code (diag e)) \<and>
     pred_option code_ok (upstream_code (diag e)) \<and>
     pred_option request_id_ok (diag_request_id (diag e)))"
  by (auto simp: from_http_def upstream_code_of_def filter_option_def Let_def
      split: option.splits sum.splits)

section \<open>The retry decision\<close>

record retry_policy =
  rate_limit_retries :: u32
  transport_retries :: u32
  server_retries :: u32
  timeout_retries :: u32
  protocol_retries :: u32
  max_backoff_ms :: u64

definition default_retry_policy :: retry_policy where
  "default_retry_policy =
     \<lparr>rate_limit_retries = 2, transport_retries = 2, server_retries = 2, timeout_retries = 1,
      protocol_retries = 0, max_backoff_ms = 5000\<rparr>"

datatype retry_decision = Fail | Retry u64 | Fallback

definition retry_budget :: "retry_policy \<Rightarrow> error_kind \<Rightarrow> u32" where
  "retry_budget p k =
     (case k of
        RateLimit \<Rightarrow> rate_limit_retries p
      | Transport \<Rightarrow> transport_retries p
      | Server \<Rightarrow> server_retries p
      | Timeout ph \<Rightarrow> if ph = Overall then 0 else timeout_retries p
      | Protocol \<Rightarrow> protocol_retries p
      | _ \<Rightarrow> 0)"

definition fallback_allowed :: "retry_policy \<Rightarrow> error_kind \<Rightarrow> bool" where
  "fallback_allowed p k =
     (k = RateLimit \<or> k = Transport \<or> k = Server \<or>
      k = Timeout Connect \<or> k = Timeout FirstEvent \<or> k = Timeout StreamIdle \<or>
      k = Protocol \<and> protocol_retries p > 0)"

definition backoff_ms :: "retry_policy \<Rightarrow> u32 \<Rightarrow> u64 option \<Rightarrow> u64" where
  "backoff_ms p prior_retries retry_after =
     (let exponential = sat_mul 100 (push_bit (unat (min prior_retries 6)) 1);
          jitter = (ucast prior_retries * 47 + 31) mod 67
      in min (case retry_after of Some ms \<Rightarrow> ms | None \<Rightarrow> sat_add exponential jitter) (max_backoff_ms p))"

definition decide ::
  "retry_policy \<Rightarrow> error_kind \<Rightarrow> u32 \<Rightarrow> u64 option \<Rightarrow> bool \<Rightarrow> bool \<Rightarrow> retry_decision" where
  "decide p k prior_retries retry_after safe_to_replay more_candidates =
     (if \<not> safe_to_replay then Fail
      else if retry_budget p k > prior_retries then Retry (backoff_ms p prior_retries retry_after)
      else if more_candidates \<and> fallback_allowed p k then Fallback
      else Fail)"

definition retryable :: "error_kind \<Rightarrow> bool" where
  "retryable k \<longleftrightarrow> k \<in> {RateLimit, Transport, Server, Protocol, Timeout Connect, Timeout FirstEvent,
                       Timeout StreamIdle}"

lemma retryable_timeout: "retryable (Timeout ph) \<longleftrightarrow> ph \<noteq> Overall"
  by (cases ph) (simp_all add: retryable_def)

lemma retryable_named: "retryable RateLimit" "retryable Transport" "retryable Server" "retryable Protocol"
  by (simp_all add: retryable_def)

lemma retry_budget_pos:
  assumes "retry_budget p k > prior"
  shows "retryable k"
proof -
  have "retry_budget p k \<noteq> 0" using assms by auto
  then show ?thesis
    by (cases k) (simp_all add: retry_budget_def retryable_timeout retryable_named split: if_splits)
qed

lemma fallback_retryable: "fallback_allowed p k \<Longrightarrow> retryable k"
  by (auto simp: fallback_allowed_def retryable_def)

lemma sat_add_word_le: "a \<le> 6400 \<Longrightarrow> b \<le> 66 \<Longrightarrow> sat_add a b = a + b" for a b :: u64
  by (simp add: sat_add_def word_le_nat_alt)

text \<open>The unbounded part of the delay: doubling from 100 ms up to 6.4 s, plus a jitter below 67 ms.\<close>

lemma backoff_None:
  "backoff_ms p prior None = min (100 * 2 ^ unat (min prior 6) + (ucast prior * 47 + 31) mod 67)
     (max_backoff_ms p)"
proof -
  have "prior \<ge> 6 \<or> prior = 0 \<or> prior = 1 \<or> prior = 2 \<or> prior = 3 \<or> prior = 4 \<or> prior = 5"
    by unat_arith
  then have six: "min prior 6 \<in> {0, 1, 2, 3, 4, 5, 6}"
    by (auto simp: min_def)
  have e: "sat_mul 100 (2 ^ unat (min prior 6) :: u64) = 100 * 2 ^ unat (min prior 6)"
    and le: "100 * 2 ^ unat (min prior 6) \<le> (6400 :: u64)"
    using six by (auto simp: sat_mul_def)
  have "(ucast prior * 47 + 31 :: u64) mod 67 \<le> 66"
    by (simp add: word_le_nat_alt unat_mod)
  then show ?thesis
    by (simp add: backoff_ms_def e sat_add_word_le [OF le])
qed

text \<open>
  The retry decision. An attempt that already published output or part of a tool call
  is never repeated; only rate limits, transport, server, protocol errors and the timeouts
  other than the overall one are ever retried or handed to another candidate; a retry is
  within its kind's budget and waits at most \<open>max_backoff_ms\<close>; a fallback needs another
  candidate and an exhausted budget.
\<close>

theorem decide_sound:
  "(\<not> safe \<longrightarrow> decide p k prior ra safe others = Fail) \<and>
   (decide p k prior ra safe others \<noteq> Fail \<longrightarrow> retryable k) \<and>
   (\<forall>ms. decide p k prior ra safe others = Retry ms \<longrightarrow>
      prior < retry_budget p k \<and> ms \<le> max_backoff_ms p \<and> (\<forall>r. ra = Some r \<longrightarrow> ms \<le> r)) \<and>
   (decide p k prior ra safe others = Fallback \<longrightarrow> others \<and> retry_budget p k \<le> prior)"
  by (auto simp: decide_def backoff_ms_def Let_def not_less
      dest: retry_budget_pos fallback_retryable split: if_splits option.splits)

theorem decide_sound_witness:
  "decide default_retry_policy RateLimit 0 (Some 250) True False = Retry 250 \<and>
   decide default_retry_policy RateLimit 2 None True True = Fallback \<and>
   decide default_retry_policy Server 0 None False True = Fail \<and> retryable RateLimit"
proof -
  have r: "decide default_retry_policy RateLimit 0 (Some 250) True False = Retry 250"
    by (simp add: decide_def default_retry_policy_def retry_budget_def backoff_ms_def)
  have "retryable RateLimit" "decide default_retry_policy Server 0 None False True = Fail"
    using decide_sound [of True default_retry_policy RateLimit 0 "Some 250" False] r
      decide_sound [of False default_retry_policy Server 0 None True] by simp_all
  then show ?thesis
    using r by (simp add: decide_def default_retry_policy_def retry_budget_def fallback_allowed_def)
qed

end
