(* ===== verification/ModelRequest.thy ===== *)
theory ModelRequest
  imports ToolCalls Circuit Retry
begin

text \<open>
  One model request of the loop engine: \<open>LoopEngine::request_model\<close> and
  \<open>request_model_once\<close> of \<open>src/loop_engine.rs\<close> with \<open>AttemptObservation\<close>,
  \<open>consume_provider_event\<close> and \<open>finish_attempt\<close>. Candidates are tried in route order;
  each attempt streams events into the assembler, is audited, feeds the circuit breaker and
  is then retried, handed to the next candidate or ended.

  What the code cannot decide itself is the environment, given per attempt: the events
  that arrived with their wall-clock times, how the provider future or the select loop
  ended, whether cancellation was requested, whether overflow compaction produced a smaller
  input, and the instants the breaker reads. The audit store is a predicate that accepts or
  refuses each record (a refused one is the \<open>?\<close> on a storage error), or absent.
\<close>

section \<open>Observing the stream\<close>

record observation =
  response_started :: bool
  first_event :: bool
  first_event_at_ms :: "int option"
  protocol_done :: bool
  stream_committed :: bool
  tool_call_seen :: bool
  obs_truncated :: bool
  obs_usage :: "provider_usage option"

definition default_observation :: observation where
  "default_observation = \<lparr>response_started = False, first_event = False, first_event_at_ms = None,
     protocol_done = False, stream_committed = False, tool_call_seen = False,
     obs_truncated = False, obs_usage = None\<rparr>"

definition mark_first_event :: "int \<Rightarrow> observation \<Rightarrow> observation" where
  "mark_first_event now ob =
     (if first_event ob then ob else ob\<lparr>first_event := True, first_event_at_ms := Some now\<rparr>)"

definition observe_text :: "int \<Rightarrow> string \<Rightarrow> observation \<Rightarrow> observation" where
  "observe_text now t ob =
     (if t \<noteq> [] then mark_first_event now (ob\<lparr>stream_committed := True\<rparr>) else ob)"

definition observe_tool :: "int \<Rightarrow> observation \<Rightarrow> observation" where
  "observe_tool now ob =
     mark_first_event now (ob\<lparr>tool_call_seen := True, stream_committed := True\<rparr>)"

fun observe :: "observation \<Rightarrow> int \<times> provider_event \<Rightarrow> observation" where
  "observe ob (now, ResponseStarted) = ob\<lparr>response_started := True\<rparr>"
| "observe ob (now, ProtocolDone) = ob\<lparr>protocol_done := True\<rparr>"
| "observe ob (now, Usage u) =
     ob\<lparr>obs_usage := Some (merge_partial
        (case obs_usage ob of None \<Rightarrow> empty_usage | Some v \<Rightarrow> v) u)\<rparr>"
| "observe ob (now, TextDelta t) = observe_text now t ob"
| "observe ob (now, ThinkingDelta t) = observe_text now t ob"
| "observe ob (now, ToolCallStarted i n) = observe_tool now ob"
| "observe ob (now, ToolCallDelta i f) = observe_tool now ob"
| "observe ob (now, ToolCallCompleted i) = observe_tool now ob"
| "observe ob (now, ToolCallFailed e) = observe_tool now ob"
| "observe ob (now, OutputTruncated) = mark_first_event now (ob\<lparr>obs_truncated := True\<rparr>)"

definition observe_all :: "(int \<times> provider_event) list \<Rightarrow> observation" where
  "observe_all evs = foldl observe default_observation evs"

text \<open>What the entry points see of the stream.\<close>

datatype agent_event = AThinkingDelta string | AThinkingFinished | ATextDelta string

record stream_state =
  asm :: assembler
  thinking :: string
  thinking_active :: bool
  emitted :: "agent_event list"

definition init_stream :: stream_state where
  "init_stream = \<lparr>asm = default_assembler, thinking = [], thinking_active = False, emitted = []\<rparr>"

definition finish_thinking :: "stream_state \<Rightarrow> stream_state" where
  "finish_thinking s =
     (if thinking_active s then s\<lparr>emitted := emitted s @ [AThinkingFinished], thinking_active := False\<rparr>
      else s)"

definition consume_provider_event ::
  "(string \<Rightarrow> string) \<Rightarrow> stream_state \<Rightarrow> provider_event \<Rightarrow> stream_state" where
  "consume_provider_event enc s ev =
     (case ev of
        ThinkingDelta d \<Rightarrow>
          if d \<noteq> [] then
            s\<lparr>thinking := thinking s @ d, thinking_active := True,
              emitted := emitted s @ [AThinkingDelta d]\<rparr>
          else s
      | _ \<Rightarrow>
          let (out, a) = accept enc (asm s) ev; s' = s\<lparr>asm := a\<rparr> in
          case out of
            None \<Rightarrow> s'
          | Some d \<Rightarrow> (finish_thinking s')\<lparr>emitted := emitted (finish_thinking s') @ [ATextDelta d]\<rparr>)"

section \<open>One attempt\<close>

datatype model_error = MProvider provider_error | MCancelled | MStorage | MOther

record model_output =
  out_response :: response
  out_thinking :: "string option"

definition request_model_once ::
  "(string \<Rightarrow> string) \<Rightarrow> (string \<Rightarrow> string + json) \<Rightarrow> (int \<times> provider_event) list \<Rightarrow>
   model_error + unit \<Rightarrow> observation \<times> agent_event list \<times> (model_error + model_output)" where
  "request_model_once enc json_parse evs provider_result =
     (let s = finish_thinking (foldl (consume_provider_event enc) init_stream (map snd evs));
          ob = observe_all evs
      in (ob, emitted s,
          case provider_result of
            Inl e \<Rightarrow> Inl e
          | Inr u \<Rightarrow>
              if response_started ob \<and> \<not> protocol_done ob then Inl (MProvider (plain_error Protocol))
              else Inr \<lparr>out_response = finish enc json_parse (asm s),
                        out_thinking = (if thinking s \<noteq> [] then Some (thinking s) else None)\<rparr>))"

text \<open>The typed failure \<open>request_model\<close> makes of an attempt's outcome, if it is one.\<close>

definition as_provider_error :: "model_error \<Rightarrow> provider_error" where
  "as_provider_error e =
     (case e of MProvider pe \<Rightarrow> pe | MCancelled \<Rightarrow> plain_error Cancelled | _ \<Rightarrow> plain_error Protocol)"

definition attempt_result ::
  "observation \<Rightarrow> model_error + model_output \<Rightarrow> provider_error + model_output" where
  "attempt_result ob outcome =
     (case outcome of
        Inl e \<Rightarrow> Inl (as_provider_error e)
      | Inr output \<Rightarrow>
          if obs_truncated ob then Inl (plain_error KOutputTruncated)
          else if out_response output = Text [] then
            Inl (plain_error (if out_thinking output \<noteq> None then ReasoningOnly else EmptyCompletion))
          else Inr output)"

definition assembly_failed :: "response \<Rightarrow> bool" where
  "assembly_failed r = (case r of ToolAssemblyFailed e \<Rightarrow> True | _ \<Rightarrow> False)"

definition transient_kind :: "error_kind \<Rightarrow> bool" where
  "transient_kind k = (case k of RateLimit \<Rightarrow> True | Transport \<Rightarrow> True | Server \<Rightarrow> True
                        | Timeout ph \<Rightarrow> True | _ \<Rightarrow> False)"

section \<open>The candidate loop\<close>

datatype audit_event =
    CircuitSkip nat
  | AttemptStarted nat
  | AttemptFinished nat attempt_status "error_kind option" observation
  | CircuitNoted nat circuit_state
  | RetryNoted nat error_kind u64
  | FallbackNoted nat error_kind

record attempt_env =
  env_cancelled :: bool
  env_events :: "(int \<times> provider_event) list"
  env_result :: "model_error + unit"
  env_instant :: nat
  env_compacts :: bool
  env_cancels_backoff :: bool

text \<open>
  \<open>provider_calls\<close> lists the requests really sent, by candidate and with what was observed;
  the environment of an attempt is looked up by its number in that list.
\<close>

record request_state =
  circuit :: breaker
  audit_log :: "audit_event list"
  provider_calls :: "(nat \<times> observation) list"

record request_config =
  rq_enc :: "string \<Rightarrow> string"
  rq_parse :: "string \<Rightarrow> string + json"
  rq_policy :: retry_policy
  rq_keys :: "string list"
  rq_store :: "(audit_event list \<Rightarrow> audit_event \<Rightarrow> bool) option"
  rq_env :: "nat \<Rightarrow> attempt_env"
  rq_acquire_at :: "nat \<Rightarrow> nat"

datatype loop_exit = ReturnErr model_error | ReturnOk model_output | NextCandidate

record loop_state =
  rs :: request_state
  compacted :: bool
  prior_retries :: u32
  last_error :: provider_error

definition audit ::
  "request_config \<Rightarrow> audit_event \<Rightarrow> loop_state \<Rightarrow>
   (loop_state \<Rightarrow> loop_exit option \<times> loop_state) \<Rightarrow> loop_exit option \<times> loop_state" where
  "audit cfg ev l k =
     (case rq_store cfg of
        None \<Rightarrow> k l
      | Some ok \<Rightarrow>
          if ok (audit_log (rs l)) ev
          then k (l\<lparr>rs := (rs l)\<lparr>audit_log := audit_log (rs l) @ [ev]\<rparr>\<rparr>)
          else (Some (ReturnErr MStorage), l))"

definition record_circuit ::
  "request_config \<Rightarrow> nat \<Rightarrow> nat \<Rightarrow> bool \<Rightarrow> bool \<Rightarrow> loop_state \<Rightarrow> circuit_state \<times> loop_state" where
  "record_circuit cfg idx now success transient l =
     (let (c, b) = record_outcome now (rq_keys cfg ! idx) success transient (circuit (rs l))
      in (c, l\<lparr>rs := (rs l)\<lparr>circuit := b\<rparr>\<rparr>))"

definition attempt_succeeded ::
  "request_config \<Rightarrow> nat \<Rightarrow> attempt_env \<Rightarrow> observation \<Rightarrow> model_output \<Rightarrow> loop_state \<Rightarrow>
   loop_exit option \<times> loop_state" where
  "attempt_succeeded cfg idx env ob output l0 =
     (let failed = assembly_failed (out_response output);
          l = (if failed then l0\<lparr>last_error := plain_error Protocol\<rparr> else l0) in
      audit cfg (AttemptFinished idx (if failed then Failed else Succeeded)
                   (if failed then Some Protocol else None) ob) l (\<lambda>l.
      let (c, l) = record_circuit cfg idx (env_instant env) (\<not> failed) False l in
      audit cfg (CircuitNoted idx c) l (\<lambda>l. (Some (ReturnOk output), l))))"

definition choose_next ::
  "request_config \<Rightarrow> nat \<Rightarrow> attempt_env \<Rightarrow> bool \<Rightarrow> circuit_state \<Rightarrow> provider_error \<Rightarrow> loop_state \<Rightarrow>
   loop_exit option \<times> loop_state" where
  "choose_next cfg idx env safe c e l =
     (let others = (idx + 1 < length (rq_keys cfg));
          d = decide (rq_policy cfg) (kind e) (prior_retries l) (retry_after_ms (diag e)) safe others;
          d = (case d of
                 Retry ms \<Rightarrow> if c = Open then (if safe \<and> others then Fallback else Fail) else d
               | _ \<Rightarrow> d);
          l = l\<lparr>last_error := e\<rparr>
      in case d of
           Retry ms \<Rightarrow>
             audit cfg (RetryNoted idx (kind e) ms) l (\<lambda>l.
             let l = l\<lparr>prior_retries := prior_retries l + 1\<rparr> in
             (if env_cancels_backoff env then Some (ReturnErr MCancelled) else None, l))
         | Fallback \<Rightarrow>
             audit cfg (FallbackNoted idx (kind e)) l (\<lambda>l. (Some NextCandidate, l))
         | Fail \<Rightarrow> (Some (ReturnErr (MProvider e)), l))"

definition attempt_failed ::
  "request_config \<Rightarrow> nat \<Rightarrow> attempt_env \<Rightarrow> observation \<Rightarrow> provider_error \<Rightarrow> loop_state \<Rightarrow>
   loop_exit option \<times> loop_state" where
  "attempt_failed cfg idx env ob e l =
     audit cfg (AttemptFinished idx (if kind e = Cancelled then ACancelled else Failed) (Some (kind e)) ob) l (\<lambda>l.
     let (c, l) = record_circuit cfg idx (env_instant env) False (transient_kind (kind e)) l in
     audit cfg (CircuitNoted idx c) l (\<lambda>l.
     let safe = (\<not> stream_committed ob \<and> \<not> tool_call_seen ob) in
     if kind e = ContextOverflow \<and> \<not> compacted l \<and> safe then
       let l = l\<lparr>compacted := True\<rparr> in
       if env_compacts env then (None, l) else choose_next cfg idx env safe c e l
     else choose_next cfg idx env safe c e l))"

definition attempt_step :: "request_config \<Rightarrow> nat \<Rightarrow> loop_state \<Rightarrow> loop_exit option \<times> loop_state" where
  "attempt_step cfg idx l =
     (let env = rq_env cfg (length (provider_calls (rs l))) in
      if env_cancelled env then (Some (ReturnErr MCancelled), l)
      else audit cfg (AttemptStarted idx) l (\<lambda>l.
        let (ob, shown, outcome) =
              request_model_once (rq_enc cfg) (rq_parse cfg) (env_events env) (env_result env);
            l = l\<lparr>rs := (rs l)\<lparr>provider_calls := provider_calls (rs l) @ [(idx, ob)]\<rparr>\<rparr>
        in case attempt_result ob outcome of
             Inr output \<Rightarrow> attempt_succeeded cfg idx env ob output l
           | Inl e \<Rightarrow> attempt_failed cfg idx env ob e l))"

section \<open>The loops terminate\<close>

definition max_budget :: "retry_policy \<Rightarrow> u32" where
  "max_budget p = max (rate_limit_retries p) (max (transport_retries p) (max (server_retries p)
                    (max (timeout_retries p) (protocol_retries p))))"

lemma retry_budget_le_max: "retry_budget p k \<le> max_budget p"
  by (cases k) (auto simp: retry_budget_def max_budget_def le_max_iff_disj)

lemma decide_Retry_budget: "decide p k prior ra safe others = Retry ms \<Longrightarrow> prior < max_budget p"
  using retry_budget_le_max [of p k] by (auto simp: decide_def split: if_splits)

lemma audit_cases:
  assumes "audit cfg ev l k = (x, l')"
  obtains l1 where "k l1 = (x, l')" "rs l1 = (rs l)\<lparr>audit_log := audit_log (rs l1)\<rparr>"
      "l1 = l\<lparr>rs := rs l1\<rparr>" "audit_log (rs l1) \<in> {audit_log (rs l), audit_log (rs l) @ [ev]}"
  | "x = Some (ReturnErr MStorage)" "l' = l"
proof (cases "rq_store cfg")
  case None
  with assms that(1) [of l] show thesis by (simp add: audit_def)
next
  case (Some ok)
  show thesis
  proof (cases "ok (audit_log (rs l)) ev")
    case True
    with Some assms that(1) [of "l\<lparr>rs := (rs l)\<lparr>audit_log := audit_log (rs l) @ [ev]\<rparr>\<rparr>"]
    show thesis by (simp add: audit_def)
  next
    case False
    with Some assms that(2) show thesis by (simp add: audit_def)
  qed
qed

text \<open>
  \<open>more_loop l l'\<close>: what an iteration that goes round again has consumed, the one compaction
  or one unit of retry budget.
\<close>

definition more_loop :: "retry_policy \<Rightarrow> loop_state \<Rightarrow> loop_state \<Rightarrow> bool" where
  "more_loop p l l' \<longleftrightarrow> (compacted l \<longrightarrow> compacted l') \<and>
     (\<not> compacted l \<and> compacted l' \<and> prior_retries l' = prior_retries l \<or>
      prior_retries l < max_budget p \<and> prior_retries l' = prior_retries l + 1)"

lemma choose_next_None:
  assumes "choose_next cfg idx env safe c e l = (None, l')"
  shows "compacted l' = compacted l \<and> prior_retries l < max_budget (rq_policy cfg) \<and>
         prior_retries l' = prior_retries l + 1"
proof -
  obtain ms where d: "decide (rq_policy cfg) (kind e) (prior_retries l) (retry_after_ms (diag e)) safe
      (idx + 1 < length (rq_keys cfg)) = Retry ms" and "c \<noteq> Open"
    using assms by (auto simp: choose_next_def Let_def audit_def
        split: retry_decision.splits if_splits option.splits)
  then show ?thesis
    using assms decide_Retry_budget [OF d]
    by (auto simp: choose_next_def Let_def audit_def split: if_splits option.splits)
qed

lemma attempt_failed_None:
  assumes "attempt_failed cfg idx env ob e l = (None, l')"
  shows "more_loop (rq_policy cfg) l l'"
  using assms
  by (auto simp: attempt_failed_def audit_def record_circuit_def Let_def more_loop_def split_beta
      split: option.splits if_splits dest!: choose_next_None)

lemma attempt_succeeded_exits: "attempt_succeeded cfg idx env ob out l \<noteq> (None, l')"
  by (auto simp: attempt_succeeded_def audit_def record_circuit_def Let_def split_beta
      split: option.splits if_splits)

lemma attempt_step_None:
  assumes "attempt_step cfg idx l = (None, l')"
  shows "more_loop (rq_policy cfg) l l'"
  using assms
  by (auto simp: attempt_step_def audit_def Let_def split_beta attempt_succeeded_exits more_loop_def
      split: option.splits if_splits sum.splits dest!: attempt_failed_None)

definition attempts_left :: "retry_policy \<Rightarrow> loop_state \<Rightarrow> nat" where
  "attempts_left p l = (if compacted l then 0 else 1) + (unat (max_budget p) - unat (prior_retries l))"

lemma more_loop_left: "more_loop p l l' \<Longrightarrow> attempts_left p l' < attempts_left p l"
proof -
  have inc: "unat (q + 1) = Suc (unat q)" if "q < m" for q m :: u32
    using that by unat_arith
  assume "more_loop p l l'"
  then consider "\<not> compacted l" "compacted l'" "prior_retries l' = prior_retries l"
    | "compacted l \<longrightarrow> compacted l'" "prior_retries l < max_budget p" "prior_retries l' = prior_retries l + 1"
    by (auto simp: more_loop_def)
  then show ?thesis
  proof cases
    case 1
    then show ?thesis by (simp add: attempts_left_def)
  next
    case 2
    then show ?thesis
      using inc [OF 2(2)] by (auto simp: attempts_left_def word_less_nat_alt)
  qed
qed

text \<open>The inner \<open>loop\<close> of \<open>request_model\<close>, for one candidate.\<close>

function attempt_loop :: "request_config \<Rightarrow> nat \<Rightarrow> loop_state \<Rightarrow> loop_exit \<times> loop_state" where
  "attempt_loop cfg idx l =
     (case attempt_step cfg idx l of
        (Some x, l') \<Rightarrow> (x, l')
      | (None, l') \<Rightarrow> attempt_loop cfg idx l')"
  by pat_completeness auto
termination
  by (relation "measure (\<lambda>(cfg, idx, l). attempts_left (rq_policy cfg) l)")
     (auto dest!: sym [of "(_, _)"] attempt_step_None more_loop_left)

declare attempt_loop.simps [simp del]

text \<open>The outer loop over the candidates from \<open>idx\<close> on; an open circuit skips one.\<close>

function candidate_loop ::
  "request_config \<Rightarrow> nat \<Rightarrow> loop_state \<Rightarrow> (model_error + model_output) \<times> request_state" where
  "candidate_loop cfg idx l =
     (if idx \<ge> length (rq_keys cfg) then (Inl (MProvider (last_error l)), rs l)
      else
        let (c, b) = acquire (rq_acquire_at cfg idx) (rq_keys cfg ! idx) (circuit (rs l));
            l = l\<lparr>rs := (rs l)\<lparr>circuit := b\<rparr>\<rparr>
        in case (if c = Open then audit cfg (CircuitSkip idx) l (\<lambda>l. (Some NextCandidate, l))
                 else map_prod Some id (attempt_loop cfg idx (l\<lparr>prior_retries := 0\<rparr>))) of
             (Some (ReturnErr e), l) \<Rightarrow> (Inl e, rs l)
           | (Some (ReturnOk output), l) \<Rightarrow> (Inr output, rs l)
           | (_, l) \<Rightarrow> candidate_loop cfg (Suc idx) l)"
  by pat_completeness auto
termination
  by (relation "measure (\<lambda>(cfg, idx, l). length (rq_keys cfg) - idx)") auto

declare candidate_loop.simps [simp del]

text \<open>\<open>request_model\<close> with a frozen route; \<open>cancelled\<close> is the check at its head.\<close>

definition request_model ::
  "request_config \<Rightarrow> bool \<Rightarrow> breaker \<Rightarrow> (model_error + model_output) \<times> request_state" where
  "request_model cfg cancelled b =
     (let st = \<lparr>circuit = b, audit_log = [], provider_calls = []\<rparr> in
      if cancelled then (Inl MCancelled, st)
      else candidate_loop cfg 0
        \<lparr>rs = st, compacted = False, prior_retries = 0, last_error = plain_error Server\<rparr>)"

section \<open>What one iteration does to the requests sent\<close>

definition unpublished :: "observation \<Rightarrow> bool" where
  "unpublished ob \<longleftrightarrow> \<not> stream_committed ob \<and> \<not> tool_call_seen ob"

abbreviation calls_of :: "loop_state \<Rightarrow> (nat \<times> observation) list" where
  "calls_of l \<equiv> provider_calls (rs l)"

text \<open>
  The exits that lead to another request are taken only from an unpublished attempt; the
  others add nothing to the requests sent.
\<close>

definition goes_on :: "loop_exit option \<Rightarrow> bool" where
  "goes_on x \<longleftrightarrow> x = None \<or> x = Some NextCandidate"

lemma audit_rule:
  assumes "\<And>log. P (k (l\<lparr>rs := (rs l)\<lparr>audit_log := log\<rparr>\<rparr>))"
    and "P (Some (ReturnErr MStorage), l)"
  shows "P (audit cfg ev l k)"
proof (cases "rq_store cfg")
  case None
  have "P (k l)" using assms(1) [of "audit_log (rs l)"] by simp
  with None show ?thesis by (simp add: audit_def)
next
  case (Some ok)
  with assms show ?thesis by (simp add: audit_def)
qed

lemma goes_on_simps [simp]:
  "goes_on None" "goes_on (Some NextCandidate)" "\<not> goes_on (Some (ReturnErr e))"
  "\<not> goes_on (Some (ReturnOk out))"
  by (simp_all add: goes_on_def)

lemma record_circuit_calls [simp]: "calls_of (snd (record_circuit cfg idx now su tr l)) = calls_of l"
  by (simp add: record_circuit_def split_beta)

lemma choose_next_calls:
  "calls_of (snd (choose_next cfg idx env safe c e l)) = calls_of l \<and>
   (goes_on (fst (choose_next cfg idx env safe c e l)) \<longrightarrow> safe)"
proof (cases "decide (rq_policy cfg) (kind e) (prior_retries l) (retry_after_ms (diag e)) safe
          (idx + 1 < length (rq_keys cfg))")
  case Fail
  then show ?thesis by (simp add: choose_next_def Let_def)
next
  case (Retry ms)
  then have safe by (auto simp: decide_def split: if_splits)
  with Retry show ?thesis
    by (auto simp: choose_next_def Let_def audit_def split: option.splits)
next
  case Fallback
  then have safe by (auto simp: decide_def split: if_splits)
  with Fallback show ?thesis
    by (auto simp: choose_next_def Let_def audit_def split: option.splits)
qed

lemma choose_next_calls_same [simp]: "calls_of (snd (choose_next cfg idx env safe c e l)) = calls_of l"
  and choose_next_unsafe [simp]: "\<not> goes_on (fst (choose_next cfg idx env False c e l))"
  using choose_next_calls by blast+

lemma attempt_failed_calls:
  "calls_of (snd (attempt_failed cfg idx env ob e l)) = calls_of l \<and>
   (goes_on (fst (attempt_failed cfg idx env ob e l)) \<longrightarrow> unpublished ob)"
  unfolding attempt_failed_def Let_def split_beta
  by (intro audit_rule [where P = "\<lambda>r. calls_of (snd r) = calls_of l \<and> (goes_on (fst r) \<longrightarrow> unpublished ob)"])
     (auto simp: unpublished_def)

lemma attempt_succeeded_calls:
  "calls_of (snd (attempt_succeeded cfg idx env ob out l)) = calls_of l \<and>
   \<not> goes_on (fst (attempt_succeeded cfg idx env ob out l))"
  unfolding attempt_succeeded_def Let_def split_beta
  by (intro audit_rule [where P = "\<lambda>r. calls_of (snd r) = calls_of l \<and> \<not> goes_on (fst r)"]) auto

definition step_sends :: "nat \<Rightarrow> loop_state \<Rightarrow> loop_exit option \<times> loop_state \<Rightarrow> bool" where
  "step_sends idx l r \<longleftrightarrow>
     (\<exists>ob. calls_of (snd r) = calls_of l @ [(idx, ob)] \<and> (goes_on (fst r) \<longrightarrow> unpublished ob)) \<or>
     calls_of (snd r) = calls_of l \<and> \<not> goes_on (fst r)"

lemma attempt_failed_sends:
  "calls_of m = calls_of l @ [(idx, ob)] \<Longrightarrow> step_sends idx l (attempt_failed cfg idx env ob e m)"
  using attempt_failed_calls [of cfg idx env ob e m] by (simp add: step_sends_def)

lemma attempt_succeeded_sends:
  "calls_of m = calls_of l @ [(idx, ob)] \<Longrightarrow> step_sends idx l (attempt_succeeded cfg idx env ob out m)"
  using attempt_succeeded_calls [of cfg idx env ob out m] by (simp add: step_sends_def)

lemma attempt_step_sends: "step_sends idx l (attempt_step cfg idx l)"
proof (cases "env_cancelled (rq_env cfg (length (calls_of l)))")
  case True
  then show ?thesis by (simp add: attempt_step_def Let_def step_sends_def)
next
  case False
  have err: "step_sends idx l (Some (ReturnErr MStorage), l)" by (simp add: step_sends_def)
  show ?thesis
    unfolding attempt_step_def Let_def split_beta if_not_P [OF False]
    by (intro audit_rule [where P = "step_sends idx l"] err)
       (auto split: sum.splits intro!: attempt_failed_sends attempt_succeeded_sends)
qed

text \<open>Compaction happens at most once.\<close>

lemma record_circuit_compacted [simp]:
  "compacted (snd (record_circuit cfg idx now su tr l)) = compacted l"
  by (simp add: record_circuit_def split_beta)

lemma choose_next_compacted [simp]: "compacted (snd (choose_next cfg idx env safe c e l)) = compacted l"
  by (auto simp: choose_next_def Let_def audit_def split: retry_decision.splits option.splits)

lemma attempt_failed_compacted: "compacted l \<Longrightarrow> compacted (snd (attempt_failed cfg idx env ob e l))"
  unfolding attempt_failed_def Let_def split_beta
  by (intro audit_rule [where P = "\<lambda>r. compacted (snd r)"]) auto

lemma attempt_succeeded_compacted: "compacted l \<Longrightarrow> compacted (snd (attempt_succeeded cfg idx env ob out l))"
  unfolding attempt_succeeded_def Let_def split_beta
  by (intro audit_rule [where P = "\<lambda>r. compacted (snd r)"]) auto

lemma attempt_step_compacted: "compacted l \<Longrightarrow> compacted (snd (attempt_step cfg idx l))"
  unfolding attempt_step_def Let_def split_beta
  by (auto intro!: audit_rule [where P = "\<lambda>r. compacted (snd r)"] attempt_failed_compacted
      attempt_succeeded_compacted split: sum.splits)

section \<open>No replay, bounded attempts\<close>

text \<open>
  The sent requests of a state are well ordered when only the last one can have published
  and the candidates were tried in route order.
\<close>

definition all_unpublished :: "(nat \<times> observation) list \<Rightarrow> bool" where
  "all_unpublished cs \<longleftrightarrow> list_all (\<lambda>(idx, ob). unpublished ob) cs"

lemma attempt_loop_sends:
  assumes "attempt_loop cfg idx l = (x, l')" and "all_unpublished (calls_of l)"
  shows "(\<exists>obs. calls_of l' = calls_of l @ map (Pair idx) obs) \<and>
         all_unpublished (butlast (calls_of l')) \<and>
         (x = NextCandidate \<longrightarrow> all_unpublished (calls_of l')) \<and>
         length (calls_of l') + (if compacted l' then 0 else 1) \<le>
           length (calls_of l) + 1 + attempts_left (rq_policy cfg) l"
  using assms
proof (induction cfg idx l rule: attempt_loop.induct)
  case (1 cfg idx l)
  obtain y m where step: "attempt_step cfg idx l = (y, m)" by fastforce
  have sends: "step_sends idx l (y, m)" using attempt_step_sends [of idx l cfg] by (simp add: step)
  show ?case
  proof (cases y)
    case (Some z)
    then have l': "l' = m" "z = x" using "1.prems"(1) step by (simp_all add: attempt_loop.simps)
    have bl: "all_unpublished (butlast (calls_of l))"
      using "1.prems"(2) by (auto simp: all_unpublished_def list_all_iff dest: in_set_butlastD)
    have budget: "(if compacted m then 0 else 1) \<le> attempts_left (rq_policy cfg) l"
      using attempt_step_compacted [of l cfg idx] step by (auto simp: attempts_left_def)
    from sends consider ob where "calls_of m = calls_of l @ [(idx, ob)]" "goes_on y \<longrightarrow> unpublished ob"
      | "calls_of m = calls_of l" "\<not> goes_on y"
      by (auto simp: step_sends_def)
    then show ?thesis
    proof cases
      case 1
      have "\<exists>obs. calls_of m = calls_of l @ map (Pair idx) obs"
        using 1(1) by (intro exI [of _ "[ob]"]) simp
      moreover have "all_unpublished (butlast (calls_of m))"
        and "x = NextCandidate \<longrightarrow> all_unpublished (calls_of m)"
        using 1 "1.prems"(2) l'(2) by (auto simp: Some all_unpublished_def)
      ultimately show ?thesis using 1(1) budget unfolding l'(1) by simp
    next
      case 2
      then show ?thesis using bl budget unfolding l'(1) by (auto simp: Some l'(2))
    qed
  next
    case None
    have rec: "attempt_loop cfg idx m = (x, l')"
      using "1.prems"(1) step None by (subst (asm) attempt_loop.simps) simp
    obtain ob where ob: "calls_of m = calls_of l @ [(idx, ob)]" "unpublished ob"
      using sends None by (auto simp: step_sends_def)
    have m: "all_unpublished (calls_of m)"
      using ob "1.prems"(2) by (simp add: all_unpublished_def)
    have left: "attempts_left (rq_policy cfg) m < attempts_left (rq_policy cfg) l"
      using attempt_step_None step None more_loop_left by blast
    have ih: "(\<exists>obs. calls_of l' = calls_of m @ map (Pair idx) obs) \<and>
         all_unpublished (butlast (calls_of l')) \<and>
         (x = NextCandidate \<longrightarrow> all_unpublished (calls_of l')) \<and>
         length (calls_of l') + (if compacted l' then 0 else 1) \<le>
           length (calls_of m) + 1 + attempts_left (rq_policy cfg) m"
      using "1.IH" [OF step [symmetric]] None rec m by simp
    then obtain obs where "calls_of l' = calls_of l @ map (Pair idx) (ob # obs)"
      using ob(1) by auto
    then show ?thesis using ih left ob(1) by (auto simp del: list.map)
  qed
qed

lemma map_fst_Pair: "map fst (map (Pair i) xs) = replicate (length xs) i"
  by (induction xs) auto

lemma sorted_calls_append:
  assumes "sorted (map fst cs)" and "\<forall>c \<in> set cs. Suc i \<le> fst c"
  shows "sorted (map fst (map (Pair i) obs @ cs)) \<and> (\<forall>c \<in> set (map (Pair i) obs @ cs). i \<le> fst c)"
  unfolding map_append map_fst_Pair using assms
  by (fastforce simp: sorted_append sorted_replicate)

lemma candidate_loop_sends:
  assumes "all_unpublished (calls_of l)"
  shows "all_unpublished (butlast (provider_calls (snd (candidate_loop cfg idx l)))) \<and>
    (\<exists>cs. provider_calls (snd (candidate_loop cfg idx l)) = calls_of l @ cs \<and>
       sorted (map fst cs) \<and> (\<forall>c \<in> set cs. idx \<le> fst c)) \<and>
    length (provider_calls (snd (candidate_loop cfg idx l))) \<le>
      length (calls_of l) + (if compacted l then 0 else 1) +
      (length (rq_keys cfg) - idx) * (1 + unat (max_budget (rq_policy cfg)))"
  using assms
proof (induction cfg idx l rule: candidate_loop.induct)
  case (1 cfg idx l)
  let ?B = "1 + unat (max_budget (rq_policy cfg))"
  have bl: "all_unpublished (butlast (calls_of l))"
    using "1.prems" by (auto simp: all_unpublished_def list_all_iff dest: in_set_butlastD)
  show ?case
  proof (cases "idx \<ge> length (rq_keys cfg)")
    case True
    then show ?thesis using bl by (simp add: candidate_loop.simps)
  next
    case False
    obtain c b where acq: "acquire (rq_acquire_at cfg idx) (rq_keys cfg ! idx) (circuit (rs l)) = (c, b)"
      by fastforce
    let ?l1 = "l\<lparr>rs := (rs l)\<lparr>circuit := b\<rparr>\<rparr>"
    obtain x m where xm: "(if c = Open then audit cfg (CircuitSkip idx) ?l1 (\<lambda>l. (Some NextCandidate, l))
        else map_prod Some id (attempt_loop cfg idx (?l1\<lparr>prior_retries := 0\<rparr>))) = (x, m)"
      by fastforce
    have room: "length (rq_keys cfg) - idx = Suc (length (rq_keys cfg) - Suc idx)"
      using False by simp
    have m: "(\<exists>obs. calls_of m = calls_of l @ map (Pair idx) obs) \<and>
        all_unpublished (butlast (calls_of m)) \<and>
        (x = Some NextCandidate \<longrightarrow> all_unpublished (calls_of m)) \<and> x \<noteq> None \<and>
        length (calls_of m) + (if compacted m then 0 else 1) \<le>
          length (calls_of l) + (if compacted l then 0 else 1) + ?B"
    proof (cases "c = Open")
      case True
      then have "calls_of m = calls_of l" "compacted m = compacted l" "x \<noteq> None"
        using xm by (auto simp: audit_def split: option.splits if_splits)
      then show ?thesis using "1.prems" bl by (auto intro: exI [of _ "[]"])
    next
      case False
      then obtain y where "attempt_loop cfg idx (?l1\<lparr>prior_retries := 0\<rparr>) = (y, m)" "x = Some y"
        using xm by (auto simp: map_prod_def split: prod.splits)
      then show ?thesis
        using attempt_loop_sends [of cfg idx "?l1\<lparr>prior_retries := 0\<rparr>" y m] "1.prems"
        by (auto simp: attempts_left_def)
    qed
    show ?thesis
    proof (cases "x = Some NextCandidate")
      case True
      have eq: "candidate_loop cfg idx l = candidate_loop cfg (Suc idx) m"
        using False xm True by (subst candidate_loop.simps) (simp add: acq Let_def)
      have ih: "all_unpublished (butlast (provider_calls (snd (candidate_loop cfg (Suc idx) m)))) \<and>
          (\<exists>cs. provider_calls (snd (candidate_loop cfg (Suc idx) m)) = calls_of m @ cs \<and>
             sorted (map fst cs) \<and> (\<forall>c \<in> set cs. Suc idx \<le> fst c)) \<and>
          length (provider_calls (snd (candidate_loop cfg (Suc idx) m))) \<le>
            length (calls_of m) + (if compacted m then 0 else 1) +
            (length (rq_keys cfg) - Suc idx) * ?B"
        using "1.IH" False acq xm True m by (metis (no_types, lifting))
      from m obtain obs where obs: "calls_of m = calls_of l @ map (Pair idx) obs" by blast
      from ih obtain cs where cs: "provider_calls (snd (candidate_loop cfg (Suc idx) m)) = calls_of m @ cs"
        "sorted (map fst cs)" "\<forall>c \<in> set cs. Suc idx \<le> fst c" by blast
      have "sorted (map fst (map (Pair idx) obs @ cs)) \<and> (\<forall>c \<in> set (map (Pair idx) obs @ cs). idx \<le> fst c)"
        using cs(2,3) by (rule sorted_calls_append)
      moreover have "provider_calls (snd (candidate_loop cfg idx l)) =
          calls_of l @ (map (Pair idx) obs @ cs)"
        by (simp add: eq cs(1) obs)
      ultimately show ?thesis
        using ih m unfolding eq room mult_Suc by (auto simp del: map_append set_append)
    next
      case False
      then obtain y where y: "x = Some y" "y \<noteq> NextCandidate" using m by auto
      have eq: "snd (candidate_loop cfg idx l) = rs m"
        using \<open>\<not> length (rq_keys cfg) \<le> idx\<close> xm y
        by (subst candidate_loop.simps) (cases y; simp add: acq Let_def)
      from m obtain obs where obs: "calls_of m = calls_of l @ map (Pair idx) obs" by blast
      have "sorted (map fst (map (Pair idx) obs))"
        using sorted_calls_append [of "[]" idx obs] by simp
      then show ?thesis
        using m obs unfolding eq room mult_Suc
        by (auto intro!: exI [of _ "map (Pair idx) obs"])
    qed
  qed
qed

section \<open>Properties of a model request\<close>

text \<open>
  C16: No replay after output. However the attempts go, of all the requests a model call
  sends only the last can have published text, thinking or part of a tool call: once
  something was shown, nothing is retried and no other candidate is asked.
\<close>

theorem no_replay_after_output:
  "all_unpublished (butlast (provider_calls (snd (request_model cfg cancelled b))))"
proof -
  let ?l = "\<lparr>rs = \<lparr>circuit = b, audit_log = [], provider_calls = []\<rparr>, compacted = False,
             prior_retries = 0, last_error = plain_error Server\<rparr>"
  have "all_unpublished (calls_of ?l)" by (simp add: all_unpublished_def)
  from candidate_loop_sends [OF this, of cfg 0] show ?thesis
    by (simp add: request_model_def Let_def all_unpublished_def)
qed

text \<open>
  C17: Termination with a bound. A model call sends at most one request more (the compacted
  repeat) than the number of candidates times one plus the largest retry budget, and it
  tries the candidates in route order.
\<close>

theorem attempts_bounded_in_order:
  "length (provider_calls (snd (request_model cfg cancelled b))) \<le>
     1 + length (rq_keys cfg) * (1 + unat (max_budget (rq_policy cfg))) \<and>
   sorted (map fst (provider_calls (snd (request_model cfg cancelled b))))"
proof -
  let ?l = "\<lparr>rs = \<lparr>circuit = b, audit_log = [], provider_calls = []\<rparr>, compacted = False,
             prior_retries = 0, last_error = plain_error Server\<rparr>"
  have "all_unpublished (calls_of ?l)" by (simp add: all_unpublished_def)
  from candidate_loop_sends [OF this, of cfg 0] show ?thesis
    by (auto simp: request_model_def Let_def)
qed

lemma asm_consume: "asm (consume_provider_event enc s ev) = snd (accept enc (asm s) ev)"
  by (cases ev)
    (auto simp: consume_provider_event_def finish_thinking_def accept_def Let_def split_beta
      split: option.splits)

lemma asm_consume_all:
  "asm (foldl (consume_provider_event enc) s evs) = foldl (\<lambda>a ev. snd (accept enc a ev)) (asm s) evs"
  by (induction evs arbitrary: s) (simp_all add: asm_consume)

lemma asm_finish_thinking [simp]: "asm (finish_thinking s) = asm s"
  by (simp add: finish_thinking_def)

lemma once_response:
  assumes "request_model_once enc json_parse evs res = (ob, shown, Inr out)"
  shows "res = Inr () \<and> out_response out = collect_response enc json_parse (map snd evs) \<and>
         ob = observe_all evs \<and> (response_started ob \<longrightarrow> protocol_done ob)"
  using assms
  by (auto simp: request_model_once_def Let_def asm_consume_all collect_response_def assemble_def
      init_stream_def split: sum.splits if_splits)

lemma observe_truncated: "obs_truncated (observe ob ev) \<longleftrightarrow> obs_truncated ob \<or> snd ev = OutputTruncated"
  by (cases "(ob, ev)" rule: observe.cases)
    (simp_all add: observe_text_def observe_tool_def mark_first_event_def)

lemma observe_all_truncated: "obs_truncated (observe_all evs) \<longleftrightarrow> OutputTruncated \<in> snd ` set evs"
proof -
  have "obs_truncated (foldl observe ob evs) \<longleftrightarrow> obs_truncated ob \<or> OutputTruncated \<in> snd ` set evs" for ob
    by (induction evs arbitrary: ob) (auto simp: observe_truncated)
  then show ?thesis by (simp add: observe_all_def default_observation_def)
qed

text \<open>What a returned output says about the attempt that produced it, number \<open>k\<close>.\<close>

definition answers :: "request_config \<Rightarrow> nat \<Rightarrow> model_output \<Rightarrow> bool" where
  "answers cfg k out \<longleftrightarrow>
     (let env = rq_env cfg k; evs = map snd (env_events env) in
      env_result env = Inr () \<and> OutputTruncated \<notin> set evs \<and>
      out_response out = collect_response (rq_enc cfg) (rq_parse cfg) evs \<and>
      out_response out \<noteq> Text [])"

definition answered :: "request_config \<Rightarrow> loop_exit option \<times> loop_state \<Rightarrow> bool" where
  "answered cfg r \<longleftrightarrow>
     (\<forall>out. fst r = Some (ReturnOk out) \<longrightarrow>
        (\<exists>k. length (calls_of (snd r)) = Suc k \<and> answers cfg k out))"

lemma attempt_failed_answered: "answered cfg (attempt_failed cfg idx env ob e l)"
proof -
  have c: "fst (choose_next cfg idx env safe c e l) \<noteq> Some (ReturnOk out)" for safe c l out
    by (auto simp: choose_next_def Let_def audit_def split: retry_decision.splits option.splits)
  show ?thesis
    unfolding attempt_failed_def Let_def split_beta
    by (intro audit_rule [where P = "answered cfg"]) (auto simp: answered_def c)
qed

lemma attempt_succeeded_answered:
  assumes "length (calls_of l) = Suc k" and "answers cfg k out"
  shows "answered cfg (attempt_succeeded cfg idx env ob out l)"
  using assms unfolding attempt_succeeded_def Let_def split_beta
  by (intro audit_rule [where P = "answered cfg"]) (auto simp: answered_def)

lemma attempt_step_answered: "answered cfg (attempt_step cfg idx l)"
proof (cases "env_cancelled (rq_env cfg (length (calls_of l)))")
  case True
  then show ?thesis by (simp add: attempt_step_def Let_def answered_def)
next
  case False
  let ?env = "rq_env cfg (length (calls_of l))"
  obtain ob shown outcome where once: "request_model_once (rq_enc cfg) (rq_parse cfg)
      (env_events ?env) (env_result ?env) = (ob, shown, outcome)"
    by (cases "request_model_once (rq_enc cfg) (rq_parse cfg) (env_events ?env) (env_result ?env)") auto
  have ans: "answers cfg (length (calls_of l)) out" if "attempt_result ob outcome = Inr out" for out
    using that once once_response [of "rq_enc cfg" "rq_parse cfg" "env_events ?env" "env_result ?env" ob shown]
    by (auto simp: attempt_result_def answers_def Let_def observe_all_truncated
        split: sum.splits if_splits)
  show ?thesis
    unfolding attempt_step_def Let_def split_beta if_not_P [OF False]
    by (intro audit_rule [where P = "answered cfg"])
      (auto simp: once answered_def [of _ "(Some (ReturnErr MStorage), l)"] split: sum.splits
        intro!: attempt_failed_answered attempt_succeeded_answered ans)
qed

lemma attempt_loop_answered: "answered cfg (map_prod Some id (attempt_loop cfg idx l))"
proof (induction cfg idx l rule: attempt_loop.induct)
  case (1 cfg idx l)
  obtain y m where step: "attempt_step cfg idx l = (y, m)" by fastforce
  show ?case
    using "1.IH" [OF step [symmetric]] attempt_step_answered [of cfg idx l]
    by (subst attempt_loop.simps) (auto simp: step id_def split: option.splits)
qed

lemma candidate_loop_answered:
  "fst (candidate_loop cfg idx l) = Inr out \<Longrightarrow>
   \<exists>k. length (provider_calls (snd (candidate_loop cfg idx l))) = Suc k \<and> answers cfg k out"
proof (induction cfg idx l rule: candidate_loop.induct)
  case (1 cfg idx l)
  show ?case
  proof (cases "idx \<ge> length (rq_keys cfg)")
    case True
    then show ?thesis using "1.prems" by (simp add: candidate_loop.simps)
  next
    case False
    obtain c b where acq: "acquire (rq_acquire_at cfg idx) (rq_keys cfg ! idx) (circuit (rs l)) = (c, b)"
      by fastforce
    let ?l1 = "l\<lparr>rs := (rs l)\<lparr>circuit := b\<rparr>\<rparr>"
    obtain x m where xm: "(if c = Open then audit cfg (CircuitSkip idx) ?l1 (\<lambda>l. (Some NextCandidate, l))
        else map_prod Some id (attempt_loop cfg idx (?l1\<lparr>prior_retries := 0\<rparr>))) = (x, m)"
      by fastforce
    have eq: "candidate_loop cfg idx l =
        (case x of Some (ReturnErr e) \<Rightarrow> (Inl e, rs m) | Some (ReturnOk output) \<Rightarrow> (Inr output, rs m)
         | _ \<Rightarrow> candidate_loop cfg (Suc idx) m)"
      using False xm by (subst candidate_loop.simps) (simp add: acq Let_def)
    have "answered cfg (x, m)"
    proof (cases "c = Open")
      case True
      then have "audit cfg (CircuitSkip idx) ?l1 (\<lambda>l. (Some NextCandidate, l)) = (x, m)"
        using xm by simp
      then have "x = Some NextCandidate \<or> x = Some (ReturnErr MStorage)"
        by (rule audit_cases) auto
      then show ?thesis by (auto simp: answered_def)
    next
      case False
      then have "map_prod Some id (attempt_loop cfg idx (?l1\<lparr>prior_retries := 0\<rparr>)) = (x, m)"
        using xm by simp
      then show ?thesis
        using attempt_loop_answered [of cfg idx "?l1\<lparr>prior_retries := 0\<rparr>"] by simp
    qed
    moreover have ih: "fst (candidate_loop cfg (Suc idx) m) = Inr out \<Longrightarrow>
        \<exists>k. length (provider_calls (snd (candidate_loop cfg (Suc idx) m))) = Suc k \<and> answers cfg k out"
      if "x = None \<or> x = Some NextCandidate"
      using "1.IH" False acq xm that by (metis (no_types, lifting))
    ultimately show ?thesis
      using "1.prems" unfolding eq by (auto simp: answered_def split: option.splits loop_exit.splits)
  qed
qed

text \<open>
  A returned answer is the assembled stream of the last request. When a model call
  succeeds, the response is what the assembler makes of the events of the last request sent,
  that request ended without an error and without truncation, and the response is not empty
  text.
\<close>

theorem model_answer_assembled:
  assumes "fst (request_model cfg cancelled b) = Inr out"
  shows "\<exists>k. length (provider_calls (snd (request_model cfg cancelled b))) = Suc k \<and> answers cfg k out"
  using assms candidate_loop_answered
  by (auto simp: request_model_def Let_def split: if_splits)

definition sample_request :: request_config where
  "sample_request = \<lparr>rq_enc = id, rq_parse = (\<lambda>s. Inr JNull), rq_policy = default_retry_policy,
     rq_keys = [''a'', ''b''], rq_store = None,
     rq_env = (\<lambda>k. \<lparr>env_cancelled = False,
        env_events = (if k = 0 then [] else [(1, ResponseStarted), (2, TextDelta ''hi''), (3, ProtocolDone)]),
        env_result = (if k = 0 then Inl (MProvider (plain_error Transport)) else Inr ()),
        env_instant = k, env_compacts = False, env_cancels_backoff = False\<rparr>),
     rq_acquire_at = (\<lambda>i. 0)\<rparr>"

theorem model_answer_assembled_witness:
  "\<exists>out k. fst (request_model sample_request False default_breaker) = Inr out \<and>
     length (provider_calls (snd (request_model sample_request False default_breaker))) = Suc k \<and>
     answers sample_request k out"
proof -
  have three: "\<not> 3 \<le> (1 :: u32)" by (simp add: word_le_nat_alt)
  have "\<not> isl (fst (request_model sample_request False default_breaker))"
    by (simp add: three sample_request_def request_model_def candidate_loop.simps [of _ 0]
        attempt_loop.simps attempt_step_def attempt_result_def attempt_failed_def
        attempt_succeeded_def choose_next_def audit_def record_circuit_def Let_def
        request_model_once_def init_stream_def consume_provider_event_def finish_thinking_def
        observe_all_def default_observation_def observe_text_def mark_first_event_def
        default_assembler_def accept_def finish_def assembly_failed_def as_provider_error_def
        plain_error_def transient_kind_def decide_def default_retry_policy_def retryable_def
        retry_budget_def acquire_def record_outcome_def default_breaker_def acquire_entry_def
        record_entry_def entry_or_insert_def new_entry_def sat_add_def backoff_ms_def)
  then have "\<exists>out. fst (request_model sample_request False default_breaker) = Inr out"
    by (cases "fst (request_model sample_request False default_breaker)") auto
  with model_answer_assembled show ?thesis by blast
qed

section \<open>A probe that is never given back\<close>

text \<open>
  A probe can leak. When the half-open candidate is acquired and the request is cancelled
  before its attempt starts, the call returns without recording an outcome: the probe stays
  marked in flight, and until an outcome for that candidate is recorded, which only an
  acquired candidate's attempt does, every later acquisition is refused.
\<close>

theorem cancelled_probe_leaks:
  assumes "rq_keys cfg = key # rest"
    and "fst (acquire (rq_acquire_at cfg 0) key b) = HalfOpen"
    and "env_cancelled (rq_env cfg 0)"
    and "\<forall>op \<in> set ops. \<not> records_key key op"
  shows "fst (request_model cfg False b) = Inl MCancelled \<and>
     set (circuit_answers key (circuit (snd (request_model cfg False b))) ops) \<subseteq> {Open}"
proof -
  obtain b' where acq: "acquire (rq_acquire_at cfg 0) key b = (HalfOpen, b')"
    using assms(2) by (cases "acquire (rq_acquire_at cfg 0) key b") auto
  have eq: "fst (request_model cfg False b) = Inl MCancelled \<and> circuit (snd (request_model cfg False b)) = b'"
    using assms(1,3) acq
    by (simp add: request_model_def Let_def candidate_loop.simps [of _ 0] attempt_loop.simps attempt_step_def)
  have "probe_active (entry_or_insert b' key) \<and> (\<exists>at. opened_at (entry_or_insert b' key) = Some at)"
    using acq by (auto simp: acquire_def acquire_entry_def entry_or_insert_def Let_def split_beta
        split: option.splits if_splits)
  then show ?thesis using eq probing_stays assms(4) by metis
qed

definition cancelled_request :: request_config where
  "cancelled_request = sample_request\<lparr>rq_acquire_at := (\<lambda>i. 40 * 10 ^ 9),
     rq_env := (\<lambda>k. (rq_env sample_request k)\<lparr>env_cancelled := True\<rparr>)\<rparr>"

definition open_a :: breaker where
  "open_a = default_breaker\<lparr>entries :=
     [''a'' \<mapsto> \<lparr>failures = 3, opened_at = Some 0, probe_active = False\<rparr>]\<rparr>"

theorem cancelled_probe_leaks_witness:
  "fst (request_model cancelled_request False open_a) = Inl MCancelled \<and>
     set (circuit_answers ''a'' (circuit (snd (request_model cancelled_request False open_a)))
       [Acquire (90 * 10 ^ 9) ''a'', Acquire (10 ^ 15) ''a'']) \<subseteq> {Open}"
  by (rule cancelled_probe_leaks [where rest = "[''b'']"])
    (simp_all add: cancelled_request_def sample_request_def open_a_def default_breaker_def
      acquire_def acquire_entry_def entry_or_insert_def)

end
