(* ===== verification/Messages.thy ===== *)
theory Messages
  imports Provider_Types
begin

text \<open>
  Chat messages (\<open>src/provider.rs\<close>: \<open>Role\<close>, \<open>Message\<close> and its constructors), the omission
  of images for providers that take none (\<open>src/loop_engine.rs\<close>: \<open>without_images\<close>) and the
  token estimates of \<open>src/context.rs\<close>. Serialised JSON is a parameter: \<open>ser_calls\<close> is
  \<open>serde_json::to_string\<close> on a list of tool calls.
\<close>

section \<open>Characters\<close>

text \<open>\<open>chars()\<close>: a byte that is not a continuation byte starts a character.\<close>

lemma dropWhile_shorter [termination_simp]: "length (dropWhile P s) < Suc (length s)"
  by (simp add: length_dropWhile_le le_imp_less_Suc)

fun chars :: "string \<Rightarrow> string list" where
  "chars [] = []"
| "chars (c # s) = (c # takeWhile (\<lambda>k. cont (byte k)) s) # chars (dropWhile (\<lambda>k. cont (byte k)) s)"

lemma concat_chars [simp]: "concat (chars s) = s"
  by (induction s rule: chars.induct) simp_all

definition is_char :: "string \<Rightarrow> bool" where
  "is_char k \<longleftrightarrow> (case k of [] \<Rightarrow> False | c # s \<Rightarrow> \<forall>x \<in> set s. cont (byte x))"

definition starts_char :: "string \<Rightarrow> bool" where
  "starts_char s \<longleftrightarrow> (case s of [] \<Rightarrow> True | c # _ \<Rightarrow> \<not> cont (byte c))"

lemma chars_is_char: "k \<in> set (chars s) \<Longrightarrow> is_char k"
proof (induction s rule: chars.induct)
  case (2 c s)
  have "is_char (c # takeWhile (\<lambda>k. cont (byte k)) s)"
    by (simp add: is_char_def) (blast dest: set_takeWhileD)
  with 2 show ?case by auto
qed simp

lemma chars_append:
  assumes "starts_char t"
  shows "chars (s @ t) = chars s @ chars t"
proof (induction s rule: chars.induct)
  case (2 c s)
  show ?case
  proof (cases "\<forall>x \<in> set s. cont (byte x)")
    case True
    with assms have "takeWhile (\<lambda>k. cont (byte k)) (s @ t) = s" "dropWhile (\<lambda>k. cont (byte k)) (s @ t) = t"
      by (cases t; simp add: starts_char_def)+
    with True show ?thesis by (simp add: takeWhile_eq_all_conv [THEN iffD2] dropWhile_eq_Nil_conv [THEN iffD2])
  next
    case False
    then have "takeWhile (\<lambda>k. cont (byte k)) (s @ t) = takeWhile (\<lambda>k. cont (byte k)) s"
      "dropWhile (\<lambda>k. cont (byte k)) (s @ t) = dropWhile (\<lambda>k. cont (byte k)) s @ t"
      by (auto simp: takeWhile_append dropWhile_append)
    with 2 show ?thesis by simp
  qed
qed simp

lemma chars_single: "is_char k \<Longrightarrow> chars k = [k]"
  by (cases k) (simp_all add: is_char_def takeWhile_eq_all_conv [THEN iffD2] dropWhile_eq_Nil_conv [THEN iffD2])

lemma starts_dropWhile: "starts_char (dropWhile (\<lambda>k. cont (byte k)) s)"
  using hd_dropWhile [of "\<lambda>k. cont (byte k)" s]
  by (cases "dropWhile (\<lambda>k. cont (byte k)) s") (simp_all add: starts_char_def del: dropWhile_eq_Nil_conv)

lemma chars_tail_starts: "chars s = k # ks \<Longrightarrow> starts_char (concat ks)"
  using starts_dropWhile [of "tl s"] by (cases s) auto

text \<open>The scalar value of a character, from the payload bits of its bytes.\<close>

definition scalar :: "string \<Rightarrow> nat" where
  "scalar k =
     (case map byte k of
        [a] \<Rightarrow> a
      | [a, b] \<Rightarrow> (a - 0xC0) * 64 + (b - 0x80)
      | [a, b, c] \<Rightarrow> (a - 0xE0) * 4096 + (b - 0x80) * 64 + (c - 0x80)
      | [a, b, c, d] \<Rightarrow> (a - 0xF0) * 262144 + (b - 0x80) * 4096 + (c - 0x80) * 64 + (d - 0x80)
      | _ \<Rightarrow> 0)"

section \<open>Messages\<close>

datatype role = RSystem | RUser | RAssistant | RTool

record message =
  msg_role :: role
  msg_content :: "string option"
  msg_thinking :: "string option"
  msg_calls :: "tool_call list"
  msg_call_id :: "string option"
  msg_name :: "string option"
  msg_images :: "string list"

definition text_message :: "role \<Rightarrow> string \<Rightarrow> message" where
  "text_message r content =
     \<lparr>msg_role = r, msg_content = Some content, msg_thinking = None, msg_calls = [],
      msg_call_id = None, msg_name = None, msg_images = []\<rparr>"

definition assistant_tool_calls :: "tool_call list \<Rightarrow> message" where
  "assistant_tool_calls calls =
     \<lparr>msg_role = RAssistant, msg_content = None, msg_thinking = None, msg_calls = calls,
      msg_call_id = None, msg_name = None, msg_images = []\<rparr>"

definition tool_result :: "tool_call \<Rightarrow> string \<Rightarrow> message" where
  "tool_result call content =
     \<lparr>msg_role = RTool, msg_content = Some content, msg_thinking = None, msg_calls = [],
      msg_call_id = Some (tc_id call), msg_name = Some (tc_name call), msg_images = []\<rparr>"

definition user_with_images :: "string \<Rightarrow> string list \<Rightarrow> message" where
  "user_with_images content urls =
     \<lparr>msg_role = RUser, msg_content = Some content, msg_thinking = None, msg_calls = [],
      msg_call_id = None, msg_name = None, msg_images = urls\<rparr>"

definition assistant_with_thinking :: "string \<Rightarrow> string option \<Rightarrow> message" where
  "assistant_with_thinking content th =
     \<lparr>msg_role = RAssistant, msg_content = Some content, msg_thinking = th, msg_calls = [],
      msg_call_id = None, msg_name = None, msg_images = []\<rparr>"

definition assistant_tool_calls_with_thinking :: "tool_call list \<Rightarrow> string option \<Rightarrow> message" where
  "assistant_tool_calls_with_thinking calls th =
     (if th = None then assistant_tool_calls calls
      else \<lparr>msg_role = RAssistant, msg_content = None, msg_thinking = th, msg_calls = calls,
            msg_call_id = None, msg_name = None, msg_images = []\<rparr>)"

lemmas message_defs = text_message_def assistant_tool_calls_def tool_result_def user_with_images_def
  assistant_with_thinking_def assistant_tool_calls_with_thinking_def

section \<open>Images left out\<close>

text \<open>The two halves of the note on omitted images.\<close>

definition msg_images_pre :: string where
  "msg_images_pre = utf8 [91,24403,21069] @ '' provider '' @
     utf8 [19981,25903,25345,22270,29255,65292,24050,30465,30053,32]"

definition msg_images_post :: string where
  "msg_images_post = utf8 [32,20010,22270,29255,20869,23481,22359,93]"

definition omit_images :: "message \<Rightarrow> message" where
  "omit_images m =
     (if msg_images m \<noteq> [] then
        let omitted = msg_images_pre @ dec (length (msg_images m)) @ msg_images_post in
        m\<lparr>msg_content := Some (case msg_content m of
              Some content \<Rightarrow> if content \<noteq> [] then content @ [CHR 0x0A] @ omitted else omitted
            | None \<Rightarrow> omitted),
          msg_images := []\<rparr>
      else m)"

definition without_images :: "message list \<Rightarrow> message list" where
  "without_images ms = map omit_images ms"

section \<open>Token estimates\<close>

definition usize_max :: nat where
  "usize_max = 2 ^ 64 - 1"

definition usize_mul :: "nat \<Rightarrow> nat \<Rightarrow> nat" where
  "usize_mul a b = min (a * b) usize_max"

definition is_cjk :: "string \<Rightarrow> bool" where
  "is_cjk k \<longleftrightarrow>
     (let n = scalar k in
      0x3400 \<le> n \<and> n \<le> 0x4DBF \<or> 0x4E00 \<le> n \<and> n \<le> 0x9FFF \<or> 0xF900 \<le> n \<and> n \<le> 0xFAFF)"

definition estimate_text_tokens :: "string \<Rightarrow> nat" where
  "estimate_text_tokens t =
     (let cjk = length (filter is_cjk (chars t)); other = length (filter (\<lambda>k. \<not> is_cjk k) (chars t)) in
      (usize_mul cjk 2 + 2) div 3 + (other + 3) div 4)"

definition estimate_message :: "(tool_call list \<Rightarrow> string) \<Rightarrow> message \<Rightarrow> nat" where
  "estimate_message ser_calls m =
     (case msg_content m of None \<Rightarrow> 0 | Some t \<Rightarrow> estimate_text_tokens t) +
     estimate_text_tokens (ser_calls (msg_calls m)) + usize_mul (length (msg_images m)) 384 + 6"

definition estimate_messages :: "(tool_call list \<Rightarrow> string) \<Rightarrow> message list \<Rightarrow> nat" where
  "estimate_messages ser_calls ms = sum_list (map (estimate_message ser_calls) ms)"

lemma estimate_Nil [simp]: "estimate_text_tokens [] = 0"
  by (simp add: estimate_text_tokens_def usize_mul_def)

lemma usize_mul_Suc: "usize_mul (Suc n) 2 \<le> usize_mul n 2 + 2"
  by (simp add: usize_mul_def min_def)

text \<open>One more character adds at most one token to the estimate.\<close>

lemma estimate_step:
  assumes "chars t = chars s @ [k]"
  shows "estimate_text_tokens t \<le> Suc (estimate_text_tokens s)"
  using usize_mul_Suc [of "length (filter is_cjk (chars s))"] assms
  by (simp add: estimate_text_tokens_def Let_def div_le_mono) linarith

end
