(* ===== verification/Sse.thy ===== *)
theory Sse
  imports Messages
begin

text \<open>
  How the provider adapters read a response: bytes arrive in chunks, are cut into lines and
  each line is consumed (the reading loops of \<open>parse_sse\<close> in \<open>src/provider/openai.rs\<close> and
  \<open>src/provider/anthropic.rs\<close> and of \<open>parse_ndjson\<close> in \<open>src/provider/ollama.rs\<close>, which are the
  same loop). A consumer returns an error that ends the reading, if any, and its new state;
  the events it has sent are part of the state.
\<close>

type_synonym ('s, 'e) consumer = "'s \<Rightarrow> string \<Rightarrow> 'e option \<times> 's"

definition line_feed :: char where
  "line_feed = CHR 0x0A"

definition carriage :: char where
  "carriage = CHR 0x0D"

definition strip_eol :: "string \<Rightarrow> string" where
  "strip_eol l = rev (dropWhile (\<lambda>c. c = line_feed \<or> c = carriage) (rev l))"

text \<open>The inner loop: every complete line of the buffer; what is left, the error and the state.\<close>

function feed :: "('s, 'e) consumer \<Rightarrow> string \<Rightarrow> 's \<Rightarrow> string \<times> 'e option \<times> 's" where
  "feed f buf s =
     (if line_feed \<in> set buf then
        (case f s (strip_eol (takeWhile (\<lambda>c. c \<noteq> line_feed) buf @ [line_feed])) of
           (Some e, s) \<Rightarrow> ([], Some e, s)
         | (None, s) \<Rightarrow> feed f (tl (dropWhile (\<lambda>c. c \<noteq> line_feed) buf)) s)
      else (buf, None, s))"
  by pat_completeness auto
termination
proof (relation "measure (\<lambda>(f, buf, s). length buf)", simp)
  fix f :: "('s, 'e) consumer" and buf s x y z
  assume "line_feed \<in> set buf"
  then have "dropWhile (\<lambda>c. c \<noteq> line_feed) buf \<noteq> []" by (auto simp: dropWhile_eq_Nil_conv)
  moreover have "length (dropWhile (\<lambda>c. c \<noteq> line_feed) buf) \<le> length buf" by (rule length_dropWhile_le)
  ultimately show "((f, tl (dropWhile (\<lambda>c. c \<noteq> line_feed) buf), z), f, buf, s) \<in> measure (\<lambda>(f, buf, s). length buf)"
    by (cases "dropWhile (\<lambda>c. c \<noteq> line_feed) buf") auto
qed

declare feed.simps [simp del]

text \<open>The outer loop; a chunk can fail (\<open>Inl\<close>). What is left at the end is consumed as it is.\<close>

fun read_stream :: "('s, 'e) consumer \<Rightarrow> string \<Rightarrow> 's \<Rightarrow> ('e + string) list \<Rightarrow> 'e option \<times> 's" where
  "read_stream f buf s [] = (if buf \<noteq> [] then f s buf else (None, s))"
| "read_stream f buf s (Inl e # chunks) = (Some e, s)"
| "read_stream f buf s (Inr bytes # chunks) =
     (case feed f (buf @ bytes) s of
        (rest, Some e, s) \<Rightarrow> (Some e, s)
      | (rest, None, s) \<Rightarrow> read_stream f rest s chunks)"

text \<open>What every line keeps, the whole reading keeps.\<close>

locale line_consumer =
  fixes f :: "('s, 'e) consumer"
    and keeps :: "'s \<Rightarrow> bool"
  assumes line_keeps: "keeps s \<Longrightarrow> keeps (snd (f s l))"
begin

lemma line_keepsD: "keeps s \<Longrightarrow> f s l = (e, s') \<Longrightarrow> keeps s'"
  by (metis line_keeps snd_conv)

lemma feed_keeps: "keeps s \<Longrightarrow> keeps (snd (snd (feed f buf s)))"
proof (induction "length buf" arbitrary: buf s rule: less_induct)
  case less
  show ?case
  proof (cases "line_feed \<in> set buf")
    case True
    obtain e s' where f: "f s (strip_eol (takeWhile (\<lambda>c. c \<noteq> line_feed) buf @ [line_feed])) = (e, s')" by fastforce
    have "dropWhile (\<lambda>c. c \<noteq> line_feed) buf \<noteq> []" using True by (auto simp: dropWhile_eq_Nil_conv)
    then have "length (tl (dropWhile (\<lambda>c. c \<noteq> line_feed) buf)) < length buf"
      using length_dropWhile_le [of "\<lambda>c. c \<noteq> line_feed" buf] by (cases "dropWhile (\<lambda>c. c \<noteq> line_feed) buf") auto
    from less(1) [OF this line_keepsD [OF less(2) f]] line_keepsD [OF less(2) f] f True show ?thesis
      by (simp add: feed.simps [of f buf] split: option.split)
  qed (use less(2) in \<open>simp add: feed.simps [of f buf]\<close>)
qed

lemma read_stream_keeps: "keeps s \<Longrightarrow> keeps (snd (read_stream f buf s chunks))"
proof (induction chunks arbitrary: buf s)
  case Nil
  then show ?case by (simp add: line_keeps)
next
  case (Cons c chunks)
  show ?case
  proof (cases c)
    case (Inr bytes)
    obtain r e s' where f: "feed f (buf @ bytes) s = (r, e, s')" by (cases "feed f (buf @ bytes) s") auto
    then have "keeps s'" using feed_keeps [OF Cons.prems, of "buf @ bytes"] by simp
    with Cons.IH Inr f show ?thesis by (simp split: option.split)
  qed (use Cons.prems in simp)
qed

end

section \<open>Specification\<close>

text \<open>The lines of a text: the complete ones without their end, and a last one without an end.\<close>

function stream_lines :: "string \<Rightarrow> string list" where
  "stream_lines text' =
     (if line_feed \<in> set text'
      then strip_eol (takeWhile (\<lambda>c. c \<noteq> line_feed) text') # stream_lines (tl (dropWhile (\<lambda>c. c \<noteq> line_feed) text'))
      else if text' = [] then [] else [text'])"
  by pat_completeness auto
termination
proof (relation "measure length", simp)
  fix text' :: string
  assume "line_feed \<in> set text'"
  then have "dropWhile (\<lambda>c. c \<noteq> line_feed) text' \<noteq> []" by (auto simp: dropWhile_eq_Nil_conv)
  moreover have "length (dropWhile (\<lambda>c. c \<noteq> line_feed) text') \<le> length text'" by (rule length_dropWhile_le)
  ultimately show "(tl (dropWhile (\<lambda>c. c \<noteq> line_feed) text'), text') \<in> measure length"
    by (cases "dropWhile (\<lambda>c. c \<noteq> line_feed) text'") auto
qed

declare stream_lines.simps [simp del]

fun run_lines :: "('s, 'e) consumer \<Rightarrow> 's \<Rightarrow> string list \<Rightarrow> 'e option \<times> 's" where
  "run_lines f s [] = (None, s)"
| "run_lines f s (l # ls) = (case f s l of (Some e, s) \<Rightarrow> (Some e, s) | (None, s) \<Rightarrow> run_lines f s ls)"

section \<open>The chunks do not matter\<close>

lemma strip_eol_feed [simp]: "strip_eol (l @ [line_feed]) = strip_eol l"
  by (simp add: strip_eol_def)

lemma feed_append:
  "feed f (a @ b) s = (case feed f a s of (r, Some e, s') \<Rightarrow> ([], Some e, s') | (r, None, s') \<Rightarrow> feed f (r @ b) s')"
proof (induction f a s rule: feed.induct)
  case (1 f a s)
  show ?case
  proof (cases "line_feed \<in> set a")
    case True
    have "takeWhile (\<lambda>c. c \<noteq> line_feed) (a @ b) = takeWhile (\<lambda>c. c \<noteq> line_feed) a"
      and "dropWhile (\<lambda>c. c \<noteq> line_feed) (a @ b) = dropWhile (\<lambda>c. c \<noteq> line_feed) a @ b"
      and ne: "dropWhile (\<lambda>c. c \<noteq> line_feed) a \<noteq> []"
      using True by (auto simp: takeWhile_append dropWhile_append dropWhile_eq_Nil_conv)
    with 1 True show ?thesis
      by (simp add: feed.simps [of f "a @ b"] feed.simps [of f a] split: prod.split option.split)
  next
    case False
    then show ?thesis by (simp add: feed.simps [of f a])
  qed
qed

lemma feed_lines:
  "(case feed f buf s of (r, Some e, s') \<Rightarrow> (Some e, s') | (r, None, s') \<Rightarrow> if r \<noteq> [] then f s' r else (None, s')) =
   run_lines f s (stream_lines buf)"
proof (induction f buf s rule: feed.induct)
  case (1 f buf s)
  show ?case
  proof (cases "line_feed \<in> set buf")
    case True
    let ?line = "strip_eol (takeWhile (\<lambda>c. c \<noteq> line_feed) buf)"
    obtain e s1 where 2: "f s ?line = (e, s1)" by fastforce
    show ?thesis
    proof (cases e)
      case None
      with 1 2 True show ?thesis
        by (simp add: feed.simps [of f buf] stream_lines.simps [of buf])
    qed (use 2 True in \<open>simp add: feed.simps [of f buf] stream_lines.simps [of buf]\<close>)
  qed (auto simp: feed.simps [of f buf] stream_lines.simps [of buf] split: prod.split option.split)
qed

lemma read_stream_lines: "read_stream f buf s (map Inr bs) = run_lines f s (stream_lines (buf @ concat bs))"
  if "feed f buf s = (buf, None, s)"
  using that
proof (induction bs arbitrary: buf s)
  case Nil
  then show ?case using feed_lines [of f buf s] by simp
next
  case (Cons b bs)
  obtain r e s' where r: "feed f (buf @ b) s = (r, e, s')" by (cases "feed f (buf @ b) s") auto
  show ?case
  proof (cases e)
    case (Some x)
    then have "feed f (buf @ b @ concat bs) s = ([], Some x, s')"
      using feed_append [of f "buf @ b" "concat bs" s] r by simp
    with feed_lines [of f "buf @ b @ concat bs" s] have "run_lines f s (stream_lines (buf @ b @ concat bs)) = (Some x, s')"
      by simp
    with r Some show ?thesis by simp
  next
    case None
    have "feed f r s' = (r, None, s')"
      using feed_append [of f "buf @ b" "[]" s] r None by (simp split: prod.splits option.splits)
    from Cons.IH [OF this] have IH: "read_stream f r s' (map Inr bs) = run_lines f s' (stream_lines (r @ concat bs))" .
    have "feed f (buf @ b @ concat bs) s = feed f (r @ concat bs) s'"
      using feed_append [of f "buf @ b" "concat bs" s] r None by simp
    then have "run_lines f s (stream_lines (buf @ b @ concat bs)) = run_lines f s' (stream_lines (r @ concat bs))"
      using feed_lines [of f "buf @ b @ concat bs" s] feed_lines [of f "r @ concat bs" s'] by simp
    with IH r None show ?thesis by simp
  qed
qed

text \<open>
  C13: Where the network cuts the stream does not matter. Reading any sequence of chunks does what
  consuming the lines of the whole text one by one does: the same events, the same error.
\<close>

theorem chunking_irrelevant:
  "read_stream f [] s (map Inr chunks) = run_lines f s (stream_lines (concat chunks))"
  using read_stream_lines [of f "[]" s chunks] by (simp add: feed.simps)

end
