(* ===== verification/Wire_Calls.thy ===== *)
theory Wire_Calls
  imports Sse ToolCalls "HOL-Library.Multiset"
begin

text \<open>
  What the proofs on the three provider adapters share: the phases of the calls of a stream,
  counted against the calls the adapter still holds.
\<close>

section \<open>The calls of a stream\<close>

text \<open>No failure was sent, no call started twice, and every name says something.\<close>

definition good_calls :: "provider_event list \<Rightarrow> bool" where
  "good_calls evs \<longleftrightarrow> list_all (\<lambda>ev. \<not> is_failure ev) evs \<and> distinct (started_ids evs) \<and>
     list_all (\<lambda>ev. case ev of ToolCallStarted i n \<Rightarrow> \<not> is_blank n | _ \<Rightarrow> True) evs"

lemma started_ids_simps [simp]:
  "started_ids [] = []" "started_ids (ev # evs) = (case started ev of None \<Rightarrow> [] | Some i \<Rightarrow> [i]) @ started_ids evs"
  "started_ids (a @ b) = started_ids a @ started_ids b"
  by (auto simp: started_ids_def List.map_filter_def split: option.split)

lemma good_prefix: "good_calls (a @ b) \<Longrightarrow> good_calls a"
  by (simp add: good_calls_def)

lemma call_phase_append: "call_phase i (a @ b) = foldl (phase_step i) (call_phase i a) b"
  by (simp add: call_phase_def)

text \<open>The identities of the calls a table holds; a call that has not started has none.\<close>

definition ident_set :: "execution_identity option \<Rightarrow> execution_identity multiset" where
  "ident_set o' = (case o' of None \<Rightarrow> {#} | Some i \<Rightarrow> {#i#})"

lemma ident_set_simps [simp]: "ident_set None = {#}" "ident_set (Some i) = {#i#}"
  by (simp_all add: ident_set_def)

definition held :: "('a \<Rightarrow> execution_identity option) \<Rightarrow> (nat \<times> 'a) list \<Rightarrow> execution_identity multiset" where
  "held f cs = (\<Sum>x \<in># mset cs. ident_set (f (snd x)))"

lemma held_simps [simp]: "held f [] = {#}" "held f (x # cs) = ident_set (f (snd x)) + held f cs"
  by (simp_all add: held_def)

lemma held_sort [simp]: "held f (sort_key g cs) = held f cs"
  by (simp add: held_def)

lemma held_split:
  assumes "distinct (map fst cs)"
  shows "held f cs = ident_set (Option.bind (map_of cs k) f) + held f (filter (\<lambda>kv. fst kv \<noteq> k) cs)"
  using assms
proof (induction cs)
  case (Cons x cs)
  show ?case
  proof (cases "fst x = k")
    case True
    with Cons.prems have "k \<notin> set (map fst cs)" by simp
    then have "filter (\<lambda>kv. fst kv \<noteq> k) cs = cs" by (auto intro!: filter_True)
    with True show ?thesis by auto
  next
    case False
    with Cons show ?thesis by (cases x) (simp add: ac_simps)
  qed
qed simp

lemma held_put: "held f (put k c cs) = ident_set (f c) + held f (filter (\<lambda>kv. fst kv \<noteq> k) cs)"
  by (simp add: put_def)

lemma distinct_put: "distinct (map fst cs) \<Longrightarrow> distinct (map fst (put k c cs))"
  by (auto simp: put_def distinct_map_filter)

text \<open>Every call that has started is receiving or done.\<close>

definition phases_are :: "provider_event list \<Rightarrow> execution_identity set \<Rightarrow> execution_identity set \<Rightarrow> bool" where
  "phases_are evs R D \<longleftrightarrow>
     (\<forall>i. call_phase i evs = (if i \<in> R then Receiving else if i \<in> D then Done else NotStarted))"

fun neutral :: "provider_event \<Rightarrow> bool" where
  "neutral (ToolCallStarted i n) = False"
| "neutral (ToolCallDelta i f) = False"
| "neutral (ToolCallCompleted i) = False"
| "neutral ev = True"

lemma neutral_simps: "neutral ev \<Longrightarrow> phase_step i p ev = p \<and> started ev = None"
  by (cases "(i, p, ev)" rule: phase_step.cases) auto

lemma neutral_all: "list_all neutral b \<Longrightarrow> call_phase i (a @ b) = call_phase i a \<and> started_ids b = []"
  by (induction b arbitrary: a rule: rev_induct) (auto simp: neutral_simps append_assoc [symmetric] simp del: append_assoc)

text \<open>
  \<open>R\<close> are the calls in progress, \<open>D\<close> those completed, and no other call has started. The four
  things an adapter sends keep this.
\<close>

definition opens :: "provider_event list \<Rightarrow> execution_identity multiset \<Rightarrow> execution_identity multiset \<Rightarrow> bool" where
  "opens evs R D \<longleftrightarrow> mset (started_ids evs) = R + D \<and> phases_are evs (set_mset R) (set_mset D)"

lemma opens_Nil [simp]: "opens [] {#} {#}"
  by (simp add: opens_def phases_are_def call_phase_def)

lemma opens_neutral: "opens evs R D \<Longrightarrow> list_all neutral b \<Longrightarrow> opens (evs @ b) R D"
  by (simp add: opens_def phases_are_def neutral_all)

lemma opens_started: "opens evs R D \<Longrightarrow> set (started_ids evs) = set_mset R \<union> set_mset D"
  by (metis opens_def set_mset_mset set_mset_union)

lemma opens_start:
  assumes "opens evs R D" "good_calls (evs @ [ToolCallStarted i n])"
  shows "opens (evs @ [ToolCallStarted i n]) (add_mset i R) D"
proof -
  have "i \<notin> set (started_ids evs)" "\<not> is_blank n" using assms(2) by (auto simp: good_calls_def)
  with opens_started [OF assms(1)] assms(1) show ?thesis by (auto simp: opens_def phases_are_def)
qed

lemma opens_delta: "opens evs R D \<Longrightarrow> i \<in># R \<Longrightarrow> opens (evs @ [ToolCallDelta i (Append a)]) R D"
  by (auto simp: opens_def phases_are_def)

lemma opens_done:
  assumes "opens evs (add_mset i R) D" "good_calls evs"
  shows "opens (evs @ [ToolCallCompleted i]) R (add_mset i D)"
proof -
  have "mset (started_ids evs) = add_mset i (R + D)" using assms(1) by (simp add: opens_def)
  moreover have "distinct (started_ids evs)" using assms(2) by (simp add: good_calls_def)
  ultimately have "count (add_mset i (R + D)) i \<le> 1" by (metis distinct_count_atmost_1 le_refl zero_le_one)
  then have "i \<notin># R + D" by (simp add: not_in_iff)
  with assms(1) show ?thesis by (auto simp: opens_def phases_are_def)
qed

text \<open>At the end nothing is in progress: the assembler accepts the stream and every call is whole.\<close>

definition whole_calls :: "provider_event list \<Rightarrow> bool" where
  "whole_calls evs \<longleftrightarrow> well_formed_stream evs \<and> list_all (\<lambda>i. call_phase i evs = Done) (started_ids evs)"

lemma opens_whole:
  assumes "opens evs {#} D" "good_calls evs"
  shows "whole_calls evs"
proof -
  have "\<not> is_failure ev" if "ev \<in> set evs" for ev using assms(2) that by (simp add: good_calls_def list_all_iff)
  with assms(1) opens_started [OF assms(1)] show ?thesis
    by (auto simp: whole_calls_def well_formed_stream_def opens_def phases_are_def list_all_iff)
qed

end
