(* ===== verification/Tools.thy ===== *)
theory Tools
  imports Messages "HOL-Library.AList" "HOL-Library.List_Lexorder" "HOL-Library.Char_ord"
begin

text \<open>
  The tool registry of \<open>src/tools/mod.rs\<close>: admission of tool calls by name and by the
  tool's JSON schema, resolution through the static table and then the dynamic sources (MCP),
  subsets for delegated runs and the sorted specification list. A tool's action is the
  parameter \<open>act\<close> of \<open>execute_with_cancellation\<close>; a dynamic source is the two functions of
  its trait. Objects are walked in the order of their entries.
\<close>

section \<open>Data\<close>

record tool_spec =
  sp_name :: string
  sp_description :: string
  sp_parameters :: json

record tool =
  tool_spec +
  tool_read_only :: bool

record tool_output =
  to_content :: string
  to_transient :: "message list"

definition output_text :: "string \<Rightarrow> tool_output" where
  "output_text content = \<lparr>to_content = content, to_transient = []\<rparr>"

datatype admission_error = UnknownTool string | InvalidArguments string string

definition admission_code :: "admission_error \<Rightarrow> string" where
  "admission_code e =
     (case e of UnknownTool n \<Rightarrow> ''unknown_tool'' | InvalidArguments t m \<Rightarrow> ''invalid_arguments'')"

text \<open>The fixed parts of the messages.\<close>

definition msg_should_be :: string where
  "msg_should_be = utf8 [32,24212,20026,32]"

definition msg_missing_field :: string where
  "msg_missing_field = utf8 [32,32570,23569,24517,22635,23383,27573,32]"

definition msg_extra_field :: string where
  "msg_extra_field = utf8 [32,19981,20801,35768,39069,22806,23383,27573,32]"

definition msg_unknown_tool :: string where
  "msg_unknown_tool = utf8 [26410,30693,24037,20855] @ '': ''"

definition msg_tool :: string where
  "msg_tool = utf8 [24037,20855,32]"

definition msg_arguments_invalid :: string where
  "msg_arguments_invalid = utf8 [32,21442,25968,26657,39564,22833,36133] @ '': ''"

definition admission_message :: "admission_error \<Rightarrow> string" where
  "admission_message e =
     (case e of
        UnknownTool n \<Rightarrow> msg_unknown_tool @ n
      | InvalidArguments t m \<Rightarrow> msg_tool @ t @ msg_arguments_invalid @ m)"

section \<open>Schema validation\<close>

definition json_arr :: "json \<Rightarrow> json list option" where
  "json_arr v = (case v of JArr xs \<Rightarrow> Some xs | _ \<Rightarrow> None)"

definition json_obj :: "json \<Rightarrow> (string \<times> json) list option" where
  "json_obj v = (case v of JObj kvs \<Rightarrow> Some kvs | _ \<Rightarrow> None)"

text \<open>\<open>as_i64\<close> or \<open>as_u64\<close>.\<close>

definition json_integer :: "json \<Rightarrow> bool" where
  "json_integer v = (case v of JInt i \<Rightarrow> - (2 ^ 63) \<le> i \<and> i < 2 ^ 64 | _ \<Rightarrow> False)"

definition type_matches :: "string \<Rightarrow> json \<Rightarrow> bool" where
  "type_matches expected v =
     (if expected = ''object'' then json_obj v \<noteq> None
      else if expected = ''array'' then json_arr v \<noteq> None
      else if expected = ''string'' then json_str v \<noteq> None
      else if expected = ''number'' then (case v of JInt i \<Rightarrow> True | JNum s \<Rightarrow> True | _ \<Rightarrow> False)
      else if expected = ''integer'' then json_integer v
      else if expected = ''boolean'' then (case v of JBool b \<Rightarrow> True | _ \<Rightarrow> False)
      else if expected = ''null'' then v = JNull
      else True)"

definition check_type :: "json \<Rightarrow> json \<Rightarrow> string \<Rightarrow> string + unit" where
  "check_type schema v path =
     (case Option.bind (json_get ''type'' schema) json_str of
        Some expected \<Rightarrow> if type_matches expected v then Inr () else Inl (path @ msg_should_be @ expected)
      | None \<Rightarrow> Inr ())"

definition required_names :: "json \<Rightarrow> string list" where
  "required_names schema =
     (case Option.bind (json_get ''required'' schema) json_arr of
        Some names \<Rightarrow> List.map_filter json_str names
      | None \<Rightarrow> [])"

fun check_required :: "string list \<Rightarrow> (string \<times> json) list \<Rightarrow> string \<Rightarrow> string + unit" where
  "check_required [] entries path = Inr ()"
| "check_required (n # ns) entries path =
     (if map_of entries n = None then Inl (path @ msg_missing_field @ n)
      else check_required ns entries path)"

fun validate_value :: "json \<Rightarrow> json \<Rightarrow> string \<Rightarrow> string + unit"
  and validate_fields :: "json \<Rightarrow> (string \<times> json) list \<Rightarrow> (string \<times> json) list \<Rightarrow> string \<Rightarrow> string + unit" where
  "validate_value schema v path =
     bindE (check_type schema v path) (\<lambda>_.
       case v of
         JObj entries \<Rightarrow>
           bindE (check_required (required_names schema) entries path) (\<lambda>_.
             case Option.bind (json_get ''properties'' schema) json_obj of
               Some properties \<Rightarrow> validate_fields schema properties entries path
             | None \<Rightarrow> Inr ())
       | _ \<Rightarrow> Inr ())"
| "validate_fields schema properties [] path = Inr ()"
| "validate_fields schema properties ((n, child) # rest) path =
     bindE (case map_of properties n of
              Some child_schema \<Rightarrow> validate_value child_schema child (path @ ''.'' @ n)
            | None \<Rightarrow> if json_get ''additionalProperties'' schema = Some (JBool False)
                      then Inl (path @ msg_extra_field @ n) else Inr ())
       (\<lambda>_. validate_fields schema properties rest path)"

text \<open>
  The contract of the validator: which values a schema admits, said without a path, an order
  of checks or an error.
\<close>

inductive conforms :: "json \<Rightarrow> json \<Rightarrow> bool" where
  scalar: "(\<And>t. Option.bind (json_get ''type'' schema) json_str = Some t \<Longrightarrow> type_matches t v) \<Longrightarrow>
     json_obj v = None \<Longrightarrow> conforms schema v"
| object: "(\<And>t. Option.bind (json_get ''type'' schema) json_str = Some t \<Longrightarrow> type_matches t (JObj entries)) \<Longrightarrow>
     (\<And>n. n \<in> set (required_names schema) \<Longrightarrow> n \<in> fst ` set entries) \<Longrightarrow>
     (\<And>properties n child. Option.bind (json_get ''properties'' schema) json_obj = Some properties \<Longrightarrow>
        (n, child) \<in> set entries \<Longrightarrow>
        (\<exists>child_schema. map_of properties n = Some child_schema \<and> conforms child_schema child) \<or>
        map_of properties n = None \<and> json_get ''additionalProperties'' schema \<noteq> Some (JBool False)) \<Longrightarrow>
     conforms schema (JObj entries)"

inductive_cases conforms_objE: "conforms schema (JObj entries)"
inductive_simps conforms_obj: "conforms schema (JObj entries)"

fun_cases validate_fields_ConsE: "validate_fields schema properties ((n, child) # rest) path = Inr u"

lemma check_type_ok:
  "check_type schema v path = Inr u \<longleftrightarrow>
     (\<forall>t. Option.bind (json_get ''type'' schema) json_str = Some t \<longrightarrow> type_matches t v)"
  by (auto simp: check_type_def split: option.splits)

lemma check_required_ok: "check_required ns entries path = Inr u \<longleftrightarrow> set ns \<subseteq> fst ` set entries"
  by (induction ns) (auto simp: map_of_eq_None_iff)

lemma conforms_required: "conforms schema (JObj entries) \<Longrightarrow> set (required_names schema) \<subseteq> fst ` set entries"
  by (auto simp: json_obj_def [of "JObj entries"] elim!: conforms_objE)

lemma validate_conforms:
  "validate_value schema v path = Inr u \<longleftrightarrow> conforms schema v"
  "validate_fields schema properties entries path = Inr u \<longleftrightarrow>
     (\<forall>(n, child) \<in> set entries.
        (\<exists>child_schema. map_of properties n = Some child_schema \<and> conforms child_schema child) \<or>
        map_of properties n = None \<and> json_get ''additionalProperties'' schema \<noteq> Some (JBool False))"
proof (induction schema v path and schema properties entries path rule: validate_value_validate_fields.induct)
  case (1 schema v path)
  show ?case
  proof (cases "check_type schema v path")
    case (Inl e)
    then have "\<not> (\<forall>t. Option.bind (json_get ''type'' schema) json_str = Some t \<longrightarrow> type_matches t v)"
      using check_type_ok [of schema v path "()"] by simp
    with Inl show ?thesis by (auto simp: bindE_def elim: conforms.cases)
  next
    case (Inr x)
    note ty = this
    have tok: "\<And>t. Option.bind (json_get ''type'' schema) json_str = Some t \<Longrightarrow> type_matches t v"
      using check_type_ok [of schema v path] Inr by auto
    have other: "json_obj v = None \<Longrightarrow> conforms schema v"
      by (rule conforms.scalar) (simp_all add: tok)
    show ?thesis
    proof (cases v)
      case (JObj entries)
      show ?thesis
      proof (cases "check_required (required_names schema) entries path")
        case (Inl e)
        then have "\<not> set (required_names schema) \<subseteq> fst ` set entries"
          using check_required_ok [of "required_names schema" entries path "()"] by simp
        with Inl JObj ty show ?thesis by (auto simp: bindE_def dest: conforms_required)
      next
        case (Inr y)
        then have "set (required_names schema) \<subseteq> fst ` set entries"
          using check_required_ok by fastforce
        then show ?thesis
          using 1 [OF JObj] ty Inr JObj tok
          by (cases "Option.bind (json_get ''properties'' schema) json_obj")
            (auto simp: bindE_def conforms_obj json_obj_def [of "JObj entries"])
      qed
    qed (use ty other in \<open>simp_all add: bindE_def json_obj_def\<close>)
  qed
next
  case (3 schema properties n child rest path)
  then show ?case by (cases "map_of properties n") (auto simp: bindE_def split: sum.splits)
qed simp

section \<open>The registry\<close>

record dynamic_source =
  src_specs :: "tool_spec list"
  src_get :: "string \<Rightarrow> tool option"

record registry =
  reg_tools :: "(string \<times> tool) list"
  reg_sources :: "dynamic_source list"

definition new_registry :: registry where
  "new_registry = \<lparr>reg_tools = [], reg_sources = []\<rparr>"

definition register :: "tool \<Rightarrow> registry \<Rightarrow> registry" where
  "register t r = r\<lparr>reg_tools := AList.update (sp_name t) t (reg_tools r)\<rparr>"

definition register_dynamic_source :: "dynamic_source \<Rightarrow> registry \<Rightarrow> registry" where
  "register_dynamic_source s r = r\<lparr>reg_sources := reg_sources r @ [s]\<rparr>"

fun find_map :: "('a \<Rightarrow> 'b option) \<Rightarrow> 'a list \<Rightarrow> 'b option" where
  "find_map f [] = None"
| "find_map f (x # xs) = (case f x of Some y \<Rightarrow> Some y | None \<Rightarrow> find_map f xs)"

definition resolve :: "registry \<Rightarrow> string \<Rightarrow> tool option" where
  "resolve r n =
     (case map_of (reg_tools r) n of
        Some t \<Rightarrow> Some t
      | None \<Rightarrow> find_map (\<lambda>s. src_get s n) (reg_sources r))"

definition is_read_only :: "registry \<Rightarrow> string \<Rightarrow> bool" where
  "is_read_only r n = (case resolve r n of Some t \<Rightarrow> tool_read_only t | None \<Rightarrow> False)"

text \<open>\<open>Inl n\<close> is the refusal of a name the parent's static table does not hold.\<close>

fun subset_from :: "registry \<Rightarrow> string list \<Rightarrow> registry \<Rightarrow> string + registry" where
  "subset_from r [] acc = Inr acc"
| "subset_from r (n # ns) acc =
     (case map_of (reg_tools r) n of
        None \<Rightarrow> Inl n
      | Some t \<Rightarrow> subset_from r ns (acc\<lparr>reg_tools := AList.update n t (reg_tools acc)\<rparr>))"

definition subset_tools :: "registry \<Rightarrow> string list \<Rightarrow> string + registry" where
  "subset_tools r ns = subset_from r ns new_registry"

definition specs :: "registry \<Rightarrow> tool_spec list" where
  "specs r = sort_key sp_name
     (map (\<lambda>(_, t). tool_spec.truncate t) (reg_tools r) @ concat (map src_specs (reg_sources r)))"

definition admit :: "registry \<Rightarrow> string \<Rightarrow> json \<Rightarrow> admission_error + unit" where
  "admit r n args =
     (case resolve r n of
        None \<Rightarrow> Inl (UnknownTool n)
      | Some t \<Rightarrow>
          (case validate_value (sp_parameters t) args ''$args'' of
             Inl m \<Rightarrow> Inl (InvalidArguments n m)
           | Inr _ \<Rightarrow> Inr ()))"

fun admit_all :: "registry \<Rightarrow> tool_call list \<Rightarrow> admission_error + unit" where
  "admit_all r [] = Inr ()"
| "admit_all r (c # cs) = bindE (admit r (tc_name c) (tc_arguments c)) (\<lambda>_. admit_all r cs)"

text \<open>A tool's own error is the text of its error chain.\<close>

datatype tool_error = Refused admission_error | ToolError string

definition execute_with_cancellation ::
  "registry \<Rightarrow> (tool \<Rightarrow> json \<Rightarrow> string + tool_output) \<Rightarrow> string \<Rightarrow> json \<Rightarrow> tool_error + tool_output" where
  "execute_with_cancellation r act n args =
     (case admit r n args of
        Inl e \<Rightarrow> Inl (Refused e)
      | Inr _ \<Rightarrow>
          (case resolve r n of
             None \<Rightarrow> Inl (Refused (UnknownTool n))
           | Some t \<Rightarrow> (case act t args of Inl m \<Rightarrow> Inl (ToolError m) | Inr out \<Rightarrow> Inr out)))"

section \<open>Admission\<close>

lemma admit_ok:
  "admit r n args = Inr u \<longleftrightarrow> (\<exists>t. resolve r n = Some t \<and> conforms (sp_parameters t) args)"
proof (cases "resolve r n")
  case (Some t)
  then show ?thesis
    using validate_conforms(1) [of "sp_parameters t" args "''$args''" "()"]
    by (cases "validate_value (sp_parameters t) args ''$args''") (simp_all add: admit_def)
qed (simp add: admit_def)

lemma admit_all_ok: "admit_all r cs = Inr u \<longleftrightarrow> (\<forall>c \<in> set cs. admit r (tc_name c) (tc_arguments c) = Inr ())"
  by (induction cs) (auto simp: bindE_def split: sum.splits)

lemma admitted_executes:
  assumes "admit r n args = Inr ()"
  shows "\<exists>t. resolve r n = Some t \<and>
    execute_with_cancellation r act n args = map_sum ToolError id (act t args)"
proof -
  obtain t where "resolve r n = Some t" using assms admit_ok by blast
  then show ?thesis using assms
    by (cases "act t args") (auto simp: execute_with_cancellation_def)
qed


section \<open>Delegated tool sets\<close>

lemma subset_from_spec:
  assumes "subset_from r ns acc = Inr s"
  shows "reg_sources s = reg_sources acc \<and> set ns \<subseteq> dom (map_of (reg_tools r)) \<and>
    map_of (reg_tools s) = (\<lambda>n. if n \<in> set ns then map_of (reg_tools r) n else map_of (reg_tools acc) n)"
  using assms
proof (induction ns arbitrary: acc)
  case (Cons n ns)
  then obtain t where t: "map_of (reg_tools r) n = Some t"
    "subset_from r ns (acc\<lparr>reg_tools := AList.update n t (reg_tools acc)\<rparr>) = Inr s"
    by (auto split: option.splits)
  from Cons.IH [OF t(2)] t(1) show ?case by (auto simp: update_conv' fun_eq_iff)
qed simp

lemma find_map_None: "find_map f xs = None \<longleftrightarrow> (\<forall>x \<in> set xs. f x = None)"
  by (induction xs) (auto split: option.splits)

lemma resolve_subset:
  assumes "subset_tools r ns = Inr s"
  shows "resolve s n = (if n \<in> set ns then map_of (reg_tools r) n else None)"
  using subset_from_spec [OF assms [unfolded subset_tools_def]]
  by (auto simp: resolve_def new_registry_def split: option.splits)

text \<open>
  Least privilege. The tool set of a delegated run resolves exactly the names it was
  given, each to the parent's own static tool: no dynamic source and no other tool of the
  parent can be reached through it.
\<close>

theorem subset_least_privilege:
  assumes "subset_tools r ns = Inr s"
  shows "resolve s n = (if n \<in> set ns then map_of (reg_tools r) n else None) \<and>
    (\<forall>c. admit s (tc_name c) (tc_arguments c) = Inr () \<longrightarrow> tc_name c \<in> set ns) \<and>
    (is_read_only s n \<longrightarrow> is_read_only r n)"
  using resolve_subset [OF assms]
  by (auto simp: admit_ok is_read_only_def resolve_def split: if_splits option.splits)

section \<open>A concrete registry\<close>

definition read_tool :: tool where
  "read_tool = \<lparr>sp_name = ''read'', sp_description = [],
     sp_parameters = JObj [(''type'', JStr ''object''), (''required'', JArr [JStr ''path'']),
       (''properties'', JObj [(''path'', JObj [(''type'', JStr ''string'')])]),
       (''additionalProperties'', JBool False)],
     tool_read_only = True\<rparr>"

definition exec_tool :: tool where
  "exec_tool = \<lparr>sp_name = ''exec'', sp_description = [], sp_parameters = JObj [], tool_read_only = False\<rparr>"

definition sample_registry :: registry where
  "sample_registry = register exec_tool (register read_tool new_registry)"

definition read_call :: tool_call where
  "read_call = \<lparr>tc_id = ''c1'', tc_name = ''read'', tc_arguments = JObj [(''path'', JStr ''a'')]\<rparr>"

lemmas sample_registry_defs = sample_registry_def read_tool_def exec_tool_def read_call_def register_def
  new_registry_def resolve_def json_get_def json_str_def json_obj_def json_arr_def

lemma read_call_admitted: "admit_all sample_registry [read_call] = Inr ()"
  by (simp add: sample_registry_defs admit_def bindE_def check_type_def type_matches_def required_names_def)


lemma sample_subset: "subset_tools sample_registry [''read''] = Inr \<lparr>reg_tools = [(''read'', read_tool)], reg_sources = []\<rparr>"
  by (simp add: subset_tools_def sample_registry_defs)

theorem subset_least_privilege_witness:
  "subset_tools sample_registry [''read''] = Inr \<lparr>reg_tools = [(''read'', read_tool)], reg_sources = []\<rparr> \<and>
   resolve sample_registry ''exec'' = Some exec_tool \<and>
   resolve \<lparr>reg_tools = [(''read'', read_tool)], reg_sources = []\<rparr> ''exec'' = None"
proof -
  have "resolve \<lparr>reg_tools = [(''read'', read_tool)], reg_sources = []\<rparr> ''exec'' = None"
    using conjunct1 [OF subset_least_privilege [OF sample_subset, of "''exec''"]] by simp
  moreover have "resolve sample_registry ''exec'' = Some exec_tool"
    by (simp add: sample_registry_defs)
  ultimately show ?thesis using sample_subset by blast
qed

end
