(* ===== verification/Openai.thy ===== *)
theory Openai
  imports Wire_Calls Tools
begin

text \<open>
  The OpenAI adapter (\<open>src/provider/openai.rs\<close>): the request a conversation and the tools
  become, and the provider events a response stream becomes. \<open>text_of_json\<close> prints JSON,
  \<open>dec64\<close> decodes base64, \<open>lossy\<close> is \<open>from_utf8_lossy\<close> and \<open>parse\<close> is \<open>serde_json\<close> on a stream
  chunk. The event channel stays open, so \<open>send_event\<close> does not fail.
\<close>

section \<open>Requests\<close>

definition role_name :: "role \<Rightarrow> string" where
  "role_name r = (case r of RSystem \<Rightarrow> ''system'' | RUser \<Rightarrow> ''user'' | RAssistant \<Rightarrow> ''assistant'' | RTool \<Rightarrow> ''tool'')"

definition openai_call :: "(json \<Rightarrow> string) \<Rightarrow> (string \<Rightarrow> string option) \<Rightarrow> tool_call \<Rightarrow> json" where
  "openai_call text_of_json dec64 c =
     JObj [(''id'', JStr (case outbound_wire_id dec64 (tc_id c) of None \<Rightarrow> tc_id c | Some w \<Rightarrow> w)),
           (''type'', JStr ''function''),
           (''function'', JObj [(''name'', JStr (tc_name c)), (''arguments'', JStr (text_of_json (tc_arguments c)))])]"

definition openai_content :: "message \<Rightarrow> (string \<times> json) list" where
  "openai_content m =
     (if msg_images m \<noteq> [] then
        [(''content'', JArr ((case msg_content m of None \<Rightarrow> []
                            | Some c \<Rightarrow> [JObj [(''type'', JStr ''text''), (''text'', JStr c)]]) @
           map (\<lambda>u. JObj [(''type'', JStr ''image_url''), (''image_url'', JObj [(''url'', JStr u)])]) (msg_images m)))]
      else case msg_content m of None \<Rightarrow> [] | Some c \<Rightarrow> [(''content'', JStr c)])"

definition openai_message :: "(json \<Rightarrow> string) \<Rightarrow> (string \<Rightarrow> string option) \<Rightarrow> message \<Rightarrow> json" where
  "openai_message text_of_json dec64 m =
     JObj ([(''role'', JStr (role_name (msg_role m)))] @ openai_content m @
       (if msg_calls m = [] then [] else [(''tool_calls'', JArr (map (openai_call text_of_json dec64) (msg_calls m)))]) @
       (case msg_call_id m of None \<Rightarrow> []
        | Some i \<Rightarrow> [(''tool_call_id'', JStr (case outbound_wire_id dec64 i of None \<Rightarrow> i | Some w \<Rightarrow> w))]) @
       (case msg_name m of None \<Rightarrow> [] | Some n \<Rightarrow> [(''name'', JStr n)]))"

definition request_tools :: "tool_spec list \<Rightarrow> json list" where
  "request_tools specs' =
     map (\<lambda>t. JObj [(''type'', JStr ''function''),
                    (''function'', JObj [(''name'', JStr (sp_name t)), (''description'', JStr (sp_description t)),
                                         (''parameters'', sp_parameters t)])])
       (sort_key sp_name specs')"

definition openai_payload ::
  "(json \<Rightarrow> string) \<Rightarrow> (string \<Rightarrow> string option) \<Rightarrow> string \<Rightarrow> message list \<Rightarrow> tool_spec list \<Rightarrow> json" where
  "openai_payload text_of_json dec64 model messages specs' =
     JObj ([(''model'', JStr model), (''messages'', JArr (map (openai_message text_of_json dec64) messages)),
            (''stream'', JBool True), (''stream_options'', JObj [(''include_usage'', JBool True)])] @
       (if specs' = [] then [] else [(''tools'', JArr (request_tools specs')), (''tool_choice'', JStr ''auto'')]))"

section \<open>The stream\<close>

record stream_function =
  sf_name :: "string option"
  sf_arguments :: "string option"

record stream_call =
  sc_index :: nat
  sc_id :: "string option"
  sc_function :: "stream_function option"

record stream_choice =
  sh_content :: "string option"
  sh_thinking :: "string option"
  sh_calls :: "stream_call list"
  sh_finish :: "string option"

record stream_usage =
  su_prompt :: "u64 option"
  su_completion :: "u64 option"
  su_details :: "u64 option option"
  su_hit :: "u64 option"
  su_miss :: "u64 option"

record stream_chunk =
  sk_choices :: "stream_choice list"
  sk_usage :: "stream_usage option"

record wire_call =
  wc_id :: "string option"
  wc_name :: "string option"
  wc_identity :: "execution_identity option"
  wc_arguments :: bool

definition new_wire_call :: wire_call where
  "new_wire_call = \<lparr>wc_id = None, wc_name = None, wc_identity = None, wc_arguments = False\<rparr>"

text \<open>The positions of the calls, the end mark, and the events sent so far.\<close>

record openai_state =
  oa_calls :: "(nat \<times> wire_call) list"
  oa_done :: bool
  oa_events :: "provider_event list"

definition openai_start :: openai_state where
  "openai_start = \<lparr>oa_calls = [], oa_done = False, oa_events = []\<rparr>"

definition msg_tool_position :: string where
  "msg_tool_position = utf8 [79, 112, 101, 110, 65, 73, 32, 24037, 20855, 20301, 32622, 32]"

definition msg_id_conflict :: string where
  "msg_id_conflict = utf8 [32, 20986, 29616, 20914, 31361, 32, 105, 100, 65306]"

definition msg_name_conflict :: string where
  "msg_name_conflict = utf8 [32, 20986, 29616, 20914, 31361, 21517, 31216, 65306]"

definition msg_no_owner :: string where
  "msg_no_owner = utf8 [32, 30340, 32, 97, 114, 103, 117, 109, 101, 110, 116, 115, 32, 26080, 27861, 24402, 23646]"

definition msg_early_arguments :: string where
  "msg_early_arguments =
     utf8 [32, 22312, 32, 105, 100, 47, 110, 97, 109, 101, 32, 23436, 25972, 21069, 20986, 29616,
     32, 97, 114, 103, 117, 109, 101, 110, 116, 115]"

definition msg_no_identity :: string where
  "msg_no_identity =
     utf8 [79, 112, 101, 110, 65, 73, 32, 24037, 20855, 35843, 29992, 32570, 23569, 32, 105, 100,
     101, 110, 116, 105, 116, 121]"

definition failed_event :: "string \<Rightarrow> string \<Rightarrow> provider_event" where
  "failed_event code message = ToolCallFailed (new_error code message)"

definition some_text :: "string option \<Rightarrow> string option" where
  "some_text o' = (case o' of Some (c # s) \<Rightarrow> Some (c # s) | _ \<Rightarrow> None)"

text \<open>The id or the name of a call, fixed by the first chunk that has it; \<open>Inl\<close> is the one it conflicts with.\<close>

definition settle :: "string option \<Rightarrow> string option \<Rightarrow> string + string option" where
  "settle known given =
     (case some_text given of
        None \<Rightarrow> Inr known
      | Some g \<Rightarrow> (case known of None \<Rightarrow> Inr (Some g) | Some k \<Rightarrow> if k = g then Inr known else Inl k))"

definition start_call :: "nat \<Rightarrow> wire_call \<Rightarrow> wire_call \<times> provider_event" where
  "start_call index c =
     (case (wc_id c, wc_name c) of
        (Some i, Some n) \<Rightarrow>
          (c\<lparr>wc_identity := Some (wire OpenaiChat i)\<rparr>, ToolCallStarted (wire OpenaiChat i) n)
      | _ \<Rightarrow> (c, failed_event ''anonymous_delta'' (msg_tool_position @ dec index @ msg_early_arguments)))"

text \<open>One piece of a call: the call and the events it causes.\<close>

definition call_delta :: "stream_call \<Rightarrow> wire_call \<Rightarrow> wire_call \<times> provider_event list" where
  "call_delta d c =
     (case settle (wc_id c) (sc_id d) of
        Inl old \<Rightarrow> (c, [failed_event ''identity_conflict''
          (msg_tool_position @ dec (sc_index d) @ msg_id_conflict @ old @ '' / '' @ the (sc_id d))])
      | Inr i \<Rightarrow>
          let c = c\<lparr>wc_id := i\<rparr>; n = Option.bind (sc_function d) sf_name; args = Option.bind (sc_function d) sf_arguments in
          (case settle (wc_name c) n of
             Inl old \<Rightarrow> (c, [failed_event ''name_conflict''
               (msg_tool_position @ dec (sc_index d) @ msg_name_conflict @ old @ '' / '' @ the n)])
           | Inr n \<Rightarrow>
               let c = c\<lparr>wc_name := n\<rparr> in
               (case args of
                  None \<Rightarrow> (c, [])
                | Some a \<Rightarrow>
                    let (c, evs) = (if wc_identity c = None
                                    then let (c, ev) = start_call (sc_index d) c in (c, [ev]) else (c, []));
                        c = c\<lparr>wc_arguments := True\<rparr>
                    in (case wc_identity c of
                          None \<Rightarrow> (c, evs @ [failed_event ''anonymous_delta''
                            (msg_tool_position @ dec (sc_index d) @ msg_no_owner)])
                        | Some i \<Rightarrow> (c, evs @ [ToolCallDelta i (Append a)])))))"

definition send_all :: "provider_event list \<Rightarrow> openai_state \<Rightarrow> openai_state" where
  "send_all evs s = s\<lparr>oa_events := oa_events s @ evs\<rparr>"

definition consume_tool_delta :: "stream_call \<Rightarrow> openai_state \<Rightarrow> openai_state" where
  "consume_tool_delta d s =
     (let (c, evs) = call_delta d (case map_of (oa_calls s) (sc_index d) of None \<Rightarrow> new_wire_call | Some c \<Rightarrow> c)
      in send_all evs (s\<lparr>oa_calls := put (sc_index d) c (oa_calls s)\<rparr>))"

definition usage_event :: "stream_usage \<Rightarrow> provider_event" where
  "usage_event u = Usage \<lparr>input_tokens = su_prompt u, output_tokens = su_completion u,
     cache_read_tokens = (case su_hit u of Some h \<Rightarrow> Some h | None \<Rightarrow> Option.bind (su_details u) id),
     cache_creation_tokens = su_miss u\<rparr>"

definition consume_choice :: "stream_choice \<Rightarrow> openai_state \<Rightarrow> openai_state" where
  "consume_choice h s =
     (let s = send_all (case some_text (sh_thinking h) of None \<Rightarrow> [] | Some t \<Rightarrow> [ThinkingDelta t]) s;
          s = send_all (case sh_content h of None \<Rightarrow> [] | Some t \<Rightarrow> [TextDelta t]) s;
          s = foldl (\<lambda>s d. consume_tool_delta d s) s (sh_calls h)
      in send_all (if sh_finish h = Some ''length'' then [OutputTruncated] else []) s)"

definition is_ascii_ws :: "char \<Rightarrow> bool" where
  "is_ascii_ws c \<longleftrightarrow> c \<in> {CHR 0x09, CHR 0x0A, CHR 0x0C, CHR 0x0D, CHR 0x20}"

definition trim_ascii :: "string \<Rightarrow> string" where
  "trim_ascii s = rev (dropWhile is_ascii_ws (rev (dropWhile is_ascii_ws s)))"

definition strip_data :: "string \<Rightarrow> string option" where
  "strip_data l = (if prefix ''data:'' l then Some (drop 5 l) else None)"

definition end_mark :: "string \<Rightarrow> bool" where
  "end_mark l \<longleftrightarrow> (case strip_data l of None \<Rightarrow> False | Some d \<Rightarrow> trim_ascii d = ''[DONE]'')"

definition consume_openai_line ::
  "(string \<Rightarrow> string) \<Rightarrow> (string \<Rightarrow> stream_chunk option) \<Rightarrow> (openai_state, provider_error) consumer" where
  "consume_openai_line lossy parse s l =
     (let s = s\<lparr>oa_done := oa_done s \<or> end_mark l\<rparr> in
      case map_option trim_start (strip_data (lossy l)) of
        None \<Rightarrow> (None, s)
      | Some d \<Rightarrow>
          if d = [] \<or> d = ''[DONE]'' then (None, s)
          else case parse d of
            None \<Rightarrow> (Some (plain_error Protocol), s)
          | Some k \<Rightarrow>
              (None, foldl (\<lambda>s h. consume_choice h s)
                       (send_all (case sk_usage k of None \<Rightarrow> [] | Some u \<Rightarrow> [usage_event u]) s) (sk_choices k)))"

text \<open>At the end every call is completed, in the order of the positions.\<close>

fun complete_calls :: "(nat \<times> wire_call) list \<Rightarrow> openai_state \<Rightarrow> openai_state" where
  "complete_calls [] s = s"
| "complete_calls ((k, c) # cs) s =
     (let (c, evs) = (if wc_identity c = None then let (c, ev) = start_call k c in (c, [ev]) else (c, [])); s = send_all evs s
      in case wc_identity c of
           None \<Rightarrow> send_all [failed_event ''incomplete_call'' msg_no_identity] s
         | Some i \<Rightarrow> complete_calls cs (send_all [ToolCallCompleted i] s))"

definition parse_openai ::
  "(string \<Rightarrow> string) \<Rightarrow> (string \<Rightarrow> stream_chunk option) \<Rightarrow> (provider_error + string) list \<Rightarrow>
   provider_error option \<times> openai_state" where
  "parse_openai lossy parse chunks =
     (case read_stream (consume_openai_line lossy parse) [] openai_start chunks of
        (Some e, s) \<Rightarrow> (Some e, s)
      | (None, s) \<Rightarrow>
          if \<not> oa_done s then (Some (plain_error Protocol), s)
          else (None, send_all [ProtocolDone] (complete_calls (sort_key fst (oa_calls s)) s)))"

section \<open>The calls of a stream\<close>

definition oa_ok :: "openai_state \<Rightarrow> bool" where
  "oa_ok s \<longleftrightarrow> distinct (map fst (oa_calls s)) \<and>
     (good_calls (oa_events s) \<longrightarrow> opens (oa_events s) (held wc_identity (oa_calls s)) {#})"

lemma send_neutral: "list_all neutral b \<Longrightarrow> oa_ok s \<Longrightarrow> oa_ok (send_all b s)"
  using good_prefix [of "oa_events s" b] by (simp add: oa_ok_def send_all_def opens_neutral)

lemma start_call_cases:
  obtains (fail) e where "start_call k c = (c, ToolCallFailed e)"
  | (ok) i n where "start_call k c = (c\<lparr>wc_identity := Some i\<rparr>, ToolCallStarted i n)"
proof -
  consider i n where "wc_id c = Some i" "wc_name c = Some n" | "wc_id c = None \<or> wc_name c = None" by fastforce
  then show thesis
  proof cases
    case (1 i n)
    show thesis by (rule ok) (simp add: start_call_def 1)
  next
    case 2
    show thesis by (rule fail) (use 2 in \<open>auto simp: start_call_def failed_event_def split: option.split\<close>)
  qed
qed

lemma call_delta_cases:
  assumes "call_delta d c = (c', evs)"
  obtains (fail) "\<not> list_all (\<lambda>ev. \<not> is_failure ev) evs"
  | (quiet) "wc_identity c' = wc_identity c" "evs = []"
  | (more) i a where "wc_identity c' = Some i" "wc_identity c = Some i" "evs = [ToolCallDelta i (Append a)]"
  | (start) i n a where "wc_identity c = None" "wc_identity c' = Some i" "evs = [ToolCallStarted i n, ToolCallDelta i (Append a)]"
proof -
  consider x where "settle (wc_id c) (sc_id d) = Inl x" | i where "settle (wc_id c) (sc_id d) = Inr i" by (meson sumE)
  then show thesis
  proof cases
    case (1 x)
    with assms fail show thesis by (auto simp: call_delta_def failed_event_def)
  next
    case (2 i)
    let ?n = "Option.bind (sc_function d) sf_name"
    consider x where "settle (wc_name c) ?n = Inl x" | n where "settle (wc_name c) ?n = Inr n" by (meson sumE)
    then show thesis
    proof cases
      case (1 x)
      with 2 assms fail show thesis by (auto simp: call_delta_def Let_def failed_event_def)
    next
      case n: (2 n)
      let ?c = "c\<lparr>wc_id := i, wc_name := n\<rparr>"
      show thesis
      proof (cases "Option.bind (sc_function d) sf_arguments")
        case None
        with 2 n assms quiet show thesis by (auto simp: call_delta_def Let_def)
      next
        case (Some a)
        show thesis
        proof (cases "wc_identity c")
          case None
          show thesis
          proof (cases rule: start_call_cases [of "sc_index d" ?c])
            case (fail e)
            with 2 n None Some assms \<open>\<not> list_all _ evs \<Longrightarrow> thesis\<close> show thesis by (auto simp: call_delta_def Let_def)
          next
            case (ok j m)
            with 2 n None Some assms start show thesis by (auto simp: call_delta_def Let_def)
          qed
        next
          case (Some j)
          with 2 n \<open>Option.bind (sc_function d) sf_arguments = Some a\<close> assms more show thesis
            by (auto simp: call_delta_def Let_def)
        qed
      qed
    qed
  qed
qed

lemma consume_tool_delta_ok:
  assumes "oa_ok s"
  shows "oa_ok (consume_tool_delta d s)"
proof -
  let ?cs = "oa_calls s" and ?evs = "oa_events s" and ?k = "sc_index d"
  define c where "c = (case map_of ?cs ?k of None \<Rightarrow> new_wire_call | Some c \<Rightarrow> c)"
  obtain c' evs where cd: "call_delta d c = (c', evs)" by fastforce
  have s': "consume_tool_delta d s = s\<lparr>oa_calls := put ?k c' ?cs, oa_events := ?evs @ evs\<rparr>"
    using cd by (simp add: consume_tool_delta_def c_def send_all_def)
  have dk: "distinct (map fst ?cs)" using assms by (simp add: oa_ok_def)
  have old: "Option.bind (map_of ?cs ?k) wc_identity = wc_identity c"
    by (simp add: c_def new_wire_call_def split: option.split)
  let ?rest = "held wc_identity (filter (\<lambda>kv. fst kv \<noteq> ?k) ?cs)"
  have split: "held wc_identity ?cs = ident_set (wc_identity c) + ?rest" using held_split [OF dk, of wc_identity ?k] old by simp
  have "opens (?evs @ evs) (ident_set (wc_identity c') + ?rest) {#}" if good: "good_calls (?evs @ evs)"
  proof -
    have ok: "opens ?evs (ident_set (wc_identity c) + ?rest) {#}"
      using assms good_prefix [OF good] by (simp add: oa_ok_def split)
    from cd show ?thesis
    proof (cases rule: call_delta_cases)
      case fail
      with good show ?thesis by (simp add: good_calls_def)
    next
      case quiet
      with ok show ?thesis by simp
    next
      case (more i a)
      with ok opens_delta show ?thesis by simp
    next
      case (start i n a)
      with good have "good_calls (?evs @ [ToolCallStarted i n])" using good_prefix [of "?evs @ [ToolCallStarted i n]"] by simp
      with ok start opens_start [of ?evs ?rest "{#}" i n]
      have "opens (?evs @ [ToolCallStarted i n]) (add_mset i ?rest) {#}" by simp
      from opens_delta [OF this, of i a] start show ?thesis by simp
    qed
  qed
  with distinct_put [OF dk] show ?thesis unfolding oa_ok_def s' by (simp add: held_put)
qed

lemma consume_choice_ok: "oa_ok s \<Longrightarrow> oa_ok (consume_choice h s)"
proof -
  have fold: "oa_ok s \<Longrightarrow> oa_ok (foldl (\<lambda>s d. consume_tool_delta d s) s ds)" for s ds
    by (induction ds arbitrary: s) (auto intro: consume_tool_delta_ok)
  show "oa_ok s \<Longrightarrow> oa_ok (consume_choice h s)"
    unfolding consume_choice_def Let_def by (intro send_neutral fold) (auto split: option.split)
qed

lemma consume_openai_line_ok:
  assumes s: "oa_ok s"
  shows "oa_ok (snd (consume_openai_line lossy parse s l))"
proof -
  have fold: "oa_ok s \<Longrightarrow> oa_ok (foldl (\<lambda>s h. consume_choice h s) s hs)" for s hs
    by (induction hs arbitrary: s) (auto intro: consume_choice_ok)
  have usage: "list_all neutral (case u of None \<Rightarrow> [] | Some u \<Rightarrow> [usage_event u])" for u
    by (simp add: usage_event_def split: option.split)
  have "oa_ok (s\<lparr>oa_done := b\<rparr>)" for b using s by (simp add: oa_ok_def)
  then show "oa_ok (snd (consume_openai_line lossy parse s l))"
    by (auto simp: consume_openai_line_def Let_def split: option.split intro!: fold send_neutral usage simp: usage_event_def)
qed

interpretation oa: line_consumer "consume_openai_line lossy parse" oa_ok for lossy parse
  by unfold_locales (rule consume_openai_line_ok)

lemma complete_extends: "\<exists>e. oa_events (complete_calls cs s) = oa_events s @ e"
proof (induction cs s rule: complete_calls.induct)
  case (2 k c cs s)
  obtain c' evs where c': "(if wc_identity c = None then let (c, ev) = start_call k c in (c, [ev]) else (c, [])) = (c', evs)"
    by fastforce
  show ?case
  proof (cases "wc_identity c'")
    case (Some i)
    with 2 c' show ?thesis by (fastforce simp: send_all_def)
  qed (use c' in \<open>simp add: send_all_def\<close>)
qed simp

lemma complete_calls_ok:
  assumes "good_calls (oa_events (complete_calls cs s))" "opens (oa_events s) (held wc_identity cs) D"
  shows "\<exists>D. opens (oa_events (complete_calls cs s)) {#} D"
  using assms
proof (induction cs arbitrary: s D)
  case Nil
  then show ?case by auto
next
  case (Cons x cs)
  obtain k c where x: "x = (k, c)" by fastforce
  have complete: "\<exists>D. opens (oa_events (complete_calls ((k, c) # cs) s)) {#} D"
    if i: "wc_identity c = Some i" and h: "opens (oa_events s) (held wc_identity ((k, c) # cs)) D"
      and good: "good_calls (oa_events (complete_calls ((k, c) # cs) s))" for c i s
  proof -
    have last: "complete_calls ((k, c) # cs) s = complete_calls cs (send_all [ToolCallCompleted i] s)"
      using i by (simp add: send_all_def)
    obtain e where "oa_events (complete_calls ((k, c) # cs) s) = oa_events s @ e" using complete_extends by blast
    with good have "good_calls (oa_events s)" using good_prefix by simp
    with h i have "opens (oa_events s @ [ToolCallCompleted i]) (held wc_identity cs) (add_mset i D)" by (simp add: opens_done)
    then show ?thesis using Cons.IH good unfolding last by (simp add: send_all_def)
  qed
  show ?case
  proof (cases "wc_identity c")
    case (Some i)
    with Cons.prems x complete show ?thesis by blast
  next
    case None
    show ?thesis
    proof (cases rule: start_call_cases [of k c])
      case (fail e)
      with None x Cons.prems(1) show ?thesis by (simp add: send_all_def good_calls_def)
    next
      case (ok i n)
      let ?c = "c\<lparr>wc_identity := Some i\<rparr>" and ?s = "send_all [ToolCallStarted i n] s"
      have eq: "complete_calls (x # cs) s = complete_calls ((k, ?c) # cs) ?s"
        using x None ok by (simp add: send_all_def)
      obtain e where "oa_events (complete_calls ((k, ?c) # cs) ?s) = oa_events ?s @ e" using complete_extends by blast
      with Cons.prems(1) eq have "good_calls (oa_events ?s)" using good_prefix by simp
      then have "opens (oa_events ?s) (held wc_identity ((k, ?c) # cs)) D"
        using opens_start Cons.prems(2) x None by (simp add: send_all_def)
      from complete [OF _ this] Cons.prems(1) show ?thesis unfolding eq by simp
    qed
  qed
qed

text \<open>
  A stream that ends with its end mark, in which the adapter reported no failure, no call
  started twice and every call has a name, is one the assembler accepts, and no call is left
  open: each started call is completed exactly once, at the end if the stream did not give
  arguments, and the last event is the end of the protocol.
\<close>

theorem openai_stream_calls:
  assumes "parse_openai lossy parse chunks = (None, s)" and "good_calls (oa_events s)"
  shows "whole_calls (oa_events s) \<and> last (oa_events s) = ProtocolDone"
proof -
  obtain e s0 where r: "read_stream (consume_openai_line lossy parse) [] openai_start chunks = (e, s0)" by fastforce
  with assms(1) have "e = None" by (auto simp: parse_openai_def split: option.splits)
  let ?cs = "sort_key fst (oa_calls s0)"
  let ?s = "complete_calls ?cs s0"
  from \<open>e = None\<close> r assms(1) have s: "s = send_all [ProtocolDone] ?s" by (auto simp: parse_openai_def split: if_splits)
  have "oa_ok openai_start" by (simp add: oa_ok_def openai_start_def)
  from oa.read_stream_keeps [OF this, of lossy parse "[]" chunks] r have s0: "oa_ok s0" by simp
  from assms(2) s have good: "good_calls (oa_events ?s)" using good_prefix by (simp add: send_all_def)
  obtain e where "oa_events ?s = oa_events s0 @ e" using complete_extends by blast
  with good have "good_calls (oa_events s0)" using good_prefix by simp
  with s0 have "opens (oa_events s0) (held wc_identity ?cs) {#}" by (simp add: oa_ok_def)
  from complete_calls_ok [OF good this] obtain D where "opens (oa_events ?s) {#} D" by blast
  then have "opens (oa_events s) {#} D" using opens_neutral s by (simp add: send_all_def)
  with opens_whole assms(2) s show ?thesis by (simp add: send_all_def)
qed

text \<open>One call in one piece, the line cut in two by the network.\<close>

definition sample_chunk :: stream_chunk where
  "sample_chunk = \<lparr>sk_choices = [\<lparr>sh_content = Some ''a'', sh_thinking = None,
     sh_calls = [\<lparr>sc_index = 0, sc_id = Some ''c1'', sc_function = Some \<lparr>sf_name = Some ''ls'', sf_arguments = Some ''{}''\<rparr>\<rparr>],
     sh_finish = Some ''tool_calls''\<rparr>], sk_usage = None\<rparr>"

definition sample_result :: "provider_error option \<times> openai_state" where
  "sample_result = parse_openai id (\<lambda>d. if d = ''A'' then Some sample_chunk else None)
     [Inr (''data: A'' @ [line_feed] @ ''da''), Inr (''ta: [DONE]'' @ [line_feed])]"

lemma openai_stream_calls_witness:
  "whole_calls (oa_events (snd sample_result)) \<and> last (oa_events (snd sample_result)) = ProtocolDone"
proof (rule openai_stream_calls)
  show "parse_openai id (\<lambda>d. if d = ''A'' then Some sample_chunk else None)
      [Inr (''data: A'' @ [line_feed] @ ''da''), Inr (''ta: [DONE]'' @ [line_feed])] = (None, snd sample_result)"
    by code_simp
  show "good_calls (oa_events (snd sample_result))" by code_simp
qed

end
