(* ===== verification/Route.thy ===== *)
theory Route
  imports Retry Circuit
begin

text \<open>
  Provider profiles and routes: \<open>ProviderProfile\<close> and \<open>ProviderManager\<close> of
  \<open>src/provider.rs\<close>, \<open>RouteCandidate\<close>, \<open>RouteSnapshot\<close> and \<open>FrozenRoute\<close>
  of \<open>src/provider/route.rs\<close>. A provider object is whatever \<open>build_provider_from_profile\<close>
  makes of a profile (the HTTP clients are not modelled: \<open>build\<close> is a parameter), the SHA-256
  digest and the URL parser are library code: \<open>sha\<close> and \<open>url_scheme\<close> are parameters. The
  read-write locks serialise the methods, so a method is one step on the manager's state.
\<close>

section \<open>Profiles\<close>

record provider_profile =
  pf_id :: string
  pf_name :: string
  pf_api_type :: api_type
  pf_api_key :: "string option"
  pf_base_url :: string
  pf_model :: string

datatype profile_error =
    BlankProfileId | BlankModel | MissingApiKey | BlankBaseUrl | InvalidUrl | UnsupportedScheme
  | BuildFailed | ProfileGone | EmptyRoute

definition profile_validate :: "(string \<Rightarrow> string option) \<Rightarrow> provider_profile \<Rightarrow> profile_error + unit" where
  "profile_validate url_scheme p =
     (if is_blank (pf_id p) then Inl BlankProfileId
      else if is_blank (pf_model p) then Inl BlankModel
      else if pf_api_type p \<noteq> Ollama \<and> (case pf_api_key p of None \<Rightarrow> True | Some k \<Rightarrow> is_blank k)
        then Inl MissingApiKey
      else if is_blank (pf_base_url p) then Inl BlankBaseUrl
      else case url_scheme (pf_base_url p) of
             None \<Rightarrow> Inl InvalidUrl
           | Some s \<Rightarrow> if s = ''http'' \<or> s = ''https'' then Inr () else Inl UnsupportedScheme)"

section \<open>Routes\<close>

record route_candidate =
  cd_profile_id :: string
  cd_api_type :: api_type
  cd_model :: string
  cd_base_url_sha256 :: string

record timeout_policy =
  connect_ms :: u64
  first_event_ms :: u64
  stream_idle_ms :: u64
  overall_ms :: u64

definition default_timeout_policy :: timeout_policy where
  "default_timeout_policy =
     \<lparr>connect_ms = 10000, first_event_ms = 20000, stream_idle_ms = 30000, overall_ms = 300000\<rparr>"

record route_snapshot =
  candidates :: "route_candidate list"
  rt_retry_policy :: retry_policy
  rt_timeout_policy :: timeout_policy
  token_budget :: nat
  config_generation :: u64

record 'p frozen_route =
  fz_snapshot :: route_snapshot
  fz_providers :: "'p list"

definition candidate_from_profile :: "(string \<Rightarrow> string) \<Rightarrow> provider_profile \<Rightarrow> route_candidate" where
  "candidate_from_profile sha p =
     \<lparr>cd_profile_id = pf_id p, cd_api_type = pf_api_type p, cd_model = pf_model p,
      cd_base_url_sha256 = sha (pf_base_url p)\<rparr>"

definition candidate_matches :: "(string \<Rightarrow> string) \<Rightarrow> route_candidate \<Rightarrow> provider_profile \<Rightarrow> bool" where
  "candidate_matches sha c p \<longleftrightarrow>
     cd_profile_id c = pf_id p \<and> cd_api_type c = pf_api_type p \<and> cd_model c = pf_model p \<and>
     cd_base_url_sha256 c = sha (pf_base_url p)"

definition circuit_key :: "route_candidate \<Rightarrow> string" where
  "circuit_key c = cd_profile_id c @ '':'' @ cd_model c"

text \<open>\<open>build_provider_from_profile\<close> validates before it builds.\<close>

definition build_provider ::
  "(string \<Rightarrow> string option) \<Rightarrow> (provider_profile \<Rightarrow> 'p option) \<Rightarrow> provider_profile \<Rightarrow> profile_error + 'p" where
  "build_provider url_scheme build p =
     bindE (profile_validate url_scheme p) (\<lambda>_. ok_or BuildFailed (build p))"

fun restore_providers ::
  "(string \<Rightarrow> string) \<Rightarrow> (provider_profile \<Rightarrow> profile_error + 'p) \<Rightarrow> provider_profile list \<Rightarrow>
   route_candidate list \<Rightarrow> profile_error + 'p list" where
  "restore_providers sha mk profiles [] = Inr []"
| "restore_providers sha mk profiles (c # cs) =
     bindE (ok_or ProfileGone (find (candidate_matches sha c) profiles)) (\<lambda>p.
     bindE (mk p) (\<lambda>pr.
     bindE (restore_providers sha mk profiles cs) (\<lambda>prs. Inr (pr # prs))))"

definition restore ::
  "(string \<Rightarrow> string) \<Rightarrow> (provider_profile \<Rightarrow> profile_error + 'p) \<Rightarrow> route_snapshot \<Rightarrow>
   provider_profile list \<Rightarrow> profile_error + 'p frozen_route" where
  "restore sha mk snapshot profiles =
     bindE (restore_providers sha mk profiles (candidates snapshot)) (\<lambda>providers.
       if providers = [] then Inl EmptyRoute
       else Inr \<lparr>fz_snapshot = snapshot, fz_providers = providers\<rparr>)"

section \<open>The provider manager\<close>

record 'p manager =
  current :: "provider_profile \<times> 'p"
  fallbacks :: "(provider_profile \<times> 'p) list"
  generation :: u64

definition manager_new ::
  "(provider_profile \<Rightarrow> profile_error + 'p) \<Rightarrow> provider_profile \<Rightarrow> profile_error + 'p manager" where
  "manager_new mk p =
     bindE (mk p) (\<lambda>pr. Inr \<lparr>current = (p, pr), fallbacks = [], generation = 1\<rparr>)"

definition switch ::
  "(provider_profile \<Rightarrow> profile_error + 'p) \<Rightarrow> provider_profile \<Rightarrow> 'p manager \<Rightarrow> profile_error + 'p manager" where
  "switch mk p m =
     bindE (mk p) (\<lambda>pr. Inr (m\<lparr>current := (p, pr), generation := generation m + 1\<rparr>))"

text \<open>The loop of \<open>set_fallbacks\<close>; \<open>seen\<close> is the hash set of ids already met.\<close>

fun collect_fallbacks ::
  "(provider_profile \<Rightarrow> profile_error + 'p) \<Rightarrow> string \<Rightarrow> string set \<Rightarrow> provider_profile list \<Rightarrow>
   profile_error + (provider_profile \<times> 'p) list" where
  "collect_fallbacks mk active seen [] = Inr []"
| "collect_fallbacks mk active seen (p # ps) =
     (if pf_id p = active then collect_fallbacks mk active seen ps
      else if pf_id p \<in> seen then collect_fallbacks mk active seen ps
      else bindE (mk p) (\<lambda>pr.
           bindE (collect_fallbacks mk active (insert (pf_id p) seen) ps) (\<lambda>rest.
             Inr ((p, pr) # rest))))"

definition set_fallbacks ::
  "(provider_profile \<Rightarrow> profile_error + 'p) \<Rightarrow> provider_profile list \<Rightarrow> 'p manager \<Rightarrow> profile_error + 'p manager" where
  "set_fallbacks mk ps m =
     bindE (collect_fallbacks mk (pf_id (fst (current m))) {} ps) (\<lambda>fb.
       Inr (m\<lparr>fallbacks := fb, generation := generation m + 1\<rparr>))"

definition freeze :: "(string \<Rightarrow> string) \<Rightarrow> nat \<Rightarrow> 'p manager \<Rightarrow> 'p frozen_route" where
  "freeze sha budget m =
     (let cs = current m # fallbacks m in
      \<lparr>fz_snapshot =
         \<lparr>candidates = map (candidate_from_profile sha \<circ> fst) cs,
          rt_retry_policy = default_retry_policy, rt_timeout_policy = default_timeout_policy,
          token_budget = budget, config_generation = generation m\<rparr>,
       fz_providers = map snd cs\<rparr>)"

section \<open>Reachable managers\<close>

text \<open>What the daemon can do to its manager: switch the profile or replace the fallbacks.\<close>

inductive managed ::
  "(provider_profile \<Rightarrow> profile_error + 'p) \<Rightarrow> 'p manager \<Rightarrow> bool" for mk where
  created: "manager_new mk p = Inr m \<Longrightarrow> managed mk m"
| switched: "managed mk m \<Longrightarrow> switch mk p m = Inr m' \<Longrightarrow> managed mk m'"
| refilled: "managed mk m \<Longrightarrow> set_fallbacks mk ps m = Inr m' \<Longrightarrow> managed mk m'"

definition built_by :: "(provider_profile \<Rightarrow> profile_error + 'p) \<Rightarrow> provider_profile \<times> 'p \<Rightarrow> bool" where
  "built_by mk s \<longleftrightarrow> mk (fst s) = Inr (snd s)"

lemma collect_fallbacks_built:
  "collect_fallbacks mk active seen ps = Inr fb \<Longrightarrow>
   list_all (built_by mk) fb \<and> distinct (map (pf_id \<circ> fst) fb) \<and>
   (pf_id \<circ> fst) ` set fb \<inter> insert active seen = {} \<and> fst ` set fb \<subseteq> set ps"
proof (induction mk active seen ps arbitrary: fb rule: collect_fallbacks.induct)
  case (1 mk active seen)
  then show ?case by simp
next
  case (2 mk active seen p ps)
  consider "pf_id p = active \<or> pf_id p \<in> seen" | "pf_id p \<noteq> active" "pf_id p \<notin> seen" by blast
  then show ?case
  proof cases
    case 1
    then have "collect_fallbacks mk active seen ps = Inr fb"
      using "2.prems" by (auto split: if_splits)
    then have "list_all (built_by mk) fb \<and> distinct (map (pf_id \<circ> fst) fb) \<and>
        (pf_id \<circ> fst) ` set fb \<inter> insert active seen = {} \<and> fst ` set fb \<subseteq> set ps"
      using 1 "2.IH"(1,2) by metis
    then show ?thesis by (auto simp: comp_def)
  next
    case 2
    then obtain pr rest where r: "mk p = Inr pr" "fb = (p, pr) # rest"
      and rest: "collect_fallbacks mk active (insert (pf_id p) seen) ps = Inr rest"
      using "2.prems" by (auto simp: result_simps)
    have "list_all (built_by mk) rest" "distinct (map (pf_id \<circ> fst) rest)"
      "(pf_id \<circ> fst) ` set rest \<inter> insert active (insert (pf_id p) seen) = {}"
      "fst ` set rest \<subseteq> set ps"
      using "2.IH"(3) [OF 2 rest] by blast+
    moreover have "built_by mk (p, pr)" using r(1) by (simp add: built_by_def)
    ultimately show ?thesis using 2 unfolding r(2) comp_def by auto
  qed
qed

lemma managed_built:
  assumes "managed mk m"
  shows "list_all (built_by mk) (current m # fallbacks m)"
  using assms
proof (induction rule: managed.induct)
  case (created p m)
  then show ?case by (auto simp: manager_new_def built_by_def result_simps)
next
  case (switched m p m')
  then show ?case by (auto simp: switch_def built_by_def result_simps)
next
  case (refilled m ps m')
  then show ?case
    by (auto simp: set_fallbacks_def result_simps dest!: collect_fallbacks_built)
qed

lemma find_matching:
  assumes "distinct (map pf_id profiles)" and "p \<in> set profiles"
  shows "find (candidate_matches sha (candidate_from_profile sha p)) profiles = Some p"
  using assms
  by (induction profiles)
    (auto simp: candidate_matches_def candidate_from_profile_def image_iff)

lemma restore_providers_built:
  assumes "distinct (map pf_id profiles)" and "fst ` set cs \<subseteq> set profiles"
    and "list_all (built_by mk) cs"
  shows "restore_providers sha mk profiles (map (candidate_from_profile sha \<circ> fst) cs) = Inr (map snd cs)"
  using assms(2,3)
  by (induction cs) (auto simp: find_matching [OF assms(1)] built_by_def)

text \<open>
  Round trip. A route frozen by a manager is restored to exactly the same candidates and
  providers, in the same order, from any profile list with unique ids that still holds the
  profiles in use.
\<close>

theorem freeze_restore:
  assumes "managed mk m" and "distinct (map pf_id profiles)"
    and "fst ` set (current m # fallbacks m) \<subseteq> set profiles"
  shows "restore sha mk (fz_snapshot (freeze sha budget m)) profiles = Inr (freeze sha budget m)"
  using restore_providers_built [OF assms(2,3) managed_built [OF assms(1)], of sha]
  by (simp add: restore_def freeze_def Let_def)

definition sample_profile :: "string \<Rightarrow> provider_profile" where
  "sample_profile i = \<lparr>pf_id = i, pf_name = i, pf_api_type = Ollama, pf_api_key = None,
     pf_base_url = ''http://h'', pf_model = ''m''\<rparr>"

definition sample_make :: "provider_profile \<Rightarrow> profile_error + string" where
  "sample_make = build_provider (\<lambda>u. Some ''http'') (\<lambda>p. Some (pf_id p))"

definition sample_manager :: "string manager" where
  "sample_manager = \<lparr>current = (sample_profile ''a'', ''a''),
     fallbacks = [(sample_profile ''b'', ''b'')], generation = 2\<rparr>"

lemma sample_make_Inr: "c \<in> set i \<Longrightarrow> \<not> is_blank i \<Longrightarrow> sample_make (sample_profile i) = Inr i"
  by (simp add: sample_make_def build_provider_def profile_validate_def sample_profile_def
      not_blankI ascii_ws_def byte_def ws2_def ws3_def)

lemma sample_managed: "managed sample_make sample_manager"
proof -
  have mk: "sample_make (sample_profile [c]) = Inr [c]" if "c \<in> {CHR ''a'', CHR ''b''}" for c
    using that by (auto intro!: sample_make_Inr [of c] simp: not_blankI ascii_ws_def byte_def)
  have "manager_new sample_make (sample_profile ''a'') =
      Inr \<lparr>current = (sample_profile ''a'', ''a''), fallbacks = [], generation = 1\<rparr>"
    by (simp add: manager_new_def mk)
  from managed.created [OF this]
  show ?thesis
    by (rule managed.refilled [where ps = "[sample_profile ''b'', sample_profile ''a'']"])
      (simp add: set_fallbacks_def mk sample_manager_def, simp add: sample_profile_def)
qed

theorem freeze_restore_witness:
  "restore id sample_make (fz_snapshot (freeze id 100 sample_manager))
     [sample_profile ''b'', sample_profile ''c'', sample_profile ''a''] = Inr (freeze id 100 sample_manager)"
  by (rule freeze_restore)
    (simp_all add: sample_managed, simp_all add: sample_manager_def sample_profile_def)

lemma restore_providers_all:
  "restore_providers sha mk profiles cs = Inr prs \<Longrightarrow>
   length prs = length cs \<and>
   (\<forall>i < length cs. \<exists>p \<in> set profiles. candidate_matches sha (cs ! i) p \<and> mk p = Inr (prs ! i))"
proof (induction cs arbitrary: prs)
  case Nil
  then show ?case by simp
next
  case (Cons c cs)
  then obtain p pr rest where "find (candidate_matches sha c) profiles = Some p" "mk p = Inr pr"
      "restore_providers sha mk profiles cs = Inr rest" "prs = pr # rest"
    by (auto simp: result_simps)
  then show ?case using Cons.IH by (auto simp: find_Some_iff nth_Cons split: nat.splits)
qed

text \<open>
  No silent substitution. A restored route is never empty, keeps the stored snapshot, and
  every provider in it was built from a profile with the candidate's id, API type, model and
  base-URL digest; so if one candidate
  has no such profile the whole restore fails.
\<close>

theorem restore_faithful:
  "(case restore sha mk snapshot profiles of
      Inl e \<Rightarrow> True
    | Inr r \<Rightarrow> fz_snapshot r = snapshot \<and> fz_providers r \<noteq> [] \<and>
        list_all2 (\<lambda>c pr. list_ex (\<lambda>p. candidate_matches sha c p \<and> mk p = Inr pr) profiles)
          (candidates snapshot) (fz_providers r))"
proof (cases "restore sha mk snapshot profiles")
  case (Inl e)
  then show ?thesis by simp
next
  case (Inr r)
  then obtain prs where prs: "restore_providers sha mk profiles (candidates snapshot) = Inr prs"
      "prs \<noteq> []" "r = \<lparr>fz_snapshot = snapshot, fz_providers = prs\<rparr>"
    by (auto simp: restore_def result_simps split: if_splits)
  from restore_providers_all [OF prs(1)] show ?thesis
    using prs Inr by (fastforce simp: list_all2_conv_all_nth list_ex_iff in_set_conv_nth)
qed

end
