(* ===== verification/Store.thy ===== *)
theory Store
  imports Route
begin

text \<open>
  The tables of the run store (\<open>src/storage/mod.rs\<close>, \<open>src/storage/delegation.rs\<close>) and
  the row reads and writes the operations share. A table is the list of its rows in rowid
  order, the database is the record of its tables. The SQLite connection sits behind a mutex
  and every operation is one transaction, so an operation is a function on the database that
  returns an error (the transaction is dropped and rolls back) or a value and the new
  database. Constraint violations and missing rows are the error \<open>SqlError\<close>, an \<open>expect\<close>
  that fails is \<open>Panic\<close>. Text columns with a fixed vocabulary hold the datatype the code
  parses them into, JSON columns hold the value that was serialised. \<open>now\<close> is the clock the
  operation reads.
\<close>

section \<open>Values\<close>

datatype run_status =
  Queued | Running | WaitingInteraction | Completed | RFailed | RCancelled | UnknownAfterRestart

definition status_as_str :: "run_status \<Rightarrow> string" where
  "status_as_str s = (case s of
     Queued \<Rightarrow> ''queued'' | Running \<Rightarrow> ''running'' | WaitingInteraction \<Rightarrow> ''waiting_interaction''
   | Completed \<Rightarrow> ''completed'' | RFailed \<Rightarrow> ''failed'' | RCancelled \<Rightarrow> ''cancelled''
   | UnknownAfterRestart \<Rightarrow> ''unknown_after_restart'')"

definition status_parse :: "string \<Rightarrow> run_status option" where
  "status_parse v =
     (if v = ''queued'' then Some Queued else if v = ''running'' then Some Running
      else if v = ''waiting_interaction'' then Some WaitingInteraction
      else if v = ''completed'' then Some Completed else if v = ''failed'' then Some RFailed
      else if v = ''cancelled'' then Some RCancelled
      else if v = ''unknown_after_restart'' then Some UnknownAfterRestart else None)"

lemma status_parse_as_str: "status_parse (status_as_str s) = Some s"
  by (cases s) (simp_all add: status_parse_def status_as_str_def)

definition terminal :: "run_status \<Rightarrow> bool" where
  "terminal s \<longleftrightarrow> s = Completed \<or> s = RFailed \<or> s = RCancelled \<or> s = UnknownAfterRestart"

definition busy :: "run_status \<Rightarrow> bool" where
  "busy s \<longleftrightarrow> s = Running \<or> s = WaitingInteraction"

lemma terminal_simps [simp]:
  "\<not> terminal Queued" "\<not> terminal Running" "\<not> terminal WaitingInteraction" "terminal Completed"
  "terminal RFailed" "terminal RCancelled" "terminal UnknownAfterRestart"
  by (simp_all add: terminal_def)

lemma busy_simps [simp]:
  "\<not> busy Queued" "busy Running" "busy WaitingInteraction" "\<not> busy Completed"
  "\<not> busy RFailed" "\<not> busy RCancelled" "\<not> busy UnknownAfterRestart"
  by (simp_all add: busy_def)

lemma not_terminal_iff: "\<not> terminal s \<longleftrightarrow> s = Queued \<or> busy s"
  by (cases s) simp_all

datatype request_id = RNumber u64 | RString string

datatype cause =
    InputDiffers | SessionBusy | BadRunId | QueuedGone | RunNotRunning | ToolBudget
  | ToolNotPrepared | ToolNotRunning | BatchIncomplete | ApprovalIdMissing | InteractionMissing
  | InteractionGone | InteractionOwner | InteractionConflict | InteractionRevision
  | RunNotWaiting | NotTerminal | RunMissing | TerminalConflict | BadEvidence | OwnerConflict
  | ResultTaken | AttemptNotStarted | AttemptNotTerminal | AttemptConflict | AttemptOwner
  | RequestAmbiguous | BadDelegation | ParentMissing | ParentSession | SpawnConflict
  | ParentState | DeadlinePast | TooDeep | TooMany | ChildMissing | EmptyOwner
  | ResultNotReady | ResultOwned | LeaseConflict | DelegationGone

datatype store_error = SqlError | ProtocolE cause | Panic

datatype interaction_status = Pending | Answered | Rejected | Orphaned

datatype tool_status = Prepared | ToolRunning | ToolTerminal

datatype result_state = Unconsumed | Reserved | Delivered

section \<open>Tables\<close>

record session_row =
  ss_id :: string
  ss_created :: int

record run_row =
  run_rowid :: nat
  run_id :: string
  run_session :: string
  run_request :: request_id
  run_status :: run_status
  run_input :: string
  run_last_seq :: nat
  run_content :: "string option"
  run_error_code :: "int option"
  run_error_message :: "string option"
  run_created :: int
  run_updated :: int

record turn_row =
  tn_id :: string
  tn_run :: string
  tn_status :: run_status

record event_row =
  ev_run :: string
  ev_seq :: nat
  ev_name :: string
  ev_data :: json
  ev_created :: int

record interaction_row =
  in_id :: string
  in_run :: string
  in_kind :: string
  in_status :: interaction_status
  in_revision :: int
  in_prompt :: string
  in_payload :: json
  in_response :: "json option"

record queued_row =
  q_id :: nat
  q_session :: string
  q_run :: string
  q_message :: string
  q_status :: run_status

record tool_row =
  tl_id :: nat
  tl_run :: string
  tl_round :: nat
  tl_call :: string
  tl_name :: string
  tl_status :: tool_status
  tl_effect :: string
  tl_digest :: string
  tl_prepared :: int
  tl_started :: "int option"
  tl_finished :: "int option"
  tl_outcome :: "string option"
  tl_artifact :: "string option"
  tl_replay :: bool
  tl_receipt :: "json option"

record route_row =
  rr_run :: string
  rr_snapshot :: route_snapshot

record attempt_row =
  pa_id :: string
  pa_run :: string
  pa_status :: attempt_status
  pa_data :: provider_attempt

record delegation_row =
  dg_id :: nat
  dg_root_session :: string
  dg_root_run :: string
  dg_parent_session :: string
  dg_parent_run :: string
  dg_spawn_key :: string
  dg_child_session :: string
  dg_child_run :: string
  dg_depth :: int
  dg_status :: run_status
  dg_created :: int
  dg_started :: "int option"
  dg_finished :: "int option"
  dg_tools :: "string list"
  dg_permission :: string
  dg_route :: "route_snapshot option"
  dg_cwd :: string
  dg_max_rounds :: int
  dg_max_tokens :: int
  dg_max_tool_calls :: int
  dg_deadline :: int
  dg_terminal :: "json option"
  dg_result_state :: result_state
  dg_owner :: "string option"
  dg_revision :: int
  dg_released :: "int option"
  dg_expires :: "int option"

record db =
  sessions :: "session_row list"
  runs :: "run_row list"
  turns :: "turn_row list"
  events :: "event_row list"
  interactions :: "interaction_row list"
  queued_rows :: "queued_row list"
  tools :: "tool_row list"
  routes :: "route_row list"
  attempts :: "attempt_row list"
  delegations :: "delegation_row list"

text \<open>The database \<open>open\<close> leaves behind on a fresh path.\<close>

definition empty_db :: db where
  "empty_db = \<lparr>sessions = [], runs = [], turns = [], events = [], interactions = [],
     queued_rows = [], tools = [], routes = [], attempts = [], delegations = []\<rparr>"

section \<open>Updates by key\<close>

definition next_rowid :: "nat list \<Rightarrow> nat" where
  "next_rowid ids = Suc (foldr max ids 0)"

lemma next_rowid_greater: "n \<in> set ids \<Longrightarrow> n < next_rowid ids"
  by (induction ids) (auto simp: next_rowid_def)

lemma next_rowid_fresh: "next_rowid ids \<notin> set ids"
  using next_rowid_greater by blast

definition find_run :: "db \<Rightarrow> string \<Rightarrow> run_row option" where
  "find_run d rid = find_key run_id rid (runs d)"

definition set_run :: "string \<Rightarrow> (run_row \<Rightarrow> run_row) \<Rightarrow> db \<Rightarrow> db" where
  "set_run rid f d = d\<lparr>runs := update_where (\<lambda>r. run_id r = rid) f (runs d)\<rparr>"

definition set_turn :: "string \<Rightarrow> run_status \<Rightarrow> db \<Rightarrow> db" where
  "set_turn rid s d = d\<lparr>turns := update_where (\<lambda>t. tn_run t = rid) (\<lambda>t. t\<lparr>tn_status := s\<rparr>) (turns d)\<rparr>"

definition set_queue :: "string \<Rightarrow> run_status \<Rightarrow> db \<Rightarrow> db" where
  "set_queue rid s d =
     d\<lparr>queued_rows := update_where (\<lambda>q. q_run q = rid) (\<lambda>q. q\<lparr>q_status := s\<rparr>) (queued_rows d)\<rparr>"

definition set_delegation :: "string \<Rightarrow> (delegation_row \<Rightarrow> delegation_row) \<Rightarrow> db \<Rightarrow> db" where
  "set_delegation child f d =
     d\<lparr>delegations := update_where (\<lambda>g. dg_child_run g = child) f (delegations d)\<rparr>"

definition find_delegation :: "db \<Rightarrow> string \<Rightarrow> delegation_row option" where
  "find_delegation d child = find_key dg_child_run child (delegations d)"

section \<open>The event log\<close>

text \<open>
  \<open>insert_event\<close>: the next sequence number is read from the run, so it fails when there is
  no such run. That the pair (run, sequence number) is new, the table's primary key, is a
  consequence of the log's invariant.
\<close>

definition insert_event :: "int \<Rightarrow> string \<Rightarrow> string \<Rightarrow> json \<Rightarrow> db \<Rightarrow> store_error + nat \<times> db" where
  "insert_event now rid name data d =
     (case find_run d rid of
        None \<Rightarrow> Inl SqlError
      | Some r \<Rightarrow>
          let seq = run_last_seq r + 1;
              d = d\<lparr>events := events d @
                    [\<lparr>ev_run = rid, ev_seq = seq, ev_name = name, ev_data = data, ev_created = now\<rparr>]\<rparr>
          in Inr (seq, set_run rid (\<lambda>r. r\<lparr>run_last_seq := seq, run_updated := now\<rparr>) d))"

section \<open>Reading a run\<close>

record run_record =
  rec_run :: string
  rec_turn :: string
  rec_session :: string
  rec_request :: request_id
  rec_status :: run_status
  rec_last_seq :: nat
  rec_content :: "string option"
  rec_error_code :: "int option"
  rec_error_message :: "string option"

definition dec_int :: "int \<Rightarrow> string" where
  "dec_int i = (if i < 0 then CHR ''-'' # dec (nat (- i)) else dec (nat i))"

definition rowid_of_run :: "string \<Rightarrow> int option" where
  "rowid_of_run rid = (if starts_with rid ''run-'' then parse_i64 (drop 4 rid) else None)"

definition record_of_run :: "string \<Rightarrow> run_row \<Rightarrow> run_record" where
  "record_of_run turn r =
     \<lparr>rec_run = run_id r, rec_turn = turn, rec_session = run_session r, rec_request = run_request r,
      rec_status = run_status r, rec_last_seq = run_last_seq r, rec_content = run_content r,
      rec_error_code = run_error_code r, rec_error_message = run_error_message r\<rparr>"

definition read_run_in :: "db \<Rightarrow> string \<Rightarrow> store_error + run_record option" where
  "read_run_in d rid =
     (case find_run d rid of
        None \<Rightarrow> Inr None
      | Some r \<Rightarrow>
          (case rowid_of_run rid of
             None \<Rightarrow> Inl (ProtocolE BadRunId)
           | Some n \<Rightarrow> Inr (Some (record_of_run (''turn-'' @ dec_int n) r))))"

text \<open>\<open>read_run_in(..)?.ok_or(e)\<close>, and with \<open>e = Panic\<close> the \<open>expect\<close> of the code.\<close>

definition read_run_or :: "store_error \<Rightarrow> db \<Rightarrow> string \<Rightarrow> store_error + run_record" where
  "read_run_or e d rid = bindE (read_run_in d rid) (ok_or e)"

section \<open>Values as JSON\<close>

definition jstatus :: "run_status \<Rightarrow> json" where
  "jstatus s = JStr (status_as_str s)"

definition phase_json :: "timeout_phase \<Rightarrow> json" where
  "phase_json p = JStr (case p of
     Connect \<Rightarrow> ''connect'' | FirstEvent \<Rightarrow> ''first_event'' | StreamIdle \<Rightarrow> ''stream_idle''
   | Overall \<Rightarrow> ''overall'')"

definition kind_json :: "error_kind \<Rightarrow> json" where
  "kind_json k =
     (let tag = (\<lambda>t. JObj [(''kind'', JStr t)]) in
      case k of
        Auth \<Rightarrow> tag ''auth'' | AccessDenied \<Rightarrow> tag ''access_denied'' | RateLimit \<Rightarrow> tag ''rate_limit''
      | QuotaExceeded \<Rightarrow> tag ''quota_exceeded'' | InvalidRequest \<Rightarrow> tag ''invalid_request''
      | ContextOverflow \<Rightarrow> tag ''context_overflow'' | ContentPolicy \<Rightarrow> tag ''content_policy''
      | Timeout ph \<Rightarrow> JObj [(''kind'', JStr ''timeout''), (''phase'', phase_json ph)]
      | Transport \<Rightarrow> tag ''transport'' | Server \<Rightarrow> tag ''server'' | Protocol \<Rightarrow> tag ''protocol''
      | EmptyCompletion \<Rightarrow> tag ''empty_completion'' | ReasoningOnly \<Rightarrow> tag ''reasoning_only''
      | KOutputTruncated \<Rightarrow> tag ''output_truncated'' | Cancelled \<Rightarrow> tag ''cancelled'')"

definition ju64 :: "u64 \<Rightarrow> json" where
  "ju64 n = JInt (uint n)"

definition usage_json :: "provider_usage \<Rightarrow> json" where
  "usage_json u = JObj
     [(''input_tokens'', json_opt ju64 (input_tokens u)),
      (''output_tokens'', json_opt ju64 (output_tokens u)),
      (''cache_read_tokens'', json_opt ju64 (cache_read_tokens u)),
      (''cache_creation_tokens'', json_opt ju64 (cache_creation_tokens u))]"

definition attempt_status_json :: "attempt_status \<Rightarrow> json" where
  "attempt_status_json s = JStr (case s of
     Started \<Rightarrow> ''started'' | Succeeded \<Rightarrow> ''succeeded'' | Failed \<Rightarrow> ''failed'' | ACancelled \<Rightarrow> ''cancelled'')"

section \<open>A delegated child becomes terminal\<close>

definition run_terminal_json :: "run_record \<Rightarrow> json" where
  "run_terminal_json r = JObj
     [(''status'', jstatus (rec_status r)), (''content'', json_opt JStr (rec_content r)),
      (''error_code'', json_opt JInt (rec_error_code r)),
      (''error_message'', json_opt JStr (rec_error_message r))]"

definition mark_terminal_in :: "int \<Rightarrow> string \<Rightarrow> run_record \<Rightarrow> db \<Rightarrow> store_error + db" where
  "mark_terminal_in now child run d =
     (case find_delegation d child of
        None \<Rightarrow> Inr d
      | Some g \<Rightarrow>
          let d = set_delegation child (\<lambda>g. g\<lparr>dg_status := rec_status run, dg_finished := Some now,
                    dg_terminal := Some (run_terminal_json run)\<rparr>) d
          in bindE (read_run_in d (dg_parent_run g)) (\<lambda>p.
             case p of
               None \<Rightarrow> Inr d
             | Some parent \<Rightarrow>
                 if terminal (rec_status parent) then Inr d
                 else bindE (insert_event now (rec_run parent) ''delegation_terminal''
                        (JObj [(''child_run_id'', JStr child), (''status'', jstatus (rec_status run)),
                               (''summary'', JStr (take_chars 512
                                  (case rec_content run of None \<Rightarrow> [] | Some c \<Rightarrow> c)))]) d)
                      (\<lambda>(_, d). Inr d)))"

end
