(* ===== verification/Store_Ops.thy ===== *)
theory Store_Ops
  imports Store
begin

text \<open>
  The operations of \<open>RunStore\<close> in \<open>src/storage/mod.rs\<close>, one definition per method: admission
  and the queue, tool batches, events and interactions, terminal states and their manual
  repair, provider attempts, lookups and restart recovery. The SHA-256 of the evidence text
  is a parameter (\<open>sha\<close>).
\<close>

section \<open>Admission\<close>

datatype admission = New run_record | Existing run_record

datatype admission_mode = Queue | RejectIfBusy

text \<open>
  The rows of a new run, as \<open>admit_with_route\<close> and \<open>admit_delegation\<close> write them: the run
  (whose id is made of its rowid), its turn, its route, its first event and its place in the
  queue. \<open>UNIQUE(session_id, request_id_json)\<close> and the end of the rowid range can refuse it.
\<close>

definition run_key :: "nat \<Rightarrow> string" where
  "run_key n = ''run-'' @ dec n"

definition turn_key :: "nat \<Rightarrow> string" where
  "turn_key n = ''turn-'' @ dec n"

definition insert_run ::
  "int \<Rightarrow> string \<Rightarrow> request_id \<Rightarrow> string \<Rightarrow> route_snapshot option \<Rightarrow> nat \<Rightarrow> db \<Rightarrow> db" where
  "insert_run now sid rq input route n d =
     d\<lparr>runs := runs d @
         [\<lparr>run_rowid = n, run_id = run_key n, run_session = sid, run_request = rq, run_status = Queued,
           run_input = input, run_last_seq = 0, run_content = None, run_error_code = None,
           run_error_message = None, run_created = now, run_updated = now\<rparr>],
       turns := turns d @ [\<lparr>tn_id = turn_key n, tn_run = run_key n, tn_status = Queued\<rparr>],
       routes := routes d @ (case route of None \<Rightarrow> [] | Some s \<Rightarrow> [\<lparr>rr_run = run_key n, rr_snapshot = s\<rparr>])\<rparr>"

definition enqueue :: "string \<Rightarrow> string \<Rightarrow> string \<Rightarrow> db \<Rightarrow> db" where
  "enqueue sid rid input d =
     d\<lparr>queued_rows := queued_rows d @
         [\<lparr>q_id = next_rowid (map q_id (queued_rows d)), q_session = sid, q_run = rid,
           q_message = input, q_status = Queued\<rparr>]\<rparr>"

definition new_run ::
  "int \<Rightarrow> string \<Rightarrow> request_id \<Rightarrow> string \<Rightarrow> route_snapshot option \<Rightarrow> db \<Rightarrow> store_error + string \<times> db" where
  "new_run now sid rq input route d =
     (let n = next_rowid (map run_rowid (runs d)) in
      if list_ex (\<lambda>r. run_session r = sid \<and> run_request r = rq) (runs d) \<or> \<not> n < 2 ^ 63 then Inl SqlError
      else bindE (insert_event now (run_key n) ''user_message'' (JObj [(''content'', JStr input)])
                    (insert_run now sid rq input route n d))
             (\<lambda>(_, d). Inr (run_key n, enqueue sid (run_key n) input d)))"

definition touch_session :: "string \<Rightarrow> int \<Rightarrow> db \<Rightarrow> db" where
  "touch_session sid now d =
     (if sid \<in> ss_id ` set (sessions d) then d
      else d\<lparr>sessions := sessions d @ [\<lparr>ss_id = sid, ss_created = now\<rparr>]\<rparr>)"

definition find_request_row :: "db \<Rightarrow> string \<Rightarrow> request_id \<Rightarrow> run_row option" where
  "find_request_row d sid rq = find (\<lambda>r. run_session r = sid \<and> run_request r = rq) (runs d)"

definition admit_with_route ::
  "int \<Rightarrow> string \<Rightarrow> request_id \<Rightarrow> string \<Rightarrow> admission_mode \<Rightarrow> route_snapshot option \<Rightarrow> db \<Rightarrow>
   store_error + admission \<times> db" where
  "admit_with_route now sid rq input mode route d =
     (case find_request_row d sid rq of
        Some r \<Rightarrow>
          if run_input r \<noteq> input then Inl (ProtocolE InputDiffers)
          else bindE (read_run_or Panic d (run_id r)) (\<lambda>rec. Inr (Existing rec, d))
      | None \<Rightarrow>
          if mode = RejectIfBusy \<and>
             count_where (\<lambda>r. run_session r = sid \<and> \<not> terminal (run_status r)) (runs d) \<noteq> 0
          then Inl (ProtocolE SessionBusy)
          else bindE (new_run now sid rq input route (touch_session sid now d)) (\<lambda>(rid, d).
               bindE (read_run_or Panic d rid) (\<lambda>rec. Inr (New rec, d))))"

section \<open>The queue\<close>

definition head_of_queue :: "db \<Rightarrow> string \<Rightarrow> queued_row option" where
  "head_of_queue d sid = find (\<lambda>q. q_status q = Queued \<and> q_session q = sid) (queued_rows d)"

definition sat_i64 :: "int \<Rightarrow> int" where
  "sat_i64 i = max (- (2 ^ 63)) (min (2 ^ 63 - 1) i)"

definition start_run :: "int \<Rightarrow> string \<Rightarrow> run_row \<Rightarrow> db \<Rightarrow> store_error + db" where
  "start_run now rid r d =
     bindE (insert_event now rid ''run_started''
              (JObj [(''queue_wait_ms'', JInt (sat_i64 (now - run_created r)))])
              (set_run rid (\<lambda>r. r\<lparr>run_status := Running, run_updated := now\<rparr>) d))
       (\<lambda>(_, d). Inr (set_delegation rid (\<lambda>g. g\<lparr>dg_status := Running, dg_started := Some now\<rparr>)
                       (set_queue rid Running (set_turn rid Running d))))"

definition try_start_queued :: "int \<Rightarrow> string \<Rightarrow> db \<Rightarrow> store_error + bool \<times> db" where
  "try_start_queued now rid d =
     (case find_run d rid of
        None \<Rightarrow> Inr (False, d)
      | Some r \<Rightarrow>
          if map_option q_run (head_of_queue d (run_session r)) \<noteq> Some rid then Inr (False, d)
          else if count_where (\<lambda>x. run_session x = run_session r \<and> busy (run_status x)) (runs d) \<noteq> 0
            then Inr (False, d)
          else if run_status r \<noteq> Queued then Inr (False, d)
          else bindE (start_run now rid r d) (\<lambda>d. Inr (True, d)))"

record queued_view =
  qm_id :: nat
  qm_position :: nat
  qm_session :: string
  qm_run :: string
  qm_message :: string
  qm_status :: run_status

definition queued_messages :: "db \<Rightarrow> string \<Rightarrow> queued_view list" where
  "queued_messages d sid =
     map (\<lambda>(i, q). \<lparr>qm_id = q_id q, qm_position = i + 1, qm_session = sid, qm_run = q_run q,
                    qm_message = q_message q, qm_status = q_status q\<rparr>)
       (enumerate 0 (filter (\<lambda>q. q_session q = sid \<and> q_status q = Queued) (queued_rows d)))"

definition queued_message :: "db \<Rightarrow> string \<Rightarrow> string \<Rightarrow> queued_view option" where
  "queued_message d sid rid =
     map_option
       (\<lambda>q. \<lparr>qm_id = q_id q,
             qm_position = (if q_status q = Queued
               then count_where (\<lambda>x. q_session x = sid \<and> q_status x = Queued \<and> q_id x \<le> q_id q) (queued_rows d)
               else 0),
             qm_session = sid, qm_run = rid, qm_message = q_message q, qm_status = q_status q\<rparr>)
       (find (\<lambda>q. q_session q = sid \<and> q_run q = rid) (queued_rows d))"

text \<open>\<open>collect\<close> of an iterator of results: the first error wins.\<close>

fun collect_results :: "('a \<Rightarrow> 'e + 'b) \<Rightarrow> 'a list \<Rightarrow> 'e + 'b list" where
  "collect_results f [] = Inr []"
| "collect_results f (x # xs) =
     bindE (f x) (\<lambda>y. bindE (collect_results f xs) (\<lambda>ys. Inr (y # ys)))"

text \<open>\<open>ORDER BY created_at_ms, rowid\<close>: a stable sort of the rows, which are in rowid order.\<close>

definition recoverable_queued :: "db \<Rightarrow> store_error + run_record list" where
  "recoverable_queued d =
     collect_results (\<lambda>r. read_run_or (ProtocolE QueuedGone) d (run_id r))
       (sort_key run_created (filter (\<lambda>r. run_status r = Queued) (runs d)))"

definition session_exists :: "db \<Rightarrow> string \<Rightarrow> bool" where
  "session_exists d sid \<longleftrightarrow> sid \<in> ss_id ` set (sessions d)"

definition remove_queued :: "int \<Rightarrow> string \<Rightarrow> db \<Rightarrow> store_error + bool \<times> db" where
  "remove_queued now rid d =
     (case find_run d rid of
        None \<Rightarrow> Inr (False, d)
      | Some r \<Rightarrow>
          if run_status r \<noteq> Queued then Inr (False, d)
          else
            let d = set_run rid (\<lambda>r. r\<lparr>run_status := RCancelled, run_updated := now\<rparr>) d;
                d = set_turn rid RCancelled d;
                d = d\<lparr>queued_rows := update_where (\<lambda>q. q_run q = rid \<and> q_status q = Queued)
                        (\<lambda>q. q\<lparr>q_status := RCancelled\<rparr>) (queued_rows d)\<rparr>
            in bindE (insert_event now rid ''terminal'' (JObj [(''status'', jstatus RCancelled)]) d) (\<lambda>(_, d).
               bindE (read_run_or Panic d rid) (\<lambda>cancelled.
               bindE (mark_terminal_in now rid cancelled d) (\<lambda>d. Inr (True, d)))))"

section \<open>Tool batches\<close>

type_synonym tool_plan = "tool_call \<times> string \<times> string \<times> bool"

fun insert_tools :: "int \<Rightarrow> string \<Rightarrow> nat \<Rightarrow> tool_plan list \<Rightarrow> db \<Rightarrow> store_error + db" where
  "insert_tools now rid round [] d = Inr d"
| "insert_tools now rid round ((call, effect, digest, replay) # calls) d =
     (if list_ex (\<lambda>t. tl_run t = rid \<and> tl_round t = round \<and> tl_call t = tc_id call) (tools d)
      then Inl SqlError
      else insert_tools now rid round calls
        (d\<lparr>tools := tools d @
           [\<lparr>tl_id = next_rowid (map tl_id (tools d)), tl_run = rid, tl_round = round,
             tl_call = tc_id call, tl_name = tc_name call, tl_status = Prepared, tl_effect = effect,
             tl_digest = digest, tl_prepared = now, tl_started = None, tl_finished = None,
             tl_outcome = None, tl_artifact = None, tl_replay = replay, tl_receipt = None\<rparr>]\<rparr>))"

definition prepare_tool_batch ::
  "int \<Rightarrow> string \<Rightarrow> nat \<Rightarrow> tool_plan list \<Rightarrow> db \<Rightarrow> store_error + db" where
  "prepare_tool_batch now rid round calls d =
     bindE (ok_or SqlError (find_run d rid)) (\<lambda>r.
       if run_status r \<noteq> Running then Inl (ProtocolE RunNotRunning)
       else if (case find_delegation d rid of
                  None \<Rightarrow> False
                | Some g \<Rightarrow> int (count_where (\<lambda>t. tl_run t = rid) (tools d)) + int (length calls)
                              > dg_max_tool_calls g)
       then Inl (ProtocolE ToolBudget)
       else bindE (insert_tools now rid round calls d) (\<lambda>d.
            bindE (insert_event now rid ''tool_batch_prepared''
              (JObj [(''round'', JInt (int round)),
                     (''calls'', JArr (map (\<lambda>(c, _). JStr (tc_id c)) calls))]) d) (\<lambda>(_, d). Inr d)))"

definition tool_at :: "string \<Rightarrow> nat \<Rightarrow> string \<Rightarrow> tool_status \<Rightarrow> tool_row \<Rightarrow> bool" where
  "tool_at rid round call s t \<longleftrightarrow>
     tl_run t = rid \<and> tl_round t = round \<and> tl_call t = call \<and> tl_status t = s"

definition start_tool :: "int \<Rightarrow> string \<Rightarrow> nat \<Rightarrow> string \<Rightarrow> db \<Rightarrow> store_error + db" where
  "start_tool now rid round call d =
     (if count_where (tool_at rid round call Prepared) (tools d) \<noteq> 1
      then Inl (ProtocolE ToolNotPrepared)
      else Inr (d\<lparr>tools := update_where (tool_at rid round call Prepared)
             (\<lambda>t. t\<lparr>tl_status := ToolRunning, tl_started := Some now\<rparr>) (tools d)\<rparr>))"

definition finish_tool ::
  "int \<Rightarrow> string \<Rightarrow> nat \<Rightarrow> string \<Rightarrow> string \<Rightarrow> string option \<Rightarrow> json \<Rightarrow> db \<Rightarrow> store_error + db" where
  "finish_tool now rid round call outcome artifact receipt d =
     (if count_where (tool_at rid round call ToolRunning) (tools d) \<noteq> 1
      then Inl (ProtocolE ToolNotRunning)
      else Inr (d\<lparr>tools := update_where (tool_at rid round call ToolRunning)
             (\<lambda>t. t\<lparr>tl_status := ToolTerminal, tl_finished := Some now, tl_outcome := Some outcome,
                    tl_artifact := artifact, tl_receipt := Some receipt\<rparr>) (tools d)\<rparr>))"

definition finish_tool_batch :: "int \<Rightarrow> string \<Rightarrow> nat \<Rightarrow> db \<Rightarrow> store_error + db" where
  "finish_tool_batch now rid round d =
     (if count_where (\<lambda>t. tl_run t = rid \<and> tl_round t = round \<and> tl_status t \<noteq> ToolTerminal) (tools d) \<noteq> 0
      then Inl (ProtocolE BatchIncomplete)
      else bindE (insert_event now rid ''tool_batch_completed'' (JObj [(''round'', JInt (int round))]) d)
             (\<lambda>(_, d). Inr d))"

text \<open>\<open>ORDER BY round, id\<close>; a receipt is the row without its id and preparation time.\<close>

definition tool_receipts :: "db \<Rightarrow> string \<Rightarrow> tool_row list" where
  "tool_receipts d rid = sort_key tl_round (filter (\<lambda>t. tl_run t = rid) (tools d))"

section \<open>Events and interactions\<close>

definition json_index :: "string \<Rightarrow> json \<Rightarrow> json" where
  "json_index k v = (case json_get k v of None \<Rightarrow> JNull | Some x \<Rightarrow> x)"

definition approval_row :: "string \<Rightarrow> string \<Rightarrow> json \<Rightarrow> interaction_row" where
  "approval_row rid i approval =
     \<lparr>in_id = i, in_run = rid, in_kind = ''approval'', in_status = Pending, in_revision = 0,
      in_prompt = (case json_str (json_index ''prompt'' approval) of None \<Rightarrow> [] | Some p \<Rightarrow> p),
      in_payload = approval, in_response = None\<rparr>"

definition open_interaction :: "string \<Rightarrow> json \<Rightarrow> db \<Rightarrow> store_error + db" where
  "open_interaction rid approval d =
     bindE (ok_or (ProtocolE ApprovalIdMissing) (json_str (json_index ''id'' approval))) (\<lambda>i.
       if i \<in> in_id ` set (interactions d) then Inl SqlError
       else Inr (set_run rid (\<lambda>r. r\<lparr>run_status := WaitingInteraction\<rparr>)
         (d\<lparr>interactions := interactions d @ [approval_row rid i approval]\<rparr>)))"

definition append_event :: "int \<Rightarrow> string \<Rightarrow> string \<Rightarrow> json \<Rightarrow> db \<Rightarrow> store_error + nat \<times> db" where
  "append_event now rid name data d =
     bindE (insert_event now rid name data d) (\<lambda>(seq, d).
       case (if name = ''approval_required'' then json_get ''approval'' data else None) of
         None \<Rightarrow> Inr (seq, d)
       | Some approval \<Rightarrow> bindE (open_interaction rid approval d) (\<lambda>d. Inr (seq, d)))"

record interaction_record =
  ir_id :: string
  ir_session :: string
  ir_run :: string
  ir_kind :: string
  ir_status :: interaction_status
  ir_revision :: int
  ir_prompt :: string
  ir_payload :: json
  ir_response :: "json option"

definition read_interaction :: "db \<Rightarrow> string \<Rightarrow> interaction_record option" where
  "read_interaction d i =
     Option.bind (find_key in_id i (interactions d)) (\<lambda>x.
       map_option
         (\<lambda>r. \<lparr>ir_id = i, ir_session = run_session r, ir_run = in_run x, ir_kind = in_kind x,
               ir_status = in_status x, ir_revision = in_revision x, ir_prompt = in_prompt x,
               ir_payload = in_payload x, ir_response = in_response x\<rparr>)
         (find_run d (in_run x)))"

definition list_interactions :: "db \<Rightarrow> string \<Rightarrow> store_error + interaction_record list" where
  "list_interactions d sid =
     collect_results (\<lambda>i. ok_or (ProtocolE InteractionGone) (read_interaction d i))
       (map in_id (filter (\<lambda>x. map_option run_session (find_run d (in_run x)) = Some sid) (interactions d)))"

definition approved_json :: "bool \<Rightarrow> json" where
  "approved_json approved = JObj [(''approved'', JBool approved)]"

definition resolve_interaction :: "int \<Rightarrow> string \<Rightarrow> string \<Rightarrow> int \<Rightarrow> bool \<Rightarrow> db \<Rightarrow> store_error + db" where
  "resolve_interaction now i rid revision approved d =
     (let d = d\<lparr>interactions := update_where (\<lambda>x. in_id x = i \<and> in_status x = Pending)
            (\<lambda>x. x\<lparr>in_status := if approved then Answered else Rejected,
                   in_response := Some (approved_json approved), in_revision := in_revision x + 1\<rparr>)
            (interactions d)\<rparr>;
          d = (if count_where (\<lambda>x. in_run x = rid \<and> in_status x = Pending) (interactions d) = 0
               then d\<lparr>runs := update_where (\<lambda>r. run_id r = rid \<and> run_status r = WaitingInteraction)
                        (\<lambda>r. r\<lparr>run_status := Running\<rparr>) (runs d)\<rparr>
               else d)
      in bindE (insert_event now rid ''interaction_resolved''
           (JObj [(''interaction_id'', JStr i), (''approved'', JBool approved),
                  (''revision'', JInt (revision + 1))]) d) (\<lambda>(_, d). Inr d))"

definition claim_interaction ::
  "int \<Rightarrow> string \<Rightarrow> string \<Rightarrow> string \<Rightarrow> int \<Rightarrow> bool \<Rightarrow> db \<Rightarrow> store_error + interaction_record \<times> db" where
  "claim_interaction now i sid rid revision approved d =
     bindE (ok_or (ProtocolE InteractionMissing) (read_interaction d i)) (\<lambda>cur.
       if ir_session cur \<noteq> sid \<or> ir_run cur \<noteq> rid then Inl (ProtocolE InteractionOwner)
       else if ir_status cur \<noteq> Pending then
         (if (ir_status cur = Answered \<or> ir_status cur = Rejected) \<and>
             ir_response cur = Some (approved_json approved)
          then Inr (cur, d) else Inl (ProtocolE InteractionConflict))
       else if ir_revision cur \<noteq> revision then Inl (ProtocolE InteractionRevision)
       else bindE (ok_or SqlError (find_run d rid)) (\<lambda>r.
         if run_status r \<noteq> WaitingInteraction then Inl (ProtocolE RunNotWaiting)
         else bindE (resolve_interaction now i rid revision approved d) (\<lambda>d.
              bindE (ok_or Panic (read_interaction d i)) (\<lambda>res. Inr (res, d)))))"

section \<open>Terminal states\<close>

definition msg_unknown :: string where
  "msg_unknown = utf8 [24037, 20855, 25191, 34892, 32467, 26524, 26410, 30693, 65292, 31105, 27490,
     33258, 21160, 37325, 25918]"

definition msg_manual_failed :: string where
  "msg_manual_failed = utf8 [20154, 24037, 26680, 39564, 20026, 22833, 36133]"

definition msg_manual_cancelled :: string where
  "msg_manual_cancelled = utf8 [20154, 24037, 26680, 39564, 20026, 21462, 28040]"

text \<open>What \<open>finish\<close> really writes: status, content and error after the tools are counted.\<close>

definition incomplete_tools :: "db \<Rightarrow> string \<Rightarrow> nat" where
  "incomplete_tools d rid = count_where (\<lambda>t. tl_run t = rid \<and> tl_status t \<noteq> ToolTerminal) (tools d)"

definition started_side_effects :: "db \<Rightarrow> string \<Rightarrow> nat" where
  "started_side_effects d rid =
     count_where (\<lambda>t. tl_run t = rid \<and> tl_effect t \<noteq> ''read'' \<and>
                      (tl_status t = ToolRunning \<or> tl_status t = ToolTerminal)) (tools d)"

definition effective_status :: "db \<Rightarrow> string \<Rightarrow> run_status \<Rightarrow> run_status" where
  "effective_status d rid status =
     (if incomplete_tools d rid > 0 \<or> status = RCancelled \<and> started_side_effects d rid > 0
      then UnknownAfterRestart else status)"

definition last_attempt_kind :: "db \<Rightarrow> string \<Rightarrow> error_kind option" where
  "last_attempt_kind d rid =
     Option.bind (find (\<lambda>a. pa_run a = rid) (rev (attempts d))) (\<lambda>a. at_error_kind (pa_data a))"

text \<open>The rows every terminal transition writes together.\<close>

definition write_terminal ::
  "int \<Rightarrow> string \<Rightarrow> run_status \<Rightarrow> string option \<Rightarrow> (int \<times> string) option \<Rightarrow> db \<Rightarrow> db" where
  "write_terminal now rid status content err d =
     set_queue rid status (set_turn rid status
       (set_run rid (\<lambda>r. r\<lparr>run_status := status, run_content := content,
          run_error_code := map_option fst err, run_error_message := map_option snd err,
          run_updated := now\<rparr>) d))"

definition orphan_pending :: "string \<Rightarrow> db \<Rightarrow> db" where
  "orphan_pending rid d =
     d\<lparr>interactions := update_where (\<lambda>x. in_run x = rid \<and> in_status x = Pending)
         (\<lambda>x. x\<lparr>in_status := Orphaned, in_revision := in_revision x + 1\<rparr>) (interactions d)\<rparr>"

definition log_content :: "int \<Rightarrow> string \<Rightarrow> json option \<Rightarrow> db \<Rightarrow> store_error + db" where
  "log_content now rid data d =
     (case data of
        None \<Rightarrow> Inr d
      | Some j \<Rightarrow> bindE (insert_event now rid ''assistant_content'' j d) (\<lambda>(_, d). Inr d))"

definition finish_with ::
  "int \<Rightarrow> string \<Rightarrow> run_status \<Rightarrow> string option \<Rightarrow> (int \<times> string) option \<Rightarrow> db \<Rightarrow>
   store_error + run_record \<times> db" where
  "finish_with now rid status content err d =
     bindE (log_content now rid (map_option (\<lambda>c. JObj [(''content'', JStr c)]) content) d) (\<lambda>d.
     bindE (insert_event now rid ''terminal''
       (JObj [(''status'', jstatus status), (''error_code'', json_opt JInt (map_option fst err)),
              (''error_message'', json_opt JStr (map_option snd err)),
              (''provider_error_kind'',
                 json_opt kind_json (if status = RFailed then last_attempt_kind d rid else None))]) d) (\<lambda>(_, d).
     let d = orphan_pending rid (write_terminal now rid status content err d) in
     bindE (read_run_or Panic d rid) (\<lambda>result.
     bindE (mark_terminal_in now rid result d) (\<lambda>d. Inr (result, d)))))"

definition finish ::
  "int \<Rightarrow> string \<Rightarrow> run_status \<Rightarrow> string option \<Rightarrow> (int \<times> string) option \<Rightarrow> db \<Rightarrow>
   store_error + run_record \<times> db" where
  "finish now rid status content err d =
     (if \<not> terminal status then Inl (ProtocolE NotTerminal)
      else bindE (read_run_or (ProtocolE RunMissing) d rid) (\<lambda>cur.
        if terminal (rec_status cur) then
          (if rec_status cur = status \<and> rec_content cur = content \<and>
              rec_error_code cur = map_option fst err \<and> rec_error_message cur = map_option snd err
           then Inr (cur, d) else Inl (ProtocolE TerminalConflict))
        else
          let status = effective_status d rid status;
              content = (if status = Completed then content else None);
              err = (if status = UnknownAfterRestart then Some (- 32002, msg_unknown) else err)
          in finish_with now rid status content err d))"

definition manual_error :: "run_status \<Rightarrow> (int \<times> string) option" where
  "manual_error status =
     (if status = RFailed then Some (- 32003, msg_manual_failed)
      else if status = RCancelled then Some (- 32800, msg_manual_cancelled) else None)"

definition evidence_ok :: "run_status \<Rightarrow> string option \<Rightarrow> string \<Rightarrow> bool" where
  "evidence_ok status content evidence \<longleftrightarrow>
     (status = Completed \<or> status = RFailed \<or> status = RCancelled) \<and>
     16 \<le> char_count (trim evidence) \<and> length evidence \<le> 4096 \<and>
     (status = Completed \<longrightarrow> (\<exists>c. content = Some c \<and> c \<noteq> []))"

lemma evidence_ok_code [code]:
  "evidence_ok status content evidence \<longleftrightarrow>
     (status = Completed \<or> status = RFailed \<or> status = RCancelled) \<and>
     16 \<le> char_count (trim evidence) \<and> length evidence \<le> 4096 \<and>
     (status = Completed \<longrightarrow> (case content of None \<Rightarrow> False | Some c \<Rightarrow> c \<noteq> []))"
  by (auto simp: evidence_ok_def split: option.splits)

definition reconcile_with ::
  "(string \<Rightarrow> string) \<Rightarrow> int \<Rightarrow> string \<Rightarrow> nat \<Rightarrow> run_status \<Rightarrow> string option \<Rightarrow> string \<Rightarrow> db \<Rightarrow>
   store_error + run_record \<times> db" where
  "reconcile_with sha now rid expected status content evidence d =
     (let content = (if status = Completed then content else None) in
      bindE (log_content now rid
        (map_option (\<lambda>c. JObj [(''content'', JStr c), (''manual'', JBool True)]) content) d) (\<lambda>d.
      bindE (insert_event now rid ''manual_resolution''
        (JObj [(''from'', JStr ''unknown_after_restart''), (''status'', jstatus status),
               (''evidence_sha256'', JStr (sha evidence)), (''evidence_note'', JStr evidence),
               (''previous_last_seq'', JInt (int expected))]) d) (\<lambda>(_, d).
      let d = write_terminal now rid status content (manual_error status) d in
      bindE (read_run_or Panic d rid) (\<lambda>result.
      bindE (mark_terminal_in now rid result d) (\<lambda>d. Inr (result, d))))))"

definition reconcile_unknown ::
  "(string \<Rightarrow> string) \<Rightarrow> int \<Rightarrow> string \<Rightarrow> string \<Rightarrow> nat \<Rightarrow> run_status \<Rightarrow> string option \<Rightarrow> string \<Rightarrow> db \<Rightarrow>
   store_error + run_record \<times> db" where
  "reconcile_unknown sha now rid sid expected status content evidence d =
     (if \<not> evidence_ok status content evidence then Inl (ProtocolE BadEvidence)
      else bindE (read_run_or (ProtocolE RunMissing) d rid) (\<lambda>run.
        if rec_session run \<noteq> sid \<or> rec_status run \<noteq> UnknownAfterRestart \<or> rec_last_seq run \<noteq> expected
        then Inl (ProtocolE OwnerConflict)
        else if (case find_delegation d rid of None \<Rightarrow> False | Some g \<Rightarrow> dg_result_state g \<noteq> Unconsumed)
        then Inl (ProtocolE ResultTaken)
        else reconcile_with sha now rid expected status content evidence d))"

definition route_snapshot_of :: "db \<Rightarrow> string \<Rightarrow> route_snapshot option" where
  "route_snapshot_of d rid = map_option rr_snapshot (find_key rr_run rid (routes d))"

section \<open>Provider attempts\<close>

definition start_provider_attempt :: "int \<Rightarrow> provider_attempt \<Rightarrow> db \<Rightarrow> store_error + db" where
  "start_provider_attempt now a d =
     (if at_status a \<noteq> Started then Inl (ProtocolE AttemptNotStarted)
      else if attempt_id a \<in> pa_id ` set (attempts d) \<or> find_run d (at_run_id a) = None then Inl SqlError
      else bindE (insert_event now (at_run_id a) ''provider_attempt_started''
             (JObj [(''attempt_id'', JStr (attempt_id a)), (''round'', JInt (uint (at_round a))),
                    (''candidate_index'', JInt (uint (at_candidate_index a))),
                    (''profile_id'', JStr (at_profile_id a)), (''model'', JStr (at_model a))])
             (d\<lparr>attempts := attempts d @
                 [\<lparr>pa_id = attempt_id a, pa_run = at_run_id a, pa_status = Started, pa_data = a\<rparr>]\<rparr>))
           (\<lambda>(_, d). Inr d))"

definition finish_provider_attempt :: "int \<Rightarrow> provider_attempt \<Rightarrow> db \<Rightarrow> store_error + db" where
  "finish_provider_attempt now a d =
     (if at_status a = Started then Inl (ProtocolE AttemptNotTerminal)
      else bindE (ok_or SqlError (find_key pa_id (attempt_id a) (attempts d))) (\<lambda>row.
        let previous = pa_data row in
        if at_status previous \<noteq> Started then
          (if previous = a then Inr d else Inl (ProtocolE AttemptConflict))
        else if at_run_id previous \<noteq> at_run_id a \<or> at_round previous \<noteq> at_round a \<or>
                at_candidate_index previous \<noteq> at_candidate_index a then Inl (ProtocolE AttemptOwner)
        else bindE (insert_event now (at_run_id a) ''provider_attempt_terminal''
               (JObj [(''attempt_id'', JStr (attempt_id a)), (''status'', attempt_status_json (at_status a)),
                      (''error_kind'', json_opt kind_json (at_error_kind a)),
                      (''retry_after_ms'', json_opt ju64 (at_retry_after_ms a)),
                      (''stream_committed'', JBool (at_stream_committed a)),
                      (''first_event_at_ms'', json_opt JInt (at_first_event_at_ms a)),
                      (''finished_at_ms'', json_opt JInt (at_finished_at_ms a)),
                      (''usage'', json_opt usage_json (at_usage a))])
               (d\<lparr>attempts := update_where (\<lambda>r. pa_id r = attempt_id a \<and> pa_status r = Started)
                    (\<lambda>r. r\<lparr>pa_status := at_status a, pa_data := a\<rparr>) (attempts d)\<rparr>))
             (\<lambda>(_, d). Inr d)))"

definition provider_attempts :: "db \<Rightarrow> string \<Rightarrow> provider_attempt list" where
  "provider_attempts d rid = map pa_data (filter (\<lambda>a. pa_run a = rid) (attempts d))"

definition provider_usage_of :: "db \<Rightarrow> string \<Rightarrow> provider_usage" where
  "provider_usage_of d rid =
     foldl (\<lambda>total a. case at_usage a of None \<Rightarrow> total | Some u \<Rightarrow> add_attempt total u)
       empty_usage (provider_attempts d rid)"

section \<open>Lookups\<close>

definition find_request :: "db \<Rightarrow> string \<Rightarrow> request_id \<Rightarrow> store_error + run_record option" where
  "find_request d sid rq =
     (case find_request_row d sid rq of None \<Rightarrow> Inr None | Some r \<Rightarrow> read_run_in d (run_id r))"

definition find_request_unique :: "db \<Rightarrow> request_id \<Rightarrow> store_error + run_record option" where
  "find_request_unique d rq =
     (case filter (\<lambda>r. run_request r = rq) (runs d) of
        [] \<Rightarrow> Inr None
      | [r] \<Rightarrow> read_run_in d (run_id r)
      | _ \<Rightarrow> Inl (ProtocolE RequestAmbiguous))"

text \<open>\<open>ORDER BY seq LIMIT min(limit, 1000)\<close>\<close>

definition events_after :: "db \<Rightarrow> string \<Rightarrow> nat \<Rightarrow> nat \<Rightarrow> event_row list" where
  "events_after d rid after limit =
     take (min limit 1000)
       (sort_key ev_seq (filter (\<lambda>e. ev_run e = rid \<and> after < ev_seq e) (events d)))"

section \<open>Restart\<close>

definition recover_one :: "int \<Rightarrow> string \<Rightarrow> db \<Rightarrow> store_error + db" where
  "recover_one now rid d =
     bindE (insert_event now rid ''terminal'' (JObj [(''status'', jstatus UnknownAfterRestart)]) d) (\<lambda>(_, d).
     let d = set_run rid (\<lambda>r. r\<lparr>run_status := UnknownAfterRestart, run_updated := now\<rparr>) d;
         d = set_queue rid UnknownAfterRestart (set_turn rid UnknownAfterRestart d)
     in bindE (read_run_or Panic d rid) (\<lambda>unknown. mark_terminal_in now rid unknown d))"

fun recover_all :: "int \<Rightarrow> string list \<Rightarrow> db \<Rightarrow> store_error + db" where
  "recover_all now [] d = Inr d"
| "recover_all now (rid # rids) d = bindE (recover_one now rid d) (recover_all now rids)"

definition recover :: "int \<Rightarrow> db \<Rightarrow> store_error + nat \<times> db" where
  "recover now d =
     (let ids = map run_id (filter (\<lambda>r. busy (run_status r)) (runs d)) in
      bindE (recover_all now ids d) (\<lambda>d.
        Inr (length ids,
          d\<lparr>interactions := update_where
              (\<lambda>x. in_status x = Pending \<and>
                 list_ex (\<lambda>r. run_id r = in_run x \<and> run_status r = UnknownAfterRestart) (runs d))
              (\<lambda>x. x\<lparr>in_status := Orphaned\<rparr>) (interactions d)\<rparr>)))"

end
