(* ===== verification/Text_Words.thy ===== *)
theory Text_Words
  imports Rust_Text
begin

text \<open>
  Splitting text into words: \<open>split_whitespace\<close> of a text made of several pieces, of its
  lower-case form and of words joined again.
\<close>

fun join :: "string \<Rightarrow> string list \<Rightarrow> string" where
  "join sep [] = []"
| "join sep [w] = w"
| "join sep (w # v # ws) = w @ sep @ join sep (v # ws)"

lemma join_Cons: "join sep (w # ws) = (if ws = [] then w else w @ sep @ join sep ws)"
  by (cases ws) simp_all

lemma join_append:
  "join sep (xs @ ys) = (if xs = [] then join sep ys else if ys = [] then join sep xs else join sep xs @ sep @ join sep ys)"
  by (induction xs) (auto simp: join_Cons)

section \<open>White space at the seams\<close>

lemma space_ws [simp]: "ascii_ws CHR '' ''"
  by (simp add: ascii_ws_def byte_def)

lemma ws_len_space [simp]: "ws_len (CHR '' '' # s) = 1"
  by (cases s; cases "tl s") simp_all

lemma ws_len_seam:
  assumes "s \<noteq> []" "byte c < 0x80"
  shows "ws_len (s @ c # t) = ws_len s"
  using assms
  by (cases s rule: ws_len.cases; cases t) (auto simp: ws2_def ws3_def)

lemma ws_len_take: "ws_len (s @ t) = 0 \<Longrightarrow> ws_len s = 0"
  by (cases s rule: ws_len.cases; cases t rule: ws_len.cases) (auto split: if_splits)

lemma byte_space [simp]: "byte CHR '' '' = 32"
  by (simp add: byte_def)

section \<open>Splitting\<close>

lemma split_ws_Nil [simp]: "split_ws acc [] = (if acc = [] then [] else [rev acc])"
  by (subst split_ws.simps) simp

lemma split_ws_ws: "0 < ws_len s \<Longrightarrow> split_ws acc s = (if acc = [] then [] else [rev acc]) @ split_ws [] (drop (ws_len s) s)"
  by (subst split_ws.simps) (auto simp: split_ws.simps)

lemma split_ws_char: "s \<noteq> [] \<Longrightarrow> ws_len s = 0 \<Longrightarrow> split_ws acc s = split_ws (hd s # acc) (tl s)"
  by (subst split_ws.simps) simp

lemma split_ws_space: "split_ws acc (s @ CHR '' '' # t) = split_ws acc s @ split_ws [] t"
proof (induction acc s rule: split_ws.induct)
  case (1 acc s)
  consider "s = []" | "s \<noteq> []" "0 < ws_len s" | "s \<noteq> []" "ws_len s = 0" by blast
  then show ?case
  proof cases
    case 1
    then show ?thesis by (simp add: split_ws_ws)
  next
    case 2
    have w: "ws_len (s @ CHR '' '' # t) = ws_len s" using 2 by (intro ws_len_seam) simp_all
    have d: "drop (ws_len s) (s @ CHR '' '' # t) = drop (ws_len s) s @ CHR '' '' # t"
      using ws_len_le [of s] by simp
    show ?thesis
      using "1.IH"(1) [OF 2] 2 w d by (simp add: split_ws_ws)
  next
    case 3
    have w: "ws_len (s @ CHR '' '' # t) = ws_len s" using 3 by (intro ws_len_seam) simp_all
    show ?thesis
      using "1.IH"(2) 3 w by (simp add: split_ws_char)
  qed
qed

lemma split_whitespace_space:
  "split_whitespace (s @ CHR '' '' # t) = split_whitespace s @ split_whitespace t"
  by (simp add: split_whitespace_def split_ws_space)

text \<open>A word: no white space begins anywhere in it.\<close>

definition word_text :: "string \<Rightarrow> bool" where
  "word_text w \<longleftrightarrow> w \<noteq> [] \<and> (\<forall>i < length w. ws_len (drop i w) = 0)"

lemma split_ws_word: "\<forall>i < length w. ws_len (drop i w) = 0 \<Longrightarrow> rev acc @ w \<noteq> [] \<Longrightarrow> split_ws acc w = [rev acc @ w]"
proof (induction w arbitrary: acc)
  case Nil
  then show ?case by simp
next
  case (Cons c w)
  have "ws_len (c # w) = 0" using Cons.prems(1) by (metis drop0 length_greater_0_conv list.distinct(1))
  then have "split_ws acc (c # w) = split_ws (c # acc) w" by (simp add: split_ws_char)
  moreover have "\<forall>i < length w. ws_len (drop i w) = 0"
    using Cons.prems(1) by (metis Suc_less_eq drop_Suc_Cons length_Cons)
  ultimately show ?case using Cons.IH [of "c # acc"] by simp
qed

lemma split_word [simp]: "word_text w \<Longrightarrow> split_whitespace w = [w]"
  using split_ws_word [of w "[]"] by (simp add: split_whitespace_def word_text_def)

lemma split_ws_words:
  "\<forall>i < length acc. ws_len (drop i (rev acc @ s)) = 0 \<Longrightarrow> w \<in> set (split_ws acc s) \<Longrightarrow> word_text w"
proof (induction acc s rule: split_ws.induct)
  case (1 acc s)
  have acc: "word_text (rev acc)" if "acc \<noteq> []"
    unfolding word_text_def
  proof (intro conjI allI impI)
    fix i assume "i < length (rev acc)"
    then have "ws_len (drop i (rev acc) @ s) = 0" using "1.prems"(1) by simp
    then show "ws_len (drop i (rev acc)) = 0" by (rule ws_len_take)
  qed (use that in simp)
  consider "s = []" | "s \<noteq> []" "0 < ws_len s" | "s \<noteq> []" "ws_len s = 0" by blast
  then show ?case
  proof cases
    case 1
    then show ?thesis using "1.prems"(2) acc by (auto split: if_splits)
  next
    case 2
    then show ?thesis using "1.prems"(2) acc "1.IH"(1) [OF 2] by (auto simp: split_ws_ws split: if_splits)
  next
    case 3
    then obtain c t where s: "s = c # t" by (cases s) auto
    have "\<forall>i < length (c # acc). ws_len (drop i (rev (c # acc) @ t)) = 0"
      using "1.prems"(1) 3 by (auto simp: s less_Suc_eq)
    then show ?thesis using "1.prems"(2) "1.IH"(2) 3 by (simp add: split_ws_char s)
  qed
qed

lemma split_whitespace_words: "w \<in> set (split_whitespace s) \<Longrightarrow> word_text w"
  using split_ws_words [of "[]" s w] by (simp add: split_whitespace_def)

lemma split_join: "\<forall>w \<in> set ws. word_text w \<Longrightarrow> split_whitespace (join '' '' ws) = ws"
proof (induction ws)
  case Nil
  then show ?case by (simp add: split_whitespace_def)
next
  case (Cons w ws)
  then show ?case by (auto simp: join_Cons split_whitespace_space)
qed

lemma split_join_split: "split_whitespace (join '' '' (split_whitespace s)) = split_whitespace s"
  by (rule split_join) (auto dest: split_whitespace_words)

section \<open>Lower case\<close>

lemma byte_lower: "byte (ascii_lower c) = (if 65 \<le> byte c \<and> byte c \<le> 90 then byte c + 32 else byte c)"
  by (simp add: ascii_lower_def byte_char_of)

lemma lower_ws [simp]:
  "ascii_ws (ascii_lower c) = ascii_ws c" "ws2 (ascii_lower a) (ascii_lower b) = ws2 a b"
  "ws3 (ascii_lower a) (ascii_lower b) (ascii_lower c) = ws3 a b c"
  by (auto simp: ascii_ws_def ws2_def ws3_def byte_lower split: if_splits)

lemma ws_len_lower [simp]: "ws_len (map ascii_lower s) = ws_len s"
  by (cases s rule: ws_len.cases) simp_all

lemma split_ws_lower: "split_ws (map ascii_lower acc) (map ascii_lower s) = map (map ascii_lower) (split_ws acc s)"
proof (induction acc s rule: split_ws.induct)
  case (1 acc s)
  consider "s = []" | "s \<noteq> []" "0 < ws_len s" | "s \<noteq> []" "ws_len s = 0" by blast
  then show ?case
  proof cases
    case 1
    then show ?thesis by (simp add: rev_map)
  next
    case 2
    then show ?thesis using "1.IH"(1) [OF 2] by (simp add: split_ws_ws drop_map rev_map)
  next
    case 3
    then obtain c t where s: "s = c # t" by (cases s) auto
    have "ws_len (ascii_lower c # map ascii_lower t) = 0" using ws_len_lower [of s] 3 s by simp
    then show ?thesis using "1.IH"(2) 3 s by (simp add: split_ws_char)
  qed
qed

lemma split_whitespace_lower:
  "split_whitespace (to_ascii_lowercase s) = map to_ascii_lowercase (split_whitespace s)"
  using split_ws_lower [of "[]" s] by (simp add: split_whitespace_def to_ascii_lowercase_def [abs_def])

lemma lower_join: "to_ascii_lowercase (join '' '' ws) = join '' '' (map to_ascii_lowercase ws)"
  by (induction ws) (auto simp: join_Cons to_ascii_lowercase_def ascii_lower_def byte_def)

end
