(* ===== verification/Anthropic.thy ===== *)
theory Anthropic
  imports Openai Store_Ops Text_Words
begin

text \<open>
  The Anthropic adapter (\<open>src/provider/anthropic.rs\<close>): the request a conversation becomes
  (\<open>request_messages\<close>, which merges neighbours of one role, and the content blocks) and the
  provider events of a response stream. \<open>dec64\<close> decodes base64, \<open>lossy\<close> is \<open>from_utf8_lossy\<close>
  and \<open>parse\<close> is \<open>serde_json::from_str\<close>.
\<close>

section \<open>Requests\<close>

fun split_once :: "string \<Rightarrow> string \<Rightarrow> (string \<times> string) option" where
  "split_once pat [] = (if pat = [] then Some ([], []) else None)"
| "split_once pat (c # s) =
     (if prefix pat (c # s) then Some ([], drop (length pat) (c # s))
      else map_option (\<lambda>(a, b). (c # a, b)) (split_once pat s))"

definition parse_data_url :: "string \<Rightarrow> (string \<times> string) option" where
  "parse_data_url v = (if prefix ''data:'' v then split_once '';base64,'' (drop 5 v) else None)"

definition position_wire_id :: "(string \<Rightarrow> string option) \<Rightarrow> string \<Rightarrow> string" where
  "position_wire_id dec64 v =
     (case identity_decode dec64 v of
        Some i \<Rightarrow> (case source i of Position p \<Rightarrow> ''toolu_pos_'' @ dec p | WireId w \<Rightarrow> w)
      | None \<Rightarrow> v)"

text \<open>\<open>outbound_wire_id(id).unwrap_or_else(|| position_wire_id(id))\<close>\<close>

definition anthropic_id :: "(string \<Rightarrow> string option) \<Rightarrow> string \<Rightarrow> string" where
  "anthropic_id dec64 v = (case outbound_wire_id dec64 v of Some w \<Rightarrow> w | None \<Rightarrow> position_wire_id dec64 v)"

definition text_block :: "string \<Rightarrow> json" where
  "text_block s = JObj [(''type'', JStr ''text''), (''text'', JStr s)]"

definition text_blocks :: "message \<Rightarrow> json list" where
  "text_blocks m = (case msg_content m of None \<Rightarrow> [] | Some s \<Rightarrow> [text_block s])"

definition image_block :: "string \<Rightarrow> json" where
  "image_block url =
     JObj [(''type'', JStr ''image''),
           (''source'', case parse_data_url url of
              Some (media, content) \<Rightarrow>
                JObj [(''type'', JStr ''base64''), (''media_type'', JStr media), (''data'', JStr content)]
            | None \<Rightarrow> JObj [(''type'', JStr ''url''), (''url'', JStr url)])]"

definition user_blocks :: "message \<Rightarrow> json list" where
  "user_blocks m = text_blocks m @ map image_block (msg_images m)"

definition tool_use_block :: "(string \<Rightarrow> string option) \<Rightarrow> tool_call \<Rightarrow> json" where
  "tool_use_block dec64 c =
     JObj [(''type'', JStr ''tool_use''), (''id'', JStr (anthropic_id dec64 (tc_id c))),
           (''name'', JStr (tc_name c)), (''input'', tc_arguments c)]"

definition assistant_blocks :: "(string \<Rightarrow> string option) \<Rightarrow> message \<Rightarrow> json list" where
  "assistant_blocks dec64 m = text_blocks m @ map (tool_use_block dec64) (msg_calls m)"

definition tool_result_blocks :: "(string \<Rightarrow> string option) \<Rightarrow> message \<Rightarrow> json list" where
  "tool_result_blocks dec64 m =
     [JObj [(''type'', JStr ''tool_result''),
            (''tool_use_id'', JStr (case Option.bind (msg_call_id m) (outbound_wire_id dec64) of
               Some w \<Rightarrow> w
             | None \<Rightarrow> position_wire_id dec64 (case msg_call_id m of Some i \<Rightarrow> i | None \<Rightarrow> ''tool''))),
            (''content'', JStr (case msg_content m of Some s \<Rightarrow> s | None \<Rightarrow> []))]]"

definition role_blocks :: "(string \<Rightarrow> string option) \<Rightarrow> message \<Rightarrow> string \<times> json list" where
  "role_blocks dec64 m =
     (case msg_role m of
        RUser \<Rightarrow> (''user'', user_blocks m)
      | RAssistant \<Rightarrow> (''assistant'', assistant_blocks dec64 m)
      | RTool \<Rightarrow> (''user'', tool_result_blocks dec64 m)
      | RSystem \<Rightarrow> ([], []))"

text \<open>Blocks join the last message when it has their role.\<close>

definition add_blocks :: "string \<Rightarrow> json list \<Rightarrow> (string \<times> json list) list \<Rightarrow> (string \<times> json list) list" where
  "add_blocks role blocks out =
     (if out \<noteq> [] \<and> fst (last out) = role then butlast out @ [(role, snd (last out) @ blocks)]
      else out @ [(role, blocks)])"

fun anthropic_step ::
  "(string \<Rightarrow> string option) \<Rightarrow> string list \<times> (string \<times> json list) list \<Rightarrow> message \<Rightarrow>
   string list \<times> (string \<times> json list) list" where
  "anthropic_step dec64 (system, out) m =
     (if msg_role m = RSystem
      then ((case msg_content m of Some s \<Rightarrow> system @ [s] | None \<Rightarrow> system), out)
      else (system, case role_blocks dec64 m of (r, bs) \<Rightarrow> add_blocks r bs out))"

definition anthropic_messages :: "(string \<Rightarrow> string option) \<Rightarrow> message list \<Rightarrow> string \<times> (string \<times> json list) list" where
  "anthropic_messages dec64 ms =
     (case foldl (anthropic_step dec64) ([], []) ms of (system, out) \<Rightarrow> (join [CHR 0x0A, CHR 0x0A] system, out))"

definition anthropic_payload :: "(string \<Rightarrow> string option) \<Rightarrow> string \<Rightarrow> message list \<Rightarrow> tool_spec list \<Rightarrow> json" where
  "anthropic_payload dec64 model ms specs' =
     (case anthropic_messages dec64 ms of (system, out) \<Rightarrow>
        JObj ([(''model'', JStr model), (''max_tokens'', JInt 8192),
               (''messages'', JArr (map (\<lambda>(r, bs). JObj [(''role'', JStr r), (''content'', JArr bs)]) out)),
               (''stream'', JBool True)] @
          (if system = [] then [] else [(''system'', JStr system)]) @
          (if specs' = [] then []
           else [(''tools'', JArr (map (\<lambda>t. JObj [(''name'', JStr (sp_name t)), (''description'', JStr (sp_description t)),
                                            (''input_schema'', sp_parameters t)]) specs'))])))"

section \<open>The stream\<close>

record anthropic_state =
  an_tools :: "(nat \<times> execution_identity) list"
  an_done :: bool
  an_events :: "provider_event list"

definition anthropic_start :: anthropic_state where
  "anthropic_start = \<lparr>an_tools = [], an_done = False, an_events = []\<rparr>"

definition an_send :: "provider_event list \<Rightarrow> anthropic_state \<Rightarrow> anthropic_state" where
  "an_send evs s = s\<lparr>an_events := an_events s @ evs\<rparr>"

definition json_u64 :: "json \<Rightarrow> nat option" where
  "json_u64 v = (case v of JInt n \<Rightarrow> if 0 \<le> n \<and> n < 2 ^ 64 then Some (nat n) else None | _ \<Rightarrow> None)"

definition str_at :: "string \<Rightarrow> json \<Rightarrow> string option" where
  "str_at k v = Option.bind (json_get k v) json_str"

definition u64_at :: "string \<Rightarrow> json \<Rightarrow> u64 option" where
  "u64_at k v = map_option of_nat (json_u64 (json_index k v))"

definition emit_usage :: "json option \<Rightarrow> provider_event list" where
  "emit_usage u =
     (case u of None \<Rightarrow> []
      | Some v \<Rightarrow> [Usage \<lparr>input_tokens = u64_at ''input_tokens'' v, output_tokens = u64_at ''output_tokens'' v,
                        cache_read_tokens = u64_at ''cache_read_input_tokens'' v,
                        cache_creation_tokens = u64_at ''cache_creation_input_tokens'' v\<rparr>])"

definition block_index :: "json \<Rightarrow> nat" where
  "block_index v = (case Option.bind (json_get ''index'' v) json_u64 of Some n \<Rightarrow> n | None \<Rightarrow> 0)"

definition msg_no_id :: string where
  "msg_no_id = utf8 [65, 110, 116, 104, 114, 111, 112, 105, 99, 32, 116, 111, 111, 108, 95, 117, 115, 101, 32,
     32570, 23569, 32, 105, 100]"

definition msg_no_name :: string where
  "msg_no_name = utf8 [65, 110, 116, 104, 114, 111, 112, 105, 99, 32, 116, 111, 111, 108, 95, 117, 115, 101, 32,
     32570, 23569, 32, 110, 97, 109, 101]"

definition msg_restarted_block :: "nat \<Rightarrow> string" where
  "msg_restarted_block n = ''Anthropic content block '' @ dec n @ utf8 [32, 34987, 37325, 22797, 24320, 22987]"

definition msg_lost_piece :: "nat \<Rightarrow> string" where
  "msg_lost_piece n = ''Anthropic content block '' @ dec n @
     utf8 [32, 30340, 32, 74, 83, 79, 78, 32, 20998, 29255, 27809, 26377, 32, 116, 111, 111, 108, 95, 117, 115, 101]"

definition msg_open_block :: string where
  "msg_open_block = ''Anthropic '' @ utf8 [27969, 32467, 26463, 26102, 20173, 26377, 26410, 23436, 25104, 30340] @
     '' tool_use content block''"

definition nonempty_delta :: "(string \<Rightarrow> provider_event) \<Rightarrow> string option \<Rightarrow> provider_event list" where
  "nonempty_delta mk t = (case t of Some (c # s) \<Rightarrow> [mk (c # s)] | _ \<Rightarrow> [])"

definition start_content_block :: "json \<Rightarrow> anthropic_state \<Rightarrow> anthropic_state" where
  "start_content_block v s =
     (let index = block_index v; block = json_index ''content_block'' v; kind' = str_at ''type'' block in
      if kind' = Some ''text'' then an_send (nonempty_delta TextDelta (str_at ''text'' block)) s
      else if kind' = Some ''thinking'' then an_send (nonempty_delta ThinkingDelta (str_at ''thinking'' block)) s
      else if kind' = Some ''tool_use'' then
        (case str_at ''id'' block of
           None \<Rightarrow> an_send [failed_event ''missing_id'' msg_no_id] s
         | Some i \<Rightarrow>
             (case str_at ''name'' block of
                None \<Rightarrow> an_send [failed_event ''missing_name'' msg_no_name] s
              | Some n \<Rightarrow>
                  let s' = s\<lparr>an_tools := put index (wire AnthropicMessages i) (an_tools s)\<rparr> in
                  if map_of (an_tools s) index \<noteq> None
                  then an_send [failed_event ''identity_conflict'' (msg_restarted_block index)] s'
                  else an_send [ToolCallStarted (wire AnthropicMessages i) n] s'))
      else s)"

definition consume_content_delta :: "json \<Rightarrow> anthropic_state \<Rightarrow> anthropic_state" where
  "consume_content_delta v s =
     (let d = json_index ''delta'' v; kind' = str_at ''type'' d in
      if kind' = Some ''text_delta'' then an_send (case str_at ''text'' d of Some t \<Rightarrow> [TextDelta t] | None \<Rightarrow> []) s
      else if kind' = Some ''thinking_delta'' then an_send (nonempty_delta ThinkingDelta (str_at ''thinking'' d)) s
      else if kind' = Some ''input_json_delta'' then
        (case map_of (an_tools s) (block_index v) of
           None \<Rightarrow> an_send [failed_event ''anonymous_delta'' (msg_lost_piece (block_index v))] s
         | Some i \<Rightarrow> an_send [ToolCallDelta i (Append (case str_at ''partial_json'' d of Some t \<Rightarrow> t | None \<Rightarrow> []))] s)
      else s)"

definition stop_content_block :: "json \<Rightarrow> anthropic_state \<Rightarrow> anthropic_state" where
  "stop_content_block v s =
     (case map_of (an_tools s) (block_index v) of
        None \<Rightarrow> s
      | Some i \<Rightarrow> an_send [ToolCallCompleted i]
                   (s\<lparr>an_tools := filter (\<lambda>kv. fst kv \<noteq> block_index v) (an_tools s)\<rparr>))"

definition consume_anthropic_value :: "json \<Rightarrow> anthropic_state \<Rightarrow> provider_error option \<times> anthropic_state" where
  "consume_anthropic_value v s =
     (let kind' = (case str_at ''type'' v of Some t \<Rightarrow> t | None \<Rightarrow> []) in
      if kind' = ''message_start'' then
        (None, an_send (emit_usage (Option.bind (json_get ''message'' v) (json_get ''usage''))) s)
      else if kind' = ''content_block_start'' then (None, start_content_block v s)
      else if kind' = ''content_block_delta'' then (None, consume_content_delta v s)
      else if kind' = ''content_block_stop'' then (None, stop_content_block v s)
      else if kind' = ''message_delta'' then
        (None, an_send (emit_usage (json_get ''usage'' v) @
           (if Option.bind (json_get ''delta'' v) (str_at ''stop_reason'') = Some ''max_tokens'' then [OutputTruncated] else [])) s)
      else if kind' = ''error'' then (Some (plain_error Server), s)
      else if kind' = ''message_stop'' then (None, an_send [ProtocolDone] (s\<lparr>an_done := True\<rparr>))
      else (None, s))"

definition consume_anthropic_line ::
  "(string \<Rightarrow> string) \<Rightarrow> (string \<Rightarrow> json option) \<Rightarrow> (anthropic_state, provider_error) consumer" where
  "consume_anthropic_line lossy parse s l =
     (case map_option trim_start (strip_data (lossy l)) of
        None \<Rightarrow> (None, s)
      | Some d \<Rightarrow>
          if d = [] \<or> d = ''[DONE]'' then (None, s)
          else case parse d of None \<Rightarrow> (Some (plain_error Protocol), s) | Some v \<Rightarrow> consume_anthropic_value v s)"

definition parse_anthropic ::
  "(string \<Rightarrow> string) \<Rightarrow> (string \<Rightarrow> json option) \<Rightarrow> (provider_error + string) list \<Rightarrow>
   provider_error option \<times> anthropic_state" where
  "parse_anthropic lossy parse chunks =
     (case read_stream (consume_anthropic_line lossy parse) [] anthropic_start chunks of
        (Some e, s) \<Rightarrow> (Some e, s)
      | (None, s) \<Rightarrow>
          let s = (if an_tools s \<noteq> [] then an_send [failed_event ''incomplete_call'' msg_open_block] s else s) in
          (if \<not> an_done s then Some (plain_error Protocol) else None, s))"

section \<open>What the request says\<close>

definition tagged :: "string \<times> json list \<Rightarrow> (string \<times> json) list" where
  "tagged rb = map (Pair (fst rb)) (snd rb)"

lemma add_blocks_tagged: "concat (map tagged (add_blocks r bs out)) = concat (map tagged out) @ tagged (r, bs)"
proof (cases out rule: rev_cases)
  case (snoc xs x)
  then show ?thesis by (cases x) (auto simp: add_blocks_def tagged_def)
qed (simp add: add_blocks_def)

lemma add_blocks_roles: "distinct_adj (map fst out) \<Longrightarrow> distinct_adj (map fst (add_blocks r bs out))"
proof (cases out rule: rev_cases)
  case (snoc xs x)
  assume "distinct_adj (map fst out)"
  with snoc show ?thesis by (auto simp: add_blocks_def distinct_adj_append_iff)
qed (simp add: add_blocks_def)

definition system_texts :: "message list \<Rightarrow> string list" where
  "system_texts ms = List.map_filter msg_content (filter (\<lambda>m. msg_role m = RSystem) ms)"

definition spoken :: "message list \<Rightarrow> message list" where
  "spoken ms = filter (\<lambda>m. msg_role m \<noteq> RSystem) ms"

lemma anthropic_fold:
  assumes "distinct_adj (map fst out)"
  shows "case foldl (anthropic_step dec64) (system, out) ms of (system', out') \<Rightarrow>
    system' = system @ system_texts ms \<and> distinct_adj (map fst out') \<and>
    concat (map tagged out') = concat (map tagged out) @ concat (map (\<lambda>m. tagged (role_blocks dec64 m)) (spoken ms))"
  using assms
proof (induction ms arbitrary: system out)
  case Nil
  then show ?case by (simp add: system_texts_def spoken_def map_filter_simps)
next
  case (Cons m ms)
  show ?case
  proof (cases "msg_role m = RSystem")
    case True
    with Cons.IH [OF Cons.prems, of "case msg_content m of Some s \<Rightarrow> system @ [s] | None \<Rightarrow> system"] show ?thesis
      by (auto simp: system_texts_def spoken_def map_filter_simps split: option.splits prod.splits)
  next
    case False
    obtain r bs where rb: "role_blocks dec64 m = (r, bs)" by fastforce
    from Cons.IH [OF add_blocks_roles [OF Cons.prems, of r bs], of system] False rb show ?thesis
      by (auto simp: system_texts_def spoken_def add_blocks_tagged split: prod.splits)
  qed
qed

text \<open>
  What Anthropic is asked: the system texts, joined by blank lines, apart from the
  conversation; in the conversation no two neighbours have the same role, and its blocks are
  exactly those of the messages that are not system messages, in their order, each under the
  role of its own message (a tool result counts as the user's).
\<close>

theorem anthropic_conversation:
  "fst (anthropic_messages dec64 ms) = join [CHR 0x0A, CHR 0x0A] (system_texts ms) \<and>
   distinct_adj (map fst (snd (anthropic_messages dec64 ms))) \<and>
   concat (map tagged (snd (anthropic_messages dec64 ms))) = concat (map (\<lambda>m. tagged (role_blocks dec64 m)) (spoken ms))"
  using anthropic_fold [of "[]" "[]" ms dec64] by (auto simp: anthropic_messages_def split: prod.splits)

text \<open>
  A call that was counted by position, as Ollama's are, reaches Anthropic under its internal
  identity, colons included: the branch that would call it \<open>toolu_pos_N\<close> is never taken.
\<close>

theorem position_id_sent_raw:
  "anthropic_id dec64 (identity_encode enc (position d p)) = identity_encode enc (position d p) \<and>
   CHR '':'' \<in> set (anthropic_id dec64 (identity_encode enc (position d p)))"
proof -
  have "splitn 4 CHR '':'' (identity_encode enc (position d p)) = [''tc1'', api_as_str d, ''pos'', dec p]"
    using splitn_identity [of "''pos''" d "dec p"] by (simp add: identity_encode_def position_def)
  then have "identity_decode dec64 (identity_encode enc (position d p)) = map_option (position d) (parse_u64 (dec p))"
    by (simp add: identity_decode_def api_from_str_as_str)
  then show ?thesis
    by (simp add: anthropic_id_def outbound_wire_id_def wire_id_def identity_encode_def position_def split: option.split)
qed

section \<open>The calls of a stream\<close>

definition an_ok :: "anthropic_state \<Rightarrow> bool" where
  "an_ok s \<longleftrightarrow> distinct (map fst (an_tools s)) \<and>
     (good_calls (an_events s) \<longrightarrow> (\<exists>D. opens (an_events s) (held Some (an_tools s)) D))"

lemma an_neutral: "an_ok s \<Longrightarrow> list_all neutral b \<Longrightarrow> an_ok (an_send b s)"
  using good_prefix [of "an_events s" b] by (auto simp: an_ok_def an_send_def intro: opens_neutral)

lemma an_failed: "distinct (map fst (an_tools s)) \<Longrightarrow> an_ok (an_send [failed_event c m] s)"
  by (simp add: an_ok_def an_send_def good_calls_def failed_event_def)

lemma start_content_block_ok:
  assumes "an_ok s"
  shows "an_ok (start_content_block v s)"
proof -
  let ?k = "block_index v" and ?ts = "an_tools s"
  have dk: "distinct (map fst ?ts)" using assms by (simp add: an_ok_def)
  have texts: "list_all neutral (nonempty_delta TextDelta t) \<and> list_all neutral (nonempty_delta ThinkingDelta t)" for t
    by (simp add: nonempty_delta_def split: option.split list.split)
  have fresh: "an_ok (an_send [ToolCallStarted i n] (s\<lparr>an_tools := put ?k i ?ts\<rparr>))" if "map_of ?ts ?k = None" for i n
  proof -
    have "held Some ?ts = held Some (filter (\<lambda>kv. fst kv \<noteq> ?k) ?ts)" using held_split [OF dk, of Some ?k] that by simp
    then have "held Some (put ?k i ?ts) = add_mset i (held Some ?ts)" by (simp add: held_put)
    then show ?thesis using assms good_prefix [of "an_events s"] distinct_put [OF dk]
      by (fastforce simp: an_ok_def an_send_def intro: opens_start)
  qed
  have again: "an_ok (an_send [failed_event c m] (s\<lparr>an_tools := put ?k i ?ts\<rparr>))" for c m i
    by (rule an_failed) (simp add: distinct_put dk)
  show ?thesis
    unfolding start_content_block_def Let_def
    by (auto split: option.split simp: texts intro!: an_neutral [OF assms] an_failed [OF dk] again fresh assms)
qed

lemma consume_content_delta_ok:
  assumes "an_ok s"
  shows "an_ok (consume_content_delta v s)"
proof -
  have piece: "an_ok (an_send [ToolCallDelta i (Append a)] s)" if "map_of (an_tools s) k = Some i" for k i a
  proof -
    have "i \<in># held Some (an_tools s)" using assms held_split [of "an_tools s" Some k] that by (simp add: an_ok_def)
    then show ?thesis using assms good_prefix [of "an_events s"] by (auto simp: an_ok_def an_send_def intro: opens_delta)
  qed
  show ?thesis
    unfolding consume_content_delta_def Let_def using assms
    by (auto split: option.split list.split simp: nonempty_delta_def an_ok_def [THEN iffD1, THEN conjunct1]
        intro!: an_neutral an_failed piece)
qed

lemma stop_content_block_ok:
  assumes "an_ok s"
  shows "an_ok (stop_content_block v s)"
proof (cases "map_of (an_tools s) (block_index v)")
  case None
  with assms show ?thesis by (simp add: stop_content_block_def)
next
  case (Some i)
  let ?rest = "filter (\<lambda>kv. fst kv \<noteq> block_index v) (an_tools s)"
  have dk: "distinct (map fst (an_tools s))" using assms by (simp add: an_ok_def)
  have "held Some (an_tools s) = add_mset i (held Some ?rest)" using held_split [OF dk, of Some "block_index v"] Some by simp
  moreover have "distinct (map fst ?rest)" using dk by (simp add: distinct_map_filter)
  ultimately show ?thesis using assms Some good_prefix [of "an_events s"]
    by (fastforce simp: stop_content_block_def an_ok_def an_send_def intro: opens_done)
qed

lemma consume_anthropic_value_ok: "an_ok s \<Longrightarrow> an_ok (snd (consume_anthropic_value v s))"
proof -
  assume s: "an_ok s"
  then have d: "an_ok (s\<lparr>an_done := b\<rparr>)" for b by (simp add: an_ok_def)
  have u: "list_all neutral (emit_usage u)" for u by (simp add: emit_usage_def split: option.split)
  show "an_ok (snd (consume_anthropic_value v s))"
    unfolding consume_anthropic_value_def Let_def
    by (auto simp: u intro!: s an_neutral d start_content_block_ok consume_content_delta_ok stop_content_block_ok)
qed

interpretation an: line_consumer "consume_anthropic_line lossy parse" an_ok for lossy parse
  by unfold_locales (simp add: consume_anthropic_line_def consume_anthropic_value_ok split: option.split)

text \<open>
  A stream that ends with \<open>message_stop\<close>, in which the adapter reported no failure, no call
  started twice and every call has a name, is one the assembler accepts, with every started
  call completed: a content block left open at the end is a failure.
\<close>

theorem anthropic_stream_calls:
  assumes "parse_anthropic lossy parse chunks = (None, s)" and "good_calls (an_events s)"
  shows "whole_calls (an_events s) \<and> an_tools s = [] \<and> an_done s"
proof -
  obtain e s0 where r: "read_stream (consume_anthropic_line lossy parse) [] anthropic_start chunks = (e, s0)" by fastforce
  with assms(1) have e: "e = None" by (auto simp: parse_anthropic_def split: option.splits)
  have "an_ok anthropic_start" by (auto simp: an_ok_def anthropic_start_def intro: opens_Nil)
  from an.read_stream_keeps [OF this, of lossy parse "[]" chunks] r have s0: "an_ok s0" by simp
  have tools: "an_tools s0 = []"
  proof (rule ccontr)
    assume "an_tools s0 \<noteq> []"
    with assms r e show False
      by (auto simp: parse_anthropic_def an_send_def good_calls_def failed_event_def split: if_splits)
  qed
  with assms(1) r e have s: "s = s0" "an_done s" by (auto simp: parse_anthropic_def split: if_splits)
  with s0 tools assms(2) obtain D where "opens (an_events s) {#} D" by (auto simp: an_ok_def)
  with opens_whole assms(2) tools s show ?thesis by blast
qed

text \<open>A call opened, fed and closed.\<close>

definition sample_value :: "string \<Rightarrow> json option" where
  "sample_value d =
     (if d = ''S'' then Some (JObj [(''type'', JStr ''content_block_start''), (''index'', JInt 1),
        (''content_block'', JObj [(''type'', JStr ''tool_use''), (''id'', JStr ''t1''), (''name'', JStr ''ls'')])])
      else if d = ''P'' then Some (JObj [(''type'', JStr ''content_block_delta''), (''index'', JInt 1),
        (''delta'', JObj [(''type'', JStr ''input_json_delta''), (''partial_json'', JStr ''{}'')])])
      else if d = ''E'' then Some (JObj [(''type'', JStr ''content_block_stop''), (''index'', JInt 1)])
      else Some (JObj [(''type'', JStr ''message_stop'')]))"

definition sample_stream :: "provider_error option \<times> anthropic_state" where
  "sample_stream = parse_anthropic id sample_value
     [Inr (''data: S'' @ [line_feed] @ ''data:P''), Inr ([line_feed] @ ''data:E'' @ [line_feed] @ ''data: M'')]"

lemma anthropic_stream_calls_witness:
  "whole_calls (an_events (snd sample_stream)) \<and> an_tools (snd sample_stream) = [] \<and> an_done (snd sample_stream)"
proof (rule anthropic_stream_calls)
  show "parse_anthropic id sample_value
      [Inr (''data: S'' @ [line_feed] @ ''data:P''), Inr ([line_feed] @ ''data:E'' @ [line_feed] @ ''data: M'')] =
      (None, snd sample_stream)"
    by code_simp
  show "good_calls (an_events (snd sample_stream))" by code_simp
qed

end
