(* ===== verification/Ollama.thy ===== *)
theory Ollama
  imports Anthropic
begin

text \<open>
  The Ollama adapter (\<open>src/provider/ollama.rs\<close>): newline-separated JSON whose tool calls have
  no ids, so that each is named by its position in the stream. \<open>text_of_json\<close> prints JSON and
  \<open>parse\<close> is \<open>serde_json::from_slice\<close> on a line.
\<close>

section \<open>Requests\<close>

definition ollama_call :: "tool_call \<Rightarrow> json" where
  "ollama_call c = JObj [(''function'', JObj [(''name'', JStr (tc_name c)), (''arguments'', tc_arguments c)])]"

definition ollama_message :: "message \<Rightarrow> json" where
  "ollama_message m =
     JObj ([(''role'', JStr (role_name (msg_role m))),
            (''content'', JStr (case msg_content m of Some s \<Rightarrow> s | None \<Rightarrow> []))] @
       (if msg_calls m = [] then [] else [(''tool_calls'', JArr (map ollama_call (msg_calls m)))]))"

definition ollama_payload :: "bool \<Rightarrow> string \<Rightarrow> message list \<Rightarrow> tool_spec list \<Rightarrow> json" where
  "ollama_payload tools_enabled model ms specs' =
     JObj ([(''model'', JStr model), (''messages'', JArr (map ollama_message ms)), (''stream'', JBool True)] @
       (if tools_enabled \<and> specs' \<noteq> []
        then [(''tools'', JArr (map (\<lambda>t. JObj [(''type'', JStr ''function''),
                 (''function'', JObj [(''name'', JStr (sp_name t)), (''description'', JStr (sp_description t)),
                                      (''parameters'', sp_parameters t)])]) specs'))]
        else []))"

section \<open>The stream\<close>

record ollama_function =
  of_name :: string
  of_arguments :: json

record ollama_reply =
  om_content :: string
  om_thinking :: "string option"
  om_reasoning :: "string option"
  om_calls :: "ollama_function list"

record ollama_chunk =
  ok_message :: "ollama_reply option"
  ok_done :: bool
  ok_reason :: "string option"
  ok_prompt :: "u64 option"
  ok_eval :: "u64 option"
  ok_error :: "string option"

record ollama_state =
  ol_position :: nat
  ol_done :: bool
  ol_events :: "provider_event list"

definition ollama_start :: ollama_state where
  "ollama_start = \<lparr>ol_position = 0, ol_done = False, ol_events = []\<rparr>"

definition ol_send :: "provider_event list \<Rightarrow> ollama_state \<Rightarrow> ollama_state" where
  "ol_send evs s = s\<lparr>ol_events := ol_events s @ evs\<rparr>"

text \<open>A call arrives whole; \<open>saturating_add\<close> keeps the position below \<open>2 ^ 64\<close>.\<close>

definition ollama_tool :: "(json \<Rightarrow> string) \<Rightarrow> ollama_function \<Rightarrow> ollama_state \<Rightarrow> ollama_state" where
  "ollama_tool text_of_json c s =
     (let i = position Ollama (ol_position s) in
      ol_send [ToolCallStarted i (of_name c), ToolCallDelta i (AuthoritativeSnapshot (text_of_json (of_arguments c))),
               ToolCallCompleted i]
        (s\<lparr>ol_position := min (ol_position s + 1) (2 ^ 64 - 1)\<rparr>))"

definition ollama_reply_events :: "(json \<Rightarrow> string) \<Rightarrow> ollama_reply \<Rightarrow> ollama_state \<Rightarrow> ollama_state" where
  "ollama_reply_events text_of_json m s =
     (let s = ol_send (nonempty_delta ThinkingDelta (case om_thinking m of Some t \<Rightarrow> Some t | None \<Rightarrow> om_reasoning m)) s;
          s = ol_send (nonempty_delta TextDelta (Some (om_content m))) s
      in foldl (\<lambda>s c. ollama_tool text_of_json c s) s (om_calls m))"

definition ollama_end :: "ollama_chunk \<Rightarrow> provider_event list" where
  "ollama_end k =
     (if ok_reason k = Some ''length'' then [OutputTruncated] else []) @
     [Usage \<lparr>input_tokens = ok_prompt k, output_tokens = ok_eval k, cache_read_tokens = None, cache_creation_tokens = None\<rparr>,
      ProtocolDone]"

definition consume_ollama_line ::
  "(json \<Rightarrow> string) \<Rightarrow> (string \<Rightarrow> ollama_chunk option) \<Rightarrow> (ollama_state, provider_error) consumer" where
  "consume_ollama_line text_of_json parse s l =
     (if list_all is_ascii_ws l then (None, s)
      else case parse l of
        None \<Rightarrow> (Some (plain_error Protocol), s)
      | Some k \<Rightarrow>
          if ok_error k \<noteq> None then (Some (plain_error Server), s)
          else
            let s = (case ok_message k of None \<Rightarrow> s | Some m \<Rightarrow> ollama_reply_events text_of_json m s)
            in (None, if ok_done k then ol_send (ollama_end k) (s\<lparr>ol_done := True\<rparr>) else s))"

definition parse_ollama ::
  "(json \<Rightarrow> string) \<Rightarrow> (string \<Rightarrow> ollama_chunk option) \<Rightarrow> (provider_error + string) list \<Rightarrow>
   provider_error option \<times> ollama_state" where
  "parse_ollama text_of_json parse chunks =
     (case read_stream (consume_ollama_line text_of_json parse) [] ollama_start chunks of
        (Some e, s) \<Rightarrow> (Some e, s)
      | (None, s) \<Rightarrow> (if \<not> ol_done s then Some (plain_error Protocol) else None, s))"

section \<open>The calls of a stream\<close>

definition named_calls :: "provider_event list \<Rightarrow> bool" where
  "named_calls evs \<longleftrightarrow> list_all (\<lambda>ev. case ev of ToolCallStarted i n \<Rightarrow> \<not> is_blank n | _ \<Rightarrow> True) evs"

definition ol_ok :: "ollama_state \<Rightarrow> bool" where
  "ol_ok s \<longleftrightarrow> (ol_position s < 2 ^ 64 - 1 \<longrightarrow>
     started_ids (ol_events s) = map (position Ollama) [0..<ol_position s] \<and>
     list_all (\<lambda>ev. \<not> is_failure ev) (ol_events s) \<and>
     (named_calls (ol_events s) \<longrightarrow>
        phases_are (ol_events s) {} (position Ollama ` {0..<ol_position s})))"

lemma no_failure_neutral: "list_all neutral b \<Longrightarrow> list_all (\<lambda>ev. \<not> is_failure ev) b \<Longrightarrow> ol_ok s \<Longrightarrow> ol_ok (ol_send b s)"
  by (auto simp: ol_ok_def ol_send_def named_calls_def neutral_all phases_are_def)

lemma position_fresh: "position Ollama p \<notin> position Ollama ` {0..<p}"
  by (auto simp: position_def)

lemma ollama_tool_ok:
  assumes "ol_ok s"
  shows "ol_ok (ollama_tool text_of_json c s)"
proof (cases "ol_position s + 1 < 2 ^ 64 - 1")
  case False
  then show ?thesis by (simp add: ollama_tool_def ol_send_def ol_ok_def Let_def)
next
  case True
  let ?i = "position Ollama (ol_position s)" and ?evs = "ol_events s" and ?D = "position Ollama ` {0..<ol_position s}"
  have ok: "started_ids ?evs = map (position Ollama) [0..<ol_position s]" "list_all (\<lambda>ev. \<not> is_failure ev) ?evs"
    "named_calls ?evs \<Longrightarrow> phases_are ?evs {} ?D"
    using assms True by (auto simp: ol_ok_def)
  have D: "position Ollama ` {0..<Suc (ol_position s)} = insert ?i ?D" by (auto simp: atLeast0_lessThan_Suc)
  have "phases_are (?evs @ [ToolCallStarted ?i n, ToolCallDelta ?i (AuthoritativeSnapshot a), ToolCallCompleted ?i]) {} (insert ?i ?D)"
    if "named_calls ?evs" "\<not> is_blank n" for n a
    using ok(3) [OF that(1)] that(2) position_fresh [of "ol_position s"]
    by (auto simp: phases_are_def call_phase_append)
  with ok True D show ?thesis
    by (auto simp: ollama_tool_def ol_send_def ol_ok_def Let_def named_calls_def)
qed

lemma consume_ollama_line_ok: "ol_ok s \<Longrightarrow> ol_ok (snd (consume_ollama_line text_of_json parse s l))"
proof -
  assume s: "ol_ok s"
  have fold: "ol_ok s \<Longrightarrow> ol_ok (foldl (\<lambda>s c. ollama_tool text_of_json c s) s cs)" for s cs
    by (induction cs arbitrary: s) (auto intro: ollama_tool_ok)
  have texts: "list_all neutral (nonempty_delta ThinkingDelta t)" "list_all neutral (nonempty_delta TextDelta t)"
    "list_all (\<lambda>ev. \<not> is_failure ev) (nonempty_delta ThinkingDelta t)"
    "list_all (\<lambda>ev. \<not> is_failure ev) (nonempty_delta TextDelta t)" for t
    by (simp_all add: nonempty_delta_def split: option.split list.split)
  have reply: "ol_ok (ollama_reply_events text_of_json m s)" for m
    unfolding ollama_reply_events_def Let_def by (intro fold no_failure_neutral texts s)
  have fin: "ol_ok s \<Longrightarrow> ol_ok (ol_send (ollama_end k) (s\<lparr>ol_done := True\<rparr>))" for k s
    by (rule no_failure_neutral) (simp_all add: ollama_end_def ol_ok_def)
  show "ol_ok (snd (consume_ollama_line text_of_json parse s l))"
    using s reply by (auto simp: consume_ollama_line_def Let_def intro!: fin split: option.split)
qed

interpretation ol: line_consumer "consume_ollama_line text_of_json parse" ol_ok for text_of_json parse
  by unfold_locales (rule consume_ollama_line_ok)

text \<open>
  Calls without ids get the positions 0, 1, 2 and so on over the whole stream, whichever
  chunks they come in, no matter how often the server repeats one; each is started, given its
  arguments and completed at once, so the assembler accepts every such stream (of fewer than
  \<open>2 ^ 64 - 1\<close> calls, all with names).
\<close>

theorem ollama_stream_calls:
  assumes "ol_position (snd (parse_ollama text_of_json parse chunks)) < 2 ^ 64 - 1"
    and "named_calls (ol_events (snd (parse_ollama text_of_json parse chunks)))"
  shows "whole_calls (ol_events (snd (parse_ollama text_of_json parse chunks))) \<and>
    started_ids (ol_events (snd (parse_ollama text_of_json parse chunks))) =
      map (position Ollama) [0..<ol_position (snd (parse_ollama text_of_json parse chunks))]"
proof -
  let ?s = "snd (parse_ollama text_of_json parse chunks)"
  have s: "?s = snd (read_stream (consume_ollama_line text_of_json parse) [] ollama_start chunks)"
    by (simp add: parse_ollama_def split: prod.split option.split)
  have "ol_ok ollama_start" by (simp add: ol_ok_def ollama_start_def phases_are_def call_phase_def)
  from ol.read_stream_keeps [OF this, of text_of_json parse "[]" chunks] have "ol_ok ?s" unfolding s .
  with assms have ok: "started_ids (ol_events ?s) = map (position Ollama) [0..<ol_position ?s]"
    "list_all (\<lambda>ev. \<not> is_failure ev) (ol_events ?s)" "phases_are (ol_events ?s) {} (position Ollama ` {0..<ol_position ?s})"
    by (auto simp: ol_ok_def)
  then show ?thesis by (auto simp: whole_calls_def well_formed_stream_def phases_are_def list_all_iff)
qed

definition sample_ollama :: "provider_error option \<times> ollama_state" where
  "sample_ollama = parse_ollama (\<lambda>v. ''{}'')
     (\<lambda>l. Some \<lparr>ok_message = Some \<lparr>om_content = l, om_thinking = None, om_reasoning = None,
        om_calls = [\<lparr>of_name = ''ls'', of_arguments = JNull\<rparr>]\<rparr>, ok_done = l = ''b'', ok_reason = None,
        ok_prompt = None, ok_eval = None, ok_error = None\<rparr>)
     [Inr (''a'' @ [line_feed]), Inr ''b'']"

lemma named_ls: "\<not> is_blank ''ls''"
  by code_simp

lemma sample_ollama_state: "ol_position (snd sample_ollama) = 2 \<and> named_calls (ol_events (snd sample_ollama))"
  by (simp add: sample_ollama_def parse_ollama_def feed.simps line_feed_def carriage_def strip_eol_def consume_ollama_line_def
      is_ascii_ws_def ollama_start_def ollama_reply_events_def ollama_tool_def ol_send_def nonempty_delta_def ollama_end_def
      Let_def position_def named_calls_def named_ls)

lemma ollama_stream_calls_witness:
  "whole_calls (ol_events (snd sample_ollama)) \<and>
   started_ids (ol_events (snd sample_ollama)) = map (position Ollama) [0..<ol_position (snd sample_ollama)]"
  using sample_ollama_state unfolding sample_ollama_def
  by (intro ollama_stream_calls) simp_all

end
