(* ===== verification/Plan.thy ===== *)
theory Plan
  imports Messages
begin

text \<open>
  The task plan of \<open>src/plan.rs\<close>: validation, the operations of \<open>PlanStore\<close> (each runs under
  the mutation lock), the plan tool's actions and the rendered plan. Serialisation is the pair
  \<open>ser\<close>, \<open>de\<close> of \<open>serde_json\<close>; the outcome of the file operations of one commit is an input
  \<open>disk_outcome\<close>: the data is written to a temporary file and renamed, so only a commit whose
  every step succeeds changes the plan file.
\<close>

section \<open>Data\<close>

datatype plan_status = PlanPending | InProgress | PlanDone

record plan_step =
  ps_id :: string
  ps_description :: string
  ps_status :: plan_status

definition plan_status_str :: "plan_status \<Rightarrow> string" where
  "plan_status_str s =
     (case s of PlanPending \<Rightarrow> ''pending'' | InProgress \<Rightarrow> ''in_progress'' | PlanDone \<Rightarrow> ''done'')"

datatype plan_error =
    EmptyId
  | EmptyDescription string
  | DuplicateId string
  | MissingStep string
  | CorruptPlan
  | DiskError
  | BadAction

datatype disk_outcome = DiskOk | CreateDirFails | WriteTempFails | RenameFails

text \<open>\<open>file\<close> is the content of the plan file, \<open>None\<close> when there is none.\<close>

record plan_store =
  plan_path :: "string option"
  plan_steps :: "plan_step list"
  plan_file :: "string option"

section \<open>Validation and rendering\<close>

fun validate_from :: "string list \<Rightarrow> plan_step list \<Rightarrow> plan_error + unit" where
  "validate_from seen [] = Inr ()"
| "validate_from seen (s # ss) =
     (if is_blank (ps_id s) then Inl EmptyId
      else if is_blank (ps_description s) then Inl (EmptyDescription (ps_id s))
      else if ps_id s \<in> set seen then Inl (DuplicateId (ps_id s))
      else validate_from (ps_id s # seen) ss)"

definition validate_steps :: "plan_step list \<Rightarrow> plan_error + unit" where
  "validate_steps ss = validate_from [] ss"

definition msg_plan_empty :: string where
  "msg_plan_empty = utf8 [24403, 21069, 35745, 21010, 20026, 31354]"

definition msg_plan_progress :: string where
  "msg_plan_progress = utf8 [35745, 21010, 36827, 24230, 65306]"

definition plan_marker :: "plan_status \<Rightarrow> string" where
  "plan_marker s = (case s of PlanPending \<Rightarrow> ''[ ]'' | InProgress \<Rightarrow> ''[>]'' | PlanDone \<Rightarrow> ''[x]'')"

definition render_step :: "plan_step \<Rightarrow> string" where
  "render_step s = plan_marker (ps_status s) @ '' '' @ ps_id s @ utf8 [32, 183, 32] @
     ps_description s @ '' ('' @ plan_status_str (ps_status s) @ '')'' @ [CHR 0x0A]"

definition render_plan :: "plan_step list \<Rightarrow> string" where
  "render_plan ss =
     (if ss = [] then msg_plan_empty
      else trim_end (msg_plan_progress @ dec (length (filter (\<lambda>s. ps_status s = PlanDone) ss)) @ ''/'' @
        dec (length ss) @ [CHR 0x0A] @ concat (map render_step ss)))"

section \<open>The store\<close>

definition memory_only :: plan_store where
  "memory_only = \<lparr>plan_path = None, plan_steps = [], plan_file = None\<rparr>"

definition load_state :: "(string \<Rightarrow> plan_step list option) \<Rightarrow> string option \<Rightarrow> plan_error + plan_step list" where
  "load_state de content =
     (case content of
        None \<Rightarrow> Inr []
      | Some bytes \<Rightarrow> (case de bytes of None \<Rightarrow> Inl CorruptPlan | Some ss \<Rightarrow> Inr ss))"

definition new_plan_store ::
  "(string \<Rightarrow> plan_step list option) \<Rightarrow> string option \<Rightarrow> string option \<Rightarrow> plan_error + plan_store" where
  "new_plan_store de path content =
     bindE (case path of Some p \<Rightarrow> load_state de content | None \<Rightarrow> Inr []) (\<lambda>ss.
     bindE (validate_steps ss) (\<lambda>_.
     Inr \<lparr>plan_path = path, plan_steps = ss, plan_file = content\<rparr>))"

text \<open>\<open>PlanStore::from_env\<close>: where the plan lives, from \<open>PLAN_PATH\<close> and the workspace.\<close>

definition plan_path_from_env :: "string option \<Rightarrow> string \<Rightarrow> string option" where
  "plan_path_from_env configured workspace =
     (case configured of
        Some v \<Rightarrow>
          if v = [] \<or> v = ''off'' then None
          else Some (if starts_with v ''/'' then v else workspace @ ''/'' @ v)
      | None \<Rightarrow> Some (workspace @ ''/.my-agent/plan.json''))"

definition persist_state ::
  "(plan_step list \<Rightarrow> string) \<Rightarrow> disk_outcome \<Rightarrow> plan_step list \<Rightarrow> plan_store \<Rightarrow> plan_error + plan_store" where
  "persist_state ser disk ss st =
     (if plan_path st = None then Inr st
      else if disk = DiskOk then Inr (st\<lparr>plan_file := Some (ser ss)\<rparr>)
      else Inl DiskError)"

definition plan_commit ::
  "(plan_step list \<Rightarrow> string) \<Rightarrow> disk_outcome \<Rightarrow> plan_step list \<Rightarrow> plan_store \<Rightarrow>
   (plan_error + string) \<times> plan_store" where
  "plan_commit ser disk next st =
     (case persist_state ser disk next st of
        Inl e \<Rightarrow> (Inl e, st)
      | Inr st' \<Rightarrow> (Inr (render_plan next), st'\<lparr>plan_steps := next\<rparr>))"

definition plan_set ::
  "(plan_step list \<Rightarrow> string) \<Rightarrow> disk_outcome \<Rightarrow> plan_step list \<Rightarrow> plan_store \<Rightarrow>
   (plan_error + string) \<times> plan_store" where
  "plan_set ser disk ss st =
     (case validate_steps ss of
        Inl e \<Rightarrow> (Inl e, st)
      | Inr _ \<Rightarrow> plan_commit ser disk ss st)"

fun set_status :: "string \<Rightarrow> plan_status \<Rightarrow> plan_step list \<Rightarrow> plan_step list option" where
  "set_status i status [] = None"
| "set_status i status (s # ss) =
     (if ps_id s = i then Some (s\<lparr>ps_status := status\<rparr> # ss)
      else map_option ((#) s) (set_status i status ss))"

definition plan_update ::
  "(plan_step list \<Rightarrow> string) \<Rightarrow> disk_outcome \<Rightarrow> string \<Rightarrow> plan_status \<Rightarrow> plan_store \<Rightarrow>
   (plan_error + string) \<times> plan_store" where
  "plan_update ser disk i status st =
     (case set_status i status (plan_steps st) of
        None \<Rightarrow> (Inl (MissingStep i), st)
      | Some next \<Rightarrow> plan_commit ser disk next st)"

definition plan_add ::
  "(plan_step list \<Rightarrow> string) \<Rightarrow> disk_outcome \<Rightarrow> plan_step \<Rightarrow> plan_store \<Rightarrow>
   (plan_error + string) \<times> plan_store" where
  "plan_add ser disk s st =
     (let next = plan_steps st @ [s] in
      case validate_steps next of
        Inl e \<Rightarrow> (Inl e, st)
      | Inr _ \<Rightarrow> plan_commit ser disk next st)"

definition plan_show :: "plan_store \<Rightarrow> string" where
  "plan_show st = render_plan (plan_steps st)"

definition msg_current_plan :: string where
  "msg_current_plan = utf8 [24403, 21069, 20219, 21153, 35745, 21010, 65306]"

definition plan_context_block :: "plan_store \<Rightarrow> string option" where
  "plan_context_block st =
     (if plan_steps st \<noteq> [] then Some (msg_current_plan @ [CHR 0x0A] @ render_plan (plan_steps st)) else None)"

section \<open>The tool's actions\<close>

datatype plan_action = PSet "plan_step list" | PUpdate string plan_status | PAdd plan_step | PShow

definition parse_plan_status :: "json \<Rightarrow> plan_status option" where
  "parse_plan_status v =
     (if v = JStr ''pending'' then Some PlanPending
      else if v = JStr ''in_progress'' then Some InProgress
      else if v = JStr ''done'' then Some PlanDone
      else None)"

text \<open>\<open>#[serde(default)] status\<close>: a missing key is \<open>Pending\<close>, any other value must parse.\<close>

definition status_or_default :: "json \<Rightarrow> plan_status option" where
  "status_or_default v =
     (case json_get ''status'' v of None \<Rightarrow> Some PlanPending | Some s \<Rightarrow> parse_plan_status s)"

definition str_field :: "string \<Rightarrow> json \<Rightarrow> string option" where
  "str_field k v = Option.bind (json_get k v) json_str"

definition parse_plan_step :: "json \<Rightarrow> plan_step option" where
  "parse_plan_step v =
     Option.bind (str_field ''id'' v) (\<lambda>i.
     Option.bind (str_field ''description'' v) (\<lambda>d.
     Option.bind (status_or_default v) (\<lambda>s.
     Some \<lparr>ps_id = i, ps_description = d, ps_status = s\<rparr>)))"

definition parse_plan_action :: "json \<Rightarrow> plan_action option" where
  "parse_plan_action v =
     Option.bind (str_field ''action'' v) (\<lambda>a.
       if a = ''set'' then
         (case json_get ''steps'' v of
            Some (JArr xs) \<Rightarrow> map_option PSet (those (map parse_plan_step xs))
          | _ \<Rightarrow> None)
       else if a = ''update'' then
         Option.bind (str_field ''id'' v) (\<lambda>i.
         Option.bind (Option.bind (json_get ''status'' v) parse_plan_status) (\<lambda>s. Some (PUpdate i s)))
       else if a = ''add'' then map_option PAdd (parse_plan_step v)
       else if a = ''show'' then Some PShow
       else None)"

definition plan_tool_execute ::
  "(plan_step list \<Rightarrow> string) \<Rightarrow> disk_outcome \<Rightarrow> json \<Rightarrow> plan_store \<Rightarrow>
   (plan_error + string) \<times> plan_store" where
  "plan_tool_execute ser disk args st =
     (case parse_plan_action args of
        None \<Rightarrow> (Inl BadAction, st)
      | Some (PSet ss) \<Rightarrow> plan_set ser disk ss st
      | Some (PUpdate i s) \<Rightarrow> plan_update ser disk i s st
      | Some (PAdd s) \<Rightarrow> plan_add ser disk s st
      | Some PShow \<Rightarrow> (Inr (plan_show st), st))"

lemmas plan_op_defs = plan_set_def plan_update_def plan_add_def plan_tool_execute_def

section \<open>The invariant\<close>

definition well_planned :: "plan_step list \<Rightarrow> bool" where
  "well_planned ss \<longleftrightarrow> distinct (map ps_id ss) \<and>
     (\<forall>s \<in> set ss. \<not> is_blank (ps_id s) \<and> \<not> is_blank (ps_description s))"

lemma validate_from_ok:
  "validate_from seen ss = Inr u \<longleftrightarrow> well_planned ss \<and> ps_id ` set ss \<inter> set seen = {}"
  by (induction ss arbitrary: seen) (auto simp: well_planned_def)

lemma validate_steps_ok: "validate_steps ss = Inr u \<longleftrightarrow> well_planned ss"
  by (simp add: validate_steps_def validate_from_ok)

lemma set_status_spec:
  "set_status i status ss = Some ss' \<Longrightarrow>
     map ps_id ss' = map ps_id ss \<and> map ps_description ss' = map ps_description ss \<and> i \<in> ps_id ` set ss"
  by (induction ss arbitrary: ss') (auto split: if_splits)

lemma well_planned_map:
  "well_planned ss \<longleftrightarrow> distinct (map ps_id ss) \<and>
     (\<forall>i \<in> set (map ps_id ss). \<not> is_blank i) \<and> (\<forall>d \<in> set (map ps_description ss). \<not> is_blank d)"
  by (auto simp: well_planned_def)

lemma set_status_well_planned:
  "set_status i status ss = Some ss' \<Longrightarrow> well_planned ss \<Longrightarrow> well_planned ss'"
  using set_status_spec [of i status ss ss'] by (metis well_planned_map)

text \<open>
  The steps are valid, and a store with a file would load exactly them from it, as far as the
  serialised form can be read back.
\<close>

definition codec :: "(plan_step list \<Rightarrow> string) \<Rightarrow> (string \<Rightarrow> plan_step list option) \<Rightarrow> bool" where
  "codec ser de \<longleftrightarrow> (\<forall>ss. de (ser ss) = Some ss)"

definition plan_ok ::
  "(plan_step list \<Rightarrow> string) \<Rightarrow> (string \<Rightarrow> plan_step list option) \<Rightarrow> plan_store \<Rightarrow> bool" where
  "plan_ok ser de st \<longleftrightarrow> well_planned (plan_steps st) \<and>
     (plan_path st \<noteq> None \<and> codec ser de \<longrightarrow> load_state de (plan_file st) = Inr (plan_steps st))"

lemma plan_commit_ok:
  "well_planned next \<Longrightarrow> plan_ok ser de st \<Longrightarrow> plan_ok ser de (snd (plan_commit ser disk next st))"
  by (cases "plan_path st = None"; cases "disk = DiskOk")
    (auto simp: plan_commit_def persist_state_def plan_ok_def load_state_def codec_def)

lemma plan_commit_Inl: "fst (plan_commit ser disk next st) = Inl e \<Longrightarrow> snd (plan_commit ser disk next st) = st"
  by (auto simp: plan_commit_def split: sum.splits)

lemma commit_path [simp]: "plan_path (snd (plan_commit ser disk next st)) = plan_path st"
  by (auto simp: plan_commit_def persist_state_def)

definition plan_op_step :: "(plan_step list \<Rightarrow> string) \<Rightarrow> plan_store \<Rightarrow> disk_outcome \<times> json \<Rightarrow> plan_store" where
  "plan_op_step ser st e = snd (plan_tool_execute ser (fst e) (snd e) st)"

lemma plan_set_ok: "plan_ok ser de st \<Longrightarrow> plan_ok ser de (snd (plan_set ser disk ss st))"
  by (auto simp: plan_set_def validate_steps_ok plan_commit_ok split: sum.splits)

lemma plan_update_ok: "plan_ok ser de st \<Longrightarrow> plan_ok ser de (snd (plan_update ser disk i s st))"
  using set_status_well_planned [of i s "plan_steps st"]
  by (auto simp: plan_update_def plan_ok_def [of _ _ st] intro!: plan_commit_ok split: option.splits)

lemma plan_add_ok: "plan_ok ser de st \<Longrightarrow> plan_ok ser de (snd (plan_add ser disk s st))"
  by (auto simp: plan_add_def Let_def validate_steps_ok plan_commit_ok split: sum.splits)

lemma plan_tool_ok: "plan_ok ser de st \<Longrightarrow> plan_ok ser de (snd (plan_tool_execute ser disk args st))"
  by (simp add: plan_tool_execute_def plan_set_ok plan_update_ok plan_add_ok
      split: option.split plan_action.split)

lemma plan_tool_path: "plan_path (snd (plan_tool_execute ser disk args st)) = plan_path st"
  by (auto simp: plan_op_defs Let_def split: option.split plan_action.split sum.split)

interpretation plan: step_machine "plan_op_step ser" "plan_ok ser de"
  by unfold_locales (simp add: plan_op_step_def plan_tool_ok)

interpretation plan_home: step_machine "plan_op_step ser" "\<lambda>st. plan_path st = p"
  by unfold_locales (simp add: plan_op_step_def plan_tool_path)

lemma plan_tool_error:
  "fst (plan_tool_execute ser disk args st) = Inl e \<Longrightarrow> snd (plan_tool_execute ser disk args st) = st"
  by (auto simp: plan_op_defs Let_def plan_commit_Inl split: option.splits plan_action.splits sum.splits)

lemma new_plan_ok:
  "new_plan_store de path content = Inr st \<Longrightarrow> plan_ok ser de st \<and> plan_path st = path"
  by (auto simp: new_plan_store_def bindE_def plan_ok_def validate_steps_ok split: sum.splits option.splits)

text \<open>
  Plan restart. Whatever actions the model sends and whichever file operations fail, the
  plan is valid, an action that reports an error has changed nothing, and a new process that
  opens the plan file has exactly the plan the old one had.
\<close>

theorem plan_restart:
  assumes "codec ser de" and "new_plan_store de (Some p) content = Inr st0"
  shows "let st = foldl (plan_op_step ser) st0 actions in
    well_planned (plan_steps st) \<and>
    new_plan_store de (Some p) (plan_file st) = Inr st \<and>
    (\<forall>disk args e. fst (plan_tool_execute ser disk args st) = Inl e \<longrightarrow>
       snd (plan_tool_execute ser disk args st) = st)"
proof -
  let ?st = "foldl (plan_op_step ser) st0 actions"
  have ok: "plan_ok ser de ?st" and p: "plan_path ?st = Some p"
    using plan.run_inv plan_home.run_inv new_plan_ok [OF assms(2)] by blast+
  with assms(1) have "load_state de (plan_file ?st) = Inr (plan_steps ?st)" "well_planned (plan_steps ?st)"
    by (simp_all add: plan_ok_def)
  moreover from this have "new_plan_store de (Some p) (plan_file ?st) = Inr ?st"
    using p validate_steps_ok [of "plan_steps ?st" "()"] by (simp add: new_plan_store_def bindE_def)
  ultimately show ?thesis using plan_tool_error by (simp add: Let_def)
qed

section \<open>A concrete codec\<close>

definition put_text :: "string \<Rightarrow> string" where
  "put_text s = concat (map (\<lambda>c. [CHR ''.'', c]) s) @ '';''"

fun get_text :: "string \<Rightarrow> string \<times> string" where
  "get_text (m # c # s) = (if m = CHR ''.'' then (let (t, r) = get_text s in (c # t, r)) else ([], c # s))"
| "get_text _ = ([], [])"

definition put_status :: "plan_status \<Rightarrow> char" where
  "put_status s = (case s of PlanPending \<Rightarrow> CHR ''p'' | InProgress \<Rightarrow> CHR ''i'' | PlanDone \<Rightarrow> CHR ''d'')"

definition get_status :: "char \<Rightarrow> plan_status" where
  "get_status c = (if c = CHR ''p'' then PlanPending else if c = CHR ''i'' then InProgress else PlanDone)"

fun plain_ser :: "plan_step list \<Rightarrow> string" where
  "plain_ser [] = ''$''"
| "plain_ser (s # ss) = put_status (ps_status s) # put_text (ps_id s) @ put_text (ps_description s) @ plain_ser ss"

fun plain_read :: "nat \<Rightarrow> string \<Rightarrow> plan_step list" where
  "plain_read (Suc n) (c # s) =
     (if c = CHR ''$'' then []
      else let (i, r) = get_text s; (d, r) = get_text r in
        \<lparr>ps_id = i, ps_description = d, ps_status = get_status c\<rparr> # plain_read n r)"
| "plain_read _ _ = []"

definition plain_de :: "string \<Rightarrow> plan_step list option" where
  "plain_de s = Some (plain_read (length s) s)"

lemma get_put_text: "r \<noteq> [] \<Longrightarrow> get_text (put_text t @ r) = (t, r)"
  by (induction t) (auto simp: put_text_def neq_Nil_conv)

lemma plain_ser_not_Nil [simp]: "plain_ser ss \<noteq> []"
  by (cases ss) simp_all

lemma put_text_not_Nil [simp]: "put_text t @ r \<noteq> []"
  by (simp add: put_text_def)

lemma status_roundtrip: "get_status (put_status s) = s \<and> put_status s \<noteq> CHR ''$''"
  by (cases s) (simp_all add: get_status_def put_status_def)

lemma plain_read_ser: "length ss < n \<Longrightarrow> plain_read n (plain_ser ss) = ss"
proof (induction ss arbitrary: n)
  case (Cons s ss)
  then obtain m where "n = Suc m" "length ss < m" by (cases n) auto
  with Cons.IH [of m] show ?case by (simp add: get_put_text status_roundtrip)
next
  case Nil
  then show ?case by (cases n) simp_all
qed

lemma plain_ser_longer: "length ss < length (plain_ser ss)"
  by (induction ss) simp_all

lemma plain_codec: "codec plain_ser plain_de"
  by (simp add: codec_def plain_de_def plain_read_ser plain_ser_longer)

definition sample_actions :: "(disk_outcome \<times> json) list" where
  "sample_actions =
     [(DiskOk, JObj [(''action'', JStr ''set''), (''steps'', JArr
        [JObj [(''id'', JStr ''1''), (''description'', JStr ''a'')]])]),
      (RenameFails, JObj [(''action'', JStr ''update''), (''id'', JStr ''1''), (''status'', JStr ''done'')]),
      (DiskOk, JObj [(''action'', JStr ''add''), (''id'', JStr ''1''), (''description'', JStr ''b'')])]"

theorem plan_restart_witness:
  "let st0 = \<lparr>plan_path = Some ''p'', plan_steps = [], plan_file = None\<rparr>;
       st = foldl (plan_op_step plain_ser) st0 sample_actions in
   plan_steps st = [\<lparr>ps_id = ''1'', ps_description = ''a'', ps_status = PlanPending\<rparr>] \<and>
   new_plan_store plain_de (Some ''p'') (plan_file st) = Inr st"
proof -
  let ?st0 = "\<lparr>plan_path = Some ''p'', plan_steps = [], plan_file = None\<rparr>"
  have "new_plan_store plain_de (Some ''p'') None = Inr ?st0"
    by (simp add: new_plan_store_def load_state_def bindE_def validate_steps_def)
  from plan_restart [OF plain_codec this, of sample_actions]
  have "new_plan_store plain_de (Some ''p'') (plan_file (foldl (plan_op_step plain_ser) ?st0 sample_actions)) =
      Inr (foldl (plan_op_step plain_ser) ?st0 sample_actions)" by (simp add: Let_def)
  moreover have "plan_steps (foldl (plan_op_step plain_ser) ?st0 sample_actions) =
      [\<lparr>ps_id = ''1'', ps_description = ''a'', ps_status = PlanPending\<rparr>]"
    by (simp add: sample_actions_def plan_op_step_def plan_op_defs parse_plan_action_def parse_plan_step_def
        str_field_def json_get_def json_str_def status_or_default_def parse_plan_status_def
        plan_commit_def persist_state_def validate_steps_def is_blank_def trim_id ascii_ws_def byte_def
        ws2_def ws3_def)
  ultimately show ?thesis by (simp add: Let_def)
qed

end
