(* ===== verification/Configuration.thy ===== *)
theory Configuration
  imports Route Plan "HOL-Library.Countable"
begin

text \<open>
  The model configuration: the file of \<open>src/config.rs\<close> (\<open>ConfigFile\<close>, \<open>ConfigStore\<close>) and the
  daemon's \<open>models_list\<close>, \<open>models_use\<close> and \<open>models_save\<close> (\<open>src/daemon/handlers.rs\<close>), which keep the
  running provider manager in step with it. The JSON of the file is the pair \<open>ser\<close>, \<open>de\<close>;
  \<open>disk_outcome\<close> is what happens to the writing of the temporary file and its renaming.
\<close>

section \<open>The file\<close>

record config_file =
  cf_active :: "string option"
  cf_profiles :: "provider_profile list"
  cf_fallbacks :: "string list"

datatype file_state = NoFile | Unreadable | Content string

datatype config_failure =
    ReadFails | ParseFails | WriteFails
  | InvalidProfile profile_error
  | NoActive string
  | NoFallback string
  | NoProfile string

definition empty_config :: config_file where
  "empty_config = \<lparr>cf_active = None, cf_profiles = [], cf_fallbacks = []\<rparr>"

definition config_load :: "(string \<Rightarrow> config_file option) \<Rightarrow> file_state \<Rightarrow> config_failure + config_file" where
  "config_load de fs =
     (case fs of NoFile \<Rightarrow> Inr empty_config | Unreadable \<Rightarrow> Inl ReadFails | Content b \<Rightarrow> ok_or ParseFails (de b))"

definition profile_by :: "string \<Rightarrow> provider_profile list \<Rightarrow> provider_profile option" where
  "profile_by i ps = find (\<lambda>p. pf_id p = i) ps"

fun check_profiles :: "(string \<Rightarrow> string option) \<Rightarrow> provider_profile list \<Rightarrow> config_failure + unit" where
  "check_profiles url_scheme [] = Inr ()"
| "check_profiles url_scheme (p # ps) =
     (case profile_validate url_scheme p of Inl e \<Rightarrow> Inl (InvalidProfile e) | Inr _ \<Rightarrow> check_profiles url_scheme ps)"

fun check_fallbacks :: "provider_profile list \<Rightarrow> string list \<Rightarrow> config_failure + unit" where
  "check_fallbacks ps [] = Inr ()"
| "check_fallbacks ps (i # is) = (if profile_by i ps = None then Inl (NoFallback i) else check_fallbacks ps is)"

definition config_check :: "(string \<Rightarrow> string option) \<Rightarrow> config_file \<Rightarrow> config_failure + unit" where
  "config_check url_scheme c =
     bindE (check_profiles url_scheme (cf_profiles c)) (\<lambda>_.
     bindE (case cf_active c of
              Some i \<Rightarrow> if profile_by i (cf_profiles c) = None then Inl (NoActive i) else Inr ()
            | None \<Rightarrow> Inr ()) (\<lambda>_.
     check_fallbacks (cf_profiles c) (cf_fallbacks c)))"

text \<open>Written beside the file and renamed over it: only a complete success changes the file.\<close>

definition config_save ::
  "(string \<Rightarrow> string option) \<Rightarrow> (config_file \<Rightarrow> string) \<Rightarrow> disk_outcome \<Rightarrow> config_file \<Rightarrow> file_state \<Rightarrow>
   (config_failure + unit) \<times> file_state" where
  "config_save url_scheme ser disk c fs =
     (case config_check url_scheme c of
        Inl e \<Rightarrow> (Inl e, fs)
      | Inr _ \<Rightarrow> if disk = DiskOk then (Inr (), Content (ser c)) else (Inl WriteFails, fs))"

definition active_profile :: "(string \<Rightarrow> config_file option) \<Rightarrow> file_state \<Rightarrow> config_failure + provider_profile option" where
  "active_profile de fs =
     bindE (config_load de fs) (\<lambda>c.
       Inr (case Option.bind (cf_active c) (\<lambda>i. profile_by i (cf_profiles c)) of
              Some p \<Rightarrow> Some p
            | None \<Rightarrow> (case cf_profiles c of [] \<Rightarrow> None | p # _ \<Rightarrow> Some p)))"

section \<open>Profiles\<close>

definition is_alnum :: "char \<Rightarrow> bool" where
  "is_alnum c \<longleftrightarrow> is_digit c \<or> (65 \<le> byte c \<and> byte c \<le> 90) \<or> (97 \<le> byte c \<and> byte c \<le> 122)"

definition id_char :: "string \<Rightarrow> char" where
  "id_char k = (case k of [c] \<Rightarrow> if is_alnum c then ascii_lower c else CHR ''-'' | _ \<Rightarrow> CHR ''-'')"

definition trim_dashes :: "string \<Rightarrow> string" where
  "trim_dashes s = rev (dropWhile (\<lambda>c. c = CHR ''-'') (rev (dropWhile (\<lambda>c. c = CHR ''-'') s)))"

definition normalize_profile_id :: "string \<Rightarrow> string \<Rightarrow> string \<Rightarrow> string" where
  "normalize_profile_id i n model =
     (let src = (if is_blank i then if is_blank n then model else n else i);
          s = trim_dashes (map (\<lambda>k. id_char k) (chars (trim src)))
      in if s = [] then ''model'' else s)"

definition trim_end_slashes :: "string \<Rightarrow> string" where
  "trim_end_slashes s = rev (dropWhile (\<lambda>c. c = CHR ''/'') (rev s))"

definition normal_profile :: "provider_profile \<Rightarrow> provider_profile" where
  "normal_profile p =
     (let i = normalize_profile_id (pf_id p) (pf_name p) (pf_model p) in
      p\<lparr>pf_id := i, pf_name := (if is_blank (pf_name p) then i else trim (pf_name p)),
        pf_base_url := trim_end_slashes (pf_base_url p)\<rparr>)"

text \<open>A profile saved without a key keeps the key of the profile it replaces.\<close>

definition keep_key :: "provider_profile list \<Rightarrow> provider_profile \<Rightarrow> provider_profile" where
  "keep_key ps p =
     (case profile_by (pf_id p) ps of
        Some old \<Rightarrow> if pf_api_key p = None then p\<lparr>pf_api_key := pf_api_key old\<rparr> else p
      | None \<Rightarrow> p)"

fun replace_first :: "provider_profile \<Rightarrow> provider_profile list \<Rightarrow> provider_profile list" where
  "replace_first p [] = [p]"
| "replace_first p (q # qs) = (if pf_id q = pf_id p then p # qs else q # replace_first p qs)"

definition upserted :: "provider_profile \<Rightarrow> bool \<Rightarrow> config_file \<Rightarrow> config_file" where
  "upserted p activate c =
     (let p = keep_key (cf_profiles c) (normal_profile p) in
      c\<lparr>cf_profiles := replace_first p (cf_profiles c),
        cf_active := (if activate \<or> cf_active c = None then Some (pf_id p) else cf_active c)\<rparr>)"

definition config_upsert ::
  "(string \<Rightarrow> string option) \<Rightarrow> (config_file \<Rightarrow> string) \<Rightarrow> (string \<Rightarrow> config_file option) \<Rightarrow> disk_outcome \<Rightarrow>
   provider_profile \<Rightarrow> bool \<Rightarrow> file_state \<Rightarrow> (config_failure + config_file) \<times> file_state" where
  "config_upsert url_scheme ser de disk p activate fs =
     (case config_load de fs of
        Inl e \<Rightarrow> (Inl e, fs)
      | Inr c \<Rightarrow>
          (case profile_validate url_scheme (keep_key (cf_profiles c) (normal_profile p)) of
             Inl e \<Rightarrow> (Inl (InvalidProfile e), fs)
           | Inr _ \<Rightarrow>
               let c = upserted p activate c in
               (case config_save url_scheme ser disk c fs of
                  (Inl e, fs) \<Rightarrow> (Inl e, fs)
                | (Inr _, fs) \<Rightarrow> (Inr c, fs))))"

definition config_activate ::
  "(string \<Rightarrow> string option) \<Rightarrow> (config_file \<Rightarrow> string) \<Rightarrow> (string \<Rightarrow> config_file option) \<Rightarrow> disk_outcome \<Rightarrow>
   string \<Rightarrow> file_state \<Rightarrow> (config_failure + provider_profile) \<times> file_state" where
  "config_activate url_scheme ser de disk i fs =
     (case config_load de fs of
        Inl e \<Rightarrow> (Inl e, fs)
      | Inr c \<Rightarrow>
          (case profile_by i (cf_profiles c) of
             None \<Rightarrow> (Inl (NoProfile i), fs)
           | Some p \<Rightarrow>
               (case config_save url_scheme ser disk (c\<lparr>cf_active := Some i\<rparr>) fs of
                  (Inl e, fs) \<Rightarrow> (Inl e, fs)
                | (Inr _, fs) \<Rightarrow> (Inr p, fs))))"

record profile_summary =
  sm_id :: string
  sm_name :: string
  sm_api_type :: api_type
  sm_base_url :: string
  sm_model :: string
  sm_has_key :: bool

definition profile_summary_of :: "provider_profile \<Rightarrow> profile_summary" where
  "profile_summary_of p =
     \<lparr>sm_id = pf_id p, sm_name = (if is_blank (pf_name p) then pf_id p else pf_name p), sm_api_type = pf_api_type p,
      sm_base_url = pf_base_url p, sm_model = pf_model p,
      sm_has_key = (case pf_api_key p of None \<Rightarrow> False | Some k \<Rightarrow> \<not> is_blank k)\<rparr>"

section \<open>The daemon's model methods\<close>

datatype models_error = NoManager | ConfigRefused config_failure | LoadRefused profile_error | NoActiveId | ActiveLost

definition models_list ::
  "(string \<Rightarrow> config_file option) \<Rightarrow> 'p manager option \<Rightarrow> file_state \<Rightarrow>
   models_error + string option \<times> profile_summary list" where
  "models_list de mgr fs =
     (case config_load de fs of
        Inl e \<Rightarrow> Inl (ConfigRefused e)
      | Inr c \<Rightarrow>
          Inr (case cf_active c of Some i \<Rightarrow> Some i | None \<Rightarrow> map_option (\<lambda>m. pf_id (fst (current m))) mgr,
               (case (cf_profiles c, mgr) of
                  ([], Some m) \<Rightarrow> [profile_summary_of (fst (current m))]
                | (ps, _) \<Rightarrow> map profile_summary_of ps)))"

definition fallback_profiles :: "config_file \<Rightarrow> provider_profile list" where
  "fallback_profiles c = List.map_filter (\<lambda>i. profile_by i (cf_profiles c)) (cf_fallbacks c)"

text \<open>The manager takes the profile, then the fallbacks; a refused fallback leaves the profile switched.\<close>

definition apply_config ::
  "(provider_profile \<Rightarrow> profile_error + 'p) \<Rightarrow> provider_profile \<Rightarrow> config_file \<Rightarrow> 'p manager \<Rightarrow>
   (models_error + profile_summary) \<times> 'p manager" where
  "apply_config mk p c m =
     (case switch mk p m of
        Inl e \<Rightarrow> (Inl (LoadRefused e), m)
      | Inr m \<Rightarrow>
          (case set_fallbacks mk (fallback_profiles c) m of
             Inl e \<Rightarrow> (Inl (LoadRefused e), m)
           | Inr m \<Rightarrow> (Inr (profile_summary_of p), m)))"

definition models_save ::
  "(string \<Rightarrow> string option) \<Rightarrow> (config_file \<Rightarrow> string) \<Rightarrow> (string \<Rightarrow> config_file option) \<Rightarrow> disk_outcome \<Rightarrow>
   (provider_profile \<Rightarrow> profile_error + 'p) \<Rightarrow> provider_profile \<Rightarrow> bool \<Rightarrow> file_state \<Rightarrow> 'p manager option \<Rightarrow>
   (models_error + profile_summary) \<times> file_state \<times> 'p manager option" where
  "models_save url_scheme ser de disk mk p activate fs mgr =
     (case mgr of
        None \<Rightarrow> (Inl NoManager, fs, None)
      | Some m \<Rightarrow>
          (case config_upsert url_scheme ser de disk p activate fs of
             (Inl e, fs) \<Rightarrow> (Inl (ConfigRefused e), fs, mgr)
           | (Inr c, fs) \<Rightarrow>
               (case cf_active c of
                  None \<Rightarrow> (Inl NoActiveId, fs, mgr)
                | Some i \<Rightarrow>
                    (case profile_by i (cf_profiles c) of
                       None \<Rightarrow> (Inl ActiveLost, fs, mgr)
                     | Some q \<Rightarrow> (case apply_config mk q c m of (r, m) \<Rightarrow> (r, fs, Some m))))))"

text \<open>\<open>models_use\<close> reads the file again for the fallbacks, after the profile has been switched.\<close>

definition models_use ::
  "(string \<Rightarrow> string option) \<Rightarrow> (config_file \<Rightarrow> string) \<Rightarrow> (string \<Rightarrow> config_file option) \<Rightarrow> disk_outcome \<Rightarrow>
   (provider_profile \<Rightarrow> profile_error + 'p) \<Rightarrow> string \<Rightarrow> file_state \<Rightarrow> 'p manager option \<Rightarrow>
   (models_error + profile_summary) \<times> file_state \<times> 'p manager option" where
  "models_use url_scheme ser de disk mk i fs mgr =
     (case mgr of
        None \<Rightarrow> (Inl NoManager, fs, None)
      | Some m \<Rightarrow>
          (case config_activate url_scheme ser de disk i fs of
             (Inl e, fs) \<Rightarrow> (Inl (ConfigRefused e), fs, mgr)
           | (Inr q, fs) \<Rightarrow>
               (case switch mk q m of
                  Inl e \<Rightarrow> (Inl (LoadRefused e), fs, mgr)
                | Inr m1 \<Rightarrow>
                    (case config_load de fs of
                       Inl e \<Rightarrow> (Inl (ConfigRefused e), fs, Some m1)
                     | Inr c \<Rightarrow>
                         (case set_fallbacks mk (fallback_profiles c) m1 of
                            Inl e \<Rightarrow> (Inl (LoadRefused e), fs, Some m1)
                          | Inr m2 \<Rightarrow> (Inr (profile_summary_of q), fs, Some m2))))))"

section \<open>Identifiers\<close>

definition normal_id :: "string \<Rightarrow> bool" where
  "normal_id s \<longleftrightarrow> s \<noteq> [] \<and> hd s \<noteq> CHR ''-'' \<and> last s \<noteq> CHR ''-'' \<and>
     list_all (\<lambda>c. c = CHR ''-'' \<or> is_digit c \<or> 97 \<le> byte c \<and> byte c \<le> 122) s"

definition id_byte :: "char \<Rightarrow> bool" where
  "id_byte c \<longleftrightarrow> c = CHR ''-'' \<or> is_digit c \<or> 97 \<le> byte c \<and> byte c \<le> 122"

lemma byte_dash [simp]: "byte CHR ''-'' = 45"
  by (simp add: byte_def)

lemma id_byte_ascii: "id_byte c \<Longrightarrow> byte c < 0x80 \<and> \<not> ascii_ws c"
  by (auto simp: id_byte_def is_digit_def ascii_ws_def)

lemma id_char_byte: "id_byte (id_char k)"
  by (auto simp: id_char_def id_byte_def is_alnum_def ascii_lower_def is_digit_def byte_char_of split: list.split)

lemma id_char_id: "id_byte c \<Longrightarrow> id_char [c] = c"
  by (auto simp: id_char_def id_byte_def is_alnum_def ascii_lower_def is_digit_def)

lemma chars_ascii: "list_all (\<lambda>c. byte c < 0x80) s \<Longrightarrow> chars s = map (\<lambda>c. [c]) s"
proof (induction s)
  case (Cons c s)
  then have "takeWhile (\<lambda>k. cont (byte k)) s = []" "dropWhile (\<lambda>k. cont (byte k)) s = s"
    by (cases s; simp add: cont_def)+
  with Cons show ?case by simp
qed simp

lemma ws_len_ascii: "byte c < 0x80 \<Longrightarrow> \<not> ascii_ws c \<Longrightarrow> ws_len (c # s) = 0"
  by (cases "c # s" rule: ws_len.cases) (auto simp: ws2_def ws3_def)

lemma ws_len_rev_ascii: "byte c < 0x80 \<Longrightarrow> \<not> ascii_ws c \<Longrightarrow> ws_len_rev (c # s) = 0"
  by (cases "c # s" rule: ws_len_rev.cases) (auto simp: ws2_def ws3_def)

lemma trim_ids:
  assumes "list_all id_byte s"
  shows "trim s = s"
proof (cases s rule: rev_cases)
  case (snoc t d)
  then obtain c r where cr: "s = c # r" by (metis append_is_Nil_conv neq_Nil_conv not_Cons_self2)
  have "id_byte d" using assms snoc by simp
  moreover have "id_byte c" using assms cr by simp
  ultimately have "ws_len (c # r) = 0" "ws_len_rev (d # rev t) = 0"
    using id_byte_ascii ws_len_ascii ws_len_rev_ascii by blast+
  then have "ws_len s = 0" "ws_len_rev (rev s) = 0" using cr [symmetric] snoc by simp_all
  then show ?thesis by (rule trim_id)
qed (simp add: trim_def trim_end_def)

lemma trim_dashes_id: "normal_id s \<Longrightarrow> trim_dashes s = s"
proof -
  assume n: "normal_id s"
  then have "dropWhile (\<lambda>c. c = CHR ''-'') s = s" by (cases s) (auto simp: normal_id_def)
  moreover have "dropWhile (\<lambda>c. c = CHR ''-'') (rev s) = rev s"
    using n by (cases s rule: rev_cases) (auto simp: normal_id_def)
  ultimately show ?thesis by (simp add: trim_dashes_def)
qed

lemma trim_dashes_normal:
  assumes "list_all id_byte s" "trim_dashes s \<noteq> []"
  shows "normal_id (trim_dashes s)"
proof -
  let ?d = "\<lambda>c. c = CHR ''-''"
  let ?l = "dropWhile ?d s"
  have drop_sub: "set (dropWhile ?d xs) \<subseteq> set xs" for xs by (auto dest: set_dropWhileD)
  have sub: "set (trim_dashes s) \<subseteq> set s"
    using drop_sub [of "rev ?l"] drop_sub [of s] by (simp add: trim_dashes_def)
  have ne: "?l \<noteq> []" using assms(2) unfolding trim_dashes_def by (metis dropWhile.simps(1) rev.simps(1))
  have "hd ?l \<noteq> CHR ''-''" by (rule hd_dropWhile [OF ne])
  obtain pre where pre: "?l = trim_dashes s @ pre"
    using takeWhile_dropWhile_id [of ?d "rev ?l"] by (metis rev_append rev_rev_ident trim_dashes_def)
  then have "hd ?l = hd (trim_dashes s)" using assms(2) by simp
  with \<open>hd ?l \<noteq> _\<close> have "hd (trim_dashes s) \<noteq> CHR ''-''" by simp
  moreover have "last (trim_dashes s) \<noteq> CHR ''-''"
  proof -
    have r: "dropWhile ?d (rev ?l) \<noteq> []" using assms(2) unfolding trim_dashes_def by (metis rev.simps(1))
    have "last (trim_dashes s) = hd (dropWhile ?d (rev ?l))" unfolding trim_dashes_def by (rule last_rev)
    with hd_dropWhile [OF r] show ?thesis by simp
  qed
  ultimately show ?thesis using assms sub by (auto simp: normal_id_def list_all_iff id_byte_def)
qed

text \<open>
  Identifiers are normal: whatever the profile is called, its identifier is a non-empty run
  of lower-case letters, digits and inner dashes, and normalising an identifier again does not
  change it, so a profile that is edited under its identifier stays the same profile.
\<close>

theorem profile_ids_normal:
  "normal_id (normalize_profile_id i n model) \<and>
   normalize_profile_id (normalize_profile_id i n model) n' model' = normalize_profile_id i n model"
proof -
  have id: "normal_id (normalize_profile_id i n model)" for i n model
  proof (cases "normalize_profile_id i n model = ''model''")
    case False
    let ?s = "map (\<lambda>k. id_char k) (chars (trim (if is_blank i then if is_blank n then model else n else i)))"
    from False have "normalize_profile_id i n model = trim_dashes ?s" "trim_dashes ?s \<noteq> []"
      by (auto simp: normalize_profile_id_def Let_def split: if_splits)
    moreover have "list_all id_byte ?s" by (simp add: list_all_iff id_char_byte)
    ultimately show ?thesis using trim_dashes_normal by simp
  qed (simp add: normal_id_def byte_def is_digit_def)
  have again: "normalize_profile_id s n' model' = s" if "normal_id s" for s
  proof -
    have ids: "list_all id_byte s" "s \<noteq> []" using that by (auto simp: normal_id_def id_byte_def list_all_iff)
    have "\<not> is_blank s" using ids trim_ids by (simp add: is_blank_def)
    moreover have "list_all (\<lambda>c. byte c < 0x80) s" using ids(1) id_byte_ascii by (auto simp: list_all_iff)
    moreover have "map (\<lambda>c. id_char [c]) s = s" using ids(1) id_char_id by (auto simp: list_all_iff intro: map_idI)
    ultimately show ?thesis
      using trim_ids [OF ids(1)] trim_dashes_id [OF that] ids(2)
      by (simp add: normalize_profile_id_def Let_def chars_ascii comp_def)
  qed
  from id again show ?thesis by blast
qed

section \<open>Saving\<close>

lemma profile_by_replace: "profile_by i (replace_first p ps) = (if i = pf_id p then Some p else profile_by i ps)"
  by (induction ps) (auto simp: profile_by_def)

lemma profile_by_id: "profile_by i ps = Some p \<Longrightarrow> pf_id p = i \<and> p \<in> set ps"
  by (auto simp: profile_by_def find_Some_iff)

lemma keep_key_id [simp]: "pf_id (keep_key ps p) = pf_id p"
  by (simp add: keep_key_def split: option.split)

lemma config_save_cases:
  obtains (saved) "config_save url_scheme ser disk c fs = (Inr (), Content (ser c))" "config_check url_scheme c = Inr ()"
  | (refused) e where "config_save url_scheme ser disk c fs = (Inl e, fs)"
  by (cases "config_check url_scheme c"; cases "disk = DiskOk") (auto simp: config_save_def)

lemma config_upsert_cases:
  obtains (saved) c0 where "config_load de fs = Inr c0" "config_check url_scheme (upserted p act c0) = Inr ()"
      "config_upsert url_scheme ser de disk p act fs = (Inr (upserted p act c0), Content (ser (upserted p act c0)))"
  | (refused) e where "config_upsert url_scheme ser de disk p act fs = (Inl e, fs)"
proof -
  note stored = saved and failed = refused
  show thesis
  proof (cases "config_load de fs")
  case (Inl e)
  then show thesis by (intro refused [of e]) (simp add: config_upsert_def)
next
  case (Inr c)
  show thesis
  proof (cases "profile_validate url_scheme (keep_key (cf_profiles c) (normal_profile p))")
    case (Inl e)
    with Inr show thesis by (intro refused [of "InvalidProfile e"]) (simp add: config_upsert_def)
  next
    case ok: (Inr u)
    show thesis
    proof (cases rule: config_save_cases [of url_scheme ser disk "upserted p act c" fs])
      case saved
      with Inr ok show thesis by (intro stored [of c]) (simp_all add: config_upsert_def Let_def)
    next
      case (refused e)
      with Inr ok show thesis by (intro failed [of e]) (simp add: config_upsert_def Let_def)
    qed
  qed
  qed
qed

lemma upserted_simps:
  "cf_profiles (upserted p act c) = replace_first (keep_key (cf_profiles c) (normal_profile p)) (cf_profiles c)"
  "cf_fallbacks (upserted p act c) = cf_fallbacks c"
  "cf_active (upserted p act c) = (if act \<or> cf_active c = None then Some (pf_id (normal_profile p)) else cf_active c)"
  by (simp_all add: upserted_def Let_def)

lemma profiles_upserted:
  "(\<lambda>i. profile_by i (cf_profiles (upserted p act c))) =
     (\<lambda>i. profile_by i (cf_profiles c))(pf_id (normal_profile p) \<mapsto> keep_key (cf_profiles c) (normal_profile p))"
  by (auto simp: upserted_simps profile_by_replace)

text \<open>
  Saving a profile replaces or adds that one profile and nothing else. When it succeeds, the
  file reads back as the new configuration, which is consistent (every profile is valid, the
  active one and the fallbacks exist); the profile stands under its normalised identifier with
  the key it had before if it came without one, every other profile and the fallbacks are as
  before, and it is active when that was asked for or nothing was. When it fails, the file is
  untouched.
\<close>

theorem upsert_replaces_one:
  assumes "config_load de fs = Inr c0" and "de (ser (upserted p act c0)) = Some (upserted p act c0)"
  shows "case config_upsert url_scheme ser de disk p act fs of
      (Inl e, fs') \<Rightarrow> fs' = fs
    | (Inr c, fs') \<Rightarrow>
        config_load de fs' = Inr c \<and> config_check url_scheme c = Inr () \<and>
        (\<lambda>i. profile_by i (cf_profiles c)) =
          (\<lambda>i. profile_by i (cf_profiles c0))(pf_id (normal_profile p) \<mapsto> keep_key (cf_profiles c0) (normal_profile p)) \<and>
        cf_fallbacks c = cf_fallbacks c0 \<and>
        cf_active c = (if act \<or> cf_active c0 = None then Some (pf_id (normal_profile p)) else cf_active c0)"
proof (cases rule: config_upsert_cases [of de fs url_scheme p act ser disk])
  case (saved c1)
  with assms have "config_load de (Content (ser (upserted p act c0))) = Inr (upserted p act c0)"
    by (simp add: config_load_def ok_or_def)
  with saved assms(1) show ?thesis by (simp add: profiles_upserted upserted_simps(2,3))
qed simp

definition web_scheme :: "string \<Rightarrow> string option" where
  "web_scheme u = (if prefix ''http:'' u then Some ''http'' else None)"

definition sample_new :: provider_profile where
  "sample_new = \<lparr>pf_id = [], pf_name = ''My Model'', pf_api_type = Ollama, pf_api_key = None,
     pf_base_url = ''http://a/'', pf_model = ''m''\<rparr>"

lemma upsert_replaces_one_witness:
  "case config_upsert web_scheme (\<lambda>_. ''x'') (\<lambda>_. Some (upserted sample_new False empty_config)) DiskOk sample_new False NoFile of
      (Inl e, fs') \<Rightarrow> False
    | (Inr c, fs') \<Rightarrow> fs' = Content ''x'' \<and> cf_active c = Some ''my-model'' \<and>
        (\<lambda>i. profile_by i (cf_profiles c)) =
          (\<lambda>i. None)(''my-model'' \<mapsto> sample_new\<lparr>pf_id := ''my-model'', pf_base_url := ''http://a''\<rparr>)"
proof -
  let ?r = "config_upsert web_scheme (\<lambda>_. ''x'') (\<lambda>_. Some (upserted sample_new False empty_config)) DiskOk sample_new False NoFile"
  have n: "normal_profile sample_new = sample_new\<lparr>pf_id := ''my-model'', pf_base_url := ''http://a''\<rparr>" by code_simp
  have "fst ?r = Inr (upserted sample_new False empty_config) \<and> snd ?r = Content ''x''" by code_simp
  then have r: "?r = (Inr (upserted sample_new False empty_config), Content ''x'')" by (cases ?r) simp
  have "case ?r of
      (Inl e, fs') \<Rightarrow> fs' = NoFile
    | (Inr c, fs') \<Rightarrow>
        config_load (\<lambda>_. Some (upserted sample_new False empty_config)) fs' = Inr c \<and> config_check web_scheme c = Inr () \<and>
        (\<lambda>i. profile_by i (cf_profiles c)) =
          (\<lambda>i. profile_by i (cf_profiles empty_config))(pf_id (normal_profile sample_new) \<mapsto>
             keep_key (cf_profiles empty_config) (normal_profile sample_new)) \<and>
        cf_fallbacks c = cf_fallbacks empty_config \<and>
        cf_active c = (if False \<or> cf_active empty_config = None then Some (pf_id (normal_profile sample_new)) else cf_active empty_config)"
    by (rule upsert_replaces_one) (simp_all add: config_load_def)
  then have "(\<lambda>i. profile_by i (cf_profiles (upserted sample_new False empty_config))) =
      (\<lambda>i. profile_by i (cf_profiles empty_config))(pf_id (normal_profile sample_new) \<mapsto>
        keep_key (cf_profiles empty_config) (normal_profile sample_new))"
    and "cf_active (upserted sample_new False empty_config) = Some (pf_id (normal_profile sample_new))"
    unfolding r by (simp_all add: empty_config_def)
  then show ?thesis unfolding r by (simp add: n empty_config_def profile_by_def keep_key_def)
qed

text \<open>
  Names without a single ASCII letter or digit, such as Chinese ones, all give the identifier
  \<open>model\<close>. A second such profile therefore takes the place of the first one, and when it comes
  without a key it is stored with the key of the first, whatever service its address names.
\<close>

theorem unnamed_profiles_collide:
  assumes "is_blank (pf_id p)" "\<not> is_blank (pf_name p)" "list_all (\<lambda>c. \<not> is_alnum c) (trim (pf_name p))"
    and "profile_by ''model'' (cf_profiles c) = Some old" "pf_api_key p = None"
  shows "profile_by ''model'' (cf_profiles (upserted p act c)) = Some ((normal_profile p)\<lparr>pf_api_key := pf_api_key old\<rparr>)"
proof -
  have dash: "id_char k = CHR ''-''" if "k \<in> set (chars (trim (pf_name p)))" for k
  proof (cases k)
    case (Cons d r)
    have "d \<in> (\<Union>x \<in> set (chars (trim (pf_name p))). set x)" using that Cons by (intro UN_I [of k]) simp_all
    then have "d \<in> set (trim (pf_name p))" by (metis concat_chars set_concat)
    with assms(3) Cons show ?thesis by (auto simp: id_char_def list_all_iff split: list.split)
  qed (simp add: id_char_def)
  have "trim_dashes (map (\<lambda>k. id_char k) (chars (trim (pf_name p)))) = []"
    unfolding trim_dashes_def using dash by (auto simp: dropWhile_eq_Nil_conv [THEN iffD2])
  then have "pf_id (normal_profile p) = ''model''"
    using assms(1,2) by (simp add: normal_profile_def normalize_profile_id_def Let_def)
  moreover have "pf_api_key (normal_profile p) = None" using assms(5) by (simp add: normal_profile_def Let_def)
  ultimately show ?thesis using assms(4) by (simp add: upserted_def Let_def profile_by_replace keep_key_def)
qed

section \<open>The running manager\<close>

text \<open>The file reads back as it was written.\<close>

definition config_codec :: "(config_file \<Rightarrow> string) \<Rightarrow> (string \<Rightarrow> config_file option) \<Rightarrow> bool" where
  "config_codec ser de \<longleftrightarrow> (\<forall>c. de (ser c) = Some c)"

text \<open>
  The manager runs the active profile of the file, with fallbacks out of the configured ones,
  none twice and none the active one, and every provider is the one built from its profile.
\<close>

definition in_step ::
  "(string \<Rightarrow> config_file option) \<Rightarrow> (provider_profile \<Rightarrow> profile_error + 'p) \<Rightarrow> file_state \<Rightarrow> 'p manager \<Rightarrow> bool" where
  "in_step de mk fs m \<longleftrightarrow> (case config_load de fs of
      Inl e \<Rightarrow> False
    | Inr c \<Rightarrow> Option.bind (cf_active c) (\<lambda>i. profile_by i (cf_profiles c)) = Some (fst (current m)) \<and>
        fst ` set (fallbacks m) \<subseteq> set (fallback_profiles c) \<and>
        distinct (map (pf_id \<circ> fst) (current m # fallbacks m)) \<and> list_all (built_by mk) (current m # fallbacks m))"

lemma applied_in_step:
  assumes "config_load de fs = Inr c" "Option.bind (cf_active c) (\<lambda>i. profile_by i (cf_profiles c)) = Some q"
    and "switch mk q m = Inr m1" "set_fallbacks mk (fallback_profiles c) m1 = Inr m2"
  shows "in_step de mk fs m2"
proof -
  from assms(3) obtain pr where pr: "mk q = Inr pr" "current m1 = (q, pr)" by (auto simp: switch_def result_simps)
  from assms(4) obtain fb where fb: "collect_fallbacks mk (pf_id q) {} (fallback_profiles c) = Inr fb"
    "current m2 = current m1" "fallbacks m2 = fb"
    by (auto simp: set_fallbacks_def pr(2) result_simps)
  from collect_fallbacks_built [OF fb(1)] have "list_all (built_by mk) fb" "distinct (map (pf_id \<circ> fst) fb)"
    "pf_id q \<notin> (pf_id \<circ> fst) ` set fb" "fst ` set fb \<subseteq> set (fallback_profiles c)"
    by auto
  with assms(1,2) pr fb(2,3) show ?thesis by (auto simp: in_step_def built_by_def)
qed

datatype model_change = SaveModel provider_profile bool | UseModel string

definition change_model ::
  "(string \<Rightarrow> string option) \<Rightarrow> (config_file \<Rightarrow> string) \<Rightarrow> (string \<Rightarrow> config_file option) \<Rightarrow> disk_outcome \<Rightarrow>
   (provider_profile \<Rightarrow> profile_error + 'p) \<Rightarrow> model_change \<Rightarrow> file_state \<Rightarrow> 'p manager option \<Rightarrow>
   (models_error + profile_summary) \<times> file_state \<times> 'p manager option" where
  "change_model url_scheme ser de disk mk r fs mgr =
     (case r of SaveModel p act \<Rightarrow> models_save url_scheme ser de disk mk p act fs mgr
      | UseModel i \<Rightarrow> models_use url_scheme ser de disk mk i fs mgr)"

lemma save_in_step:
  assumes "config_codec ser de" "models_save url_scheme ser de disk mk p act fs (Some m) = (Inr v, fs', Some m')"
  shows "in_step de mk fs' m' \<and> v = profile_summary_of (fst (current m'))"
proof (cases rule: config_upsert_cases [of de fs url_scheme p act ser disk])
  case (saved c0)
  let ?c = "upserted p act c0"
  have load: "config_load de (Content (ser ?c)) = Inr ?c"
    using assms(1) by (simp add: config_load_def config_codec_def ok_or_def)
  from assms(2) saved(3) obtain i q where q: "cf_active ?c = Some i" "profile_by i (cf_profiles ?c) = Some q"
    "apply_config mk q ?c m = (Inr v, m')" "fs' = Content (ser ?c)"
    by (auto simp: models_save_def split: option.splits prod.splits)
  from q(3) obtain m1 where m1: "switch mk q m = Inr m1" "set_fallbacks mk (fallback_profiles ?c) m1 = Inr m'"
    "v = profile_summary_of q"
    by (auto simp: apply_config_def split: sum.splits)
  from applied_in_step [OF load _ m1(1,2)] q have "in_step de mk fs' m'" by simp
  moreover from this load q have "fst (current m') = q" by (simp add: in_step_def)
  ultimately show ?thesis using m1(3) by simp
next
  case (refused e)
  with assms(2) show ?thesis by (simp add: models_save_def)
qed

lemma use_in_step:
  assumes "config_codec ser de" "models_use url_scheme ser de disk mk i fs (Some m) = (Inr v, fs', Some m')"
  shows "in_step de mk fs' m' \<and> v = profile_summary_of (fst (current m'))"
proof -
  from assms(2) obtain q where q: "config_activate url_scheme ser de disk i fs = (Inr q, fs')"
    by (auto simp: models_use_def split: prod.splits sum.splits)
  then obtain c where c: "config_load de fs = Inr c" "profile_by i (cf_profiles c) = Some q"
    "fs' = Content (ser (c\<lparr>cf_active := Some i\<rparr>))"
    by (auto simp: config_activate_def config_save_def split: sum.splits option.splits prod.splits if_splits)
  let ?c = "c\<lparr>cf_active := Some i\<rparr>"
  have load: "config_load de fs' = Inr ?c"
    using assms(1) by (simp add: c(3) config_load_def config_codec_def ok_or_def)
  from assms(2) q load obtain m1 where m1: "switch mk q m = Inr m1" "set_fallbacks mk (fallback_profiles ?c) m1 = Inr m'"
    "v = profile_summary_of q"
    by (auto simp: models_use_def split: sum.splits)
  from applied_in_step [OF load _ m1(1,2)] c(2) have "in_step de mk fs' m'" by simp
  moreover from this load c(2) have "fst (current m') = q" by (simp add: in_step_def)
  ultimately show ?thesis using m1(3) by simp
qed

text \<open>
  After a model has been saved or chosen, and the answer says so, the running manager and
  the file agree: the provider in use is built from the profile the file names as active, the
  fallbacks are configured ones, different from it and from each other, and the answer
  describes the profile in use.
\<close>

theorem models_stay_in_step:
  assumes "config_codec ser de" "change_model url_scheme ser de disk mk r fs (Some m) = (Inr v, fs', Some m')"
  shows "in_step de mk fs' m' \<and> v = profile_summary_of (fst (current m'))"
  using assms save_in_step use_in_step by (cases r) (simp_all add: change_model_def, blast+)

instance api_type :: countable
  by countable_datatype

text \<open>A codec: the number of the fields of a configuration among all tuples of such fields.\<close>

definition profile_fields :: "provider_profile \<Rightarrow> string \<times> string \<times> api_type \<times> string option \<times> string \<times> string" where
  "profile_fields p = (pf_id p, pf_name p, pf_api_type p, pf_api_key p, pf_base_url p, pf_model p)"

definition fields_profile :: "string \<times> string \<times> api_type \<times> string option \<times> string \<times> string \<Rightarrow> provider_profile" where
  "fields_profile = (\<lambda>(i, n, a, k, u, m).
     \<lparr>pf_id = i, pf_name = n, pf_api_type = a, pf_api_key = k, pf_base_url = u, pf_model = m\<rparr>)"

definition number_codec :: "config_file \<Rightarrow> string" where
  "number_codec c = dec (to_nat (cf_active c, map profile_fields (cf_profiles c), cf_fallbacks c))"

definition number_decode :: "string \<Rightarrow> config_file option" where
  "number_decode s = map_option (\<lambda>n. case from_nat n of (a, ps, fs) \<Rightarrow>
     \<lparr>cf_active = a, cf_profiles = map fields_profile ps, cf_fallbacks = fs\<rparr>) (parse_digits s)"

lemma fields_profile_fields [simp]: "fields_profile (profile_fields p) = p"
  by (cases p) (simp add: fields_profile_def profile_fields_def)

lemma number_codec_ok: "config_codec number_codec number_decode"
  by (simp add: config_codec_def number_codec_def number_decode_def comp_def)

definition sample_manager :: "string manager" where
  "sample_manager = \<lparr>current = (sample_new, ''old''), fallbacks = [], generation = 1\<rparr>"

lemma models_stay_in_step_witness:
  "\<exists>v fs' m'. change_model web_scheme number_codec number_decode DiskOk (\<lambda>p. Inr (pf_id p)) (SaveModel sample_new True)
      NoFile (Some sample_manager) = (Inr v, fs', Some m') \<and>
    in_step number_decode (\<lambda>p. Inr (pf_id p)) fs' m' \<and> v = profile_summary_of (fst (current m'))"
proof -
  have "isl (fst (change_model web_scheme number_codec number_decode DiskOk (\<lambda>p. Inr (pf_id p)) (SaveModel sample_new True)
      NoFile (Some sample_manager))) = False"
    by code_simp
  then obtain v fs' m' where r: "change_model web_scheme number_codec number_decode DiskOk (\<lambda>p. Inr (pf_id p))
      (SaveModel sample_new True) NoFile (Some sample_manager) = (Inr v, fs', Some m')"
    by (cases "change_model web_scheme number_codec number_decode DiskOk (\<lambda>p. Inr (pf_id p)) (SaveModel sample_new True)
      NoFile (Some sample_manager)")
      (auto simp: change_model_def models_save_def isl_def split: sum.splits option.splits prod.splits, metis sum.exhaust)
  from models_stay_in_step [OF number_codec_ok r] r show ?thesis by blast
qed

end
