(* ===== verification/Session.thy ===== *)
theory Session
  imports Messages Text_Words
begin

text \<open>
  Session files (\<open>src/session.rs\<close>): one JSON document per line, appended; a missing line end
  marks a line a crash has cut short. Session ids name files beside the base file.

  The content of a file is its bytes. \<open>serde_json\<close> on one line and \<open>from_utf8_lossy\<close> are the
  parameters of \<open>line_codec\<close>; what is relied on is \<open>codec_laws\<close>. The same loader serves
  messages and trace records, so the record type is a type variable.
\<close>

section \<open>Lines\<close>

definition nl :: char where
  "nl = CHR 0x0A"

text \<open>\<open>str::lines\<close>: parts between line feeds, each without a carriage return at its end.\<close>

definition strip_cr :: "string \<Rightarrow> string" where
  "strip_cr l = (if l \<noteq> [] \<and> last l = CHR 0x0D then butlast l else l)"

function raw_lines :: "string \<Rightarrow> string list" where
  "raw_lines s =
     (if s = [] then []
      else takeWhile (\<lambda>c. c \<noteq> nl) s # raw_lines (tl (dropWhile (\<lambda>c. c \<noteq> nl) s)))"
  by pat_completeness auto
termination
proof (relation "measure length")
  fix s :: string assume "s \<noteq> []"
  then show "(tl (dropWhile (\<lambda>c. c \<noteq> nl) s), s) \<in> measure length"
    using length_dropWhile_le [of "\<lambda>c. c \<noteq> nl" s] by (cases s) (auto simp: le_imp_less_Suc length_dropWhile_le)
qed simp

declare raw_lines.simps [simp del]

definition text_lines :: "string \<Rightarrow> string list" where
  "text_lines s = map (\<lambda>l. strip_cr l) (raw_lines s)"

section \<open>Loading and appending\<close>

record 'm line_codec =
  lc_ser :: "'m \<Rightarrow> string"
  lc_de :: "string \<Rightarrow> 'm option"
  lc_lossy :: "string \<Rightarrow> string"

text \<open>\<open>Inl n\<close> is \<open>CorruptLine\<close> (\<open>CorruptTraceLine\<close>) with its one-based line number.\<close>

fun load_lines :: "(string \<Rightarrow> 'm option) \<Rightarrow> bool \<Rightarrow> nat \<Rightarrow> string list \<Rightarrow> nat + 'm list" where
  "load_lines de complete i [] = Inr []"
| "load_lines de complete i (l # ls) =
     (if is_blank l then load_lines de complete (Suc i) ls
      else case de l of
        Some m \<Rightarrow> bindE (load_lines de complete (Suc i) ls) (\<lambda>ms. Inr (m # ms))
      | None \<Rightarrow> if ls = [] \<and> \<not> complete then Inr [] else Inl (Suc i))"

definition load_path :: "'m line_codec \<Rightarrow> string option \<Rightarrow> nat + 'm list" where
  "load_path lc file =
     (case file of
        None \<Rightarrow> Inr []
      | Some bytes \<Rightarrow>
          load_lines (lc_de lc) (bytes = [] \<or> last bytes = nl) 0 (text_lines (lc_lossy lc bytes)))"

definition load_trace :: "'m line_codec \<Rightarrow> string option \<Rightarrow> nat + 'm list" where
  "load_trace lc file = load_path lc file"

text \<open>
  An append opens the file at its end and writes the line; \<open>written\<close> is how much of it has
  reached the file, all of it unless the process died.
\<close>

definition append_line :: "'m line_codec \<Rightarrow> 'm \<Rightarrow> nat \<Rightarrow> string option \<Rightarrow> string option" where
  "append_line lc m written file =
     Some ((case file of None \<Rightarrow> [] | Some bytes \<Rightarrow> bytes) @ take written (lc_ser lc m @ [nl]))"

definition whole :: "'m line_codec \<Rightarrow> 'm \<Rightarrow> nat" where
  "whole lc m = Suc (length (lc_ser lc m))"

definition append_all :: "'m line_codec \<Rightarrow> 'm list \<Rightarrow> string option \<Rightarrow> string option" where
  "append_all lc ms file = foldl (\<lambda>f m. append_line lc m (whole lc m) f) file ms"

text \<open>How one line of the file is read.\<close>

datatype 'm line_reading = Blank | Document 'm | Garbage

definition read_line :: "'m line_codec \<Rightarrow> string \<Rightarrow> 'm line_reading" where
  "read_line lc bytes =
     (let l = strip_cr (lc_lossy lc bytes) in
      if is_blank l then Blank else case lc_de lc l of Some m \<Rightarrow> Document m | None \<Rightarrow> Garbage)"

text \<open>
  What is relied on: a document is one line that reads back as itself, a proper part of one is
  no document, nor is a part with another document behind it; the conversion to text works
  line by line.
\<close>

definition codec_laws :: "'m line_codec \<Rightarrow> bool" where
  "codec_laws lc \<longleftrightarrow>
     (\<forall>m. nl \<notin> set (lc_ser lc m) \<and> read_line lc (lc_ser lc m) = Document m) \<and>
     (\<forall>m k. 0 < k \<and> k < length (lc_ser lc m) \<longrightarrow> read_line lc (take k (lc_ser lc m)) = Garbage) \<and>
     (\<forall>m m' k. 0 < k \<longrightarrow> read_line lc (take k (lc_ser lc m) @ lc_ser lc m') = Garbage) \<and>
     lc_lossy lc [] = [] \<and>
     (\<forall>a b. lc_lossy lc (a @ nl # b) = lc_lossy lc a @ nl # lc_lossy lc b) \<and>
     (\<forall>a. nl \<notin> set a \<longrightarrow> nl \<notin> set (lc_lossy lc a))"

lemma codec_lawsD:
  assumes "codec_laws lc"
  shows "nl \<notin> set (lc_ser lc m)" "read_line lc (lc_ser lc m) = Document m"
    "0 < k \<Longrightarrow> k < length (lc_ser lc m) \<Longrightarrow> read_line lc (take k (lc_ser lc m)) = Garbage"
    "0 < k \<Longrightarrow> read_line lc (take k (lc_ser lc m) @ lc_ser lc m') = Garbage"
  using assms by (simp_all add: codec_laws_def)

section \<open>Reading line by line\<close>

lemma raw_lines_Nil [simp]: "raw_lines [] = []"
  by (simp add: raw_lines.simps)

lemma raw_lines_nl: "nl \<notin> set a \<Longrightarrow> raw_lines (a @ nl # b) = a # raw_lines b"
  by (subst raw_lines.simps) (simp add: takeWhile_append dropWhile_append)

lemma raw_lines_last:
  assumes "nl \<notin> set a" "a \<noteq> []"
  shows "raw_lines a = [a]"
proof -
  have "dropWhile (\<lambda>c. c \<noteq> nl) a = []" "takeWhile (\<lambda>c. c \<noteq> nl) a = a" using assms(1) by auto
  with assms(2) show ?thesis unfolding raw_lines.simps [of a] by (simp del: dropWhile_eq_Nil_conv takeWhile_eq_all_conv)
qed

definition file_of :: "'m line_codec \<Rightarrow> 'm list \<Rightarrow> string" where
  "file_of lc ms = concat (map (\<lambda>m. lc_ser lc m @ [nl]) ms)"

lemma file_of_simps [simp]:
  "file_of lc [] = []" "file_of lc (m # ms) = lc_ser lc m @ nl # file_of lc ms"
  by (simp_all add: file_of_def)

lemma file_of_snoc [simp]: "file_of lc (ms @ [m]) = file_of lc ms @ lc_ser lc m @ [nl]"
  by (simp add: file_of_def)

lemma read_line_cases:
  "read_line lc a = Document m \<longleftrightarrow>
     \<not> is_blank (strip_cr (lc_lossy lc a)) \<and> lc_de lc (strip_cr (lc_lossy lc a)) = Some m"
  "read_line lc a = Garbage \<longleftrightarrow>
     \<not> is_blank (strip_cr (lc_lossy lc a)) \<and> lc_de lc (strip_cr (lc_lossy lc a)) = None"
  by (auto simp: read_line_def Let_def split: option.splits)

lemma load_file_of:
  assumes "codec_laws lc"
  shows "load_lines (lc_de lc) c i (text_lines (lc_lossy lc (file_of lc ms @ rest))) =
    bindE (load_lines (lc_de lc) c (i + length ms) (text_lines (lc_lossy lc rest))) (\<lambda>ms'. Inr (ms @ ms'))"
proof (induction ms arbitrary: i)
  case Nil
  show ?case by (simp add: bindE_def split: sum.split)
next
  case (Cons m ms)
  have doc: "\<not> is_blank (strip_cr (lc_lossy lc (lc_ser lc m)))"
      "lc_de lc (strip_cr (lc_lossy lc (lc_ser lc m))) = Some m"
    and nonl: "nl \<notin> set (lc_lossy lc (lc_ser lc m))"
    using assms read_line_cases(1) [of lc "lc_ser lc m" m] by (auto simp: codec_laws_def)
  have "lc_lossy lc (file_of lc (m # ms) @ rest) =
      lc_lossy lc (lc_ser lc m) @ nl # lc_lossy lc (file_of lc ms @ rest)"
    using assms by (simp add: codec_laws_def)
  with doc Cons.IH [of "Suc i"] show ?case
    by (simp add: text_lines_def raw_lines_nl [OF nonl] bindE_def split: sum.split)
qed

lemma load_tail:
  assumes "codec_laws lc" "nl \<notin> set a" "read_line lc a = r" "r \<noteq> Blank"
  shows "load_lines (lc_de lc) c i (text_lines (lc_lossy lc a)) =
      (case r of Document m \<Rightarrow> Inr [m] | _ \<Rightarrow> if c then Inl (Suc i) else Inr [])"
    and "load_lines (lc_de lc) c i (text_lines (lc_lossy lc (a @ nl # b))) =
      (case r of
         Document m \<Rightarrow> bindE (load_lines (lc_de lc) c (Suc i) (text_lines (lc_lossy lc b))) (\<lambda>ms. Inr (m # ms))
       | _ \<Rightarrow> if c \<or> b \<noteq> [] \<and> text_lines (lc_lossy lc b) \<noteq> [] then Inl (Suc i) else Inr [])"
proof -
  let ?l = "lc_lossy lc a"
  have n: "nl \<notin> set ?l" and ap: "lc_lossy lc (a @ nl # b) = ?l @ nl # lc_lossy lc b" and z: "lc_lossy lc [] = []"
    using assms(1,2) by (auto simp: codec_laws_def)
  from assms(3,4) have nb: "\<not> is_blank (strip_cr ?l)" by (auto simp: read_line_def Let_def split: if_splits)
  then have "?l \<noteq> []" by (auto simp: strip_cr_def)
  with nb assms(3,4) show "load_lines (lc_de lc) c i (text_lines ?l) =
      (case r of Document m \<Rightarrow> Inr [m] | _ \<Rightarrow> if c then Inl (Suc i) else Inr [])"
    by (auto simp: text_lines_def raw_lines_last [OF n] read_line_def Let_def bindE_def split: option.splits)
  show "load_lines (lc_de lc) c i (text_lines (lc_lossy lc (a @ nl # b))) =
      (case r of
         Document m \<Rightarrow> bindE (load_lines (lc_de lc) c (Suc i) (text_lines (lc_lossy lc b))) (\<lambda>ms. Inr (m # ms))
       | _ \<Rightarrow> if c \<or> b \<noteq> [] \<and> text_lines (lc_lossy lc b) \<noteq> [] then Inl (Suc i) else Inr [])"
    using nb assms(3,4) z
    by (auto simp: ap text_lines_def raw_lines_nl [OF n] read_line_def Let_def split: option.splits)
qed

lemma append_all_file: "append_all lc ms None = (if ms = [] then None else Some (file_of lc ms))"
proof (induction ms rule: rev_induct)
  case (snoc m ms)
  then show ?case by (auto simp: append_all_def append_line_def whole_def)
qed (simp add: append_all_def)

lemma last_file_of: "file_of lc ms = [] \<or> last (file_of lc ms) = nl"
  by (cases ms rule: rev_cases) simp_all

lemma load_path_file: "codec_laws lc \<Longrightarrow> load_path lc (Some (file_of lc ms)) = Inr ms"
  using load_file_of [of lc "file_of lc ms = [] \<or> last (file_of lc ms) = nl" 0 ms "[]"]
  by (simp add: load_path_def text_lines_def bindE_def codec_laws_def)

lemma load_path_torn:
  assumes "codec_laws lc" "nl \<notin> set a" "a \<noteq> []" "read_line lc a = r" "r \<noteq> Blank"
  shows "load_path lc (Some (file_of lc ms @ a)) =
    Inr (case r of Document m \<Rightarrow> ms @ [m] | _ \<Rightarrow> ms)"
proof -
  have "last (file_of lc ms @ a) \<noteq> nl" using assms(2,3) by (metis last_appendR last_in_set)
  with assms(3) load_file_of [OF assms(1), of False 0 ms a] load_tail(1) [OF assms(1,2,4,5), of False "length ms"] assms(5)
  show ?thesis by (cases r) (simp_all add: load_path_def bindE_def)
qed

lemma load_path_joined:
  assumes "codec_laws lc" "nl \<notin> set a" "read_line lc a = Garbage"
  shows "load_path lc (Some (file_of lc ms @ a @ nl # file_of lc ms')) = Inl (Suc (length ms))"
proof -
  have "last (file_of lc ms @ a @ nl # file_of lc ms') = nl" using last_file_of [of lc ms'] by auto
  with load_file_of [OF assms(1), of True 0 ms "a @ nl # file_of lc ms'"]
    load_tail(2) [OF assms(1,2,3), of True "length ms" "file_of lc ms'"]
  show ?thesis by (simp add: load_path_def bindE_def)
qed

lemma take_line: "take k (s @ [c]) = (if k \<le> length s then take k s else s @ [c])"
  by simp

section \<open>Crashes\<close>

lemma append_all_bytes: "(case append_all lc ms None of None \<Rightarrow> [] | Some b \<Rightarrow> b) = file_of lc ms"
  by (simp add: append_all_file)

lemma append_all_Cons: "append_all lc (m # ms) f = append_all lc ms (append_line lc m (whole lc m) f)"
  by (simp add: append_all_def)

lemma append_all_Some: "append_all lc ms (Some b) = Some (b @ file_of lc ms)"
  by (induction ms arbitrary: b) (simp_all add: append_all_def append_line_def whole_def)

lemma load_after_crash:
  assumes "codec_laws lc"
  shows "load_path lc (append_line lc m k (append_all lc ms None)) =
      Inr (if length (lc_ser lc m) \<le> k then ms @ [m] else ms)"
proof -
  let ?s = "lc_ser lc m"
  note laws = codec_lawsD [OF assms]
  have ne: "?s \<noteq> []"
  proof
    assume "?s = []"
    with laws(4) [of 1 m m] laws(2) [of m] show False by simp
  qed
  have written: "append_line lc m k (append_all lc ms None) = Some (file_of lc ms @ take k (?s @ [nl]))"
    by (simp add: append_all_file append_line_def)
  consider "k = 0" | "0 < k" "k < length ?s" | "k = length ?s" | "length ?s < k" by linarith
  then have "load_path lc (Some (file_of lc ms @ take k (?s @ [nl]))) =
      Inr (if length ?s \<le> k then ms @ [m] else ms)"
  proof cases
    case 1
    with ne load_path_file [OF assms] show ?thesis by simp
  next
    case 2
    then have "nl \<notin> set (take k ?s)" "take k ?s \<noteq> []" using laws(1) [of m] ne by (auto dest: in_set_takeD)
    from load_path_torn [OF assms this laws(3) [OF 2]] 2 show ?thesis by (simp add: take_line)
  next
    case 3
    with load_path_torn [OF assms laws(1) ne laws(2)] show ?thesis by (simp add: take_line)
  next
    case 4
    with load_path_file [OF assms, of "ms @ [m]"] show ?thesis by (simp add: take_line)
  qed
  then show ?thesis by (simp only: written)
qed

text \<open>
  C37: Session files survive a crash. A file made of whole appends loads as exactly the
  messages appended; when the last append was cut short anywhere, the load returns the earlier
  messages, with the last one exactly when its document is complete.
\<close>

theorem session_survives_crash:
  assumes "codec_laws lc"
  shows "load_path lc (append_all lc ms None) = Inr ms \<and>
    load_path lc (append_line lc m k (append_all lc ms None)) =
      Inr (if length (lc_ser lc m) \<le> k then ms @ [m] else ms)"
  using load_after_crash [OF assms] load_path_file [OF assms, of ms]
  by (auto simp: append_all_file load_path_def)

text \<open>
  C38: The next append destroys the session. The appender does not look at the end of the
  file: after an append cut short, the next message lands on the torn line, the line now ends
  properly and reads as nothing, and every later load of the session fails with that line,
  whatever is appended afterwards.
\<close>

theorem append_after_crash:
  assumes "codec_laws lc" and "0 < k" and "k \<le> length (lc_ser lc m)"
  shows "load_path lc (append_line lc m k (append_all lc ms None)) =
      Inr (if k = length (lc_ser lc m) then ms @ [m] else ms) \<and>
    load_path lc (append_all lc (m' # later) (append_line lc m k (append_all lc ms None))) =
      Inl (Suc (length ms))"
proof -
  let ?a = "take k (lc_ser lc m) @ lc_ser lc m'"
  have g: "read_line lc ?a = Garbage" "nl \<notin> set ?a"
    using codec_lawsD [OF assms(1)] assms(2) by (auto dest: in_set_takeD)
  have "append_all lc (m' # later) (append_line lc m k (append_all lc ms None)) =
      Some (file_of lc ms @ ?a @ nl # file_of lc later)"
    using assms(3) by (simp add: append_all_Cons append_line_def append_all_bytes append_all_Some whole_def)
  then have "load_path lc (append_all lc (m' # later) (append_line lc m k (append_all lc ms None))) =
      Inl (Suc (length ms))"
    using load_path_joined [OF assms(1) g(2,1)] by simp
  with load_after_crash [OF assms(1), of m k ms] assms(3) show ?thesis by simp
qed

definition bool_codec :: "bool line_codec" where
  "bool_codec = \<lparr>lc_ser = (\<lambda>b. if b then ''{t}'' else ''{f}''),
     lc_de = (\<lambda>l. if l = ''{t}'' then Some True else if l = ''{f}'' then Some False else None),
     lc_lossy = (\<lambda>s. s)\<rparr>"

lemma ascii_not_blank:
  assumes "s \<noteq> []" "byte (hd s) < 0x80" "\<not> ascii_ws (hd s)" "byte (last s) < 0x80" "\<not> ascii_ws (last s)"
  shows "\<not> is_blank s"
proof (rule not_blankI)
  show "ws_len s = 0" using assms(1-3) by (cases s rule: ws_len.cases) (simp_all add: ws2_def ws3_def)
  obtain c r where r: "rev s = c # r" "c = last s" using assms(1) by (metis hd_rev list.collapse rev_is_Nil_conv)
  have "ws_len_rev (c # r) = 0"
    using assms(4,5) r(2) by (cases r; cases "tl r") (auto simp: ws2_def ws3_def)
  then show "ws_len_rev (rev s) = 0" by (simp only: r(1))
qed (rule assms(1))

lemma bool_read_line:
  assumes "hd s = CHR ''{''" "last s \<in> set ''{tf}''" "s \<noteq> []"
  shows "read_line bool_codec s =
    (if s = ''{t}'' then Document True else if s = ''{f}'' then Document False else Garbage)"
proof -
  have "\<not> is_blank s" using assms by (intro ascii_not_blank) (auto simp: byte_def ascii_ws_def)
  moreover have "strip_cr s = s" using assms by (auto simp: strip_cr_def)
  ultimately show ?thesis by (simp add: read_line_def bool_codec_def)
qed

lemma bool_ser: "lc_ser bool_codec m = CHR ''{'' # (if m then ''t'' else ''f'') @ ''}''"
  by (simp add: bool_codec_def)

lemma bool_take: "0 < k \<Longrightarrow> take k (lc_ser bool_codec m) \<in>
    {''{'', CHR ''{'' # (if m then ''t'' else ''f''), lc_ser bool_codec m}"
  by (cases k; cases "k - 1"; cases "k - 2") (auto simp: bool_ser)

lemma bool_codec_laws: "codec_laws bool_codec"
proof -
  have "read_line bool_codec (take k (lc_ser bool_codec m)) = Garbage"
    if "0 < k" "k < length (lc_ser bool_codec m)" for k m
  proof -
    have "take k (lc_ser bool_codec m) \<in> {''{'', CHR ''{'' # (if m then ''t'' else ''f'')}"
      using bool_take [OF that(1), of m] that(2) by (metis insertE length_take min.absorb4 nat_less_le singletonD insertI1 insertI2)
    then show ?thesis by (auto simp: bool_read_line)
  qed
  moreover have "read_line bool_codec (take k (lc_ser bool_codec m) @ lc_ser bool_codec m') = Garbage"
    if "0 < k" for k m m'
    using bool_take [OF that, of m] by (auto simp: bool_read_line bool_ser)
  moreover have "nl \<notin> set (lc_ser bool_codec m) \<and> read_line bool_codec (lc_ser bool_codec m) = Document m" for m
    by (simp add: bool_read_line bool_ser nl_def)
  moreover have "lc_lossy bool_codec = (\<lambda>s. s)" by (simp add: bool_codec_def)
  ultimately show ?thesis by (simp add: codec_laws_def)
qed

theorem session_survives_crash_witness:
  "load_path bool_codec (append_line bool_codec True 2 (append_all bool_codec [False, True] None)) = Inr [False, True] \<and>
   append_line bool_codec True 2 (append_all bool_codec [False] None) = Some (''{f}'' @ [nl] @ ''{t'')"
  using conjunct2 [OF session_survives_crash [OF bool_codec_laws, of "[False, True]" True 2]]
  by (simp add: bool_codec_def append_all_def append_line_def whole_def numeral_2_eq_2 numeral_3_eq_3)

theorem append_after_crash_witness:
  "load_path bool_codec (append_all bool_codec [False, False] (append_line bool_codec True 2 (append_all bool_codec [True] None))) =
     Inl 2"
  using conjunct2 [OF append_after_crash [OF bool_codec_laws, of 2 True "[True]" False "[False]"]]
  by (simp add: bool_ser numeral_2_eq_2)

section \<open>Session ids\<close>

text \<open>\<open>Path::file_name() == Some(id)\<close>: one normal component.\<close>

definition plain_name :: "string \<Rightarrow> bool" where
  "plain_name n \<longleftrightarrow> n \<noteq> [] \<and> CHR ''/'' \<notin> set n \<and> n \<noteq> ''.'' \<and> n \<noteq> ''..''"

text \<open>\<open>file_stem\<close> and \<open>extension\<close>: around the last dot, unless it is the first byte.\<close>

definition split_extension :: "string \<Rightarrow> string \<times> string option" where
  "split_extension n =
     (case dropWhile (\<lambda>c. c \<noteq> CHR ''.'') (rev n) of
        [] \<Rightarrow> (n, None)
      | dot # before \<Rightarrow>
          if before = [] then (n, None)
          else (rev before, Some (rev (takeWhile (\<lambda>c. c \<noteq> CHR ''.'') (rev n)))))"

definition stem_of :: "string \<Rightarrow> string" where
  "stem_of base = fst (split_extension base)"

definition extension_of :: "string \<Rightarrow> string" where
  "extension_of base = (case snd (split_extension base) of Some e \<Rightarrow> e | None \<Rightarrow> ''jsonl'')"

definition is_session_name :: "string \<Rightarrow> string \<Rightarrow> bool" where
  "is_session_name base n \<longleftrightarrow>
     n = base \<or> starts_with n (base @ ''.bak-'') \<or>
     starts_with n (stem_of base @ ''-'') \<and> ends_with n (''.'' @ extension_of base)"

definition validate_session_id :: "string \<Rightarrow> string \<Rightarrow> bool" where
  "validate_session_id base i \<longleftrightarrow> plain_name i \<and> is_session_name base i"

definition new_session_id :: "string \<Rightarrow> nat \<Rightarrow> nat \<Rightarrow> nat \<Rightarrow> string" where
  "new_session_id base timestamp pid sequence =
     stem_of base @ ''-'' @ dec timestamp @ ''-'' @ dec pid @ ''-'' @ dec sequence @ ''.'' @ extension_of base"

text \<open>A path is its directory and its name; the base file's directory is the session directory.\<close>

definition session_path :: "string list \<Rightarrow> string \<Rightarrow> string list" where
  "session_path dir i = dir @ [i]"

definition open_session :: "(string list \<Rightarrow> bool) \<Rightarrow> string list \<Rightarrow> string \<Rightarrow> string \<Rightarrow> string \<Rightarrow> string + string list" where
  "open_session is_file dir base current i =
     (if \<not> validate_session_id base i then Inl ''invalid''
      else if \<not> is_file (session_path dir i) \<and> current \<noteq> i then Inl ''unknown''
      else Inr (session_path dir i))"

definition open_known_session :: "string list \<Rightarrow> string \<Rightarrow> string \<Rightarrow> string + string list" where
  "open_known_session dir base i =
     (if \<not> validate_session_id base i then Inl ''invalid'' else Inr (session_path dir i))"

definition trace_name :: "string \<Rightarrow> string" where
  "trace_name n = n @ ''.trace''"

definition pointer_name :: "string \<Rightarrow> string" where
  "pointer_name base = base @ ''.current''"

definition read_current_pointer ::
  "(string list \<Rightarrow> bool) \<Rightarrow> string list \<Rightarrow> string \<Rightarrow> string option \<Rightarrow> string list option" where
  "read_current_pointer is_file dir base pointer =
     Option.bind pointer (\<lambda>content.
       let i = trim content in
       if \<not> plain_name i \<or> \<not> is_session_name base i then None
       else if is_file (session_path dir i) then Some (session_path dir i) else None)"

definition session_preview :: "(string \<Rightarrow> message option) \<Rightarrow> (string \<Rightarrow> string) \<Rightarrow> string \<Rightarrow> string option" where
  "session_preview de lossy bytes =
     (case find (\<lambda>l. case de l of
            Some m \<Rightarrow> msg_role m = RUser \<and>
              (case msg_content m of Some c \<Rightarrow> join '' '' (split_whitespace c) \<noteq> [] | None \<Rightarrow> False)
          | None \<Rightarrow> False) (text_lines (lossy bytes)) of
        None \<Rightarrow> None
      | Some l \<Rightarrow>
          (case de l of
             Some m \<Rightarrow> map_option (\<lambda>c. take_chars 60 (join '' '' (split_whitespace c))) (msg_content m)
           | None \<Rightarrow> None))"

text \<open>Ids are safe file names: no path leaves the session directory, and fresh ids are accepted.\<close>

lemma open_session_inside:
  "open_session is_file dir base current i = Inr path \<Longrightarrow> path = dir @ [i] \<and> plain_name i"
  by (auto simp: open_session_def validate_session_id_def session_path_def split: if_splits)

lemma pointer_inside:
  "read_current_pointer is_file dir base pointer = Some path \<Longrightarrow>
     \<exists>i. path = dir @ [i] \<and> plain_name i \<and> is_session_name base i \<and> is_file path"
  by (auto simp: read_current_pointer_def session_path_def Let_def split: option.splits if_splits bind_splits)

lemma split_extension_set:
  "set (stem_of base) \<subseteq> set base" "set (extension_of base) \<subseteq> set base \<union> set ''jsonl''"
proof -
  have "set (dropWhile P (rev base)) \<subseteq> set base" "set (takeWhile P (rev base)) \<subseteq> set base" for P
    by (auto dest: set_dropWhileD set_takeWhileD)
  then show "set (stem_of base) \<subseteq> set base" "set (extension_of base) \<subseteq> set base \<union> set ''jsonl''"
    by (auto simp: stem_of_def extension_of_def split_extension_def split: list.splits) (metis list.set_intros(2) subsetD)
qed

lemma dec_no_slash: "CHR ''/'' \<notin> set (dec n)"
  using set_dec [of "CHR ''/''" n] by (auto simp: is_digit_def byte_def)

lemma new_session_id_valid:
  assumes "plain_name base"
  shows "validate_session_id base (new_session_id base ts pid q)"
proof -
  let ?i = "new_session_id base ts pid q"
  have "CHR ''/'' \<notin> set ?i"
    using assms split_extension_set [of base] dec_no_slash
    by (auto simp: new_session_id_def plain_name_def)
  moreover have "CHR ''-'' \<in> set ?i" by (simp add: new_session_id_def)
  then have "?i \<noteq> []" "?i \<noteq> ''.''" "?i \<noteq> ''..''" by auto
  moreover have "is_session_name base ?i"
    by (simp add: is_session_name_def new_session_id_def starts_with_def ends_with_def suffix_def)
  ultimately show ?thesis by (simp add: validate_session_id_def plain_name_def)
qed

end
