(* ===== verification/Memory.thy ===== *)
theory Memory
  imports Session "HOL-Library.Multiset" "HOL-Library.Product_Lexorder" "HOL-Library.Countable"
begin

text \<open>
  Long-term memory (\<open>src/memory.rs\<close>): entries appended to a file, and their recall by keywords
  and pairs of Chinese characters. \<open>lower\<close> is \<open>str::to_lowercase\<close>; the codec is that of
  \<open>Session\<close>, with the text of the file taken as it is (\<open>read_to_string\<close> refuses what is not
  UTF-8). The clock is \<open>None\<close> before 1970.
\<close>

section \<open>Terms\<close>

definition word_char :: "string \<Rightarrow> bool" where
  "word_char k = (case k of [c] \<Rightarrow> 48 \<le> byte c \<and> byte c \<le> 57 \<or> 65 \<le> byte c \<and> byte c \<le> 90 \<or> 97 \<le> byte c \<and> byte c \<le> 122 \<or>
     c = CHR ''_'' \<or> c = CHR ''-'' | _ \<Rightarrow> False)"

text \<open>\<open>windows(2)\<close>, each pair joined.\<close>

fun pairs :: "string list \<Rightarrow> string list" where
  "pairs (a # b # ks) = (a @ b) # pairs (b # ks)"
| "pairs ks = []"

record term_state =
  ts_output :: "string set"
  ts_ascii :: string
  ts_cjk :: "string list"

definition flush_ascii :: "term_state \<Rightarrow> term_state" where
  "flush_ascii s = (if ts_ascii s \<noteq> [] then s\<lparr>ts_output := insert (ts_ascii s) (ts_output s), ts_ascii := []\<rparr> else s)"

definition flush_cjk :: "term_state \<Rightarrow> term_state" where
  "flush_cjk s =
     s\<lparr>ts_output := (case ts_cjk s of [k] \<Rightarrow> insert k (ts_output s) | ks \<Rightarrow> ts_output s \<union> set (pairs ks)),
       ts_cjk := []\<rparr>"

definition term_step :: "term_state \<Rightarrow> string \<Rightarrow> term_state" where
  "term_step s k =
     (if word_char k then let s = flush_cjk s in s\<lparr>ts_ascii := ts_ascii s @ k\<rparr>
      else if is_cjk k then let s = flush_ascii s in s\<lparr>ts_cjk := ts_cjk s @ [k]\<rparr>
      else flush_cjk (flush_ascii s))"

definition memory_terms :: "(string \<Rightarrow> string) \<Rightarrow> string \<Rightarrow> string set" where
  "memory_terms lower t =
     ts_output (flush_cjk (flush_ascii
       (foldl term_step \<lparr>ts_output = {}, ts_ascii = [], ts_cjk = []\<rparr> (chars (lower t)))))"

section \<open>The store\<close>

record memory_entry =
  me_id :: string
  me_content :: string
  me_created :: u64
  me_expires :: "u64 option"
  me_manual :: bool

datatype memory_error = CorruptMemory nat | NotUtf8 | BadClock | MemoryDisk

text \<open>The file, and the counter of the process that numbers the entries.\<close>

record memory_store =
  ms_file :: "string option"
  ms_next :: u64

definition memory_id :: "u64 \<Rightarrow> u64 \<Rightarrow> string" where
  "memory_id now sequence = ''mem-'' @ dec (unat now) @ ''-'' @ dec (unat sequence)"

definition expiry :: "u64 \<Rightarrow> u64 \<Rightarrow> u64" where
  "expiry now days = sat_add now (sat_mul (sat_mul (sat_mul days 24) 60) 60)"

text \<open>\<open>written\<close> bytes of the line reach the file; \<open>None\<close> when it could not be opened.\<close>

definition memory_save ::
  "memory_entry line_codec \<Rightarrow> u64 option \<Rightarrow> nat option \<Rightarrow> string \<Rightarrow> u64 option \<Rightarrow> memory_store \<Rightarrow>
   (memory_error + memory_entry) \<times> memory_store" where
  "memory_save lc clock written content ttl_days s =
     (case clock of
        None \<Rightarrow> (Inl BadClock, s)
      | Some now \<Rightarrow>
          let e = \<lparr>me_id = memory_id now (ms_next s), me_content = content, me_created = now,
                   me_expires = map_option (expiry now) ttl_days, me_manual = True\<rparr>;
              s = s\<lparr>ms_next := ms_next s + 1\<rparr>
          in case written of
               None \<Rightarrow> (Inl MemoryDisk, s)
             | Some n \<Rightarrow>
                 (if whole lc e \<le> n then Inr e else Inl MemoryDisk,
                  s\<lparr>ms_file := append_line lc e n (ms_file s)\<rparr>))"

definition memory_load :: "memory_entry line_codec \<Rightarrow> string option \<Rightarrow> memory_error + memory_entry list" where
  "memory_load lc file =
     (case file of
        None \<Rightarrow> Inr []
      | Some bytes \<Rightarrow>
          (case from_utf8 bytes of
             None \<Rightarrow> Inl NotUtf8
           | Some text' \<Rightarrow>
               (case load_lines (lc_de lc) True 0 (text_lines text') of
                  Inl n \<Rightarrow> Inl (CorruptMemory n)
                | Inr es \<Rightarrow> Inr es)))"

section \<open>Recall\<close>

definition expired_at :: "u64 \<Rightarrow> memory_entry \<Rightarrow> bool" where
  "expired_at now e \<longleftrightarrow> (case me_expires e of None \<Rightarrow> False | Some t \<Rightarrow> t \<le> now)"

definition memory_score :: "(string \<Rightarrow> string) \<Rightarrow> string \<Rightarrow> memory_entry \<Rightarrow> nat" where
  "memory_score lower query e =
     card (memory_terms lower (me_content e) \<inter> memory_terms lower query) +
     (if lower query \<noteq> [] \<and> (contains (lower query) (lower (me_content e)) \<or> contains (lower (me_content e)) (lower query))
      then 100 else 0)"

text \<open>The comparison of \<open>sort_by\<close> as a key: score, manual entries and creation time, each downwards.\<close>

definition recall_key :: "(string \<Rightarrow> string) \<Rightarrow> string \<Rightarrow> memory_entry \<Rightarrow> int \<times> nat \<times> int" where
  "recall_key lower query e =
     (- int (memory_score lower query e), if me_manual e then 0 else 1, - uint (me_created e))"

definition recall_limit :: "nat \<Rightarrow> nat" where
  "recall_limit n = max 1 (min 20 n)"

definition recallable :: "(string \<Rightarrow> string) \<Rightarrow> u64 \<Rightarrow> string \<Rightarrow> memory_entry \<Rightarrow> bool" where
  "recallable lower now query e \<longleftrightarrow> \<not> expired_at now e \<and> 0 < memory_score lower query e"

definition recall ::
  "memory_entry line_codec \<Rightarrow> (string \<Rightarrow> string) \<Rightarrow> u64 option \<Rightarrow> string \<Rightarrow> nat \<Rightarrow> memory_store \<Rightarrow>
   memory_error + memory_entry list" where
  "recall lc lower clock query limit s =
     bindE (memory_load lc (ms_file s)) (\<lambda>es.
       case clock of
         None \<Rightarrow> Inl BadClock
       | Some now \<Rightarrow>
           Inr (take (recall_limit limit)
             (sort_key (recall_key lower query) (filter (recallable lower now query) es))))"

section \<open>Terms, as runs of characters\<close>

text \<open>
  The reference: the text falls into maximal runs of characters of one class; a run of word
  characters is a term, a run of Chinese characters gives its neighbouring pairs, or itself
  when it is a single one.
\<close>

definition char_class :: "string \<Rightarrow> nat" where
  "char_class k = (if word_char k then 0 else if is_cjk k then 1 else 2)"

fun runs :: "string list \<Rightarrow> string list list" where
  "runs [] = []"
| "runs (k # ks) =
     (k # takeWhile (\<lambda>j. char_class j = char_class k) ks) # runs (dropWhile (\<lambda>j. char_class j = char_class k) ks)"

definition run_terms :: "string list \<Rightarrow> string set" where
  "run_terms r =
     (if char_class (hd r) = 0 then {concat r}
      else if char_class (hd r) = 1 then (case r of [k] \<Rightarrow> {k} | _ \<Rightarrow> set (pairs r))
      else {})"

definition flush_all :: "term_state \<Rightarrow> term_state" where
  "flush_all s = flush_cjk (flush_ascii s)"

definition clean :: "string set \<Rightarrow> term_state" where
  "clean out = \<lparr>ts_output = out, ts_ascii = [], ts_cjk = []\<rparr>"

text \<open>A state in the middle of a run, whose buffer is of one class.\<close>

definition within :: "nat \<Rightarrow> string set \<Rightarrow> string list \<Rightarrow> term_state" where
  "within cl out r =
     \<lparr>ts_output = out, ts_ascii = (if cl = 0 then concat r else []), ts_cjk = (if cl = 1 then r else [])\<rparr>"

lemma class_cases: "char_class k = 0 \<or> char_class k = 1 \<or> char_class k = 2"
  by (simp add: char_class_def)

lemma step_within: "term_step (within (char_class k) out r) k = within (char_class k) out (r @ [k])"
  by (auto simp: term_step_def within_def char_class_def flush_cjk_def flush_ascii_def)

lemma run_within:
  "list_all (\<lambda>k. char_class k = cl) ks \<Longrightarrow> foldl term_step (within cl out r) ks = within cl out (r @ ks)"
  by (induction ks arbitrary: r) (auto simp: step_within)

lemma step_change: "char_class k \<noteq> cl \<Longrightarrow> term_step (within cl out r) k = term_step (flush_all (within cl out r)) k"
  by (auto simp: term_step_def within_def char_class_def flush_all_def flush_cjk_def flush_ascii_def split: if_splits)

lemma clean_within: "clean out = within cl out []"
  by (simp add: clean_def within_def)

lemma flush_within: "r \<noteq> [] \<Longrightarrow> char_class (hd r) = cl \<Longrightarrow> flush_all (within cl out r) = clean (out \<union> run_terms r)"
proof -
  assume r: "r \<noteq> []" "char_class (hd r) = cl"
  have "concat r \<noteq> []" if "cl = 0"
    using r that by (cases r) (auto simp: char_class_def word_char_def split: list.splits if_splits)
  with r class_cases [of "hd r"] show ?thesis
    by (auto simp: flush_all_def within_def clean_def run_terms_def flush_ascii_def flush_cjk_def split: list.split)
qed

lemma fold_runs: "ts_output (flush_all (foldl term_step (clean out) ks)) = out \<union> \<Union> (run_terms ` set (runs ks))"
proof (induction ks arbitrary: out rule: runs.induct)
  case 1
  show ?case by (simp add: clean_def flush_all_def flush_ascii_def flush_cjk_def)
next
  case (2 k ks)
  let ?cl = "char_class k" and ?same = "\<lambda>j. char_class j = char_class k"
  let ?r = "k # takeWhile ?same ks" and ?rest = "dropWhile ?same ks"
  have "list_all ?same ?r" by (auto simp: list_all_iff dest: set_takeWhileD)
  from run_within [OF this, of out "[]"] have run: "foldl term_step (clean out) ?r = within ?cl out ?r"
    by (simp add: clean_within [of out ?cl])
  have flush: "flush_all (within ?cl out ?r) = clean (out \<union> run_terms ?r)" by (rule flush_within) simp_all
  have "flush_all (foldl term_step (within ?cl out ?r) ?rest) = flush_all (foldl term_step (clean (out \<union> run_terms ?r)) ?rest)"
  proof (cases ?rest)
    case Nil
    then show ?thesis unfolding Nil foldl_Nil flush [symmetric]
      by (simp add: flush_all_def flush_ascii_def flush_cjk_def)
  next
    case (Cons j js)
    then have "char_class j \<noteq> ?cl" using hd_dropWhile [of ?same ks] by auto
    then show ?thesis unfolding Cons foldl_Cons by (simp add: step_change flush)
  qed
  moreover have "foldl term_step (clean out) (k # ks) = foldl term_step (within ?cl out ?r) ?rest"
    using run by (metis append_Cons foldl_append takeWhile_dropWhile_id)
  ultimately show ?case using 2 [of "out \<union> run_terms ?r"] by (simp add: Un_assoc)
qed

text \<open>
  The keywords found while scanning a text once, with two buffers, are those of its maximal
  runs: the runs of ASCII word characters and the neighbouring pairs of each run of Chinese
  characters. No pair joins characters of different runs.
\<close>

theorem terms_are_runs: "memory_terms lower t = \<Union> (run_terms ` set (runs (chars (lower t))))"
  using fold_runs [of "{}" "chars (lower t)"] by (simp add: memory_terms_def flush_all_def clean_def)

section \<open>What is recalled\<close>

text \<open>
  A recall returns the best of what can be recalled: no expired entry and none without a
  common keyword or text, in the order of their rank, and every entry left out although it
  could be recalled ranks no higher than every one returned; nothing is left out before the
  limit, which is between 1 and 20, is reached.
\<close>

theorem recall_is_best:
  assumes "memory_load lc (ms_file s) = Inr es"
  shows "\<exists>rs rest. recall lc lower (Some now) query limit s = Inr rs \<and>
    mset rs + mset rest = filter_mset (recallable lower now query) (mset es) \<and>
    sorted (map (recall_key lower query) (rs @ rest)) \<and>
    length rs = min (recall_limit limit) (length rs + length rest)"
proof -
  let ?sorted = "sort_key (recall_key lower query) (filter (recallable lower now query) es)"
  let ?n = "recall_limit limit"
  have "mset (take ?n ?sorted) + mset (drop ?n ?sorted) = filter_mset (recallable lower now query) (mset es)"
    by (metis append_take_drop_id mset_append mset_filter mset_sort)
  moreover have "recall lc lower (Some now) query limit s = Inr (take ?n ?sorted)"
    by (simp add: recall_def assms)
  moreover have "sorted (map (recall_key lower query) (take ?n ?sorted @ drop ?n ?sorted))"
    by (simp only: append_take_drop_id sorted_sort_key)
  moreover have "length (take ?n ?sorted) = min ?n (length (take ?n ?sorted) + length (drop ?n ?sorted))"
    by simp
  ultimately show ?thesis by blast
qed

section \<open>What is saved\<close>

lemma utf8_append: "utf8_bytes_ok a \<Longrightarrow> utf8_bytes_ok (a @ b) = utf8_bytes_ok b"
proof (induction a rule: utf8_bytes_ok.induct)
  case (2 a s)
  show ?case
  proof (cases "a < 0x80")
    case True
    with 2 show ?thesis by simp
  next
    case big: False
    then obtain b1 s1 where s: "s = b1 # s1" using 2(5) by (cases s) simp_all
    show ?thesis
    proof (cases "0xC2 \<le> a \<and> a \<le> 0xDF")
      case True
      with 2(2,5) big s show ?thesis by simp
    next
      case two: False
      then obtain c s2 where s1: "s1 = c # s2" using two 2(5) big s by (cases s1) (auto split: if_splits)
      show ?thesis
      proof (cases "0xE0 \<le> a \<and> a \<le> 0xEF")
        case True
        with 2(3,5) big two s s1 show ?thesis by auto
      next
        case three: False
        then obtain d s3 where "s2 = d # s3" using 2(5) big two three s s1 by (cases s2) (auto split: if_splits)
        with 2(4,5) big two three s s1 show ?thesis by (auto split: if_splits)
      qed
    qed
  qed
qed simp

definition text_codec :: "'m line_codec \<Rightarrow> bool" where
  "text_codec lc \<longleftrightarrow> codec_laws lc \<and> lc_lossy lc = id \<and> (\<forall>m. utf8_bytes_ok (map byte (lc_ser lc m)))"

lemma file_of_utf8: "text_codec lc \<Longrightarrow> utf8_bytes_ok (map byte (file_of lc es @ b)) = utf8_bytes_ok (map byte b)"
  by (induction es) (auto simp: text_codec_def utf8_append nl_def byte_def)

lemma load_whole:
  assumes "text_codec lc"
  shows "memory_load lc (Some (file_of lc es)) = Inr es"
proof -
  have "load_lines (lc_de lc) True 0 (text_lines (file_of lc es)) = Inr es"
    using load_file_of [of lc True 0 es "[]"] assms by (simp add: text_codec_def text_lines_def bindE_def)
  moreover have "utf8_bytes_ok (map byte (file_of lc es))" using file_of_utf8 [OF assms, of es "[]"] by simp
  ultimately show ?thesis by (simp add: memory_load_def from_utf8_def)
qed

lemma load_part:
  assumes "text_codec lc" "0 < n" "n < length (lc_ser lc e)"
  shows "\<exists>err. memory_load lc (Some (file_of lc es @ take n (lc_ser lc e))) = Inl err"
proof -
  let ?a = "take n (lc_ser lc e)"
  have laws: "codec_laws lc" "lc_lossy lc = id" using assms(1) by (simp_all add: text_codec_def)
  have a: "nl \<notin> set ?a" "read_line lc ?a = Garbage"
    using codec_lawsD(1,3) [OF laws(1)] assms(2,3) by (auto dest: in_set_takeD)
  have "load_lines (lc_de lc) True 0 (text_lines (file_of lc es @ ?a)) = Inl (Suc (length es))"
    using load_file_of [OF laws(1), of True 0 es ?a] load_tail(1) [OF laws(1) a, where c = True and i = "length es"] laws(2)
    by simp
  then show ?thesis by (simp add: memory_load_def from_utf8_def)
qed

text \<open>
  A save that says it succeeded is in the file for every later load, behind all earlier
  entries. A save that died in the middle of its line, on the other hand, leaves a file that
  can no longer be loaded at all.
\<close>

theorem memory_save_durable:
  assumes "text_codec lc" "(case ms_file s of None \<Rightarrow> [] | Some bytes \<Rightarrow> bytes) = file_of lc es"
  shows "case memory_save lc (Some now) (Some n) content ttl s of
      (Inr e, s') \<Rightarrow> memory_load lc (ms_file s') = Inr (es @ [e]) \<and> me_content e = content
    | (Inl err, s') \<Rightarrow>
        memory_load lc (ms_file s') \<in> {Inr es} \<union> {Inr (es @ [e]) | e. me_content e = content} \<union> range Inl"
proof -
  define e where "e = \<lparr>me_id = memory_id now (ms_next s), me_content = content, me_created = now,
                   me_expires = map_option (expiry now) ttl, me_manual = True\<rparr>"
  have r: "memory_save lc (Some now) (Some n) content ttl s =
      (if whole lc e \<le> n then Inr e else Inl MemoryDisk,
       s\<lparr>ms_next := ms_next s + 1, ms_file := Some (file_of lc es @ take n (lc_ser lc e @ [nl]))\<rparr>)"
    by (simp add: memory_save_def e_def Let_def append_line_def assms(2))
  have c: "me_content e = content" by (simp add: e_def)
  consider "whole lc e \<le> n" | "n = length (lc_ser lc e)" | "n = 0" | "0 < n" "n < length (lc_ser lc e)"
    by (auto simp: whole_def) linarith
  then show ?thesis
  proof cases
    case 1
    then have "file_of lc es @ take n (lc_ser lc e @ [nl]) = file_of lc (es @ [e])" by (simp add: whole_def)
    with load_whole [OF assms(1), of "es @ [e]"] r 1 c show ?thesis by simp
  next
    case 2
    have laws: "codec_laws lc" "lc_lossy lc = id" using assms(1) by (simp_all add: text_codec_def)
    have "load_lines (lc_de lc) True 0 (text_lines (file_of lc es @ lc_ser lc e)) = Inr (es @ [e])"
      using load_file_of [OF laws(1), of True 0 es "lc_ser lc e"] laws(2)
        load_tail(1) [OF laws(1) codec_lawsD(1,2) [OF laws(1)], where c = True and i = "length es"] by (simp add: bindE_def)
    moreover have "utf8_bytes_ok (map byte (file_of lc es @ lc_ser lc e))"
      using file_of_utf8 [OF assms(1)] assms(1) by (simp add: text_codec_def)
    ultimately show ?thesis using r 2 c by (auto simp: memory_load_def from_utf8_def whole_def)
  next
    case 3
    with load_whole [OF assms(1), of es] r show ?thesis by (simp add: whole_def)
  next
    case 4
    with load_part [OF assms(1) 4, of es] r show ?thesis by (auto simp: whole_def)
  qed
qed

section \<open>A concrete codec\<close>

text \<open>An entry as the number of its fields, between braces.\<close>

definition entry_number :: "memory_entry \<Rightarrow> nat" where
  "entry_number e = to_nat (me_id e, me_content e, unat (me_created e), map_option unat (me_expires e), me_manual e)"

definition numbered_entry :: "nat \<Rightarrow> memory_entry" where
  "numbered_entry n = (case from_nat n of (i, c, t, x, m) \<Rightarrow>
     \<lparr>me_id = i, me_content = c, me_created = of_nat t, me_expires = map_option of_nat x, me_manual = m\<rparr>)"

lemma numbered_entry_number [simp]: "numbered_entry (entry_number e) = e"
  by (cases e; cases "me_expires e") (simp_all add: numbered_entry_def entry_number_def)

definition braced_number :: "string \<Rightarrow> nat option" where
  "braced_number l = (case l of
     c # r \<Rightarrow> if c = CHR ''{'' \<and> r \<noteq> [] \<and> last r = CHR ''}'' then parse_digits (butlast r) else None
   | [] \<Rightarrow> None)"

definition entry_codec :: "memory_entry line_codec" where
  "entry_codec = \<lparr>lc_ser = (\<lambda>e. CHR ''{'' # dec (entry_number e) @ ''}''),
     lc_de = (\<lambda>l. map_option numbered_entry (braced_number l)), lc_lossy = id\<rparr>"

definition code_char :: "char \<Rightarrow> bool" where
  "code_char c \<longleftrightarrow> is_digit c \<or> c = CHR ''{'' \<or> c = CHR ''}''"

lemma code_char_ascii: "code_char c \<Longrightarrow> byte c < 0x80 \<and> \<not> ascii_ws c \<and> c \<noteq> CHR 0x0D \<and> c \<noteq> nl"
  by (auto simp: code_char_def is_digit_def ascii_ws_def nl_def byte_def)

lemma parse_digits_digits: "parse_digits s = Some n \<Longrightarrow> list_all is_digit s"
proof -
  have "digits_val a s = Some n \<Longrightarrow> list_all is_digit s" for a
    by (induction s arbitrary: a) (auto split: if_splits)
  then show "parse_digits s = Some n \<Longrightarrow> list_all is_digit s" by (simp add: parse_digits_def split: if_splits)
qed

lemma read_code:
  assumes "s \<noteq> []" "list_all code_char s"
  shows "read_line entry_codec s = (case braced_number s of None \<Rightarrow> Garbage | Some n \<Rightarrow> Document (numbered_entry n))"
proof -
  have "code_char (hd s)" "code_char (last s)" using assms by (simp_all add: list_all_iff)
  then have "\<not> is_blank s" "strip_cr s = s"
    using code_char_ascii assms(1) ascii_not_blank by (auto simp: strip_cr_def)
  then show ?thesis by (simp add: read_line_def entry_codec_def split: option.split)
qed

lemma code_ser: "list_all code_char (lc_ser entry_codec e)"
  by (auto simp: entry_codec_def code_char_def list_all_iff dest: set_dec)

lemma code_take: "list_all code_char (take k (lc_ser entry_codec e))"
  using code_ser [of e] by (auto simp: list_all_iff dest: in_set_takeD)

lemma entry_codec_ok: "text_codec entry_codec"
proof -
  let ?ser = "lc_ser entry_codec"
  have whole: "read_line entry_codec (?ser e) = Document e" for e
    using read_code [of "?ser e"] code_ser [of e]
    by (simp add: entry_codec_def braced_number_def butlast_append)
  have part: "read_line entry_codec (take k (?ser e)) = Garbage" if k: "0 < k" "k < length (?ser e)" for k e
  proof -
    from k obtain j where j: "k = Suc j" "j \<le> length (dec (entry_number e))"
      by (cases k) (auto simp: entry_codec_def)
    then have t: "take k (?ser e) = CHR ''{'' # take j (dec (entry_number e))" by (simp add: entry_codec_def)
    have "last (take j (dec (entry_number e))) \<noteq> CHR ''}''" if "take j (dec (entry_number e)) \<noteq> []"
      using last_in_set [OF that] by (auto dest!: in_set_takeD set_dec simp: is_digit_def byte_def)
    then have "braced_number (take k (?ser e)) = None" by (auto simp: t braced_number_def)
    with read_code [OF _ code_take, of k e] k(1) show ?thesis by (simp add: t)
  qed
  have joined: "read_line entry_codec (take k (?ser e) @ ?ser e') = Garbage" if k: "0 < k" for k e e'
  proof -
    from k obtain j where j: "k = Suc j" by (cases k) auto
    let ?a = "take k (?ser e) @ ?ser e'"
    let ?r = "take j (dec (entry_number e) @ ''}'') @ ?ser e'"
    have a: "?a = CHR ''{'' # ?r" by (simp add: j entry_codec_def)
    have "CHR ''{'' \<in> set (butlast ?r)" by (simp add: butlast_append) (simp add: entry_codec_def)
    then have "parse_digits (butlast ?r) = None"
      using parse_digits_digits [of "butlast ?r"]
      by (cases "parse_digits (butlast ?r)") (auto simp: list_all_iff is_digit_def byte_def)
    then have "braced_number ?a = None" unfolding a by (simp add: braced_number_def)
    moreover have "list_all code_char ?a" using code_take [of k e] code_ser [of e'] by simp
    ultimately show ?thesis using read_code [of ?a] by (simp add: a)
  qed
  have "nl \<notin> set (?ser e)" for e using code_ser [of e] code_char_ascii by (auto simp: list_all_iff)
  moreover have "utf8_bytes_ok (map byte s)" if "list_all code_char s" for s
    using that code_char_ascii by (induction s) auto
  then have "utf8_bytes_ok (map byte (?ser e))" for e using code_ser by blast
  moreover have "lc_lossy entry_codec = id" by (simp add: entry_codec_def)
  ultimately show ?thesis using whole part joined by (simp add: text_codec_def codec_laws_def)
qed

lemma memory_save_durable_witness:
  "case memory_save entry_codec (Some 100) (Some 100) ''tea'' None \<lparr>ms_file = None, ms_next = 0\<rparr> of
      (Inr e, s') \<Rightarrow> memory_load entry_codec (ms_file s') = Inr ([] @ [e]) \<and> me_content e = ''tea''
    | (Inl err, s') \<Rightarrow>
        memory_load entry_codec (ms_file s') \<in> {Inr []} \<union> {Inr ([] @ [e]) | e. me_content e = ''tea''} \<union> range Inl"
  by (rule memory_save_durable [OF entry_codec_ok]) simp

definition note_codec :: "memory_entry line_codec" where
  "note_codec = \<lparr>lc_ser = me_content, lc_de = (\<lambda>l. Some \<lparr>me_id = l, me_content = l, me_created = 5, me_expires = None, me_manual = True\<rparr>),
     lc_lossy = id\<rparr>"

lemma recall_is_best_witness:
  "\<exists>rs rest. recall note_codec id (Some 100) ''rust tea'' 1 \<lparr>ms_file = Some ''rust'', ms_next = 0\<rparr> = Inr rs \<and>
    mset rs + mset rest = filter_mset (recallable id 100 ''rust tea'')
      (mset [\<lparr>me_id = ''rust'', me_content = ''rust'', me_created = 5, me_expires = None, me_manual = True\<rparr>]) \<and>
    sorted (map (recall_key id ''rust tea'') (rs @ rest)) \<and> length rs = min (recall_limit 1) (length rs + length rest)"
  by (rule recall_is_best) code_simp

end
