(* ===== verification/Slash.thy ===== *)
theory Slash
  imports Text_Words
begin

text \<open>
  Slash commands (\<open>src/slash.rs\<close>): the table of built-in commands, how a line is parsed
  against it, completion and the help text.
\<close>

section \<open>The table\<close>

datatype slash_action =
    SlashHelp | SlashStatus | SlashRun | SlashSubagents | SlashSubagent | SlashSubagentWait | SlashSubagentCancel
  | SlashSessions | SlashResume | SlashNew | SlashCancel | SlashExit | SlashPing | SlashSkill | SlashCron | SlashMcp
  | SlashPermissions | SlashModels | SlashDogfood | SlashWeb

datatype arg_spec = ArgNone | OptionalOne string | AtLeastOne string

record slash_command =
  sc_name :: string
  sc_aliases :: "string list"
  sc_help :: string
  sc_usage :: string
  sc_args :: arg_spec
  sc_action :: slash_action

definition command_row :: "string \<Rightarrow> string list \<Rightarrow> string \<Rightarrow> string \<Rightarrow> arg_spec \<Rightarrow> slash_action \<Rightarrow> slash_command" where
  "command_row n al h u a act =
     \<lparr>sc_name = n, sc_aliases = al, sc_help = h, sc_usage = u, sc_args = a, sc_action = act\<rparr>"

definition slash_commands :: "slash_command list" where
  "slash_commands = [
    command_row ''help'' [] (utf8 [26597, 30475, 21629, 20196])
      (''/help'') (ArgNone) SlashHelp,
    command_row ''status'' [] (utf8 [26597, 30475, 24403, 21069, 20250, 35805, 29366, 24577])
      (''/status'') (ArgNone) SlashStatus,
    command_row ''run'' [] (utf8 [35835, 21462] @ '' daemon '' @ utf8 [20013, 30340] @ '' Run '' @ utf8 [29366, 24577, 19982, 32456, 24577])
      (''/run <run_id>'') (AtLeastOne (''run ID'')) SlashRun,
    command_row ''subagents'' [] (utf8 [21015, 20986] @ '' root run '' @ utf8 [30340, 23376] @ '' Agent'')
      (''/subagents <root_run_id>'') (AtLeastOne (''root run ID'')) SlashSubagents,
    command_row ''subagent'' [] (utf8 [35835, 21462, 25351, 23450, 23376] @ '' Agent'')
      (''/subagent <parent_run_id> <child_run_id>'') (AtLeastOne (utf8 [29238, 21644, 23376] @ '' run ID'')) SlashSubagent,
    command_row ''subagent-wait'' [] (utf8 [31561, 24453, 23376] @ '' Agent '' @ utf8 [32456, 24577])
      (''/subagent-wait <parent_run_id> <child_run_id> [timeout_ms]'') (AtLeastOne (utf8 [29238, 21644, 23376] @ '' run ID'')) SlashSubagentWait,
    command_row ''subagent-cancel'' [] (utf8 [21462, 28040, 25351, 23450, 23376] @ '' Agent'')
      (''/subagent-cancel <parent_run_id> <child_run_id>'') (AtLeastOne (utf8 [29238, 21644, 23376] @ '' run ID'')) SlashSubagentCancel,
    command_row ''sessions'' [] (utf8 [21015, 20986, 20250, 35805, 25991, 20214])
      (''/sessions'') (ArgNone) SlashSessions,
    command_row ''resume'' [] (utf8 [21015, 20986, 25110, 24674, 22797, 21382, 21490, 20250, 35805])
      (''/resume ['' @ utf8 [32534, 21495] @ ''|ID]'') (OptionalOne (utf8 [32534, 21495, 25110] @ '' session ID'')) SlashResume,
    command_row ''new'' [] (utf8 [26032, 24314, 31354, 30333, 20250, 35805])
      (''/new'') (ArgNone) SlashNew,
    command_row ''cancel'' [] (utf8 [25552, 31034, 22914, 20309, 21462, 28040, 21069, 21488, 35831, 27714])
      (''/cancel'') (ArgNone) SlashCancel,
    command_row ''skill'' [] (utf8 [31649, 29702, 26412, 22320, 29256, 26412, 21270] @ '' skill'' @ utf8 [65288] @ ''list/install/update/remove'' @ utf8 [65289])
      (''/skill <'' @ utf8 [23376, 21629, 20196] @ ''> [...]'') (AtLeastOne (utf8 [23376, 21629, 20196])) SlashSkill,
    command_row ''cron'' [] (utf8 [31649, 29702, 23450, 26102, 20219, 21153, 65288] @ ''list/add/enable/disable/run-now/remove'' @ utf8 [65289])
      (''/cron <'' @ utf8 [23376, 21629, 20196] @ ''> [...]'') (AtLeastOne (utf8 [23376, 21629, 20196])) SlashCron,
    command_row ''mcp'' [] (utf8 [26597, 30475, 25110, 37325, 36733] @ '' MCP server'' @ utf8 [65288] @ ''list/status/reload'' @ utf8 [65289])
      (''/mcp <list|status|reload>'') (AtLeastOne (utf8 [23376, 21629, 20196])) SlashMcp,
    command_row ''permissions'' [''permission'', ''mode''] (utf8 [26597, 30475, 25110, 20999, 25442] @ '' Agent '' @ utf8 [26435, 38480, 27169, 24335, 65288] @ ''request/risk/full'' @ utf8 [65289])
      (''/permissions [request|risk|full]'') (OptionalOne (''request'' @ utf8 [12289] @ ''risk '' @ utf8 [25110] @ '' full'')) SlashPermissions,
    command_row ''models'' [''model''] (utf8 [21015, 20986, 25110, 20999, 25442, 24050, 20445, 23384, 30340, 27169, 22411, 37197, 32622])
      (''/models ['' @ utf8 [32534, 21495] @ ''|ID]'') (OptionalOne (utf8 [32534, 21495, 25110, 27169, 22411, 37197, 32622] @ '' ID'')) SlashModels,
    command_row ''ping'' [] (utf8 [26816, 26597, 21629, 20196, 27880, 20876, 34920, 19982] @ '' daemon '' @ utf8 [36830, 36890, 24615])
      (''/ping'') (ArgNone) SlashPing,
    command_row ''dogfood'' [] (utf8 [23548, 20986, 24403, 21069] @ '' session '' @ utf8 [30340, 23436, 25972, 23545, 35805, 19982, 38142, 36335, 26085, 24535])
      (''/dogfood'') (ArgNone) SlashDogfood,
    command_row ''web'' [] (utf8 [21551, 21160, 25110, 25171, 24320, 26412, 22320] @ '' Web '' @ utf8 [25511, 21046, 21488])
      (''/web'') (ArgNone) SlashWeb,
    command_row ''exit'' [''quit''] (utf8 [26029, 24320, 24182, 36864, 20986, 24403, 21069, 20132, 20114, 20837, 21475])
      (''/exit'') (ArgNone) SlashExit
  ]"

section \<open>Parsing\<close>

datatype slash_parsed = NotCommand | SlashCommand slash_action "string list" | SlashError string

definition answers_to :: "string \<Rightarrow> slash_command \<Rightarrow> bool" where
  "answers_to n c \<longleftrightarrow> sc_name c = n \<or> n \<in> set (sc_aliases c)"

definition args_fit :: "arg_spec \<Rightarrow> string list \<Rightarrow> bool" where
  "args_fit a args =
     (case a of ArgNone \<Rightarrow> args = [] | OptionalOne l \<Rightarrow> length args \<le> 1 | AtLeastOne l \<Rightarrow> args \<noteq> [])"

definition args_detail :: "arg_spec \<Rightarrow> string" where
  "args_detail a =
     (case a of
        ArgNone \<Rightarrow> utf8 [19981, 25509, 21463, 21442, 25968]
      | OptionalOne l \<Rightarrow> utf8 [26368, 22810, 25509, 21463, 19968, 20010, 21442, 25968, 65306] @ l
      | AtLeastOne l \<Rightarrow> utf8 [33267, 23569, 38656, 35201, 19968, 20010, 21442, 25968, 65306] @ l)"

definition msg_unknown_command :: "string \<Rightarrow> string" where
  "msg_unknown_command n = utf8 [26410, 30693, 21629, 20196, 65306, 47] @ n @
     utf8 [12290, 36755, 20837, 32, 47, 104, 101, 108, 112, 32, 26597, 30475, 21629, 20196, 12290]"

definition msg_usage :: "slash_command \<Rightarrow> string" where
  "msg_usage c = utf8 [21629, 20196, 32, 47] @ sc_name c @ utf8 [32, 21442, 25968, 38169, 35823, 65306] @
     args_detail (sc_args c) @ utf8 [12290, 29992, 27861, 65306] @ sc_usage c"

definition slash_parse :: "string \<Rightarrow> slash_parsed" where
  "slash_parse line =
     (case trim line of
        [] \<Rightarrow> NotCommand
      | h # rest \<Rightarrow>
          if h \<noteq> CHR ''/'' then NotCommand
          else
            let words = split_whitespace rest;
                name = (case words of [] \<Rightarrow> [] | w # ws \<Rightarrow> to_ascii_lowercase w);
                args = tl words
            in case find (answers_to name) slash_commands of
                 None \<Rightarrow> SlashError (msg_unknown_command name)
               | Some c \<Rightarrow> if args_fit (sc_args c) args then SlashCommand (sc_action c) args else SlashError (msg_usage c))"

text \<open>\<open>chars().any(char::is_whitespace)\<close>\<close>

definition has_space :: "string \<Rightarrow> bool" where
  "has_space s \<longleftrightarrow> list_ex (\<lambda>i. 0 < ws_len (drop i s)) [0..<length s]"

definition suggestions :: "string \<Rightarrow> slash_command list" where
  "suggestions line =
     (case trim_start line of
        [] \<Rightarrow> []
      | h # query \<Rightarrow>
          if h \<noteq> CHR ''/'' \<or> has_space query then []
          else let q = to_ascii_lowercase query in
            filter (\<lambda>c. prefix q (sc_name c) \<or> list_ex (prefix q) (sc_aliases c)) slash_commands)"

definition completion :: "slash_command \<Rightarrow> string" where
  "completion c = CHR ''/'' # sc_name c"

definition matches_exact :: "slash_command \<Rightarrow> string \<Rightarrow> bool" where
  "matches_exact c line =
     (case trim line of
        h # name \<Rightarrow> h = CHR ''/'' \<and> (to_ascii_lowercase (sc_name c) = to_ascii_lowercase name \<or>
          list_ex (\<lambda>a. to_ascii_lowercase a = to_ascii_lowercase name) (sc_aliases c))
      | [] \<Rightarrow> False)"

text \<open>The usage texts padded to one width (\<open>{:<width$}\<close> counts characters).\<close>

definition help_width :: nat where
  "help_width = Max (set (0 # map (\<lambda>c. char_count (sc_usage c)) slash_commands)) + 2"

definition help_line :: "slash_command \<Rightarrow> string" where
  "help_line c =
     sc_usage c @ replicate (help_width - char_count (sc_usage c)) CHR '' '' @ sc_help c @
     (if sc_aliases c = [] then []
      else utf8 [65288, 21035, 21517, 65306, 47] @ join (utf8 [12289, 47]) (sc_aliases c) @ utf8 [65289])"

definition slash_help :: string where
  "slash_help = join [CHR 0x0A] (map help_line slash_commands)"

section \<open>Every command can be entered\<close>

lemma names_distinct: "distinct (concat (map (\<lambda>c. sc_name c # sc_aliases c) slash_commands))"
  by (simp add: slash_commands_def command_row_def)

lemma name_list: "map sc_name slash_commands =
  [''help'', ''status'', ''run'', ''subagents'', ''subagent'', ''subagent-wait'', ''subagent-cancel'', ''sessions'', ''resume'', ''new'',
   ''cancel'', ''skill'', ''cron'', ''mcp'', ''permissions'', ''models'', ''ping'', ''dogfood'', ''web'', ''exit'']"
  by (simp add: slash_commands_def command_row_def)

lemma names_plain: "list_all (\<lambda>n. split_whitespace n = [n] \<and> to_ascii_lowercase n = n) (map sc_name slash_commands)"
  unfolding name_list by code_simp

lemma find_command:
  assumes "c \<in> set cs" "distinct (concat (map (\<lambda>c. sc_name c # sc_aliases c) cs))" "answers_to n c"
  shows "find (answers_to n) cs = Some c"
  using assms
proof (induction cs)
  case (Cons d cs)
  show ?case
  proof (cases "answers_to n d")
    case True
    have "d = c"
    proof (rule ccontr)
      assume "d \<noteq> c"
      with Cons.prems(1) have "c \<in> set cs" by simp
      moreover have "n \<in> set (sc_name c # sc_aliases c)" "n \<in> set (sc_name d # sc_aliases d)"
        using True Cons.prems(3) by (auto simp: answers_to_def)
      ultimately show False using Cons.prems(2) by auto
    qed
    with True show ?thesis by simp
  next
    case False
    with Cons show ?thesis by auto
  qed
qed simp

lemma ws_len_rev_seam: "s \<noteq> [] \<Longrightarrow> byte c < 0x80 \<Longrightarrow> ws_len_rev (s @ c # t) = ws_len_rev s"
  by (cases s rule: ws_len_rev.cases; cases t) (auto simp: ws2_def ws3_def)

lemma word_end: "word_text w \<Longrightarrow> ws_len_rev (rev w) = 0"
proof -
  assume w: "word_text w"
  then have at: "ws_len (drop i w) = 0" if "i < length w" for i using that by (simp add: word_text_def)
  show ?thesis
  proof (cases "rev w" rule: ws_len_rev.cases)
    case (1 c b a s)
    then have "w = rev s @ [a, b, c]" by (metis rev_rev_ident rev.simps append.assoc append_Cons append_Nil)
    with at [of "length s"] at [of "Suc (length s)"] at [of "Suc (Suc (length s))"] 1 show ?thesis
      by (auto split: if_splits)
  next
    case (2 c b)
    then have "w = [b, c]" by (metis rev_rev_ident rev.simps append.assoc append_Cons append_Nil)
    with at [of 0] at [of 1] 2 show ?thesis by (auto split: if_splits)
  next
    case (3 c)
    then have "w = [c]" by (metis rev_rev_ident rev.simps append_Nil)
    with at [of 0] 3 show ?thesis by (auto split: if_splits)
  qed simp
qed

lemma words_end:
  "ws \<noteq> [] \<Longrightarrow> \<forall>w \<in> set ws. word_text w \<Longrightarrow> ws_len_rev (rev (join '' '' ws)) = 0"
proof (induction ws)
  case (Cons w ws)
  show ?case
  proof (cases "ws = []")
    case True
    with Cons.prems word_end show ?thesis by simp
  next
    case False
    then have "join '' '' ws \<noteq> []" using Cons.prems(2) by (cases ws) (auto simp: join_Cons word_text_def)
    with False Cons show ?thesis by (simp add: join_Cons ws_len_rev_seam)
  qed
qed simp

lemma parse_words:
  assumes "c \<in> set slash_commands" "answers_to (to_ascii_lowercase w) c" "\<forall>v \<in> set (w # args). word_text v"
  shows "slash_parse (CHR ''/'' # join '' '' (w # args)) =
    (if args_fit (sc_args c) args then SlashCommand (sc_action c) args else SlashError (msg_usage c))"
proof -
  let ?t = "join '' '' (w # args)"
  have "?t \<noteq> []" using assms(3) by (auto simp: join_Cons word_text_def)
  then have "ws_len_rev (rev ?t @ [CHR ''/'']) = ws_len_rev (rev ?t)"
    using ws_len_rev_seam [of "rev ?t" "CHR ''/''" "[]"] by (simp add: byte_def)
  then have "ws_len_rev (rev (CHR ''/'' # ?t)) = 0" using words_end [of "w # args"] assms(3) by simp
  moreover have "ws_len (CHR ''/'' # ?t) = 0"
    by (cases "CHR ''/'' # ?t" rule: ws_len.cases) (auto simp: ascii_ws_def ws2_def ws3_def byte_def)
  ultimately have "trim (CHR ''/'' # ?t) = CHR ''/'' # ?t" by (simp add: trim_id)
  moreover have "split_whitespace ?t = w # args" by (rule split_join [OF assms(3)])
  moreover have "find (answers_to (to_ascii_lowercase w)) slash_commands = Some c"
    by (rule find_command [OF assms(1) names_distinct assms(2)])
  ultimately show ?thesis by (simp add: slash_parse_def)
qed

text \<open>
  C39: Every command can be entered: its name or any alias, in any mixture of cases, followed by
  any words, is parsed as that command with exactly these arguments when their number suits
  it, and refused with its usage otherwise. No command hides another.
\<close>

theorem slash_roundtrip:
  assumes "c \<in> set slash_commands" "answers_to (to_ascii_lowercase w) c" "\<forall>v \<in> set (w # args). word_text v"
  shows "slash_parse (CHR ''/'' # join '' '' (w # args)) =
    (if args_fit (sc_args c) args then SlashCommand (sc_action c) args else SlashError (msg_usage c))"
  by (rule parse_words [OF assms])

lemma slash_roundtrip_witness:
  "\<exists>c. slash_parse (CHR ''/'' # join '' '' [''Mode'', ''risk'']) =
     (if args_fit (sc_args c) [''risk''] then SlashCommand (sc_action c) [''risk''] else SlashError (msg_usage c)) \<and>
     sc_action c = SlashPermissions"
proof -
  let ?c = "slash_commands ! 14"
  have "?c \<in> set slash_commands" by (simp add: slash_commands_def)
  moreover have c: "sc_aliases ?c = [''permission'', ''mode'']" "sc_action ?c = SlashPermissions"
    by (simp_all add: slash_commands_def command_row_def)
  have "to_ascii_lowercase ''Mode'' = ''mode''" by code_simp
  with c have "answers_to (to_ascii_lowercase ''Mode'') ?c" by (simp add: answers_to_def)
  moreover have "split_whitespace ''Mode'' = [''Mode'']" "split_whitespace ''risk'' = [''risk'']" by code_simp+
  then have "\<forall>v \<in> set [''Mode'', ''risk'']. word_text v"
    using split_whitespace_words [of "''Mode''" "''Mode''"] split_whitespace_words [of "''risk''" "''risk''"] by simp
  ultimately show ?thesis using slash_roundtrip [of ?c "''Mode''" "[''risk'']"] c(2) by blast
qed

text \<open>What is completed is suggested, matches, and is the command itself.\<close>

theorem completion_is_command:
  "list_all (\<lambda>c. c \<in> set (suggestions (completion c)) \<and>
     slash_parse (completion c) =
       (if args_fit (sc_args c) [] then SlashCommand (sc_action c) [] else SlashError (msg_usage c))) slash_commands"
  unfolding list_all_iff
proof (intro ballI conjI)
  fix c assume c: "c \<in> set slash_commands"
  with names_plain have n: "split_whitespace (sc_name c) = [sc_name c]" "to_ascii_lowercase (sc_name c) = sc_name c"
    by (auto simp: list_all_iff)
  then have w: "word_text (sc_name c)" using split_whitespace_words [of "sc_name c" "sc_name c"] by simp
  then have "\<not> has_space (sc_name c)" by (auto simp: has_space_def word_text_def list_ex_iff)
  moreover have "trim_start (completion c) = completion c"
    unfolding completion_def by (subst trim_start.simps, cases "CHR ''/'' # sc_name c" rule: ws_len.cases)
      (auto simp: ascii_ws_def ws2_def ws3_def byte_def)
  ultimately show "c \<in> set (suggestions (completion c))"
    using c n(2) by (simp add: suggestions_def completion_def Let_def)
  have "answers_to (to_ascii_lowercase (sc_name c)) c" by (simp add: answers_to_def n(2))
  from parse_words [OF c this, of "[]"] w show "slash_parse (completion c) =
      (if args_fit (sc_args c) [] then SlashCommand (sc_action c) [] else SlashError (msg_usage c))"
    by (simp add: completion_def)
qed

end
