(* ===== verification/Skills.thy ===== *)
theory Skills
  imports Configuration Anthropic Session "HOL-Library.Multiset" "HOL-Library.List_Lexorder" "HOL-Library.Char_ord"
begin

text \<open>
  The skill library (\<open>src/skills.rs\<close>): Markdown files with a header in a fixed directory, their
  index, installing, updating and removing them, and the choice of the skills for a request. The
  directory is a list of names with contents. The YAML reader, the conversion to lower case and
  the order of the versions (crate \<open>semver\<close>) are arguments; \<open>io\<close> says which file operation fails.
\<close>

section \<open>Reading a skill\<close>

record 'v manifest =
  mf_name :: string
  mf_version :: 'v
  mf_description :: string
  mf_keywords :: "string list"
  mf_scope :: "string list"

record 'v parsed_skill =
  ps_manifest :: "'v manifest"
  ps_body :: string

datatype skill_error =
    SkillUnreadable
  | SkillTooLarge
  | SkillNotUtf8
  | SkillNoHeader
  | SkillBadHeader
  | SkillBadName
  | SkillEmptyDescription
  | SkillEmptyKeyword
  | SkillEmptyScope
  | SkillEmptyBody
  | SkillNotInstalled string
  | SkillOtherName string string
  | SkillUnconfirmed
  | SkillSource string
  | SkillDisk

definition name_char :: "char \<Rightarrow> bool" where
  "name_char c \<longleftrightarrow> is_alnum c \<or> c = CHR ''-'' \<or> c = CHR ''_''"

definition validate_name :: "string \<Rightarrow> skill_error + unit" where
  "validate_name n =
     (if n = [] \<or> hd n = CHR ''.'' \<or> \<not> list_all name_char n then Inl SkillBadName else Inr ())"

definition validate_manifest :: "'v manifest \<Rightarrow> skill_error + unit" where
  "validate_manifest m =
     bindE (validate_name (mf_name m)) (\<lambda>_.
       if is_blank (mf_description m) then Inl SkillEmptyDescription
       else if list_ex is_blank (mf_keywords m) then Inl SkillEmptyKeyword
       else if list_ex is_blank (mf_scope m) then Inl SkillEmptyScope
       else Inr ())"

text \<open>\<open>replace("\r\n", "\n")\<close>\<close>

fun unix_lines :: "string \<Rightarrow> string" where
  "unix_lines (a # b # s) = (if a = CHR 0x0D \<and> b = nl then nl # unix_lines s else a # unix_lines (b # s))"
| "unix_lines s = s"

definition max_skill_bytes :: nat where
  "max_skill_bytes = 64 * 1024"

definition max_skill_files :: nat where
  "max_skill_files = 64"

definition header_start :: string where
  "header_start = ''---'' @ [nl]"

definition header_end :: string where
  "header_end = nl # ''---'' @ [nl]"

definition read_skill :: "(string \<Rightarrow> 'v manifest option) \<Rightarrow> string option \<Rightarrow> skill_error + 'v parsed_skill" where
  "read_skill yaml file =
     bindE (ok_or SkillUnreadable file) (\<lambda>bytes.
       if length bytes > max_skill_bytes then Inl SkillTooLarge
       else bindE (ok_or SkillNotUtf8 (from_utf8 bytes)) (\<lambda>source.
       let text = unix_lines source in
       if \<not> prefix header_start text then Inl SkillNoHeader
       else case split_once header_end (drop (length header_start) text) of
         None \<Rightarrow> Inl SkillNoHeader
       | Some (front, body) \<Rightarrow>
           bindE (ok_or SkillBadHeader (yaml front)) (\<lambda>m.
           bindE (validate_manifest m) (\<lambda>_.
             if is_blank body then Inl SkillEmptyBody else Inr \<lparr>ps_manifest = m, ps_body = trim body\<rparr>))))"

section \<open>The index\<close>

record 'v skill_index =
  ix_manifest :: "'v manifest"
  ix_summary :: string
  ix_file :: string

definition ix_name :: "'v skill_index \<Rightarrow> string" where
  "ix_name x = mf_name (ix_manifest x)"

definition msg_no_summary :: string where
  "msg_no_summary = utf8 [65288, 26410, 25552, 20379, 25688, 35201, 65289]"

definition fallback_summary :: "string \<Rightarrow> string" where
  "fallback_summary body =
     take_chars 240 (case find (\<lambda>l. l \<noteq> [] \<and> hd l \<noteq> CHR ''#'') (map trim (text_lines body)) of
       None \<Rightarrow> msg_no_summary | Some l \<Rightarrow> l)"

definition is_markdown :: "string \<Rightarrow> bool" where
  "is_markdown n \<longleftrightarrow> (case snd (split_extension n) of None \<Rightarrow> False | Some e \<Rightarrow> to_ascii_lowercase e = ''md'')"

type_synonym skill_files = "(string \<times> string) list"

definition markdown_names :: "skill_files \<Rightarrow> string list" where
  "markdown_names fs = sort (filter is_markdown (map fst fs))"

fun index_names ::
  "(string \<Rightarrow> 'v manifest option) \<Rightarrow> skill_files \<Rightarrow> string list \<Rightarrow> string list \<Rightarrow> 'v skill_index list" where
  "index_names yaml fs seen [] = []"
| "index_names yaml fs seen (n # ns) =
     (case read_skill yaml (map_of fs n) of
        Inl _ \<Rightarrow> index_names yaml fs seen ns
      | Inr p \<Rightarrow>
          if mf_name (ps_manifest p) \<in> set seen then index_names yaml fs seen ns
          else \<lparr>ix_manifest = ps_manifest p, ix_summary = fallback_summary (ps_body p), ix_file = n\<rparr> #
            index_names yaml fs (mf_name (ps_manifest p) # seen) ns)"

definition load_index :: "(string \<Rightarrow> 'v manifest option) \<Rightarrow> skill_files \<Rightarrow> 'v skill_index list" where
  "load_index yaml fs = index_names yaml fs [] (take max_skill_files (markdown_names fs))"

record 'v library =
  lb_files :: skill_files
  lb_index :: "'v skill_index list option"

definition refresh :: "(string \<Rightarrow> 'v manifest option) \<Rightarrow> 'v library \<Rightarrow> 'v library" where
  "refresh yaml s = s\<lparr>lb_index := Some (load_index yaml (lb_files s))\<rparr>"

definition ensure_index :: "(string \<Rightarrow> 'v manifest option) \<Rightarrow> 'v library \<Rightarrow> 'v skill_index list \<times> 'v library" where
  "ensure_index yaml s =
     (case lb_index s of
        Some xs \<Rightarrow> (xs, s)
      | None \<Rightarrow> (load_index yaml (lb_files s), refresh yaml s))"

section \<open>Installing and removing\<close>

datatype 'v outcome = Installed string 'v | Skipped string 'v string

definition msg_same_version :: string where
  "msg_same_version = utf8 [21516, 29256, 26412, 24050, 23433, 35013]"

definition msg_older :: "string \<Rightarrow> string" where
  "msg_older v = utf8 [24050, 23433, 35013, 26356, 39640, 29256, 26412, 32] @ v @
     utf8 [65307, 38477, 32423, 38656, 32, 45, 45, 102, 111, 114, 99, 101]"

text \<open>
  What the file system does in an installation: can the directory be made, what does the source
  hold when it is copied, after how many bytes does the temporary file end (\<open>None\<close>: never), are the
  rename and the removal of the old file carried out.
\<close>

record io =
  io_dir :: bool
  io_source :: "string option"
  io_cut :: "nat option"
  io_rename :: bool
  io_remove :: bool
  io_pid :: nat

definition temp_name :: "io \<Rightarrow> string \<Rightarrow> string" where
  "temp_name io n = ''.'' @ n @ ''.tmp-'' @ dec (io_pid io)"

text \<open>The new file is written beside the old one and takes its place in one step.\<close>

definition write_skill :: "io \<Rightarrow> string \<Rightarrow> string \<Rightarrow> skill_files \<Rightarrow> skill_error option \<times> skill_files" where
  "write_skill io n bytes fs =
     (case io_cut io of
        Some k \<Rightarrow> (Some SkillDisk, AList.update (temp_name io n) (take k bytes) fs)
      | None \<Rightarrow>
          if \<not> io_rename io then (Some SkillDisk, AList.update (temp_name io n) bytes fs)
          else (None, AList.update (n @ ''.md'') bytes (AList.delete (temp_name io n) fs)))"

definition install_parsed ::
  "(string \<Rightarrow> 'v :: linorder manifest option) \<Rightarrow> ('v \<Rightarrow> string) \<Rightarrow> io \<Rightarrow> 'v parsed_skill \<Rightarrow> bool \<Rightarrow> bool \<Rightarrow> 'v library \<Rightarrow>
   (skill_error + 'v outcome) \<times> 'v library" where
  "install_parsed yaml show io p force update s =
     (if \<not> io_dir io then (Inl SkillDisk, s)
      else
        let (xs, s) = ensure_index yaml s;
            n = mf_name (ps_manifest p); v = mf_version (ps_manifest p);
            cur = find (\<lambda>x. ix_name x = n) xs
        in if update \<and> cur = None then (Inl (SkillNotInstalled n), s)
        else case (case cur of None \<Rightarrow> None | Some x \<Rightarrow>
            let old = mf_version (ix_manifest x) in
            if v = old then Some msg_same_version else if v < old \<and> \<not> force then Some (msg_older (show old)) else None) of
          Some reason \<Rightarrow> (Inr (Skipped n v reason), s)
        | None \<Rightarrow>
            (case io_source io of
               None \<Rightarrow> (Inl SkillUnreadable, s)
             | Some bytes \<Rightarrow>
                 (case write_skill io n bytes (lb_files s) of
                    (Some e, fs) \<Rightarrow> (Inl e, s\<lparr>lb_files := fs\<rparr>)
                  | (None, fs) \<Rightarrow>
                      (Inr (Installed n v),
                       s\<lparr>lb_files := (case cur of
                           Some x \<Rightarrow> if ix_file x \<noteq> n @ ''.md'' \<and> io_remove io then AList.delete (ix_file x) fs else fs
                         | None \<Rightarrow> fs)\<rparr>))))"

text \<open>
  The sources of an installation, each with what it holds when it is checked and how copying it
  goes; the index is read again after every one of them.
\<close>

fun install ::
  "(string \<Rightarrow> 'v :: linorder manifest option) \<Rightarrow> ('v \<Rightarrow> string) \<Rightarrow> bool \<Rightarrow> (string option \<times> io) list \<Rightarrow> 'v library \<Rightarrow>
   (skill_error + 'v outcome list) \<times> 'v library" where
  "install yaml show force [] s = (Inr [], s)"
| "install yaml show force ((bytes, io) # srcs) s =
     (case read_skill yaml bytes of
        Inl e \<Rightarrow> (Inl e, s)
      | Inr p \<Rightarrow>
          (case install_parsed yaml show io p force False s of
             (Inl e, s) \<Rightarrow> (Inl e, s)
           | (Inr x, s) \<Rightarrow>
               (case install yaml show force srcs (refresh yaml s) of
                  (Inl e, s) \<Rightarrow> (Inl e, s) | (Inr xs, s) \<Rightarrow> (Inr (x # xs), s))))"

definition update_skill ::
  "(string \<Rightarrow> 'v :: linorder manifest option) \<Rightarrow> ('v \<Rightarrow> string) \<Rightarrow> string \<Rightarrow> string option \<Rightarrow> io \<Rightarrow> 'v library \<Rightarrow>
   (skill_error + 'v outcome) \<times> 'v library" where
  "update_skill yaml show n bytes io s =
     (case bindE (validate_name n) (\<lambda>_. read_skill yaml bytes) of
        Inl e \<Rightarrow> (Inl e, s)
      | Inr p \<Rightarrow>
          if mf_name (ps_manifest p) \<noteq> n then (Inl (SkillOtherName n (mf_name (ps_manifest p))), s)
          else case install_parsed yaml show io p False True s of
            (Inl e, s) \<Rightarrow> (Inl e, s)
          | (Inr x, s) \<Rightarrow> (Inr x, refresh yaml s))"

definition msg_removed :: string where
  "msg_removed = utf8 [24050, 21024, 38500, 32, 115, 107, 105, 108, 108, 65306]"

definition remove_skill ::
  "(string \<Rightarrow> 'v manifest option) \<Rightarrow> bool \<Rightarrow> string \<Rightarrow> bool \<Rightarrow> 'v library \<Rightarrow> (skill_error + string) \<times> 'v library" where
  "remove_skill yaml removed n confirmed s =
     (case validate_name n of
        Inl e \<Rightarrow> (Inl e, s)
      | Inr _ \<Rightarrow>
          if \<not> confirmed then (Inl SkillUnconfirmed, s)
          else let (xs, s) = ensure_index yaml s in
            case find (\<lambda>x. ix_name x = n) xs of
              None \<Rightarrow> (Inl (SkillNotInstalled n), s)
            | Some x \<Rightarrow>
                if \<not> removed then (Inl SkillDisk, s)
                else (Inr (msg_removed @ n), refresh yaml (s\<lparr>lb_files := AList.delete (ix_file x) (lb_files s)\<rparr>)))"

section \<open>Skills for a request\<close>

definition skill_cjk :: "string \<Rightarrow> bool" where
  "skill_cjk k \<longleftrightarrow> 0x3400 \<le> scalar k \<and> scalar k \<le> 0x4DBF \<or> 0x4E00 \<le> scalar k \<and> scalar k \<le> 0x9FFF \<or>
     0xF900 \<le> scalar k \<and> scalar k \<le> 0xFAFF"

text \<open>\<open>split\<close> at every byte that is no letter, digit or underscore; characters beyond ASCII are such bytes.\<close>

fun tokens :: "string \<Rightarrow> string \<Rightarrow> string list" where
  "tokens acc [] = [rev acc]"
| "tokens acc (c # s) = (if is_alnum c \<or> c = CHR ''_'' then tokens (c # acc) s else rev acc # tokens [] s)"

fun neighbours :: "string list \<Rightarrow> string list" where
  "neighbours (a # b # ks) = (a @ b) # neighbours (b # ks)"
| "neighbours ks = []"

definition skill_terms :: "string \<Rightarrow> string set" where
  "skill_terms t = set (map to_ascii_lowercase (filter (\<lambda>w. 2 \<le> length w) (tokens [] t))) \<union>
     set (neighbours (filter skill_cjk (chars t)))"

definition u64_sat :: "nat \<Rightarrow> nat" where
  "u64_sat n = min n (2 ^ 64 - 1)"

definition skill_metadata :: "'v skill_index \<Rightarrow> string" where
  "skill_metadata x = mf_name (ix_manifest x) @ '' '' @ mf_description (ix_manifest x) @ '' '' @
     join '' '' (mf_scope (ix_manifest x)) @ '' '' @ ix_summary x"

definition skill_score ::
  "(string \<Rightarrow> string) \<Rightarrow> (string \<Rightarrow> 'v manifest option) \<Rightarrow> skill_files \<Rightarrow> string \<Rightarrow> 'v skill_index \<Rightarrow> nat" where
  "skill_score lower yaml fs query x =
     (let terms = skill_terms query;
          hits = length (filter (\<lambda>k. contains (lower query) (lower k) \<or> lower k \<in> terms) (mf_keywords (ix_manifest x)));
          meta = skill_terms (skill_metadata x);
          overlap = card (meta \<inter> terms);
          body = (if hits > 0 \<or> overlap > 0
            then case read_skill yaml (map_of fs (ix_file x)) of
                Inl _ \<Rightarrow> 0
              | Inr p \<Rightarrow> let ts = skill_terms (ps_body p) in u64_sat (card (ts \<inter> terms) * 10) div max 1 (card ts)
            else 0)
      in u64_sat (u64_sat (u64_sat (hits * 10000) + u64_sat (overlap * 100) div max 1 (card meta)) + body))"

text \<open>\<open>sort_by\<close>, stable: by score downwards, by version downwards, by name.\<close>

fun insert_by :: "('a \<Rightarrow> 'a \<Rightarrow> bool) \<Rightarrow> 'a \<Rightarrow> 'a list \<Rightarrow> 'a list" where
  "insert_by le x [] = [x]"
| "insert_by le x (y # ys) = (if le x y then x # y # ys else y # insert_by le x ys)"

definition sort_by :: "('a \<Rightarrow> 'a \<Rightarrow> bool) \<Rightarrow> 'a list \<Rightarrow> 'a list" where
  "sort_by le xs = foldr (insert_by le) xs []"

definition ranks_before :: "nat \<times> 'v :: linorder skill_index \<Rightarrow> nat \<times> 'v skill_index \<Rightarrow> bool" where
  "ranks_before a b \<longleftrightarrow> fst a > fst b \<or> fst a = fst b \<and>
     (mf_version (ix_manifest (snd a)) > mf_version (ix_manifest (snd b)) \<or>
      mf_version (ix_manifest (snd a)) = mf_version (ix_manifest (snd b)) \<and> ix_name (snd a) \<le> ix_name (snd b))"

definition rank_skills ::
  "(string \<Rightarrow> string) \<Rightarrow> (string \<Rightarrow> 'v :: linorder manifest option) \<Rightarrow> skill_files \<Rightarrow> string \<Rightarrow> 'v skill_index list \<Rightarrow>
   (nat \<times> 'v skill_index) list" where
  "rank_skills lower yaml fs query xs =
     sort_by ranks_before (filter (\<lambda>(n, x). 0 < n) (map (\<lambda>x. (skill_score lower yaml fs query x, x)) xs))"

definition msg_skills :: string where
  "msg_skills = utf8 [21487, 29992, 25216, 33021, 32034, 24341, 65288, 20165, 32467, 26500, 21270, 20803, 25968, 25454,
     65289, 65306]"

definition msg_matching :: string where
  "msg_matching = [nl, nl] @ utf8 [25353, 24403, 21069, 35831, 27714, 21629, 20013, 30340, 25216, 33021, 27491, 25991, 65306]"

definition skill_title :: "('v \<Rightarrow> string) \<Rightarrow> 'v manifest \<Rightarrow> string" where
  "skill_title show m = mf_name m @ ''@'' @ show (mf_version m)"

definition context_for ::
  "(string \<Rightarrow> string) \<Rightarrow> (string \<Rightarrow> 'v :: linorder manifest option) \<Rightarrow> ('v \<Rightarrow> string) \<Rightarrow> nat \<Rightarrow> string \<Rightarrow> 'v library \<Rightarrow>
   string option \<times> 'v library" where
  "context_for lower yaml show limit query s =
     (let (xs, s) = ensure_index yaml s in
      if xs = [] then (None, s)
      else
        let listing = msg_skills @ concat (map (\<lambda>x. nl # ''- '' @ skill_title show (ix_manifest x) @ utf8 [65306] @
                        mf_description (ix_manifest x)) xs);
            ranked = rank_skills lower yaml (lb_files s) query xs;
            bodies = concat (map (\<lambda>(_, x). case read_skill yaml (map_of (lb_files s) (ix_file x)) of
                        Inl _ \<Rightarrow> []
                      | Inr p \<Rightarrow> [nl, nl] @ ''### '' @ skill_title show (ps_manifest p) @ [nl] @ ps_body p) (take limit ranked))
        in (Some (if ranked = [] then listing else listing @ msg_matching @ bodies), s))"

section \<open>File names\<close>

lemma markdown_name: "n \<noteq> [] \<Longrightarrow> is_markdown (n @ ''.md'')"
proof -
  assume "n \<noteq> []"
  then have "split_extension (n @ ''.md'') = (n, Some ''md'')" by (simp add: split_extension_def)
  moreover have "to_ascii_lowercase ''md'' = ''md''" by code_simp
  ultimately show ?thesis by (simp add: is_markdown_def)
qed

lemma name_no_dot: "validate_name n = Inr () \<Longrightarrow> n \<noteq> [] \<and> CHR ''.'' \<notin> set n"
proof -
  have "\<not> name_char (CHR ''.'')" by code_simp
  then show "validate_name n = Inr () \<Longrightarrow> n \<noteq> [] \<and> CHR ''.'' \<notin> set n"
    by (auto simp: validate_name_def list_all_iff split: if_splits)
qed

lemma temp_not_markdown: "CHR ''.'' \<notin> set n \<Longrightarrow> \<not> is_markdown (temp_name io n)"
proof -
  assume n: "CHR ''.'' \<notin> set n"
  have d: "CHR ''.'' \<notin> set (dec (io_pid io))"
    using set_dec [of "CHR ''.''" "io_pid io"] by (auto simp: is_digit_def byte_def)
  let ?r = "rev (dec (io_pid io)) @ ''-pmt''"
  have r: "rev (temp_name io n) = ?r @ CHR ''.'' # rev n @ ''.''" by (simp add: temp_name_def)
  have "CHR ''.'' \<notin> set ?r" using d by simp
  then have "takeWhile (\<lambda>c. c \<noteq> CHR ''.'') (rev (temp_name io n)) = ?r"
    "dropWhile (\<lambda>c. c \<noteq> CHR ''.'') (rev (temp_name io n)) = CHR ''.'' # rev n @ ''.''"
    unfolding r by (subst takeWhile_append2 dropWhile_append2; fastforce)+
  then have "snd (split_extension (temp_name io n)) = Some (rev ?r)" by (simp add: split_extension_def)
  moreover have "length (to_ascii_lowercase (rev ?r)) \<noteq> length ''md''" by simp
  then have "to_ascii_lowercase (rev ?r) \<noteq> ''md''" by metis
  ultimately show ?thesis by (simp add: is_markdown_def)
qed

lemma read_skill_name: "read_skill yaml f = Inr p \<Longrightarrow> validate_name (mf_name (ps_manifest p)) = Inr ()"
  by (auto simp: read_skill_def Let_def bindE_Inr_iff validate_manifest_def split: if_splits option.splits)

section \<open>The order of the matches\<close>

lemma insert_by_mset [simp]: "mset (insert_by le x ys) = add_mset x (mset ys)"
  by (induction ys) auto

lemma insert_by_sorted:
  assumes "\<And>a b. le a b \<or> le b a" "\<And>a b c. le a b \<Longrightarrow> le b c \<Longrightarrow> le a c"
  shows "sorted_wrt le ys \<Longrightarrow> sorted_wrt le (insert_by le x ys)"
proof (induction ys)
  case (Cons y ys)
  have "set (insert_by le x ys) = insert x (set ys)" by (metis insert_by_mset set_mset_add_mset_insert set_mset_mset)
  then show ?case using Cons assms by (auto intro: assms(2))
qed simp

lemma ranks_total: "ranks_before a b \<or> ranks_before b a"
  by (auto simp: ranks_before_def)

lemma ranks_trans: "ranks_before a b \<Longrightarrow> ranks_before b c \<Longrightarrow> ranks_before a c"
  by (auto simp: ranks_before_def)

lemma sort_by_mset: "mset (sort_by le xs) = mset xs"
  unfolding sort_by_def by (induction xs) auto

lemma set_sort_by: "set (sort_by le xs) = set xs"
  by (metis sort_by_mset set_mset_mset)

lemma ranked_best_first:
  "sorted_wrt ranks_before (rank_skills lower yaml fs query xs)"
  "set (rank_skills lower yaml fs query xs) = {(skill_score lower yaml fs query x, x) | x. x \<in> set xs \<and> 0 < skill_score lower yaml fs query x}"
proof -
  have "sorted_wrt ranks_before (sort_by ranks_before ys)" for ys :: "(nat \<times> 'a :: linorder skill_index) list"
    unfolding sort_by_def by (induction ys) (simp_all add: insert_by_sorted [OF ranks_total ranks_trans])
  then show "sorted_wrt ranks_before (rank_skills lower yaml fs query xs)" by (simp add: rank_skills_def)
  show "set (rank_skills lower yaml fs query xs) = {(skill_score lower yaml fs query x, x) | x. x \<in> set xs \<and> 0 < skill_score lower yaml fs query x}"
    by (auto simp: rank_skills_def set_sort_by)
qed

section \<open>What an installation does\<close>

text \<open>
  A tidy directory: every Markdown file is a skill under its own name, and all of them are within
  the limit of the index.
\<close>

definition tidy :: "(string \<Rightarrow> 'v manifest option) \<Rightarrow> skill_files \<Rightarrow> bool" where
  "tidy yaml fs \<longleftrightarrow> distinct (map fst fs) \<and> length (markdown_names fs) \<le> max_skill_files \<and>
     (\<forall>n \<in> set (map fst fs). is_markdown n \<longrightarrow>
       (case read_skill yaml (map_of fs n) of Inl _ \<Rightarrow> False | Inr p \<Rightarrow> n = mf_name (ps_manifest p) @ ''.md''))"

lemma tidy_ex:
  fixes yaml :: "string \<Rightarrow> 'v manifest option"
  shows "tidy yaml fs \<longleftrightarrow> distinct (map fst fs) \<and> length (markdown_names fs) \<le> max_skill_files \<and>
     (\<forall>n \<in> set (map fst fs). is_markdown n \<longrightarrow>
       (\<exists>p. read_skill yaml (map_of fs n) = Inr p \<and> n = mf_name (ps_manifest p) @ ''.md''))"
proof -
  have "(case r of Inl _ \<Rightarrow> False | Inr p \<Rightarrow> Q p) = (\<exists>p. r = Inr p \<and> Q p)" for r :: "skill_error + 'v parsed_skill" and Q
    by (cases r) auto
  then show ?thesis unfolding tidy_def by simp
qed

definition skill_entry :: "'v parsed_skill \<Rightarrow> string \<Rightarrow> 'v skill_index" where
  "skill_entry p n = \<lparr>ix_manifest = ps_manifest p, ix_summary = fallback_summary (ps_body p), ix_file = n\<rparr>"

definition lookup_skill :: "(string \<Rightarrow> 'v manifest option) \<Rightarrow> skill_files \<Rightarrow> string \<Rightarrow> 'v skill_index option" where
  "lookup_skill yaml fs k = find (\<lambda>x. ix_name x = k) (load_index yaml fs)"

lemma index_names_find:
  "distinct ns \<Longrightarrow>
   \<forall>n \<in> set ns. \<exists>p. read_skill yaml (map_of fs n) = Inr p \<and> n = mf_name (ps_manifest p) @ ''.md'' \<and>
     mf_name (ps_manifest p) \<notin> set seen \<Longrightarrow>
   find (\<lambda>x. ix_name x = k) (index_names yaml fs seen ns) =
     (if k @ ''.md'' \<in> set ns
      then case read_skill yaml (map_of fs (k @ ''.md'')) of Inl _ \<Rightarrow> None | Inr p \<Rightarrow> Some (skill_entry p (k @ ''.md''))
      else None)"
proof (induction ns arbitrary: seen)
  case (Cons n ns)
  from Cons.prems(2) obtain p where p: "read_skill yaml (map_of fs n) = Inr p" "n = mf_name (ps_manifest p) @ ''.md''"
    "mf_name (ps_manifest p) \<notin> set seen" by auto
  have "\<forall>m \<in> set ns. \<exists>q. read_skill yaml (map_of fs m) = Inr q \<and> m = mf_name (ps_manifest q) @ ''.md'' \<and>
     mf_name (ps_manifest q) \<notin> set (mf_name (ps_manifest p) # seen)"
  proof
    fix m assume m: "m \<in> set ns"
    with Cons.prems obtain q where q: "read_skill yaml (map_of fs m) = Inr q" "m = mf_name (ps_manifest q) @ ''.md''"
      "mf_name (ps_manifest q) \<notin> set seen" by auto
    have "m \<noteq> n" using m Cons.prems(1) by auto
    with q p(2) show "\<exists>q. read_skill yaml (map_of fs m) = Inr q \<and> m = mf_name (ps_manifest q) @ ''.md'' \<and>
      mf_name (ps_manifest q) \<notin> set (mf_name (ps_manifest p) # seen)" by auto
  qed
  with Cons.IH Cons.prems(1) have ih: "find (\<lambda>x. ix_name x = k) (index_names yaml fs (mf_name (ps_manifest p) # seen) ns) =
      (if k @ ''.md'' \<in> set ns
       then case read_skill yaml (map_of fs (k @ ''.md'')) of Inl _ \<Rightarrow> None | Inr p \<Rightarrow> Some (skill_entry p (k @ ''.md''))
       else None)" by simp
  show ?case
  proof (cases "k = mf_name (ps_manifest p)")
    case True
    with p show ?thesis by (simp add: ix_name_def skill_entry_def)
  next
    case False
    then have "(k @ ''.md'' \<in> set (n # ns)) = (k @ ''.md'' \<in> set ns)" using p(2) by auto
    with False p ih show ?thesis by (simp add: ix_name_def)
  qed
qed simp

lemma set_markdown_names: "set (markdown_names fs) = {n \<in> set (map fst fs). is_markdown n}"
  by (auto simp: markdown_names_def)

lemma tidy_lookup:
  assumes "tidy yaml fs"
  shows "lookup_skill yaml fs k =
    (if k = [] then None
     else case read_skill yaml (map_of fs (k @ ''.md'')) of Inl _ \<Rightarrow> None | Inr p \<Rightarrow> Some (skill_entry p (k @ ''.md'')))"
proof -
  have all: "take max_skill_files (markdown_names fs) = markdown_names fs" using assms by (simp add: tidy_ex)
  have "distinct (markdown_names fs)" using assms by (simp add: tidy_ex markdown_names_def)
  then have "lookup_skill yaml fs k = (if k @ ''.md'' \<in> set (markdown_names fs)
      then case read_skill yaml (map_of fs (k @ ''.md'')) of Inl _ \<Rightarrow> None | Inr p \<Rightarrow> Some (skill_entry p (k @ ''.md''))
      else None)"
    unfolding lookup_skill_def load_index_def all using assms
    by (intro index_names_find) (auto simp: set_markdown_names tidy_ex)
  moreover have "k = [] \<Longrightarrow> k @ ''.md'' \<notin> set (markdown_names fs)"
    by (simp add: set_markdown_names is_markdown_def split_extension_def)
  moreover have "k @ ''.md'' \<notin> set (map fst fs) \<Longrightarrow> read_skill yaml (map_of fs (k @ ''.md'')) = Inl SkillUnreadable"
    by (simp add: read_skill_def map_of_eq_None_iff [THEN iffD2])
  ultimately show ?thesis by (auto simp: set_markdown_names markdown_name)
qed

text \<open>Only the Markdown files count.\<close>

lemma tidy_cong:
  assumes "distinct (map fst fs')" "markdown_names fs' = markdown_names fs"
    and "\<And>n. is_markdown n \<Longrightarrow> map_of fs' n = map_of fs n" and "tidy yaml fs"
  shows "tidy yaml fs' \<and> lookup_skill yaml fs' = lookup_skill yaml fs"
proof -
  have "{n \<in> set (map fst fs'). is_markdown n} = {n \<in> set (map fst fs). is_markdown n}"
    unfolding set_markdown_names [symmetric] assms(2) ..
  then have t: "tidy yaml fs'" using assms unfolding tidy_ex by (smt (verit, best) mem_Collect_eq)
  have "lookup_skill yaml fs' k = lookup_skill yaml fs k" for k
    using assms(3) [OF markdown_name, of k] by (simp add: tidy_lookup [OF t] tidy_lookup [OF assms(4)])
  with t show ?thesis by blast
qed

lemma temp_written:
  assumes "tidy yaml fs" "CHR ''.'' \<notin> set n"
  shows "tidy yaml (AList.update (temp_name io n) b fs) \<and>
    lookup_skill yaml (AList.update (temp_name io n) b fs) = lookup_skill yaml fs"
proof (rule tidy_cong [OF _ _ _ assms(1)])
  note m = temp_not_markdown [OF assms(2), of io]
  show "distinct (map fst (AList.update (temp_name io n) b fs))" using assms(1) by (simp add: tidy_ex distinct_update)
  show "markdown_names (AList.update (temp_name io n) b fs) = markdown_names fs" by (simp add: markdown_names_def update_keys m)
  show "map_of (AList.update (temp_name io n) b fs) x = map_of fs x" if "is_markdown x" for x
    using that m by (auto simp: update_conv')
qed

lemma removeAll_filter: "\<not> P x \<Longrightarrow> filter P (removeAll x xs) = filter P xs"
  by (induction xs) auto

lemma skill_written:
  fixes io :: io
  assumes "tidy yaml fs" "read_skill yaml (Some b) = Inr p" "mf_name (ps_manifest p) = n"
    and "length (markdown_names fs) < max_skill_files"
    and fs'_def: "fs' = AList.update (n @ ''.md'') b (AList.delete (temp_name io n) fs)"
  shows "tidy yaml fs' \<and> lookup_skill yaml fs' = (lookup_skill yaml fs)(n \<mapsto> skill_entry p (n @ ''.md''))"
proof -
  have n: "n \<noteq> []" "CHR ''.'' \<notin> set n" using name_no_dot [OF read_skill_name [OF assms(2)]] assms(3) by simp_all
  note m = temp_not_markdown [OF n(2), of io] markdown_name [OF n(1)]
  have keys: "map fst fs' = (let ks = removeAll (temp_name io n) (map fst fs) in if n @ ''.md'' \<in> set ks then ks else ks @ [n @ ''.md''])"
    by (simp add: fs'_def update_keys delete_keys Let_def)
  have d: "distinct (map fst fs')" using assms(1) by (simp add: fs'_def tidy_ex distinct_update distinct_delete)
  have len: "length (markdown_names fs') \<le> max_skill_files"
    using assms(4) unfolding markdown_names_def length_sort keys by (simp add: Let_def removeAll_filter m)
  have at: "map_of fs' x = (if x = n @ ''.md'' then Some b else map_of fs x)" if "is_markdown x" for x
    using that m by (auto simp: fs'_def update_conv' delete_conv')
  have set: "x \<in> set (map fst fs') \<longleftrightarrow> x = n @ ''.md'' \<or> x \<in> set (map fst fs)" if "is_markdown x" for x
    using that m by (auto simp: keys Let_def)
  have t: "tidy yaml fs'"
    unfolding tidy_ex
  proof (intro conjI ballI impI)
    fix x assume x: "x \<in> set (map fst fs')" "is_markdown x"
    show "\<exists>p. read_skill yaml (map_of fs' x) = Inr p \<and> x = mf_name (ps_manifest p) @ ''.md''"
    proof (cases "x = n @ ''.md''")
      case True
      then show ?thesis using assms(2,3) at [OF x(2)] by auto
    next
      case False
      then show ?thesis using x assms(1) at [OF x(2)] set [OF x(2)] by (auto simp: tidy_ex)
    qed
  qed (use d len in auto)
  have "lookup_skill yaml fs' k = ((lookup_skill yaml fs)(n \<mapsto> skill_entry p (n @ ''.md''))) k" for k
    using at [OF markdown_name, of k] n assms(2)
    by (cases "k = n") (simp_all add: tidy_lookup [OF t] tidy_lookup [OF assms(1)])
  with t show ?thesis by blast
qed

text \<open>
  A skill that is not in the index is installed over the file of its name, whichever skill that
  file declares: the other skill is gone.
\<close>

lemma install_overwrites_other:
  assumes "find (\<lambda>x. ix_name x = n) (fst (ensure_index yaml s)) = None" "io_source io = Some bytes"
    and "install_parsed yaml show io p force update s = (Inr (Installed n v), s')" "mf_name (ps_manifest p) = n"
  shows "map_of (lb_files s') (n @ ''.md'') = Some bytes"
proof -
  obtain xs s1 where e: "ensure_index yaml s = (xs, s1)" by fastforce
  show ?thesis
    using assms unfolding install_parsed_def e
    by (auto simp: write_skill_def Let_def update_conv' split: if_splits option.splits)
qed

text \<open>The version of a skill that is installed.\<close>

definition version_of :: "(string \<Rightarrow> 'v manifest option) \<Rightarrow> skill_files \<Rightarrow> string \<Rightarrow> 'v option" where
  "version_of yaml fs n = map_option (\<lambda>x. mf_version (ix_manifest x)) (lookup_skill yaml fs n)"

definition fresh_index :: "(string \<Rightarrow> 'v manifest option) \<Rightarrow> 'v library \<Rightarrow> bool" where
  "fresh_index yaml s \<longleftrightarrow> lb_index s = None \<or> lb_index s = Some (load_index yaml (lb_files s))"

lemma ensure_fresh:
  "fresh_index yaml s \<Longrightarrow> \<exists>ix. ensure_index yaml s = (load_index yaml (lb_files s), s\<lparr>lb_index := ix\<rparr>)"
  by (cases "lb_index s") (auto simp: fresh_index_def ensure_index_def refresh_def intro: exI [of _ "lb_index s"])

text \<open>The three ways an installation ends.\<close>

lemma install_parsed_cases:
  assumes "tidy yaml (lb_files s)" "fresh_index yaml s" "io_source io = Some bytes"
    and "install_parsed yaml show io p force update s = (res, s')"
    and n: "mf_name (ps_manifest p) = n" and v: "mf_version (ps_manifest p) = v"
  obtains (same) "lb_files s' = lb_files s" "res \<noteq> Inr (Installed n v)"
    | (broken) b where "lb_files s' = AList.update (temp_name io n) b (lb_files s)" "res \<noteq> Inr (Installed n v)"
    | (new) "lb_files s' = AList.update (n @ ''.md'') bytes (AList.delete (temp_name io n) (lb_files s))"
        "res = Inr (Installed n v)"
        "force \<or> (case version_of yaml (lb_files s) n of None \<Rightarrow> True | Some old \<Rightarrow> old < v)"
proof -
  obtain ix where e: "ensure_index yaml s = (load_index yaml (lb_files s), s\<lparr>lb_index := ix\<rparr>)"
    using ensure_fresh [OF assms(2)] by blast
  have at: "ix_file x = n @ ''.md''" if "find (\<lambda>x. ix_name x = n) (load_index yaml (lb_files s)) = Some x" for x
    using that tidy_lookup [OF assms(1), of n] unfolding lookup_skill_def
    by (auto simp: skill_entry_def split: if_splits sum.splits)
  show thesis
    using assms(3,4) same broken new at
    unfolding install_parsed_def e n v version_of_def lookup_skill_def
    by (auto simp: write_skill_def Let_def not_less_iff_gr_or_eq split: if_splits option.splits)
qed


definition plain_yaml :: "string \<Rightarrow> nat manifest option" where
  "plain_yaml front = (if front = [] then None
     else Some \<lparr>mf_name = [hd front], mf_version = length front, mf_description = ''d'', mf_keywords = [], mf_scope = []\<rparr>)"

definition sample_skill :: "string \<Rightarrow> string" where
  "sample_skill front = header_start @ front @ header_end @ ''x''"

definition sound_io :: "string \<Rightarrow> io" where
  "sound_io b = \<lparr>io_dir = True, io_source = Some b, io_cut = None, io_rename = True, io_remove = True, io_pid = 7\<rparr>"

lemma sample_read:
  "read_skill plain_yaml (Some (sample_skill ''aa'')) =
     Inr \<lparr>ps_manifest = \<lparr>mf_name = ''a'', mf_version = 2, mf_description = ''d'', mf_keywords = [], mf_scope = []\<rparr>, ps_body = ''x''\<rparr>"
  "read_skill plain_yaml (Some (sample_skill ''aaa'')) =
     Inr \<lparr>ps_manifest = \<lparr>mf_name = ''a'', mf_version = 3, mf_description = ''d'', mf_keywords = [], mf_scope = []\<rparr>, ps_body = ''x''\<rparr>"
proof -
  have len: "length (sample_skill ''aa'') \<le> max_skill_bytes" "length (sample_skill ''aaa'') \<le> max_skill_bytes"
    by (simp_all add: sample_skill_def header_start_def header_end_def max_skill_bytes_def)
  have utf: "from_utf8 (sample_skill ''aa'') = Some (sample_skill ''aa'')" "from_utf8 (sample_skill ''aaa'') = Some (sample_skill ''aaa'')"
    by code_simp+
  have lines: "unix_lines (sample_skill ''aa'') = sample_skill ''aa''" "unix_lines (sample_skill ''aaa'') = sample_skill ''aaa''"
    by code_simp+
  have parts: "prefix header_start (sample_skill f)" "drop (length header_start) (sample_skill f) = f @ header_end @ ''x''" for f
    by (simp_all add: sample_skill_def)
  have split: "split_once header_end (''aa'' @ header_end @ ''x'') = Some (''aa'', ''x'')"
    "split_once header_end (''aaa'' @ header_end @ ''x'') = Some (''aaa'', ''x'')"
    by code_simp+
  have name: "validate_name ''a'' = Inr ()" and blank: "\<not> is_blank ''d''" "\<not> is_blank ''x''" "trim ''x'' = ''x''" by code_simp+
  show "read_skill plain_yaml (Some (sample_skill ''aa'')) =
     Inr \<lparr>ps_manifest = \<lparr>mf_name = ''a'', mf_version = 2, mf_description = ''d'', mf_keywords = [], mf_scope = []\<rparr>, ps_body = ''x''\<rparr>"
    using len(1) by (simp add: read_skill_def Let_def utf lines parts split [simplified] plain_yaml_def validate_manifest_def name blank)
  show "read_skill plain_yaml (Some (sample_skill ''aaa'')) =
     Inr \<lparr>ps_manifest = \<lparr>mf_name = ''a'', mf_version = 3, mf_description = ''d'', mf_keywords = [], mf_scope = []\<rparr>, ps_body = ''x''\<rparr>"
    using len(2) by (simp add: read_skill_def Let_def utf lines parts split [simplified] plain_yaml_def validate_manifest_def name blank)
qed


end
