(* ===== verification/Safety.thy ===== *)
theory Safety
  imports Text_Words
begin

text \<open>
  The safety policy of \<open>src/safety.rs\<close>: which shell commands are blocked, which need an
  approval, which paths a tool may read or write in each mode, and what is asked before an
  external tool runs. File-system queries (\<open>exists\<close>, \<open>canonicalize\<close>), the environment's home
  directory, the approver and the JSON printer are arguments.
\<close>

section \<open>Modes and intents\<close>

datatype path_intent = Read | Write | Edit

datatype safety_mode = RequestApproval | RiskApproval | FullAccess

datatype command_decision = Allowed | NeedsApproval string | Blocked string

definition msg_read :: string where
    "msg_read = utf8 [35835, 21462]"

definition msg_write :: string where
    "msg_write = utf8 [20889, 20837]"

definition msg_edit :: string where
    "msg_edit = utf8 [32534, 36753]"

definition intent_label :: "path_intent \<Rightarrow> string" where
  "intent_label i = (case i of Read \<Rightarrow> msg_read | Write \<Rightarrow> msg_write | Edit \<Rightarrow> msg_edit)"

definition mode_parse :: "string \<Rightarrow> safety_mode option" where
  "mode_parse value =
     (let v = to_ascii_lowercase (trim value) in
      if v \<in> {''request'', ''ask'', ''approval'', ''request_approval''} then Some RequestApproval
      else if v \<in> {''risk'', ''risky'', ''auto'', ''risk_approval''} then Some RiskApproval
      else if v \<in> {''full'', ''access'', ''full_access''} then Some FullAccess
      else None)"

definition mode_key :: "safety_mode \<Rightarrow> string" where
  "mode_key m = (case m of
     RequestApproval \<Rightarrow> ''request_approval'' | RiskApproval \<Rightarrow> ''risk_approval'' | FullAccess \<Rightarrow> ''full_access'')"

text \<open>The mode is kept as a byte in an atomic; a byte that is neither 0 nor 2 reads as risk approval.\<close>

definition mode_byte :: "safety_mode \<Rightarrow> 8 word" where
  "mode_byte m = (case m of RequestApproval \<Rightarrow> 0 | RiskApproval \<Rightarrow> 1 | FullAccess \<Rightarrow> 2)"

definition mode_of_byte :: "8 word \<Rightarrow> safety_mode" where
  "mode_of_byte b =
     (if b = mode_byte RequestApproval then RequestApproval
      else if b = mode_byte FullAccess then FullAccess else RiskApproval)"

section \<open>Commands\<close>

text \<open>\<open>trim_matches\<close> of a set of one-byte characters, and the last \<open>/\<close>-separated piece.\<close>

definition trim_matches :: "char set \<Rightarrow> string \<Rightarrow> string" where
  "trim_matches cs s = rev (dropWhile (\<lambda>c. c \<in> cs) (rev (dropWhile (\<lambda>c. c \<in> cs) s)))"

definition quote_chars :: "char set" where
  "quote_chars = {CHR 0x27, CHR 0x22, CHR 0x60}"

definition shell_token_core :: "string \<Rightarrow> string" where
  "shell_token_core = trim_matches (quote_chars \<union> {CHR ''$'', CHR ''('', CHR '')'', CHR ''{'', CHR ''}'', CHR '';''})"

definition base_name :: "string \<Rightarrow> string" where
  "base_name s = rev (takeWhile (\<lambda>c. c \<noteq> CHR ''/'') (rev s))"

definition separator :: "char \<Rightarrow> bool" where
  "separator c \<longleftrightarrow> c \<in> {CHR '';'', CHR ''|'', CHR ''&'', CHR ''('', CHR '')''}"

text \<open>\<open>split\<close> at white space and shell separators; empty pieces are kept, as by \<open>str::split\<close>.\<close>

function split_commands :: "string \<Rightarrow> string \<Rightarrow> string list" where
  "split_commands acc s =
     (if s = [] then [rev acc]
      else if ws_len s > 0 then rev acc # split_commands [] (drop (ws_len s) s)
      else if separator (hd s) then rev acc # split_commands [] (tl s)
      else split_commands (hd s # acc) (tl s))"
  by pat_completeness auto
termination
proof (relation "measure (\<lambda>(acc, s). length s)")
  fix acc s :: string assume "s \<noteq> []" "0 < ws_len s"
  then show "(([], drop (ws_len s) s), (acc, s)) \<in> measure (\<lambda>(acc, s). length s)"
    using ws_len_le [of s] by simp
qed simp_all

declare split_commands.simps [simp del]

definition token_runs :: "string list \<Rightarrow> string \<Rightarrow> bool" where
  "token_runs programs token \<longleftrightarrow>
     (let base = base_name (shell_token_core token) in
      list_ex (\<lambda>p. base = p \<or> starts_with base (p @ ''.'')) programs)"

definition contains_program :: "string \<Rightarrow> string list \<Rightarrow> bool" where
  "contains_program command programs \<longleftrightarrow> list_ex (token_runs programs) (split_commands [] command)"

definition targets_root :: "string \<Rightarrow> bool" where
  "targets_root command \<longleftrightarrow>
     list_ex (\<lambda>t. shell_token_core t \<in> {''/'', ''/*''}) (split_whitespace command)"

definition flag_with :: "char \<Rightarrow> string \<Rightarrow> bool" where
  "flag_with c token \<longleftrightarrow> starts_with token ''-'' \<and> c \<in> set token"

definition catastrophic_target :: "string \<Rightarrow> bool" where
  "catastrophic_target token \<longleftrightarrow>
     shell_token_core token \<in> {''/'', ''/*'', ''~'', ''~/''} \<or>
     trim_matches (quote_chars \<union> {CHR ''('', CHR '')'', CHR '';''}) token \<in> {''$home'', ''${home}''}"

definition is_catastrophic_rm :: "string \<Rightarrow> bool" where
  "is_catastrophic_rm command \<longleftrightarrow>
     contains_program command [''rm''] \<and>
     (let tokens = split_whitespace command in
      list_ex (flag_with CHR ''r'') tokens \<and> list_ex (flag_with CHR ''f'') tokens \<and>
      list_ex catastrophic_target tokens)"

definition msg_fork :: string where
    "msg_fork = utf8 [102, 111, 114, 107, 32, 28856, 24377]"

definition msg_mkfs :: string where
    "msg_mkfs = utf8 [25991, 20214, 31995, 32479, 25830, 38500, 47, 26684, 24335, 21270]"

definition msg_partition :: string where
    "msg_partition = utf8 [30452, 25509, 20462, 25913, 30913, 30424, 20998, 21306]"

definition msg_dd :: string where
    "msg_dd = utf8 [21521, 22359, 35774, 22791, 30452, 25509, 20889, 20837]"

definition msg_redirect :: string where
    "msg_redirect = utf8 [37325, 23450, 21521, 35206, 30422, 22359, 35774, 22791]"

definition msg_rm :: string where
    "msg_rm = utf8 [36882, 24402, 24378, 21046, 21024, 38500, 31995, 32479, 25110, 20027, 30446,
     24405]"

definition msg_chmod :: string where
    "msg_chmod = utf8 [36882, 24402, 31227, 38500, 26681, 30446, 24405, 26435, 38480]"

definition msg_chown :: string where
    "msg_chown = utf8 [36882, 24402, 20462, 25913, 26681, 30446, 24405, 25152, 26377, 26435]"

definition msg_devnull :: string where
    "msg_devnull = utf8 [23558, 25991, 20214, 31227, 21160, 21040, 32, 47, 100, 101, 118, 47, 110,
     117, 108, 108]"

definition msg_find :: string where
    "msg_find = utf8 [20174, 26681, 30446, 24405, 36882, 24402, 21024, 38500]"

definition msg_risky :: string where
    "msg_risky = utf8 [21487, 33021, 24433, 21709, 36827, 31243, 12289, 31995, 32479, 25110, 38590,
     20197, 24674, 22797, 30340, 29366, 24577]"

text \<open>\<open>compact\<close> is the text without any white-space character.\<close>

definition normalized :: "string \<Rightarrow> string" where
  "normalized command = to_ascii_lowercase (join '' '' (split_whitespace command))"

definition compact :: "string \<Rightarrow> string" where
  "compact s = concat (split_whitespace s)"

text \<open>The rules of the hard block, in order, each with its reason.\<close>

definition block_rules :: "(string \<times> (string \<Rightarrow> bool)) list" where
  "block_rules =
     [(msg_fork, \<lambda>n. contains (compact n) '':(){:|:&};:''),
      (msg_mkfs, \<lambda>n. contains_program n [''mkfs'', ''wipefs'']),
      (msg_partition, \<lambda>n. contains_program n [''fdisk'', ''sfdisk'', ''parted''] \<and> contains n ''/dev/''),
      (msg_dd, \<lambda>n. contains_program n [''dd''] \<and> contains (compact n) ''of=/dev/''),
      (msg_redirect, \<lambda>n. list_ex (contains (compact n)) [''>/dev/sd'', ''>/dev/nvme'', ''>/dev/mmcblk'']),
      (msg_rm, is_catastrophic_rm),
      (msg_chmod, \<lambda>n. contains_program n [''chmod''] \<and> contains n ''-r'' \<and> contains n '' 000 '' \<and> targets_root n),
      (msg_chown, \<lambda>n. contains_program n [''chown''] \<and> contains n ''-r'' \<and> targets_root n),
      (msg_devnull, \<lambda>n. contains_program n [''mv''] \<and> contains n '' /dev/null''),
      (msg_find, \<lambda>n. contains_program n [''find''] \<and> targets_root n \<and> contains n ''-delete'')]"

definition risky :: "string \<Rightarrow> bool" where
  "risky n \<longleftrightarrow>
     contains_program n [''kill'', ''pkill'', ''killall''] \<or> contains_program n [''sudo'', ''su''] \<or>
     contains_program n [''shutdown'', ''reboot'', ''poweroff'', ''halt''] \<or>
     contains n ''git reset --hard'' \<or> contains n ''git clean -fd'' \<or> contains n ''cargo publish'' \<or>
     (contains n ''curl '' \<and> contains n ''| sh'') \<or> (contains n ''wget '' \<and> contains n ''| sh'')"

definition classify_command :: "string \<Rightarrow> command_decision" where
  "classify_command command =
     (let n = normalized command in
      case find (\<lambda>(reason, rule). rule n) block_rules of
        Some (reason, _) \<Rightarrow> Blocked reason
      | None \<Rightarrow> if risky n then NeedsApproval msg_risky else Allowed)"

definition command_uses_network :: "string \<Rightarrow> bool" where
  "command_uses_network command \<longleftrightarrow>
     (let n = to_ascii_lowercase command in
      contains n ''http://'' \<or> contains n ''https://'' \<or>
      contains_program n [''curl'', ''wget'', ''ssh'', ''scp'', ''rsync'', ''nc'', ''netcat''])"

section \<open>Paths\<close>

datatype path_part = Root | Cur | Parent | Normal string

type_synonym path = "path_part list"

text \<open>
  \<open>Path::components\<close> on Unix: empty pieces vanish, \<open>.\<close> vanishes except at the front of a
  relative path.
\<close>

fun part_of :: "string \<Rightarrow> path_part" where
  "part_of s = (if s = ''.'' then Cur else if s = ''..'' then Parent else Normal s)"

definition is_absolute :: "string \<Rightarrow> bool" where
  "is_absolute s \<longleftrightarrow> starts_with s ''/''"

definition components :: "string \<Rightarrow> path" where
  "components s =
     (let ps = map part_of (filter (\<lambda>p. p \<noteq> []) (split_on (\<lambda>c. c = CHR ''/'') s)) in
      if is_absolute s then Root # filter (\<lambda>p. p \<noteq> Cur) ps
      else case ps of [] \<Rightarrow> [] | p # ps \<Rightarrow> p # filter (\<lambda>p. p \<noteq> Cur) ps)"

fun part_str :: "path_part \<Rightarrow> string" where
  "part_str Root = ''/''" | "part_str Cur = ''.''" | "part_str Parent = ''..''" | "part_str (Normal s) = s"

definition path_str :: "path \<Rightarrow> string" where
  "path_str p = (case p of
     Root # ps \<Rightarrow> CHR ''/'' # join ''/'' (map part_str ps)
   | _ \<Rightarrow> join ''/'' (map part_str p))"

text \<open>\<open>PathBuf::push\<close> of one component and \<open>PathBuf::pop\<close>.\<close>

definition pop_path :: "path \<Rightarrow> path" where
  "pop_path p = (if p = [] \<or> last p = Root then p else butlast p)"

fun push_part :: "path \<Rightarrow> path_part \<Rightarrow> path" where
  "push_part p Root = [Root]"
| "push_part p Cur = p"
| "push_part p Parent = pop_path p"
| "push_part p (Normal s) = p @ [Normal s]"

definition lexical_normalize :: "path \<Rightarrow> path" where
  "lexical_normalize p = foldl push_part [] p"

definition file_name :: "path \<Rightarrow> string option" where
  "file_name p = (if p = [] then None else case last p of Normal s \<Rightarrow> Some s | _ \<Rightarrow> None)"

datatype safety_error =
    BlockedCommand string
  | OutsideRead path
  | UserRejected string
  | InvalidPath path
  | ProtectedPath path
  | OtherError string

record file_system =
  fs_exists :: "path \<Rightarrow> bool"
  fs_canonicalize :: "path \<Rightarrow> path option"

text \<open>
  Strip names until a prefix exists, canonicalise that prefix and put the names back. Each
  round drops one component of \<open>existing\<close>.
\<close>

function resolve_prefix :: "file_system \<Rightarrow> path \<Rightarrow> path \<Rightarrow> string list \<Rightarrow> safety_error + path" where
  "resolve_prefix fs whole existing names =
     (if fs_exists fs existing then
        (case fs_canonicalize fs existing of
           None \<Rightarrow> Inl (OtherError ''canonicalize'')
         | Some r \<Rightarrow> Inr (r @ map Normal names))
      else case file_name existing of
        None \<Rightarrow> Inl (InvalidPath whole)
      | Some name \<Rightarrow> resolve_prefix fs whole (butlast existing) (name # names))"
  by pat_completeness auto
termination
  by (relation "measure (\<lambda>(fs, whole, existing, names). length existing)")
    (auto simp: file_name_def split: if_splits)

declare resolve_prefix.simps [simp del]

definition resolve_existing_prefix :: "file_system \<Rightarrow> path \<Rightarrow> safety_error + path" where
  "resolve_existing_prefix fs p = resolve_prefix fs p p []"

section \<open>The policy\<close>

record policy =
  pol_workspace :: path
  pol_mode :: safety_mode
  pol_home :: "string option"
  pol_fs :: file_system

text \<open>\<open>workspace.join(requested)\<close> and its components: a \<open>.\<close> is no longer at the front.\<close>

definition resolve_path :: "policy \<Rightarrow> string \<Rightarrow> safety_error + path" where
  "resolve_path pol requested =
     (let candidate = (if is_absolute requested then components requested
                       else pol_workspace pol @ filter (\<lambda>p. p \<noteq> Cur) (components requested))
      in resolve_existing_prefix (pol_fs pol) (lexical_normalize candidate))"

definition protected_roots :: "path list" where
  "protected_roots = map components
     [''/etc'', ''/private/etc'', ''/System'', ''/usr'', ''/bin'', ''/sbin'', ''/dev'', ''/proc'', ''/sys'']"

definition home_secrets :: "string list" where
  "home_secrets = [''.ssh'', ''.aws'', ''.gnupg'']"

definition is_protected_path :: "policy \<Rightarrow> path \<Rightarrow> bool" where
  "is_protected_path pol p \<longleftrightarrow>
     prefix (pol_workspace pol @ [Normal ''.my-agent'']) p \<or>
     list_ex (\<lambda>r. prefix r p) protected_roots \<or>
     (case pol_home pol of
        None \<Rightarrow> False
      | Some h \<Rightarrow> list_ex (\<lambda>n. prefix (components h @ [Normal n]) p) home_secrets) \<or>
     Normal ''.git'' \<in> set p"

type_synonym approver = "string \<Rightarrow> safety_error + bool"

text \<open>\<open>if approval.request(&prompt).await? { Ok(x) } else { Err(UserRejected(prompt)) }\<close>\<close>

definition ask_first :: "approver \<Rightarrow> string \<Rightarrow> 'a \<Rightarrow> safety_error + 'a" where
  "ask_first ask prompt x = bindE (ask prompt) (\<lambda>ok. if ok then Inr x else Inl (UserRejected prompt))"

definition msg_inside :: string where
    "msg_inside = utf8 [24037, 20316, 21306, 20869, 36335, 24452, 32]"

definition msg_outside :: string where
    "msg_outside = utf8 [24037, 20316, 21306, 22806, 36335, 24452, 32]"

definition msg_net :: string where
    "msg_net = utf8 [20351, 29992, 20114, 32852, 32593, 65288, 21629, 20196, 65289, 65306]"

definition msg_high :: string where
    "msg_high = utf8 [25191, 34892, 39640, 39118, 38505, 21629, 20196, 65288]"

definition msg_close :: string where
    "msg_close = utf8 [65289, 65306]"

definition authorize_path :: "policy \<Rightarrow> approver \<Rightarrow> string \<Rightarrow> path_intent \<Rightarrow> safety_error + path" where
  "authorize_path pol ask requested intent =
     bindE (resolve_path pol requested) (\<lambda>resolved.
       if intent \<noteq> Read \<and> is_protected_path pol resolved then Inl (ProtectedPath resolved)
       else if pol_mode pol = FullAccess then Inr resolved
       else if prefix (pol_workspace pol) resolved then
         (if pol_mode pol = RequestApproval \<and> intent \<noteq> Read
          then ask_first ask (intent_label intent @ msg_inside @ path_str resolved) resolved
          else Inr resolved)
       else if intent = Read then Inl (OutsideRead resolved)
       else ask_first ask (intent_label intent @ msg_outside @ path_str resolved) resolved)"

definition authorize_command :: "policy \<Rightarrow> approver \<Rightarrow> string \<Rightarrow> safety_error + unit" where
  "authorize_command pol ask command =
     (case classify_command command of
        Allowed \<Rightarrow>
          if pol_mode pol = RequestApproval \<and> command_uses_network command
          then ask_first ask (msg_net @ command) () else Inr ()
      | Blocked reason \<Rightarrow> Inl (BlockedCommand reason)
      | NeedsApproval reason \<Rightarrow>
          if pol_mode pol = FullAccess then Inr ()
          else ask_first ask (msg_high @ reason @ msg_close @ command) ())"

section \<open>External tools\<close>

definition is_command_key :: "string \<Rightarrow> bool" where
  "is_command_key key \<longleftrightarrow> to_ascii_lowercase key \<in> {''command'', ''cmd'', ''shell''}"

definition is_path_key :: "string \<Rightarrow> bool" where
  "is_path_key key \<longleftrightarrow>
     (let k = to_ascii_lowercase key in
      k \<in> {''path'', ''paths'', ''cwd'', ''directory'', ''root''} \<or> ends_with k ''_path'')"

definition msg_note_cmd :: string where
    "msg_note_cmd = utf8 [39640, 39118, 38505, 21629, 20196, 65306]"

definition msg_note_path :: string where
    "msg_note_path = utf8 [24037, 20316, 21306, 22806, 36335, 24452, 65306]"

definition msg_sep :: string where
    "msg_sep = utf8 [65307]"

definition msg_hint :: string where
    "msg_hint = utf8 [65307, 23433, 20840, 25552, 31034, 65306]"

definition msg_mcp :: string where
    "msg_mcp = utf8 [25191, 34892, 22806, 37096, 32, 77, 67, 80, 32, 24037, 20855, 65288, 40664,
     35748, 35270, 20026, 26377, 21103, 20316, 29992, 65289, 65306]"

definition msg_args :: string where
    "msg_args = utf8 [65307, 21442, 25968, 65306]"

fun inspect_external ::
  "policy \<Rightarrow> json \<Rightarrow> string option \<Rightarrow> string list \<Rightarrow> safety_error + string list"
and inspect_items :: "policy \<Rightarrow> json list \<Rightarrow> string option \<Rightarrow> string list \<Rightarrow> safety_error + string list"
and inspect_fields :: "policy \<Rightarrow> (string \<times> json) list \<Rightarrow> string list \<Rightarrow> safety_error + string list" where
  "inspect_external pol (JObj kvs) key notices = inspect_fields pol kvs notices"
| "inspect_external pol (JArr vs) key notices = inspect_items pol vs key notices"
| "inspect_external pol (JStr s) key notices =
     (case key of
        None \<Rightarrow> Inr notices
      | Some k \<Rightarrow>
          if is_command_key k then
            (case classify_command s of
               Blocked reason \<Rightarrow> Inl (BlockedCommand reason)
             | NeedsApproval reason \<Rightarrow> Inr (notices @ [msg_note_cmd @ reason])
             | Allowed \<Rightarrow> Inr notices)
          else if is_path_key k then
            bindE (resolve_path pol s) (\<lambda>resolved.
              Inr (if prefix (pol_workspace pol) resolved then notices
                   else notices @ [msg_note_path @ path_str resolved]))
          else Inr notices)"
| "inspect_external pol JNull key notices = Inr notices"
| "inspect_external pol (JBool b) key notices = Inr notices"
| "inspect_external pol (JInt i) key notices = Inr notices"
| "inspect_external pol (JNum n) key notices = Inr notices"
| "inspect_items pol [] key notices = Inr notices"
| "inspect_items pol (v # vs) key notices =
     bindE (inspect_external pol v key notices) (inspect_items pol vs key)"
| "inspect_fields pol [] notices = Inr notices"
| "inspect_fields pol ((k, v) # kvs) notices =
     bindE (inspect_external pol v (Some k) notices) (inspect_fields pol kvs)"

definition authorize_external_action ::
  "policy \<Rightarrow> (json \<Rightarrow> string) \<Rightarrow> approver \<Rightarrow> string \<Rightarrow> json \<Rightarrow> safety_error + unit" where
  "authorize_external_action pol render ask description arguments =
     bindE (inspect_external pol arguments None []) (\<lambda>notices.
       if pol_mode pol = FullAccess then Inr ()
       else
         let details = (if notices = [] then [] else msg_hint @ join msg_sep notices)
         in ask_first ask
              (msg_mcp @ description @ msg_args @ take_chars 1000 (render arguments) @ details) ())"

section \<open>A command inside a longer line\<close>

text \<open>\<open>m\<close> is the words \<open>n\<close> with words before and after.\<close>

definition inside :: "string \<Rightarrow> string \<Rightarrow> bool" where
  "inside n m \<longleftrightarrow> (\<exists>p q. m = p @ n @ q \<and> (p = [] \<or> (\<exists>p'. p = p' @ '' '')) \<and> (q = [] \<or> (\<exists>q'. q = '' '' @ q')))"

lemma split_commands_space:
  "split_commands acc (s @ CHR '' '' # t) = split_commands acc s @ split_commands [] t"
proof (induction acc s rule: split_commands.induct)
  case (1 acc s)
  have w: "ws_len (s @ CHR '' '' # t) = ws_len s" if "s \<noteq> []"
    using that by (rule ws_len_seam) simp
  consider "s = []" | "s \<noteq> []" "0 < ws_len s" | "s \<noteq> []" "ws_len s = 0" "separator (hd s)"
    | "s \<noteq> []" "ws_len s = 0" "\<not> separator (hd s)" by blast
  then show ?case
  proof cases
    case 1
    then show ?thesis by (simp add: split_commands.simps [of acc "CHR '' '' # t"] split_commands.simps [of acc "[]"])
  next
    case 2
    have d: "drop (ws_len s) (s @ CHR '' '' # t) = drop (ws_len s) s @ CHR '' '' # t"
      using ws_len_le [of s] by simp
    show ?thesis
      unfolding split_commands.simps [of acc "s @ CHR '' '' # t"] split_commands.simps [of acc s]
      using "1.IH"(1) [OF 2] 2 w d by simp
  next
    case 3
    then show ?thesis
      unfolding split_commands.simps [of acc "s @ CHR '' '' # t"] split_commands.simps [of acc s]
      using "1.IH"(2) w by simp
  next
    case 4
    then show ?thesis
      unfolding split_commands.simps [of acc "s @ CHR '' '' # t"] split_commands.simps [of acc s]
      using "1.IH"(3) w by simp
  qed
qed

lemma contains_middle: "contains n p \<Longrightarrow> contains (a @ n @ b) p"
proof -
  assume "contains n p"
  then obtain u v where "n = u @ p @ v" by (auto simp: contains_iff_sublist sublist_def)
  then show ?thesis using contains_append [of "a @ u" p "v @ b"] by simp
qed

lemma inside_split:
  assumes "inside n m"
  shows "set (split_commands [] n) \<subseteq> set (split_commands [] m)"
    and "\<exists>us vs. split_whitespace m = us @ split_whitespace n @ vs"
    and "contains n t \<Longrightarrow> contains m t"
proof -
  obtain p q where m: "m = p @ n @ q" and p: "p = [] \<or> (\<exists>p'. p = p' @ '' '')" and q: "q = [] \<or> (\<exists>q'. q = '' '' @ q')"
    using assms by (auto simp: inside_def)
  have nq: "set (split_commands [] n) \<subseteq> set (split_commands [] (n @ q))"
    and wq: "\<exists>vs. split_whitespace (n @ q) = split_whitespace n @ vs"
    using q by (auto simp: split_commands_space split_whitespace_space)
  show "set (split_commands [] n) \<subseteq> set (split_commands [] m)"
    using p nq by (auto simp: m split_commands_space)
  show "\<exists>us vs. split_whitespace m = us @ split_whitespace n @ vs"
  proof -
    obtain vs where vs: "split_whitespace (n @ q) = split_whitespace n @ vs" using wq by blast
    from p show ?thesis
    proof
      assume "p = []"
      then show ?thesis using vs by (intro exI [of _ "[]"] exI [of _ vs]) (simp add: m)
    next
      assume "\<exists>p'. p = p' @ '' ''"
      then obtain p' where "p = p' @ '' ''" by blast
      then show ?thesis
        using vs by (intro exI [of _ "split_whitespace p'"] exI [of _ vs]) (simp add: m split_whitespace_space)
    qed
  qed
  show "contains n t \<Longrightarrow> contains m t"
    by (simp add: m contains_middle)
qed

lemma inside_rules:
  assumes "inside n m"
  shows "contains_program n ps \<Longrightarrow> contains_program m ps" "targets_root n \<Longrightarrow> targets_root m"
    "is_catastrophic_rm n \<Longrightarrow> is_catastrophic_rm m" "contains (compact n) p \<Longrightarrow> contains (compact m) p"
proof -
  obtain us vs where w: "split_whitespace m = us @ split_whitespace n @ vs" using inside_split(2) [OF assms] by blast
  show prog: "contains_program n ps \<Longrightarrow> contains_program m ps" for ps
    using inside_split(1) [OF assms] by (auto simp: contains_program_def list_ex_iff)
  show "targets_root n \<Longrightarrow> targets_root m" by (auto simp: targets_root_def w)
  show "is_catastrophic_rm n \<Longrightarrow> is_catastrophic_rm m" using prog by (auto simp: is_catastrophic_rm_def Let_def w)
  show "contains (compact n) p \<Longrightarrow> contains (compact m) p"
    by (simp add: compact_def w contains_middle)
qed

lemma block_rules_inside:
  assumes "inside n m" "(reason, rule) \<in> set block_rules" "rule n"
  shows "rule m"
  using assms(2,3) inside_split(3) [OF assms(1)] inside_rules [OF assms(1)]
  by (auto simp: block_rules_def)

lemma classify_Blocked_iff:
  "(\<exists>r. classify_command c = Blocked r) \<longleftrightarrow> (\<exists>reason rule. (reason, rule) \<in> set block_rules \<and> rule (normalized c))"
proof (cases "find (\<lambda>(reason, rule). rule (normalized c)) block_rules")
  case None
  then have "\<nexists>r. classify_command c = Blocked r" by (simp add: classify_command_def Let_def None)
  moreover have "\<nexists>reason rule. (reason, rule) \<in> set block_rules \<and> rule (normalized c)"
    using None by (auto simp: find_None_iff)
  ultimately show ?thesis by blast
next
  case (Some r)
  obtain reason rule where r: "r = (reason, rule)" by (cases r)
  then have "(reason, rule) \<in> set block_rules" "rule (normalized c)"
    using Some by (auto simp: find_Some_iff) (metis nth_mem)
  moreover have "classify_command c = Blocked reason" by (simp add: classify_command_def Let_def Some r)
  ultimately show ?thesis by blast
qed

lemma normalized_inside:
  assumes "split_whitespace c \<noteq> []"
  shows "inside (normalized c) (normalized (pre @ '' '' @ c @ '' '' @ post))"
proof -
  let ?l = to_ascii_lowercase
  have "split_whitespace (pre @ '' '' @ c @ '' '' @ post) = split_whitespace pre @ split_whitespace c @ split_whitespace post"
    by (simp add: split_whitespace_space)
  moreover have "?l (xs @ ys) = ?l xs @ ?l ys" "?l (CHR '' '' # xs) = CHR '' '' # ?l xs" for xs ys
    by (simp_all add: to_ascii_lowercase_def ascii_lower_def byte_def)
  ultimately have "normalized (pre @ '' '' @ c @ '' '' @ post) =
      (if split_whitespace pre = [] then [] else normalized pre @ '' '') @ normalized c @
      (if split_whitespace post = [] then [] else '' '' @ normalized post)"
    using assms unfolding normalized_def by (simp add: join_append)
  then show ?thesis unfolding inside_def by (intro exI conjI) (assumption, auto)
qed

lemma blocked_not_empty: "classify_command c = Blocked r \<Longrightarrow> split_whitespace c \<noteq> []"
proof
  assume "classify_command c = Blocked r" "split_whitespace c = []"
  moreover have "split_commands [] [] = [[]]" by (simp add: split_commands.simps)
  ultimately show False
    by (auto simp: classify_command_def Let_def normalized_def to_ascii_lowercase_def block_rules_def compact_def
        split_whitespace_def contains_program_def token_runs_def shell_token_core_def trim_matches_def base_name_def
        starts_with_def is_catastrophic_rm_def targets_root_def split: if_splits)
qed

text \<open>
  C26: Blocked stays blocked. A command that is blocked is blocked in every longer line that
  contains it between other words, whatever comes before and after, and then no mode and no
  approver lets it run.
\<close>

theorem blocked_in_context:
  assumes "classify_command c = Blocked r"
  shows "\<exists>reason. authorize_command pol ask (pre @ '' '' @ c @ '' '' @ post) = Inl (BlockedCommand reason)"
proof -
  obtain reason rule where "(reason, rule) \<in> set block_rules" "rule (normalized c)"
    using assms classify_Blocked_iff by blast
  then have "rule (normalized (pre @ '' '' @ c @ '' '' @ post))"
    using block_rules_inside [OF normalized_inside [OF blocked_not_empty [OF assms]]] by blast
  with \<open>(reason, rule) \<in> _\<close> obtain r' where "classify_command (pre @ '' '' @ c @ '' '' @ post) = Blocked r'"
    using classify_Blocked_iff by blast
  then show ?thesis by (simp add: authorize_command_def)
qed

lemma normalized_respects:
  "map to_ascii_lowercase (split_whitespace c) = map to_ascii_lowercase (split_whitespace c') \<Longrightarrow> normalized c = normalized c'"
  by (simp add: normalized_def lower_join)

text \<open>
  Spelling does not matter: the verdict on a command depends only on its words without
  their case: extra or other white space and capital letters change nothing.
\<close>

lemma classify_respects_spelling:
  "classify_command (to_ascii_lowercase c) = classify_command c \<and>
   classify_command (join '' '' (split_whitespace c)) = classify_command c \<and>
   classify_command ('' '' @ c @ '' '') = classify_command c"
proof -
  have "normalized (to_ascii_lowercase c) = normalized c"
    by (rule normalized_respects) (simp add: split_whitespace_lower to_ascii_lowercase_idem comp_def)
  moreover have "normalized (join '' '' (split_whitespace c)) = normalized c"
    by (rule normalized_respects) (simp add: split_join_split)
  moreover have "split_whitespace ('' '' @ c @ '' '') = split_whitespace c"
    using split_whitespace_space [of "[]" "c @ '' ''"] split_whitespace_space [of c "[]"]
    by (simp add: split_whitespace_def)
  then have "normalized ('' '' @ c @ '' '') = normalized c" by (simp add: normalized_def)
  ultimately show ?thesis unfolding classify_command_def by simp
qed

section \<open>External arguments\<close>

text \<open>All strings that stand under a command key, through arrays and objects.\<close>

fun command_strings :: "json \<Rightarrow> string option \<Rightarrow> string list"
and command_items :: "json list \<Rightarrow> string option \<Rightarrow> string list"
and command_fields :: "(string \<times> json) list \<Rightarrow> string list" where
  "command_strings (JObj kvs) key = command_fields kvs"
| "command_strings (JArr vs) key = command_items vs key"
| "command_strings (JStr s) key = (case key of None \<Rightarrow> [] | Some k \<Rightarrow> if is_command_key k then [s] else [])"
| "command_strings JNull key = []"
| "command_strings (JBool b) key = []"
| "command_strings (JInt i) key = []"
| "command_strings (JNum n) key = []"
| "command_items [] key = []"
| "command_items (v # vs) key = command_strings v key @ command_items vs key"
| "command_fields [] = []"
| "command_fields ((k, v) # kvs) = command_strings v (Some k) @ command_fields kvs"

definition not_blocked :: "string \<Rightarrow> bool" where
  "not_blocked s \<longleftrightarrow> (case classify_command s of Blocked r \<Rightarrow> False | _ \<Rightarrow> True)"

lemma inspect_commands:
  "inspect_external pol v key ns = Inr ns' \<Longrightarrow> list_all not_blocked (command_strings v key)"
  "inspect_items pol vs key ns = Inr ns' \<Longrightarrow> list_all not_blocked (command_items vs key)"
  "inspect_fields pol kvs ns = Inr ns' \<Longrightarrow> list_all not_blocked (command_fields kvs)"
proof (induction pol v key ns and pol vs key ns and pol kvs ns arbitrary: ns' and ns' and ns'
    rule: inspect_external_inspect_items_inspect_fields.induct)
qed (auto simp: result_simps not_blocked_def split: option.splits if_splits command_decision.splits)

text \<open>
  External tools cannot smuggle a command. When an external action is authorised, in any
  mode and with any approver, no string under a command key anywhere in its arguments is a
  blocked command; and unless the mode is full access, the approver said yes.
\<close>

theorem external_action_checked:
  assumes "authorize_external_action pol render ask description arguments = Inr ()"
  shows "list_all not_blocked (command_strings arguments None) \<and>
    (pol_mode pol = FullAccess \<or> (\<exists>prompt. ask prompt = Inr True))"
  using assms
  by (auto simp: authorize_external_action_def ask_first_def Let_def result_simps split: if_split_asm
      dest!: inspect_commands(1))

section \<open>Paths\<close>

text \<open>A clean path: a root at most at the front, then plain names.\<close>

definition clean :: "path \<Rightarrow> bool" where
  "clean p \<longleftrightarrow> list_all (\<lambda>c. case c of Normal s \<Rightarrow> True | _ \<Rightarrow> False) (case p of Root # ps \<Rightarrow> ps | _ \<Rightarrow> p)"

lemma clean_Nil [simp]: "clean []" "clean [Root]"
  by (simp_all add: clean_def)

lemma clean_snoc: "clean p \<Longrightarrow> clean (p @ [Normal s])"
  by (cases p) (auto simp: clean_def split: path_part.splits)

lemma clean_names: "clean p \<Longrightarrow> clean (p @ map Normal ns)"
proof (induction ns arbitrary: p)
  case (Cons n ns)
  then show ?case using Cons.IH [OF clean_snoc [OF Cons.prems, of n]] by simp
qed simp

lemma clean_pop: "clean p \<Longrightarrow> clean (pop_path p)"
proof -
  assume c: "clean p"
  have "list_all P (butlast xs)" if "list_all P xs" for P :: "path_part \<Rightarrow> bool" and xs
    using that in_set_butlastD [of _ xs] by (auto simp: list_all_iff)
  with c show ?thesis by (cases p) (auto simp: clean_def pop_path_def split: path_part.splits)
qed

lemma clean_push: "clean p \<Longrightarrow> clean (push_part p c)"
  by (cases c) (simp_all add: clean_snoc clean_pop)

lemma clean_normalize: "clean (lexical_normalize p)"
proof -
  have "clean q \<Longrightarrow> clean (foldl push_part q p)" for q
    by (induction p arbitrary: q) (simp_all add: clean_push)
  then show ?thesis by (simp add: lexical_normalize_def)
qed

lemma normalize_clean: "clean p \<Longrightarrow> lexical_normalize p = p"
proof -
  have names: "foldl push_part q ps = q @ ps" if "list_all (\<lambda>c. case c of Normal s \<Rightarrow> True | _ \<Rightarrow> False) ps" for q ps
    using that by (induction ps arbitrary: q) (auto split: path_part.splits)
  assume "clean p"
  then show ?thesis
    by (cases p) (auto simp: clean_def lexical_normalize_def names split: path_part.splits)
qed

lemma resolve_prefix_Inr:
  assumes "resolve_prefix fs whole existing names = Inr p"
  shows "\<exists>q c ns. fs_exists fs q \<and> fs_canonicalize fs q = Some c \<and> existing = q @ map Normal ns \<and>
    p = c @ map Normal (ns @ names)"
  using assms
proof (induction fs whole existing names rule: resolve_prefix.induct)
  case (1 fs whole existing names)
  show ?case
  proof (cases "fs_exists fs existing")
    case True
    then obtain c where "fs_canonicalize fs existing = Some c" "p = c @ map Normal names"
      using "1.prems" by (subst (asm) resolve_prefix.simps) (auto split: option.splits)
    with True show ?thesis by (intro exI [of _ existing] exI [of _ c] exI [of _ "[]"]) simp
  next
    case False
    then obtain name where n: "file_name existing = Some name"
      using "1.prems" by (subst (asm) resolve_prefix.simps) (auto split: option.splits)
    then have e: "existing = butlast existing @ [Normal name]"
      by (auto simp: file_name_def split: if_splits path_part.splits) (metis append_butlast_last_id)
    have "resolve_prefix fs whole (butlast existing) (name # names) = Inr p"
      using "1.prems" False n by (subst (asm) resolve_prefix.simps) simp
    from "1.IH" [OF False n this] obtain q c ns where "fs_exists fs q" "fs_canonicalize fs q = Some c"
        "butlast existing = q @ map Normal ns" "p = c @ map Normal (ns @ name # names)" by blast
    then show ?thesis using e by (intro exI [of _ q] exI [of _ c] exI [of _ "ns @ [name]"]) simp
  qed
qed

text \<open>
  No traversal. Where the file system canonicalises to clean paths, the path a tool gets
  never holds a \<open>..\<close> or \<open>.\<close>: it is the canonical form of an existing prefix of the normalised
  request followed by the names that do not exist yet.
\<close>

theorem no_traversal:
  assumes "\<And>q c. fs_canonicalize (pol_fs pol) q = Some c \<Longrightarrow> clean c"
    and "authorize_path pol ask requested intent = Inr p"
  shows "clean p \<and> (\<exists>q c ns. fs_exists (pol_fs pol) q \<and> fs_canonicalize (pol_fs pol) q = Some c \<and>
    clean (q @ map Normal ns) \<and> p = c @ map Normal ns)"
proof -
  have "resolve_path pol requested = Inr p"
    using assms(2) by (auto simp: authorize_path_def ask_first_def result_simps split: if_split_asm)
  then obtain w where w: "resolve_prefix (pol_fs pol) (lexical_normalize w) (lexical_normalize w) [] = Inr p"
    by (auto simp: resolve_path_def resolve_existing_prefix_def Let_def)
  then obtain q c ns where r: "fs_exists (pol_fs pol) q" "fs_canonicalize (pol_fs pol) q = Some c"
      "lexical_normalize w = q @ map Normal ns" "p = c @ map Normal ns"
    using resolve_prefix_Inr [OF w] by auto
  moreover have "clean (q @ map Normal ns)" using clean_normalize [of w] r(3) by simp
  ultimately show ?thesis using assms(1) [OF r(2)] clean_names by blast
qed

lemma authorize_path_Inr:
  assumes "authorize_path pol ask requested intent = Inr p"
  shows "(intent = Read \<or> \<not> is_protected_path pol p) \<and>
    (pol_mode pol = FullAccess \<or> prefix (pol_workspace pol) p \<and> (intent = Read \<or> pol_mode pol = RiskApproval) \<or>
     intent \<noteq> Read \<and> (\<exists>prompt. ask prompt = Inr True))"
  using assms
  by (cases "pol_mode pol") (auto simp: authorize_path_def ask_first_def result_simps split: if_split_asm)

text \<open>
  C27: Who may write where. A write or edit that is authorised never goes to a protected path,
  in any mode; outside the workspace, and in the request mode also inside, only after the
  approver said yes, unless the mode is full access. A read leaves the workspace only in full
  access.
\<close>

theorem write_access_guarded:
  assumes "authorize_path pol ask requested intent = Inr p"
  shows "(intent = Read \<or> \<not> is_protected_path pol p) \<and>
    (pol_mode pol = FullAccess \<or> prefix (pol_workspace pol) p \<and> (intent = Read \<or> pol_mode pol = RiskApproval) \<or>
     intent \<noteq> Read \<and> (\<exists>prompt. ask prompt = Inr True))"
  using assms by (rule authorize_path_Inr)

section \<open>Concrete policies\<close>

text \<open>A file system in which only the root exists, and a workspace \<open>/w\<close>.\<close>

definition bare_fs :: file_system where
  "bare_fs = \<lparr>fs_exists = (\<lambda>q. q = [Root]), fs_canonicalize = (\<lambda>q. if clean q then Some q else None)\<rparr>"

definition bare_policy :: policy where
  "bare_policy = \<lparr>pol_workspace = [Root, Normal ''w''], pol_mode = RiskApproval, pol_home = None, pol_fs = bare_fs\<rparr>"

theorem blocked_in_context_witness:
  "classify_command ''mkfs'' = Blocked msg_mkfs \<and>
   (\<exists>reason. authorize_command bare_policy (\<lambda>_. Inr True) (''echo'' @ '' '' @ ''mkfs'' @ '' '' @ ''x'') = Inl (BlockedCommand reason))"
proof -
  have "split_whitespace ''mkfs'' = [''mkfs'']" "split_commands [] ''mkfs'' = [''mkfs'']"
    by (simp_all add: split_whitespace_def split_ws.simps split_commands.simps ascii_ws_def ws2_def ws3_def byte_def separator_def)
  then have c: "classify_command ''mkfs'' = Blocked msg_mkfs"
    by (simp add: classify_command_def normalized_def to_ascii_lowercase_def ascii_lower_def byte_def block_rules_def
        compact_def contains_program_def token_runs_def shell_token_core_def trim_matches_def base_name_def
        quote_chars_def Let_def)
  then show ?thesis using blocked_in_context [OF c] by blast
qed

lemma bare_write: "authorize_path bare_policy (\<lambda>_. Inr False) ''a/../b'' Write = Inr [Root, Normal ''w'', Normal ''b'']"
  by (simp add: authorize_path_def resolve_path_def bare_policy_def bare_fs_def is_absolute_def starts_with_def
      components_def lexical_normalize_def pop_path_def resolve_existing_prefix_def resolve_prefix.simps
      file_name_def is_protected_path_def protected_roots_def clean_def)

theorem external_action_checked_witness:
  "list_all not_blocked (command_strings (JObj [(''path'', JStr ''x'')]) None) \<and>
   authorize_external_action bare_policy (\<lambda>_. []) (\<lambda>_. Inr True) ''tool'' (JObj [(''path'', JStr ''x'')]) = Inr ()"
proof -
  have "authorize_external_action bare_policy (\<lambda>_. []) (\<lambda>_. Inr True) ''tool'' (JObj [(''path'', JStr ''x'')]) = Inr ()"
    by (simp add: authorize_external_action_def is_command_key_def is_path_key_def to_ascii_lowercase_def ascii_lower_def
        byte_def resolve_path_def bare_policy_def bare_fs_def is_absolute_def starts_with_def components_def
        lexical_normalize_def resolve_existing_prefix_def resolve_prefix.simps file_name_def clean_def ask_first_def
        Let_def)
  with external_action_checked [OF this] show ?thesis by simp
qed

theorem no_traversal_witness:
  "authorize_path bare_policy (\<lambda>_. Inr False) ''a/../b'' Write = Inr [Root, Normal ''w'', Normal ''b''] \<and>
   clean [Root, Normal ''w'', Normal ''b'']"
proof -
  have "fs_canonicalize (pol_fs bare_policy) q = Some c \<Longrightarrow> clean c" for q c
    by (simp add: bare_policy_def bare_fs_def split: if_splits)
  from no_traversal [OF this bare_write] show ?thesis using bare_write by simp
qed

theorem write_access_guarded_witness:
  "authorize_path bare_policy (\<lambda>_. Inr False) ''a/../b'' Write = Inr [Root, Normal ''w'', Normal ''b''] \<and>
   \<not> is_protected_path bare_policy [Root, Normal ''w'', Normal ''b'']"
  using write_access_guarded [OF bare_write] bare_write by simp

section \<open>An approver that always refuses\<close>

text \<open>
  Where nobody can be asked, the policy alone decides: what goes through is what it allows by
  itself.
\<close>

locale unattended =
  fixes ask :: approver
  assumes refuses: "ask prompt = Inr False"
begin

lemma never_granted: "ask_first ask prompt x = Inl (UserRejected prompt)"
  by (simp add: ask_first_def refuses)

lemma path_within_workspace:
  "authorize_path pol ask requested intent = Inr p \<Longrightarrow>
   pol_mode pol = FullAccess \<or> prefix (pol_workspace pol) p \<and> (intent = Read \<or> pol_mode pol = RiskApproval)"
  using authorize_path_Inr [of pol ask requested intent p] by (auto simp: refuses)

lemma command_allowed:
  "authorize_command pol ask command = Inr () \<Longrightarrow>
   pol_mode pol \<noteq> FullAccess \<Longrightarrow> classify_command command = Allowed"
  by (auto simp: authorize_command_def never_granted split: command_decision.splits)

lemma no_external_action:
  "authorize_external_action pol render ask description arguments = Inr () \<Longrightarrow> pol_mode pol = FullAccess"
  by (auto simp: authorize_external_action_def never_granted Let_def result_simps split: if_split_asm)

end

end
