(* ===== verification/Cron.thy ===== *)
theory Cron
  imports Safety
begin

text \<open>
  Scheduled jobs, \<open>src/cron.rs\<close>: the job store with its file, the choice of due jobs, and the
  execution of one job with its retries. The cron library, the clock, the file system's
  verdict on a write and the runner's answers are arguments.
\<close>

section \<open>Jobs\<close>

datatype schedule_spec = Interval u64 | CronExpr string

record run_note =
  rn_started :: u64
  rn_finished :: u64
  rn_attempts :: u32
  rn_success :: bool
  rn_result :: string

record cron_job =
  job_id :: string
  job_name :: string
  job_schedule :: schedule_spec
  job_prompt :: string
  job_enabled :: bool
  job_max_retries :: u32
  job_backoff :: u64
  job_next_run :: u64
  job_history :: "run_note list"

definition max_history :: nat where
  "max_history = 20"

text \<open>What the file system and the library said.\<close>

datatype cron_error =
    ZeroInterval
  | BadCron
  | NoNextRun
  | EmptyField
  | DuplicateName string
  | NotFound string
  | AlreadyRunning string
  | PersistFailed
  | ClockError

text \<open>
  The \<open>cron\<close> crate: \<open>cl_parse\<close> says whether \<open>Schedule::from_str\<close> takes the text, \<open>cl_next\<close> is
  the first firing after an instant as seconds, if there is one.
\<close>

record cron_lib =
  cl_parse :: "string \<Rightarrow> bool"
  cl_next :: "string \<Rightarrow> u64 \<Rightarrow> u64 option"

definition parse_five_field_cron :: "cron_lib \<Rightarrow> string \<Rightarrow> cron_error + string" where
  "parse_five_field_cron lib e =
     (if length (split_whitespace e) \<noteq> 5 then Inl BadCron
      else if cl_parse lib (''0 '' @ e) then Inr (''0 '' @ e) else Inl BadCron)"

definition validate_schedule :: "cron_lib \<Rightarrow> schedule_spec \<Rightarrow> cron_error + unit" where
  "validate_schedule lib s = (case s of
     Interval n \<Rightarrow> if n = 0 then Inl ZeroInterval else Inr ()
   | CronExpr e \<Rightarrow> bindE (parse_five_field_cron lib e) (\<lambda>_. Inr ()))"

definition next_after :: "cron_lib \<Rightarrow> schedule_spec \<Rightarrow> u64 \<Rightarrow> cron_error + u64" where
  "next_after lib s after = (case s of
     Interval n \<Rightarrow> Inr (sat_add after n)
   | CronExpr e \<Rightarrow> bindE (parse_five_field_cron lib e) (\<lambda>p. ok_or NoNextRun (cl_next lib p after)))"

section \<open>The store\<close>

text \<open>
  \<open>commit\<close> writes the file and then the memory; when the write fails neither changes.
  \<open>saved\<close> is the verdict on the write.
\<close>

record cron_store =
  cs_jobs :: "cron_job list"
  cs_file :: "cron_job list option"

definition commit_jobs :: "bool \<Rightarrow> cron_job list \<Rightarrow> cron_store \<Rightarrow> cron_error + cron_store" where
  "commit_jobs saved js s = (if saved then Inr (s\<lparr>cs_jobs := js, cs_file := Some js\<rparr>) else Inl PersistFailed)"

text \<open>\<open>file\<close>: none, or its contents after \<open>serde_json\<close>, \<open>None\<close> where they do not parse.\<close>

definition load_jobs :: "cron_lib \<Rightarrow> cron_job list option option \<Rightarrow> cron_error + cron_store" where
  "load_jobs lib file = (case file of
     None \<Rightarrow> Inr \<lparr>cs_jobs = [], cs_file = None\<rparr>
   | Some None \<Rightarrow> Inl PersistFailed
   | Some (Some js) \<Rightarrow>
       (case find (\<lambda>j. case validate_schedule lib (job_schedule j) of Inl _ \<Rightarrow> True | Inr _ \<Rightarrow> False) js of
          Some j \<Rightarrow> (case validate_schedule lib (job_schedule j) of Inl e \<Rightarrow> Inl e | Inr _ \<Rightarrow> Inl BadCron)
        | None \<Rightarrow> Inr \<lparr>cs_jobs = js, cs_file = Some js\<rparr>))"

text \<open>An unreadable file is left alone and the store starts empty.\<close>

definition load_best_effort :: "cron_lib \<Rightarrow> cron_job list option option \<Rightarrow> cron_store" where
  "load_best_effort lib file = (case load_jobs lib file of
     Inr s \<Rightarrow> s | Inl _ \<Rightarrow> \<lparr>cs_jobs = [], cs_file = (case file of Some js \<Rightarrow> js | None \<Rightarrow> None)\<rparr>)"

definition job_is :: "string \<Rightarrow> cron_job \<Rightarrow> bool" where
  "job_is key j \<longleftrightarrow> job_id j = key \<or> job_name j = key"

text \<open>\<open>find_job_mut\<close> followed by a write to the job: the first match only.\<close>

fun update_first :: "('a \<Rightarrow> bool) \<Rightarrow> ('a \<Rightarrow> 'a) \<Rightarrow> 'a list \<Rightarrow> 'a list" where
  "update_first p f [] = []"
| "update_first p f (x # xs) = (if p x then f x # xs else x # update_first p f xs)"

fun remove_first :: "('a \<Rightarrow> bool) \<Rightarrow> 'a list \<Rightarrow> 'a list" where
  "remove_first p [] = []"
| "remove_first p (x # xs) = (if p x then xs else x # remove_first p xs)"

definition get_job :: "string \<Rightarrow> cron_store \<Rightarrow> cron_error + cron_job" where
  "get_job key s = ok_or (NotFound key) (find (job_is key) (cs_jobs s))"

definition add_job ::
  "cron_lib \<Rightarrow> bool \<Rightarrow> u64 \<Rightarrow> u64 \<Rightarrow> string \<Rightarrow> schedule_spec \<Rightarrow> string \<Rightarrow> u32 \<Rightarrow> u64 \<Rightarrow> cron_store \<Rightarrow>
   cron_error + cron_job \<times> cron_store" where
  "add_job lib saved now seq name sch prompt retries backoff s =
     (if is_blank name \<or> is_blank prompt then Inl EmptyField
      else bindE (validate_schedule lib sch) (\<lambda>_.
           bindE (next_after lib sch now) (\<lambda>next.
             let job = \<lparr>job_id = ''cron-'' @ dec (unat now) @ ''-'' @ dec (unat seq), job_name = name,
                        job_schedule = sch, job_prompt = prompt, job_enabled = True,
                        job_max_retries = retries, job_backoff = backoff, job_next_run = next, job_history = []\<rparr>
             in if list_ex (\<lambda>j. job_name j = name) (cs_jobs s) then Inl (DuplicateName name)
                else bindE (commit_jobs saved (cs_jobs s @ [job]) s) (\<lambda>s. Inr (job, s)))))"

definition set_enabled ::
  "cron_lib \<Rightarrow> bool \<Rightarrow> u64 \<Rightarrow> string \<Rightarrow> bool \<Rightarrow> cron_store \<Rightarrow> cron_error + cron_job \<times> cron_store" where
  "set_enabled lib saved now key enabled s =
     bindE (get_job key s) (\<lambda>j.
     bindE (if enabled then bindE (next_after lib (job_schedule j) now) (\<lambda>n. Inr (j\<lparr>job_enabled := True, job_next_run := n\<rparr>))
            else Inr (j\<lparr>job_enabled := False\<rparr>)) (\<lambda>j'.
     bindE (commit_jobs saved (update_first (job_is key) (\<lambda>_. j') (cs_jobs s)) s) (\<lambda>s. Inr (j', s))))"

definition remove_job :: "bool \<Rightarrow> string \<Rightarrow> cron_store \<Rightarrow> cron_error + cron_job \<times> cron_store" where
  "remove_job saved key s =
     bindE (get_job key s) (\<lambda>j.
     bindE (commit_jobs saved (remove_first (job_is key) (cs_jobs s)) s) (\<lambda>s. Inr (j, s)))"

definition due :: "u64 \<Rightarrow> cron_job \<Rightarrow> bool" where
  "due now j \<longleftrightarrow> job_enabled j \<and> job_next_run j \<le> now"

fun advance_due :: "cron_lib \<Rightarrow> u64 \<Rightarrow> cron_job list \<Rightarrow> cron_error + cron_job list" where
  "advance_due lib now [] = Inr []"
| "advance_due lib now (j # js) =
     bindE (if due now j
            then bindE (next_after lib (job_schedule j) now) (\<lambda>n. Inr (j\<lparr>job_next_run := n\<rparr>)) else Inr j) (\<lambda>j'.
     bindE (advance_due lib now js) (\<lambda>js'. Inr (j' # js')))"

definition take_due :: "cron_lib \<Rightarrow> bool \<Rightarrow> u64 \<Rightarrow> cron_store \<Rightarrow> cron_error + cron_job list \<times> cron_store" where
  "take_due lib saved now s =
     bindE (advance_due lib now (cs_jobs s)) (\<lambda>js.
       let ds = filter (due now) (cs_jobs s) in
       if ds = [] then Inr ([], s)
       else bindE (commit_jobs saved js s) (\<lambda>s. Inr (ds, s)))"

definition keep_history :: "run_note list \<Rightarrow> run_note list" where
  "keep_history h = (if length h > max_history then drop (length h - max_history) h else h)"

definition record_run :: "bool \<Rightarrow> string \<Rightarrow> run_note \<Rightarrow> cron_store \<Rightarrow> cron_error + cron_store" where
  "record_run saved key note s =
     bindE (get_job key s) (\<lambda>_.
       commit_jobs saved
         (update_first (job_is key) (\<lambda>j. j\<lparr>job_history := keep_history (job_history j @ [note])\<rparr>) (cs_jobs s)) s)"

definition has_enabled_jobs :: "cron_store \<Rightarrow> bool" where
  "has_enabled_jobs s = list_ex job_enabled (cs_jobs s)"

section \<open>Running a job\<close>

text \<open>
  The retry loop. \<open>out i\<close> is the runner's answer to the attempt number \<open>i\<close>, an error as \<open>Inl\<close>;
  the result is the number of attempts, the outcome and the pauses taken. The counter is a
  32-bit integer that saturates, so the loop need not end.
\<close>

definition retry_delay :: "cron_job \<Rightarrow> u32 \<Rightarrow> u64" where
  "retry_delay job attempts =
     sat_mul (job_backoff job) (push_bit (unat (min (sat_sub attempts 1) 20)) 1)"

partial_function (option) retry_loop ::
  "cron_job \<Rightarrow> (nat \<Rightarrow> string + string) \<Rightarrow> nat \<Rightarrow> u32 \<Rightarrow> u64 list \<Rightarrow> (u32 \<times> (bool \<times> string) \<times> u64 list) option" where
  "retry_loop job out i attempts slept =
     (let attempts = sat_add attempts 1 in
      case out i of
        Inr r \<Rightarrow> Some (attempts, (True, r), slept)
      | Inl e \<Rightarrow>
          if attempts \<le> job_max_retries job
          then retry_loop job out (Suc i) attempts
                 (if retry_delay job attempts > 0 then slept @ [retry_delay job attempts] else slept)
          else Some (attempts, (False, e), slept))"

declare retry_loop.simps [code]

record manager =
  mg_store :: cron_store
  mg_running :: "string set"

text \<open>
  \<open>execute_job\<close>: the result and the manager after it; \<open>None\<close> is a job whose retries never end.
  \<open>started\<close> and \<open>finished\<close> are the clock reads, \<open>None\<close> for a clock before the epoch.
\<close>

definition execute_job ::
  "bool \<Rightarrow> u64 option \<Rightarrow> u64 option \<Rightarrow> (nat \<Rightarrow> string + string) \<Rightarrow> cron_job \<Rightarrow> manager \<Rightarrow>
   ((cron_error + run_note) \<times> manager) option" where
  "execute_job saved started finished out job m =
     (if job_id job \<in> mg_running m then Some (Inl (AlreadyRunning (job_name job)), m)
      else
        let m = m\<lparr>mg_running := insert (job_id job) (mg_running m)\<rparr> in
        case started of
          None \<Rightarrow> Some (Inl ClockError, m)
        | Some t0 \<Rightarrow>
            map_option (\<lambda>(attempts, (success, result), _).
              let m = m\<lparr>mg_running := mg_running m - {job_id job}\<rparr> in
              case finished of
                None \<Rightarrow> (Inl ClockError, m)
              | Some t1 \<Rightarrow>
                  let note = \<lparr>rn_started = t0, rn_finished = t1, rn_attempts = attempts,
                              rn_success = success, rn_result = result\<rparr>
                  in case record_run saved (job_id job) note (mg_store m) of
                       Inl e \<Rightarrow> (Inl e, m)
                     | Inr s \<Rightarrow> (Inr note, m\<lparr>mg_store := s\<rparr>))
              (retry_loop job out 0 0 []))"

definition run_now ::
  "bool \<Rightarrow> u64 option \<Rightarrow> u64 option \<Rightarrow> (nat \<Rightarrow> string + string) \<Rightarrow> string \<Rightarrow> manager \<Rightarrow>
   ((cron_error + run_note) \<times> manager) option" where
  "run_now saved started finished out key m =
     (case get_job key (mg_store m) of
        Inl e \<Rightarrow> Some (Inl e, m)
      | Inr job \<Rightarrow> execute_job saved started finished out job m)"

text \<open>The due jobs one after the other; an error of one is logged and the next one runs.\<close>

fun run_each ::
  "(cron_job \<Rightarrow> manager \<Rightarrow> ((cron_error + run_note) \<times> manager) option) \<Rightarrow> cron_job list \<Rightarrow> manager \<Rightarrow>
   manager option" where
  "run_each exec [] m = Some m"
| "run_each exec (j # js) m = Option.bind (exec j m) (\<lambda>(_, m). run_each exec js m)"

definition run_due ::
  "cron_lib \<Rightarrow> bool \<Rightarrow> u64 \<Rightarrow> (cron_job \<Rightarrow> manager \<Rightarrow> ((cron_error + run_note) \<times> manager) option) \<Rightarrow> manager \<Rightarrow>
   ((cron_error + unit) \<times> manager) option" where
  "run_due lib saved now exec m =
     (case take_due lib saved now (mg_store m) of
        Inl e \<Rightarrow> Some (Inl e, m)
      | Inr (js, s) \<Rightarrow> map_option (\<lambda>m. (Inr (), m)) (run_each exec js (m\<lparr>mg_store := s\<rparr>)))"

definition keeps_daemon_alive :: "bool \<Rightarrow> manager \<Rightarrow> bool" where
  "keeps_daemon_alive heartbeat m \<longleftrightarrow> heartbeat \<or> has_enabled_jobs (mg_store m)"

text \<open>\<open>UnattendedApproval::request\<close>\<close>

definition unattended_request :: approver where
  "unattended_request prompt = Inr False"

interpretation unattended_cron: unattended unattended_request
  by unfold_locales (simp add: unattended_request_def)

section \<open>Retries\<close>

lemma sat_add_1: "unat a < 2 ^ 32 - 1 \<Longrightarrow> unat (sat_add a (1 :: u32)) = Suc (unat a)"
  by (simp add: unat_sat_add)

lemma retry_loop_from:
  assumes "unat (job_max_retries job) < 2 ^ 32 - 1" "unat a \<le> unat (job_max_retries job)" "i = unat a"
  shows "\<exists>k r sl. retry_loop job out i a slept = Some (of_nat (Suc k), r, slept @ sl) \<and>
    i \<le> k \<and> k \<le> unat (job_max_retries job) \<and> (\<forall>j. i \<le> j \<and> j < k \<longrightarrow> (\<exists>e. out j = Inl e)) \<and>
    (case out k of Inr t \<Rightarrow> r = (True, t) | Inl e \<Rightarrow> r = (False, e) \<and> k = unat (job_max_retries job)) \<and> length sl \<le> k - i"
  using assms(2,3)
proof (induction "unat (job_max_retries job) - unat a" arbitrary: a i slept)
  case 0
  then have a: "unat (sat_add a 1) = Suc i" "\<not> sat_add a 1 \<le> job_max_retries job" "i = unat (job_max_retries job)"
    using assms(1) sat_add_1 [of a] by (auto simp: word_le_nat_alt)
  then have "sat_add a 1 = of_nat (Suc i)" unfolding a(1) [symmetric] by simp
  then show ?case
    using a by (intro exI [of _ i]) (auto simp: retry_loop.simps Let_def split: sum.splits)
next
  case (Suc d)
  let ?a = "sat_add a 1"
  have a: "unat ?a = Suc i" using Suc.prems Suc.hyps(2) assms(1) sat_add_1 [of a] by simp
  then have of: "?a = of_nat (Suc i)" unfolding a [symmetric] by simp
  show ?case
  proof (cases "out i")
    case (Inr t)
    then show ?thesis using Suc.prems a of
      by (intro exI [of _ i]) (auto simp: retry_loop.simps Let_def)
  next
    case (Inl e)
    let ?s = "if retry_delay job ?a > 0 then [retry_delay job ?a] else []"
    have le: "unat ?a \<le> unat (job_max_retries job)" using Suc.hyps(2) Suc.prems a by linarith
    have "d = unat (job_max_retries job) - unat ?a" using Suc.hyps(2) Suc.prems a by linarith
    from Suc.hyps(1) [OF this le, of "Suc i" "slept @ ?s"] a obtain k r sl where
      ih: "retry_loop job out (Suc i) ?a (slept @ ?s) = Some (of_nat (Suc k), r, slept @ ?s @ sl)"
        "Suc i \<le> k" "k \<le> unat (job_max_retries job)" "\<forall>j. Suc i \<le> j \<and> j < k \<longrightarrow> (\<exists>e. out j = Inl e)"
        "case out k of Inr t \<Rightarrow> r = (True, t) | Inl e \<Rightarrow> r = (False, e) \<and> k = unat (job_max_retries job)"
        "length sl \<le> k - Suc i" by auto
    have "retry_loop job out i a slept = retry_loop job out (Suc i) ?a (slept @ ?s)"
      using le Inl by (subst retry_loop.simps) (simp add: Let_def word_le_nat_alt)
    moreover have "\<forall>j. i \<le> j \<and> j < k \<longrightarrow> (\<exists>e. out j = Inl e)"
      using ih(4) Inl by (metis le_antisym not_less_eq_eq)
    ultimately show ?thesis
      using ih by (intro exI [of _ k] exI [of _ r] exI [of _ "?s @ sl"]) auto
  qed
qed

text \<open>
  A job ends. Unless its retry limit is the largest 32-bit number, running a job makes at
  most one attempt more than the limit, stops at the first success, whose text is the result,
  and otherwise reports the error of the last attempt; it never pauses after the last one.
\<close>

theorem job_retries_bounded:
  assumes "job_max_retries job \<noteq> - 1"
  shows "\<exists>k r sl. retry_loop job out 0 0 [] = Some (of_nat (Suc k), r, sl) \<and>
    k \<le> unat (job_max_retries job) \<and> (\<forall>j<k. \<exists>e. out j = Inl e) \<and>
    (case out k of Inr t \<Rightarrow> r = (True, t) | Inl e \<Rightarrow> r = (False, e) \<and> k = unat (job_max_retries job)) \<and> length sl \<le> k"
proof -
  have "unat (job_max_retries job) \<noteq> unat (- 1 :: u32)" using assms by (simp add: word_unat_eq_iff)
  moreover have "unat (job_max_retries job) < 2 ^ 32" using unsigned_less [of "job_max_retries job"] by simp
  ultimately have "unat (job_max_retries job) < 2 ^ 32 - 1" by (simp add: unat_max_word)
  from retry_loop_from [OF this, of 0 0 out "[]"] show ?thesis by auto
qed

definition sample_job :: cron_job where
  "sample_job = \<lparr>job_id = ''cron-1-0'', job_name = ''n'', job_schedule = Interval 5, job_prompt = ''p'', job_enabled = True,
     job_max_retries = 2, job_backoff = 1, job_next_run = 5, job_history = []\<rparr>"

theorem job_retries_bounded_witness:
  "\<exists>r sl. retry_loop sample_job (\<lambda>i. if i < 1 then Inl ''e'' else Inr ''ok'') 0 0 [] = Some (2, r, sl) \<and> r = (True, ''ok'')"
proof -
  let ?out = "\<lambda>i :: nat. if i < 1 then Inl ''e'' else Inr ''ok''"
  have "job_max_retries sample_job \<noteq> - 1" by (simp add: sample_job_def)
  from job_retries_bounded [OF this, of ?out] obtain k r sl where
    k: "retry_loop sample_job ?out 0 0 [] = Some (of_nat (Suc k), r, sl)" "\<forall>j<k. \<exists>e. ?out j = Inl e"
      "case ?out k of Inr t \<Rightarrow> r = (True, t) | Inl e \<Rightarrow> r = (False, e) \<and> k = unat (job_max_retries sample_job)" by blast
  have "k \<noteq> 0"
  proof
    assume "k = 0"
    with k(3) show False by (simp add: sample_job_def)
  qed
  moreover have "\<not> 1 < k" using k(2) by auto
  ultimately have "k = 1" by simp
  then show ?thesis using k(1,3) by simp
qed

text \<open>With the largest limit and a job that always fails the loop never ends.\<close>

lemma retry_loop_diverges:
  assumes "job_max_retries job = - 1" "\<forall>i. \<exists>e. out i = Inl e"
  shows "retry_loop job out i a slept = None"
proof -
  have "retry_loop job out i a slept = Some x \<Longrightarrow>
      \<not> (job_max_retries job = - 1 \<and> (\<forall>i. \<exists>e. out i = Inl e))" for x
  proof (rule retry_loop.raw_induct [where P = "\<lambda>job out i a slept x.
        \<not> (job_max_retries job = - 1 \<and> (\<forall>i. \<exists>e. out i = Inl e))"])
    fix loop :: "cron_job \<Rightarrow> (nat \<Rightarrow> string + string) \<Rightarrow> nat \<Rightarrow> u32 \<Rightarrow> u64 list \<Rightarrow> (u32 \<times> (bool \<times> string) \<times> u64 list) option"
      and job out i a slept y
    assume ih: "\<And>job out i a slept y. loop job out i a slept = Some y \<Longrightarrow>
          \<not> (job_max_retries job = - 1 \<and> (\<forall>i. \<exists>e. out i = Inl e))"
      and y: "(let a = sat_add a 1 in case out i of
        Inl e \<Rightarrow> if a \<le> job_max_retries job then loop job out (Suc i) a
              (if 0 < retry_delay job a then slept @ [retry_delay job a] else slept)
            else Some (a, (False, e), slept)
      | Inr r \<Rightarrow> Some (a, (True, r), slept)) = Some y"
    show "\<not> (job_max_retries job = - 1 \<and> (\<forall>i. \<exists>e. out i = Inl e))"
    proof
      assume h: "job_max_retries job = - 1 \<and> (\<forall>i. \<exists>e. out i = Inl e)"
      then obtain e where "out i = Inl e" by blast
      with y h have "\<exists>s. loop job out (Suc i) (sat_add a 1) s = Some y" by (auto simp: Let_def)
      with ih h show False by blast
    qed
  qed
  with assms show ?thesis by (cases "retry_loop job out i a slept") auto
qed

section \<open>Due jobs\<close>

definition valid_job :: "cron_lib \<Rightarrow> cron_job \<Rightarrow> bool" where
  "valid_job lib j \<longleftrightarrow> validate_schedule lib (job_schedule j) = Inr ()"

lemma next_after_later:
  assumes "\<And>p t n. cl_next lib p t = Some n \<Longrightarrow> t < n"
    and "validate_schedule lib sch = Inr ()" "next_after lib sch now = Inr n" "now \<noteq> - 1"
  shows "now < n"
proof (cases sch)
  case (Interval k)
  then have "unat k > 0" "n = sat_add now k"
    using assms(2,3) by (auto simp: validate_schedule_def next_after_def unat_gt_0 split: if_splits)
  moreover have "unat now < 2 ^ 64 - 1"
  proof -
    have "unat now < 2 ^ LENGTH(64)" by (rule unsigned_less)
    then show ?thesis using assms(4) by (auto simp: word_unat_eq_iff unat_max_word)
  qed
  ultimately show ?thesis by (simp add: word_less_nat_alt unat_sat_add)
next
  case (CronExpr e)
  then show ?thesis using assms by (auto simp: next_after_def result_simps)
qed

lemma advance_due_Inr:
  assumes "\<And>p t n. cl_next lib p t = Some n \<Longrightarrow> t < n" and "now \<noteq> - 1"
  shows "advance_due lib now js = Inr js' \<Longrightarrow> list_all (valid_job lib) js \<Longrightarrow>
    list_all (\<lambda>j. \<not> due now j) js' \<and> map (\<lambda>j. j\<lparr>job_next_run := 0\<rparr>) js' = map (\<lambda>j. j\<lparr>job_next_run := 0\<rparr>) js"
proof (induction js arbitrary: js')
  case (Cons j js)
  show ?case
  proof (cases "due now j")
    case False
    then show ?thesis using Cons by (auto simp: result_simps)
  next
    case True
    then obtain n js1 where n: "next_after lib (job_schedule j) now = Inr n" "advance_due lib now js = Inr js1"
        "js' = j\<lparr>job_next_run := n\<rparr> # js1"
      using Cons.prems(1) by (auto simp: result_simps)
    have "now < n" using next_after_later [OF assms(1) _ n(1) assms(2)] Cons.prems(2) by (simp add: valid_job_def)
    then show ?thesis using Cons n by (auto simp: due_def)
  qed
qed simp

lemma advance_due_none: "list_all (\<lambda>j. \<not> due now j) js \<Longrightarrow> advance_due lib now js = Inr js"
  by (induction js) simp_all

text \<open>
  C28: A due job is taken once. Where the library's next firing lies after the instant it is
  asked for, \<open>take_due\<close> returns exactly the enabled jobs whose time has come, leaves none due,
  changes nothing of a job but its next run, and taking again at the same instant returns
  nothing.
\<close>

theorem take_due_once:
  assumes "\<And>p t n. cl_next lib p t = Some n \<Longrightarrow> t < n" "now \<noteq> - 1"
    and "list_all (valid_job lib) (cs_jobs s)" "take_due lib saved now s = Inr (ds, s')"
  shows "ds = filter (due now) (cs_jobs s) \<and> list_all (\<lambda>j. \<not> due now j) (cs_jobs s') \<and>
    map (\<lambda>j. j\<lparr>job_next_run := 0\<rparr>) (cs_jobs s') = map (\<lambda>j. j\<lparr>job_next_run := 0\<rparr>) (cs_jobs s) \<and>
    take_due lib saved' now s' = Inr ([], s')"
proof -
  obtain js where js: "advance_due lib now (cs_jobs s) = Inr js"
    using assms(4) by (auto simp: take_due_def result_simps)
  note adv = advance_due_Inr [OF assms(1,2) js assms(3)]
  have "ds = filter (due now) (cs_jobs s) \<and> (ds = [] \<and> s' = s \<or> cs_jobs s' = js)"
    using assms(4) js by (auto simp: take_due_def Let_def result_simps commit_jobs_def split: if_split_asm)
  moreover have "js = cs_jobs s" if "filter (due now) (cs_jobs s) = []"
    using that advance_due_none [of now "cs_jobs s" lib] js by (simp add: filter_empty_conv list_all_iff)
  ultimately have "ds = filter (due now) (cs_jobs s) \<and> cs_jobs s' = js" by blast
  moreover from this adv have "take_due lib saved' now s' = Inr ([], s')"
    by (auto simp: take_due_def advance_due_none Let_def filter_empty_conv list_all_iff)
  ultimately show ?thesis using adv by simp
qed

definition sample_lib :: cron_lib where
  "sample_lib = \<lparr>cl_parse = (\<lambda>_. True), cl_next = (\<lambda>_ t. if t < 100 then Some (t + 1) else None)\<rparr>"

theorem take_due_once_witness:
  "\<exists>s'. take_due sample_lib True 9 \<lparr>cs_jobs = [sample_job], cs_file = None\<rparr> = Inr ([sample_job], s') \<and>
     take_due sample_lib True 9 s' = Inr ([], s')"
proof -
  let ?s = "\<lparr>cs_jobs = [sample_job], cs_file = None\<rparr>"
  have lib: "cl_next sample_lib p t = Some n \<Longrightarrow> t < n" for p t n
  proof -
    assume "cl_next sample_lib p t = Some n"
    then have n: "t < 100" "n = t + 1" by (auto simp: sample_lib_def split: if_splits)
    then have "unat (t + 1) = unat t + 1" by (simp add: word_less_nat_alt unat_word_ariths)
    then show "t < n" by (simp add: n(2) word_less_nat_alt)
  qed
  obtain s' where t: "take_due sample_lib True 9 ?s = Inr ([sample_job], s')"
    by (simp add: take_due_def sample_job_def due_def next_after_def commit_jobs_def Let_def)
  have "list_all (valid_job sample_lib) (cs_jobs ?s)"
    by (simp add: valid_job_def sample_job_def validate_schedule_def)
  moreover have "(9 :: u64) \<noteq> - 1" by simp
  ultimately have "take_due sample_lib True 9 s' = Inr ([], s')"
    using take_due_once [where saved' = True, OF _ _ _ t] lib by blast
  with t show ?thesis by blast
qed

section \<open>The store's invariant\<close>

datatype cron_op =
    CAdd bool u64 u64 string schedule_spec string u32 u64
  | CEnable bool u64 string bool
  | CRemove bool string
  | CTake bool u64
  | CRecord bool string run_note

definition kept :: "cron_error + 'r \<times> cron_store \<Rightarrow> cron_store \<Rightarrow> cron_store" where
  "kept res s = (case res of Inl e \<Rightarrow> s | Inr (x, s') \<Rightarrow> s')"

fun cron_step :: "cron_lib \<Rightarrow> cron_store \<Rightarrow> cron_op \<Rightarrow> cron_store" where
  "cron_step lib s (CAdd saved now n name sch p r b) = kept (add_job lib saved now n name sch p r b s) s"
| "cron_step lib s (CEnable saved now key e) = kept (set_enabled lib saved now key e s) s"
| "cron_step lib s (CRemove saved key) = kept (remove_job saved key s) s"
| "cron_step lib s (CTake saved now) = kept (take_due lib saved now s) s"
| "cron_step lib s (CRecord saved key note) = (case record_run saved key note s of Inl e \<Rightarrow> s | Inr s' \<Rightarrow> s')"

definition jobs_ok :: "cron_lib \<Rightarrow> cron_job list \<Rightarrow> bool" where
  "jobs_ok lib js \<longleftrightarrow> list_all (valid_job lib) js \<and> distinct (map job_name js) \<and>
     list_all (\<lambda>j. length (job_history j) \<le> max_history) js"

definition cron_ok :: "cron_lib \<Rightarrow> cron_store \<Rightarrow> bool" where
  "cron_ok lib s \<longleftrightarrow> jobs_ok lib (cs_jobs s) \<and> cs_jobs s = (case cs_file s of None \<Rightarrow> [] | Some js \<Rightarrow> js)"

lemma commit_ok: "commit_jobs saved js s = Inr s' \<Longrightarrow> jobs_ok lib js \<Longrightarrow> cron_ok lib s'"
  by (auto simp: commit_jobs_def cron_ok_def split: if_split_asm)

lemma update_first_map: "(\<And>x. x \<in> set xs \<Longrightarrow> p x \<Longrightarrow> g (f x) = g x) \<Longrightarrow> map g (update_first p f xs) = map g xs"
  by (induction xs) auto

lemma update_first_all:
  "list_all q xs \<Longrightarrow> (\<And>x. x \<in> set xs \<Longrightarrow> p x \<Longrightarrow> q x \<Longrightarrow> q (f x)) \<Longrightarrow> list_all q (update_first p f xs)"
  by (induction xs) auto

text \<open>Replacing the first match by a variant of the job found there.\<close>

lemma update_found_all:
  "find p xs = Some x \<Longrightarrow> list_all q xs \<Longrightarrow> q y \<Longrightarrow> list_all q (update_first p (\<lambda>_. y) xs)"
  by (induction xs) (auto split: if_splits)

lemma update_found_map: "find p xs = Some x \<Longrightarrow> g y = g x \<Longrightarrow> map g (update_first p (\<lambda>_. y) xs) = map g xs"
  by (induction xs) (auto split: if_splits)

lemma remove_first_set: "set (remove_first p xs) \<subseteq> set xs"
  by (induction xs) auto

lemma remove_first_distinct: "distinct (map g xs) \<Longrightarrow> distinct (map g (remove_first p xs))"
  using remove_first_set by (induction xs) fastforce+

lemma found_in: "find p xs = Some x \<Longrightarrow> x \<in> set xs"
  by (auto simp: find_Some_iff)

lemma keep_history_le: "length h \<le> Suc max_history \<Longrightarrow> length (keep_history h) \<le> max_history"
  by (auto simp: keep_history_def)

lemma advance_due_jobs:
  "advance_due lib now js = Inr js' \<Longrightarrow> list_all2 (\<lambda>j j'. \<exists>n. j' = j\<lparr>job_next_run := n\<rparr>) js js'"
proof (induction js arbitrary: js')
  case (Cons j js)
  have "\<exists>n. j = j\<lparr>job_next_run := n\<rparr>" by (intro exI [of _ "job_next_run j"]) simp
  with Cons show ?case by (auto simp: result_simps split: if_split_asm)
qed simp

lemma jobs_ok_next:
  assumes "jobs_ok lib js" "list_all2 (\<lambda>j j'. \<exists>n. j' = j\<lparr>job_next_run := n\<rparr>) js js'"
  shows "jobs_ok lib js'"
proof -
  have "map job_name js' = map job_name js"
    using assms(2) by (induction rule: list_all2_induct) auto
  moreover have "list_all (valid_job lib) js' \<and> list_all (\<lambda>j. length (job_history j) \<le> max_history) js'"
    using assms(2,1) by (induction rule: list_all2_induct) (auto simp: valid_job_def jobs_ok_def)
  ultimately show ?thesis using assms(1) by (simp add: jobs_ok_def)
qed

lemma jobs_ok_found:
  assumes "jobs_ok lib js" "find p js = Some j" "job_name j' = job_name j" "job_schedule j' = job_schedule j"
    "job_history j' = job_history j"
  shows "jobs_ok lib (update_first p (\<lambda>_. j') js)"
proof -
  have "valid_job lib j'" "length (job_history j') \<le> max_history"
    using assms found_in [OF assms(2)] by (auto simp: jobs_ok_def valid_job_def list_all_iff)
  then show ?thesis
    using assms(1) update_found_map [of p js j job_name j', OF assms(2,3)]
    by (auto simp: jobs_ok_def intro: update_found_all [OF assms(2)])
qed

lemma enable_ok:
  assumes "set_enabled lib saved now key e s = Inr (x, s')" "jobs_ok lib (cs_jobs s)"
  shows "cron_ok lib s'"
proof -
  obtain j where f: "find (job_is key) (cs_jobs s) = Some j"
    using assms(1) by (auto simp: set_enabled_def get_job_def result_simps)
  have "\<exists>j'. job_name j' = job_name j \<and> job_schedule j' = job_schedule j \<and> job_history j' = job_history j \<and>
      commit_jobs saved (update_first (job_is key) (\<lambda>_. j') (cs_jobs s)) s = Inr s'"
    using assms(1) f
    by (intro exI [of _ x]) (cases e; auto simp: set_enabled_def get_job_def result_simps)
  then obtain j' where j: "job_name j' = job_name j" "job_schedule j' = job_schedule j" "job_history j' = job_history j"
      "commit_jobs saved (update_first (job_is key) (\<lambda>_. j') (cs_jobs s)) s = Inr s'" by blast
  from j(4) jobs_ok_found [OF assms(2) f j(1-3)] show ?thesis by (rule commit_ok)
qed

lemma cron_step_ok: "cron_ok lib s \<Longrightarrow> cron_ok lib (cron_step lib s op)"
proof (cases op)
  assume ok: "cron_ok lib s"
  then have js: "jobs_ok lib (cs_jobs s)" unfolding cron_ok_def by (rule conjunct1)
  {
    case (CAdd saved now n name sch p r b)
    then show ?thesis
      using ok js
      by (auto simp: kept_def add_job_def Let_def result_simps jobs_ok_def valid_job_def list_ex_iff
          split: sum.splits if_split_asm intro!: commit_ok)
  next
    case (CEnable saved now key e)
    then show ?thesis using ok js by (auto simp: kept_def split: sum.splits intro: enable_ok)
  next
    case (CRemove saved key)
    have "jobs_ok lib (remove_first (job_is key) (cs_jobs s))"
      using js remove_first_set [of "job_is key" "cs_jobs s"]
      by (auto simp: jobs_ok_def list_all_iff intro: remove_first_distinct)
    then show ?thesis
      using ok CRemove by (auto simp: kept_def remove_job_def result_simps split: sum.splits intro: commit_ok)
  next
    case (CTake saved now)
    then show ?thesis
      using ok js
      by (auto simp: kept_def take_due_def Let_def result_simps split: sum.splits if_split_asm
          intro: commit_ok jobs_ok_next [OF js advance_due_jobs])
  next
    case (CRecord saved key rn)
    let ?f = "\<lambda>j. j\<lparr>job_history := keep_history (job_history j @ [rn])\<rparr>"
    have "list_all (valid_job lib) (update_first (job_is key) ?f (cs_jobs s))"
      using js by (intro update_first_all) (simp_all add: jobs_ok_def valid_job_def)
    moreover have "list_all (\<lambda>j. length (job_history j) \<le> max_history) (update_first (job_is key) ?f (cs_jobs s))"
      using js by (intro update_first_all) (simp_all add: jobs_ok_def keep_history_le)
    ultimately have "jobs_ok lib (update_first (job_is key) ?f (cs_jobs s))"
      using js by (simp add: jobs_ok_def update_first_map)
    then show ?thesis
      using ok CRecord by (auto simp: record_run_def result_simps split: sum.splits intro: commit_ok)
  }
qed

interpretation cron: step_machine "cron_step lib" "cron_ok lib"
  by unfold_locales (rule cron_step_ok)

text \<open>
  The job store survives a restart. After any additions, switches, removals, runs and
  failed writes, names are unique, every schedule is valid, no history is longer than 20, and
  loading the file gives back exactly the jobs in memory.
\<close>

theorem cron_store_restart:
  "let s = foldl (cron_step lib) (load_best_effort lib None) ops in
     distinct (map job_name (cs_jobs s)) \<and> list_all (\<lambda>j. length (job_history j) \<le> 20) (cs_jobs s) \<and>
     load_jobs lib (map_option Some (cs_file s)) = Inr s"
proof -
  define s where "s = foldl (cron_step lib) (load_best_effort lib None) ops"
  have "cron_ok lib (load_best_effort lib None)"
    by (simp add: load_best_effort_def load_jobs_def cron_ok_def jobs_ok_def)
  then have ok: "cron_ok lib s" unfolding s_def by (rule cron.run_inv)
  then have js: "jobs_ok lib (cs_jobs s)" unfolding cron_ok_def by (rule conjunct1)
  then have "find (\<lambda>j. case validate_schedule lib (job_schedule j) of Inl _ \<Rightarrow> True | Inr _ \<Rightarrow> False) (cs_jobs s) = None"
    by (auto simp: jobs_ok_def valid_job_def list_all_iff find_None_iff)
  then have "load_jobs lib (map_option Some (cs_file s)) = Inr s"
    using ok by (cases "cs_file s") (auto simp: load_jobs_def cron_ok_def)
  then show ?thesis using js unfolding s_def [symmetric] Let_def by (simp add: jobs_ok_def max_history_def)
qed

end
