(* ===== verification/Protocol.thy ===== *)
theory Protocol
  imports Store
begin

text \<open>
  The wire between clients and the daemon: frames and their size limit
  (\<open>src/daemon/protocol.rs\<close>), the daemon's line loop (\<open>serve_unix_connection\<close> of
  \<open>src/daemon/server.rs\<close>) and the client's request table (\<open>src/client.rs\<close>). \<open>serde_json\<close> is an
  argument: a printer and a parser of each frame type.
\<close>

section \<open>Frames\<close>

definition jsonrpc_version :: string where
  "jsonrpc_version = ''2.0''"

definition max_frame_bytes :: nat where
  "max_frame_bytes = 4 * 1024 * 1024"

record rpc_request =
  rpc_jsonrpc :: string
  rpc_id :: request_id
  rpc_method :: string
  rpc_params :: json

definition new_request :: "request_id \<Rightarrow> string \<Rightarrow> json \<Rightarrow> rpc_request" where
  "new_request i m p = \<lparr>rpc_jsonrpc = jsonrpc_version, rpc_id = i, rpc_method = m, rpc_params = p\<rparr>"

record rpc_error =
  er_code :: int
  er_message :: string
  er_data :: "json option"

record rpc_response =
  rs_jsonrpc :: string
  rs_id :: request_id
  rs_result :: "json option"
  rs_error :: "rpc_error option"

definition rpc_success :: "request_id \<Rightarrow> json \<Rightarrow> rpc_response" where
  "rpc_success i v = \<lparr>rs_jsonrpc = jsonrpc_version, rs_id = i, rs_result = Some v, rs_error = None\<rparr>"

definition rpc_failure :: "request_id \<Rightarrow> int \<Rightarrow> string \<Rightarrow> rpc_response" where
  "rpc_failure i c m = \<lparr>rs_jsonrpc = jsonrpc_version, rs_id = i, rs_result = None,
     rs_error = Some \<lparr>er_code = c, er_message = m, er_data = None\<rparr>\<rparr>"

definition rpc_failure_data :: "request_id \<Rightarrow> int \<Rightarrow> string \<Rightarrow> json \<Rightarrow> rpc_response" where
  "rpc_failure_data i c m d = (rpc_failure i c m)
     \<lparr>rs_error := Some \<lparr>er_code = c, er_message = m, er_data = Some d\<rparr>\<rparr>"

datatype event_kind =
    TurnStarted | ThinkingDelta | ThinkingFinished | TextDelta | ToolStarted | ToolFinished
  | ApprovalRequired | TurnCompleted | DelegationSpawned | DelegationTerminal

record event_frame =
  ef_jsonrpc :: string
  ef_request :: request_id
  ef_kind :: event_kind
  ef_data :: json
  ef_run :: "string option"
  ef_seq :: "nat option"

definition new_event :: "request_id \<Rightarrow> event_kind \<Rightarrow> json \<Rightarrow> event_frame" where
  "new_event i k d = \<lparr>ef_jsonrpc = jsonrpc_version, ef_request = i, ef_kind = k, ef_data = d,
     ef_run = None, ef_seq = None\<rparr>"

datatype server_frame = EventF event_frame | ResponseF rpc_response

fun frame_version :: "server_frame \<Rightarrow> string" where
  "frame_version (EventF e) = ef_jsonrpc e"
| "frame_version (ResponseF r) = rs_jsonrpc r"

fun server_frame_request_id :: "server_frame \<Rightarrow> request_id" where
  "server_frame_request_id (EventF e) = ef_request e"
| "server_frame_request_id (ResponseF r) = rs_id r"

datatype protocol_error = FrameTooLarge nat nat | InvalidJson | UnsupportedVersion string

section \<open>Encoding\<close>

text \<open>The body is measured before the line end is added.\<close>

definition newline :: char where
  "newline = CHR 0x0A"

definition encode_frame :: "('f \<Rightarrow> string) \<Rightarrow> 'f \<Rightarrow> protocol_error + string" where
  "encode_frame to_json f =
     (let bytes = to_json f in
      if length bytes > max_frame_bytes then Inl (FrameTooLarge (length bytes) max_frame_bytes)
      else Inr (bytes @ [newline]))"

definition decode_request :: "(string \<Rightarrow> rpc_request option) \<Rightarrow> string \<Rightarrow> protocol_error + rpc_request" where
  "decode_request of_json bytes =
     (if length bytes > max_frame_bytes then Inl (FrameTooLarge (length bytes) max_frame_bytes)
      else bindE (ok_or InvalidJson (of_json bytes)) (\<lambda>r.
        if rpc_jsonrpc r \<noteq> jsonrpc_version then Inl (UnsupportedVersion (rpc_jsonrpc r)) else Inr r))"

definition decode_server_frame :: "(string \<Rightarrow> server_frame option) \<Rightarrow> string \<Rightarrow> protocol_error + server_frame" where
  "decode_server_frame of_json bytes =
     (if length bytes > max_frame_bytes then Inl (FrameTooLarge (length bytes) max_frame_bytes)
      else bindE (ok_or InvalidJson (of_json bytes)) (\<lambda>f.
        if frame_version f \<noteq> jsonrpc_version then Inl (UnsupportedVersion (frame_version f)) else Inr f))"

section \<open>The daemon's line loop\<close>

datatype line_action = Reject rpc_response | Handle rpc_request | Closing rpc_response

text \<open>\<open>open_for\<close>: whether \<open>spawn_owned\<close> still takes tasks.\<close>

definition serve_line ::
  "(string \<Rightarrow> rpc_request option) \<Rightarrow> (protocol_error \<Rightarrow> string) \<Rightarrow> string \<Rightarrow> string \<Rightarrow> bool \<Rightarrow> string \<Rightarrow> line_action" where
  "serve_line of_json err_text too_long closing open_for line =
     (if length line > max_frame_bytes + 1
      then Reject (rpc_failure (RString ''protocol'') (- 32002) too_long)
      else case decode_request of_json line of
        Inl e \<Rightarrow> Reject (rpc_failure (RString ''protocol'') (- 32700) (err_text e))
      | Inr r \<Rightarrow> if open_for then Handle r else Closing (rpc_failure (rpc_id r) (- 32001) closing))"

text \<open>The writer replaces a frame that is too large by an error response to the same request.\<close>

definition write_frame ::
  "(server_frame \<Rightarrow> string) \<Rightarrow> (protocol_error \<Rightarrow> string) \<Rightarrow> server_frame \<Rightarrow> protocol_error + string" where
  "write_frame to_json err_text f =
     (case encode_frame to_json f of
        Inr line \<Rightarrow> Inr line
      | Inl e \<Rightarrow> encode_frame to_json
          (ResponseF (rpc_failure (server_frame_request_id f) (- 32002) (err_text e))))"

section \<open>The client\<close>

text \<open>
  Each request has a channel of its own, numbered in the order of the requests; \<open>cl_pending\<close> is the table
  from request ids to channels, \<open>cl_streams\<close> what each channel has received so far.
\<close>

record client =
  cl_pending :: "request_id \<Rightarrow> nat option"
  cl_streams :: "server_frame list list"
  cl_open :: bool

definition fresh_client :: client where
  "fresh_client = \<lparr>cl_pending = (\<lambda>_. None), cl_streams = [], cl_open = True\<rparr>"

definition send_to :: "nat \<Rightarrow> server_frame \<Rightarrow> client \<Rightarrow> client" where
  "send_to ch f c = c\<lparr>cl_streams := (cl_streams c)[ch := cl_streams c ! ch @ [f]]\<rparr>"

definition fail_pending :: "request_id \<Rightarrow> int \<Rightarrow> string \<Rightarrow> client \<Rightarrow> client" where
  "fail_pending i code message c =
     (case cl_pending c i of
        None \<Rightarrow> c
      | Some ch \<Rightarrow> send_to ch (ResponseF (rpc_failure i code message))
          (c\<lparr>cl_pending := (cl_pending c)(i := None)\<rparr>))"

text \<open>\<open>ids\<close>: the keys of the table, in the order the hash map yields them.\<close>

definition fail_all_pending :: "request_id list \<Rightarrow> string \<Rightarrow> client \<Rightarrow> client" where
  "fail_all_pending ids message c = foldl (\<lambda>c i. fail_pending i (- 32000) message c) c ids"

datatype request_outcome = Sent nat | AlreadyPending | NotEncodable protocol_error

definition request_with_id ::
  "(rpc_request \<Rightarrow> string) \<Rightarrow> (string \<Rightarrow> rpc_request option) \<Rightarrow> request_id \<Rightarrow> string \<Rightarrow> json \<Rightarrow> client \<Rightarrow>
   request_outcome \<times> client" where
  "request_with_id to_json of_json i m p c =
     (case bindE (encode_frame to_json (new_request i m p)) (decode_request of_json) of
        Inl e \<Rightarrow> (NotEncodable e, c)
      | Inr r \<Rightarrow>
          if cl_pending c i \<noteq> None then (AlreadyPending, c)
          else (Sent (length (cl_streams c)),
                c\<lparr>cl_pending := (cl_pending c)(i \<mapsto> length (cl_streams c)),
                  cl_streams := cl_streams c @ [[]]\<rparr>))"

text \<open>One decoded frame: to its channel, and a response closes the table entry.\<close>

definition deliver_frame :: "server_frame \<Rightarrow> client \<Rightarrow> client" where
  "deliver_frame f c =
     (let i = server_frame_request_id f;
          c1 = (case cl_pending c i of None \<Rightarrow> c | Some ch \<Rightarrow> send_to ch f c)
      in case f of ResponseF _ \<Rightarrow> c1\<lparr>cl_pending := (cl_pending c1)(i := None)\<rparr> | EventF _ \<Rightarrow> c1)"

text \<open>
  One line from the socket. A line that does not decode fails every pending request and ends
  the reader, so nothing is delivered any more.
\<close>

definition client_line ::
  "(string \<Rightarrow> server_frame option) \<Rightarrow> (protocol_error \<Rightarrow> string) \<Rightarrow> request_id list \<Rightarrow> string \<Rightarrow> client \<Rightarrow> client" where
  "client_line of_json err_text ids line c =
     (if \<not> cl_open c then c
      else case decode_server_frame of_json line of
        Inl e \<Rightarrow> (fail_all_pending ids (err_text e) c)\<lparr>cl_open := False\<rparr>
      | Inr f \<Rightarrow> deliver_frame f c)"

section \<open>The size limit\<close>

text \<open>
  The size limit counts the line end on one side only. Where the parser takes back what
  the serializer printed for a frame, a frame whose JSON is shorter than the limit comes
  through the wire unchanged; a frame whose JSON is exactly at the limit is encoded, and then
  refused by the decoder of the other side as one byte too long.
\<close>

theorem frame_limit:
  assumes "of_json (to_json f @ [newline]) = Some f" and "frame_version f = jsonrpc_version"
  shows "case encode_frame to_json f of
      Inl e \<Rightarrow> length (to_json f) > max_frame_bytes
    | Inr line \<Rightarrow> decode_server_frame of_json line =
        (if length (to_json f) < max_frame_bytes then Inr f
         else Inl (FrameTooLarge (Suc max_frame_bytes) max_frame_bytes))"
  using assms by (auto simp: encode_frame_def decode_server_frame_def Let_def)

definition big_frame :: server_frame where
  "big_frame = EventF (new_event (RNumber 1) TextDelta JNull)"

theorem frame_limit_witness:
  "\<exists>line. encode_frame (\<lambda>_. replicate max_frame_bytes CHR ''x'') big_frame = Inr line \<and>
     decode_server_frame (\<lambda>_. Some big_frame) line = Inl (FrameTooLarge (Suc max_frame_bytes) max_frame_bytes)"
proof -
  have "frame_version big_frame = jsonrpc_version" by (simp add: big_frame_def new_event_def)
  from frame_limit [of "\<lambda>_. Some big_frame" "\<lambda>_. replicate max_frame_bytes CHR ''x''", OF _ this]
  show ?thesis by (auto simp: encode_frame_def Let_def)
qed

section \<open>The client's streams\<close>

text \<open>The frames a request should get: those with its id, up to its first response.\<close>

fun answers :: "request_id \<Rightarrow> server_frame list \<Rightarrow> server_frame list" where
  "answers i [] = []"
| "answers i (f # fs) =
     (if server_frame_request_id f \<noteq> i then answers i fs
      else case f of ResponseF _ \<Rightarrow> [f] | EventF _ \<Rightarrow> f # answers i fs)"

fun answered :: "request_id \<Rightarrow> server_frame list \<Rightarrow> bool" where
  "answered i [] = False"
| "answered i (f # fs) =
     (server_frame_request_id f = i \<and> (case f of ResponseF _ \<Rightarrow> True | EventF _ \<Rightarrow> False) \<or> answered i fs)"

datatype client_op = Ask request_id string json | Arrive server_frame

fun client_step ::
  "(rpc_request \<Rightarrow> string) \<Rightarrow> (string \<Rightarrow> rpc_request option) \<Rightarrow> client \<Rightarrow> client_op \<Rightarrow> client" where
  "client_step tj oj c (Ask i m p) = snd (request_with_id tj oj i m p c)"
| "client_step tj oj c (Arrive f) = deliver_frame f c"

fun arrivals :: "client_op list \<Rightarrow> server_frame list" where
  "arrivals [] = []"
| "arrivals (Ask i m p # ops) = arrivals ops"
| "arrivals (Arrive f # ops) = f # arrivals ops"

text \<open>Every pending request has a channel of its own.\<close>

definition client_ok :: "client \<Rightarrow> bool" where
  "client_ok c \<longleftrightarrow> (\<forall>i ch. cl_pending c i = Some ch \<longrightarrow> ch < length (cl_streams c)) \<and>
     (\<forall>i j ch. cl_pending c i = Some ch \<and> cl_pending c j = Some ch \<longrightarrow> i = j)"

lemma client_step_ok: "client_ok c \<Longrightarrow> client_ok (client_step tj oj c op)"
proof (cases op)
  case (Ask i m p)
  assume "client_ok c"
  then show ?thesis
    by (fastforce simp: Ask request_with_id_def client_ok_def less_Suc_eq split: sum.splits)
next
  case (Arrive f)
  assume "client_ok c"
  then show ?thesis
    by (cases f) (auto simp: Arrive deliver_frame_def send_to_def client_ok_def Let_def split: option.splits if_splits)
qed

interpretation client: step_machine "client_step tj oj" client_ok
  by unfold_locales (rule client_step_ok)

text \<open>A channel that is in the table under no id gets nothing more.\<close>

lemma closed_channel:
  assumes "client_ok c" "ch < length (cl_streams c)" "\<And>j. cl_pending c j \<noteq> Some ch"
  shows "cl_streams (foldl (client_step tj oj) c ops) ! ch = cl_streams c ! ch"
  using assms
proof (induction ops arbitrary: c)
  case (Cons op ops)
  have "cl_streams (client_step tj oj c op) ! ch = cl_streams c ! ch \<and> ch < length (cl_streams (client_step tj oj c op)) \<and>
      (\<forall>j. cl_pending (client_step tj oj c op) j \<noteq> Some ch)"
  proof (cases op)
    case (Ask i m p)
    then show ?thesis using Cons.prems by (auto simp: request_with_id_def nth_append split: sum.splits)
  next
    case (Arrive f)
    have ne: "cl_pending c i = Some k \<Longrightarrow> k \<noteq> ch" for i k using Cons.prems(3) by auto
    then show ?thesis using Cons.prems(2,3) Arrive
      by (cases f) (auto simp: deliver_frame_def send_to_def Let_def dest: ne split: option.splits)
  qed
  then show ?case using Cons.IH client_step_ok [OF Cons.prems(1)] by simp
qed simp

lemma stream_from:
  assumes "client_ok c" "cl_pending c i = Some ch"
  shows "cl_streams (foldl (client_step tj oj) c ops) ! ch = cl_streams c ! ch @ answers i (arrivals ops) \<and>
    (answered i (arrivals ops) \<or> cl_pending (foldl (client_step tj oj) c ops) i = Some ch)"
  using assms
proof (induction ops arbitrary: c)
  case (Cons op ops)
  let ?c = "client_step tj oj c op"
  have ok: "client_ok ?c" using Cons.prems(1) by (rule client_step_ok)
  have ch: "ch < length (cl_streams c)" using Cons.prems by (simp add: client_ok_def)
  show ?case
  proof (cases op)
    case (Ask j m p)
    then have "cl_pending ?c i = Some ch" "cl_streams ?c ! ch = cl_streams c ! ch"
      using Cons.prems(2) ch by (auto simp: request_with_id_def nth_append split: sum.splits)
    then show ?thesis using Cons.IH [OF ok] Ask by simp
  next
    case (Arrive f)
    show ?thesis
    proof (cases "server_frame_request_id f = i")
      case False
      then have "cl_pending ?c i = Some ch" using Cons.prems(2) Arrive
        by (cases f) (auto simp: deliver_frame_def send_to_def Let_def split: option.splits)
      moreover have "cl_streams ?c ! ch = cl_streams c ! ch"
      proof (cases "cl_pending c (server_frame_request_id f)")
        case None
        then show ?thesis using Arrive by (cases f) (simp_all add: deliver_frame_def Let_def)
      next
        case (Some k)
        then have "k \<noteq> ch" using Cons.prems False by (auto simp: client_ok_def)
        then show ?thesis using Arrive Some by (cases f) (simp_all add: deliver_frame_def send_to_def Let_def)
      qed
      ultimately show ?thesis using Cons.IH [OF ok] Arrive False by simp
    next
      case True
      show ?thesis
      proof (cases f)
        case (EventF e)
        then have "cl_pending ?c i = Some ch" "cl_streams ?c ! ch = cl_streams c ! ch @ [f]"
          using Cons.prems(2) Arrive True ch by (simp_all add: deliver_frame_def send_to_def Let_def)
        then show ?thesis using Cons.IH [OF ok] Arrive True EventF by simp
      next
        case (ResponseF r)
        then have "cl_pending ?c = (cl_pending c)(i := None)" "cl_streams ?c ! ch = cl_streams c ! ch @ [f]"
            "length (cl_streams ?c) = length (cl_streams c)"
          using Cons.prems(2) Arrive True ch by (simp_all add: deliver_frame_def send_to_def Let_def)
        moreover have "cl_pending ?c j \<noteq> Some ch" for j
          using calculation(1) Cons.prems by (auto simp: client_ok_def)
        ultimately show ?thesis
          using closed_channel [OF ok, of ch tj oj ops] ch Arrive True ResponseF by simp
      qed
    qed
  qed
qed simp

text \<open>
  A request gets its own answers. From the moment a request is sent, whatever other
  requests are sent and whatever frames arrive, its channel receives exactly the frames with
  its id, in the order they arrive, up to and including the first response, and nothing after.
\<close>

theorem request_stream:
  assumes "request_with_id tj oj i m p (foldl (client_step tj oj) fresh_client ops) = (Sent ch, c)"
  shows "cl_streams (foldl (client_step tj oj) c ops') ! ch = answers i (arrivals ops')"
proof -
  let ?c = "foldl (client_step tj oj) fresh_client ops"
  have "client_ok fresh_client" by (simp add: client_ok_def fresh_client_def)
  then have "client_ok ?c" by (rule client.run_inv)
  then have "client_ok (client_step tj oj ?c (Ask i m p))" by (rule client_step_ok)
  then have "client_ok c" using assms by simp
  moreover have "cl_pending c i = Some ch" "cl_streams c ! ch = []"
    using assms by (auto simp: request_with_id_def split: sum.splits if_split_asm)
  ultimately show ?thesis using stream_from [of c i ch tj oj ops'] by simp
qed

definition echo_request :: rpc_request where
  "echo_request = new_request (RNumber 7) ''ping'' JNull"

theorem request_stream_witness:
  "\<exists>ch c. request_with_id (\<lambda>_. []) (\<lambda>_. Some echo_request) (RNumber 7) ''ping'' JNull fresh_client = (Sent ch, c) \<and>
     cl_streams (foldl (client_step (\<lambda>_. []) (\<lambda>_. Some echo_request)) c
       [Arrive (ResponseF (rpc_success (RNumber 7) JNull)), Arrive (EventF (new_event (RNumber 7) TextDelta JNull))]) ! ch
     = [ResponseF (rpc_success (RNumber 7) JNull)]"
proof -
  let ?tj = "\<lambda>_ :: rpc_request. []" and ?oj = "\<lambda>_ :: string. Some echo_request"
  obtain ch c where "request_with_id ?tj ?oj (RNumber 7) ''ping'' JNull (foldl (client_step ?tj ?oj) fresh_client []) = (Sent ch, c)"
    by (simp add: request_with_id_def encode_frame_def decode_request_def Let_def fresh_client_def max_frame_bytes_def
        echo_request_def new_request_def)
  note r = this
  let ?ops = "[Arrive (ResponseF (rpc_success (RNumber 7) JNull)), Arrive (EventF (new_event (RNumber 7) TextDelta JNull))]"
  have "answers (RNumber 7) (arrivals ?ops) = [ResponseF (rpc_success (RNumber 7) JNull)]"
    by (simp add: rpc_success_def)
  with request_stream [OF r, of ?ops]
  have "cl_streams (foldl (client_step ?tj ?oj) c ?ops) ! ch = [ResponseF (rpc_success (RNumber 7) JNull)]"
    by (simp only:)
  moreover have "request_with_id ?tj ?oj (RNumber 7) ''ping'' JNull fresh_client = (Sent ch, c)" using r by simp
  ultimately show ?thesis by blast
qed

text \<open>A line that does not decode ends every pending request with an error and closes the client.\<close>

lemma bad_line_fails_all:
  assumes "cl_open c" "decode_server_frame of_json line = Inl e" "{i. cl_pending c i \<noteq> None} \<subseteq> set ids"
  shows "\<forall>i. cl_pending (client_line of_json err_text ids line c) i = None"
proof -
  have one: "cl_pending (fail_pending j code m c) = (cl_pending c)(j := None)" for j code m c
    by (auto simp: fail_pending_def send_to_def split: option.splits)
  have "cl_pending (fail_all_pending ids m c) = (\<lambda>i. if i \<in> set ids then None else cl_pending c i)" for ids m c
    unfolding fail_all_pending_def by (induction ids arbitrary: c) (auto simp: one fun_eq_iff)
  then show ?thesis using assms by (auto simp: client_line_def)
qed

end
