(* ===== verification/Delegation_Ops.thy ===== *)
theory Delegation_Ops
  imports Store_Ops
begin

text \<open>
  The child-run operations of \<open>src/storage/delegation.rs\<close>: admission with its depth and fan-out
  limits, reads, and the lease on a finished child's result (reserve, release, deliver). A
  branch that compares a lease with the clock reads the clock each time, so \<open>reserve\<close> takes one
  instant per read, in the order of the code.
\<close>

definition max_depth :: int where "max_depth = 2"
definition max_root_spawns :: nat where "max_root_spawns = 8"
definition max_root_active :: nat where "max_root_active = 4"

record delegation_request =
  rq_parent_session :: string
  rq_parent_run :: string
  rq_child_session :: string
  rq_spawn_key :: string
  rq_task :: string
  rq_tools :: "string list"
  rq_permission :: string
  rq_cwd :: string
  rq_max_rounds :: int
  rq_max_tokens :: int
  rq_max_tool_calls :: int
  rq_deadline :: int

text \<open>A \<open>DelegationRecord\<close> is the delegation's row with the child's content and error.\<close>

record delegation_record =
  dr_row :: delegation_row
  dr_content :: "string option"
  dr_error_code :: "int option"
  dr_error_message :: "string option"

definition read_delegation_in :: "db \<Rightarrow> string \<Rightarrow> delegation_record option" where
  "read_delegation_in d child =
     Option.bind (find_delegation d child) (\<lambda>g.
       map_option
         (\<lambda>r. \<lparr>dr_row = g, dr_content = run_content r, dr_error_code = run_error_code r,
               dr_error_message = run_error_message r\<rparr>)
         (find_run d child))"

definition find_spawn :: "db \<Rightarrow> string \<Rightarrow> string \<Rightarrow> delegation_row option" where
  "find_spawn d parent key =
     find (\<lambda>g. dg_parent_run g = parent \<and> dg_spawn_key g = key) (delegations d)"

section \<open>Admission of a child\<close>

definition request_valid :: "delegation_request \<Rightarrow> bool" where
  "request_valid q \<longleftrightarrow>
     \<not> is_blank (rq_task q) \<and> \<not> is_blank (rq_spawn_key q) \<and> rq_tools q \<noteq> [] \<and>
     0 < rq_max_rounds q \<and> 0 < rq_max_tokens q \<and> 0 < rq_max_tool_calls q"

definition same_spawn :: "delegation_request \<Rightarrow> string \<Rightarrow> delegation_row \<Rightarrow> bool" where
  "same_spawn q task g \<longleftrightarrow>
     task = rq_task q \<and> dg_tools g = rq_tools q \<and> dg_max_rounds g = rq_max_rounds q \<and>
     dg_max_tokens g = rq_max_tokens q \<and> dg_max_tool_calls g = rq_max_tool_calls q"

definition existing_spawn :: "delegation_request \<Rightarrow> string \<Rightarrow> db \<Rightarrow> store_error + delegation_record" where
  "existing_spawn q child d =
     bindE (ok_or Panic (read_delegation_in d child)) (\<lambda>rec.
     bindE (ok_or SqlError (find_run d child)) (\<lambda>r.
       if same_spawn q (run_input r) (dr_row rec) then Inr rec else Inl (ProtocolE SpawnConflict)))"

text \<open>The root session, the root run and the depth a child of this parent gets.\<close>

definition lineage :: "db \<Rightarrow> run_record \<Rightarrow> string \<times> string \<times> int" where
  "lineage d parent =
     (case find_delegation d (rec_run parent) of
        Some g \<Rightarrow> (dg_root_session g, dg_root_run g, dg_depth g + 1)
      | None \<Rightarrow> (rec_session parent, rec_run parent, 1))"

definition root_total :: "db \<Rightarrow> string \<Rightarrow> nat" where
  "root_total d root = count_where (\<lambda>g. dg_root_run g = root) (delegations d)"

definition root_active :: "db \<Rightarrow> string \<Rightarrow> nat" where
  "root_active d root =
     count_where (\<lambda>g. dg_root_run g = root \<and> \<not> terminal (dg_status g)) (delegations d)"

definition insert_delegation ::
  "int \<Rightarrow> delegation_request \<Rightarrow> string \<times> string \<times> int \<Rightarrow> string \<Rightarrow> route_snapshot option \<Rightarrow> db \<Rightarrow> db" where
  "insert_delegation now q l child route d =
     d\<lparr>delegations := delegations d @
         [\<lparr>dg_id = next_rowid (map dg_id (delegations d)), dg_root_session = fst l,
           dg_root_run = fst (snd l), dg_parent_session = rq_parent_session q,
           dg_parent_run = rq_parent_run q, dg_spawn_key = rq_spawn_key q,
           dg_child_session = rq_child_session q, dg_child_run = child, dg_depth = snd (snd l),
           dg_status = Queued, dg_created = now, dg_started = None, dg_finished = None,
           dg_tools = rq_tools q, dg_permission = rq_permission q, dg_route = route,
           dg_cwd = rq_cwd q, dg_max_rounds = rq_max_rounds q, dg_max_tokens = rq_max_tokens q,
           dg_max_tool_calls = rq_max_tool_calls q, dg_deadline = rq_deadline q,
           dg_terminal = None, dg_result_state = Unconsumed, dg_owner = None, dg_revision = 0,
           dg_released = None, dg_expires = None\<rparr>]\<rparr>"

definition spawn_child ::
  "int \<Rightarrow> delegation_request \<Rightarrow> string \<times> string \<times> int \<Rightarrow> db \<Rightarrow> store_error + delegation_record \<times> db" where
  "spawn_child now q l d =
     (let route = route_snapshot_of d (rq_parent_run q) in
      if session_exists d (rq_child_session q) then Inl SqlError
      else bindE (new_run now (rq_child_session q) (RString (''delegation:'' @ rq_child_session q))
                    (rq_task q) route (touch_session (rq_child_session q) now d)) (\<lambda>(child, d).
           bindE (insert_event now (rq_parent_run q) ''delegation_spawned''
             (JObj [(''child_session_id'', JStr (rq_child_session q)), (''child_run_id'', JStr child),
                    (''depth'', JInt (snd (snd l))), (''status'', JStr ''queued'')])
             (insert_delegation now q l child route d)) (\<lambda>(_, d).
           bindE (ok_or Panic (read_delegation_in d child)) (\<lambda>rec. Inr (rec, d)))))"

definition admit_delegation ::
  "int \<Rightarrow> delegation_request \<Rightarrow> db \<Rightarrow> store_error + delegation_record \<times> db" where
  "admit_delegation now q d =
     (if \<not> request_valid q then Inl (ProtocolE BadDelegation)
      else bindE (read_run_or (ProtocolE ParentMissing) d (rq_parent_run q)) (\<lambda>parent.
        if rec_session parent \<noteq> rq_parent_session q then Inl (ProtocolE ParentSession)
        else case find_spawn d (rq_parent_run q) (rq_spawn_key q) of
          Some g \<Rightarrow> bindE (existing_spawn q (dg_child_run g) d) (\<lambda>rec. Inr (rec, d))
        | None \<Rightarrow>
            if \<not> busy (rec_status parent) then Inl (ProtocolE ParentState)
            else if rq_deadline q \<le> now then Inl (ProtocolE DeadlinePast)
            else
              let l = lineage d parent in
              if snd (snd l) > max_depth then Inl (ProtocolE TooDeep)
              else if root_total d (fst (snd l)) \<ge> max_root_spawns \<or>
                      root_active d (fst (snd l)) \<ge> max_root_active
              then Inl (ProtocolE TooMany)
              else spawn_child now q l d))"

section \<open>Reads\<close>

definition delegation_by_spawn_key :: "db \<Rightarrow> string \<Rightarrow> string \<Rightarrow> delegation_record option" where
  "delegation_by_spawn_key d parent key =
     Option.bind (find_spawn d parent key) (\<lambda>g. read_delegation_in d (dg_child_run g))"

definition delegation_for_session :: "db \<Rightarrow> string \<Rightarrow> delegation_record option" where
  "delegation_for_session d sid =
     Option.bind (find (\<lambda>g. dg_child_session g = sid) (delegations d))
       (\<lambda>g. read_delegation_in d (dg_child_run g))"

definition list_delegations :: "db \<Rightarrow> string \<Rightarrow> store_error + delegation_record list" where
  "list_delegations d root =
     collect_results (\<lambda>g. ok_or (ProtocolE DelegationGone) (read_delegation_in d (dg_child_run g)))
       (filter (\<lambda>g. dg_root_run g = root) (delegations d))"

section \<open>The lease on a result\<close>

definition expired :: "int \<Rightarrow> delegation_row \<Rightarrow> bool" where
  "expired now g \<longleftrightarrow> (case dg_expires g of None \<Rightarrow> False | Some e \<Rightarrow> e \<le> now)"

definition alive :: "int \<Rightarrow> delegation_row \<Rightarrow> bool" where
  "alive now g \<longleftrightarrow> (case dg_expires g of None \<Rightarrow> False | Some e \<Rightarrow> e > now)"

definition release_row :: "int \<Rightarrow> delegation_row \<Rightarrow> delegation_row" where
  "release_row now g = g\<lparr>dg_result_state := Unconsumed, dg_owner := None, dg_expires := None,
     dg_released := Some now, dg_revision := dg_revision g + 1\<rparr>"

definition reserve_row :: "int \<Rightarrow> string \<Rightarrow> delegation_row \<Rightarrow> delegation_row" where
  "reserve_row now owner g = g\<lparr>dg_result_state := Reserved, dg_owner := Some owner,
     dg_expires := Some (now + 30000), dg_revision := dg_revision g + 1\<rparr>"

definition deliver_row :: "delegation_row \<Rightarrow> delegation_row" where
  "deliver_row g = g\<lparr>dg_result_state := Delivered, dg_expires := None, dg_revision := dg_revision g + 1\<rparr>"

text \<open>
  \<open>t1\<close>: is the caller's own lease alive; \<open>t2\<close>: has the present lease run out; \<open>t3\<close>: when it was
  released; \<open>t4\<close>: the start of the new lease.
\<close>

definition reserve_decision ::
  "int \<Rightarrow> int \<Rightarrow> int \<Rightarrow> int \<Rightarrow> string \<Rightarrow> int \<Rightarrow> delegation_row \<Rightarrow> store_error + delegation_row" where
  "reserve_decision t1 t2 t3 t4 owner revision g =
     (if owner = [] then Inl (ProtocolE EmptyOwner)
      else if dg_owner g = Some owner \<and>
              (dg_result_state g = Delivered \<or> dg_result_state g = Reserved \<and> alive t1 g)
      then Inr g
      else if \<not> terminal (dg_status g) \<or> dg_revision g \<noteq> revision then Inl (ProtocolE ResultNotReady)
      else if dg_result_state g = Reserved \<and> expired t2 g
      then Inr (reserve_row t4 owner (release_row t3 g))
      else if dg_result_state g \<noteq> Unconsumed then Inl (ProtocolE ResultOwned)
      else Inr (reserve_row t4 owner g))"

definition transition_decision ::
  "int \<Rightarrow> string \<Rightarrow> int \<Rightarrow> result_state \<Rightarrow> delegation_row \<Rightarrow> store_error + delegation_row" where
  "transition_decision now owner revision target g =
     (if target = Delivered \<and> dg_result_state g = Delivered \<and> dg_owner g = Some owner then Inr g
      else if dg_result_state g \<noteq> Reserved \<or> dg_owner g \<noteq> Some owner \<or> dg_revision g \<noteq> revision \<or>
              target = Delivered \<and> expired now g
      then Inl (ProtocolE LeaseConflict)
      else Inr (if target = Delivered then deliver_row g else release_row now g))"

text \<open>Both methods read the row, decide, write it back and read it again.\<close>

definition with_delegation ::
  "string \<Rightarrow> (delegation_row \<Rightarrow> store_error + delegation_row) \<Rightarrow> db \<Rightarrow> store_error + delegation_record \<times> db" where
  "with_delegation child decision d =
     bindE (ok_or (ProtocolE ChildMissing) (read_delegation_in d child)) (\<lambda>rec.
     bindE (decision (dr_row rec)) (\<lambda>g.
     let d = set_delegation child (\<lambda>_. g) d in
     bindE (ok_or Panic (read_delegation_in d child)) (\<lambda>rec. Inr (rec, d))))"

definition reserve_delegation_result ::
  "int \<Rightarrow> int \<Rightarrow> int \<Rightarrow> int \<Rightarrow> string \<Rightarrow> string \<Rightarrow> int \<Rightarrow> db \<Rightarrow> store_error + delegation_record \<times> db" where
  "reserve_delegation_result t1 t2 t3 t4 child owner revision =
     with_delegation child (reserve_decision t1 t2 t3 t4 owner revision)"

definition release_delegation_result ::
  "int \<Rightarrow> string \<Rightarrow> string \<Rightarrow> int \<Rightarrow> db \<Rightarrow> store_error + delegation_record \<times> db" where
  "release_delegation_result now child owner revision =
     with_delegation child (transition_decision now owner revision Unconsumed)"

definition deliver_delegation_result ::
  "int \<Rightarrow> string \<Rightarrow> string \<Rightarrow> int \<Rightarrow> db \<Rightarrow> store_error + delegation_record \<times> db" where
  "deliver_delegation_result now child owner revision =
     with_delegation child (transition_decision now owner revision Delivered)"

end
