(* ===== verification/Store_Frame.thy ===== *)
theory Store_Frame
  imports Delegation_Ops
begin

text \<open>
  What each row write changes and what it leaves alone: the frame lemmas the proofs about the
  run store share, collected in \<open>frame\<close>, and the total form \<open>logged\<close> of a successful
  \<open>insert_event\<close>. \<open>core\<close> is a run's row without its event counter and update stamp, the part
  no log entry touches.
\<close>

named_theorems frame

definition logged :: "int \<Rightarrow> string \<Rightarrow> string \<Rightarrow> json \<Rightarrow> nat \<Rightarrow> db \<Rightarrow> db" where
  "logged now rid name data seq d =
     set_run rid (\<lambda>r. r\<lparr>run_last_seq := seq, run_updated := now\<rparr>)
       (d\<lparr>events := events d @
          [\<lparr>ev_run = rid, ev_seq = seq, ev_name = name, ev_data = data, ev_created = now\<rparr>]\<rparr>)"

lemma insert_event_iff:
  "insert_event now rid name data d = Inr (n, d') \<longleftrightarrow>
     (\<exists>r. find_run d rid = Some r \<and> n = Suc (run_last_seq r) \<and> d' = logged now rid name data n d)"
  by (auto simp: insert_event_def logged_def Let_def split: option.splits)

lemma insert_event_Inl: "insert_event now rid name data d = Inl e \<longleftrightarrow> find_run d rid = None \<and> e = SqlError"
  by (auto simp: insert_event_def Let_def split: option.splits)

lemma set_run_frame [frame]:
  "sessions (set_run rid f d) = sessions d" "turns (set_run rid f d) = turns d"
  "events (set_run rid f d) = events d" "interactions (set_run rid f d) = interactions d"
  "queued_rows (set_run rid f d) = queued_rows d" "tools (set_run rid f d) = tools d"
  "routes (set_run rid f d) = routes d" "attempts (set_run rid f d) = attempts d"
  "delegations (set_run rid f d) = delegations d"
  "runs (set_run rid f d) = update_where (\<lambda>r. run_id r = rid) f (runs d)"
  by (simp_all add: set_run_def)

lemma set_turn_frame [frame]:
  "sessions (set_turn rid s d) = sessions d" "runs (set_turn rid s d) = runs d"
  "events (set_turn rid s d) = events d" "interactions (set_turn rid s d) = interactions d"
  "queued_rows (set_turn rid s d) = queued_rows d" "tools (set_turn rid s d) = tools d"
  "routes (set_turn rid s d) = routes d" "attempts (set_turn rid s d) = attempts d"
  "delegations (set_turn rid s d) = delegations d"
  "turns (set_turn rid s d) =
     update_where (\<lambda>t. tn_run t = rid) (\<lambda>t. t\<lparr>tn_status := s\<rparr>) (turns d)"
  by (simp_all add: set_turn_def)

lemma set_queue_frame [frame]:
  "sessions (set_queue rid s d) = sessions d" "runs (set_queue rid s d) = runs d"
  "events (set_queue rid s d) = events d" "interactions (set_queue rid s d) = interactions d"
  "turns (set_queue rid s d) = turns d" "tools (set_queue rid s d) = tools d"
  "routes (set_queue rid s d) = routes d" "attempts (set_queue rid s d) = attempts d"
  "delegations (set_queue rid s d) = delegations d"
  "queued_rows (set_queue rid s d) =
     update_where (\<lambda>q. q_run q = rid) (\<lambda>q. q\<lparr>q_status := s\<rparr>) (queued_rows d)"
  by (simp_all add: set_queue_def)

lemma set_delegation_frame [frame]:
  "sessions (set_delegation c f d) = sessions d" "runs (set_delegation c f d) = runs d"
  "events (set_delegation c f d) = events d" "interactions (set_delegation c f d) = interactions d"
  "turns (set_delegation c f d) = turns d" "tools (set_delegation c f d) = tools d"
  "routes (set_delegation c f d) = routes d" "attempts (set_delegation c f d) = attempts d"
  "queued_rows (set_delegation c f d) = queued_rows d"
  "delegations (set_delegation c f d) = update_where (\<lambda>g. dg_child_run g = c) f (delegations d)"
  by (simp_all add: set_delegation_def)

lemma logged_frame [frame]:
  "sessions (logged now rid name data seq d) = sessions d"
  "turns (logged now rid name data seq d) = turns d"
  "interactions (logged now rid name data seq d) = interactions d"
  "queued_rows (logged now rid name data seq d) = queued_rows d"
  "tools (logged now rid name data seq d) = tools d"
  "routes (logged now rid name data seq d) = routes d"
  "attempts (logged now rid name data seq d) = attempts d"
  "delegations (logged now rid name data seq d) = delegations d"
  "runs (logged now rid name data seq d) =
     update_where (\<lambda>r. run_id r = rid) (\<lambda>r. r\<lparr>run_last_seq := seq, run_updated := now\<rparr>) (runs d)"
  "events (logged now rid name data seq d) = events d @
     [\<lparr>ev_run = rid, ev_seq = seq, ev_name = name, ev_data = data, ev_created = now\<rparr>]"
  by (simp_all add: logged_def set_run_def)

lemma orphan_pending_frame [frame]:
  "sessions (orphan_pending rid d) = sessions d" "runs (orphan_pending rid d) = runs d"
  "events (orphan_pending rid d) = events d" "queued_rows (orphan_pending rid d) = queued_rows d"
  "turns (orphan_pending rid d) = turns d" "tools (orphan_pending rid d) = tools d"
  "routes (orphan_pending rid d) = routes d" "attempts (orphan_pending rid d) = attempts d"
  "delegations (orphan_pending rid d) = delegations d"
  by (simp_all add: orphan_pending_def)

lemma enqueue_frame [frame]:
  "sessions (enqueue sid rid i d) = sessions d" "runs (enqueue sid rid i d) = runs d"
  "events (enqueue sid rid i d) = events d" "interactions (enqueue sid rid i d) = interactions d"
  "turns (enqueue sid rid i d) = turns d" "tools (enqueue sid rid i d) = tools d"
  "routes (enqueue sid rid i d) = routes d" "attempts (enqueue sid rid i d) = attempts d"
  "delegations (enqueue sid rid i d) = delegations d"
  by (simp_all add: enqueue_def)

lemma touch_session_frame [frame]:
  "runs (touch_session sid now d) = runs d" "events (touch_session sid now d) = events d"
  "interactions (touch_session sid now d) = interactions d"
  "queued_rows (touch_session sid now d) = queued_rows d"
  "turns (touch_session sid now d) = turns d" "tools (touch_session sid now d) = tools d"
  "routes (touch_session sid now d) = routes d" "attempts (touch_session sid now d) = attempts d"
  "delegations (touch_session sid now d) = delegations d"
  by (simp_all add: touch_session_def)

lemma insert_delegation_frame [frame]:
  "sessions (insert_delegation now q l c rt d) = sessions d"
  "runs (insert_delegation now q l c rt d) = runs d"
  "events (insert_delegation now q l c rt d) = events d"
  "interactions (insert_delegation now q l c rt d) = interactions d"
  "queued_rows (insert_delegation now q l c rt d) = queued_rows d"
  "turns (insert_delegation now q l c rt d) = turns d"
  "tools (insert_delegation now q l c rt d) = tools d"
  "routes (insert_delegation now q l c rt d) = routes d"
  "attempts (insert_delegation now q l c rt d) = attempts d"
  by (simp_all add: insert_delegation_def)

lemma insert_run_frame [frame]:
  "sessions (insert_run now sid rq i rt n d) = sessions d"
  "events (insert_run now sid rq i rt n d) = events d"
  "interactions (insert_run now sid rq i rt n d) = interactions d"
  "queued_rows (insert_run now sid rq i rt n d) = queued_rows d"
  "tools (insert_run now sid rq i rt n d) = tools d"
  "attempts (insert_run now sid rq i rt n d) = attempts d"
  "delegations (insert_run now sid rq i rt n d) = delegations d"
  by (simp_all add: insert_run_def)

lemma write_terminal_frame [frame]:
  "sessions (write_terminal now rid s c e d) = sessions d"
  "events (write_terminal now rid s c e d) = events d"
  "interactions (write_terminal now rid s c e d) = interactions d"
  "tools (write_terminal now rid s c e d) = tools d"
  "routes (write_terminal now rid s c e d) = routes d"
  "attempts (write_terminal now rid s c e d) = attempts d"
  "delegations (write_terminal now rid s c e d) = delegations d"
  "queued_rows (write_terminal now rid s c e d) =
     update_where (\<lambda>q. q_run q = rid) (\<lambda>q. q\<lparr>q_status := s\<rparr>) (queued_rows d)"
  "turns (write_terminal now rid s c e d) =
     update_where (\<lambda>t. tn_run t = rid) (\<lambda>t. t\<lparr>tn_status := s\<rparr>) (turns d)"
  by (simp_all add: write_terminal_def frame)

lemma insert_tools_frame:
  "insert_tools now rid round calls d = Inr d' \<Longrightarrow>
   sessions d' = sessions d \<and> runs d' = runs d \<and> turns d' = turns d \<and> events d' = events d \<and>
   interactions d' = interactions d \<and> queued_rows d' = queued_rows d \<and> routes d' = routes d \<and>
   attempts d' = attempts d \<and> delegations d' = delegations d"
  by (induction now rid round calls d rule: insert_tools.induct) (auto split: if_splits)

lemma insert_tools_runs: "insert_tools now rid round calls d = Inr d' \<Longrightarrow> runs d' = runs d"
  by (drule insert_tools_frame) simp

section \<open>Finding rows after a write\<close>

lemma find_run_set_run [frame]:
  "(\<And>r. run_id (f r) = run_id r) \<Longrightarrow>
   find_run (set_run rid f d) rid' = map_option (\<lambda>r. if run_id r = rid then f r else r) (find_run d rid')"
  unfolding find_run_def set_run_frame by (rule find_key_update_where)

lemma find_run_logged [frame]:
  "find_run (logged now rid name data seq d) rid' =
     map_option (\<lambda>r. if run_id r = rid then r\<lparr>run_last_seq := seq, run_updated := now\<rparr> else r)
       (find_run d rid')"
  by (simp add: find_run_def frame find_key_update_where)

lemma find_run_cong: "runs d = runs d' \<Longrightarrow> find_run d rid = find_run d' rid"
  by (simp add: find_run_def)

lemma find_run_frame [frame]:
  "find_run (set_turn r s d) rid = find_run d rid" "find_run (set_queue r s d) rid = find_run d rid"
  "find_run (set_delegation c g d) rid = find_run d rid" "find_run (orphan_pending r d) rid = find_run d rid"
  "find_run (enqueue sid r i d) rid = find_run d rid" "find_run (touch_session sid now d) rid = find_run d rid"
  "find_run (insert_delegation now q l c rt d) rid = find_run d rid"
  by (simp_all add: find_run_def frame)

lemma find_run_id: "find_run d rid = Some r \<Longrightarrow> run_id r = rid \<and> r \<in> set (runs d)"
  by (auto simp: find_run_def dest: find_key_SomeD)

section \<open>The part of a run no log entry touches\<close>

definition core :: "run_row \<Rightarrow> run_row" where
  "core r = r\<lparr>run_last_seq := 0, run_updated := 0\<rparr>"

definition cores :: "db \<Rightarrow> run_row list" where
  "cores d = map core (runs d)"

lemma core_simps [simp]:
  "run_rowid (core r) = run_rowid r" "run_id (core r) = run_id r"
  "run_session (core r) = run_session r" "run_request (core r) = run_request r"
  "run_status (core r) = run_status r" "run_input (core r) = run_input r"
  "run_content (core r) = run_content r" "run_error_code (core r) = run_error_code r"
  "run_error_message (core r) = run_error_message r" "run_created (core r) = run_created r"
  "core (r\<lparr>run_last_seq := n\<rparr>) = core r" "core (r\<lparr>run_updated := t\<rparr>) = core r"
  "core (core r) = core r"
  by (simp_all add: core_def)

lemma core_update [simp]:
  "core (r\<lparr>run_last_seq := n, run_updated := t\<rparr>) = core r"
  by (simp add: core_def)

lemma cores_logged [frame]: "cores (logged now rid name data seq d) = cores d"
  by (simp add: cores_def frame map_update_where)

lemma cores_frame [frame]:
  "cores (set_turn r s d) = cores d" "cores (set_queue r s d) = cores d"
  "cores (set_delegation c g d) = cores d" "cores (orphan_pending r d) = cores d"
  "cores (enqueue sid r i d) = cores d" "cores (touch_session sid now d) = cores d"
  "cores (insert_delegation now q l c rt d) = cores d"
  by (simp_all add: cores_def frame)

lemma mark_terminal_frame:
  assumes "mark_terminal_in now child run d = Inr d'"
  shows "sessions d' = sessions d \<and> turns d' = turns d \<and> interactions d' = interactions d \<and>
    queued_rows d' = queued_rows d \<and> tools d' = tools d \<and> routes d' = routes d \<and>
    attempts d' = attempts d \<and> cores d' = cores d \<and>
    delegations d' = update_where (\<lambda>g. dg_child_run g = child)
      (\<lambda>g. g\<lparr>dg_status := rec_status run, dg_finished := Some now,
             dg_terminal := Some (run_terminal_json run)\<rparr>) (delegations d)"
proof (cases "find_delegation d child")
  case None
  then have "\<forall>g \<in> set (delegations d). dg_child_run g \<noteq> child"
    by (auto simp: find_delegation_def find_key_None_iff)
  then have "update_where (\<lambda>g. dg_child_run g = child) f (delegations d) = delegations d" for f
    by (intro update_where_id) auto
  then show ?thesis using assms None by (simp add: mark_terminal_in_def)
next
  case (Some g)
  then show ?thesis
    using assms
    by (auto simp: mark_terminal_in_def Let_def result_simps insert_event_iff frame
        split: option.splits if_splits)
qed

end
