(* ===== verification/Store_Machine.thy ===== *)
theory Store_Machine
  imports Store_Frame
begin

text \<open>
  The run store as a machine: every method that writes is a constructor of \<open>store_op\<close>, and a
  step runs the method and keeps the new database when it committed. The SQLite mutex makes
  the methods atomic, so a concurrent history is a list of operations.

  The event log needs no more than that. \<open>daemon_step\<close> is the store as the daemon uses it: an
  approval is only asked for by a run that is being executed, which is what the daemon's
  single caller of \<open>append_event\<close> with that event relies on and the store does not check.
\<close>

datatype store_op =
    OpAdmit int string request_id string admission_mode "route_snapshot option"
  | OpStart int string
  | OpRemoveQueued int string
  | OpPrepareTools int string nat "tool_plan list"
  | OpStartTool int string nat string
  | OpFinishTool int string nat string string "string option" json
  | OpFinishBatch int string nat
  | OpAppend int string string json
  | OpClaim int string string string int bool
  | OpFinish int string run_status "string option" "(int \<times> string) option"
  | OpReconcile int string string nat run_status "string option" string
  | OpStartAttempt int provider_attempt
  | OpFinishAttempt int provider_attempt
  | OpRecover int
  | OpDelegate int delegation_request
  | OpReserve int int int int string string int
  | OpRelease int string string int
  | OpDeliver int string string int

definition committed :: "store_error + 'a \<times> db \<Rightarrow> db \<Rightarrow> db" where
  "committed res d = (case res of Inl e \<Rightarrow> d | Inr (x, d') \<Rightarrow> d')"

definition committed_unit :: "store_error + db \<Rightarrow> db \<Rightarrow> db" where
  "committed_unit res d = (case res of Inl e \<Rightarrow> d | Inr d' \<Rightarrow> d')"

fun store_step :: "(string \<Rightarrow> string) \<Rightarrow> db \<Rightarrow> store_op \<Rightarrow> db" where
  "store_step sha d (OpAdmit now sid rq i m rt) = committed (admit_with_route now sid rq i m rt d) d"
| "store_step sha d (OpStart now rid) = committed (try_start_queued now rid d) d"
| "store_step sha d (OpRemoveQueued now rid) = committed (remove_queued now rid d) d"
| "store_step sha d (OpPrepareTools now rid rnd cs) = committed_unit (prepare_tool_batch now rid rnd cs d) d"
| "store_step sha d (OpStartTool now rid rnd c) = committed_unit (start_tool now rid rnd c d) d"
| "store_step sha d (OpFinishTool now rid rnd c out art rc) =
     committed_unit (finish_tool now rid rnd c out art rc d) d"
| "store_step sha d (OpFinishBatch now rid rnd) = committed_unit (finish_tool_batch now rid rnd d) d"
| "store_step sha d (OpAppend now rid n j) = committed (append_event now rid n j d) d"
| "store_step sha d (OpClaim now i sid rid rv a) = committed (claim_interaction now i sid rid rv a d) d"
| "store_step sha d (OpFinish now rid s c e) = committed (finish now rid s c e d) d"
| "store_step sha d (OpReconcile now rid sid n s c ev) =
     committed (reconcile_unknown sha now rid sid n s c ev d) d"
| "store_step sha d (OpStartAttempt now a) = committed_unit (start_provider_attempt now a d) d"
| "store_step sha d (OpFinishAttempt now a) = committed_unit (finish_provider_attempt now a d) d"
| "store_step sha d (OpRecover now) = committed (recover now d) d"
| "store_step sha d (OpDelegate now q) = committed (admit_delegation now q d) d"
| "store_step sha d (OpReserve t1 t2 t3 t4 c ow rv) =
     committed (reserve_delegation_result t1 t2 t3 t4 c ow rv d) d"
| "store_step sha d (OpRelease now c ow rv) = committed (release_delegation_result now c ow rv d) d"
| "store_step sha d (OpDeliver now c ow rv) = committed (deliver_delegation_result now c ow rv d) d"

definition asks_approval :: "string \<Rightarrow> json \<Rightarrow> bool" where
  "asks_approval name data \<longleftrightarrow> name = ''approval_required'' \<and> json_get ''approval'' data \<noteq> None"

fun allowed :: "db \<Rightarrow> store_op \<Rightarrow> bool" where
  "allowed d (OpAppend now rid name data) =
     (asks_approval name data \<longrightarrow> (case find_run d rid of None \<Rightarrow> True | Some r \<Rightarrow> busy (run_status r)))"
| "allowed d _ = True"

definition daemon_step :: "(string \<Rightarrow> string) \<Rightarrow> db \<Rightarrow> store_op \<Rightarrow> db" where
  "daemon_step sha d op = (if allowed d op then store_step sha d op else d)"

text \<open>
  A property of databases is kept by every step when every committed operation keeps it.
\<close>

lemma committed_inv:
  "P d \<Longrightarrow> (\<And>x d'. res = Inr (x, d') \<Longrightarrow> P d') \<Longrightarrow> P (committed res d)"
  by (auto simp: committed_def split: sum.splits)

lemma committed_unit_inv:
  "P d \<Longrightarrow> (\<And>d'. res = Inr d' \<Longrightarrow> P d') \<Longrightarrow> P (committed_unit res d)"
  by (auto simp: committed_unit_def split: sum.splits)

text \<open>Reading a run that is there and has a well-formed id always succeeds.\<close>

lemma run_key_inj: "run_key m = run_key n \<longleftrightarrow> m = n"
  by (simp add: run_key_def dec_inj)

lemma rowid_of_run_key: "n < 2 ^ 63 \<Longrightarrow> rowid_of_run (run_key n) = Some (int n)"
  by (simp add: rowid_of_run_def run_key_def starts_with_def parse_i64_dec)

lemma turn_of_rowid: "''turn-'' @ dec_int (int n) = turn_key n"
  by (simp add: dec_int_def turn_key_def)

lemma read_run_or_Inr:
  "read_run_or e d rid = Inr rec \<Longrightarrow>
   \<exists>r n. find_run d rid = Some r \<and> rec = record_of_run (''turn-'' @ dec_int n) r \<and> rec_run rec = rid"
  by (auto simp: read_run_or_def read_run_in_def result_simps record_of_run_def
      split: option.splits dest: find_run_id)

lemma record_of_run_simps [simp]:
  "rec_run (record_of_run t r) = run_id r" "rec_session (record_of_run t r) = run_session r"
  "rec_status (record_of_run t r) = run_status r" "rec_content (record_of_run t r) = run_content r"
  "rec_error_code (record_of_run t r) = run_error_code r"
  "rec_error_message (record_of_run t r) = run_error_message r"
  "rec_last_seq (record_of_run t r) = run_last_seq r" "rec_request (record_of_run t r) = run_request r"
  "rec_turn (record_of_run t r) = t"
  by (simp_all add: record_of_run_def)

section \<open>The log's invariant\<close>

text \<open>
  Rowids ascend, a run's id is made of its rowid, request ids are unique within a session, the
  events of a run are numbered \<open>1\<close> to its counter without a gap, and every event has its run.
\<close>

definition ids_ok :: "db \<Rightarrow> bool" where
  "ids_ok d \<longleftrightarrow> sorted_wrt (<) (map run_rowid (runs d)) \<and>
     (\<forall>r \<in> set (runs d). run_id r = run_key (run_rowid r) \<and> run_rowid r < 2 ^ 63) \<and>
     distinct (map (\<lambda>r. (run_session r, run_request r)) (runs d))"

definition seqs_of :: "db \<Rightarrow> string \<Rightarrow> nat list" where
  "seqs_of d rid = map ev_seq (filter (\<lambda>e. ev_run e = rid) (events d))"

definition events_ok :: "db \<Rightarrow> bool" where
  "events_ok d \<longleftrightarrow> (\<forall>r \<in> set (runs d). seqs_of d (run_id r) = [1..<Suc (run_last_seq r)]) \<and>
     ev_run ` set (events d) \<subseteq> run_id ` set (runs d)"

definition log_ok :: "db \<Rightarrow> bool" where
  "log_ok d \<longleftrightarrow> ids_ok d \<and> events_ok d"

text \<open>\<open>skel\<close>: all of the database the invariant looks at.\<close>

definition skel :: "db \<Rightarrow> (nat \<times> string \<times> string \<times> request_id \<times> nat) list \<times> event_row list" where
  "skel d = (map (\<lambda>r. (run_rowid r, run_id r, run_session r, run_request r, run_last_seq r)) (runs d), events d)"

lemma skel_log_ok:
  assumes "skel d' = skel d"
  shows "log_ok d' = log_ok d"
proof -
  let ?k = "\<lambda>r. (run_rowid r, run_id r, run_session r, run_request r, run_last_seq r)"
  have ev: "events d' = events d" and ks: "map ?k (runs d') = map ?k (runs d)"
    using assms by (simp_all add: skel_def)
  have rowids: "map run_rowid (runs d') = map run_rowid (runs d)"
    using arg_cong [OF ks, of "map fst"] by (simp add: comp_def)
  have reqs: "map (\<lambda>r. (run_session r, run_request r)) (runs d') =
      map (\<lambda>r. (run_session r, run_request r)) (runs d)"
    using arg_cong [OF ks, of "map (\<lambda>(a, b, c, e, f). (c, e))"] by (simp add: comp_def)
  have ids: "run_id ` set (runs d') = run_id ` set (runs d)"
    using arg_cong [OF ks, of "\<lambda>l. (\<lambda>(a, b, c, e, f). b) ` set l"] by (simp add: image_image)
  have all: "(\<forall>r \<in> set (runs d'). P (run_rowid r) (run_id r) (run_last_seq r)) =
      (\<forall>r \<in> set (runs d). P (run_rowid r) (run_id r) (run_last_seq r))" for P
    using arg_cong [OF ks, of "list_all (\<lambda>(a, b, c, e, f). P a b f)"] by (simp add: list_all_iff)
  show ?thesis
    using all [of "\<lambda>a b c. b = run_key a \<and> a < 2 ^ 63"] all [of "\<lambda>a b c. seqs_of d b = [1..<Suc c]"]
    unfolding log_ok_def ids_ok_def events_ok_def seqs_of_def rowids reqs ids ev by simp
qed

lemma skel_set_run:
  assumes "\<And>r. run_rowid (f r) = run_rowid r" "\<And>r. run_id (f r) = run_id r"
    "\<And>r. run_session (f r) = run_session r" "\<And>r. run_request (f r) = run_request r"
    "\<And>r. run_last_seq (f r) = run_last_seq r"
  shows "map (\<lambda>r. (run_rowid r, run_id r, run_session r, run_request r, run_last_seq r))
      (update_where p f rs) = map (\<lambda>r. (run_rowid r, run_id r, run_session r, run_request r, run_last_seq r)) rs"
  using assms by (simp add: map_update_where)

lemma distinct_run_ids: "log_ok d \<Longrightarrow> distinct (map run_id (runs d))"
proof -
  assume ok: "log_ok d"
  then have "map run_id (runs d) = map run_key (map run_rowid (runs d))"
    by (auto simp: log_ok_def ids_ok_def)
  moreover have "distinct (map run_rowid (runs d))"
    using ok by (auto simp: log_ok_def ids_ok_def strict_sorted_iff)
  ultimately show ?thesis
    by (simp add: distinct_map inj_on_def run_key_inj)
qed

lemma find_run_Some_iff: "log_ok d \<Longrightarrow> find_run d rid = Some r \<longleftrightarrow> r \<in> set (runs d) \<and> run_id r = rid"
  unfolding find_run_def by (rule find_key_Some_iff [OF distinct_run_ids])

lemma logged_log_ok:
  assumes ok: "log_ok d" and r: "find_run d rid = Some r"
  shows "log_ok (logged now rid name data (Suc (run_last_seq r)) d)" (is "log_ok ?d'")
proof -
  have mem: "r \<in> set (runs d)" "run_id r = rid"
    using r ok by (simp_all add: find_run_Some_iff)
  have "ids_ok ?d'"
    using ok by (auto simp: log_ok_def ids_ok_def frame map_update_where set_update_where)
  moreover have "seqs_of ?d' (run_id x) = [1..<Suc (run_last_seq x)]"
    if x: "x \<in> set (runs ?d')" for x
  proof -
    obtain y where y: "y \<in> set (runs d)"
        "x = (if run_id y = rid then y\<lparr>run_last_seq := Suc (run_last_seq r), run_updated := now\<rparr> else y)"
      using x by (auto simp: frame set_update_where)
    have old: "seqs_of d (run_id y) = [1..<Suc (run_last_seq y)]"
      using ok y(1) by (simp add: log_ok_def events_ok_def)
    have "y = r" if "run_id y = rid"
      using that y(1) mem distinct_key_inj [OF distinct_run_ids [OF ok]] by blast
    then show ?thesis
      using old y(2) mem(2) by (auto simp: seqs_of_def frame)
  qed
  moreover have "ev_run ` set (events ?d') \<subseteq> run_id ` set (runs ?d')"
    using ok mem by (auto simp: log_ok_def events_ok_def frame image_update_where)
  ultimately show ?thesis by (simp add: log_ok_def events_ok_def)
qed

lemma insert_event_log_ok: "insert_event now rid name data d = Inr (n, d') \<Longrightarrow> log_ok d \<Longrightarrow> log_ok d'"
  by (auto simp: insert_event_iff logged_log_ok)

section \<open>Evaluation\<close>

text \<open>The definitions that run the store on a concrete database by rewriting.\<close>

named_theorems store_eval

lemmas [store_eval] =
  committed_def committed_unit_def empty_db_def Let_def next_rowid_def find_run_def find_key_def
  find_delegation_def set_run_def set_turn_def set_queue_def set_delegation_def update_where_def
  count_where_def insert_event_def read_run_or_def read_run_in_def rowid_of_run_key turn_of_rowid
  record_of_run_def run_key_inj mark_terminal_in_def

lemmas [store_eval] =
  admit_with_route_def find_request_row_def new_run_def insert_run_def touch_session_def enqueue_def
  try_start_queued_def start_run_def head_of_queue_def sat_i64_def remove_queued_def
  prepare_tool_batch_def tool_at_def start_tool_def finish_tool_def finish_tool_batch_def
  append_event_def open_interaction_def approval_row_def json_index_def json_get_def json_str_def
  read_interaction_def claim_interaction_def resolve_interaction_def approved_json_def

lemmas [store_eval] =
  finish_def finish_with_def effective_status_def incomplete_tools_def started_side_effects_def
  last_attempt_kind_def write_terminal_def orphan_pending_def log_content_def reconcile_unknown_def
  reconcile_with_def evidence_ok_def manual_error_def start_provider_attempt_def
  finish_provider_attempt_def recover_def recover_one_def

lemmas [store_eval] =
  admit_delegation_def read_delegation_in_def find_spawn_def request_valid_def lineage_def
  root_total_def root_active_def insert_delegation_def spawn_child_def route_snapshot_of_def
  session_exists_def max_depth_def max_root_spawns_def max_root_active_def with_delegation_def
  reserve_delegation_result_def release_delegation_result_def deliver_delegation_result_def
  reserve_decision_def transition_decision_def expired_def alive_def release_row_def
  reserve_row_def deliver_row_def

end
