(* ===== verification/Store_Log.thy ===== *)
theory Store_Log
  imports Store_Machine "HOL-Library.Sublist"
begin

text \<open>
  The event log of the run store: no operation, in any order and with any arguments, breaks
  the numbering of the events or loses or rewrites one, so a client can page through a run's
  log and resume from the last number it saw.
\<close>

section \<open>Operations extend the log\<close>

text \<open>
  \<open>log_step\<close> is what an operation may do to the log: keep its invariant and append events.
\<close>

definition log_step :: "db \<Rightarrow> db \<Rightarrow> bool" where
  "log_step d d' \<longleftrightarrow> (log_ok d \<longrightarrow> log_ok d') \<and> prefix (events d) (events d')"

lemma log_step_refl: "log_step d d"
  by (simp add: log_step_def)

lemma log_step_trans: "log_step d1 d2 \<Longrightarrow> log_step d2 d3 \<Longrightarrow> log_step d1 d3"
  by (auto simp: log_step_def dest: prefix_order.trans)

lemma log_step_skel: "skel d' = skel d \<Longrightarrow> log_step d d'"
  using skel_log_ok [of d' d] by (auto simp: log_step_def skel_def)

lemma log_step_cong: "skel d1 = skel d2 \<Longrightarrow> skel d1' = skel d2' \<Longrightarrow> log_step d1 d1' = log_step d2 d2'"
  using skel_log_ok [of d1 d2] skel_log_ok [of d1' d2'] by (auto simp: log_step_def skel_def)

lemma log_step_insert: "insert_event now rid name data d = Inr (n, d') \<Longrightarrow> log_step d d'"
  using insert_event_log_ok [of now rid name data d n d']
  by (auto simp: log_step_def insert_event_iff frame)

lemma skel_frame [frame]:
  "skel (set_turn r s d) = skel d" "skel (set_queue r s d) = skel d"
  "skel (set_delegation c f d) = skel d" "skel (orphan_pending r d) = skel d"
  "skel (enqueue sid r i d) = skel d" "skel (touch_session sid now d) = skel d"
  "skel (insert_delegation now q l c rt d) = skel d"
  "skel (d\<lparr>tools := ts\<rparr>) = skel d" "skel (d\<lparr>interactions := xs\<rparr>) = skel d"
  "skel (d\<lparr>queued_rows := qs\<rparr>) = skel d" "skel (d\<lparr>attempts := as\<rparr>) = skel d"
  by (simp_all add: skel_def frame)

lemma skel_status [frame]:
  "skel (set_run rid (\<lambda>r. r\<lparr>run_status := s\<rparr>) d) = skel d"
  "skel (set_run rid (\<lambda>r. r\<lparr>run_status := s, run_updated := t\<rparr>) d) = skel d"
  "skel (write_terminal now rid s c e d) = skel d"
  by (simp_all add: skel_def frame skel_set_run write_terminal_def)

lemma skel_resume [frame]:
  "skel (d\<lparr>runs := update_where p (\<lambda>r. r\<lparr>run_status := s\<rparr>) (runs d)\<rparr>) = skel d"
  "skel (d\<lparr>interactions := xs, runs := update_where p (\<lambda>r. r\<lparr>run_status := s\<rparr>) (runs d)\<rparr>) = skel d"
  by (simp_all add: skel_def skel_set_run)

text \<open>Writes that do not touch the log can be erased on either side of \<open>log_step\<close>.\<close>

lemma log_step_left:
  "skel d2 = skel d1 \<Longrightarrow> log_step d2 d' = log_step d1 d'"
  by (rule log_step_cong) simp_all

lemma log_step_right:
  "skel d2 = skel d1 \<Longrightarrow> log_step d d2 = log_step d d1"
  by (rule log_step_cong) simp_all

lemmas log_simps =
  skel_frame [THEN log_step_left] skel_status [THEN log_step_left] skel_resume [THEN log_step_left]
  skel_frame [THEN log_step_right] skel_status [THEN log_step_right] skel_resume [THEN log_step_right]

lemma insert_run_log_ok:
  assumes ok: "log_ok d" and n: "n = next_rowid (map run_rowid (runs d))" "n < 2 ^ 63"
    and new: "\<not> list_ex (\<lambda>r. run_session r = sid \<and> run_request r = rq) (runs d)"
  shows "log_ok (insert_run now sid rq input route n d)"
proof -
  have fresh: "run_key n \<notin> run_id ` set (runs d)"
  proof
    assume "run_key n \<in> run_id ` set (runs d)"
    then obtain r where r: "r \<in> set (runs d)" "run_key n = run_id r" by auto
    then have "n = run_rowid r" using ok by (auto simp: log_ok_def ids_ok_def run_key_inj)
    then show False using r(1) next_rowid_fresh [of "map run_rowid (runs d)"] by (auto simp: n(1))
  qed
  then have none: "filter (\<lambda>e. ev_run e = run_key n) (events d) = []"
    using ok unfolding log_ok_def events_ok_def filter_empty_conv by (metis image_eqI subset_iff)
  have "\<forall>r \<in> set (runs d). run_rowid r < n"
    using next_rowid_greater [of _ "map run_rowid (runs d)"] by (auto simp: n(1))
  then show ?thesis
    using ok n(2) new none
    by (auto simp: log_ok_def ids_ok_def events_ok_def insert_run_def seqs_of_def sorted_wrt_append
        list_ex_iff)
qed

lemma new_run_log_step: "new_run now sid rq i rt d = Inr (rid, d') \<Longrightarrow> log_step d d'"
proof -
  let ?n = "next_rowid (map run_rowid (runs d))"
  assume a: "new_run now sid rq i rt d = Inr (rid, d')"
  then obtain m d1 where ins: "insert_event now (run_key ?n) ''user_message'' (JObj [(''content'', JStr i)])
        (insert_run now sid rq i rt ?n d) = Inr (m, d1)"
      and d': "d' = enqueue sid (run_key ?n) i d1"
      and new: "\<not> list_ex (\<lambda>r. run_session r = sid \<and> run_request r = rq) (runs d)" "?n < 2 ^ 63"
    by (auto simp: new_run_def Let_def result_simps split: if_splits)
  have "log_step d (insert_run now sid rq i rt ?n d)"
    using new by (auto simp: log_step_def frame insert_run_log_ok)
  with log_step_insert [OF ins] show ?thesis by (auto simp: d' log_simps dest: log_step_trans)
qed

lemma mark_terminal_log_step:
  assumes "mark_terminal_in now c run d = Inr d'"
  shows "log_step d d'"
proof (cases "find_delegation d c")
  case None
  then show ?thesis using assms by (simp add: mark_terminal_in_def log_step_refl)
next
  case (Some g)
  let ?d1 = "set_delegation c (\<lambda>g. g\<lparr>dg_status := rec_status run, dg_finished := Some now,
                    dg_terminal := Some (run_terminal_json run)\<rparr>) d"
  obtain p where "read_run_in ?d1 (dg_parent_run g) = Inr p"
    using assms Some by (auto simp: mark_terminal_in_def Let_def result_simps)
  then have "d' = ?d1 \<or> (\<exists>rid data n. insert_event now rid ''delegation_terminal'' data ?d1 = Inr (n, d'))"
    using assms Some
    by (cases p) (auto simp: mark_terminal_in_def Let_def result_simps split: if_splits)
  then show ?thesis
    by (auto simp: log_simps log_step_refl dest: log_step_insert)
qed

lemma admit_log_step: "admit_with_route now sid rq i m rt d = Inr (x, d') \<Longrightarrow> log_step d d'"
  by (auto simp: admit_with_route_def result_simps log_step_refl log_simps
      split: option.splits if_splits dest!: new_run_log_step)

lemma start_log_step: "try_start_queued now rid d = Inr (x, d') \<Longrightarrow> log_step d d'"
  by (auto simp: try_start_queued_def start_run_def result_simps log_step_refl log_simps
      split: option.splits if_splits dest!: log_step_insert)

lemma insert_tools_log_step: "insert_tools now rid rnd cs d = Inr d' \<Longrightarrow> log_step d d'"
  by (drule insert_tools_frame) (auto intro: log_step_skel simp: skel_def)

lemma remove_log_step: "remove_queued now rid d = Inr (x, d') \<Longrightarrow> log_step d d'"
  by (auto simp: remove_queued_def Let_def result_simps log_step_refl log_simps
      split: option.splits if_splits dest!: log_step_insert mark_terminal_log_step
      intro: log_step_trans)

lemma prepare_log_step: "prepare_tool_batch now rid rnd cs d = Inr d' \<Longrightarrow> log_step d d'"
  by (auto simp: prepare_tool_batch_def result_simps split: option.splits if_splits
      dest!: log_step_insert insert_tools_log_step intro: log_step_trans)

lemma tool_log_step:
  "start_tool now rid rnd c d = Inr d' \<Longrightarrow> log_step d d'"
  "finish_tool now rid rnd c out art rc d = Inr d' \<Longrightarrow> log_step d d'"
  "finish_tool_batch now rid rnd d = Inr d' \<Longrightarrow> log_step d d'"
  by (auto simp: start_tool_def finish_tool_def finish_tool_batch_def result_simps log_simps log_step_refl
      split: if_splits dest!: log_step_insert)

lemma open_interaction_log_step: "open_interaction rid ap d = Inr d' \<Longrightarrow> log_step d d'"
  by (auto simp: open_interaction_def result_simps log_simps log_step_refl split: if_split_asm)

text \<open>A committed \<open>append_event\<close> is a log entry and, for an approval, its interaction.\<close>

lemma append_event_Inr:
  assumes "append_event now rid n j d = Inr (seq, d')"
  obtains d1 where "insert_event now rid n j d = Inr (seq, d1)" "\<not> asks_approval n j" "d' = d1"
  | d1 ap where "insert_event now rid n j d = Inr (seq, d1)" "asks_approval n j"
      "json_get ''approval'' j = Some ap" "open_interaction rid ap d1 = Inr d'"
proof -
  obtain d1 where d1: "insert_event now rid n j d = Inr (seq, d1)"
    using assms by (cases "insert_event now rid n j d") (auto simp: append_event_def result_simps split: option.splits)
  show thesis
  proof (cases "if n = ''approval_required'' then json_get ''approval'' j else None")
    case None
    then show ?thesis using assms d1 that(1) [OF d1]
      by (auto simp: append_event_def asks_approval_def split: if_splits)
  next
    case (Some ap)
    then show ?thesis using assms d1 that(2) [OF d1, of ap]
      by (auto simp: append_event_def asks_approval_def result_simps split: if_splits)
  qed
qed

lemma append_log_step:
  assumes "append_event now rid n j d = Inr (x, d')"
  shows "log_step d d'"
  using assms
  by (rule append_event_Inr) (auto dest!: log_step_insert open_interaction_log_step intro: log_step_trans)

lemma claim_log_step: "claim_interaction now i sid rid rv a d = Inr (x, d') \<Longrightarrow> log_step d d'"
  by (auto simp: claim_interaction_def resolve_interaction_def Let_def result_simps log_simps log_step_refl
      split: if_splits dest!: log_step_insert)

lemma log_content_log_step: "log_content now rid j d = Inr d' \<Longrightarrow> log_step d d'"
  by (auto simp: log_content_def result_simps log_step_refl split: option.splits dest!: log_step_insert)

lemma finish_log_step: "finish now rid s c e d = Inr (x, d') \<Longrightarrow> log_step d d'"
  by (auto simp: finish_def finish_with_def Let_def result_simps log_simps log_step_refl
      simp del: if_split split: if_split_asm
      dest!: log_content_log_step log_step_insert mark_terminal_log_step intro: log_step_trans)

lemma reconcile_log_step: "reconcile_unknown sha now rid sid n s c ev d = Inr (x, d') \<Longrightarrow> log_step d d'"
  by (auto simp: reconcile_unknown_def reconcile_with_def Let_def result_simps log_simps log_step_refl
      split: if_split_asm option.splits
      dest!: log_content_log_step log_step_insert mark_terminal_log_step intro: log_step_trans)

lemma attempt_log_step:
  "start_provider_attempt now a d = Inr d' \<Longrightarrow> log_step d d'"
  "finish_provider_attempt now a d = Inr d' \<Longrightarrow> log_step d d'"
  by (auto simp: start_provider_attempt_def finish_provider_attempt_def Let_def result_simps log_simps
      log_step_refl split: if_splits dest!: log_step_insert)

lemma recover_one_log_step: "recover_one now rid d = Inr d' \<Longrightarrow> log_step d d'"
  by (auto simp: recover_one_def Let_def result_simps log_simps
      dest!: log_step_insert mark_terminal_log_step intro: log_step_trans)

lemma recover_all_log_step: "recover_all now rids d = Inr d' \<Longrightarrow> log_step d d'"
  by (induction now rids d rule: recover_all.induct)
    (auto simp: result_simps log_step_refl dest!: recover_one_log_step intro: log_step_trans)

lemma recover_log_step: "recover now d = Inr (x, d') \<Longrightarrow> log_step d d'"
  by (auto simp: recover_def Let_def result_simps log_simps dest!: recover_all_log_step)

lemma delegate_log_step: "admit_delegation now q d = Inr (x, d') \<Longrightarrow> log_step d d'"
  by (auto simp: admit_delegation_def spawn_child_def Let_def result_simps log_simps log_step_refl
      split: option.splits if_splits dest!: new_run_log_step log_step_insert intro: log_step_trans)

lemma lease_log_step: "with_delegation c f d = Inr (x, d') \<Longrightarrow> log_step d d'"
  by (auto simp: with_delegation_def Let_def result_simps log_simps log_step_refl)

lemma store_log_step: "log_step d (store_step sha d op)"
  by (cases op)
    (auto simp: reserve_delegation_result_def release_delegation_result_def deliver_delegation_result_def
      intro!: committed_inv [where P = "log_step d"] committed_unit_inv [where P = "log_step d"] log_step_refl
      intro: admit_log_step start_log_step remove_log_step prepare_log_step tool_log_step append_log_step
        claim_log_step finish_log_step reconcile_log_step attempt_log_step recover_log_step
        delegate_log_step lease_log_step)

lemma empty_log_ok: "log_ok empty_db"
  by (simp add: log_ok_def ids_ok_def events_ok_def empty_db_def)

text \<open>The store is a machine whose log only grows, whatever operations it is given.\<close>

interpretation store_log: progress_machine "store_step sha" log_ok "\<lambda>d d'. prefix (events d) (events d')"
  using store_log_step
  by unfold_locales (auto simp: log_step_def dest: prefix_order.trans)

section \<open>Properties of the log\<close>

text \<open>
  C18: Invariant. After any sequence of store operations, with any arguments and any failures,
  the events of every run carry the numbers 1, 2, ... up to the run's counter, each exactly
  once and in order, run ids are unique, and a session never holds two runs of one request.
\<close>

theorem event_log_gapless:
  "(let d = foldl (store_step sha) empty_db ops in
     list_all (\<lambda>r. seqs_of d (run_id r) = [1..<Suc (run_last_seq r)]) (runs d) \<and>
     distinct (map run_id (runs d)) \<and>
     distinct (map (\<lambda>r. (run_session r, run_request r)) (runs d)))"
  using store_log.run_inv [OF empty_log_ok, of sha ops]
  by (auto simp: Let_def log_ok_def ids_ok_def events_ok_def list_all_iff
      intro: distinct_run_ids simp del: upt_Suc)

text \<open>
  The log is append-only. What any later operations do, the events already stored keep
  their place, name, data and number.
\<close>

theorem event_log_append_only:
  "prefix (events (foldl (store_step sha) empty_db ops))
     (events (foldl (store_step sha) empty_db (ops @ ops')))"
  by (rule store_log.run_le_later [OF empty_log_ok])

lemma filter_after_drop:
  assumes "map f xs = [1..<Suc n]"
  shows "filter (\<lambda>x. a < f x) xs = drop a xs"
proof -
  have len: "length xs = n" using arg_cong [OF assms, of length] by simp
  have nth: "f (xs ! i) = Suc i" if "i < n" for i
    using arg_cong [OF assms, of "\<lambda>l. l ! i"] that len by (simp del: upt_Suc)
  have low: "f x \<le> a" if x: "x \<in> set (take a xs)" for x
  proof -
    obtain i where "i < length (take a xs)" "x = take a xs ! i"
      using x by (auto simp: in_set_conv_nth)
    then show ?thesis using nth [of i] len by simp
  qed
  have high: "a < f x" if x: "x \<in> set (drop a xs)" for x
  proof -
    obtain i where "i < length (drop a xs)" "x = drop a xs ! i"
      using x by (auto simp: in_set_conv_nth)
    then show ?thesis using nth [of "a + i"] len by simp
  qed
  have "filter (\<lambda>x. a < f x) (take a xs @ drop a xs) = drop a xs"
    unfolding filter_append using low high by (auto simp: filter_empty_conv filter_id_conv not_less)
  then show ?thesis by simp
qed

lemma sorted_by_seq: "map f xs = [1..<Suc n] \<Longrightarrow> sort_key f (drop a xs) = drop a xs"
  by (rule sort_key_id_if_sorted) (simp add: drop_map [symmetric] del: upt_Suc)

text \<open>The log of a run, and a page of it.\<close>

definition log_of :: "db \<Rightarrow> string \<Rightarrow> event_row list" where
  "log_of d rid = filter (\<lambda>e. ev_run e = rid) (events d)"

lemma page_of_log:
  assumes ok: "log_ok d" and r: "find_run d rid = Some r"
  shows "map ev_seq (log_of d rid) = [1..<Suc (run_last_seq r)] \<and>
    events_after d rid a limit = take (min limit 1000) (drop a (log_of d rid))"
proof -
  have "seqs_of d rid = [1..<Suc (run_last_seq r)]"
    using r ok by (auto simp: log_ok_def events_ok_def dest!: find_run_id simp del: upt_Suc)
  then have seqs: "map ev_seq (log_of d rid) = [1..<Suc (run_last_seq r)]"
    by (simp add: seqs_of_def log_of_def del: upt_Suc)
  moreover have "events_after d rid a limit = take (min limit 1000) (drop a (log_of d rid))"
    using filter_after_drop [OF seqs, of a] sorted_by_seq [OF seqs, of a]
    by (simp add: events_after_def log_of_def conj_commute)
  ultimately show ?thesis by blast
qed

text \<open>
  Pages are complete. On any database the operations can build, reading a run's events
  after a number returns exactly the next \<open>min limit 1000\<close> entries of its log, so a client that
  passes the last number it saw misses and repeats nothing.
\<close>

theorem events_after_page:
  assumes "find_run (foldl (store_step sha) empty_db ops) rid = Some r"
  shows "let d = foldl (store_step sha) empty_db ops;
             page = events_after d rid a limit in
         page = take (min limit 1000) (drop a (log_of d rid)) \<and>
         map ev_seq page = take (min limit 1000) (drop a [1..<Suc (run_last_seq r)])"
  using page_of_log [OF store_log.run_inv [OF empty_log_ok] assms, of a limit]
  by (simp add: Let_def take_map [symmetric] drop_map [symmetric] del: upt_Suc)

definition sample_ops :: "store_op list" where
  "sample_ops = [OpAdmit 5 ''s'' (RNumber 1) ''hi'' Queue None, OpStart 7 (run_key 1),
                 OpFinish 9 (run_key 1) Completed (Some ''yo'') None]"

theorem events_after_page_witness:
  "\<exists>r. find_run (foldl (store_step id) empty_db sample_ops) (run_key 1) = Some r \<and>
     map ev_seq (events_after (foldl (store_step id) empty_db sample_ops) (run_key 1) 1 2)
       = take (min 2 1000) (drop 1 [1..<Suc (run_last_seq r)])"
proof -
  have "find_run (foldl (store_step id) empty_db sample_ops) (run_key 1) \<noteq> None"
    by (simp add: sample_ops_def store_eval)
  then obtain r where "find_run (foldl (store_step id) empty_db sample_ops) (run_key 1) = Some r"
    by auto
  with events_after_page [OF this, of 1 2] show ?thesis unfolding Let_def by blast
qed

end
