(* ===== verification/Store_Status.thy ===== *)
theory Store_Status
  imports Store_Log
begin

text \<open>
  The life of a run in the store: what each operation does to the session and status of
  every run (\<open>st\<close>), the agreement of the turn, queue and delegation rows with the run they
  belong to, the single running run of a session, and the pending interactions of a waiting
  run. The invariant \<open>status_ok\<close> joins them; it holds of the store as the daemon drives it
  (\<open>daemon_step\<close>).
\<close>

section \<open>Sessions and statuses of runs\<close>

definition st :: "db \<Rightarrow> string \<Rightarrow> (string \<times> run_status) option" where
  "st d rid = map_option (\<lambda>r. (run_session r, run_status r)) (find_run d rid)"

lemma st_cores: "cores d' = cores d \<Longrightarrow> st d' = st d"
proof
  have "map_option core (find_key run_id rid rs) = find_key run_id rid (map core rs)" for rid rs
    by (induction rs) (auto simp: find_key_def)
  then have st: "st e rid = map_option (\<lambda>r. (run_session r, run_status r)) (find_key run_id rid (cores e))" for e rid
    unfolding st_def find_run_def cores_def by (metis (no_types, lifting) core_simps(3,5) map_option_cong option.map_comp comp_apply)
  fix rid assume "cores d' = cores d"
  then show "st d' rid = st d rid" by (simp add: st)
qed

lemma st_runs: "runs d' = runs d \<Longrightarrow> st d' = st d"
  by (auto simp: st_def find_run_def)

lemma st_frame [frame]:
  "st (logged now rid name data n d) = st d" "st (set_turn r s d) = st d" "st (set_queue r s d) = st d"
  "st (set_delegation c g d) = st d" "st (orphan_pending r d) = st d" "st (enqueue sid r i d) = st d"
  "st (touch_session sid now d) = st d" "st (insert_delegation now q l c rt d) = st d"
  by (auto intro!: st_cores simp: frame)

lemma st_other_tables [frame]:
  "st (d\<lparr>tools := ts\<rparr>) = st d" "st (d\<lparr>interactions := xs\<rparr>) = st d"
  "st (d\<lparr>queued_rows := qs\<rparr>) = st d" "st (d\<lparr>attempts := as\<rparr>) = st d"
  by (auto intro: st_runs)

lemma st_insert_event: "insert_event now rid name data d = Inr (n, d') \<Longrightarrow> st d' = st d"
  by (auto simp: insert_event_iff frame)

lemma st_mark_terminal: "mark_terminal_in now c run d = Inr d' \<Longrightarrow> st d' = st d"
  by (auto intro: st_cores dest: mark_terminal_frame)

lemma st_find: "find_run d rid = Some r \<Longrightarrow> st d rid = Some (run_session r, run_status r)"
  by (simp add: st_def)

lemma st_None_iff: "st d rid = None \<longleftrightarrow> find_run d rid = None"
  by (simp add: st_def)

lemma st_set_run:
  assumes "\<And>r. run_id (f r) = run_id r" "\<And>r. run_session (f r) = run_session r" "\<And>r. run_status (f r) = s"
    and "st d rid = Some (sid, s0)"
  shows "st (set_run rid f d) = (st d)(rid \<mapsto> (sid, s))"
proof
  fix x
  show "st (set_run rid f d) x = ((st d)(rid \<mapsto> (sid, s))) x"
    using assms by (auto simp: st_def find_run_set_run map_option_case split: option.splits
        dest: find_run_id)
qed

lemma st_insert_run:
  assumes ok: "log_ok d" and n: "n = next_rowid (map run_rowid (runs d))"
  shows "st d (run_key n) = None" "st (insert_run now sid rq i rt n d) = (st d)(run_key n \<mapsto> (sid, Queued))"
proof -
  have fresh: "\<forall>r \<in> set (runs d). run_id r \<noteq> run_key n"
  proof
    fix r assume r: "r \<in> set (runs d)"
    then have "run_id r = run_key (run_rowid r)" using ok by (auto simp: log_ok_def ids_ok_def)
    moreover have "run_rowid r < n" using r next_rowid_greater [of _ "map run_rowid (runs d)"] by (auto simp: n)
    ultimately show "run_id r \<noteq> run_key n" by (simp add: run_key_inj)
  qed
  then have none: "find_key run_id (run_key n) (runs d) = None"
    by (auto simp: find_key_None_iff)
  then show "st d (run_key n) = None" by (simp add: st_def find_run_def)
  show "st (insert_run now sid rq i rt n d) = (st d)(run_key n \<mapsto> (sid, Queued))"
  proof
    fix x
    show "st (insert_run now sid rq i rt n d) x = ((st d)(run_key n \<mapsto> (sid, Queued))) x"
      using none by (auto simp: st_def find_run_def insert_run_def find_key_append split: option.splits)
  qed
qed

section \<open>Rows that mirror their run\<close>

text \<open>A run waiting for an answer is shown as running by its turn, queue row and delegation.\<close>

definition visible :: "run_status \<Rightarrow> run_status" where
  "visible s = (if s = WaitingInteraction then Running else s)"

definition mirrors :: "db \<Rightarrow> ('r \<Rightarrow> string) \<Rightarrow> ('r \<Rightarrow> run_status) \<Rightarrow> 'r list \<Rightarrow> bool" where
  "mirrors d key stat rows \<longleftrightarrow>
     (\<forall>x \<in> set rows. map_option (visible \<circ> snd) (st d (key x)) = Some (stat x))"

lemma mirrors_cong:
  "(\<And>rid. map_option (visible \<circ> snd) (st d' rid) = map_option (visible \<circ> snd) (st d rid)) \<Longrightarrow>
   mirrors d' key stat rows = mirrors d key stat rows"
  by (simp add: mirrors_def)

lemma mirrors_st: "st d' = st d \<Longrightarrow> mirrors d' key stat rows = mirrors d key stat rows"
  by (rule mirrors_cong) simp

lemma mirrors_upd:
  assumes "mirrors d key stat rows" "st d' = (st d)(rid \<mapsto> (sid, s))" "visible s = s"
    and "\<And>x. key (f x) = key x" "\<And>x. stat (f x) = s"
  shows "mirrors d' key stat (update_where (\<lambda>x. key x = rid) f rows)"
  using assms by (auto simp: mirrors_def set_update_where)

lemma mirrors_new:
  assumes "mirrors d key stat rows" "st d rid = None" "st d' = (st d)(rid \<mapsto> (sid, s))" "visible s = s"
    and "\<forall>x \<in> set new. key x = rid \<and> stat x = s"
  shows "mirrors d' key stat (rows @ new)"
  using assms by (fastforce simp: mirrors_def)

lemma mirrors_map:
  "mirrors d key stat rows \<Longrightarrow> (\<And>x. key (f x) = key x) \<Longrightarrow> (\<And>x. stat (f x) = stat x) \<Longrightarrow>
   mirrors d key stat (update_where p f rows)"
  by (auto simp: mirrors_def set_update_where)

text \<open>A queue row names its run's session, and every run has been queued.\<close>

definition queue_ok :: "db \<Rightarrow> bool" where
  "queue_ok d \<longleftrightarrow>
     (\<forall>q \<in> set (queued_rows d). map_option fst (st d (q_run q)) = Some (q_session q)) \<and>
     (\<forall>rid. st d rid \<noteq> None \<longrightarrow> rid \<in> q_run ` set (queued_rows d))"

lemma queue_ok_cong:
  "st d' = st d \<Longrightarrow> queued_rows d' = queued_rows d \<Longrightarrow> queue_ok d' = queue_ok d"
  by (simp add: queue_ok_def)

lemma queue_ok_upd:
  assumes "queue_ok d" "st d' = (st d)(rid \<mapsto> (sid, s))" "st d rid = Some (sid, s0)"
    and "queued_rows d' = update_where p (\<lambda>q. q\<lparr>q_status := s'\<rparr>) (queued_rows d)"
  shows "queue_ok d'"
proof -
  have im: "q_run ` set (queued_rows d') = q_run ` set (queued_rows d)"
    unfolding assms(4) by (rule image_update_where) simp
  have "map_option fst (st d' (q_run q)) = Some (q_session q)" if q: "q \<in> set (queued_rows d')" for q
  proof -
    obtain y where "y \<in> set (queued_rows d)" "q_run y = q_run q" "q_session y = q_session q"
      using q by (auto simp: assms(4) set_update_where split: if_splits)
    then show ?thesis using assms(1-3) by (auto simp: queue_ok_def)
  qed
  moreover have "rid' \<in> q_run ` set (queued_rows d')" if "st d' rid' \<noteq> None" for rid'
    using that assms(1-3) unfolding im queue_ok_def by (auto split: if_splits)
  ultimately show ?thesis by (simp add: queue_ok_def)
qed

definition rows_ok :: "db \<Rightarrow> bool" where
  "rows_ok d \<longleftrightarrow> queue_ok d \<and> mirrors d q_run q_status (queued_rows d) \<and> mirrors d tn_run tn_status (turns d) \<and>
     mirrors d dg_child_run dg_status (delegations d)"

definition one_busy :: "db \<Rightarrow> bool" where
  "one_busy d \<longleftrightarrow> (\<forall>a b sid s t. st d a = Some (sid, s) \<and> st d b = Some (sid, t) \<and> busy s \<and> busy t \<longrightarrow> a = b)"

definition pending_ok :: "db \<Rightarrow> bool" where
  "pending_ok d \<longleftrightarrow> distinct (map in_id (interactions d)) \<and>
     (\<forall>x \<in> set (interactions d). in_status x = Pending \<longrightarrow>
        (\<exists>sid. st d (in_run x) = Some (sid, WaitingInteraction))) \<and>
     (\<forall>rid sid. st d rid = Some (sid, WaitingInteraction) \<longrightarrow>
        (\<exists>x \<in> set (interactions d). in_run x = rid \<and> in_status x = Pending))"

definition status_ok :: "db \<Rightarrow> bool" where
  "status_ok d \<longleftrightarrow> log_ok d \<and> rows_ok d \<and> one_busy d \<and> pending_ok d"

lemma one_busy_st: "st d' = st d \<Longrightarrow> one_busy d' = one_busy d"
  by (simp add: one_busy_def)

lemma one_busy_calm:
  assumes "one_busy d" "st d' = (st d)(rid \<mapsto> (sid, s))"
    and "busy s \<Longrightarrow> \<exists>t. st d rid = Some (sid, t) \<and> busy t"
  shows "one_busy d'"
  using assms unfolding one_busy_def assms(2) by (auto split: if_splits)

lemma pending_ok_st:
  "st d' = st d \<Longrightarrow> interactions d' = interactions d \<Longrightarrow> pending_ok d' = pending_ok d"
  by (simp add: pending_ok_def)

text \<open>An operation that leaves statuses and mirrored rows alone keeps everything.\<close>

lemma status_ok_same:
  assumes "status_ok d" "log_step d d'" "st d' = st d" "interactions d' = interactions d"
    and "queued_rows d' = queued_rows d" "turns d' = turns d"
    and "mirrors d dg_child_run dg_status (delegations d')"
  shows "status_ok d'"
proof -
  have "log_ok d'" using assms(1,2) by (simp add: status_ok_def log_step_def)
  moreover have "rows_ok d'"
    using assms(1,7) by (simp add: rows_ok_def status_ok_def assms(5,6) mirrors_st [OF assms(3)]
        queue_ok_cong [OF assms(3,5)])
  moreover have "one_busy d'" "pending_ok d'"
    using assms(1) one_busy_st [OF assms(3)] pending_ok_st [OF assms(3,4)] by (simp_all add: status_ok_def)
  ultimately show ?thesis by (simp add: status_ok_def)
qed

end
