(* ===== verification/Store_Life.thy ===== *)
theory Store_Life
  imports Store_Status
begin

text \<open>
  The operations of the store one by one: what each does to the statuses of runs, and that it
  keeps \<open>status_ok\<close>. The invariant then holds of every database the daemon can build.
\<close>

section \<open>One run changes its status\<close>

lemma one_busy_to:
  assumes one: "one_busy d" and st: "st d' = (st d)(rid \<mapsto> (sid, s))" "st d rid = Some (sid, s0)"
    and alone: "busy s \<Longrightarrow> busy s0 \<or> (\<forall>b t. st d b = Some (sid, t) \<longrightarrow> \<not> busy t)"
  shows "one_busy d'"
proof -
  have clash: "c = rid" if "st d c = Some (sid, t)" "busy t" "busy s" for c t
    using alone [OF that(3)] that(1,2) one st(2) unfolding one_busy_def by blast
  show ?thesis
    unfolding one_busy_def st(1)
  proof (intro allI impI)
    fix a b sd u v
    assume h: "((st d)(rid \<mapsto> (sid, s))) a = Some (sd, u) \<and> ((st d)(rid \<mapsto> (sid, s))) b = Some (sd, v) \<and>
        busy u \<and> busy v"
    show "a = b"
    proof (cases "a = rid")
      case True
      then show ?thesis using h clash [of b v] by (cases "b = rid") simp_all
    next
      case False
      then show ?thesis
        using h clash [of a u] one unfolding one_busy_def by (cases "b = rid") (simp, fastforce)
    qed
  qed
qed

lemma rows_to:
  assumes ok: "log_ok d" "rows_ok d" "one_busy d" and step: "log_step d d'"
    and st: "st d' = (st d)(rid \<mapsto> (sid, s))" "st d rid = Some (sid, s0)"
    and s: "s \<noteq> WaitingInteraction"
    and alone: "busy s \<Longrightarrow> busy s0 \<or> (\<forall>b t. st d b = Some (sid, t) \<longrightarrow> \<not> busy t)"
    and q: "queued_rows d' = update_where (\<lambda>q. q_run q = rid) (\<lambda>q. q\<lparr>q_status := s\<rparr>) (queued_rows d)"
    and t: "turns d' = update_where (\<lambda>t. tn_run t = rid) (\<lambda>t. t\<lparr>tn_status := s\<rparr>) (turns d)"
    and g: "delegations d' = update_where (\<lambda>g. dg_child_run g = rid) f (delegations d)"
      "\<And>g. dg_child_run (f g) = dg_child_run g" "\<And>g. dg_status (f g) = s"
  shows "log_ok d' \<and> rows_ok d' \<and> one_busy d'"
proof (intro conjI)
  have vis: "visible s = s" using s by (simp add: visible_def)
  show "log_ok d'" using ok(1) step by (simp add: log_step_def)
  show "rows_ok d'"
    using ok(2) queue_ok_upd [OF _ st q] unfolding rows_ok_def q t g(1)
    by (intro conjI mirrors_upd [OF _ st(1) vis]) (simp_all add: g)
  show "one_busy d'"
    using ok(3) st alone by (rule one_busy_to)
qed

lemma status_ok_to:
  assumes ok: "status_ok d" and step: "log_step d d'"
    and st: "st d' = (st d)(rid \<mapsto> (sid, s))" "st d rid = Some (sid, s0)"
    and s: "s \<noteq> WaitingInteraction"
    and alone: "busy s \<Longrightarrow> busy s0 \<or> (\<forall>b t. st d b = Some (sid, t) \<longrightarrow> \<not> busy t)"
    and q: "queued_rows d' = update_where (\<lambda>q. q_run q = rid) (\<lambda>q. q\<lparr>q_status := s\<rparr>) (queued_rows d)"
    and t: "turns d' = update_where (\<lambda>t. tn_run t = rid) (\<lambda>t. t\<lparr>tn_status := s\<rparr>) (turns d)"
    and g: "delegations d' = update_where (\<lambda>g. dg_child_run g = rid) f (delegations d)"
      "\<And>g. dg_child_run (f g) = dg_child_run g" "\<And>g. dg_status (f g) = s"
    and i: "\<And>x. x \<in> set (interactions d') \<Longrightarrow> in_status x = Pending \<Longrightarrow>
        in_run x \<noteq> rid \<and> x \<in> set (interactions d)"
      "\<And>x. x \<in> set (interactions d) \<Longrightarrow> in_status x = Pending \<Longrightarrow>
        in_run x = rid \<or> x \<in> set (interactions d')"
      "map in_id (interactions d') = map in_id (interactions d)"
  shows "status_ok d'"
proof -
  have "log_ok d' \<and> rows_ok d' \<and> one_busy d'"
    using ok by (intro rows_to [OF _ _ _ step st s alone q t g]) (simp_all add: status_ok_def)
  moreover have "pending_ok d'"
    using ok i s unfolding status_ok_def pending_ok_def st(1) by (auto split: if_splits) metis
  ultimately show ?thesis by (simp add: status_ok_def)
qed

text \<open>Shortcut for the rows a terminal transition writes.\<close>

lemma orphan_pending_interactions:
  "interactions (orphan_pending rid d) = update_where (\<lambda>x. in_run x = rid \<and> in_status x = Pending)
     (\<lambda>x. x\<lparr>in_status := Orphaned, in_revision := in_revision x + 1\<rparr>) (interactions d)"
  by (simp add: orphan_pending_def)

lemma st_write_terminal:
  "st d rid = Some (sid, s0) \<Longrightarrow> st (write_terminal now rid s c e d) = (st d)(rid \<mapsto> (sid, s))"
  unfolding write_terminal_def by (simp add: frame st_set_run)

lemma log_content_frame:
  "log_content now rid j d = Inr d' \<Longrightarrow>
   cores d' = cores d \<and> turns d' = turns d \<and> interactions d' = interactions d \<and>
   queued_rows d' = queued_rows d \<and> tools d' = tools d \<and> attempts d' = attempts d \<and>
   delegations d' = delegations d \<and> st d' = st d"
  by (auto simp: log_content_def result_simps insert_event_iff frame split: option.splits)

definition terminal_row :: "int \<Rightarrow> run_record \<Rightarrow> delegation_row \<Rightarrow> delegation_row" where
  "terminal_row now run g = g\<lparr>dg_status := rec_status run, dg_finished := Some now,
     dg_terminal := Some (run_terminal_json run)\<rparr>"

lemma read_run_st: "read_run_or e d rid = Inr rec \<Longrightarrow> st d rid = Some (rec_session rec, rec_status rec)"
  by (auto dest!: read_run_or_Inr simp: st_def)

lemma finish_with_effect:
  assumes "finish_with now rid s c e d = Inr (rec, d')" and "st d rid = Some (sid, s0)"
  shows "st d' = (st d)(rid \<mapsto> (sid, s)) \<and> rec_status rec = s \<and> tools d' = tools d \<and>
    queued_rows d' = update_where (\<lambda>q. q_run q = rid) (\<lambda>q. q\<lparr>q_status := s\<rparr>) (queued_rows d) \<and>
    turns d' = update_where (\<lambda>t. tn_run t = rid) (\<lambda>t. t\<lparr>tn_status := s\<rparr>) (turns d) \<and>
    interactions d' = interactions (orphan_pending rid d) \<and>
    delegations d' = update_where (\<lambda>g. dg_child_run g = rid) (terminal_row now rec) (delegations d)"
proof -
  obtain d1 n d2 where a: "log_content now rid (map_option (\<lambda>c. JObj [(''content'', JStr c)]) c) d = Inr d1"
      and d2: "\<exists>data. insert_event now rid ''terminal'' data d1 = Inr (n, d2)"
      and rec: "read_run_or Panic (orphan_pending rid (write_terminal now rid s c e d2)) rid = Inr rec"
      and m: "mark_terminal_in now rid rec (orphan_pending rid (write_terminal now rid s c e d2)) = Inr d'"
    using assms(1) unfolding finish_with_def Let_def by (auto simp: result_simps)
  have st2: "st d2 = st d" using log_content_frame [OF a] d2 by (auto simp: st_insert_event)
  then have st3: "st (orphan_pending rid (write_terminal now rid s c e d2)) = (st d)(rid \<mapsto> (sid, s))"
    using assms(2) by (simp add: frame st_write_terminal)
  moreover have "st d' = st (orphan_pending rid (write_terminal now rid s c e d2))"
    using m by (rule st_mark_terminal)
  moreover have "rec_status rec = s" using read_run_st [OF rec] st3 by simp
  ultimately show ?thesis
    using log_content_frame [OF a] d2 mark_terminal_frame [OF m]
    by (auto simp: insert_event_iff frame orphan_pending_interactions terminal_row_def [abs_def])
qed

lemma terminal_row_simps [simp]:
  "dg_child_run (terminal_row now run g) = dg_child_run g" "dg_status (terminal_row now run g) = rec_status run"
  by (simp_all add: terminal_row_def)

lemma orphaned_pending:
  "x \<in> set (interactions (orphan_pending rid d)) \<Longrightarrow> in_status x = Pending \<Longrightarrow>
     in_run x \<noteq> rid \<and> x \<in> set (interactions d)"
  "x \<in> set (interactions d) \<Longrightarrow> in_status x = Pending \<Longrightarrow>
     in_run x = rid \<or> x \<in> set (interactions (orphan_pending rid d))"
  by (auto simp: orphan_pending_interactions set_update_where image_iff split: if_splits)

lemma effective_terminal: "terminal s \<Longrightarrow> terminal (effective_status d rid s)"
  by (simp add: effective_status_def)

lemma terminal_not_waiting: "terminal s \<Longrightarrow> s \<noteq> WaitingInteraction \<and> \<not> busy s"
  by (cases s) simp_all

text \<open>A committed \<open>finish\<close> either found the same terminal state or moved the run to one.\<close>

lemma finish_Inr:
  assumes "finish now rid s c e d = Inr (rec, d')"
  obtains (same) "d' = d" "terminal (rec_status rec)" "rec_status rec = s" "rec_content rec = c"
      "rec_error_code rec = map_option fst e" "rec_error_message rec = map_option snd e"
      "read_run_or (ProtocolE RunMissing) d rid = Inr rec"
  | (moved) sid s0 where "st d rid = Some (sid, s0)" "\<not> terminal s0" "terminal s"
      "finish_with now rid (effective_status d rid s)
         (if effective_status d rid s = Completed then c else None)
         (if effective_status d rid s = UnknownAfterRestart then Some (- 32002, msg_unknown) else e) d
       = Inr (rec, d')"
proof -
  obtain cur where cur: "read_run_or (ProtocolE RunMissing) d rid = Inr cur" "terminal s"
    using assms by (auto simp: finish_def result_simps split: if_split_asm)
  show thesis
  proof (cases "terminal (rec_status cur)")
    case True
    then show ?thesis using assms cur that(1) by (auto simp: finish_def split: if_split_asm)
  next
    case False
    then show ?thesis
      using assms cur that(2) [OF read_run_st [OF cur(1)] False cur(2)]
      by (simp add: finish_def Let_def)
  qed
qed

lemma finish_status_ok:
  assumes "status_ok d" "finish now rid s c e d = Inr (rec, d')"
  shows "status_ok d'"
  using assms(2)
proof (cases rule: finish_Inr)
  case same
  then show ?thesis using assms(1) by simp
next
  case (moved sid s0)
  note eff = finish_with_effect [OF moved(4,1)]
  have fin: "terminal (effective_status d rid s)" using moved(3) by (rule effective_terminal)
  show ?thesis
    using assms(1) finish_log_step [OF assms(2)]
  proof (rule status_ok_to [where rid = rid and sid = sid and s = "effective_status d rid s" and s0 = s0
        and f = "terminal_row now rec"])
    show "effective_status d rid s \<noteq> WaitingInteraction" using fin terminal_not_waiting by blast
    show "busy s0 \<or> (\<forall>b t. st d b = Some (sid, t) \<longrightarrow> \<not> busy t)" if "busy (effective_status d rid s)"
      using that fin terminal_not_waiting by blast
  qed (use eff moved(1) orphaned_pending in \<open>auto simp: orphan_pending_interactions map_update_where\<close>)
qed

section \<open>Repair, start and removal\<close>

lemma reconcile_with_effect:
  assumes "reconcile_with sha now rid n s c ev d = Inr (rec, d')" and "st d rid = Some (sid, s0)"
  shows "st d' = (st d)(rid \<mapsto> (sid, s)) \<and> rec_status rec = s \<and> tools d' = tools d \<and>
    queued_rows d' = update_where (\<lambda>q. q_run q = rid) (\<lambda>q. q\<lparr>q_status := s\<rparr>) (queued_rows d) \<and>
    turns d' = update_where (\<lambda>t. tn_run t = rid) (\<lambda>t. t\<lparr>tn_status := s\<rparr>) (turns d) \<and>
    interactions d' = interactions d \<and>
    delegations d' = update_where (\<lambda>g. dg_child_run g = rid) (terminal_row now rec) (delegations d)"
proof -
  let ?c = "if s = Completed then c else None"
  obtain j d1 data m d2 where a: "log_content now rid j d = Inr d1"
      and d2: "insert_event now rid ''manual_resolution'' data d1 = Inr (m, d2)"
      and rec: "read_run_or Panic (write_terminal now rid s ?c (manual_error s) d2) rid = Inr rec"
      and t: "mark_terminal_in now rid rec (write_terminal now rid s ?c (manual_error s) d2) = Inr d'"
    using assms(1) unfolding reconcile_with_def Let_def by (auto simp: result_simps simp del: if_split)
  have "st d2 = st d" using log_content_frame [OF a] st_insert_event [OF d2] by simp
  then have st3: "st (write_terminal now rid s ?c (manual_error s) d2) = (st d)(rid \<mapsto> (sid, s))"
    using assms(2) by (simp add: st_write_terminal)
  moreover have "st d' = st (write_terminal now rid s ?c (manual_error s) d2)"
    using t by (rule st_mark_terminal)
  moreover have "rec_status rec = s" using read_run_st [OF rec] st3 by simp
  ultimately show ?thesis
    using log_content_frame [OF a] d2 mark_terminal_frame [OF t]
    by (auto simp: insert_event_iff frame terminal_row_def [abs_def])
qed

lemma reconcile_Inr:
  assumes "reconcile_unknown sha now rid sid n s c ev d = Inr (rec, d')"
  shows "evidence_ok s c ev \<and> st d rid = Some (sid, UnknownAfterRestart) \<and>
    (\<exists>r. find_run d rid = Some r \<and> run_last_seq r = n) \<and>
    (\<forall>g. find_delegation d rid = Some g \<longrightarrow> dg_result_state g = Unconsumed) \<and>
    reconcile_with sha now rid n s c ev d = Inr (rec, d')"
  using assms
  by (auto simp: reconcile_unknown_def result_simps split: if_split_asm option.splits
      dest!: read_run_or_Inr simp: st_def)

lemma evidence_terminal: "evidence_ok s c ev \<Longrightarrow> terminal s"
  by (auto simp: evidence_ok_def)

lemma no_pending: "status_ok d \<Longrightarrow> st d rid = Some (sid, s) \<Longrightarrow> s \<noteq> WaitingInteraction \<Longrightarrow>
    x \<in> set (interactions d) \<Longrightarrow> in_status x = Pending \<Longrightarrow> in_run x \<noteq> rid"
  by (auto simp: status_ok_def pending_ok_def)

lemma reconcile_status_ok:
  assumes "status_ok d" "reconcile_unknown sha now rid sid n s c ev d = Inr (rec, d')"
  shows "status_ok d'"
proof -
  have h: "evidence_ok s c ev" "st d rid = Some (sid, UnknownAfterRestart)"
      "reconcile_with sha now rid n s c ev d = Inr (rec, d')"
    using reconcile_Inr [OF assms(2)] by simp_all
  note eff = reconcile_with_effect [OF h(3,2)]
  have fin: "s \<noteq> WaitingInteraction \<and> \<not> busy s"
    using h(1) evidence_terminal terminal_not_waiting by blast
  show ?thesis
    by (rule status_ok_to [OF assms(1) reconcile_log_step [OF assms(2)], where rid = rid and sid = sid
          and s = s and s0 = UnknownAfterRestart and f = "terminal_row now rec"])
      (use eff fin h(2) no_pending [OF assms(1) h(2)] in auto)
qed

lemma count_busy_0:
  assumes "count_where (\<lambda>x. run_session x = sid \<and> busy (run_status x)) (runs d) = 0"
  shows "st d b = Some (sid, t) \<Longrightarrow> \<not> busy t"
  using assms by (auto simp: count_where_0_iff st_def dest: find_run_id)

lemma try_start_True:
  assumes "try_start_queued now rid d = Inr (True, d')"
  obtains r where "find_run d rid = Some r" "run_status r = Queued"
    "map_option q_run (head_of_queue d (run_session r)) = Some rid"
    "count_where (\<lambda>x. run_session x = run_session r \<and> busy (run_status x)) (runs d) = 0"
    "start_run now rid r d = Inr d'"
  using assms by (auto simp: try_start_queued_def result_simps split: option.splits if_split_asm)

lemma start_run_effect:
  assumes "start_run now rid r d = Inr d'" and "st d rid = Some (sid, s0)"
  shows "st d' = (st d)(rid \<mapsto> (sid, Running)) \<and> tools d' = tools d \<and>
    queued_rows d' = update_where (\<lambda>q. q_run q = rid) (\<lambda>q. q\<lparr>q_status := Running\<rparr>) (queued_rows d) \<and>
    turns d' = update_where (\<lambda>t. tn_run t = rid) (\<lambda>t. t\<lparr>tn_status := Running\<rparr>) (turns d) \<and>
    interactions d' = interactions d \<and>
    delegations d' = update_where (\<lambda>g. dg_child_run g = rid)
      (\<lambda>g. g\<lparr>dg_status := Running, dg_started := Some now\<rparr>) (delegations d)"
  using assms
  by (auto simp: start_run_def result_simps insert_event_iff frame st_set_run [OF _ _ _ assms(2)])

lemma start_status_ok:
  assumes "status_ok d" "try_start_queued now rid d = Inr (x, d')"
  shows "status_ok d'"
proof (cases x)
  case True
  then have "try_start_queued now rid d = Inr (True, d')" using assms(2) by simp
  then show ?thesis
  proof (rule try_start_True)
    fix r assume r: "find_run d rid = Some r" "run_status r = Queued"
      "count_where (\<lambda>x. run_session x = run_session r \<and> busy (run_status x)) (runs d) = 0"
      "start_run now rid r d = Inr d'"
    note eff = start_run_effect [OF r(4) st_find [OF r(1)]]
    show ?thesis
      by (rule status_ok_to [OF assms(1) start_log_step [OF assms(2)], where rid = rid
            and sid = "run_session r" and s = Running and s0 = Queued
            and f = "\<lambda>g. g\<lparr>dg_status := Running, dg_started := Some now\<rparr>"])
        (use eff st_find [OF r(1)] r(2) count_busy_0 [OF r(3)] no_pending [OF assms(1) st_find [OF r(1)]] in auto)
  qed
next
  case False
  then have "d' = d"
    using assms(2) by (auto simp: try_start_queued_def result_simps split: option.splits if_split_asm)
  then show ?thesis using assms(1) by simp
qed

end
