(* ===== verification/Store_Daemon.thy ===== *)
theory Store_Daemon
  imports Store_Life
begin

text \<open>
  The remaining operations (removal, recovery, admission, delegation, approvals) and the
  store as the daemon drives it, as a step machine with the invariant \<open>status_ok\<close>.
\<close>

section \<open>Removal and recovery\<close>

lemma update_where_eq:
  "(\<And>x. x \<in> set rows \<Longrightarrow> p x = q x) \<Longrightarrow> update_where p f rows = update_where q f rows"
  by (simp add: update_where_def)

lemma remove_status_ok:
  assumes ok: "status_ok d" and "remove_queued now rid d = Inr (x, d')"
  shows "status_ok d'"
proof (cases "\<exists>r. find_run d rid = Some r \<and> run_status r = Queued")
  case False
  then have "d' = d" using assms(2) by (auto simp: remove_queued_def split: option.splits)
  then show ?thesis using ok by simp
next
  case True
  then obtain r where r: "find_run d rid = Some r" "run_status r = Queued" by blast
  let ?f = "\<lambda>r. r\<lparr>run_status := RCancelled, run_updated := now\<rparr>"
  let ?d1 = "set_turn rid RCancelled (set_run rid ?f d)"
  let ?d2 = "?d1\<lparr>queued_rows := update_where (\<lambda>q. q_run q = rid \<and> q_status q = Queued)
      (\<lambda>q. q\<lparr>q_status := RCancelled\<rparr>) (queued_rows ?d1)\<rparr>"
  obtain n d3 rec where d3: "insert_event now rid ''terminal'' (JObj [(''status'', jstatus RCancelled)]) ?d2 = Inr (n, d3)"
      and rec: "read_run_or Panic d3 rid = Inr rec" and m: "mark_terminal_in now rid rec d3 = Inr d'"
    using assms(2) r by (auto simp: remove_queued_def Let_def result_simps)
  have "st ?d2 = (st d)(rid \<mapsto> (run_session r, RCancelled))"
    by (simp add: frame st_set_run [OF _ _ _ st_find [OF r(1)]])
  then have st': "st d3 = (st d)(rid \<mapsto> (run_session r, RCancelled))"
    using st_insert_event [OF d3] by simp
  have s: "rec_status rec = RCancelled" using read_run_st [OF rec] st' by simp
  have "queued_rows d3 = update_where (\<lambda>q. q_run q = rid \<and> q_status q = Queued)
      (\<lambda>q. q\<lparr>q_status := RCancelled\<rparr>) (queued_rows d)"
    using d3 by (auto simp: insert_event_iff frame)
  also have "\<dots> = update_where (\<lambda>q. q_run q = rid) (\<lambda>q. q\<lparr>q_status := RCancelled\<rparr>) (queued_rows d)"
  proof (rule update_where_eq)
    fix q assume "q \<in> set (queued_rows d)"
    then have "map_option (visible \<circ> snd) (st d (q_run q)) = Some (q_status q)"
      using ok by (simp add: status_ok_def rows_ok_def mirrors_def)
    then show "(q_run q = rid \<and> q_status q = Queued) = (q_run q = rid)"
      using st_find [OF r(1)] r(2) by (auto simp: visible_def)
  qed
  finally have q: "queued_rows d3 = update_where (\<lambda>q. q_run q = rid) (\<lambda>q. q\<lparr>q_status := RCancelled\<rparr>) (queued_rows d)" .
  show ?thesis
  proof (rule status_ok_to [OF ok remove_log_step [OF assms(2)], where rid = rid and s = RCancelled
        and s0 = Queued and sid = "run_session r" and f = "terminal_row now rec"])
    show "st d' = (st d)(rid \<mapsto> (run_session r, RCancelled))" using st_mark_terminal [OF m] st' by simp
    show "queued_rows d' = update_where (\<lambda>q. q_run q = rid) (\<lambda>q. q\<lparr>q_status := RCancelled\<rparr>) (queued_rows d)"
      using mark_terminal_frame [OF m] q by simp
    show "in_run x \<noteq> rid \<and> x \<in> set (interactions d)"
      if "x \<in> set (interactions d')" "in_status x = Pending" for x
      using that mark_terminal_frame [OF m] d3 no_pending [OF ok st_find [OF r(1)], of x] r(2)
      by (auto simp: insert_event_iff frame)
  qed (use mark_terminal_frame [OF m] d3 s st_find [OF r(1)] r(2)
      in \<open>auto simp: insert_event_iff frame terminal_row_def [abs_def]\<close>)
qed

definition unknown_if :: "bool \<Rightarrow> string \<times> run_status \<Rightarrow> string \<times> run_status" where
  "unknown_if c p = (if c then (fst p, UnknownAfterRestart) else p)"

lemma recover_one_effect:
  assumes "log_ok d" "rows_ok d" "one_busy d" and "recover_one now rid d = Inr d'"
  shows "log_ok d' \<and> rows_ok d' \<and> one_busy d' \<and> interactions d' = interactions d \<and> tools d' = tools d \<and>
    (\<exists>sid s0. st d rid = Some (sid, s0) \<and> st d' = (st d)(rid \<mapsto> (sid, UnknownAfterRestart)))"
proof -
  let ?f = "\<lambda>r. r\<lparr>run_status := UnknownAfterRestart, run_updated := now\<rparr>"
  obtain n d1 rec where d1: "insert_event now rid ''terminal'' (JObj [(''status'', jstatus UnknownAfterRestart)]) d = Inr (n, d1)"
      and rec: "read_run_or Panic (set_queue rid UnknownAfterRestart (set_turn rid UnknownAfterRestart
            (set_run rid ?f d1))) rid = Inr rec"
      and m: "mark_terminal_in now rid rec (set_queue rid UnknownAfterRestart
            (set_turn rid UnknownAfterRestart (set_run rid ?f d1))) = Inr d'"
    using assms(4) by (auto simp: recover_one_def Let_def result_simps)
  obtain r where r: "find_run d rid = Some r" using d1 by (auto simp: insert_event_iff)
  have st1: "st d1 = st d" using d1 by (rule st_insert_event)
  have st1r: "st d1 rid = Some (run_session r, run_status r)" using st1 st_find [OF r] by simp
  have st2: "st (set_queue rid UnknownAfterRestart (set_turn rid UnknownAfterRestart (set_run rid ?f d1)))
      = (st d)(rid \<mapsto> (run_session r, UnknownAfterRestart))"
    using st1 by (simp add: frame st_set_run [OF _ _ _ st1r])
  have st': "st d' = (st d)(rid \<mapsto> (run_session r, UnknownAfterRestart))"
    using st_mark_terminal [OF m] st2 by simp
  have s: "rec_status rec = UnknownAfterRestart" using read_run_st [OF rec] st2 by simp
  have "log_ok d' \<and> rows_ok d' \<and> one_busy d'"
    by (rule rows_to [OF assms(1-3) recover_one_log_step [OF assms(4)] st' st_find [OF r],
          where f = "terminal_row now rec"])
      (use mark_terminal_frame [OF m] d1 s in \<open>auto simp: insert_event_iff frame terminal_row_def [abs_def]\<close>)
  then show ?thesis
    using mark_terminal_frame [OF m] d1 st' st_find [OF r] by (auto simp: insert_event_iff frame)
qed

lemma recover_all_effect:
  "log_ok d \<Longrightarrow> rows_ok d \<Longrightarrow> one_busy d \<Longrightarrow> recover_all now rids d = Inr d' \<Longrightarrow>
   log_ok d' \<and> rows_ok d' \<and> one_busy d' \<and> interactions d' = interactions d \<and> tools d' = tools d \<and>
   st d' = (\<lambda>rid. map_option (unknown_if (rid \<in> set rids)) (st d rid))"
proof (induction now rids d rule: recover_all.induct)
  case (1 now d)
  then show ?case by (auto simp: unknown_if_def option.map_ident)
next
  case (2 now rid rids d)
  then obtain d1 where d1: "recover_one now rid d = Inr d1" "recover_all now rids d1 = Inr d'"
    by (auto simp: result_simps)
  have one: "log_ok d1 \<and> rows_ok d1 \<and> one_busy d1 \<and> interactions d1 = interactions d \<and> tools d1 = tools d"
    and "\<exists>sid s0. st d rid = Some (sid, s0) \<and> st d1 = (st d)(rid \<mapsto> (sid, UnknownAfterRestart))"
    using recover_one_effect [OF "2.prems"(1-3) d1(1)] by simp_all
  then obtain sid s0 where st1: "st d rid = Some (sid, s0)" "st d1 = (st d)(rid \<mapsto> (sid, UnknownAfterRestart))"
    by blast
  have ih: "log_ok d' \<and> rows_ok d' \<and> one_busy d' \<and> interactions d' = interactions d1 \<and> tools d' = tools d1 \<and>
      st d' = (\<lambda>rid. map_option (unknown_if (rid \<in> set rids)) (st d1 rid))"
    using "2.IH" d1 one by blast
  have "(\<lambda>x. map_option (unknown_if (x \<in> set rids)) (st d1 x)) =
      (\<lambda>x. map_option (unknown_if (x \<in> set (rid # rids))) (st d x))"
    by (rule ext) (auto simp: st1 unknown_if_def)
  then show ?case using ih one by simp
qed

lemma busy_ids:
  assumes "log_ok d"
  shows "rid \<in> run_id ` {r \<in> set (runs d). busy (run_status r)} \<longleftrightarrow> (\<exists>sid s. st d rid = Some (sid, s) \<and> busy s)"
  using find_run_Some_iff [OF assms] by (fastforce simp: st_def)

lemma recover_Inr:
  assumes "recover now d = Inr (n, d')" and "log_ok d" "rows_ok d" "one_busy d"
  shows "log_ok d' \<and> rows_ok d' \<and> one_busy d' \<and> tools d' = tools d \<and>
    n = count_where (\<lambda>r. busy (run_status r)) (runs d) \<and>
    st d' = (\<lambda>rid. map_option (\<lambda>p. unknown_if (busy (snd p)) p) (st d rid)) \<and>
    interactions d' = update_where
      (\<lambda>x. in_status x = Pending \<and> (\<exists>sid. st d' (in_run x) = Some (sid, UnknownAfterRestart)))
      (\<lambda>x. x\<lparr>in_status := Orphaned\<rparr>) (interactions d)"
proof -
  let ?ids = "map run_id (filter (\<lambda>r. busy (run_status r)) (runs d))"
  obtain d1 where d1: "recover_all now ?ids d = Inr d1" "n = length ?ids"
      and d': "d' = d1\<lparr>interactions := update_where
              (\<lambda>x. in_status x = Pending \<and>
                 list_ex (\<lambda>r. run_id r = in_run x \<and> run_status r = UnknownAfterRestart) (runs d1))
              (\<lambda>x. x\<lparr>in_status := Orphaned\<rparr>) (interactions d1)\<rparr>"
    using assms(1) by (auto simp: recover_def Let_def result_simps)
  note eff = recover_all_effect [OF assms(2-4) d1(1)]
  have ids: "(rid \<in> set ?ids) = (\<exists>sid s. st d rid = Some (sid, s) \<and> busy s)" for rid
    using busy_ids [OF assms(2), of rid] by auto
  have "map_option (unknown_if (rid \<in> set ?ids)) (st d rid) =
      map_option (\<lambda>p. unknown_if (busy (snd p)) p) (st d rid)" for rid
    unfolding ids by (cases "st d rid") auto
  then have st1: "st d1 = (\<lambda>rid. map_option (\<lambda>p. unknown_if (busy (snd p)) p) (st d rid))"
    using eff by simp
  have same: "log_ok d' = log_ok d1" "st d' = st d1"
    using skel_log_ok [of d' d1] by (simp_all add: d' frame)
  have rows: "queued_rows d' = queued_rows d1" "turns d' = turns d1" "delegations d' = delegations d1"
      "tools d' = tools d1"
    by (simp_all add: d')
  have "list_ex (\<lambda>r. run_id r = x \<and> run_status r = UnknownAfterRestart) (runs d1) =
      (\<exists>sid. st d1 x = Some (sid, UnknownAfterRestart))" for x
    by (auto simp: list_ex_iff st_def find_run_Some_iff [OF conjunct1 [OF eff]])
  then have "interactions d' = update_where
      (\<lambda>x. in_status x = Pending \<and> (\<exists>sid. st d' (in_run x) = Some (sid, UnknownAfterRestart)))
      (\<lambda>x. x\<lparr>in_status := Orphaned\<rparr>) (interactions d)"
    unfolding same using eff by (simp add: d')
  moreover have "rows_ok d'" "one_busy d'"
    using eff by (simp_all add: rows_ok_def mirrors_st [OF same(2)] one_busy_st [OF same(2)] rows
        queue_ok_cong [OF same(2) rows(1)])
  moreover have "log_ok d'" "tools d' = tools d" using eff by (simp_all add: same(1) rows)
  moreover have "st d' = (\<lambda>rid. map_option (\<lambda>p. unknown_if (busy (snd p)) p) (st d rid))"
    unfolding same(2) by (rule st1)
  moreover have "n = count_where (\<lambda>r. busy (run_status r)) (runs d)"
    using d1(2) by (simp add: count_where_def)
  ultimately show ?thesis by blast
qed

lemma recover_status_ok:
  assumes ok: "status_ok d" and "recover now d = Inr (n, d')"
  shows "status_ok d'"
proof -
  have eff: "log_ok d' \<and> rows_ok d' \<and> one_busy d'"
      "st d' = (\<lambda>rid. map_option (\<lambda>p. unknown_if (busy (snd p)) p) (st d rid))"
      "interactions d' = update_where
        (\<lambda>x. in_status x = Pending \<and> (\<exists>sid. st d' (in_run x) = Some (sid, UnknownAfterRestart)))
        (\<lambda>x. x\<lparr>in_status := Orphaned\<rparr>) (interactions d)"
    using recover_Inr [OF assms(2)] ok by (simp_all add: status_ok_def)
  have none: "st d' rid \<noteq> Some (sid, WaitingInteraction)" for rid sid
    by (auto simp: eff(2) unknown_if_def split: if_splits)
  have gone: "in_status x \<noteq> Pending" if x: "x \<in> set (interactions d')" for x
  proof
    assume p: "in_status x = Pending"
    then have "x \<in> set (interactions d)" "\<not> (\<exists>sid. st d' (in_run x) = Some (sid, UnknownAfterRestart))"
      using x by (auto simp: eff(3) set_update_where split: if_splits)
    moreover from this(1) p obtain sid where "st d (in_run x) = Some (sid, WaitingInteraction)"
      using ok by (auto simp: status_ok_def pending_ok_def)
    ultimately show False by (simp add: eff(2) unknown_if_def)
  qed
  moreover have "map in_id (interactions d') = map in_id (interactions d)"
    unfolding eff(3) by (rule map_update_where) simp
  ultimately have "pending_ok d'" using ok none by (auto simp: pending_ok_def status_ok_def)
  then show ?thesis using eff(1) by (simp add: status_ok_def)
qed

section \<open>A new run\<close>

lemma new_run_effect:
  assumes "new_run now sid rq i rt d = Inr (rid, d')" and ok: "log_ok d"
  shows "st d rid = None \<and> st d' = (st d)(rid \<mapsto> (sid, Queued)) \<and> interactions d' = interactions d \<and>
    tools d' = tools d \<and> delegations d' = delegations d \<and> attempts d' = attempts d \<and>
    (\<exists>n. rid = run_key n) \<and>
    (\<exists>t. turns d' = turns d @ [t] \<and> tn_run t = rid \<and> tn_status t = Queued) \<and>
    (\<exists>q. queued_rows d' = queued_rows d @ [q] \<and> q_run q = rid \<and> q_session q = sid \<and> q_status q = Queued)"
proof -
  define n where "n = next_rowid (map run_rowid (runs d))"
  obtain m d1 data where ins: "insert_event now (run_key n) ''user_message'' data
        (insert_run now sid rq i rt n d) = Inr (m, d1)"
      and d': "d' = enqueue sid (run_key n) i d1" and rid: "rid = run_key n"
    using assms(1) by (auto simp: new_run_def Let_def result_simps n_def [symmetric] split: if_splits)
  note new = st_insert_run [OF ok n_def]
  have "st d' = (st d)(rid \<mapsto> (sid, Queued))"
    using st_insert_event [OF ins] new(2) by (simp add: d' rid frame)
  then show ?thesis
    using new(1) ins by (auto simp: d' rid insert_event_iff frame enqueue_def insert_run_def)
qed

lemma status_ok_new:
  assumes ok: "status_ok d" and step: "log_step d d'"
    and st: "st d rid = None" "st d' = (st d)(rid \<mapsto> (sid, Queued))"
    and i: "interactions d' = interactions d"
    and t: "turns d' = turns d @ [t]" "tn_run t = rid" "tn_status t = Queued"
    and q: "queued_rows d' = queued_rows d @ [q]" "q_run q = rid" "q_session q = sid" "q_status q = Queued"
    and g: "delegations d' = delegations d @ gs" "\<forall>g \<in> set gs. dg_child_run g = rid \<and> dg_status g = Queued"
  shows "status_ok d'"
proof -
  have vis: "visible Queued = Queued" by (simp add: visible_def)
  have parts: "log_ok d" "queue_ok d" "one_busy d" "pending_ok d"
      "mirrors d q_run q_status (queued_rows d)" "mirrors d tn_run tn_status (turns d)"
      "mirrors d dg_child_run dg_status (delegations d)"
    using ok by (simp_all add: status_ok_def rows_ok_def)
  have "log_ok d'" using parts(1) step by (simp add: log_step_def)
  moreover have "mirrors d' q_run q_status (queued_rows d')" "mirrors d' tn_run tn_status (turns d')"
      "mirrors d' dg_child_run dg_status (delegations d')"
    unfolding q(1) t(1) g(1)
    using mirrors_new [OF parts(5) st vis] mirrors_new [OF parts(6) st vis] mirrors_new [OF parts(7) st vis] q t g
    by simp_all
  moreover have "queue_ok d'"
    using parts(2) st q by (auto simp: queue_ok_def split: if_splits)
  moreover have "one_busy d'" using parts(3) st(2) by (rule one_busy_calm) simp
  moreover have "pending_ok d'"
    using parts(4) st i by (fastforce simp: pending_ok_def split: if_splits)
  ultimately show ?thesis by (simp add: status_ok_def rows_ok_def)
qed

lemma status_ok_touch: "status_ok (touch_session sid now d) = status_ok d"
proof -
  let ?d = "touch_session sid now d"
  have "log_ok ?d = log_ok d" by (rule skel_log_ok) (simp add: frame)
  moreover have st: "st ?d = st d" by (simp add: frame)
  moreover have "rows_ok ?d = rows_ok d"
    by (simp add: rows_ok_def mirrors_st [OF st] frame queue_ok_cong [OF st])
  moreover have "one_busy ?d = one_busy d" "pending_ok ?d = pending_ok d"
    by (simp_all add: one_busy_st [OF st] pending_ok_st [OF st] frame)
  ultimately show ?thesis by (simp add: status_ok_def)
qed

lemma admit_Inr:
  assumes "admit_with_route now sid rq i m rt d = Inr (x, d')"
  obtains (old) r where "find_request_row d sid rq = Some r" "run_input r = i" "d' = d"
      "\<exists>rec. read_run_or Panic d (run_id r) = Inr rec \<and> x = Existing rec"
  | (new) rid where "find_request_row d sid rq = None"
      "m = RejectIfBusy \<longrightarrow> count_where (\<lambda>r. run_session r = sid \<and> \<not> terminal (run_status r)) (runs d) = 0"
      "new_run now sid rq i rt (touch_session sid now d) = Inr (rid, d')"
      "\<exists>rec. read_run_or Panic d' rid = Inr rec \<and> x = New rec"
proof (cases "find_request_row d sid rq")
  case None
  then show ?thesis
    using assms that(2) by (fastforce simp: admit_with_route_def result_simps split: if_split_asm)
next
  case (Some r)
  then show ?thesis
    using assms that(1) by (auto simp: admit_with_route_def result_simps split: if_split_asm)
qed

lemma admit_status_ok:
  assumes "status_ok d" "admit_with_route now sid rq i m rt d = Inr (x, d')"
  shows "status_ok d'"
  using assms(2)
proof (cases rule: admit_Inr)
  case old
  then show ?thesis using assms(1) by simp
next
  case (new rid)
  have ok: "status_ok (touch_session sid now d)" using assms(1) by (simp add: status_ok_touch)
  then have "log_ok (touch_session sid now d)" by (simp add: status_ok_def)
  note eff = new_run_effect [OF new(3) this]
  then obtain t q where t: "turns d' = turns (touch_session sid now d) @ [t]" "tn_run t = rid" "tn_status t = Queued"
      and q: "queued_rows d' = queued_rows (touch_session sid now d) @ [q]" "q_run q = rid" "q_session q = sid"
        "q_status q = Queued" by blast
  show ?thesis
    by (rule status_ok_new [OF ok new_run_log_step [OF new(3)], where gs = "[]" and rid = rid and sid = sid
        and t = t and q = q]) (use eff t q in auto)
qed

section \<open>A delegated run\<close>

lemma delegate_Inr:
  assumes "admit_delegation now q d = Inr (rec, d')"
  obtains (old) g where "find_spawn d (rq_parent_run q) (rq_spawn_key q) = Some g"
      "existing_spawn q (dg_child_run g) d = Inr rec" "d' = d"
  | (new) parent where "request_valid q" "read_run_or (ProtocolE ParentMissing) d (rq_parent_run q) = Inr parent"
      "rec_session parent = rq_parent_session q" "busy (rec_status parent)" "now < rq_deadline q"
      "find_spawn d (rq_parent_run q) (rq_spawn_key q) = None"
      "snd (snd (lineage d parent)) \<le> max_depth"
      "root_total d (fst (snd (lineage d parent))) < max_root_spawns"
      "root_active d (fst (snd (lineage d parent))) < max_root_active"
      "spawn_child now q (lineage d parent) d = Inr (rec, d')"
proof -
  obtain parent where p: "request_valid q" "read_run_or (ProtocolE ParentMissing) d (rq_parent_run q) = Inr parent"
      "rec_session parent = rq_parent_session q"
  proof (cases "request_valid q")
    case True
    then obtain parent where r: "read_run_or (ProtocolE ParentMissing) d (rq_parent_run q) = Inr parent"
      using assms by (cases "read_run_or (ProtocolE ParentMissing) d (rq_parent_run q)")
        (simp_all add: admit_delegation_def)
    have "rec_session parent = rq_parent_session q"
      using assms True r by (cases "rec_session parent = rq_parent_session q") (simp_all add: admit_delegation_def)
    with True r show ?thesis by (rule that)
  next
    case False
    then show ?thesis using assms by (simp add: admit_delegation_def)
  qed
  show thesis
  proof (cases "find_spawn d (rq_parent_run q) (rq_spawn_key q)")
    case (Some g)
    then have "bindE (existing_spawn q (dg_child_run g) d) (\<lambda>rec. Inr (rec, d)) = Inr (rec, d')"
      using assms p by (simp add: admit_delegation_def)
    then have "existing_spawn q (dg_child_run g) d = Inr rec" "d' = d" by (auto simp: bindE_Inr_iff)
    then show ?thesis by (rule that(1) [OF Some])
  next
    case None
    let ?l = "lineage d parent"
    have "(if \<not> busy (rec_status parent) then Inl (ProtocolE ParentState)
       else if rq_deadline q \<le> now then Inl (ProtocolE DeadlinePast)
       else if snd (snd ?l) > max_depth then Inl (ProtocolE TooDeep)
       else if root_total d (fst (snd ?l)) \<ge> max_root_spawns \<or> root_active d (fst (snd ?l)) \<ge> max_root_active
       then Inl (ProtocolE TooMany) else spawn_child now q ?l d) = Inr (rec, d')"
      using assms unfolding admit_delegation_def Let_def by (simp add: p None cong: if_cong)
    then have "busy (rec_status parent)" "now < rq_deadline q" "snd (snd ?l) \<le> max_depth"
        "root_total d (fst (snd ?l)) < max_root_spawns" "root_active d (fst (snd ?l)) < max_root_active"
        "spawn_child now q ?l d = Inr (rec, d')"
      by (auto simp del: Inl_inject split: if_split_asm)
    then show ?thesis using that(2) [OF p(1) p(2) p(3)] None by blast
  qed
qed

definition delegation_of ::
  "int \<Rightarrow> delegation_request \<Rightarrow> string \<times> string \<times> int \<Rightarrow> string \<Rightarrow> db \<Rightarrow> delegation_row" where
  "delegation_of now q l child d =
     last (delegations (insert_delegation now q l child (route_snapshot_of d (rq_parent_run q)) d))"

lemma delegation_of_simps [simp]:
  "dg_child_run (delegation_of now q l c d) = c" "dg_status (delegation_of now q l c d) = Queued"
  "dg_depth (delegation_of now q l c d) = snd (snd l)" "dg_root_run (delegation_of now q l c d) = fst (snd l)"
  "dg_parent_run (delegation_of now q l c d) = rq_parent_run q"
  "dg_spawn_key (delegation_of now q l c d) = rq_spawn_key q"
  "dg_child_session (delegation_of now q l c d) = rq_child_session q"
  "dg_max_tool_calls (delegation_of now q l c d) = rq_max_tool_calls q"
  "dg_result_state (delegation_of now q l c d) = Unconsumed" "dg_owner (delegation_of now q l c d) = None"
  "dg_expires (delegation_of now q l c d) = None" "dg_revision (delegation_of now q l c d) = 0"
  by (simp_all add: delegation_of_def insert_delegation_def)

lemma spawn_child_effect:
  assumes "spawn_child now q l d = Inr (rec, d')" and ok: "log_ok d"
  obtains child where "st d child = None" "st d' = (st d)(child \<mapsto> (rq_child_session q, Queued))"
    "interactions d' = interactions d" "tools d' = tools d" "attempts d' = attempts d"
    "delegations d' = delegations d @ [delegation_of now q l child d]"
    "\<exists>t. turns d' = turns d @ [t] \<and> tn_run t = child \<and> tn_status t = Queued"
    "\<exists>qr. queued_rows d' = queued_rows d @ [qr] \<and> q_run qr = child \<and> q_session qr = rq_child_session q \<and>
       q_status qr = Queued"
proof -
  let ?t = "touch_session (rq_child_session q) now d"
  obtain child d1 n data where new: "new_run now (rq_child_session q)
        (RString (''delegation:'' @ rq_child_session q)) (rq_task q)
        (route_snapshot_of d (rq_parent_run q)) ?t = Inr (child, d1)"
      and ev: "insert_event now (rq_parent_run q) ''delegation_spawned'' data
        (insert_delegation now q l child (route_snapshot_of d (rq_parent_run q)) d1) = Inr (n, d')"
    using assms(1) by (auto simp: spawn_child_def Let_def result_simps split: if_split_asm)
  have "log_ok ?t" using ok skel_log_ok [of ?t d] by (simp add: frame)
  note eff = new_run_effect [OF new this]
  have dg: "delegations d' = delegations d @ [delegation_of now q l child d]"
    using ev eff by (auto simp: insert_event_iff frame insert_delegation_def delegation_of_def)
  show thesis
    by (rule that [of child]) (use eff ev dg st_insert_event [OF ev] in \<open>auto simp: insert_event_iff frame\<close>)
qed

lemma delegate_status_ok:
  assumes ok: "status_ok d" and "admit_delegation now q d = Inr (rec, d')"
  shows "status_ok d'"
  using assms(2)
proof (cases rule: delegate_Inr)
  case old
  then show ?thesis using ok by simp
next
  case (new parent)
  have "log_ok d" using ok by (simp add: status_ok_def)
  from new(10) this show ?thesis
  proof (rule spawn_child_effect)
    fix child
    let ?g = "delegation_of now q (lineage d parent) child d"
    assume eff: "st d child = None" "st d' = (st d)(child \<mapsto> (rq_child_session q, Queued))"
      "interactions d' = interactions d" "delegations d' = delegations d @ [?g]"
      "\<exists>t. turns d' = turns d @ [t] \<and> tn_run t = child \<and> tn_status t = Queued"
      "\<exists>qr. queued_rows d' = queued_rows d @ [qr] \<and> q_run qr = child \<and> q_session qr = rq_child_session q \<and>
         q_status qr = Queued"
    then obtain t qr where "turns d' = turns d @ [t]" "tn_run t = child" "tn_status t = Queued"
        "queued_rows d' = queued_rows d @ [qr]" "q_run qr = child" "q_session qr = rq_child_session q"
        "q_status qr = Queued" by blast
    then show ?thesis
      by (intro status_ok_new [OF ok delegate_log_step [OF assms(2)] eff(1-3), where gs = "[?g]"])
        (simp_all add: eff(4))
  qed
qed

section \<open>Approvals\<close>

lemma busy_visible: "busy s \<Longrightarrow> visible s = Running"
  by (cases s) (simp_all add: visible_def)

text \<open>A run that moves between running and waiting keeps everything but the pending rows.\<close>

lemma status_ok_shift:
  assumes ok: "status_ok d" and step: "log_step d d'"
    and st: "st d' = (st d)(rid \<mapsto> (sid, s))" "st d rid = Some (sid, s0)" and b: "busy s" "busy s0"
    and same: "queued_rows d' = queued_rows d" "turns d' = turns d" "delegations d' = delegations d"
    and p: "pending_ok d'"
  shows "status_ok d'"
proof -
  have parts: "log_ok d" "rows_ok d" "one_busy d" using ok by (simp_all add: status_ok_def)
  have vis: "map_option (visible \<circ> snd) (st d' x) = map_option (visible \<circ> snd) (st d x)"
    and sess: "map_option fst (st d' x) = map_option fst (st d x)" for x
    using st b by (simp_all add: busy_visible)
  have m: "mirrors d' key stat rows = mirrors d key stat rows" for key and stat :: "'r \<Rightarrow> run_status" and rows
    by (rule mirrors_cong) (rule vis)
  have "st d' x = None \<longleftrightarrow> st d x = None" for x using st by simp
  then have "queue_ok d' = queue_ok d" by (simp add: queue_ok_def sess same)
  then have "rows_ok d'" using parts(2) by (simp add: rows_ok_def m same)
  moreover have "log_ok d'" using parts(1) step by (simp add: log_step_def)
  moreover have "one_busy d'" using parts(3) st(1) by (rule one_busy_calm) (use st b in auto)
  ultimately show ?thesis using p by (simp add: status_ok_def)
qed

lemma status_ok_event:
  assumes "status_ok d" "insert_event now rid n j d = Inr (seq, d')"
  shows "status_ok d'"
proof (rule status_ok_same [OF assms(1) log_step_insert [OF assms(2)] st_insert_event [OF assms(2)]])
  show "mirrors d dg_child_run dg_status (delegations d')"
    using assms by (auto simp: insert_event_iff frame status_ok_def rows_ok_def)
qed (use assms(2) in \<open>auto simp: insert_event_iff frame\<close>)

lemma open_interaction_effect:
  assumes "open_interaction rid ap d = Inr d'" and "st d rid = Some (sid, s)"
  shows "st d' = (st d)(rid \<mapsto> (sid, WaitingInteraction)) \<and> queued_rows d' = queued_rows d \<and>
    turns d' = turns d \<and> delegations d' = delegations d \<and> tools d' = tools d \<and> attempts d' = attempts d \<and>
    (\<exists>x. interactions d' = interactions d @ [x] \<and> in_run x = rid \<and> in_status x = Pending \<and>
       in_id x \<notin> in_id ` set (interactions d))"
proof -
  obtain i where i: "i \<notin> in_id ` set (interactions d)"
      "d' = set_run rid (\<lambda>r. r\<lparr>run_status := WaitingInteraction\<rparr>)
        (d\<lparr>interactions := interactions d @ [approval_row rid i ap]\<rparr>)"
    using assms(1) by (auto simp: open_interaction_def result_simps split: if_split_asm)
  have "st (d\<lparr>interactions := interactions d @ [approval_row rid i ap]\<rparr>) rid = Some (sid, s)"
    using assms(2) by (simp add: frame)
  then have "st d' = (st d)(rid \<mapsto> (sid, WaitingInteraction))"
    unfolding i(2) by (simp add: frame st_set_run)
  then show ?thesis using i by (simp add: frame approval_row_def)
qed

lemma append_status_ok:
  assumes ok: "status_ok d" and ap: "append_event now rid n j d = Inr (seq, d')" and al: "allowed d (OpAppend now rid n j)"
  shows "status_ok d'"
  using ap
proof (rule append_event_Inr)
  fix d1 assume "insert_event now rid n j d = Inr (seq, d1)" "d' = d1"
  then show ?thesis using status_ok_event [OF ok] by simp
next
  fix d1 a
  assume h: "insert_event now rid n j d = Inr (seq, d1)" "asks_approval n j" "open_interaction rid a d1 = Inr d'"
  obtain r where r: "find_run d rid = Some r" using h(1) by (auto simp: insert_event_iff)
  have b: "busy (run_status r)" using al h(2) r by simp
  have ok1: "status_ok d1" using status_ok_event [OF ok h(1)] .
  have st1: "st d1 rid = Some (run_session r, run_status r)"
    using st_insert_event [OF h(1)] st_find [OF r] by simp
  note eff = open_interaction_effect [OF h(3) st1]
  have "pending_ok d'"
    using ok1 eff by (fastforce simp: status_ok_def pending_ok_def split: if_splits)
  then show ?thesis
    by (intro status_ok_shift [OF ok1 open_interaction_log_step [OF h(3)] _ st1 _ b, where s = WaitingInteraction])
      (use eff in simp_all)
qed

lemma claim_Inr:
  assumes "claim_interaction now i sid rid rv a d = Inr (res, d')"
  obtains (same) "d' = d" "read_interaction d i = Some res" "ir_session res = sid" "ir_run res = rid"
      "ir_status res = Answered \<or> ir_status res = Rejected" "ir_response res = Some (approved_json a)"
  | (resolved) cur r where "read_interaction d i = Some cur" "ir_session cur = sid" "ir_run cur = rid"
      "ir_status cur = Pending" "ir_revision cur = rv" "find_run d rid = Some r"
      "run_status r = WaitingInteraction" "resolve_interaction now i rid rv a d = Inr d'"
      "read_interaction d' i = Some res"
proof -
  obtain cur where cur: "read_interaction d i = Some cur"
    using assms by (cases "read_interaction d i") (simp_all add: claim_interaction_def)
  note h = assms [unfolded claim_interaction_def cur ok_or_simps bindE_simps]
  show thesis
  proof (cases "ir_status cur = Pending")
    case True
    then show ?thesis using h that(2) [OF cur] by (auto simp: result_simps split: if_split_asm)
  next
    case False
    then show ?thesis using h that(1) cur by (auto split: if_split_asm)
  qed
qed

lemma read_interaction_row:
  assumes "read_interaction d i = Some cur"
  obtains x where "x \<in> set (interactions d)" "in_id x = i" "in_run x = ir_run cur" "in_status x = ir_status cur"
    "in_revision x = ir_revision cur" "in_response x = ir_response cur"
    "\<exists>s. st d (ir_run cur) = Some (ir_session cur, s)"
  using assms by (auto simp: read_interaction_def st_def bind_eq_Some_conv dest!: find_key_SomeD)

definition answer_row :: "bool \<Rightarrow> interaction_row \<Rightarrow> interaction_row" where
  "answer_row a x = x\<lparr>in_status := if a then Answered else Rejected,
     in_response := Some (approved_json a), in_revision := in_revision x + 1\<rparr>"

lemma answer_row_simps [simp]:
  "in_id (answer_row a x) = in_id x" "in_run (answer_row a x) = in_run x"
  "in_status (answer_row a x) = (if a then Answered else Rejected)"
  "in_response (answer_row a x) = Some (approved_json a)" "in_revision (answer_row a x) = in_revision x + 1"
  by (simp_all add: answer_row_def)

lemma resolve_effect:
  fixes d i a
  defines "xs \<equiv> update_where (\<lambda>x. in_id x = i \<and> in_status x = Pending) (answer_row a) (interactions d)"
  assumes "resolve_interaction now i rid rv a d = Inr d'" and "st d rid = Some (sid, WaitingInteraction)"
  shows "st d' = (if count_where (\<lambda>x. in_run x = rid \<and> in_status x = Pending) xs = 0
      then (st d)(rid \<mapsto> (sid, Running)) else st d) \<and>
    interactions d' = xs \<and> queued_rows d' = queued_rows d \<and> turns d' = turns d \<and> delegations d' = delegations d \<and>
    tools d' = tools d \<and> attempts d' = attempts d"
proof -
  let ?d1 = "d\<lparr>interactions := xs\<rparr>"
  let ?u = "update_where (\<lambda>r. run_id r = rid \<and> run_status r = WaitingInteraction) (\<lambda>r. r\<lparr>run_status := Running\<rparr>) (runs d)"
  let ?d2 = "if count_where (\<lambda>x. in_run x = rid \<and> in_status x = Pending) xs = 0
    then ?d1\<lparr>runs := ?u\<rparr> else ?d1"
  obtain n data where ev: "insert_event now rid ''interaction_resolved'' data ?d2 = Inr (n, d')"
    using assms(2) unfolding resolve_interaction_def Let_def xs_def answer_row_def [abs_def]
    by (auto simp: result_simps simp del: if_split cong: if_cong)
  have "st (?d1\<lparr>runs := ?u\<rparr>) = (st d)(rid \<mapsto> (sid, Running))"
  proof
    fix x
    have "find_key run_id x ?u = map_option (\<lambda>r. if run_id r = rid \<and> run_status r = WaitingInteraction
        then r\<lparr>run_status := Running\<rparr> else r) (find_key run_id x (runs d))"
      by (rule find_key_update_where) simp
    moreover have "run_id y = x" if "find_key run_id x (runs d) = Some y" for y
      using find_key_SomeD [OF that] by simp
    ultimately show "st (?d1\<lparr>runs := ?u\<rparr>) x = ((st d)(rid \<mapsto> (sid, Running))) x"
      using assms(3) by (cases "find_key run_id x (runs d)") (auto simp: st_def find_run_def)
  qed
  then have "st ?d2 = (if count_where (\<lambda>x. in_run x = rid \<and> in_status x = Pending) xs = 0
      then (st d)(rid \<mapsto> (sid, Running)) else st d)"
    by (simp add: frame)
  then show ?thesis
    using st_insert_event [OF ev] ev by (auto simp: insert_event_iff frame)
qed

lemma claim_status_ok:
  assumes ok: "status_ok d" and "claim_interaction now i sid rid rv a d = Inr (res, d')"
  shows "status_ok d'"
  using assms(2)
proof (cases rule: claim_Inr)
  case same
  then show ?thesis using ok by simp
next
  case (resolved cur r)
  let ?xs = "update_where (\<lambda>x. in_id x = i \<and> in_status x = Pending) (answer_row a) (interactions d)"
  have st: "st d rid = Some (run_session r, WaitingInteraction)" using st_find [OF resolved(6)] resolved(7) by simp
  note eff = resolve_effect [OF resolved(8) st]
  note step = claim_log_step [OF assms(2)]
  obtain x0 where x0: "x0 \<in> set (interactions d)" "in_id x0 = i" "in_run x0 = rid"
    using read_interaction_row [OF resolved(1)] resolved(3) by metis
  have p: "distinct (map in_id (interactions d))"
      "\<And>x. x \<in> set (interactions d) \<Longrightarrow> in_status x = Pending \<Longrightarrow> \<exists>sid. st d (in_run x) = Some (sid, WaitingInteraction)"
      "\<And>y sid. st d y = Some (sid, WaitingInteraction) \<Longrightarrow> \<exists>x \<in> set (interactions d). in_run x = y \<and> in_status x = Pending"
    using ok by (auto simp: status_ok_def pending_ok_def)
  have own: "in_run x = rid" if "x \<in> set (interactions d)" "in_id x = i" for x
    using distinct_key_inj [OF p(1) that(1) x0(1)] that(2) x0(2,3) by simp
  have kept: "x \<in> set ?xs \<longleftrightarrow> x \<in> set (interactions d) \<and> in_id x \<noteq> i" if "in_status x = Pending" for x
    using that by (auto simp: set_update_where image_iff split: if_splits)
  have ids: "distinct (map in_id ?xs)"
    using p(1) by (simp add: map_update_where)
  show ?thesis
  proof (cases "count_where (\<lambda>x. in_run x = rid \<and> in_status x = Pending) ?xs = 0")
    case True
    then have none: "\<not> (in_run x = rid \<and> in_status x = Pending)" if "x \<in> set ?xs" for x
      using that by (simp add: count_where_0_iff)
    have st': "st d' = (st d)(rid \<mapsto> (run_session r, Running))" using eff True by simp
    have "pending_ok d'"
      unfolding pending_ok_def st' conjunct1 [OF conjunct2 [OF eff]]
    proof (intro conjI ballI allI impI ids)
      fix x assume x: "x \<in> set ?xs" "in_status x = Pending"
      then have "in_run x \<noteq> rid" "x \<in> set (interactions d)" using none kept by blast+
      then show "\<exists>s. ((st d)(rid \<mapsto> (run_session r, Running))) (in_run x) = Some (s, WaitingInteraction)"
        using p(2) x(2) by simp
    next
      fix z s assume "((st d)(rid \<mapsto> (run_session r, Running))) z = Some (s, WaitingInteraction)"
      then have z: "z \<noteq> rid" "st d z = Some (s, WaitingInteraction)" by (auto split: if_splits)
      obtain x where x: "x \<in> set (interactions d)" "in_run x = z" "in_status x = Pending"
        using p(3) [OF z(2)] by blast
      then have "in_id x \<noteq> i" using own z(1) by blast
      then show "\<exists>x \<in> set ?xs. in_run x = z \<and> in_status x = Pending" using x kept by blast
    qed
    then show ?thesis
      by (intro status_ok_shift [OF ok step st' st]) (use eff in simp_all)
  next
    case False
    then obtain y where y: "y \<in> set ?xs" "in_run y = rid" "in_status y = Pending"
      by (auto simp: count_where_0_iff)
    have st': "st d' = st d" using eff False by simp
    have "pending_ok d'"
      unfolding pending_ok_def st' conjunct1 [OF conjunct2 [OF eff]]
    proof (intro conjI ballI allI impI ids)
      fix x assume "x \<in> set ?xs" "in_status x = Pending"
      then show "\<exists>sid. st d (in_run x) = Some (sid, WaitingInteraction)" using kept p(2) by blast
    next
      fix z s assume z: "st d z = Some (s, WaitingInteraction)"
      show "\<exists>x \<in> set ?xs. in_run x = z \<and> in_status x = Pending"
      proof (cases "z = rid")
        case True
        then show ?thesis using y by blast
      next
        case False
        then show ?thesis using p(3) [OF z] kept own by metis
      qed
    qed
    moreover have "log_ok d'" using ok step by (simp add: status_ok_def log_step_def)
    ultimately show ?thesis
      using ok eff
      by (simp add: status_ok_def rows_ok_def mirrors_st [OF st'] one_busy_st [OF st'] queue_ok_cong [OF st'])
  qed
qed

end
