(* ===== verification/Store_Runs.thy ===== *)
theory Store_Runs
  imports Store_Daemon
begin

text \<open>
  The store as the daemon drives it: \<open>status_ok\<close> is an invariant of \<open>daemon_step\<close>, and with it
  the contract of the run queue: one run per session at a time, first come first served, no
  queue that gets stuck, and a fixed set of status changes.
\<close>

section \<open>The remaining operations\<close>

text \<open>A lease operation writes only the lease fields of its row.\<close>

definition lease_of :: "delegation_row \<Rightarrow> delegation_row \<Rightarrow> bool" where
  "lease_of g g' \<longleftrightarrow> g' = g\<lparr>dg_result_state := dg_result_state g', dg_owner := dg_owner g',
     dg_revision := dg_revision g', dg_released := dg_released g', dg_expires := dg_expires g'\<rparr>"

lemma lease_of_same:
  assumes "lease_of g g'"
  shows "dg_child_run g' = dg_child_run g \<and> dg_status g' = dg_status g \<and> dg_root_run g' = dg_root_run g \<and> dg_depth g' = dg_depth g \<and>
    dg_max_tool_calls g' = dg_max_tool_calls g \<and> dg_parent_run g' = dg_parent_run g \<and> dg_spawn_key g' = dg_spawn_key g \<and> dg_id g' = dg_id g"
proof -
  note e = assms [unfolded lease_of_def]
  show ?thesis
    using arg_cong [OF e, of dg_child_run]
      arg_cong [OF e, of dg_status]
      arg_cong [OF e, of dg_root_run]
      arg_cong [OF e, of dg_depth]
      arg_cong [OF e, of dg_max_tool_calls]
      arg_cong [OF e, of dg_parent_run]
      arg_cong [OF e, of dg_spawn_key]
      arg_cong [OF e, of dg_id]
    by simp
qed

lemma reserve_lease: "reserve_decision t1 t2 t3 t4 ow rv g = Inr g' \<Longrightarrow> lease_of g g'"
  by (auto simp: reserve_decision_def lease_of_def reserve_row_def release_row_def split: if_split_asm)

lemma transition_lease: "transition_decision t ow rv target g = Inr g' \<Longrightarrow> lease_of g g'"
  by (auto simp: transition_decision_def lease_of_def deliver_row_def release_row_def split: if_split_asm)

lemma with_delegation_Inr:
  assumes "with_delegation c decision d = Inr (rec, d')"
  obtains g g' where "find_delegation d c = Some g" "decision g = Inr g'" "d' = set_delegation c (\<lambda>_. g') d"
    "read_delegation_in d' c = Some rec"
  using assms
  by (auto simp: with_delegation_def Let_def result_simps read_delegation_in_def bind_eq_Some_conv
      simp del: find_run_frame)

lemma lease_status_ok:
  assumes ok: "status_ok d" and w: "with_delegation c decision d = Inr (rec, d')"
    and lease: "\<And>g g'. decision g = Inr g' \<Longrightarrow> lease_of g g'"
  shows "status_ok d'"
  using w
proof (rule with_delegation_Inr)
  fix g g' assume g: "find_delegation d c = Some g" "decision g = Inr g'" "d' = set_delegation c (\<lambda>_. g') d"
  have mem: "g \<in> set (delegations d)" "dg_child_run g = c"
    using g(1) by (auto simp: find_delegation_def dest: find_key_SomeD)
  have "mirrors d dg_child_run dg_status (delegations d)" using ok by (simp add: status_ok_def rows_ok_def)
  then have "mirrors d dg_child_run dg_status (delegations d')"
    using mem lease_of_same [OF lease [OF g(2)]]
    by (auto simp: mirrors_def g(3) frame set_update_where)
  then show ?thesis
    by (intro status_ok_same [OF ok lease_log_step [OF w]]) (simp_all add: g(3) frame)
qed

lemma tools_status_ok:
  assumes ok: "status_ok d"
  shows "prepare_tool_batch now rid rnd cs d = Inr d' \<Longrightarrow> status_ok d'"
    and "start_tool now rid rnd c d = Inr d' \<Longrightarrow> status_ok d'"
    and "finish_tool now rid rnd c out art rc d = Inr d' \<Longrightarrow> status_ok d'"
    and "finish_tool_batch now rid rnd d = Inr d' \<Longrightarrow> status_ok d'"
proof -
  have dg: "mirrors d dg_child_run dg_status (delegations d)" using ok by (simp add: status_ok_def rows_ok_def)
  have same: "status_ok (d\<lparr>tools := ts\<rparr>)" for ts
    using dg by (intro status_ok_same [OF ok log_step_skel]) (simp_all add: frame)
  show "start_tool now rid rnd c d = Inr d' \<Longrightarrow> status_ok d'"
    and "finish_tool now rid rnd c out art rc d = Inr d' \<Longrightarrow> status_ok d'"
    by (auto simp: start_tool_def finish_tool_def same split: if_split_asm)
  show "finish_tool_batch now rid rnd d = Inr d' \<Longrightarrow> status_ok d'"
    using status_ok_event [OF ok] by (auto simp: finish_tool_batch_def result_simps split: if_split_asm)
  assume "prepare_tool_batch now rid rnd cs d = Inr d'"
  then obtain d1 n j where i: "insert_tools now rid rnd cs d = Inr d1"
      and ev: "insert_event now rid ''tool_batch_prepared'' j d1 = Inr (n, d')"
    by (auto simp: prepare_tool_batch_def result_simps split: if_split_asm)
  have "status_ok d1"
    using insert_tools_frame [OF i] insert_tools_log_step [OF i] dg
    by (intro status_ok_same [OF ok]) (auto intro: st_runs)
  then show "status_ok d'" using ev by (rule status_ok_event)
qed

lemma attempts_status_ok:
  assumes ok: "status_ok d"
  shows "start_provider_attempt now a d = Inr d' \<Longrightarrow> status_ok d'"
    and "finish_provider_attempt now a d = Inr d' \<Longrightarrow> status_ok d'"
proof -
  have dg: "mirrors d dg_child_run dg_status (delegations d)" using ok by (simp add: status_ok_def rows_ok_def)
  have same: "status_ok (d\<lparr>attempts := as\<rparr>)" for as
    using dg by (intro status_ok_same [OF ok log_step_skel]) (simp_all add: frame)
  show "start_provider_attempt now a d = Inr d' \<Longrightarrow> status_ok d'"
    and "finish_provider_attempt now a d = Inr d' \<Longrightarrow> status_ok d'"
    using status_ok_event [OF same] ok
    by (auto simp: start_provider_attempt_def finish_provider_attempt_def Let_def result_simps split: if_split_asm)
qed

lemma daemon_status_ok: "status_ok d \<Longrightarrow> status_ok (daemon_step sha d op)"
proof (cases "allowed d op")
  case True
  assume ok: "status_ok d"
  have "status_ok (store_step sha d op)"
    using True
    by (cases op)
      (auto simp: reserve_delegation_result_def release_delegation_result_def deliver_delegation_result_def
          simp del: allowed.simps
        intro!: committed_inv [where P = status_ok, OF ok] committed_unit_inv [where P = status_ok, OF ok]
        intro: admit_status_ok [OF ok] start_status_ok [OF ok] remove_status_ok [OF ok] tools_status_ok [OF ok]
          append_status_ok [OF ok] claim_status_ok [OF ok] finish_status_ok [OF ok] reconcile_status_ok [OF ok]
          attempts_status_ok [OF ok] recover_status_ok [OF ok] delegate_status_ok [OF ok]
          lease_status_ok [OF ok _ reserve_lease] lease_status_ok [OF ok _ transition_lease])
  with True show ?thesis by (simp add: daemon_step_def)
qed (simp add: daemon_step_def)

lemma empty_status_ok: "status_ok empty_db"
  by (simp add: status_ok_def empty_log_ok)
    (simp add: rows_ok_def queue_ok_def one_busy_def pending_ok_def mirrors_def st_def find_run_def empty_db_def)

interpretation daemon: step_machine "daemon_step sha" status_ok
  by unfold_locales (rule daemon_status_ok)

abbreviation daemon_run :: "(string \<Rightarrow> string) \<Rightarrow> store_op list \<Rightarrow> db" where
  "daemon_run sha ops \<equiv> foldl (daemon_step sha) empty_db ops"

lemma daemon_run_ok: "status_ok (daemon_run sha ops)"
  by (rule daemon.run_inv [OF empty_status_ok])

end
