(* ===== verification/Store_Contract.thy ===== *)
theory Store_Contract
  imports Store_Runs
begin

text \<open>
  What callers of the run store rely on, stated over every database the daemon can build:
  the run queue, the status changes, the outcome of \<open>finish\<close>, answers to approvals and restart
  recovery.
\<close>

section \<open>The queue\<close>

lemma filter_le_one:
  assumes "distinct (map k xs)" "\<And>x y. x \<in> set xs \<Longrightarrow> y \<in> set xs \<Longrightarrow> P x \<Longrightarrow> P y \<Longrightarrow> k x = k y"
  shows "count_where P xs \<le> 1"
proof -
  have d: "distinct (map k (filter P xs))" using assms(1) by (rule distinct_map_filter)
  have eq: "k x = k y" if "x \<in> set (filter P xs)" "y \<in> set (filter P xs)" for x y
    using that assms(2) by simp
  show ?thesis
  proof (cases "filter P xs")
    case (Cons x ys)
    then show ?thesis
      using d eq [of x "hd ys"] by (cases ys) (auto simp: count_where_def)
  qed (simp add: count_where_def)
qed



lemma head_row:
  "head_of_queue d sid = Some q \<Longrightarrow> q \<in> set (queued_rows d) \<and> q_status q = Queued \<and> q_session q = sid"
  by (auto simp: head_of_queue_def find_Some_iff in_set_conv_nth)

lemma try_start_not_head:
  "find_run d rid = Some r \<Longrightarrow> map_option q_run (head_of_queue d (run_session r)) \<noteq> Some rid \<Longrightarrow>
   try_start_queued now rid d = Inr (False, d)"
  by (simp add: try_start_queued_def)

lemma try_start_head:
  assumes "find_run d rid = Some r" "map_option q_run (head_of_queue d (run_session r)) = Some rid"
    and "run_status r = Queued" "count_where (\<lambda>x. run_session x = run_session r \<and> busy (run_status x)) (runs d) = 0"
  shows "\<exists>d'. try_start_queued now rid d = Inr (True, d') \<and> st d' = (st d)(rid \<mapsto> (run_session r, Running))"
proof -
  let ?d1 = "set_run rid (\<lambda>r. r\<lparr>run_status := Running, run_updated := now\<rparr>) d"
  have "find_run ?d1 rid \<noteq> None" using assms(1) by (simp add: frame)
  then obtain n d1 where "insert_event now rid ''run_started''
        (JObj [(''queue_wait_ms'', JInt (sat_i64 (now - run_created r)))]) ?d1 = Inr (n, d1)"
    using insert_event_iff by blast
  then obtain d' where d': "start_run now rid r d = Inr d'" by (simp add: start_run_def)
  have "st d' = (st d)(rid \<mapsto> (run_session r, Running))"
    using start_run_effect [OF d' st_find [OF assms(1)]] by simp
  then show ?thesis using assms d' by (simp add: try_start_queued_def)
qed

text \<open>
  C21: The queue moves, in order. When a session has a queued run and none that is running or
  waiting, the oldest queue row names a run that \<open>try_start_queued\<close> does start, and every other
  run of the session is refused.
\<close>

theorem queue_progress:
  assumes "st (daemon_run sha ops) rid = Some (sid, Queued)"
    and "\<And>b s. st (daemon_run sha ops) b = Some (sid, s) \<Longrightarrow> \<not> busy s"
  shows "let d = daemon_run sha ops in
     \<exists>q d'. head_of_queue d sid = Some q \<and> try_start_queued now (q_run q) d = Inr (True, d') \<and>
       st d' = (st d)(q_run q \<mapsto> (sid, Running)) \<and>
       (\<forall>b s. st d b = Some (sid, s) \<and> b \<noteq> q_run q \<longrightarrow> try_start_queued now b d = Inr (False, d))"
proof -
  define d where "d = daemon_run sha ops"
  have ok: "status_ok d" unfolding d_def by (rule daemon_run_ok)
  have log: "log_ok d" and qok: "queue_ok d" and m: "mirrors d q_run q_status (queued_rows d)"
    using ok by (simp_all add: status_ok_def rows_ok_def)
  have calm: "count_where (\<lambda>x. run_session x = sid \<and> busy (run_status x)) (runs d) = 0"
    using assms(2) find_run_Some_iff [OF log] by (fastforce simp: count_where_0_iff st_def d_def)
  have "rid \<in> q_run ` set (queued_rows d)"
    using qok assms(1) unfolding queue_ok_def d_def by blast
  then obtain q0 where q0: "q0 \<in> set (queued_rows d)" "q_run q0 = rid" by auto
  have "map_option (visible \<circ> snd) (st d rid) = Some (q_status q0)" "map_option fst (st d rid) = Some (q_session q0)"
    using q0 qok m by (auto simp: queue_ok_def mirrors_def)
  then have "q_status q0 = Queued" "q_session q0 = sid"
    using assms(1) by (simp_all add: d_def visible_def)
  then have "head_of_queue d sid \<noteq> None"
    using q0 by (auto simp: head_of_queue_def find_None_iff)
  then obtain q where q: "head_of_queue d sid = Some q" by auto
  note hd = head_row [OF q]
  have "map_option (visible \<circ> snd) (st d (q_run q)) = Some Queued" "map_option fst (st d (q_run q)) = Some sid"
    using hd qok m by (auto simp: queue_ok_def mirrors_def)
  then have "st d (q_run q) = Some (sid, Queued)"
    by (auto simp: visible_def split: if_splits)
  then obtain r where r: "find_run d (q_run q) = Some r" "run_session r = sid" "run_status r = Queued"
    by (auto simp: st_def)
  obtain d' where "try_start_queued now (q_run q) d = Inr (True, d')" "st d' = (st d)(q_run q \<mapsto> (sid, Running))"
    using try_start_head [OF r(1) _ r(3)] q calm r(2) by auto
  moreover have "try_start_queued now b d = Inr (False, d)" if "st d b = Some (sid, s)" "b \<noteq> q_run q" for b s
    using that q by (auto simp: st_def intro!: try_start_not_head)
  ultimately show ?thesis using q unfolding d_def Let_def by blast
qed

definition two_queued :: "store_op list" where
  "two_queued = [OpAdmit 5 ''s'' (RNumber 1) ''hi'' Queue None, OpAdmit 6 ''s'' (RNumber 2) ''ho'' Queue None]"

theorem queue_progress_witness:
  "st (daemon_run id two_queued) (run_key 2) = Some (''s'', Queued) \<and>
   (\<exists>q d'. head_of_queue (daemon_run id two_queued) ''s'' = Some q \<and>
      try_start_queued 9 (q_run q) (daemon_run id two_queued) = Inr (True, d'))"
proof -
  have calm: "b = run_key 1 \<and> s = Queued \<or> b = run_key 2 \<and> s = Queued"
    if "st (daemon_run id two_queued) b = Some (''s'', s)" for b s
    using that by (auto simp: two_queued_def daemon_step_def st_def store_eval split: if_splits)
  have h: "st (daemon_run id two_queued) (run_key 2) = Some (''s'', Queued)"
    by (simp add: two_queued_def daemon_step_def st_def store_eval)
  have nb: "\<not> busy s" if "st (daemon_run id two_queued) b = Some (''s'', s)" for b s
    using calm [OF that] by auto
  show ?thesis using queue_progress [where now = 9, OF h] nb h unfolding Let_def by blast
qed

section \<open>Status changes\<close>

definition status_edge :: "run_status \<Rightarrow> run_status \<Rightarrow> bool" where
  "status_edge s t \<longleftrightarrow> s = t \<or>
     (case s of
        Queued \<Rightarrow> t = Running \<or> terminal t
      | Running \<Rightarrow> t = WaitingInteraction \<or> terminal t
      | WaitingInteraction \<Rightarrow> t = Running \<or> terminal t
      | UnknownAfterRestart \<Rightarrow> t = Completed \<or> t = RFailed \<or> t = RCancelled
      | _ \<Rightarrow> False)"

lemma edge_refl [simp]: "status_edge s s"
  by (simp add: status_edge_def)

lemma edge_terminal: "\<not> terminal s \<Longrightarrow> terminal t \<Longrightarrow> status_edge s t"
  by (cases s) (simp_all add: status_edge_def)

lemma edge_simps [simp]:
  "status_edge Queued Running" "status_edge WaitingInteraction Running"
  "status_edge Running WaitingInteraction"
  by (simp_all add: status_edge_def)

text \<open>\<open>moves d d'\<close>: every run is still there, in its session, and took at most one edge.\<close>

definition moves :: "db \<Rightarrow> db \<Rightarrow> bool" where
  "moves d d' \<longleftrightarrow>
     (\<forall>rid sid s. st d rid = Some (sid, s) \<longrightarrow> (\<exists>t. st d' rid = Some (sid, t) \<and> status_edge s t))"

lemma moves_same: "st d' = st d \<Longrightarrow> moves d d'"
  by (simp add: moves_def)

lemma moves_to: "st d' = (st d)(rid \<mapsto> (sid, t)) \<Longrightarrow> st d rid = Some (sid, s) \<Longrightarrow> status_edge s t \<Longrightarrow> moves d d'"
  by (auto simp: moves_def)

lemma moves_new: "st d' = (st d)(rid \<mapsto> x) \<Longrightarrow> st d rid = None \<Longrightarrow> moves d d'"
  by (auto simp: moves_def)

lemma finish_moves:
  assumes "finish now rid s c e d = Inr (rec, d')"
  shows "moves d d'"
  using assms
proof (cases rule: finish_Inr)
  case same
  then show ?thesis by (simp add: moves_same)
next
  case (moved sid s0)
  then show ?thesis
    using finish_with_effect [OF moved(4,1)] effective_terminal
    by (intro moves_to [where s = s0 and t = "effective_status d rid s"]) (auto intro: edge_terminal)
qed

lemma reconcile_moves:
  assumes "reconcile_unknown sha now rid sid n s c ev d = Inr (rec, d')"
  shows "moves d d'"
proof -
  note r = reconcile_Inr [OF assms]
  then have "status_edge UnknownAfterRestart s" by (auto simp: evidence_ok_def status_edge_def)
  then show ?thesis
    using r reconcile_with_effect by (intro moves_to [where s = UnknownAfterRestart and t = s]) blast+
qed

lemma start_moves:
  assumes "try_start_queued now rid d = Inr (x, d')"
  shows "moves d d'"
proof (cases x)
  case True
  then have "try_start_queued now rid d = Inr (True, d')" using assms by simp
  then show ?thesis
    by (rule try_start_True) (use start_run_effect st_find in \<open>fastforce intro!: moves_to\<close>)
next
  case False
  then have "d' = d"
    using assms by (auto simp: try_start_queued_def result_simps split: option.splits if_split_asm)
  then show ?thesis by (simp add: moves_same)
qed

lemma remove_moves:
  assumes "remove_queued now rid d = Inr (x, d')"
  shows "moves d d'"
proof (cases "\<exists>r. find_run d rid = Some r \<and> run_status r = Queued")
  case False
  then have "d' = d" using assms by (auto simp: remove_queued_def split: option.splits)
  then show ?thesis by (simp add: moves_same)
next
  case True
  then obtain r where r: "find_run d rid = Some r" "run_status r = Queued" by blast
  have "st d' = (st d)(rid \<mapsto> (run_session r, RCancelled))"
    using assms r st_set_run [OF _ _ _ st_find [OF r(1)], of "\<lambda>r. r\<lparr>run_status := RCancelled, run_updated := now\<rparr>"]
    by (auto simp: remove_queued_def Let_def result_simps frame dest!: st_insert_event st_mark_terminal)
  then show ?thesis using st_find [OF r(1)] r(2) by (intro moves_to) (auto intro: edge_terminal)
qed

lemma recover_moves:
  assumes "status_ok d" "recover now d = Inr (n, d')"
  shows "moves d d'"
proof -
  have "st d' = (\<lambda>rid. map_option (\<lambda>p. unknown_if (busy (snd p)) p) (st d rid))"
    using recover_Inr [OF assms(2)] assms(1) by (simp add: status_ok_def)
  moreover have "busy s \<Longrightarrow> status_edge s UnknownAfterRestart" for s
    by (cases s) (simp_all add: status_edge_def)
  ultimately show ?thesis by (auto simp: moves_def unknown_if_def)
qed

lemma admit_moves:
  assumes "status_ok d" "admit_with_route now sid rq i m rt d = Inr (x, d')"
  shows "moves d d'"
  using assms(2)
proof (cases rule: admit_Inr)
  case old
  then show ?thesis by (simp add: moves_same)
next
  case (new rid)
  have "status_ok (touch_session sid now d)" using assms(1) by (simp add: status_ok_touch)
  then have "log_ok (touch_session sid now d)" by (simp add: status_ok_def)
  from new_run_effect [OF new(3) this] show ?thesis by (auto simp: frame intro: moves_new)
qed

lemma delegate_moves:
  assumes "status_ok d" "admit_delegation now q d = Inr (x, d')"
  shows "moves d d'"
  using assms(2)
proof (cases rule: delegate_Inr)
  case old
  then show ?thesis by (simp add: moves_same)
next
  case (new parent)
  have "log_ok d" using assms(1) by (simp add: status_ok_def)
  from new(10) this show ?thesis by (rule spawn_child_effect) (auto intro: moves_new)
qed

lemma append_moves:
  assumes ap: "append_event now rid n j d = Inr (seq, d')" and al: "allowed d (OpAppend now rid n j)"
  shows "moves d d'"
  using ap
proof (rule append_event_Inr)
  fix d1 assume "insert_event now rid n j d = Inr (seq, d1)" "d' = d1"
  then show ?thesis by (auto intro: moves_same dest: st_insert_event)
next
  fix d1 a
  assume h: "insert_event now rid n j d = Inr (seq, d1)" "asks_approval n j" "open_interaction rid a d1 = Inr d'"
  obtain r where r: "find_run d rid = Some r" using h(1) by (auto simp: insert_event_iff)
  have b: "busy (run_status r)" using al h(2) r by simp
  have st1: "st d1 = st d" using h(1) by (rule st_insert_event)
  then have "st d' = (st d)(rid \<mapsto> (run_session r, WaitingInteraction))"
    using open_interaction_effect [OF h(3), of "run_session r" "run_status r"] st_find [OF r] by simp
  then show ?thesis
    using st_find [OF r] b by (intro moves_to) (auto simp: busy_def)
qed

lemma claim_moves:
  assumes "claim_interaction now i sid rid rv a d = Inr (res, d')"
  shows "moves d d'"
  using assms
proof (cases rule: claim_Inr)
  case same
  then show ?thesis by (simp add: moves_same)
next
  case (resolved cur r)
  have st: "st d rid = Some (run_session r, WaitingInteraction)" using st_find [OF resolved(6)] resolved(7) by simp
  show ?thesis
    using resolve_effect [OF resolved(8) st] st by (auto intro: moves_same moves_to split: if_split_asm)
qed

lemma calm_moves:
  "prepare_tool_batch now rid rnd cs d = Inr d' \<Longrightarrow> moves d d'"
  "start_tool now rid rnd c d = Inr d' \<Longrightarrow> moves d d'"
  "finish_tool now rid rnd c out art rc d = Inr d' \<Longrightarrow> moves d d'"
  "finish_tool_batch now rid rnd d = Inr d' \<Longrightarrow> moves d d'"
  "start_provider_attempt now at d = Inr d' \<Longrightarrow> moves d d'"
  "finish_provider_attempt now at d = Inr d' \<Longrightarrow> moves d d'"
  "with_delegation ch f d = Inr (x, d') \<Longrightarrow> moves d d'"
  by (auto simp: prepare_tool_batch_def start_tool_def finish_tool_def finish_tool_batch_def
      start_provider_attempt_def finish_provider_attempt_def with_delegation_def Let_def result_simps frame
      split: if_split_asm intro!: moves_same dest!: st_insert_event st_runs [OF insert_tools_runs])

text \<open>The delegation leases run \<open>with_delegation\<close>; the reservation of a result is a lease transition.\<close>

lemma lease_moves:
  "reserve_delegation_result t1 t2 t3 t4 c ow rv d = Inr (x, d') \<Longrightarrow> moves d d'"
  "release_delegation_result now c ow rv d = Inr (x, d') \<Longrightarrow> moves d d'"
  "deliver_delegation_result now c ow rv d = Inr (x, d') \<Longrightarrow> moves d d'"
  by (auto simp: reserve_delegation_result_def release_delegation_result_def deliver_delegation_result_def
      intro: calm_moves(7))

lemma daemon_moves:
  assumes ok: "status_ok d"
  shows "moves d (daemon_step sha d op)"
proof -
  have "allowed d op \<Longrightarrow> moves d (store_step sha d op)"
    by (cases op)
      (auto simp: committed_def committed_unit_def moves_same intro: calm_moves finish_moves reconcile_moves
        start_moves remove_moves recover_moves [OF ok] admit_moves [OF ok] delegate_moves [OF ok]
        append_moves claim_moves lease_moves split: sum.splits)
  then show ?thesis by (simp add: daemon_step_def moves_same)
qed


end
