(* ===== verification/Store_Side.thy ===== *)
theory Store_Side
  imports Store_Contract
begin

text \<open>
  Tool receipts, answered interactions and delegations. Tool rows only move forward and a
  terminal receipt never changes; an answered interaction never changes; delegations keep
  their lineage and budget, and their number, depth and activity stay within the limits.
\<close>

section \<open>What an operation may do to the side tables\<close>

definition tool_rank :: "tool_status \<Rightarrow> nat" where
  "tool_rank s = (case s of Prepared \<Rightarrow> 0 | ToolRunning \<Rightarrow> 1 | ToolTerminal \<Rightarrow> 2)"

text \<open>The call a tool row is for; what a receipt says stays with it.\<close>

definition tool_call_of :: "tool_row \<Rightarrow> nat \<times> string \<times> nat \<times> string \<times> string \<times> string \<times> string \<times> int \<times> bool" where
  "tool_call_of t = (tl_id t, tl_run t, tl_round t, tl_call t, tl_name t, tl_effect t, tl_digest t, tl_prepared t,
     tl_replay t)"

definition tool_next :: "tool_row \<Rightarrow> tool_row \<Rightarrow> bool" where
  "tool_next t t' \<longleftrightarrow> tool_call_of t' = tool_call_of t \<and> tool_rank (tl_status t) \<le> tool_rank (tl_status t') \<and>
     (tl_status t \<noteq> Prepared \<longrightarrow> tl_started t' = tl_started t) \<and> (tl_status t = ToolTerminal \<longrightarrow> t' = t)"

definition tools_le :: "tool_row list \<Rightarrow> tool_row list \<Rightarrow> bool" where
  "tools_le ts ts' \<longleftrightarrow> length ts \<le> length ts' \<and> list_all2 tool_next ts (take (length ts) ts')"

lemma tool_next_refl [simp]: "tool_next t t"
  by (simp add: tool_next_def)

lemma tool_rank_top: "2 \<le> tool_rank s \<longleftrightarrow> s = ToolTerminal" "1 \<le> tool_rank s \<longleftrightarrow> s \<noteq> Prepared"
  by (cases s; simp add: tool_rank_def)+

lemma tool_next_trans: "tool_next t u \<Longrightarrow> tool_next u v \<Longrightarrow> tool_next t v"
  unfolding tool_next_def
  by (cases "tl_status t"; cases "tl_status u"; cases "tl_status v"; simp add: tool_rank_def)

lemma tools_le_refl [simp]: "tools_le ts ts"
  by (simp add: tools_le_def list_all2_same)

lemma tools_le_trans: "tools_le ts us \<Longrightarrow> tools_le us vs \<Longrightarrow> tools_le ts vs"
proof -
  assume a: "tools_le ts us" "tools_le us vs"
  then have "list_all2 tool_next (take (length ts) us) (take (length ts) (take (length us) vs))"
    unfolding tools_le_def by (blast intro: list_all2_takeI)
  with a have "list_all2 tool_next ts (take (length ts) vs)"
    by (auto simp: tools_le_def min_def intro: list_all2_trans [of tool_next tool_next tool_next, OF tool_next_trans])
  with a show ?thesis by (simp add: tools_le_def)
qed

lemma tools_le_append: "tools_le ts (ts @ us)"
  by (simp add: tools_le_def list_all2_same)

lemma tools_le_update:
  "(\<And>t. p t \<Longrightarrow> tool_next t (f t)) \<Longrightarrow> tools_le ts (update_where p f ts)"
  by (auto simp: tools_le_def update_where_def list_all2_map2 list_all2_same)

text \<open>An interaction that is no longer pending keeps its row.\<close>

definition settled :: "interaction_row list \<Rightarrow> interaction_row list \<Rightarrow> bool" where
  "settled xs ys \<longleftrightarrow> (\<forall>x \<in> set xs. in_status x \<noteq> Pending \<longrightarrow> x \<in> set ys)"

lemma settled_refl [simp]: "settled xs xs"
  by (simp add: settled_def)

lemma settled_trans: "settled xs ys \<Longrightarrow> settled ys zs \<Longrightarrow> settled xs zs"
  by (auto simp: settled_def)

lemma settled_append [simp]: "settled xs (xs @ ys)"
  by (simp add: settled_def)

lemma settled_update:
  "(\<And>x. p x \<Longrightarrow> in_status x = Pending) \<Longrightarrow> settled xs (update_where p f xs)"
  by (auto simp: settled_def set_update_where image_iff)

text \<open>Who a delegation is for and what it may spend.\<close>

definition kin :: "delegation_row \<Rightarrow> string \<times> string \<times> string \<times> int \<times> int" where
  "kin g = (dg_child_run g, dg_parent_run g, dg_root_run g, dg_depth g, dg_max_tool_calls g)"

definition kins :: "db \<Rightarrow> (string \<times> string \<times> string \<times> int \<times> int) list" where
  "kins d = map kin (delegations d)"

lemma kin_upd [simp]:
  "kin (g\<lparr>dg_status := s\<rparr>) = kin g" "kin (g\<lparr>dg_status := s, dg_started := t\<rparr>) = kin g"
  "kin (g\<lparr>dg_status := s, dg_finished := t, dg_terminal := j\<rparr>) = kin g" "kin (terminal_row now run g) = kin g"
  by (simp_all add: kin_def terminal_row_def)

lemma kin_lease: "lease_of g g' \<Longrightarrow> kin g' = kin g"
  by (drule lease_of_same) (simp add: kin_def)

text \<open>
  A lease changes only under a new, greater revision, and a delivered result stays delivered to
  its owner.
\<close>

definition lease_next :: "delegation_row \<Rightarrow> delegation_row \<Rightarrow> bool" where
  "lease_next g g' \<longleftrightarrow>
     (dg_revision g < dg_revision g' \<or>
      (dg_revision g', dg_result_state g', dg_owner g', dg_expires g') =
      (dg_revision g, dg_result_state g, dg_owner g, dg_expires g)) \<and>
     (dg_result_state g = Delivered \<longrightarrow> dg_result_state g' = Delivered \<and> dg_owner g' = dg_owner g)"

lemma lease_next_refl [simp]: "lease_next g g"
  by (simp add: lease_next_def)

lemma lease_next_trans: "lease_next g1 g2 \<Longrightarrow> lease_next g2 g3 \<Longrightarrow> lease_next g1 g3"
  by (auto simp: lease_next_def)

lemma lease_next_upd [simp]:
  "lease_next g (g\<lparr>dg_status := s\<rparr>)" "lease_next g (g\<lparr>dg_status := s, dg_started := t\<rparr>)"
  "lease_next g (g\<lparr>dg_status := s, dg_finished := t, dg_terminal := j\<rparr>)" "lease_next g (terminal_row now run g)"
  by (simp_all add: lease_next_def terminal_row_def)

lemma reserve_lease_next: "reserve_decision t1 t2 t3 t4 ow rv g = Inr g' \<Longrightarrow> lease_next g g'"
  by (auto simp: reserve_decision_def lease_next_def reserve_row_def release_row_def split: if_split_asm)

lemma transition_lease_next: "transition_decision t ow rv target g = Inr g' \<Longrightarrow> lease_next g g'"
  by (auto simp: transition_decision_def lease_next_def deliver_row_def release_row_def split: if_split_asm)

definition row_next :: "delegation_row \<Rightarrow> delegation_row \<Rightarrow> bool" where
  "row_next g g' \<longleftrightarrow> kin g' = kin g \<and> lease_next g g'"

definition rows_le :: "delegation_row list \<Rightarrow> delegation_row list \<Rightarrow> bool" where
  "rows_le gs gs' \<longleftrightarrow> list_all2 row_next gs gs'"

lemma rows_le_refl [simp]: "rows_le gs gs"
  by (simp add: rows_le_def row_next_def list_all2_same)

lemma rows_le_trans: "rows_le gs hs \<Longrightarrow> rows_le hs ks \<Longrightarrow> rows_le gs ks"
  unfolding rows_le_def
  by (rule list_all2_trans [of row_next row_next row_next]) (auto simp: row_next_def intro: lease_next_trans)

lemma rows_le_update [simp]:
  "(\<And>g. g \<in> set gs \<Longrightarrow> p g \<Longrightarrow> row_next g (f g)) \<Longrightarrow> rows_le gs (update_where p f gs)"
  by (auto simp: rows_le_def update_where_def list_all2_map2 list_all2_same row_next_def)

lemma rows_le_kin: "rows_le gs gs' \<Longrightarrow> map kin gs' = map kin gs"
  by (induction gs gs' rule: list_all2_induct [OF rows_le_def [THEN iffD1], consumes 1]) (simp_all add: row_next_def)

text \<open>Rows are never lost; new ones come behind the old ones.\<close>

definition rows_grow :: "delegation_row list \<Rightarrow> delegation_row list \<Rightarrow> bool" where
  "rows_grow gs gs' \<longleftrightarrow> (\<exists>hs ks. gs' = hs @ ks \<and> rows_le gs hs)"

lemma rows_grow_le: "rows_le gs gs' \<Longrightarrow> rows_grow gs gs'"
  unfolding rows_grow_def by (intro exI [of _ gs'] exI [of _ "[]"]) simp

lemma rows_grow_refl [simp]: "rows_grow gs gs"
  by (simp add: rows_grow_le)

lemma rows_grow_append [simp]: "rows_grow gs (gs @ hs)"
  unfolding rows_grow_def by (intro exI [of _ gs] exI [of _ hs]) simp

lemma rows_grow_trans: "rows_grow gs hs \<Longrightarrow> rows_grow hs ks \<Longrightarrow> rows_grow gs ks"
proof -
  assume "rows_grow gs hs" "rows_grow hs ks"
  then obtain g1 g2 h1 h2 where g: "hs = g1 @ g2" "rows_le gs g1" and h: "ks = h1 @ h2" "rows_le (g1 @ g2) h1"
    by (auto simp: rows_grow_def)
  from h(2) obtain a b where "h1 = a @ b" "rows_le g1 a" by (auto simp: rows_le_def list_all2_append1)
  with g(2) h(1) show ?thesis
    unfolding rows_grow_def by (intro exI [of _ a] exI [of _ "b @ h2"]) (auto intro: rows_le_trans)
qed

text \<open>\<open>quiet\<close>: the step leaves tools and lineage alone, and moves leases on.\<close>

definition quiet :: "db \<Rightarrow> db \<Rightarrow> bool" where
  "quiet d d' \<longleftrightarrow> tools d' = tools d \<and> settled (interactions d) (interactions d') \<and> rows_le (delegations d) (delegations d')"

lemma quiet_refl [simp]: "quiet d d"
  by (simp add: quiet_def)

lemma quiet_trans: "quiet d1 d2 \<Longrightarrow> quiet d2 d3 \<Longrightarrow> quiet d1 d3"
  by (auto simp: quiet_def intro: settled_trans rows_le_trans)

lemma quiet_kins: "quiet d d' \<Longrightarrow> kins d' = kins d"
  by (simp add: quiet_def kins_def rows_le_kin)

lemma quiet_insert_event: "insert_event now rid n j d = Inr (s, d') \<Longrightarrow> quiet d d'"
  by (auto simp: quiet_def insert_event_iff frame)

lemma quiet_mark_terminal: "mark_terminal_in now c run d = Inr d' \<Longrightarrow> quiet d d'"
  by (drule mark_terminal_frame) (simp add: quiet_def row_next_def)

lemma quiet_finish: "finish now rid s c e d = Inr (rec, d') \<Longrightarrow> quiet d d'"
proof (erule finish_Inr)
  fix sid s0 t u v
  assume "st d rid = Some (sid, s0)" "finish_with now rid t u v d = Inr (rec, d')"
  from finish_with_effect [OF this(2,1)] show "quiet d d'"
    by (auto simp: quiet_def row_next_def orphan_pending_interactions intro!: settled_update)
qed simp

lemma quiet_reconcile: "reconcile_unknown sha now rid sid n s c ev d = Inr (rec, d') \<Longrightarrow> quiet d d'"
proof -
  assume "reconcile_unknown sha now rid sid n s c ev d = Inr (rec, d')"
  from reconcile_Inr [OF this] have "st d rid = Some (sid, UnknownAfterRestart)"
    "reconcile_with sha now rid n s c ev d = Inr (rec, d')" by simp_all
  from reconcile_with_effect [OF this(2,1)] show ?thesis by (simp add: quiet_def row_next_def)
qed

lemma quiet_start: "try_start_queued now rid d = Inr (x, d') \<Longrightarrow> quiet d d'"
proof (cases x)
  case True
  moreover assume "try_start_queued now rid d = Inr (x, d')"
  ultimately have "try_start_queued now rid d = Inr (True, d')" by simp
  then show ?thesis
    by (rule try_start_True) (use start_run_effect st_find in \<open>fastforce simp: quiet_def row_next_def\<close>)
next
  case False
  moreover assume "try_start_queued now rid d = Inr (x, d')"
  ultimately have "d' = d" by (auto simp: try_start_queued_def result_simps split: option.splits if_split_asm)
  then show ?thesis by simp
qed

lemma quiet_remove: "remove_queued now rid d = Inr (x, d') \<Longrightarrow> quiet d d'"
  by (auto simp: remove_queued_def Let_def result_simps insert_event_iff split: option.splits if_split_asm
      dest!: quiet_mark_terminal) (auto simp: quiet_def frame)

lemma quiet_recover_one: "recover_one now rid d = Inr d' \<Longrightarrow> quiet d d'"
  by (auto simp: recover_one_def Let_def result_simps insert_event_iff dest!: quiet_mark_terminal)
    (auto simp: quiet_def frame)

lemma quiet_recover_all: "recover_all now rids d = Inr d' \<Longrightarrow> quiet d d'"
  by (induction now rids d rule: recover_all.induct)
    (auto simp: result_simps dest!: quiet_recover_one intro: quiet_trans)

lemma quiet_recover: "recover now d = Inr (n, d') \<Longrightarrow> quiet d d'"
  by (auto simp: recover_def Let_def result_simps dest!: quiet_recover_all)
    (auto simp: quiet_def intro: settled_trans [OF _ settled_update])

lemma quiet_append: "append_event now rid n j d = Inr (s, d') \<Longrightarrow> quiet d d'"
proof (erule append_event_Inr)
  fix d1 ap
  assume h: "insert_event now rid n j d = Inr (s, d1)" "open_interaction rid ap d1 = Inr d'"
  have "quiet d1 d'" using h(2) by (auto simp: open_interaction_def result_simps quiet_def frame split: if_split_asm)
  with quiet_insert_event [OF h(1)] show "quiet d d'" by (rule quiet_trans)
qed (simp add: quiet_insert_event)

lemma quiet_claim: "claim_interaction now i sid rid rv a d = Inr (res, d') \<Longrightarrow> quiet d d'"
proof (erule claim_Inr)
  fix r assume r: "find_run d rid = Some r" "run_status r = WaitingInteraction"
    "resolve_interaction now i rid rv a d = Inr d'"
  then have "st d rid = Some (run_session r, WaitingInteraction)" by (simp add: st_find)
  from resolve_effect [OF r(3) this] show "quiet d d'"
    by (auto simp: quiet_def intro!: settled_update)
qed simp

lemma quiet_attempts:
  "start_provider_attempt now a d = Inr d' \<Longrightarrow> quiet d d'"
  "finish_provider_attempt now a d = Inr d' \<Longrightarrow> quiet d d'"
proof -
  have same: "quiet d d'" if "insert_event now rid n j (d\<lparr>attempts := as\<rparr>) = Inr (m, d')" for rid n j as m
    using quiet_insert_event [OF that] by (simp add: quiet_def)
  show "start_provider_attempt now a d = Inr d' \<Longrightarrow> quiet d d'"
    by (auto simp: start_provider_attempt_def result_simps split: if_split_asm dest: same)
  show "finish_provider_attempt now a d = Inr d' \<Longrightarrow> quiet d d'"
    by (auto simp: finish_provider_attempt_def Let_def result_simps split: if_split_asm dest: same)
qed

lemma quiet_admit: "log_ok d \<Longrightarrow> admit_with_route now sid rq i m rt d = Inr (x, d') \<Longrightarrow> quiet d d'"
proof (erule admit_Inr)
  fix rid
  assume "log_ok d" and n: "new_run now sid rq i rt (touch_session sid now d) = Inr (rid, d')"
  then have "log_ok (touch_session sid now d)" using skel_log_ok [of "touch_session sid now d" d] by (simp add: frame)
  from new_run_effect [OF n this] show "quiet d d'" by (simp add: quiet_def frame)
qed simp

lemma quiet_lease:
  assumes w: "with_delegation c decision d = Inr (rec, d')" and ok: "log_ok d"
    and dist: "distinct (map dg_child_run (delegations d))"
    and lease: "\<And>g g'. decision g = Inr g' \<Longrightarrow> lease_of g g' \<and> lease_next g g'"
  shows "quiet d d'"
  using w
proof (rule with_delegation_Inr)
  fix g g' assume g: "find_delegation d c = Some g" "decision g = Inr g'" "d' = set_delegation c (\<lambda>_. g') d"
  have "x = g" if "x \<in> set (delegations d)" "dg_child_run x = c" for x
    using that g(1) dist by (auto simp: find_delegation_def find_key_Some_iff intro: distinct_key_inj [OF dist])
  then have "rows_le (delegations d) (update_where (\<lambda>g. dg_child_run g = c) (\<lambda>_. g') (delegations d))"
    using lease [OF g(2)] kin_lease by (intro rows_le_update) (simp add: row_next_def)
  then show "quiet d d'" by (simp add: quiet_def g(3) frame)
qed

section \<open>Tools and budgets\<close>

text \<open>
  A tool row is filled in step by step: a prepared call has no start and no receipt, a running
  one has a start, a terminal one its start, end, outcome and receipt.
\<close>

definition tool_filled :: "tool_row \<Rightarrow> bool" where
  "tool_filled t \<longleftrightarrow>
     (tl_started t = None) = (tl_status t = Prepared) \<and> (tl_finished t = None) = (tl_status t \<noteq> ToolTerminal) \<and>
     (tl_outcome t = None) = (tl_status t \<noteq> ToolTerminal) \<and> (tl_receipt t = None) = (tl_status t \<noteq> ToolTerminal)"

definition tool_key :: "tool_row \<Rightarrow> string \<times> nat \<times> string" where
  "tool_key t = (tl_run t, tl_round t, tl_call t)"

definition tools_ok :: "db \<Rightarrow> bool" where
  "tools_ok d \<longleftrightarrow> list_all tool_filled (tools d) \<and> distinct (map tool_key (tools d)) \<and>
     (\<forall>t \<in> set (tools d). st d (tl_run t) \<noteq> None)"

text \<open>Delegations: one per child run, within the depth, fan-out and tool limits.\<close>

definition tool_count :: "db \<Rightarrow> string \<Rightarrow> nat" where
  "tool_count d rid = count_where (\<lambda>t. tl_run t = rid) (tools d)"

definition kins_ok :: "db \<Rightarrow> bool" where
  "kins_ok d \<longleftrightarrow> distinct (map fst (kins d)) \<and>
     (\<forall>(c, p, r, dep, m) \<in> set (kins d). 1 \<le> dep \<and> dep \<le> max_depth \<and> c \<noteq> p \<and> int (tool_count d c) \<le> m \<and> st d c \<noteq> None) \<and>
     (\<forall>root. count_where (\<lambda>(c, p, r, dep, m). r = root) (kins d) \<le> max_root_spawns) \<and>
     (\<forall>root. count_where (\<lambda>(c, p, r, dep, m). r = root \<and> \<not> terminal (snd (the (st d c)))) (kins d) \<le> max_root_active)"

definition side_ok :: "db \<Rightarrow> bool" where
  "side_ok d \<longleftrightarrow> status_ok d \<and> tools_ok d \<and> kins_ok d"

lemma moves_st: "moves d d' \<Longrightarrow> st d c \<noteq> None \<Longrightarrow> st d' c \<noteq> None"
  by (fastforce simp: moves_def)

lemma moves_active: "moves d d' \<Longrightarrow> st d c \<noteq> None \<Longrightarrow> \<not> terminal (snd (the (st d' c))) \<Longrightarrow> \<not> terminal (snd (the (st d c)))"
proof -
  assume "moves d d'" "st d c \<noteq> None" "\<not> terminal (snd (the (st d' c)))"
  moreover have "status_edge s t \<Longrightarrow> terminal s \<Longrightarrow> terminal t" for s t
    by (cases s; cases t; simp add: status_edge_def)
  ultimately show ?thesis by (fastforce simp: moves_def)
qed

text \<open>A step that adds no delegation and no tool keeps everything.\<close>

lemma kins_ok_step:
  assumes ok: "kins_ok d" and m: "moves d d'" and k: "kins d' = kins d"
    and t: "\<And>c p r dep m. (c, p, r, dep, m) \<in> set (kins d) \<Longrightarrow> int (tool_count d' c) \<le> m"
  shows "kins_ok d'"
proof -
  have fewer: "count_where (\<lambda>(c, p, r, dep, m). r = root \<and> \<not> terminal (snd (the (st d' c)))) (kins d)
      \<le> count_where (\<lambda>(c, p, r, dep, m). r = root \<and> \<not> terminal (snd (the (st d c)))) (kins d)" for root
    using ok moves_active [OF m] by (intro count_where_le) (fastforce simp: kins_ok_def)
  have "count_where (\<lambda>(c, p, r, dep, m). r = root \<and> \<not> terminal (snd (the (st d' c)))) (kins d) \<le> max_root_active" for root
    using ok fewer [of root] unfolding kins_ok_def by (meson order.trans)
  moreover have "\<forall>(c, p, r, dep, m) \<in> set (kins d). 1 \<le> dep \<and> dep \<le> max_depth \<and> c \<noteq> p \<and> int (tool_count d' c) \<le> m \<and> st d' c \<noteq> None"
    using ok moves_st [OF m] t unfolding kins_ok_def by fastforce
  ultimately show ?thesis using ok by (simp add: kins_ok_def k)
qed

lemma quiet_side_ok:
  assumes ok: "side_ok d" and q: "quiet d d'" and m: "moves d d'" and s: "status_ok d'"
  shows "side_ok d'"
proof -
  have "tools_ok d'"
    using ok q moves_st [OF m] by (auto simp: side_ok_def tools_ok_def quiet_def)
  moreover have "kins_ok d'"
    using ok q quiet_kins [OF q] by (intro kins_ok_step [OF _ m]) (auto simp: side_ok_def quiet_def kins_ok_def tool_count_def)
  ultimately show ?thesis using s by (simp add: side_ok_def)
qed

text \<open>The tool operations.\<close>

lemma st_tools [simp]: "st (d\<lparr>tools := ts\<rparr>) = st d"
  by (rule st_runs) simp

lemma side_okD: "side_ok d \<Longrightarrow> kins_ok d" "side_ok d \<Longrightarrow> tools_ok d" "side_ok d \<Longrightarrow> status_ok d"
  by (simp_all add: side_ok_def)

lemma kins_budget: "kins_ok d \<Longrightarrow> (c, p, r, dep, m) \<in> set (kins d) \<Longrightarrow> int (tool_count d c) \<le> m"
  by (auto simp: kins_ok_def)

lemma insert_tools_effect:
  assumes "insert_tools now rid round calls d = Inr d'" "tools_ok d" "st d rid \<noteq> None"
  shows "\<exists>new. tools d' = tools d @ new \<and> length new = length calls \<and> (\<forall>t \<in> set new. tl_run t = rid) \<and> tools_ok d'"
  using assms
proof (induction now rid round calls d rule: insert_tools.induct)
  case (1 now rid round d)
  then show ?case by simp
next
  case (2 now rid round call effect digest replay calls d)
  let ?t = "\<lparr>tl_id = next_rowid (map tl_id (tools d)), tl_run = rid, tl_round = round,
             tl_call = tc_id call, tl_name = tc_name call, tl_status = Prepared, tl_effect = effect,
             tl_digest = digest, tl_prepared = now, tl_started = None, tl_finished = None,
             tl_outcome = None, tl_artifact = None, tl_replay = replay, tl_receipt = None\<rparr>"
  let ?d = "d\<lparr>tools := tools d @ [?t]\<rparr>"
  have new: "\<not> list_ex (\<lambda>t. tl_run t = rid \<and> tl_round t = round \<and> tl_call t = tc_id call) (tools d)"
      and rest: "insert_tools now rid round calls ?d = Inr d'"
    using "2.prems"(1) by (simp_all split: if_split_asm)
  have st: "st ?d = st d" by simp
  have "tools_ok ?d"
    using "2.prems"(2,3) new unfolding tools_ok_def st
    by (auto simp: tool_key_def list_ex_iff tool_filled_def)
  from "2.IH" [OF new rest this] "2.prems"(3) st
  obtain more where "tools d' = (tools d @ [?t]) @ more" "length more = length calls"
      "\<forall>t \<in> set more. tl_run t = rid" "tools_ok d'" by auto
  then show ?case by (intro exI [of _ "?t # more"]) simp
qed

lemma tool_transition:
  assumes ok: "side_ok d" and ts: "tools d' = update_where (tool_at rid rnd c s) f (tools d)"
    and same: "st d' = st d" "kins d' = kins d" "status_ok d'"
    and f: "\<And>t. tool_key (f t) = tool_key t" "\<And>t. tool_filled t \<Longrightarrow> tl_status t = s \<Longrightarrow> tool_filled (f t)"
  shows "side_ok d'"
proof -
  have k: "map tool_key (tools d') = map tool_key (tools d)"
    unfolding ts by (rule map_update_where) (rule f(1))
  have run: "tl_run (f t) = tl_run t" for t using f(1) [of t] by (simp add: tool_key_def)
  have "tool_count d' c = tool_count d c" for c
    unfolding tool_count_def ts count_where_update by (intro count_where_cong) (simp add: run)
  then have "kins_ok d'"
    using kins_budget [OF side_okD(1) [OF ok]]
    by (intro kins_ok_step [OF side_okD(1) [OF ok] moves_same [OF same(1)] same(2)]) simp
  moreover have "tools_ok d'"
    using ok f(2) unfolding side_ok_def tools_ok_def k same(1)
    by (auto simp: ts set_update_where list_all_iff tool_at_def run)
  ultimately show ?thesis using same(3) by (simp add: side_ok_def)
qed

lemma start_tool_side:
  assumes ok: "side_ok d" and "start_tool now rid rnd c d = Inr d'"
  shows "side_ok d' \<and> tools_le (tools d) (tools d') \<and> delegations d' = delegations d \<and> interactions d' = interactions d"
proof -
  let ?f = "\<lambda>t. t\<lparr>tl_status := ToolRunning, tl_started := Some now\<rparr>"
  have d': "d' = d\<lparr>tools := update_where (tool_at rid rnd c Prepared) ?f (tools d)\<rparr>"
    using assms(2) by (auto simp: start_tool_def split: if_split_asm)
  have "side_ok d'"
  proof (rule tool_transition [OF ok, where f = ?f and s = Prepared])
    show "status_ok d'" using assms by (auto simp: side_ok_def intro: tools_status_ok)
  qed (simp_all add: d' kins_def tool_key_def tool_filled_def)
  moreover have "tools_le (tools d) (tools d')"
    unfolding d' by (simp, rule tools_le_update) (simp add: tool_next_def tool_at_def tool_call_of_def tool_rank_def)
  ultimately show ?thesis by (simp add: d' kins_def)
qed

lemma finish_tool_side:
  assumes ok: "side_ok d" and "finish_tool now rid rnd c out art rc d = Inr d'"
  shows "side_ok d' \<and> tools_le (tools d) (tools d') \<and> delegations d' = delegations d \<and> interactions d' = interactions d"
proof -
  let ?f = "\<lambda>t. t\<lparr>tl_status := ToolTerminal, tl_finished := Some now, tl_outcome := Some out,
                    tl_artifact := art, tl_receipt := Some rc\<rparr>"
  have d': "d' = d\<lparr>tools := update_where (tool_at rid rnd c ToolRunning) ?f (tools d)\<rparr>"
    using assms(2) by (auto simp: finish_tool_def split: if_split_asm)
  have "side_ok d'"
  proof (rule tool_transition [OF ok, where f = ?f and s = ToolRunning])
    show "status_ok d'" using assms by (auto simp: side_ok_def intro: tools_status_ok)
  qed (simp_all add: d' kins_def tool_key_def tool_filled_def)
  moreover have "tools_le (tools d) (tools d')"
    unfolding d' by (simp, rule tools_le_update) (simp add: tool_next_def tool_at_def tool_call_of_def tool_rank_def)
  ultimately show ?thesis by (simp add: d' kins_def)
qed

lemma prepare_side:
  assumes ok: "side_ok d" and p: "prepare_tool_batch now rid rnd cs d = Inr d'"
  shows "side_ok d' \<and> tools_le (tools d) (tools d') \<and> delegations d' = delegations d \<and> interactions d' = interactions d"
proof -
  obtain r d1 n j where r: "find_run d rid = Some r"
      and i: "insert_tools now rid rnd cs d = Inr d1"
      and ev: "insert_event now rid ''tool_batch_prepared'' j d1 = Inr (n, d')"
      and budget: "\<And>g. find_delegation d rid = Some g \<Longrightarrow> int (tool_count d rid) + int (length cs) \<le> dg_max_tool_calls g"
    using p by (auto simp: prepare_tool_batch_def result_simps tool_count_def not_less split: if_split_asm option.splits)
  have "st d rid \<noteq> None" using st_find [OF r] by simp
  then obtain new where new: "tools d1 = tools d @ new" "length new = length cs" "\<forall>t \<in> set new. tl_run t = rid" "tools_ok d1"
    using insert_tools_effect [OF i] ok by (auto simp: side_ok_def)
  note fr = insert_tools_frame [OF i]
  have st1: "st d1 = st d" using fr by (intro st_runs) simp
  have st': "st d' = st d" using st_insert_event [OF ev] st1 by simp
  have q: "quiet d1 d'" by (rule quiet_insert_event [OF ev])
  have k: "kins d' = kins d" using quiet_kins [OF q] fr by (simp add: kins_def)
  have "int (tool_count d' c) \<le> m" if c: "(c, p, r, dep, m) \<in> set (kins d)" for c p r dep m
  proof (cases "c = rid")
    case False
    then have "tool_count d' c = tool_count d c"
      using q new by (auto simp: quiet_def tool_count_def count_where_append count_where_0_iff)
    then show ?thesis using ok c by (auto simp: side_ok_def kins_ok_def)
  next
    case True
    have dist: "distinct (map dg_child_run (delegations d))"
      using ok by (auto simp: side_ok_def kins_ok_def kins_def comp_def kin_def)
    obtain g where g: "g \<in> set (delegations d)" "dg_child_run g = rid" "dg_max_tool_calls g = m"
      using c True by (auto simp: kins_def kin_def)
    then have "find_delegation d rid = Some g"
      using dist by (simp add: find_delegation_def find_key_Some_iff)
    from budget [OF this] have "int (tool_count d rid) + int (length cs) \<le> m" using g(3) by simp
    moreover have "tool_count d' rid = tool_count d rid + length cs"
      using q new by (simp add: quiet_def tool_count_def count_where_append) (simp add: count_where_def)
    ultimately show ?thesis using True by simp
  qed
  then have "kins_ok d'"
    by (rule kins_ok_step [OF side_okD(1) [OF ok] moves_same [OF st'] k])
  moreover have "tools_ok d'" using new(4) q st' st1 by (simp add: tools_ok_def quiet_def)
  moreover have "status_ok d'" using ok p by (auto simp: side_ok_def intro: tools_status_ok)
  moreover have "interactions d' = interactions d" using ev fr by (auto simp: insert_event_iff frame)
  moreover have "delegations d' = delegations d" using ev fr by (auto simp: insert_event_iff frame)
  moreover have "tools_le (tools d) (tools d')" using q new(1) by (simp add: quiet_def tools_le_append)
  ultimately show ?thesis by (simp add: side_ok_def)
qed

section \<open>Delegations\<close>

lemma terminal_visible [simp]: "terminal (visible s) = terminal s"
  by (cases s) (simp_all add: visible_def)

lemma root_counts:
  assumes "status_ok d"
  shows "root_total d root = count_where (\<lambda>(c, p, r, dep, m). r = root) (kins d)"
    and "root_active d root =
      count_where (\<lambda>(c, p, r, dep, m). r = root \<and> \<not> terminal (snd (the (st d c)))) (kins d)"
proof -
  have "terminal (dg_status g) = terminal (snd (the (st d (dg_child_run g))))" if "g \<in> set (delegations d)" for g
  proof -
    have "map_option (visible \<circ> snd) (st d (dg_child_run g)) = Some (dg_status g)"
      using assms that by (simp add: status_ok_def rows_ok_def mirrors_def)
    then obtain a b where "st d (dg_child_run g) = Some (a, b)" "dg_status g = visible b" by auto
    then show ?thesis by simp
  qed
  then show "root_active d root =
      count_where (\<lambda>(c, p, r, dep, m). r = root \<and> \<not> terminal (snd (the (st d c)))) (kins d)"
    unfolding root_active_def kins_def count_where_def filter_map length_map
    by (intro arg_cong [where f = length] filter_cong) (auto simp: kin_def)
  show "root_total d root = count_where (\<lambda>(c, p, r, dep, m). r = root) (kins d)"
    unfolding root_total_def kins_def count_where_def filter_map length_map
    by (intro arg_cong [where f = length] filter_cong) (auto simp: kin_def)
qed

lemma lineage_depth:
  assumes "kins_ok d"
  shows "1 \<le> snd (snd (lineage d parent))"
proof (cases "find_delegation d (rec_run parent)")
  case (Some g)
  then have "kin g \<in> set (kins d)" by (auto simp: kins_def find_delegation_def dest: find_key_SomeD)
  then have "1 \<le> dg_depth g" using assms by (auto simp: kins_ok_def kin_def)
  then show ?thesis by (simp add: lineage_def Some)
qed (simp add: lineage_def)

lemma delegate_side:
  assumes ok: "side_ok d" and dl: "admit_delegation now q d = Inr (rec, d')"
  shows "side_ok d' \<and> tools d' = tools d \<and> rows_grow (delegations d) (delegations d') \<and> interactions d' = interactions d"
  using dl
proof (cases rule: delegate_Inr)
  case old
  then show ?thesis using ok by simp
next
  case (new parent)
  let ?l = "lineage d parent"
  note sok = side_okD [OF ok]
  have log: "log_ok d" using sok(3) by (simp add: status_ok_def)
  obtain c where c: "st d c = None" "st d' = (st d)(c \<mapsto> (rq_child_session q, Queued))" "interactions d' = interactions d"
      "tools d' = tools d" "delegations d' = delegations d @ [delegation_of now q ?l c d]"
    using new(10) log by (rule spawn_child_effect) blast
  have k: "kins d' = kins d @ [(c, rq_parent_run q, fst (snd ?l), snd (snd ?l), rq_max_tool_calls q)]"
    by (simp add: kins_def c(5)) (simp add: kin_def)
  have par: "st d (rq_parent_run q) \<noteq> None" using read_run_st [OF new(2)] by simp
  have none: "tool_count d' c = 0"
    using sok(2) c(1) by (auto simp: tool_count_def c(4) count_where_0_iff tools_ok_def)
  have old: "tool_count d' x = tool_count d x" for x by (simp add: tool_count_def c(4))
  have fresh: "c \<notin> fst ` set (kins d)" using sok(1) c(1) by (auto simp: kins_ok_def)
  have tot: "count_where (\<lambda>(c, p, r, dep, m). r = root) (kins d') \<le> max_root_spawns" for root
    using sok(1) new(8) by (auto simp: k count_where_append count_where_Cons root_counts [OF sok(3)] kins_ok_def)
  have same: "count_where (\<lambda>(c, p, r, dep, m). r = root \<and> \<not> terminal (snd (the (st d' c)))) (kins d) =
      count_where (\<lambda>(c, p, r, dep, m). r = root \<and> \<not> terminal (snd (the (st d c)))) (kins d)" for root
    using fresh by (intro count_where_cong) (force simp: c(2))
  have act: "count_where (\<lambda>(c, p, r, dep, m). r = root \<and> \<not> terminal (snd (the (st d' c)))) (kins d') \<le> max_root_active" for root
    using sok(1) new(9) same [of root]
    by (auto simp: k count_where_append count_where_Cons root_counts [OF sok(3)] kins_ok_def)
  have each: "\<forall>(c, p, r, dep, m) \<in> set (kins d'). 1 \<le> dep \<and> dep \<le> max_depth \<and> c \<noteq> p \<and> int (tool_count d' c) \<le> m \<and> st d' c \<noteq> None"
    using sok(1) new(1,7) lineage_depth [OF sok(1), of parent] par none c(1)
    by (auto simp: k kins_ok_def old c(2) request_valid_def)
  have "kins_ok d'"
    using sok(1) fresh tot act each unfolding kins_ok_def by (simp add: k)
  moreover have "tools_ok d'" using sok(2) by (auto simp: tools_ok_def c(2,4))
  moreover have "status_ok d'" using sok(3) dl by (rule delegate_status_ok)
  ultimately show ?thesis by (simp add: side_ok_def c k)
qed

section \<open>Every operation\<close>

text \<open>What may change between two databases of the daemon, in the side tables.\<close>

definition side_le :: "db \<Rightarrow> db \<Rightarrow> bool" where
  "side_le d d' \<longleftrightarrow> tools_le (tools d) (tools d') \<and> settled (interactions d) (interactions d') \<and>
     rows_grow (delegations d) (delegations d') \<and>
     (\<forall>rid. map_option fst (st d rid) = None \<or> map_option fst (st d' rid) = map_option fst (st d rid))"

lemma side_le_refl: "side_le d d"
  by (simp add: side_le_def)

lemma side_le_trans: "side_le a b \<Longrightarrow> side_le b c \<Longrightarrow> side_le a c"
  unfolding side_le_def by (metis tools_le_trans settled_trans rows_grow_trans)

lemma moves_session: "moves d d' \<Longrightarrow> map_option fst (st d rid) = None \<or> map_option fst (st d' rid) = map_option fst (st d rid)"
  by (cases "st d rid") (fastforce simp: moves_def)+

lemma quiet_le: "side_ok d \<Longrightarrow> quiet d d' \<Longrightarrow> moves d d' \<Longrightarrow> status_ok d' \<Longrightarrow> side_ok d' \<and> side_le d d'"
  using moves_session by (auto simp: side_le_def quiet_def intro: quiet_side_ok rows_grow_le)

lemma store_quiet:
  assumes ok: "side_ok d" and op: "case op of OpPrepareTools _ _ _ _ \<Rightarrow> False | OpStartTool _ _ _ _ \<Rightarrow> False
      | OpFinishTool _ _ _ _ _ _ _ \<Rightarrow> False | OpDelegate _ _ \<Rightarrow> False | _ \<Rightarrow> True"
  shows "quiet d (store_step sha d op)"
proof -
  have "distinct (map dg_child_run (delegations d))" and "log_ok d"
    using ok by (auto simp: side_ok_def kins_ok_def kins_def comp_def kin_def status_ok_def)
  then have lease: "with_delegation c dec d = Inr (rec, d') \<Longrightarrow> (\<And>g g'. dec g = Inr g' \<Longrightarrow> lease_of g g') \<Longrightarrow>
      (\<And>g g'. dec g = Inr g' \<Longrightarrow> lease_next g g') \<Longrightarrow> quiet d d'"
    for c dec rec d' using quiet_lease by blast
  have batch: "finish_tool_batch now rid rnd d = Inr d' \<Longrightarrow> quiet d d'" for now rid rnd d'
    by (auto simp: finish_tool_batch_def result_simps split: if_split_asm dest: quiet_insert_event)
  show ?thesis
    using op
    by (cases op)
      (auto simp: committed_def committed_unit_def reserve_delegation_result_def release_delegation_result_def
        deliver_delegation_result_def intro: batch quiet_finish quiet_reconcile quiet_start quiet_remove quiet_recover
        quiet_append quiet_claim quiet_attempts quiet_admit [OF \<open>log_ok d\<close>] lease [OF _ reserve_lease reserve_lease_next]
        lease [OF _ transition_lease transition_lease_next] split: sum.splits)
qed

lemma daemon_side: "side_ok d \<Longrightarrow> side_ok (daemon_step sha d op) \<and> side_le d (daemon_step sha d op)"
proof -
  assume ok: "side_ok d"
  note m = daemon_moves [OF side_okD(3) [OF ok], of sha op]
  note s = daemon_status_ok [OF side_okD(3) [OF ok], of sha op]
  show ?thesis
  proof (cases "allowed d op")
    case False
    then show ?thesis using ok by (simp add: daemon_step_def side_le_refl)
  next
    case True
    then have step: "daemon_step sha d op = store_step sha d op" by (simp add: daemon_step_def)
    show ?thesis
    proof (cases "case op of OpPrepareTools _ _ _ _ \<Rightarrow> False | OpStartTool _ _ _ _ \<Rightarrow> False
      | OpFinishTool _ _ _ _ _ _ _ \<Rightarrow> False | OpDelegate _ _ \<Rightarrow> False | _ \<Rightarrow> True")
      case True
      then show ?thesis using quiet_le [OF ok _ m s] store_quiet [OF ok True] by (simp add: step)
    next
      case False
      then have "side_ok (store_step sha d op) \<and> tools_le (tools d) (tools (store_step sha d op)) \<and>
          rows_grow (delegations d) (delegations (store_step sha d op)) \<and> interactions (store_step sha d op) = interactions d"
        using ok by (cases op) (auto simp: committed_def committed_unit_def split: sum.splits
            dest: start_tool_side finish_tool_side prepare_side delegate_side)
      then show ?thesis using moves_session [OF m] by (simp add: step side_le_def)
    qed
  qed
qed

lemma empty_side_ok: "side_ok empty_db"
  by (simp add: side_ok_def empty_status_ok) (simp add: tools_ok_def kins_ok_def kins_def empty_db_def)

interpretation side: progress_machine "daemon_step sha" side_ok side_le
  using daemon_side by unfold_locales (auto intro: side_le_refl side_le_trans)

lemma daemon_side_ok: "side_ok (daemon_run sha ops)"
  by (rule side.run_inv [OF empty_side_ok])

end
