(* ===== verification/Store_Results.thy ===== *)
theory Store_Results
  imports Store_Side
begin

text \<open>
  What the callers of the store get back, stated on every database the daemon can build: the
  outcome of finishing a run, the answer to an approval, tool receipts, the limits on
  delegated runs and the repair after a restart.
\<close>

section \<open>Reads and terminal writes do not fail\<close>

lemma read_run_total:
  assumes "log_ok d" "find_run d rid = Some r"
  shows "read_run_in d rid = Inr (Some (record_of_run (turn_key (run_rowid r)) r))"
proof -
  have "run_id r = run_key (run_rowid r)" "run_rowid r < 2 ^ 63" "run_id r = rid"
    using assms find_run_id [OF assms(2)] by (auto simp: log_ok_def ids_ok_def)
  then have "rowid_of_run rid = Some (int (run_rowid r))" using rowid_of_run_key by metis
  then show ?thesis using assms(2) by (simp add: read_run_in_def turn_key_def dec_int_def)
qed

lemma read_run_in_Some:
  "read_run_in d rid = Inr (Some rec) \<Longrightarrow> \<exists>r. find_run d rid = Some r \<and> rec_run rec = rid \<and> rec_status rec = run_status r"
  by (auto simp: read_run_in_def split: option.splits dest: find_run_id)

lemma find_run_st: "find_run d rid = None \<longleftrightarrow> st d rid = None"
  by (simp add: st_def)

lemma read_run_any: "log_ok d \<Longrightarrow> \<exists>p. read_run_in d rid = Inr p"
  by (cases "find_run d rid") (auto simp: read_run_total, simp add: read_run_in_def)

lemma insert_event_total: "find_run d rid \<noteq> None \<Longrightarrow> \<exists>n d'. insert_event now rid name j d = Inr (n, d')"
  using insert_event_iff by blast

lemma mark_terminal_total:
  assumes "log_ok d"
  shows "\<exists>d'. mark_terminal_in now c run d = Inr d'"
proof (cases "find_delegation d c")
  case (Some g)
  let ?d = "set_delegation c (\<lambda>g. g\<lparr>dg_status := rec_status run, dg_finished := Some now,
                    dg_terminal := Some (run_terminal_json run)\<rparr>) d"
  have "log_ok ?d" using assms skel_log_ok [of ?d d] by (simp add: frame)
  then obtain p where p: "read_run_in ?d (dg_parent_run g) = Inr p" using read_run_any by blast
  have "find_run ?d (rec_run q) \<noteq> None" if "p = Some q" for q
    using p that by (auto dest!: read_run_in_Some)
  then have ev: "\<exists>n d'. insert_event now (rec_run q) ''delegation_terminal'' j ?d = Inr (n, d')" if "p = Some q" for q j
    using that insert_event_total by blast
  show ?thesis
  proof (cases p)
    case None
    then show ?thesis using Some p by (simp add: mark_terminal_in_def Let_def)
  next
    case q: (Some q)
    show ?thesis
    proof (cases "terminal (rec_status q)")
      case True
      then show ?thesis using Some p q by (simp add: mark_terminal_in_def Let_def)
    next
      case False
      let ?j = "JObj [(''child_run_id'', JStr c), (''status'', jstatus (rec_status run)),
          (''summary'', JStr (take_chars 512 (case rec_content run of None \<Rightarrow> [] | Some c \<Rightarrow> c)))]"
      obtain n d' where "insert_event now (rec_run q) ''delegation_terminal'' ?j ?d = Inr (n, d')"
        using ev [OF q, of ?j] by blast
      then show ?thesis using Some p q False by (simp add: mark_terminal_in_def Let_def)
    qed
  qed
qed (simp add: mark_terminal_in_def)

lemma mark_terminal_self:
  assumes m: "mark_terminal_in now c run d = Inr d'" and r: "find_run d rid = Some r" "terminal (run_status r)"
  shows "find_run d' rid = Some r"
proof (cases "find_delegation d c")
  case None
  then show ?thesis using m r by (simp add: mark_terminal_in_def)
next
  case (Some g)
  let ?d = "set_delegation c (\<lambda>g. g\<lparr>dg_status := rec_status run, dg_finished := Some now,
                    dg_terminal := Some (run_terminal_json run)\<rparr>) d"
  obtain p where p: "read_run_in ?d (dg_parent_run g) = Inr p"
    using m Some by (auto simp: mark_terminal_in_def Let_def result_simps)
  have "rec_run q \<noteq> rid \<or> terminal (rec_status q)" if "p = Some q" for q
    using p that r by (auto simp: frame dest!: read_run_in_Some)
  then show ?thesis
    using m Some p r find_run_id [OF r(1)]
    by (cases p) (auto simp: mark_terminal_in_def Let_def result_simps insert_event_iff frame
        split: if_split_asm)
qed

lemma log_content_total:
  "find_run d rid \<noteq> None \<Longrightarrow> \<exists>d'. log_content now rid j d = Inr d'"
proof (cases j)
  case (Some x)
  assume "find_run d rid \<noteq> None"
  from insert_event_total [OF this] obtain n d' where "insert_event now rid ''assistant_content'' x d = Inr (n, d')" by blast
  then show ?thesis by (simp add: log_content_def Some)
qed (simp add: log_content_def)

text \<open>The row \<open>finish\<close> leaves behind.\<close>

lemma finish_with_row:
  assumes ok: "log_ok d" and r: "find_run d rid = Some r" and s: "terminal s"
  shows "\<exists>rec d' r'. finish_with now rid s c e d = Inr (rec, d') \<and> find_run d' rid = Some r' \<and>
    rec = record_of_run (turn_key (run_rowid r')) r' \<and> run_status r' = s \<and> run_content r' = c \<and>
    run_error_code r' = map_option fst e \<and> run_error_message r' = map_option snd e"
proof -
  let ?j = "map_option (\<lambda>c. JObj [(''content'', JStr c)]) c"
  obtain d1 where d1: "log_content now rid ?j d = Inr d1"
    using log_content_total [of d rid now ?j] r by auto
  have st1: "st d1 = st d" using log_content_frame [OF d1] by simp
  have f1: "find_run d1 rid \<noteq> None" using st1 st_find [OF r] by (simp add: find_run_st)
  let ?k = "JObj [(''status'', jstatus s), (''error_code'', json_opt JInt (map_option fst e)),
              (''error_message'', json_opt JStr (map_option snd e)),
              (''provider_error_kind'', json_opt kind_json (if s = RFailed then last_attempt_kind d1 rid else None))]"
  obtain n d2 where d2: "insert_event now rid ''terminal'' ?k d1 = Inr (n, d2)"
    using insert_event_total [OF f1] by blast
  let ?d3 = "orphan_pending rid (write_terminal now rid s c e d2)"
  have "log_ok d2" using log_content_log_step [OF d1] log_step_insert [OF d2] ok by (simp add: log_step_def)
  then have ok3: "log_ok ?d3" using skel_log_ok [of ?d3 d2] by (simp add: frame)
  have "find_run d2 rid \<noteq> None" using st_insert_event [OF d2] st1 st_find [OF r] by (simp add: find_run_st)
  then obtain r3 where r3: "find_run ?d3 rid = Some r3" "run_status r3 = s" "run_content r3 = c"
      "run_error_code r3 = map_option fst e" "run_error_message r3 = map_option snd e"
    by (fastforce simp: write_terminal_def frame dest: find_run_id)
  let ?rec = "record_of_run (turn_key (run_rowid r3)) r3"
  obtain d' where d': "mark_terminal_in now rid ?rec ?d3 = Inr d'" using mark_terminal_total [OF ok3] by blast
  have "finish_with now rid s c e d = Inr (?rec, d')"
    using d1 d2 d' read_run_total [OF ok3 r3(1)] by (simp add: finish_with_def Let_def read_run_or_def)
  moreover have "find_run d' rid = Some r3"
    by (rule mark_terminal_self [OF d' r3(1)]) (simp add: r3(2) s)
  ultimately show ?thesis using r3 by blast
qed

text \<open>
  Finishing a run. On a run that has not ended \<open>finish\<close> always succeeds. The status it
  records is the one asked for, except that it is \<open>unknown_after_restart\<close> when a tool of the
  run is not terminal or the run is cancelled after a side effect was started; content is kept
  only for a completed run. From then on the run's outcome is fixed: the same outcome is
  accepted again and answered with the same record, without a change, and every other one is a
  conflict.
\<close>

theorem finish_outcome:
  assumes "st (daemon_run sha ops) rid = Some (sid, s0)" "\<not> terminal s0" "terminal s"
  shows "let d = daemon_run sha ops; t = effective_status d rid s;
             content = (if t = Completed then c else None);
             err = (if t = UnknownAfterRestart then Some (- 32002, msg_unknown) else e) in
    \<exists>rec d'. finish now rid s c e d = Inr (rec, d') \<and> rec_status rec = t \<and> rec_content rec = content \<and>
      st d' = (st d)(rid \<mapsto> (sid, t)) \<and>
      \<not> list_ex (\<lambda>x. in_run x = rid \<and> in_status x = Pending) (interactions d') \<and>
      (\<forall>now' s' c' e'. finish now' rid s' c' e' d' =
        (if \<not> terminal s' then Inl (ProtocolE NotTerminal)
         else if s' = t \<and> c' = content \<and> map_option fst e' = map_option fst err \<and>
                 map_option snd e' = map_option snd err then Inr (rec, d')
         else Inl (ProtocolE TerminalConflict)))"
proof -
  define d where "d = daemon_run sha ops"
  define t where "t = effective_status d rid s"
  define ct where "ct = (if t = Completed then c else None)"
  define err where "err = (if t = UnknownAfterRestart then Some (- 32002, msg_unknown) else e)"
  have ok: "log_ok d" using daemon_run_ok [of sha ops] by (simp add: status_ok_def d_def)
  obtain r where r: "find_run d rid = Some r" "run_session r = sid" "run_status r = s0"
    using assms(1) by (auto simp: d_def st_def)
  have t: "terminal t" unfolding t_def using assms(3) by (rule effective_terminal)
  obtain rec d' r' where f: "finish_with now rid t ct err d = Inr (rec, d')" "find_run d' rid = Some r'"
      "rec = record_of_run (turn_key (run_rowid r')) r'" "run_status r' = t" "run_content r' = ct"
      "run_error_code r' = map_option fst err" "run_error_message r' = map_option snd err"
    using finish_with_row [OF ok r(1) t] by blast
  have fin: "finish now rid s c e d = Inr (rec, d')"
    using f(1) read_run_total [OF ok r(1)] assms(2,3) r(3)
    by (simp add: finish_def read_run_or_def Let_def t_def ct_def err_def)
  note eff = finish_with_effect [OF f(1) assms(1) [folded d_def]]
  have "log_ok d'" using finish_log_step [OF fin] ok by (simp add: log_step_def)
  from read_run_total [OF this f(2)]
  have again: "finish now' rid s' c' e' d' =
        (if \<not> terminal s' then Inl (ProtocolE NotTerminal)
         else if s' = t \<and> c' = ct \<and> map_option fst e' = map_option fst err \<and>
                 map_option snd e' = map_option snd err then Inr (rec, d')
         else Inl (ProtocolE TerminalConflict))" for now' s' c' e'
    using t f by (auto simp: finish_def read_run_or_def)
  have "\<not> list_ex (\<lambda>x. in_run x = rid \<and> in_status x = Pending) (interactions d')"
    using eff orphaned_pending(1) by (auto simp: list_ex_iff)
  with fin eff again f show ?thesis
    unfolding Let_def d_def [symmetric] t_def [symmetric] ct_def [symmetric] err_def [symmetric]
    by (intro exI [of _ rec] exI [of _ d']) simp
qed

definition run_with_tool :: "store_op list" where
  "run_with_tool = [OpAdmit 5 ''s'' (RNumber 1) ''hi'' Queue None, OpStart 6 (run_key 1),
     OpPrepareTools 7 (run_key 1) 0
       [(\<lparr>tc_id = ''c'', tc_name = ''write'', tc_arguments = JNull\<rparr>, ''write'', ''d'', False)]]"

theorem finish_outcome_witness:
  "effective_status (daemon_run id run_with_tool) (run_key 1) Completed = UnknownAfterRestart \<and>
   (\<exists>rec d'. finish 9 (run_key 1) Completed (Some ''yo'') None (daemon_run id run_with_tool) = Inr (rec, d') \<and>
      rec_status rec = UnknownAfterRestart \<and>
      finish 10 (run_key 1) Completed (Some ''yo'') None d' = Inl (ProtocolE TerminalConflict))"
proof -
  have st: "st (daemon_run id run_with_tool) (run_key 1) = Some (''s'', Running)"
    by (simp add: run_with_tool_def daemon_step_def st_def store_eval)
  have t: "effective_status (daemon_run id run_with_tool) (run_key 1) Completed = UnknownAfterRestart"
    by (simp add: run_with_tool_def daemon_step_def store_eval)
  show ?thesis
    using finish_outcome [where s = Completed and c = "Some ''yo''" and e = None and now = 9, OF st] t
    unfolding Let_def by fastforce
qed

section \<open>Approvals\<close>

lemma claim_result:
  assumes "claim_interaction now i sid rid rv a d = Inr (res, d')" "pending_ok d"
  shows "read_interaction d' i = Some res \<and> ir_session res = sid \<and> ir_run res = rid \<and>
    (ir_status res = Answered \<or> ir_status res = Rejected) \<and> ir_response res = Some (approved_json a)"
  using assms(1)
proof (cases rule: claim_Inr)
  case same
  then show ?thesis by simp
next
  case (resolved cur r)
  have dist: "distinct (map in_id (interactions d))" using assms(2) by (simp add: pending_ok_def)
  note eff = resolve_effect [OF resolved(8) st_find [OF resolved(6), unfolded resolved(7)]]
  obtain x where x: "find_key in_id i (interactions d) = Some x" "in_run x = rid" "in_status x = Pending"
    using resolved(1,3,4) by (auto simp: read_interaction_def bind_eq_Some_conv)
  have "find_key in_id i (interactions d') = Some (answer_row a x)"
    using x eff by (simp add: find_key_update_where) (auto dest: find_key_SomeD)
  then have "ir_run res = rid \<and> (ir_status res = Answered \<or> ir_status res = Rejected) \<and>
      ir_response res = Some (approved_json a)"
    using resolved(9) x(2) by (cases a) (auto simp: read_interaction_def)
  moreover have "st d rid = Some (sid, WaitingInteraction)"
    using read_interaction_row [OF resolved(1)] resolved(2,3) st_find [OF resolved(6)] resolved(7) by fastforce
  moreover obtain t where "st d' (ir_run res) = Some (ir_session res, t)"
    using read_interaction_row [OF resolved(9)] by blast
  ultimately have "ir_session res = sid \<and> ir_run res = rid \<and> (ir_status res = Answered \<or> ir_status res = Rejected) \<and>
      ir_response res = Some (approved_json a)"
    using eff resolved(2) st_find [OF resolved(6)] by (auto split: if_split_asm)
  then show ?thesis using resolved(9) by blast
qed

lemma read_interaction_later:
  assumes "side_ok d" "side_ok d'" "side_le d d'" "read_interaction d i = Some res" "ir_status res \<noteq> Pending"
  shows "read_interaction d' i = Some res"
proof -
  obtain x r where x: "find_key in_id i (interactions d) = Some x" "find_run d (in_run x) = Some r"
      "res = \<lparr>ir_id = i, ir_session = run_session r, ir_run = in_run x, ir_kind = in_kind x,
               ir_status = in_status x, ir_revision = in_revision x, ir_prompt = in_prompt x,
               ir_payload = in_payload x, ir_response = in_response x\<rparr>"
    using assms(4) by (auto simp: read_interaction_def bind_eq_Some_conv)
  have "x \<in> set (interactions d')" "in_id x = i"
    using x assms(3,5) find_key_SomeD [OF x(1)] by (auto simp: side_le_def settled_def)
  moreover have "distinct (map in_id (interactions d'))"
    using assms(2) by (simp add: side_ok_def status_ok_def pending_ok_def)
  ultimately have f: "find_key in_id i (interactions d') = Some x" by (simp add: find_key_Some_iff)
  have "map_option fst (st d' (in_run x)) = Some (run_session r)"
    using assms(3) st_find [OF x(2)] unfolding side_le_def by (metis option.simps(9) fst_conv option.distinct(1))
  then show ?thesis using f x(3) by (auto simp: read_interaction_def st_def)
qed

text \<open>
  An approval is answered once. After one claim of an interaction succeeded, whatever the
  daemon does next, a repeated claim with the same answer returns the very same record and
  changes nothing, and a claim with the other answer is refused.
\<close>

theorem claim_exactly_once:
  assumes "claim_interaction now i sid rid rv a (daemon_run sha ops) = Inr (res, d')"
  shows "let d2 = foldl (daemon_step sha) d' ops' in
    claim_interaction now2 i sid rid rv2 b d2 = (if b = a then Inr (res, d2) else Inl (ProtocolE InteractionConflict))"
proof -
  define d2 where "d2 = foldl (daemon_step sha) d' ops'"
  have "daemon_run sha (ops @ [OpClaim now i sid rid rv a]) = d'"
    using assms by (simp add: daemon_step_def committed_def)
  then have ok: "side_ok d'" using daemon_side_ok [of sha "ops @ [OpClaim now i sid rid rv a]"] by (simp only:)
  have "pending_ok (daemon_run sha ops)" using daemon_run_ok [of sha ops] by (simp add: status_ok_def)
  note res = claim_result [OF assms this]
  have "read_interaction d2 i = Some res"
    unfolding d2_def
    by (rule read_interaction_later [OF ok side.run_inv [OF ok] side.run_le [OF ok]]) (use res in auto)
  then have "claim_interaction now2 i sid rid rv2 b d2 = (if b = a then Inr (res, d2) else Inl (ProtocolE InteractionConflict))"
    using res by (auto simp: claim_interaction_def approved_json_def)
  then show ?thesis by (simp add: d2_def Let_def)
qed

definition asking :: "store_op list" where
  "asking = [OpAdmit 5 ''s'' (RNumber 1) ''hi'' Queue None, OpStart 6 (run_key 1),
     OpAppend 7 (run_key 1) ''approval_required'' (JObj [(''approval'', JObj [(''id'', JStr ''i'')])])]"

theorem claim_exactly_once_witness:
  "\<exists>res d'. claim_interaction 8 ''i'' ''s'' (run_key 1) 0 True (daemon_run id asking) = Inr (res, d') \<and>
     claim_interaction 9 ''i'' ''s'' (run_key 1) 0 True d' = Inr (res, d') \<and>
     claim_interaction 9 ''i'' ''s'' (run_key 1) 0 False d' = Inl (ProtocolE InteractionConflict)"
proof -
  have "\<exists>res d'. claim_interaction 8 ''i'' ''s'' (run_key 1) 0 True (daemon_run id asking) = Inr (res, d')"
    by (simp add: asking_def daemon_step_def asks_approval_def store_eval)
  then obtain res d' where c: "claim_interaction 8 ''i'' ''s'' (run_key 1) 0 True (daemon_run id asking) = Inr (res, d')"
    by blast
  show ?thesis
    using c claim_exactly_once [OF c, of "[]" 9 0 True] claim_exactly_once [OF c, of "[]" 9 0 False]
    by (simp add: Let_def)
qed

text \<open>
  \<open>append_event\<close> does not look at the run. An approval event logged for a run that has
  already ended sets the run back to waiting for an answer: the write of the status has no
  condition on the present status, unlike every other one, so the callers alone keep a
  finished run finished.
\<close>

theorem append_event_reopens:
  assumes "find_run d rid = Some r" "json_get ''approval'' j = Some ap" "json_get ''id'' ap = Some (JStr i)"
    and "i \<notin> in_id ` set (interactions d)"
  shows "st (store_step sha d (OpAppend now rid ''approval_required'' j)) rid = Some (run_session r, WaitingInteraction)"
proof -
  obtain n d1 where ev: "insert_event now rid ''approval_required'' j d = Inr (n, d1)"
    using insert_event_total assms(1) by blast
  have st1: "st d1 rid = Some (run_session r, run_status r)" using st_insert_event [OF ev] st_find [OF assms(1)] by simp
  have "interactions d1 = interactions d" using ev by (auto simp: insert_event_iff frame)
  then have o1: "open_interaction rid ap d1 \<noteq> Inl e" for e
    using assms(3,4) by (simp add: open_interaction_def json_index_def json_str_def)
  then obtain d2 where o2: "open_interaction rid ap d1 = Inr d2" by (cases "open_interaction rid ap d1") auto
  then show ?thesis
    using ev assms(2) open_interaction_effect [OF o2 st1] by (simp add: append_event_def committed_def)
qed

theorem append_event_reopens_witness:
  "let d = foldl (store_step id) empty_db sample_ops in
     st d (run_key 1) = Some (''s'', Completed) \<and>
     st (store_step id d (OpAppend 9 (run_key 1) ''approval_required'' (JObj [(''approval'', JObj [(''id'', JStr ''i'')])])))
       (run_key 1) = Some (''s'', WaitingInteraction)"
proof -
  let ?d = "foldl (store_step id) empty_db sample_ops"
  have st: "st ?d (run_key 1) = Some (''s'', Completed)"
    by (simp add: sample_ops_def st_def find_run_def) (simp add: store_eval)
  have "interactions ?d = []" by (simp add: sample_ops_def store_eval)
  moreover obtain r where "find_run ?d (run_key 1) = Some r" "run_session r = ''s''" using st by (auto simp: st_def)
  ultimately show ?thesis
    using st append_event_reopens [of ?d "run_key 1" r "JObj [(''approval'', JObj [(''id'', JStr ''i'')])]"
        "JObj [(''id'', JStr ''i'')]" "''i''" id 9]
    by (simp add: Let_def json_get_def)
qed

section \<open>The result of a delegated run\<close>

lemma rows_le_find:
  "rows_le gs hs \<Longrightarrow> find_key dg_child_run c gs = Some g \<Longrightarrow>
   \<exists>g'. find_key dg_child_run c (hs @ ks) = Some g' \<and> row_next g g'"
proof (induction gs arbitrary: hs)
  case (Cons x gs)
  then obtain y hs' where hs: "hs = y # hs'" and y: "row_next x y" and rest: "rows_le gs hs'"
    by (auto simp: rows_le_def list_all2_Cons1)
  have "dg_child_run y = dg_child_run x" using y by (simp add: row_next_def kin_def)
  then show ?case using Cons y rest by (auto simp: hs find_key_def)
qed (simp add: find_key_def)

lemma side_le_find:
  "side_le d d' \<Longrightarrow> find_delegation d c = Some g \<Longrightarrow> \<exists>g'. find_delegation d' c = Some g' \<and> row_next g g'"
  using rows_le_find by (fastforce simp: side_le_def rows_grow_def find_delegation_def)

lemma delivered_refuses:
  assumes "find_delegation d c = Some g" "dg_result_state g = Delivered" "dg_owner g \<noteq> Some owner"
  shows "(\<exists>e. reserve_delegation_result t1 t2 t3 t4 c owner n d = Inl e) \<and>
    (\<exists>e. release_delegation_result now c owner n d = Inl e) \<and> (\<exists>e. deliver_delegation_result now c owner n d = Inl e)"
  using assms
  by (cases "find_run d c") (auto simp: reserve_delegation_result_def release_delegation_result_def
      deliver_delegation_result_def with_delegation_def read_delegation_in_def reserve_decision_def transition_decision_def
      simp del: find_run_frame)

text \<open>
  C23: The result of a delegated run is handed over once. Whatever happens after a delegation was
  recorded, its lease changes only under a greater revision, so of two owners that ask with the
  same revision at most one gets it; and once the result is delivered it stays delivered to
  that owner for good, and every attempt of another owner to reserve, release or deliver it
  is refused.
\<close>

theorem result_delivered_once:
  assumes "find_delegation (daemon_run sha ops) c = Some g"
  shows "\<exists>g'. find_delegation (daemon_run sha (ops @ ops')) c = Some g' \<and>
    (dg_revision g < dg_revision g' \<or>
     (dg_revision g', dg_result_state g', dg_owner g', dg_expires g') =
     (dg_revision g, dg_result_state g, dg_owner g, dg_expires g)) \<and>
    (dg_result_state g = Delivered \<longrightarrow> dg_result_state g' = Delivered \<and> dg_owner g' = dg_owner g \<and>
      (\<forall>owner n t1 t2 t3 t4. Some owner \<noteq> dg_owner g \<longrightarrow>
        (\<exists>e. reserve_delegation_result t1 t2 t3 t4 c owner n (daemon_run sha (ops @ ops')) = Inl e) \<and>
        (\<exists>e. release_delegation_result t1 c owner n (daemon_run sha (ops @ ops')) = Inl e) \<and>
        (\<exists>e. deliver_delegation_result t1 c owner n (daemon_run sha (ops @ ops')) = Inl e)))"
proof -
  obtain g' where g': "find_delegation (daemon_run sha (ops @ ops')) c = Some g'" "row_next g g'"
    using side_le_find [OF side.run_le_later [OF empty_side_ok] assms] by blast
  then show ?thesis
    using delivered_refuses [OF g'(1)] by (intro exI [of _ g']) (fastforce simp: row_next_def lease_next_def)
qed

definition delegating :: "store_op list" where
  "delegating = [OpAdmit 1 ''s'' (RNumber 1) ''hi'' Queue None, OpStart 2 (run_key 1),
     OpDelegate 3 \<lparr>rq_parent_session = ''s'', rq_parent_run = run_key 1, rq_child_session = ''c'', rq_spawn_key = ''k'',
       rq_task = ''t'', rq_tools = [''read''], rq_permission = ''risk'', rq_cwd = ''/'', rq_max_rounds = 1,
       rq_max_tokens = 1, rq_max_tool_calls = 1, rq_deadline = 9\<rparr>,
     OpStart 4 (run_key 2), OpFinish 5 (run_key 2) Completed (Some ''done'') None,
     OpReserve 6 6 6 6 (run_key 2) ''a'' 0, OpDeliver 7 (run_key 2) ''a'' 1]"

lemma result_delivered_once_witness:
  "\<exists>g. find_delegation (daemon_run id delegating) (run_key 2) = Some g \<and> dg_result_state g = Delivered \<and> dg_owner g = Some ''a'' \<and>
    (\<exists>g'. find_delegation (daemon_run id (delegating @ [OpRecover 8])) (run_key 2) = Some g' \<and> dg_owner g' = Some ''a'' \<and>
      (\<exists>e. reserve_delegation_result 9 9 9 9 (run_key 2) ''b'' 2 (daemon_run id (delegating @ [OpRecover 8])) = Inl e))"
proof -
  have plain: "\<not> is_blank ''t''" "\<not> is_blank ''k''" by code_simp+
  obtain g where "find_delegation (daemon_run id delegating) (run_key 2) = Some g" "dg_result_state g = Delivered" "dg_owner g = Some ''a''"
    by (simp add: delegating_def daemon_step_def store_eval plain)
  then show ?thesis using result_delivered_once [of id delegating "run_key 2" g "[OpRecover 8]"] by fastforce
qed

section \<open>Tools and delegated runs\<close>

text \<open>
  C24: Tool receipts only move forward. Whatever the daemon does later, every tool row it has
  stored stays, for the same call, its status never goes back from terminal to running or
  prepared, and a terminal receipt never changes. Rows are filled in exactly as their status
  says, and a call of a round has at most one row.
\<close>

theorem tool_receipts_final:
  "tools_le (tools (daemon_run sha ops)) (tools (daemon_run sha (ops @ ops'))) \<and>
   list_all tool_filled (tools (daemon_run sha ops)) \<and> distinct (map tool_key (tools (daemon_run sha ops)))"
  using side.run_le_later [OF empty_side_ok, of sha ops ops'] daemon_side_ok [of sha ops]
  by (simp add: side_le_def side_ok_def tools_ok_def)

text \<open>
  C25: Limits of delegation. However runs are spawned, every delegated run is at depth 1 or 2,
  is not its own parent and has no more tool rows than its budget, and a root run never has
  more than 8 delegated runs in all nor more than 4 that have not ended.
\<close>

theorem delegation_limits:
  "let d = daemon_run sha ops in
     list_all (\<lambda>g. 1 \<le> dg_depth g \<and> dg_depth g \<le> 2 \<and> dg_child_run g \<noteq> dg_parent_run g \<and>
       int (tool_count d (dg_child_run g)) \<le> dg_max_tool_calls g) (delegations d) \<and>
     distinct (map dg_child_run (delegations d)) \<and> root_total d root \<le> 8 \<and> root_active d root \<le> 4"
proof -
  define d where "d = daemon_run sha ops"
  have ok: "status_ok d" "kins_ok d" using daemon_side_ok [of sha ops] by (simp_all add: side_ok_def d_def)
  have "list_all (\<lambda>g. 1 \<le> dg_depth g \<and> dg_depth g \<le> 2 \<and> dg_child_run g \<noteq> dg_parent_run g \<and>
       int (tool_count d (dg_child_run g)) \<le> dg_max_tool_calls g) (delegations d)"
    using ok(2) by (auto simp: kins_ok_def kins_def kin_def list_all_iff max_depth_def)
  moreover have "distinct (map dg_child_run (delegations d))"
    using ok(2) by (auto simp: kins_ok_def kins_def kin_def comp_def)
  moreover have "root_total d root \<le> 8" "root_active d root \<le> 4"
    using ok(2) by (simp_all add: root_counts [OF ok(1)] kins_ok_def max_root_spawns_def max_root_active_def)
  ultimately show ?thesis by (simp add: d_def Let_def)
qed

section \<open>Restart\<close>

lemma recover_one_total:
  assumes "log_ok d" "find_run d rid \<noteq> None"
  shows "\<exists>d'. recover_one now rid d = Inr d'"
proof -
  obtain n d1 where d1: "insert_event now rid ''terminal'' (JObj [(''status'', jstatus UnknownAfterRestart)]) d = Inr (n, d1)"
    using insert_event_total [OF assms(2)] by blast
  let ?d2 = "set_queue rid UnknownAfterRestart (set_turn rid UnknownAfterRestart
      (set_run rid (\<lambda>r. r\<lparr>run_status := UnknownAfterRestart, run_updated := now\<rparr>) d1))"
  have "log_ok d1" using log_step_insert [OF d1] assms(1) by (simp add: log_step_def)
  then have ok: "log_ok ?d2" using skel_log_ok [of ?d2 d1] by (simp add: frame)
  have "find_run d1 rid \<noteq> None" using st_insert_event [OF d1] assms(2) by (simp add: find_run_st)
  then obtain r where "find_run ?d2 rid = Some r" by (auto simp: frame)
  from read_run_total [OF ok this] mark_terminal_total [OF ok] d1 show ?thesis
    by (simp add: recover_one_def Let_def read_run_or_def)
qed

lemma recover_all_total:
  "log_ok d \<Longrightarrow> rows_ok d \<Longrightarrow> one_busy d \<Longrightarrow> \<forall>rid \<in> set rids. find_run d rid \<noteq> None \<Longrightarrow>
   \<exists>d'. recover_all now rids d = Inr d'"
proof (induction rids arbitrary: d)
  case (Cons rid rids)
  then obtain d1 where d1: "recover_one now rid d = Inr d1" using recover_one_total by fastforce
  note eff = recover_one_effect [OF Cons.prems(1-3) d1]
  then have "\<forall>rid \<in> set rids. find_run d1 rid \<noteq> None" using Cons.prems(4) by (auto simp: find_run_st)
  with Cons.IH [of d1] eff d1 show ?case by simp
qed simp

text \<open>
  Restart. On any database the daemon left behind, recovery succeeds: it reports the
  number of runs that were running or waiting, sets exactly those to \<open>unknown_after_restart\<close>
  and leaves no approval pending, so nothing is answered or resumed for a lost turn.
\<close>

theorem restart_repair:
  "let d = daemon_run sha ops in
     \<exists>d'. recover now d = Inr (count_where (\<lambda>r. busy (run_status r)) (runs d), d') \<and>
       st d' = (\<lambda>rid. map_option (\<lambda>(sid, s). (sid, if busy s then UnknownAfterRestart else s)) (st d rid)) \<and>
       \<not> list_ex (\<lambda>x. in_status x = Pending) (interactions d')"
proof -
  define d where "d = daemon_run sha ops"
  have ok: "status_ok d" unfolding d_def by (rule daemon_run_ok)
  then have ok': "log_ok d" "rows_ok d" "one_busy d" "pending_ok d" by (simp_all add: status_ok_def)
  let ?ids = "map run_id (filter (\<lambda>r. busy (run_status r)) (runs d))"
  have "\<forall>rid \<in> set ?ids. find_run d rid \<noteq> None"
    by (auto simp: find_run_def find_key_None_iff)
  then obtain d1 where "recover_all now ?ids d = Inr d1" using recover_all_total ok' by blast
  then obtain n d' where rec: "recover now d = Inr (n, d')" by (simp add: recover_def Let_def)
  note eff = recover_Inr [OF rec ok'(1-3)]
  have "status_ok d'" using recover_status_ok [OF ok rec] .
  then have pend: "in_status x = Pending \<Longrightarrow> \<exists>sid. st d' (in_run x) = Some (sid, WaitingInteraction)"
    if "x \<in> set (interactions d')" for x
    using that by (auto simp: status_ok_def pending_ok_def)
  have st: "st d' = (\<lambda>rid. map_option (\<lambda>(sid, s). (sid, if busy s then UnknownAfterRestart else s)) (st d rid))"
    using eff by (auto simp: unknown_if_def fun_eq_iff split: prod.splits intro!: option.map_cong)
  then have "st d' rid \<noteq> Some (sid, WaitingInteraction)" for rid sid
    by (auto split: if_splits)
  then have "\<not> list_ex (\<lambda>x. in_status x = Pending) (interactions d')"
    using pend by (fastforce simp: list_ex_iff)
  moreover have "recover now d = Inr (count_where (\<lambda>r. busy (run_status r)) (runs d), d')"
    using rec eff by blast
  ultimately show ?thesis using st unfolding d_def [symmetric] Let_def by blast
qed

end
