(* ===== verification/Active.thy ===== *)
theory Active
  imports Protocol Store_Results
begin

text \<open>
  A running request of the daemon: the replay buffer late subscribers start from
  (\<open>ActiveRequest\<close> in \<open>src/daemon/mod.rs\<close>) and the approvals a turn waits for
  (\<open>ApprovalBroker\<close> in \<open>src/daemon/approval.rs\<close>), with the durable claim of the store behind
  each answer. The JSON printer is an argument.
\<close>

section \<open>Replay\<close>

datatype update =
    UEvent event_kind json "string option" "nat option"
  | UTerminal "(int \<times> string) + json"

fun to_frame :: "request_id \<Rightarrow> update \<Rightarrow> server_frame" where
  "to_frame i (UEvent k d r n) = EventF ((new_event i k d)\<lparr>ef_run := r, ef_seq := n\<rparr>)"
| "to_frame i (UTerminal (Inr v)) = ResponseF (rpc_success i v)"
| "to_frame i (UTerminal (Inl (c, m))) = ResponseF (rpc_failure i c m)"

text \<open>\<open>saturating_add\<close> and \<open>saturating_sub\<close> of \<open>usize\<close>.\<close>

definition usize_add :: "nat \<Rightarrow> nat \<Rightarrow> nat" where
  "usize_add a b = min (a + b) (2 ^ 64 - 1)"

fun update_text :: "(json \<Rightarrow> string) \<Rightarrow> update \<Rightarrow> string" where
  "update_text render (UEvent k d r n) = render d"
| "update_text render (UTerminal (Inr v)) = render v"
| "update_text render (UTerminal (Inl (c, m))) = m"

definition update_bytes :: "(json \<Rightarrow> string) \<Rightarrow> update \<Rightarrow> nat" where
  "update_bytes render u = usize_add (length (update_text render u)) 64"

definition replay_limit :: nat where
  "replay_limit = 1024 * 1024"

record active =
  ac_run :: string
  ac_storage_error :: "string option"
  ac_updates :: "update list"
  ac_replay :: "update list"
  ac_bytes :: nat
  ac_origin :: "server_frame list option"

definition new_active :: "string \<Rightarrow> active" where
  "new_active rid = \<lparr>ac_run = rid, ac_storage_error = None, ac_updates = [], ac_replay = [], ac_bytes = 0,
     ac_origin = None\<rparr>"

definition with_origin :: "active \<Rightarrow> active" where
  "with_origin a = a\<lparr>ac_origin := Some []\<rparr>"

text \<open>The \<open>while\<close> loop that drops the oldest updates.\<close>

fun evict :: "(json \<Rightarrow> string) \<Rightarrow> nat \<Rightarrow> update list \<Rightarrow> nat \<times> update list" where
  "evict render b [] = (b, [])"
| "evict render b (u # us) =
     (if b > replay_limit then evict render (b - update_bytes render u) us else (b, u # us))"

definition publish :: "(json \<Rightarrow> string) \<Rightarrow> update \<Rightarrow> active \<Rightarrow> active" where
  "publish render u a =
     (let r = evict render (usize_add (ac_bytes a) (update_bytes render u)) (ac_replay a @ [u])
      in a\<lparr>ac_bytes := fst r, ac_replay := snd r, ac_updates := ac_updates a @ [u]\<rparr>)"

definition publish_external :: "(json \<Rightarrow> string) \<Rightarrow> request_id \<Rightarrow> update \<Rightarrow> active \<Rightarrow> active" where
  "publish_external render i u a =
     (let a = publish render u a in a\<lparr>ac_origin := map_option (\<lambda>fs. fs @ [to_frame i u]) (ac_origin a)\<rparr>)"

text \<open>The replayed updates, and how many the receiver has missed before it starts.\<close>

definition subscribe :: "active \<Rightarrow> update list \<times> nat" where
  "subscribe a = (ac_replay a, length (ac_updates a))"

definition replay_total :: "(json \<Rightarrow> string) \<Rightarrow> update list \<Rightarrow> nat" where
  "replay_total render us = sum_list (map (update_bytes render) us)"

lemma evict_spec:
  assumes "evict render b us = (b', us')" "b = replay_total render us"
  shows "b' = replay_total render us' \<and> b' \<le> replay_limit \<and>
    (\<exists>gone. us = gone @ us' \<and> (gone = [] \<or> replay_limit < update_bytes render (last gone) + b'))"
  using assms
proof (induction render b us rule: evict.induct)
  case (2 render b u us)
  show ?case
  proof (cases "b > replay_limit")
    case False
    then show ?thesis using 2 by auto
  next
    case True
    then have e: "evict render (b - update_bytes render u) us = (b', us')" "b - update_bytes render u = replay_total render us"
      using 2 by (simp_all add: replay_total_def)
    from "2.IH" [OF True e] obtain gone where g: "b' = replay_total render us'" "b' \<le> replay_limit" "us = gone @ us'"
        "gone = [] \<or> replay_limit < update_bytes render (last gone) + b'" by blast
    have "replay_limit < update_bytes render u + b'" if "gone = []"
      using that g(1,3) True "2.prems"(2) by (simp add: replay_total_def)
    then show ?thesis using g by (intro conjI exI [of _ "u # gone"]) auto
  qed
qed (simp add: replay_total_def)

definition replay_ok :: "(json \<Rightarrow> string) \<Rightarrow> active \<Rightarrow> bool" where
  "replay_ok render a \<longleftrightarrow> ac_bytes a = replay_total render (ac_replay a) \<and> ac_bytes a \<le> replay_limit \<and>
     (\<exists>gone. ac_updates a = gone @ ac_replay a \<and>
        (gone = [] \<or> replay_limit < update_bytes render (last gone) + ac_bytes a))"

lemma publish_ok:
  assumes ok: "replay_ok render a" and small: "length (update_text render u) < 2 ^ 63"
  shows "replay_ok render (publish render u a)"
proof -
  let ?b = "usize_add (ac_bytes a) (update_bytes render u)"
  obtain gone where g: "ac_updates a = gone @ ac_replay a"
      "gone = [] \<or> replay_limit < update_bytes render (last gone) + ac_bytes a"
    using ok by (auto simp: replay_ok_def)
  have "?b = ac_bytes a + update_bytes render u"
    using ok small by (simp add: replay_ok_def replay_limit_def usize_add_def update_bytes_def)
  then have b: "?b = replay_total render (ac_replay a @ [u])"
    using ok by (simp add: replay_ok_def replay_total_def)
  obtain b' us' where e: "evict render ?b (ac_replay a @ [u]) = (b', us')" by fastforce
  from evict_spec [OF e b] obtain gone' where e': "b' = replay_total render us'" "b' \<le> replay_limit"
      "ac_replay a @ [u] = gone' @ us'" "gone' = [] \<or> replay_limit < update_bytes render (last gone') + b'" by blast
  have "replay_limit < update_bytes render (last gone) + b'" if "gone \<noteq> []" "gone' = []"
  proof -
    have us': "us' = ac_replay a @ [u]" using that(2) e'(3) by simp
    have "replay_limit < update_bytes render (last gone) + replay_total render (ac_replay a)"
      using that(1) g(2) ok by (simp add: replay_ok_def)
    then show ?thesis unfolding e'(1) us' by (simp add: replay_total_def)
  qed
  then have "gone @ gone' = [] \<or> replay_limit < update_bytes render (last (gone @ gone')) + b'"
    using e'(4) by (cases "gone' = []") auto
  moreover have "ac_updates (publish render u a) = (gone @ gone') @ us'"
    using e'(3) g(1) by (simp add: publish_def Let_def)
  moreover have "ac_bytes (publish render u a) = b'" "ac_replay (publish render u a) = us'"
    using e by (simp_all add: publish_def Let_def)
  ultimately show ?thesis using e'(1,2) unfolding replay_ok_def by metis
qed

text \<open>
  Late subscribers. Whatever a run publishes, in updates shorter than \<open>2 ^ 63\<close> bytes, the
  replay buffer is the longest run of the latest updates that fits into one MiB, so a client
  that subscribes late gets a gapless end of the stream, and the counter is its exact size.
\<close>

theorem replay_is_latest:
  assumes "list_all (\<lambda>u. length (update_text render u) < 2 ^ 63) us"
  shows "let a = foldl (\<lambda>a u. publish render u a) (new_active rid) us in
    ac_bytes a = replay_total render (ac_replay a) \<and> replay_total render (ac_replay a) \<le> 1024 * 1024 \<and>
    (\<exists>gone. us = gone @ ac_replay a \<and>
      (gone = [] \<or> 1024 * 1024 < update_bytes render (last gone) + replay_total render (ac_replay a)))"
proof -
  have run: "replay_ok render a \<Longrightarrow> list_all (\<lambda>u. length (update_text render u) < 2 ^ 63) us \<Longrightarrow>
      replay_ok render (foldl (\<lambda>a u. publish render u a) a us) \<and>
      ac_updates (foldl (\<lambda>a u. publish render u a) a us) = ac_updates a @ us" for a
  proof (induction us arbitrary: a)
    case (Cons u us)
    then have "replay_ok render (publish render u a)" by (intro publish_ok) simp_all
    with Cons show ?case by (simp add: publish_def Let_def)
  qed simp
  have "replay_ok render (new_active rid)"
    by (simp add: replay_ok_def new_active_def replay_total_def)
  from run [OF this assms]
  have ok: "replay_ok render (foldl (\<lambda>a u. publish render u a) (new_active rid) us)"
    and upd: "ac_updates (foldl (\<lambda>a u. publish render u a) (new_active rid) us) = us"
    by (simp_all add: new_active_def)
  have limit: "replay_limit = 1024 * 1024" by (simp add: replay_limit_def)
  from ok show ?thesis unfolding replay_ok_def upd limit Let_def by metis
qed

theorem replay_is_latest_witness:
  "ac_replay (foldl (\<lambda>a u. publish (\<lambda>_. ''x'') u a) (new_active ''run-1'') [UTerminal (Inr JNull)]) = [UTerminal (Inr JNull)] \<and>
   ac_bytes (foldl (\<lambda>a u. publish (\<lambda>_. ''x'') u a) (new_active ''run-1'') [UTerminal (Inr JNull)]) = 65"
proof -
  have "list_all (\<lambda>u. length (update_text (\<lambda>_. ''x'') u) < 2 ^ 63) [UTerminal (Inr JNull)]" by simp
  from replay_is_latest [OF this, of "''run-1''"]
  have "ac_bytes (foldl (\<lambda>a u. publish (\<lambda>_. ''x'') u a) (new_active ''run-1'') [UTerminal (Inr JNull)]) =
      replay_total (\<lambda>_. ''x'') (ac_replay (foldl (\<lambda>a u. publish (\<lambda>_. ''x'') u a) (new_active ''run-1'') [UTerminal (Inr JNull)]))"
    unfolding Let_def by blast
  moreover have "ac_replay (foldl (\<lambda>a u. publish (\<lambda>_. ''x'') u a) (new_active ''run-1'') [UTerminal (Inr JNull)]) = [UTerminal (Inr JNull)]"
    by (simp add: publish_def new_active_def replay_limit_def usize_add_def update_bytes_def)
  ultimately show ?thesis by (simp add: replay_total_def update_bytes_def usize_add_def)
qed

section \<open>Approvals\<close>

record approval_info =
  ai_id :: string
  ai_request :: request_id
  ai_prompt :: string

record waiting =
  wt_info :: approval_info
  wt_session :: "string option"
  wt_channel :: nat

text \<open>
  The broker's table and its counter; \<open>br_answers\<close> is what the one-shot channels have been
  sent, by channel number.
\<close>

record broker =
  br_next :: u64
  br_pending :: "string \<Rightarrow> waiting option"
  br_answers :: "(nat \<times> bool) list"

definition new_broker :: broker where
  "new_broker = \<lparr>br_next = 0, br_pending = (\<lambda>_. None), br_answers = []\<rparr>"

record approval_context =
  ax_request :: request_id
  ax_session :: "string option"

datatype approval_error =
    NoContext
  | NoExecutor string
  | ExecutorGone string
  | ClaimFailed store_error
  | Disconnected
  | ApprovalCancelled string

definition approval_id :: "nat \<Rightarrow> nat \<Rightarrow> u64 \<Rightarrow> string" where
  "approval_id pid nonce n = ''approval-'' @ dec pid @ ''-'' @ dec nonce @ ''-'' @ dec (unat n)"

definition approval_event :: "approval_info \<Rightarrow> (request_id \<Rightarrow> json) \<Rightarrow> event_frame" where
  "approval_event info rq_json = new_event (ai_request info) ApprovalRequired
     (JObj [(''approval'', JObj [(''id'', JStr (ai_id info)), (''request_id'', rq_json (ai_request info)),
                                  (''prompt'', JStr (ai_prompt info))])])"

text \<open>
  \<open>request\<close> up to the point where it waits: the entry and the event. \<open>ch\<close> is the number of the
  new one-shot channel, \<open>sent\<close> whether the event found its receiver.
\<close>

definition request_approval ::
  "approval_context option \<Rightarrow> nat \<Rightarrow> nat \<Rightarrow> nat \<Rightarrow> bool \<Rightarrow> string \<Rightarrow> (request_id \<Rightarrow> json) \<Rightarrow> broker \<Rightarrow>
   (approval_error + string \<times> event_frame) \<times> broker" where
  "request_approval ctx pid nonce ch sent prompt rq_json b =
     (case ctx of
        None \<Rightarrow> (Inl NoContext, b)
      | Some x \<Rightarrow>
          let i = approval_id pid nonce (br_next b);
              info = \<lparr>ai_id = i, ai_request = ax_request x, ai_prompt = prompt\<rparr>;
              b = b\<lparr>br_next := br_next b + 1,
                    br_pending := (br_pending b)(i \<mapsto> \<lparr>wt_info = info, wt_session = ax_session x, wt_channel = ch\<rparr>)\<rparr>
          in if sent then (Inr (i, approval_event info rq_json), b)
             else (Inl Disconnected, b\<lparr>br_pending := (br_pending b)(i := None)\<rparr>))"

text \<open>What the waiting turn sees: an answer, or a channel that was closed without one.\<close>

definition await_approval :: "string \<Rightarrow> nat \<Rightarrow> broker \<Rightarrow> (approval_error + bool) \<times> broker" where
  "await_approval i ch b =
     (case map_of (br_answers b) ch of
        Some approved \<Rightarrow> (Inr approved, b)
      | None \<Rightarrow> (Inl (ApprovalCancelled i), b\<lparr>br_pending := (br_pending b)(i := None)\<rparr>))"

text \<open>
  \<open>respond_claimed\<close>: the durable claim runs while the table is locked; \<open>listening\<close> says whether the
  waiting turn still holds its receiver.
\<close>

definition respond_claimed ::
  "(nat \<Rightarrow> bool) \<Rightarrow> string \<Rightarrow> bool \<Rightarrow> store_error + interaction_record \<times> db \<Rightarrow> db \<Rightarrow> broker \<Rightarrow>
   (approval_error + interaction_record) \<times> db \<times> broker" where
  "respond_claimed listening i approved claim d b =
     (case br_pending b i of
        None \<Rightarrow> (Inl (NoExecutor i), d, b)
      | Some w \<Rightarrow>
          (case claim of
             Inl e \<Rightarrow> (Inl (ClaimFailed e), d, b)
           | Inr (rec, d') \<Rightarrow>
               let b = b\<lparr>br_pending := (br_pending b)(i := None)\<rparr> in
               if listening (wt_channel w)
               then (Inr rec, d', b\<lparr>br_answers := br_answers b @ [(wt_channel w, approved)]\<rparr>)
               else (Inl (ExecutorGone i), d', b)))"

definition matches_request :: "string option \<Rightarrow> request_id \<Rightarrow> waiting \<Rightarrow> bool" where
  "matches_request sid rq w \<longleftrightarrow>
     ai_request (wt_info w) = rq \<and> (case sid of None \<Rightarrow> True | Some s \<Rightarrow> wt_session w = Some s)"

text \<open>\<open>ids\<close>: the matching keys in the order of the table.\<close>

definition cancel_matching :: "(nat \<Rightarrow> bool) \<Rightarrow> string option \<Rightarrow> request_id \<Rightarrow> string list \<Rightarrow> broker \<Rightarrow> broker" where
  "cancel_matching listening sid rq ids b =
     foldl (\<lambda>b i. case br_pending b i of
         None \<Rightarrow> b
       | Some w \<Rightarrow> if matches_request sid rq w
           then b\<lparr>br_pending := (br_pending b)(i := None),
                  br_answers := (if listening (wt_channel w) then br_answers b @ [(wt_channel w, False)] else br_answers b)\<rparr>
           else b) b ids"

definition pending_for_session :: "string option \<Rightarrow> string list \<Rightarrow> broker \<Rightarrow> approval_info list" where
  "pending_for_session sid sorted_ids b =
     concat (map (\<lambda>i. case br_pending b i of
         None \<Rightarrow> []
       | Some w \<Rightarrow> if (case sid of None \<Rightarrow> True | Some s \<Rightarrow> wt_session w = Some s) then [wt_info w] else [])
       sorted_ids)"

text \<open>
  C29: An approval is what the store recorded. When an answer goes through on a database of the
  daemon, exactly the turn that waits for this approval is sent the answer, it is the answer
  the interaction's record now holds, and no later claim can change it; when the durable claim
  fails, the turn keeps waiting and nothing changes.
\<close>

theorem approval_matches_record:
  assumes "br_pending b i = Some w" "listening (wt_channel w)"
  shows "let d = daemon_run sha ops; claim = claim_interaction now i sid rid rv approved d in
    case respond_claimed listening i approved claim d b of
      (Inl e, d', b') \<Rightarrow> d' = d \<and> b' = b \<and> (\<exists>err. claim = Inl err)
    | (Inr rec, d', b') \<Rightarrow>
        br_answers b' = br_answers b @ [(wt_channel w, approved)] \<and> br_pending b' = (br_pending b)(i := None) \<and>
        ir_response rec = Some (approved_json approved) \<and> ir_run rec = rid \<and> ir_session rec = sid \<and>
        read_interaction (foldl (daemon_step sha) d' ops') i = Some rec"
proof -
  define d where "d = daemon_run sha ops"
  show ?thesis
  proof (cases "claim_interaction now i sid rid rv approved d")
    case (Inl e)
    then show ?thesis using assms by (simp add: respond_claimed_def d_def [symmetric] Let_def)
  next
    case (Inr p)
    obtain rec d' where p: "p = (rec, d')" by (cases p)
    have "pending_ok d" using daemon_run_ok [of sha ops] by (simp add: status_ok_def d_def)
    note res = claim_result [OF Inr [unfolded p] this]
    have "daemon_run sha (ops @ [OpClaim now i sid rid rv approved]) = d'"
      using Inr p by (simp add: daemon_step_def committed_def d_def)
    then have ok: "side_ok d'" using daemon_side_ok [of sha "ops @ [OpClaim now i sid rid rv approved]"] by (simp only:)
    have "read_interaction (foldl (daemon_step sha) d' ops') i = Some rec"
      by (rule read_interaction_later [OF ok side.run_inv [OF ok] side.run_le [OF ok]]) (use res in auto)
    then show ?thesis
      using assms res Inr p by (simp add: respond_claimed_def d_def [symmetric] Let_def)
  qed
qed

definition sample_waiting :: waiting where
  "sample_waiting = \<lparr>wt_info = \<lparr>ai_id = ''i'', ai_request = RNumber 1, ai_prompt = []\<rparr>, wt_session = None, wt_channel = 3\<rparr>"

theorem approval_matches_record_witness:
  "let b = new_broker\<lparr>br_pending := [''i'' \<mapsto> sample_waiting]\<rparr>; d = daemon_run id asking in
     \<exists>rec d' b'. respond_claimed (\<lambda>_. True) ''i'' True (claim_interaction 8 ''i'' ''s'' (run_key 1) 0 True d) d b = (Inr rec, d', b') \<and>
       br_answers b' = [(3, True)] \<and> ir_response rec = Some (approved_json True)"
proof -
  let ?b = "new_broker\<lparr>br_pending := [''i'' \<mapsto> sample_waiting]\<rparr>"
  let ?d = "daemon_run id asking"
  have "\<exists>res d'. claim_interaction 8 ''i'' ''s'' (run_key 1) 0 True ?d = Inr (res, d')"
    by (simp add: asking_def daemon_step_def asks_approval_def store_eval)
  then obtain res d' where c: "claim_interaction 8 ''i'' ''s'' (run_key 1) 0 True ?d = Inr (res, d')" by blast
  have p: "br_pending ?b ''i'' = Some sample_waiting" by simp
  obtain b' where R: "respond_claimed (\<lambda>_. True) ''i'' True (claim_interaction 8 ''i'' ''s'' (run_key 1) 0 True ?d) ?d ?b = (Inr res, d', b')"
    unfolding respond_claimed_def c p by (simp add: Let_def)
  have "br_answers ?b = []" "wt_channel sample_waiting = 3" by (simp_all add: new_broker_def sample_waiting_def)
  with approval_matches_record [where listening = "\<lambda>_. True" and sha = id and ops = asking and now = 8 and sid = "''s''"
      and rid = "run_key 1" and rv = 0 and approved = True and ops' = "[]", OF p TrueI]
  show ?thesis unfolding Let_def R by simp
qed

end
