(* ===== verification/Handlers.thy ===== *)
theory Handlers
  imports Active "HOL-Library.AList"
begin

text \<open>
  The request handlers of the daemon (\<open>src/daemon/handlers.rs\<close>): the life of a chat request
  (\<open>handle_chat_send\<close>, cut at the points where it gives up the daemon's locks), the updates it
  publishes, cancellation of a run and of its subtree, and the answer to an interaction.

  Each function takes the daemon's shared state and returns the frames it sends on the
  channel of its request, what it goes on with and the new state. The clock, the text of an error, what
  \<open>serde_json\<close> made of the parameters, the session runtime and the restored provider route
  are arguments. A cancellation token is shared by the handler and the entry of its request in
  the table of active requests; nobody else removes that entry, so the token is read there.
\<close>

section \<open>State\<close>

record active_key =
  ak_session :: string
  ak_request :: request_id

record live =
  lv_active :: active
  lv_cancelled :: bool

text \<open>\<open>dm_wakes\<close> counts the calls of \<open>queue_notify.notify_waiters\<close>.\<close>

record 'p daemon =
  dm_store :: db
  dm_active :: "active_key \<Rightarrow> live option"
  dm_routes :: "string \<Rightarrow> 'p frozen_route option"
  dm_broker :: broker
  dm_shutdown :: bool
  dm_wakes :: nat

type_synonym reply = "int \<times> string + json"

definition invalid_params :: int where
  "invalid_params = - 32602"

definition method_not_found :: int where
  "method_not_found = - 32601"

definition internal_error :: int where
  "internal_error = - 32603"

definition request_cancelled :: int where
  "request_cancelled = - 32800"

definition request_conflict :: int where
  "request_conflict = - 32001"

definition send_result :: "request_id \<Rightarrow> reply \<Rightarrow> server_frame" where
  "send_result i r =
     (case r of Inr v \<Rightarrow> ResponseF (rpc_success i v) | Inl (c, m) \<Rightarrow> ResponseF (rpc_failure i c m))"

definition remove_active :: "active_key \<Rightarrow> 'p daemon \<Rightarrow> 'p daemon" where
  "remove_active k s = s\<lparr>dm_active := (dm_active s)(k := None)\<rparr>"

definition notify_waiters :: "'p daemon \<Rightarrow> 'p daemon" where
  "notify_waiters s = s\<lparr>dm_wakes := Suc (dm_wakes s)\<rparr>"

definition is_cancelled :: "active_key \<Rightarrow> 'p daemon \<Rightarrow> bool" where
  "is_cancelled k s = (case dm_active s k of None \<Rightarrow> False | Some l \<Rightarrow> lv_cancelled l)"

section \<open>Messages\<close>

definition msg_closing :: string where
  "msg_closing =
     utf8 [100, 97, 101, 109, 111, 110, 32, 27491, 22312, 20851, 38381, 65292, 20572, 27490,
     26032, 20934, 20837]"

definition msg_empty_message :: string where
  "msg_empty_message =
     utf8 [109, 101, 115, 115, 97, 103, 101, 32, 19981, 33021, 20026, 31354]"

definition msg_child_only :: string where
  "msg_child_only =
     utf8 [22996, 27966, 32, 115, 101, 115, 115, 105, 111, 110, 32, 21482, 33021, 30001, 24050,
     20934, 20837, 30340, 32, 99, 104, 105, 108, 100, 32, 114, 117, 110, 32, 39537, 21160]"

definition msg_bad_mode :: string where
  "msg_bad_mode =
     utf8 [19981, 25903, 25345, 30340, 32, 97, 100, 109, 105, 115, 115, 105, 111, 110, 95, 109,
     111, 100, 101]"

definition msg_cancelled :: string where
  "msg_cancelled =
     utf8 [35831, 27714, 24050, 21462, 28040]"

definition msg_route_lost :: string where
  "msg_route_lost =
     utf8 [20923, 32467, 32, 80, 114, 111, 118, 105, 100, 101, 114, 32, 37197, 32622, 26080,
     27861, 24674, 22797]"

definition msg_capability_lost :: string where
  "msg_capability_lost =
     utf8 [23376, 32, 65, 103, 101, 110, 116, 32, 33021, 21147, 26080, 27861, 24674, 22797]"

definition msg_event_lost :: string where
  "msg_event_lost =
     utf8 [25345, 20037, 21270, 20107, 20214, 22833, 36133, 58, 32]"

definition msg_terminal_lost :: string where
  "msg_terminal_lost =
     utf8 [25345, 20037, 21270, 32456, 24577, 22833, 36133, 58, 32]"

definition msg_exact_cancel :: string where
  "msg_exact_cancel =
     utf8 [101, 120, 97, 99, 116, 32, 99, 97, 110, 99, 101, 108, 32, 38656, 35201, 32, 115,
     101, 115, 115, 105, 111, 110, 95, 105, 100]"

definition msg_run_missing :: string where
  "msg_run_missing =
     utf8 [114, 117, 110, 32, 19981, 23384, 22312]"

definition msg_run_foreign :: string where
  "msg_run_foreign =
     utf8 [114, 117, 110, 32, 19981, 23646, 20110, 25351, 23450, 32, 115, 101, 115, 115, 105,
     111, 110]"

definition msg_cancel_what :: string where
  "msg_cancel_what =
     utf8 [38656, 35201, 32, 114, 117, 110, 95, 105, 100, 32, 25110, 32, 114, 101, 113, 117,
     101, 115, 116, 95, 105, 100]"

definition msg_executor_gone :: string where
  "msg_executor_gone =
     utf8 [25191, 34892, 20307, 24050, 28040, 22833]"

definition msg_request_missing :: string where
  "msg_request_missing =
     utf8 [35831, 27714, 19981, 23384, 22312]"

definition msg_interaction_missing :: string where
  "msg_interaction_missing =
     utf8 [105, 110, 116, 101, 114, 97, 99, 116, 105, 111, 110, 32, 19981, 23384, 22312]"

definition msg_interaction_owner :: string where
  "msg_interaction_owner =
     utf8 [105, 110, 116, 101, 114, 97, 99, 116, 105, 111, 110, 32, 111, 119, 110, 101, 114,
     32, 19981, 21305, 37197]"

definition msg_no_answer :: string where
  "msg_no_answer =
     utf8 [32570, 23569, 32, 97, 112, 112, 114, 111, 118, 101, 100]"

definition msg_approver_gone :: string where
  "msg_approver_gone =
     utf8 [23457, 25209, 25191, 34892, 20307, 24050, 28040, 22833]"

section \<open>Publishing\<close>

definition kind_name :: "event_kind \<Rightarrow> string" where
  "kind_name k = (case k of
     TurnStarted \<Rightarrow> ''turn_started'' | ThinkingDelta \<Rightarrow> ''thinking_delta''
   | ThinkingFinished \<Rightarrow> ''thinking_finished'' | TextDelta \<Rightarrow> ''text_delta''
   | ToolStarted \<Rightarrow> ''tool_started'' | ToolFinished \<Rightarrow> ''tool_finished''
   | ApprovalRequired \<Rightarrow> ''approval_required'' | TurnCompleted \<Rightarrow> ''turn_completed''
   | DelegationSpawned \<Rightarrow> ''delegation_spawned'' | DelegationTerminal \<Rightarrow> ''delegation_terminal'')"

text \<open>\<open>data["interaction"] = ..\<close> on an object.\<close>

fun json_put :: "string \<Rightarrow> json \<Rightarrow> json \<Rightarrow> json" where
  "json_put k v (JObj members) = JObj (AList.update k v members)"
| "json_put k v j = JObj [(k, v)]"

definition with_interaction :: "active_key \<Rightarrow> string \<Rightarrow> event_kind \<Rightarrow> json \<Rightarrow> json" where
  "with_interaction key rid k data =
     (if k \<noteq> ApprovalRequired then data
      else case json_str (json_index ''id'' (json_index ''approval'' data)) of
        None \<Rightarrow> data
      | Some i \<Rightarrow> json_put ''interaction''
          (JObj [(''interaction_id'', JStr i), (''session_id'', JStr (ak_session key)), (''owner_run_id'', JStr rid),
                 (''kind'', JStr ''approval''), (''status'', JStr ''pending''), (''revision'', JInt 0),
                 (''payload'', json_index ''approval'' data)]) data)"

text \<open>To the subscribers of the request and to its own channel.\<close>

definition publish_live :: "(json \<Rightarrow> string) \<Rightarrow> active_key \<Rightarrow> update \<Rightarrow> 'p daemon \<Rightarrow> 'p daemon" where
  "publish_live render key u s =
     (case dm_active s key of
        None \<Rightarrow> s
      | Some l \<Rightarrow> s\<lparr>dm_active := (dm_active s)(key \<mapsto> l\<lparr>lv_active := publish render u (lv_active l)\<rparr>)\<rparr>)"

definition deliver ::
  "(json \<Rightarrow> string) \<Rightarrow> active_key \<Rightarrow> update \<Rightarrow> 'p daemon \<Rightarrow> server_frame list \<times> 'p daemon" where
  "deliver render key u s = ([to_frame (ak_request key) u], publish_live render key u s)"

text \<open>A failed write of an event stops the turn; the error is kept for its answer.\<close>

definition storage_failed :: "string \<Rightarrow> active_key \<Rightarrow> 'p daemon \<Rightarrow> 'p daemon" where
  "storage_failed e key s =
     (case dm_active s key of
        None \<Rightarrow> s
      | Some l \<Rightarrow> s\<lparr>dm_active := (dm_active s)(key \<mapsto>
          l\<lparr>lv_active := (lv_active l)\<lparr>ac_storage_error := Some e\<rparr>, lv_cancelled := True\<rparr>)\<rparr>)"

definition publish_update ::
  "(json \<Rightarrow> string) \<Rightarrow> (store_error \<Rightarrow> string) \<Rightarrow> int \<Rightarrow> active_key \<Rightarrow> update \<Rightarrow> 'p daemon \<Rightarrow>
   server_frame list \<times> 'p daemon" where
  "publish_update render err_text now key u s =
     (case u of
        UTerminal r \<Rightarrow> deliver render key u s
      | UEvent k data r0 n0 \<Rightarrow>
          if k = TurnCompleted then ([], s)
          else case dm_active s key of
            None \<Rightarrow> deliver render key u s
          | Some l \<Rightarrow>
              let rid = ac_run (lv_active l); data = with_interaction key rid k data in
              (case append_event now rid (kind_name k) data (dm_store s) of
                 Inl e \<Rightarrow> ([], storage_failed (err_text e) key s)
               | Inr (seq, d) \<Rightarrow> deliver render key (UEvent k data (Some rid) (Some seq)) (s\<lparr>dm_store := d\<rparr>)))"

definition publish_committed_completion ::
  "(json \<Rightarrow> string) \<Rightarrow> active_key \<Rightarrow> string \<Rightarrow> 'p daemon \<Rightarrow> server_frame list \<times> 'p daemon" where
  "publish_committed_completion render key content s =
     (case dm_active s key of
        None \<Rightarrow> ([], s)
      | Some l \<Rightarrow>
          let rid = ac_run (lv_active l);
              seq = (case read_run_in (dm_store s) rid of Inr (Some r) \<Rightarrow> Some (rec_last_seq r - 1) | _ \<Rightarrow> None)
          in deliver render key (UEvent TurnCompleted (JObj [(''content'', JStr content)]) (Some rid) seq) s)"

definition notify_delegation_parent ::
  "(json \<Rightarrow> string) \<Rightarrow> delegation_record \<Rightarrow> event_kind \<Rightarrow> 'p daemon \<Rightarrow> 'p daemon" where
  "notify_delegation_parent render child k s =
     (let g = dr_row child in
      case read_run_in (dm_store s) (dg_parent_run g) of
        Inr (Some parent) \<Rightarrow>
          let key = \<lparr>ak_session = rec_session parent, ak_request = rec_request parent\<rparr>;
              u = UEvent k (JObj [(''child_run_id'', JStr (dg_child_run g)),
                    (''child_session_id'', JStr (dg_child_session g)), (''status'', jstatus (dg_status g)),
                    (''summary'', JStr (take_chars 512 (case dr_content child of None \<Rightarrow> [] | Some c \<Rightarrow> c)))])
                  (Some (dg_parent_run g)) None
          in (case dm_active s key of
                None \<Rightarrow> s
              | Some l \<Rightarrow> s\<lparr>dm_active := (dm_active s)(key \<mapsto>
                  l\<lparr>lv_active := publish_external render (rec_request parent) u (lv_active l)\<rparr>)\<rparr>)
      | _ \<Rightarrow> s)"

section \<open>A chat request\<close>

record chat_params =
  cp_message :: string
  cp_session :: "string option"
  cp_mode :: "string option"

text \<open>What a handler carries from one part to the next.\<close>

record chat =
  ch_key :: active_key
  ch_run :: run_record
  ch_delegated :: bool

datatype phase =
    Registering chat
  | Polling chat
  | Queueing chat nat
  | Preparing chat
  | Turning chat
  | Closing chat run_record reply
  | Ended

definition ch_id :: "chat \<Rightarrow> string" where
  "ch_id c = rec_run (ch_run c)"

definition ch_frame :: "chat \<Rightarrow> reply \<Rightarrow> server_frame" where
  "ch_frame c r = send_result (ak_request (ch_key c)) r"

definition admission_mode_of :: "string option \<Rightarrow> admission_mode option" where
  "admission_mode_of m =
     (let v = (case m of None \<Rightarrow> ''queue'' | Some v \<Rightarrow> v) in
      if v = ''queue'' then Some Queue else if v = ''reject_if_busy'' then Some RejectIfBusy else None)"

definition completed_json :: "run_record \<Rightarrow> json" where
  "completed_json r = JObj [(''content'', json_opt JStr (rec_content r)), (''run_id'', JStr (rec_run r)),
     (''turn_id'', JStr (rec_turn r))]"

definition duplicate_json :: "run_record \<Rightarrow> json" where
  "duplicate_json r = JObj [(''run_id'', JStr (rec_run r)), (''turn_id'', JStr (rec_turn r)),
     (''status'', jstatus (rec_status r)), (''duplicate'', JBool True),
     (''error_code'', json_opt JInt (rec_error_code r)), (''error_message'', json_opt JStr (rec_error_message r))]"

definition busy_json :: "run_record \<Rightarrow> json" where
  "busy_json r = JObj [(''run_id'', JStr (rec_run r)), (''turn_id'', JStr (rec_turn r)),
     (''status'', JStr ''queued_or_running''), (''duplicate'', JBool True)]"

definition store_code :: "store_error \<Rightarrow> int" where
  "store_code e = (case e of ProtocolE c \<Rightarrow> request_conflict | _ \<Rightarrow> internal_error)"

text \<open>From the request to its run: validation and durable admission.\<close>

definition chat_admit ::
  "(store_error \<Rightarrow> string) \<Rightarrow> int \<Rightarrow> string \<Rightarrow> chat_params \<Rightarrow> 'p frozen_route option \<Rightarrow> request_id \<Rightarrow> 'p daemon \<Rightarrow>
   (server_frame list \<times> phase) \<times> 'p daemon" where
  "chat_admit err_text now sid p route i s =
     (let child = delegation_for_session (dm_store s) sid;
          c = (\<lambda>run. \<lparr>ch_key = \<lparr>ak_session = sid, ak_request = i\<rparr>, ch_run = run, ch_delegated = (child \<noteq> None)\<rparr>)
      in
      if child \<noteq> None \<and> i \<noteq> RString (''delegation:'' @ sid)
      then (([send_result i (Inl (request_conflict, msg_child_only))], Ended), s)
      else case admission_mode_of (cp_mode p) of
        None \<Rightarrow> (([send_result i (Inl (invalid_params, msg_bad_mode))], Ended), s)
      | Some mode \<Rightarrow>
          (case admit_with_route now sid i (cp_message p) mode (map_option fz_snapshot route) (dm_store s) of
             Inl e \<Rightarrow> (([send_result i (Inl (store_code e, err_text e))], Ended), s)
           | Inr (New run, d) \<Rightarrow>
               (([], Registering (c run)),
                s\<lparr>dm_store := d,
                  dm_routes := (case route of None \<Rightarrow> dm_routes s | Some r \<Rightarrow> (dm_routes s)(rec_run run \<mapsto> r))\<rparr>)
           | Inr (Existing run, d) \<Rightarrow>
               if rec_status run = Completed then (([send_result i (Inr (completed_json run))], Ended), s\<lparr>dm_store := d\<rparr>)
               else if rec_status run \<noteq> Queued then (([send_result i (Inr (duplicate_json run))], Ended), s\<lparr>dm_store := d\<rparr>)
               else (([], Registering (c run)), s\<lparr>dm_store := d\<rparr>)))"

definition chat_begin ::
  "(store_error \<Rightarrow> string) \<Rightarrow> int \<Rightarrow> string + chat_params \<Rightarrow> (int \<times> string) + string \<Rightarrow> 'p frozen_route option \<Rightarrow>
   request_id \<Rightarrow> 'p daemon \<Rightarrow> (server_frame list \<times> phase) \<times> 'p daemon" where
  "chat_begin err_text now parsed runtime route i s =
     (if dm_shutdown s then (([send_result i (Inl (request_conflict, msg_closing))], Ended), s)
      else case parsed of
        Inl e \<Rightarrow> (([send_result i (Inl (invalid_params, e))], Ended), s)
      | Inr p \<Rightarrow>
          if is_blank (cp_message p) then (([send_result i (Inl (invalid_params, msg_empty_message))], Ended), s)
          else case runtime of
            Inl e \<Rightarrow> (([send_result i (Inl e)], Ended), s)
          | Inr sid \<Rightarrow> chat_admit err_text now sid p route i s)"

definition chat_register :: "chat \<Rightarrow> 'p daemon \<Rightarrow> (server_frame list \<times> phase) \<times> 'p daemon" where
  "chat_register c s =
     (if dm_active s (ch_key c) \<noteq> None then (([ch_frame c (Inr (busy_json (ch_run c)))], Ended), s)
      else
        let s = notify_waiters (s\<lparr>dm_active := (dm_active s)(ch_key c \<mapsto>
                  \<lparr>lv_active = with_origin (new_active (ch_id c)), lv_cancelled = False\<rparr>)\<rparr>)
        in (([], Polling c), s))"

text \<open>
  One round of the waiting loop, up to the point where it waits for a notification later than
  the ones it has seen (\<open>Queueing c n\<close>: \<open>n\<close> notifications).
\<close>

definition chat_poll ::
  "(store_error \<Rightarrow> string) \<Rightarrow> int \<Rightarrow> chat \<Rightarrow> 'p daemon \<Rightarrow> (server_frame list \<times> phase) \<times> 'p daemon" where
  "chat_poll err_text now c s =
     (if is_cancelled (ch_key c) s
      then (([ch_frame c (Inl (request_cancelled, msg_cancelled))], Ended),
            (remove_active (ch_key c) s)\<lparr>dm_routes := (dm_routes s)(ch_id c := None)\<rparr>)
      else case try_start_queued now (ch_id c) (dm_store s) of
        Inr (True, d) \<Rightarrow> (([], Preparing c), s\<lparr>dm_store := d\<rparr>)
      | Inr (False, d) \<Rightarrow> (([], Queueing c (dm_wakes s)), s\<lparr>dm_store := d\<rparr>)
      | Inl e \<Rightarrow> (([ch_frame c (Inl (internal_error, err_text e))], Ended), remove_active (ch_key c) s))"

definition chat_shutdown :: "chat \<Rightarrow> 'p daemon \<Rightarrow> (server_frame list \<times> phase) \<times> 'p daemon" where
  "chat_shutdown c s = (([], Ended), remove_active (ch_key c) s)"

text \<open>A run that cannot be prepared fails; the result of that write is not looked at.\<close>

definition chat_give_up ::
  "int \<Rightarrow> chat \<Rightarrow> int \<times> string \<Rightarrow> string \<Rightarrow> 'p daemon \<Rightarrow> (server_frame list \<times> phase) \<times> 'p daemon" where
  "chat_give_up now c err answer s =
     (let s = s\<lparr>dm_store := committed (finish now (ch_id c) RFailed None (Some err) (dm_store s)) (dm_store s)\<rparr> in
      (([ch_frame c (Inl (internal_error, answer))], Ended), remove_active (ch_key c) s))"

text \<open>
  The route of the run, frozen at admission or restored from its snapshot, and for a child the
  engine with its capabilities (\<open>capable\<close>).
\<close>

definition chat_prepare ::
  "int \<Rightarrow> (route_snapshot \<Rightarrow> string + 'p frozen_route) \<Rightarrow> string + unit \<Rightarrow> chat \<Rightarrow> 'p daemon \<Rightarrow>
   (server_frame list \<times> phase) \<times> 'p daemon" where
  "chat_prepare now restore_route capable c s =
     (let route = (case dm_routes s (ch_id c) of
                     Some r \<Rightarrow> Inr ()
                   | None \<Rightarrow> (case route_snapshot_of (dm_store s) (ch_id c) of
                       None \<Rightarrow> Inr ()
                     | Some snapshot \<Rightarrow> map_sum id (\<lambda>_. ()) (restore_route snapshot)));
          s = s\<lparr>dm_routes := (dm_routes s)(ch_id c := None)\<rparr>
      in case route of
           Inl e \<Rightarrow> chat_give_up now c (- 32002, msg_route_lost) (msg_route_lost @ '': '' @ e) s
         | Inr _ \<Rightarrow>
             (case (if ch_delegated c then capable else Inr ()) of
                Inl e \<Rightarrow> chat_give_up now c (internal_error, msg_capability_lost) e s
              | Inr _ \<Rightarrow> (([], Turning c), s)))"

text \<open>
  The answer of a turn: \<open>result\<close> is its text, or whether the error is \<open>RuntimeError::Cancelled\<close>
  and how it reads.
\<close>

definition chat_response ::
  "string option \<Rightarrow> bool \<Rightarrow> (bool \<times> string) + string \<Rightarrow> run_record \<Rightarrow> reply" where
  "chat_response storage_error cancelled result run =
     (case storage_error of
        Some e \<Rightarrow> Inl (internal_error, msg_event_lost @ e)
      | None \<Rightarrow>
          (case result of
             Inr content \<Rightarrow>
               if cancelled then Inl (request_cancelled, msg_cancelled)
               else Inr (JObj [(''content'', JStr content), (''run_id'', JStr (rec_run run)),
                               (''turn_id'', JStr (rec_turn run))])
           | Inl (by_cancel, e) \<Rightarrow>
               if cancelled \<or> by_cancel then Inl (request_cancelled, msg_cancelled) else Inl (internal_error, e)))"

definition terminal_status :: "reply \<Rightarrow> run_status" where
  "terminal_status r =
     (case r of Inr v \<Rightarrow> Completed | Inl (c, m) \<Rightarrow> if c = request_cancelled then RCancelled else RFailed)"

definition reply_content :: "reply \<Rightarrow> string option" where
  "reply_content r = (case r of Inr v \<Rightarrow> json_str (json_index ''content'' v) | Inl e \<Rightarrow> None)"

definition reply_error :: "reply \<Rightarrow> (int \<times> string) option" where
  "reply_error r = (case r of Inr v \<Rightarrow> None | Inl e \<Rightarrow> Some e)"

definition chat_commit ::
  "(store_error \<Rightarrow> string) \<Rightarrow> int \<Rightarrow> (bool \<times> string) + string \<Rightarrow> chat \<Rightarrow> 'p daemon \<Rightarrow>
   (server_frame list \<times> phase) \<times> 'p daemon" where
  "chat_commit err_text now result c s =
     (let storage_error = Option.bind (dm_active s (ch_key c)) (\<lambda>l. ac_storage_error (lv_active l));
          r = chat_response storage_error (is_cancelled (ch_key c) s) result (ch_run c)
      in case finish now (ch_id c) (terminal_status r) (reply_content r) (reply_error r) (dm_store s) of
           Inl e \<Rightarrow> (([ch_frame c (Inl (internal_error, msg_terminal_lost @ err_text e))], Ended), remove_active (ch_key c) s)
         | Inr (rec, d) \<Rightarrow>
             (([], Closing c rec (if rec_status rec = UnknownAfterRestart then Inl (- 32002, msg_unknown) else r)),
              s\<lparr>dm_store := d\<rparr>))"

definition chat_close ::
  "(json \<Rightarrow> string) \<Rightarrow> (store_error \<Rightarrow> string) \<Rightarrow> int \<Rightarrow> chat \<Rightarrow> run_record \<Rightarrow> reply \<Rightarrow> 'p daemon \<Rightarrow>
   (server_frame list \<times> phase) \<times> 'p daemon" where
  "chat_close render err_text now c rec r s =
     (let s = (if ch_delegated c
               then (case read_delegation_in (dm_store s) (ch_id c) of
                       None \<Rightarrow> s
                     | Some child \<Rightarrow> notify_delegation_parent render child DelegationTerminal s)
               else s);
          (f1, s) = (case rec_content rec of
                       None \<Rightarrow> ([], s)
                     | Some content \<Rightarrow> publish_committed_completion render (ch_key c) content s);
          (f2, s) = publish_update render err_text now (ch_key c) (UTerminal r) s
      in ((f1 @ f2, Ended), notify_waiters (remove_active (ch_key c) s)))"

section \<open>Cancellation\<close>

record cancel_params =
  cn_request :: "request_id option"
  cn_run :: "string option"
  cn_session :: "string option"

text \<open>The run a request for cancellation means; \<open>Inr None\<close> is an unknown request.\<close>

definition cancel_target ::
  "(store_error \<Rightarrow> string) \<Rightarrow> cancel_params \<Rightarrow> db \<Rightarrow> (int \<times> string) + run_record option" where
  "cancel_target err_text p d =
     (case cn_run p of
        Some rid \<Rightarrow>
          bindE (ok_or (invalid_params, msg_exact_cancel) (cn_session p)) (\<lambda>sid.
          bindE (map_sum (\<lambda>e. (internal_error, err_text e)) id (read_run_in d rid)) (\<lambda>found.
          bindE (ok_or (invalid_params, msg_run_missing) found) (\<lambda>run.
            if rec_session run \<noteq> sid then Inl (request_conflict, msg_run_foreign) else Inr (Some run))))
      | None \<Rightarrow>
          (case cn_request p of
             Some rq \<Rightarrow>
               map_sum (\<lambda>e. (request_conflict, err_text e)) id
                 (case cn_session p of Some sid \<Rightarrow> find_request d sid rq | None \<Rightarrow> find_request_unique d rq)
           | None \<Rightarrow> Inl (invalid_params, msg_cancel_what)))"

definition key_of_run :: "run_record \<Rightarrow> active_key" where
  "key_of_run r = \<lparr>ak_session = rec_session r, ak_request = rec_request r\<rparr>"

definition cancel_live :: "active_key \<Rightarrow> 'p daemon \<Rightarrow> 'p daemon" where
  "cancel_live k s =
     (case dm_active s k of
        None \<Rightarrow> s
      | Some l \<Rightarrow> s\<lparr>dm_active := (dm_active s)(k \<mapsto> l\<lparr>lv_cancelled := True\<rparr>)\<rparr>)"

definition cancel_json :: "bool \<Rightarrow> run_record \<Rightarrow> json \<Rightarrow> json" where
  "cancel_json b run status = JObj [(''cancelled'', JBool b), (''run_id'', JStr (rec_run run)), (''status'', status)]"

text \<open>A run that has left the queue; \<open>pending\<close>: the keys of the broker's table.\<close>

definition cancel_running ::
  "(nat \<Rightarrow> bool) \<Rightarrow> string list \<Rightarrow> run_record \<Rightarrow> 'p daemon \<Rightarrow> reply \<times> 'p daemon" where
  "cancel_running listening pending run s =
     (if \<not> busy (rec_status run) then (Inr (cancel_json False run (jstatus (rec_status run))), s)
      else case dm_active s (key_of_run run) of
        None \<Rightarrow> (Inr (JObj [(''cancelled'', JBool False), (''reason'', JStr msg_executor_gone), (''run_id'', JStr (rec_run run))]), s)
      | Some l \<Rightarrow>
          if ac_run (lv_active l) \<noteq> rec_run run
          then (Inr (JObj [(''cancelled'', JBool False), (''reason'', JStr msg_executor_gone), (''run_id'', JStr (rec_run run))]), s)
          else (Inr (cancel_json True run (JStr ''running'')),
                (cancel_live (key_of_run run) s)\<lparr>dm_broker :=
                  cancel_matching listening (Some (rec_session run)) (rec_request run) pending (dm_broker s)\<rparr>))"

definition cancel_one ::
  "(json \<Rightarrow> string) \<Rightarrow> (store_error \<Rightarrow> string) \<Rightarrow> int \<Rightarrow> (nat \<Rightarrow> bool) \<Rightarrow> string list \<Rightarrow> cancel_params \<Rightarrow> 'p daemon \<Rightarrow>
   reply \<times> 'p daemon" where
  "cancel_one render err_text now listening pending p s =
     (case cancel_target err_text p (dm_store s) of
        Inl e \<Rightarrow> (Inl e, s)
      | Inr None \<Rightarrow> (Inr (JObj [(''cancelled'', JBool False), (''reason'', JStr msg_request_missing)]), s)
      | Inr (Some run) \<Rightarrow>
          if rec_status run \<noteq> Queued then cancel_running listening pending run s
          else case remove_queued now (rec_run run) (dm_store s) of
            Inl e \<Rightarrow> (Inl (internal_error, err_text e), s)
          | Inr (True, d) \<Rightarrow>
              (Inr (cancel_json True run (JStr ''queued'')),
               notify_waiters (cancel_live (key_of_run run)
                 (publish_live render (key_of_run run) (UTerminal (Inl (request_cancelled, msg_cancelled))) (s\<lparr>dm_store := d\<rparr>))))
          | Inr (False, d) \<Rightarrow>
              (case read_run_in d (rec_run run) of
                 Inl e \<Rightarrow> (Inl (internal_error, err_text e), s\<lparr>dm_store := d\<rparr>)
               | Inr None \<Rightarrow> (Inl (invalid_params, msg_run_missing), s\<lparr>dm_store := d\<rparr>)
               | Inr (Some run) \<Rightarrow> cancel_running listening pending run (s\<lparr>dm_store := d\<rparr>)))"

text \<open>
  The runs below a cancelled one: passes over the children of the root until no run has a
  parent among the owned ones any more.
\<close>

fun own_pass ::
  "delegation_record list \<Rightarrow> string list \<times> (string \<times> string) list \<Rightarrow> string list \<times> (string \<times> string) list" where
  "own_pass [] ow = ow"
| "own_pass (g # rows) (owned, targets) =
     (if dg_parent_run (dr_row g) \<in> set owned \<and> dg_child_run (dr_row g) \<notin> set owned
      then own_pass rows (owned @ [dg_child_run (dr_row g)],
             targets @ [(dg_child_run (dr_row g), dg_child_session (dr_row g))])
      else own_pass rows (owned, targets))"

definition child_runs :: "delegation_record list \<Rightarrow> string set" where
  "child_runs rows = (\<lambda>g. dg_child_run (dr_row g)) ` set rows"

lemma own_pass_grows:
  "own_pass rows (owned, targets) = (owned', targets') \<Longrightarrow>
   \<exists>new. owned' = owned @ new \<and> set new \<subseteq> child_runs rows - set owned \<and> distinct new"
proof (induction rows "(owned, targets)" arbitrary: owned targets rule: own_pass.induct)
  case (2 g rows owned targets)
  let ?c = "dg_child_run (dr_row g)"
  show ?case
  proof (cases "dg_parent_run (dr_row g) \<in> set owned \<and> ?c \<notin> set owned")
    case True
    with 2 obtain new where "owned' = (owned @ [?c]) @ new" "set new \<subseteq> child_runs rows - set (owned @ [?c])" "distinct new"
      by fastforce
    with True show ?thesis by (intro exI [of _ "?c # new"]) (auto simp: child_runs_def)
  next
    case False
    with 2 show ?thesis by (fastforce simp: child_runs_def)
  qed
qed simp

function own_all ::
  "delegation_record list \<Rightarrow> string list \<times> (string \<times> string) list \<Rightarrow> string list \<times> (string \<times> string) list" where
  "own_all rows ow =
     (let next = own_pass rows ow in if length (fst next) = length (fst ow) then next else own_all rows next)"
  by pat_completeness auto
termination
proof (relation "measure (\<lambda>(rows, ow). card (child_runs rows - set (fst ow)))", simp)
  fix rows ow x
  assume x: "x = own_pass rows ow" and more: "length (fst x) \<noteq> length (fst ow)"
  obtain new where new: "fst x = fst ow @ new" "set new \<subseteq> child_runs rows - set (fst ow)"
    using own_pass_grows [of rows "fst ow" "snd ow" "fst x" "snd x"] x by auto
  with more have "new \<noteq> []" by auto
  with new have "child_runs rows - set (fst x) \<subset> child_runs rows - set (fst ow)" by (cases new) auto
  moreover have "finite (child_runs rows)" by (simp add: child_runs_def)
  ultimately show "((rows, x), (rows, ow)) \<in> measure (\<lambda>(rows, ow). card (child_runs rows - set (fst ow)))"
    by (simp add: psubset_card_mono)
qed

declare own_all.simps [simp del]

definition subtree :: "delegation_record list \<Rightarrow> string \<Rightarrow> (string \<times> string) list" where
  "subtree rows rid = snd (own_all rows ([rid], []))"

definition cancel ::
  "(json \<Rightarrow> string) \<Rightarrow> (store_error \<Rightarrow> string) \<Rightarrow> int \<Rightarrow> (nat \<Rightarrow> bool) \<Rightarrow> (broker \<Rightarrow> string list) \<Rightarrow> cancel_params \<Rightarrow>
   'p daemon \<Rightarrow> reply \<times> 'p daemon" where
  "cancel render err_text now listening pending p s =
     (let one = (\<lambda>p s. cancel_one render err_text now listening (pending (dm_broker s)) p s);
          (r, s) = one p s
      in case r of
           Inl e \<Rightarrow> (Inl e, s)
         | Inr v \<Rightarrow>
             (case json_str (json_index ''run_id'' v) of
                None \<Rightarrow> (Inr v, s)
              | Some rid \<Rightarrow>
                  let root = (case read_delegation_in (dm_store s) rid of None \<Rightarrow> rid | Some g \<Rightarrow> dg_root_run (dr_row g)) in
                  (case list_delegations (dm_store s) root of
                     Inl e \<Rightarrow> (Inl (internal_error, err_text e), s)
                   | Inr rows \<Rightarrow>
                       (Inr v, foldl (\<lambda>s (child, sid).
                          snd (one \<lparr>cn_request = None, cn_run = Some child, cn_session = Some sid\<rparr> s)) s (subtree rows rid)))))"

section \<open>Answers to interactions\<close>

record answer_params =
  ap_id :: string
  ap_approved :: "bool option"
  ap_session :: "string option"
  ap_owner :: "string option"
  ap_revision :: "int option"

definition accepted_json :: "(interaction_record \<Rightarrow> json) \<Rightarrow> interaction_record \<Rightarrow> json" where
  "accepted_json ir_json r = JObj [(''accepted'', JBool True), (''interaction'', ir_json r)]"

definition foreign_answer :: "answer_params \<Rightarrow> interaction_record \<Rightarrow> bool" where
  "foreign_answer p cur \<longleftrightarrow>
     (case ap_session p of None \<Rightarrow> False | Some sid \<Rightarrow> sid \<noteq> ir_session cur) \<or>
     (case ap_owner p of None \<Rightarrow> False | Some rid \<Rightarrow> rid \<noteq> ir_run cur)"

text \<open>A claim that went through although nobody waits for it any more makes its run uncertain.\<close>

definition close_orphan :: "int \<Rightarrow> string \<Rightarrow> db \<Rightarrow> db" where
  "close_orphan now i d =
     (case read_interaction d i of
        None \<Rightarrow> d
      | Some after \<Rightarrow>
          if ir_status after = Answered \<or> ir_status after = Rejected
          then committed (finish now (ir_run after) UnknownAfterRestart None (Some (- 32002, msg_approver_gone)) d) d
          else d)"

definition answer_interaction ::
  "(store_error \<Rightarrow> string) \<Rightarrow> (approval_error \<Rightarrow> string) \<Rightarrow> (interaction_record \<Rightarrow> json) \<Rightarrow> int \<Rightarrow> (nat \<Rightarrow> bool) \<Rightarrow> bool \<Rightarrow>
   answer_params \<Rightarrow> 'p daemon \<Rightarrow> reply \<times> 'p daemon" where
  "answer_interaction err_text ap_text ir_json now listening rejected p s =
     (case (if rejected then Some False else ap_approved p) of
        None \<Rightarrow> (Inl (invalid_params, msg_no_answer), s)
      | Some approved \<Rightarrow>
          (case read_interaction (dm_store s) (ap_id p) of
             None \<Rightarrow> (Inl (invalid_params, msg_interaction_missing), s)
           | Some cur \<Rightarrow>
               if foreign_answer p cur then (Inl (request_conflict, msg_interaction_owner), s)
               else
                 let revision = (case ap_revision p of None \<Rightarrow> ir_revision cur | Some n \<Rightarrow> n);
                     claim = claim_interaction now (ap_id p) (ir_session cur) (ir_run cur) revision approved (dm_store s)
                 in if ir_status cur = Pending
                    then (case respond_claimed listening (ap_id p) approved claim (dm_store s) (dm_broker s) of
                       (Inr r, d, b) \<Rightarrow> (Inr (accepted_json ir_json r), s\<lparr>dm_store := d, dm_broker := b\<rparr>)
                     | (Inl e, d, b) \<Rightarrow>
                         (Inl (request_conflict, ap_text e), s\<lparr>dm_store := close_orphan now (ap_id p) d, dm_broker := b\<rparr>))
                    else (case claim of
                       Inl e \<Rightarrow> (Inl (request_conflict, err_text e), s)
                     | Inr (r, d) \<Rightarrow> (Inr (accepted_json ir_json r), s\<lparr>dm_store := d\<rparr>))))"

end
