(* ===== verification/Context.thy ===== *)
theory Context
  imports ModelRequest Tools Plan Text_Words
begin

text \<open>
  The context manager of \<open>src/context.rs\<close>: the composed prompt, the two compression gates,
  the compression of old history into a summary, recursive summarisation in chunks and the
  configuration read from the environment.

  The provider that writes summaries is \<open>sm_reply\<close>: what a request gets back may depend on
  the requests before it. \<open>serde_json::to_string\<close> on messages, calls and specifications, the
  output of \<open>git branch\<close>, the plan and the matching skills at the moment of composing are
  inputs.
\<close>

section \<open>Configuration\<close>

record context_config =
  cc_token_budget :: nat
  cc_recent_messages :: nat
  cc_mild_percent :: nat
  cc_strong_percent :: nat
  cc_chunk_tokens :: nat

datatype config_error =
    NotANumber string | BudgetTooSmall | NoRecentMessages | BadThresholds

definition optional_usize :: "(string \<Rightarrow> string option) \<Rightarrow> string \<Rightarrow> nat \<Rightarrow> config_error + nat" where
  "optional_usize env n dflt =
     (case env n of None \<Rightarrow> Inr dflt | Some v \<Rightarrow> ok_or (NotANumber n) (parse_u64 v))"

definition context_config_from_env :: "(string \<Rightarrow> string option) \<Rightarrow> config_error + context_config" where
  "context_config_from_env env =
     bindE (optional_usize env ''CONTEXT_TOKEN_BUDGET'' 32000) (\<lambda>budget.
     bindE (optional_usize env ''CONTEXT_RECENT_MESSAGES'' 12) (\<lambda>recent.
     bindE (optional_usize env ''CONTEXT_MILD_PERCENT'' 60) (\<lambda>mild.
     bindE (optional_usize env ''CONTEXT_STRONG_PERCENT'' 85) (\<lambda>strong.
       if budget < 256 then Inl BudgetTooSmall
       else if recent = 0 then Inl NoRecentMessages
       else if mild = 0 \<or> mild \<ge> strong \<or> strong > 100 then Inl BadThresholds
       else Inr \<lparr>cc_token_budget = budget, cc_recent_messages = recent, cc_mild_percent = mild,
                 cc_strong_percent = strong, cc_chunk_tokens = max (budget div 3) 128\<rparr>))))"

definition config_ok :: "context_config \<Rightarrow> bool" where
  "config_ok c \<longleftrightarrow> 256 \<le> cc_token_budget c \<and> 0 < cc_recent_messages c \<and>
     0 < cc_mild_percent c \<and> cc_mild_percent c < cc_strong_percent c \<and> cc_strong_percent c \<le> 100 \<and>
     128 \<le> cc_chunk_tokens c \<and> cc_chunk_tokens c \<le> cc_token_budget c"

lemma bindE_Inr: "bindE m f = Inr y \<longleftrightarrow> (\<exists>x. m = Inr x \<and> f x = Inr y)"
  by (cases m) (simp_all add: bindE_def)

lemma context_config_ok: "context_config_from_env env = Inr c \<Longrightarrow> config_ok c"
  unfolding context_config_from_env_def bindE_Inr config_ok_def
  by (elim exE conjE) (simp split: if_splits, elim conjE, hypsubst, simp add: max_def)

section \<open>The composed prompt\<close>

record json_text =
  ser_messages :: "message list \<Rightarrow> string"
  ser_calls :: "tool_call list \<Rightarrow> string"
  ser_specs :: "tool_spec list \<Rightarrow> string"

record context_manager =
  cm_workspace :: string
  cm_system_prompt :: string
  cm_project_rules :: "string option"
  cm_config :: context_config

definition with_token_budget :: "nat \<Rightarrow> context_manager \<Rightarrow> context_manager" where
  "with_token_budget n cm = cm\<lparr>cm_config := (cm_config cm)\<lparr>cc_token_budget := n\<rparr>\<rparr>"

record compose_env =
  ce_git_branch :: "string option"
  ce_plan :: plan_store
  ce_skills :: "string \<Rightarrow> string option"

definition load_project_rules :: "(string \<Rightarrow> string) \<Rightarrow> string option \<Rightarrow> string option" where
  "load_project_rules lossy content = map_option (\<lambda>bytes. lossy (take (64 * 1024) bytes)) content"

definition msg_rules :: string where
  "msg_rules = utf8 [39033, 30446, 35268, 21017, 65288, 65, 71, 69, 78, 84, 83, 46, 109, 100, 65289, 65306]"

definition msg_cwd :: string where
  "msg_cwd = utf8 [21160, 24577, 29615, 22659, 65306, 99, 119, 100, 61]"

definition msg_branch :: string where
  "msg_branch = utf8 [65307, 103, 105, 116, 95, 98, 114, 97, 110, 99, 104, 61]"

definition msg_no_branch :: string where
  "msg_no_branch = utf8 [65288, 38750, 32, 71, 105, 116, 32, 20179, 24211, 25110, 32, 100, 101, 116,
     97, 99, 104, 101, 100, 32, 72, 69, 65, 68, 65289]"

text \<open>The text of the last user message, empty when there is none.\<close>

definition last_query :: "message list \<Rightarrow> string" where
  "last_query h =
     (case find (\<lambda>m. msg_role m = RUser) (rev h) of
        Some m \<Rightarrow> (case msg_content m of Some t \<Rightarrow> t | None \<Rightarrow> [])
      | None \<Rightarrow> [])"

definition dynamic_environment :: "context_manager \<Rightarrow> compose_env \<Rightarrow> message list \<Rightarrow> string" where
  "dynamic_environment cm e h =
     (let branch = (case ce_git_branch e of
            Some out \<Rightarrow> if trim out \<noteq> [] then trim out else msg_no_branch
          | None \<Rightarrow> msg_no_branch)
      in msg_cwd @ cm_workspace cm @ msg_branch @ branch @
         (case plan_context_block (ce_plan e) of Some p \<Rightarrow> [CHR 0x0A] @ p | None \<Rightarrow> []) @
         (case ce_skills e (last_query h) of Some s \<Rightarrow> [CHR 0x0A] @ s | None \<Rightarrow> []))"

definition compose :: "context_manager \<Rightarrow> compose_env \<Rightarrow> message list \<Rightarrow> message list" where
  "compose cm e h =
     [text_message RSystem (cm_system_prompt cm)] @
     (case cm_project_rules cm of
        Some rules \<Rightarrow> [text_message RSystem (msg_rules @ [CHR 0x0A] @ rules)] | None \<Rightarrow> []) @
     h @ [text_message RSystem (dynamic_environment cm e h)]"

section \<open>Summaries\<close>

datatype context_error =
    SummaryRequest model_error
  | SummaryToolCalls
  | SummaryInvalid stream_error

record summarizer =
  sm_enc :: "string \<Rightarrow> string"
  sm_parse :: "string \<Rightarrow> string + json"
  sm_reply :: "string list \<Rightarrow> string \<Rightarrow> model_error + provider_event list"

text \<open>\<open>log\<close> holds the sources sent for summarising so far.\<close>

definition request_summary ::
  "summarizer \<Rightarrow> string list \<Rightarrow> string \<Rightarrow> (context_error + string) \<times> string list" where
  "request_summary sm log txt =
     (case sm_reply sm log txt of
        Inl e \<Rightarrow> Inl (SummaryRequest e)
      | Inr evs \<Rightarrow>
          (case collect_response (sm_enc sm) (sm_parse sm) evs of
             Text summary \<Rightarrow> Inr summary
           | ToolCalls cs \<Rightarrow> Inl SummaryToolCalls
           | ToolAssemblyFailed e \<Rightarrow> Inl (SummaryInvalid e)),
      log @ [txt])"

fun request_summaries ::
  "summarizer \<Rightarrow> string list \<Rightarrow> string list \<Rightarrow> (context_error + string list) \<times> string list" where
  "request_summaries sm log [] = (Inr [], log)"
| "request_summaries sm log (c # cs) =
     (case request_summary sm log c of
        (Inl e, log) \<Rightarrow> (Inl e, log)
      | (Inr s, log) \<Rightarrow>
          (case request_summaries sm log cs of
             (Inl e, log) \<Rightarrow> (Inl e, log)
           | (Inr ss, log) \<Rightarrow> (Inr (s # ss), log)))"

text \<open>One pass over the characters; \<open>cur\<close> is the chunk being filled.\<close>

fun split_loop :: "nat \<Rightarrow> nat \<Rightarrow> string \<Rightarrow> string list \<Rightarrow> string list" where
  "split_loop limit budget cur [] = (if cur \<noteq> [] then [cur] else [])"
| "split_loop limit budget cur (k # ks) =
     (let cur' = cur @ k in
      if length (chars cur') \<ge> limit \<or> estimate_text_tokens cur' \<ge> budget
      then cur' # split_loop limit budget [] ks
      else split_loop limit budget cur' ks)"

definition split_for_token_budget :: "string \<Rightarrow> nat \<Rightarrow> string list" where
  "split_for_token_budget t budget = split_loop (max (usize_mul budget 3) 1) budget [] (chars t)"

definition msg_truncated :: string where
  "msg_truncated = utf8 [8230, 91, 25688, 35201, 24050, 25130, 26029, 93]"

definition truncate_chars :: "string \<Rightarrow> nat \<Rightarrow> string" where
  "truncate_chars t n = concat (take n (chars t)) @ (if length (chars t) > n then msg_truncated else [])"

function summarize_text ::
  "summarizer \<Rightarrow> nat \<Rightarrow> string \<Rightarrow> nat \<Rightarrow> string list \<Rightarrow> (context_error + string) \<times> string list" where
  "summarize_text sm chunk t depth log =
     (if depth \<ge> 8 then (Inr (truncate_chars t (usize_mul chunk 3)), log)
      else if estimate_text_tokens t \<le> chunk then request_summary sm log t
      else
        case request_summaries sm log (split_for_token_budget t chunk) of
          (Inl e, log) \<Rightarrow> (Inl e, log)
        | (Inr ss, log) \<Rightarrow> summarize_text sm chunk (join [CHR 0x0A, CHR 0x0A] ss) (Suc depth) log)"
  by pat_completeness auto
termination by (relation "measure (\<lambda>(sm, chunk, t, depth, log). 8 - depth)") auto

declare summarize_text.simps [simp del]

section \<open>Compression\<close>

datatype compression_mode = Mild | Strong

fun back_to_call :: "message list \<Rightarrow> nat \<Rightarrow> nat" where
  "back_to_call h 0 = 0"
| "back_to_call h (Suc n) =
     (if Suc n < length h \<and> msg_role (h ! Suc n) = RTool then back_to_call h n else Suc n)"

definition compression_split :: "compression_mode \<Rightarrow> nat \<Rightarrow> message list \<Rightarrow> nat" where
  "compression_split mode recent h =
     (let compressible = length h - recent in
      back_to_call h (case mode of Mild \<Rightarrow> max ((compressible + 2) div 3) 1 | Strong \<Rightarrow> compressible))"

definition msg_summary :: string where
  "msg_summary = utf8 [27492, 21069, 23545, 35805, 25688, 35201, 65306]"

definition compress_history ::
  "summarizer \<Rightarrow> json_text \<Rightarrow> context_config \<Rightarrow> compression_mode \<Rightarrow> message list \<Rightarrow>
   (context_error + message list) \<times> string list" where
  "compress_history sm js cc mode h =
     (if length h \<le> cc_recent_messages cc then (Inr h, [])
      else let split = compression_split mode (cc_recent_messages cc) h in
        if split = 0 then (Inr h, [])
        else case summarize_text sm (cc_chunk_tokens cc) (ser_messages js (take split h)) 0 [] of
            (Inl e, log) \<Rightarrow> (Inl e, log)
          | (Inr summary, log) \<Rightarrow>
              (Inr (text_message RSystem (msg_summary @ [CHR 0x0A] @ summary) # drop split h), log))"

definition compact_for_overflow ::
  "summarizer \<Rightarrow> json_text \<Rightarrow> context_config \<Rightarrow> message list \<Rightarrow>
   context_error + message list option" where
  "compact_for_overflow sm js cc ms =
     (if length ms \<le> 2 then Inr None
      else case fst (compress_history sm js cc Strong ms) of
          Inl e \<Rightarrow> Inl e
        | Inr ms' \<Rightarrow>
            if estimate_messages (ser_calls js) ms' < estimate_messages (ser_calls js) ms
            then Inr (Some ms') else Inr None)"

text \<open>
  \<open>prepare\<close> composes twice, before the gates and after them; \<open>e1\<close> and \<open>e2\<close> are what the
  environment answers each time. The result is the composed prompt and the new history.
\<close>

definition prepare ::
  "summarizer \<Rightarrow> json_text \<Rightarrow> context_manager \<Rightarrow> compose_env \<Rightarrow> compose_env \<Rightarrow>
   tool_spec list \<Rightarrow> message list \<Rightarrow> (context_error + message list) \<times> message list" where
  "prepare sm js cm e1 e2 tools h =
     (let cc = cm_config cm;
          total = estimate_messages (ser_calls js) (compose cm e1 h) + estimate_text_tokens (ser_specs js tools);
          mild = usize_mul (cc_token_budget cc) (cc_mild_percent cc) div 100;
          strong = usize_mul (cc_token_budget cc) (cc_strong_percent cc) div 100
      in case (if total > strong then fst (compress_history sm js cc Strong h)
               else if total > mild then fst (compress_history sm js cc Mild h)
               else Inr h) of
           Inl e \<Rightarrow> (Inl e, h)
         | Inr h' \<Rightarrow> (Inr (compose cm e2 h'), h'))"

section \<open>What the summariser is asked\<close>

definition chunk_ok :: "nat \<Rightarrow> nat \<Rightarrow> string \<Rightarrow> bool" where
  "chunk_ok limit budget c \<longleftrightarrow> c \<noteq> [] \<and> length (chars c) \<le> limit \<and> estimate_text_tokens c \<le> max budget 1"

lemma split_loop_concat: "concat (split_loop limit budget cur ks) = cur @ concat ks"
  by (induction limit budget cur ks rule: split_loop.induct) (auto simp: Let_def)

text \<open>What is true of the chunk being filled: it is still below both limits.\<close>

definition filling :: "nat \<Rightarrow> nat \<Rightarrow> string \<Rightarrow> bool" where
  "filling limit budget cur \<longleftrightarrow> length (chars cur) < limit \<and> (cur = [] \<or> estimate_text_tokens cur < budget)"

lemma chars_snoc: "is_char k \<Longrightarrow> s = [] \<or> starts_char k \<Longrightarrow> chars (s @ k) = chars s @ [k]"
  by (auto simp: chars_append chars_single)

lemma full_chunk_ok:
  assumes "filling limit budget cur" "is_char k" "cur = [] \<or> starts_char k"
  shows "chunk_ok limit budget (cur @ k)"
proof -
  have "estimate_text_tokens (cur @ k) \<le> Suc (estimate_text_tokens cur)"
    using estimate_step chars_snoc assms(2,3) by blast
  moreover have "cur = [] \<or> estimate_text_tokens cur < budget" using assms(1) by (simp add: filling_def)
  ultimately have "estimate_text_tokens (cur @ k) \<le> max budget 1" by fastforce
  moreover have "length (chars (cur @ k)) \<le> limit" "cur @ k \<noteq> []"
    using assms chars_snoc [OF assms(2,3)] by (auto simp: filling_def is_char_def)
  ultimately show ?thesis by (simp add: chunk_ok_def)
qed

text \<open>Every character but the first of a text begins with a byte that starts a character.\<close>

lemma chars_tl_start: "k \<in> set (tl (chars s)) \<Longrightarrow> starts_char k"
proof (induction s rule: chars.induct)
  case (2 c s)
  let ?d = "dropWhile (\<lambda>k. cont (byte k)) s"
  show ?case
  proof (cases ?d)
    case (Cons d ds)
    with starts_dropWhile [of s] have "starts_char (hd (chars ?d))" by (simp add: starts_char_def)
    with 2 Cons show ?thesis by (cases "chars ?d") auto
  next
    case Nil
    with 2(2) show ?thesis by (simp del: dropWhile_eq_Nil_conv)
  qed
qed simp

definition rest_ok :: "string \<Rightarrow> string list \<Rightarrow> bool" where
  "rest_ok cur ks \<longleftrightarrow> (\<forall>k \<in> set ks. is_char k) \<and> (\<forall>k \<in> set (if cur = [] then tl ks else ks). starts_char k)"

lemma split_loop_chunks:
  assumes "filling limit budget cur" "rest_ok cur ks"
  shows "\<forall>c \<in> set (split_loop limit budget cur ks). chunk_ok limit budget c"
  using assms
proof (induction limit budget cur ks rule: split_loop.induct)
  case (1 limit budget cur)
  then show ?case by (auto simp: chunk_ok_def filling_def)
next
  case (2 limit budget cur k ks)
  from 2(4) have k: "is_char k" "cur = [] \<or> starts_char k" "rest_ok [] ks" "rest_ok (cur @ k) ks"
    by (cases ks; auto simp: rest_ok_def is_char_def split: if_splits)+
  have ok: "chunk_ok limit budget (cur @ k)" by (rule full_chunk_ok) (use 2(3) k in simp_all)
  from 2(3) have e: "filling limit budget []" by (auto simp: filling_def)
  show ?case
  proof (cases "limit \<le> length (chars (cur @ k)) \<or> budget \<le> estimate_text_tokens (cur @ k)")
    case True
    with 2(1) [OF refl True e k(3)] ok show ?thesis by (simp add: Let_def)
  next
    case False
    then have "filling limit budget (cur @ k)" by (simp add: filling_def)
    from 2(2) [OF refl False this k(4)] False show ?thesis by (simp add: Let_def)
  qed
qed

lemma split_chunks:
  "concat (split_for_token_budget t budget) = t \<and>
   (\<forall>c \<in> set (split_for_token_budget t budget). chunk_ok (max (usize_mul budget 3) 1) budget c)"
proof -
  have "rest_ok [] (chars t)" by (auto simp: rest_ok_def chars_is_char chars_tl_start)
  moreover have "filling (max (usize_mul budget 3) 1) budget []" by (simp add: filling_def)
  ultimately show ?thesis
    using split_loop_chunks [of _ budget "[]" "chars t"] by (simp add: split_for_token_budget_def split_loop_concat)
qed

text \<open>Every request of a summarisation is for a text within the chunk budget.\<close>

definition requests_within :: "nat \<Rightarrow> string list \<Rightarrow> string list \<Rightarrow> bool" where
  "requests_within chunk log log' \<longleftrightarrow>
     (\<exists>new. log' = log @ new \<and> (\<forall>s \<in> set new. estimate_text_tokens s \<le> max chunk 1))"

lemma requests_within_refl: "requests_within chunk log log"
  by (simp add: requests_within_def)

lemma requests_within_trans:
  "requests_within chunk a b \<Longrightarrow> requests_within chunk b c \<Longrightarrow> requests_within chunk a c"
  by (force simp: requests_within_def)

lemma request_summary_within:
  "estimate_text_tokens s \<le> max chunk 1 \<Longrightarrow> requests_within chunk log (snd (request_summary sm log s))"
  by (simp add: requests_within_def request_summary_def)

lemma request_summaries_within:
  "\<forall>s \<in> set cs. estimate_text_tokens s \<le> max chunk 1 \<Longrightarrow>
   requests_within chunk log (snd (request_summaries sm log cs))"
proof (induction sm log cs rule: request_summaries.induct)
  case (2 sm log c cs)
  obtain r log1 where r: "request_summary sm log c = (r, log1)" by fastforce
  with 2(2) request_summary_within [of c chunk log sm] have w: "requests_within chunk log log1" by simp
  show ?case
  proof (cases r)
    case (Inr s)
    with 2 r have "requests_within chunk log1 (snd (request_summaries sm log1 cs))" by simp
    with w r Inr show ?thesis
      by (auto split: prod.split sum.split intro: requests_within_trans)
  qed (use w r in simp)
qed (simp add: requests_within_refl)

lemma summarize_within:
  "requests_within chunk log (snd (summarize_text sm chunk t depth log))"
proof (induction sm chunk t depth log rule: summarize_text.induct)
  case (1 sm chunk t depth log)
  obtain r log1 where r: "request_summaries sm log (split_for_token_budget t chunk) = (r, log1)" by fastforce
  then have w: "requests_within chunk log log1"
    using request_summaries_within [of "split_for_token_budget t chunk" chunk log sm] split_chunks [of t chunk]
    by (simp add: chunk_ok_def)
  show ?case
  proof (cases "depth \<ge> 8 \<or> estimate_text_tokens t \<le> chunk")
    case True
    then show ?thesis
      by (auto simp: summarize_text.simps [of sm chunk t depth log] requests_within_refl request_summary_within)
  next
    case False
    with 1 r w show ?thesis
      by (cases r) (auto simp: summarize_text.simps [of sm chunk t depth log] intro: requests_within_trans)
  qed
qed

section \<open>What compression keeps\<close>

text \<open>
  No orphan: every tool result stands in an unbroken row of tool results behind a message
  whose calls include the one it answers. Providers refuse a conversation in which this fails.
\<close>

fun paired_from :: "string list \<Rightarrow> message list \<Rightarrow> bool" where
  "paired_from ids [] = True"
| "paired_from ids (m # ms) =
     (if msg_role m = RTool
      then (case msg_call_id m of Some i \<Rightarrow> i \<in> set ids | None \<Rightarrow> False) \<and> paired_from ids ms
      else paired_from (map tc_id (msg_calls m)) ms)"

lemma paired_from_other:
  "m # ms = h \<Longrightarrow> msg_role m \<noteq> RTool \<Longrightarrow> paired_from ids h = paired_from ids' h"
  by auto

lemma paired_drop:
  "paired_from ids h \<Longrightarrow> n < length h \<Longrightarrow> msg_role (h ! n) \<noteq> RTool \<Longrightarrow> paired_from ids' (drop n h)"
proof (induction h arbitrary: ids n)
  case (Cons m h)
  then show ?case by (cases n) (auto split: if_splits)
qed simp

lemma back_to_call_spec:
  "back_to_call h n \<le> n \<and>
   (back_to_call h n < length h \<and> back_to_call h n \<noteq> 0 \<longrightarrow> msg_role (h ! back_to_call h n) \<noteq> RTool)"
  by (induction n) auto

lemma compression_split_le:
  assumes "recent < length h"
  shows "compression_split mode recent h \<le> length h - recent"
proof -
  let ?m = "case mode of Mild \<Rightarrow> max ((length h - recent + 2) div 3) 1 | Strong \<Rightarrow> length h - recent"
  have "?m \<le> length h - recent" using assms by (cases mode) auto
  moreover have "back_to_call h ?m \<le> ?m" using back_to_call_spec by blast
  ultimately show ?thesis by (simp add: compression_split_def Let_def)
qed

lemma compression_split_starts:
  assumes "compression_split mode recent h = n" "n \<noteq> 0" "n < length h"
  shows "msg_role (h ! n) \<noteq> RTool"
  using assms back_to_call_spec unfolding compression_split_def Let_def by blast

lemma compress_result:
  assumes "fst (compress_history sm js cc mode h) = Inr h2" and "h2 \<noteq> h"
  shows "\<exists>summary. h2 = text_message RSystem (msg_summary @ [CHR 0x0A] @ summary) #
      drop (compression_split mode (cc_recent_messages cc) h) h \<and>
    cc_recent_messages cc < length h \<and> compression_split mode (cc_recent_messages cc) h \<noteq> 0"
proof -
  let ?n = "compression_split mode (cc_recent_messages cc) h"
  have n: "cc_recent_messages cc < length h" "?n \<noteq> 0"
    using assms by (auto simp: compress_history_def Let_def split: if_splits)
  obtain r log where "summarize_text sm (cc_chunk_tokens cc) (ser_messages js (take ?n h)) 0 [] = (r, log)"
    by fastforce
  with assms(1) n show ?thesis by (cases r) (auto simp: compress_history_def Let_def)
qed

lemma compress_keeps:
  assumes "fst (compress_history sm js cc mode h) = Inr h2"
  shows "(h2 = h \<or> (\<exists>summary n. h2 = text_message RSystem (msg_summary @ [CHR 0x0A] @ summary) # drop n h \<and>
      0 < n \<and> n \<le> length h - cc_recent_messages cc)) \<and> (paired_from [] h \<longrightarrow> paired_from [] h2)"
proof (cases "h2 = h")
  case False
  let ?n = "compression_split mode (cc_recent_messages cc) h"
  obtain summary where h2: "h2 = text_message RSystem (msg_summary @ [CHR 0x0A] @ summary) # drop ?n h"
    and n: "cc_recent_messages cc < length h" "?n \<noteq> 0"
    using compress_result [OF assms False] by blast
  have "paired_from [] h2" if "paired_from [] h"
  proof (cases "?n < length h")
    case True
    from paired_drop [OF that True compression_split_starts [OF refl n(2) True]] show ?thesis
      by (simp add: h2 text_message_def)
  qed (simp add: h2 text_message_def)
  with h2 n compression_split_le [OF n(1)] show ?thesis by blast
qed simp

text \<open>The history after \<open>prepare\<close>: as it was, or cut before a message that is no tool result.\<close>

lemma prepare_result:
  assumes "prepare sm js cm e1 e2 sp h = (r, h')" and "h' \<noteq> h"
  shows "\<exists>summary n. h' = text_message RSystem summary # drop n h \<and>
    (n < length h \<longrightarrow> msg_role (h ! n) \<noteq> RTool)"
proof -
  from assms obtain mode where "fst (compress_history sm js (cm_config cm) mode h) = Inr h'"
    by (auto simp: prepare_def Let_def split: sum.splits if_splits)
  from compress_result [OF this assms(2)] show ?thesis
    using compression_split_starts [OF refl] by blast
qed

text \<open>
  C36: Compression. History is only ever shortened to a summary of its oldest part followed by
  the untouched rest: the newest \<open>recent\<close> messages stay as they are, and a conversation
  without orphaned tool results still has none. On any error the history is left alone.
\<close>

theorem compression_keeps_context:
  assumes "prepare sm js cm e1 e2 tools h = (res, h')"
  shows "(\<forall>e. res = Inl e \<longrightarrow> h' = h) \<and>
    (h' = h \<or> (\<exists>summary n. h' = text_message RSystem (msg_summary @ [CHR 0x0A] @ summary) # drop n h \<and>
       0 < n \<and> n \<le> length h - cc_recent_messages (cm_config cm))) \<and>
    (paired_from [] h \<longrightarrow> paired_from [] h') \<and>
    (\<forall>ms. res = Inr ms \<longrightarrow> ms = compose cm e2 h')"
  using assms compress_keeps by (auto simp: prepare_def Let_def split: sum.splits if_splits)

text \<open>
  Bounded summaries. Compressing a history ends after at most eight rounds of chunked
  summaries, and no request sent on the way asks for more than the chunk budget; the chunks of
  a text together are the text.
\<close>

theorem summary_requests_bounded:
  "(\<forall>s \<in> set (snd (compress_history sm js cc mode h)). estimate_text_tokens s \<le> max (cc_chunk_tokens cc) 1) \<and>
   concat (split_for_token_budget t b) = t \<and>
   (\<forall>c \<in> set (split_for_token_budget t b). c \<noteq> [] \<and> estimate_text_tokens c \<le> max b 1)"
proof -
  have "requests_within (cc_chunk_tokens cc) [] (snd (compress_history sm js cc mode h))"
    using summarize_within [of "cc_chunk_tokens cc" "[]" sm]
    by (auto simp: compress_history_def Let_def requests_within_refl split: prod.split sum.split) (metis snd_conv)+
  then show ?thesis using split_chunks [of t b] by (auto simp: requests_within_def chunk_ok_def)
qed

section \<open>A concrete conversation\<close>

definition plain_summarizer :: summarizer where
  "plain_summarizer = \<lparr>sm_enc = id, sm_parse = (\<lambda>s. Inr JNull), sm_reply = (\<lambda>log s. Inr [TextDelta ''s''])\<rparr>"

definition plain_json :: json_text where
  "plain_json = \<lparr>ser_messages = (\<lambda>ms. ''m''), ser_calls = (\<lambda>cs. []), ser_specs = (\<lambda>ts. [])\<rparr>"

definition tight_config :: context_config where
  "tight_config = \<lparr>cc_token_budget = 0, cc_recent_messages = 1, cc_mild_percent = 60, cc_strong_percent = 85,
     cc_chunk_tokens = 128\<rparr>"

definition tight_manager :: context_manager where
  "tight_manager = \<lparr>cm_workspace = ''w'', cm_system_prompt = ''p'', cm_project_rules = None, cm_config = tight_config\<rparr>"

definition quiet_env :: compose_env where
  "quiet_env = \<lparr>ce_git_branch = None, ce_plan = memory_only, ce_skills = (\<lambda>q. None)\<rparr>"

definition two_messages :: "message list" where
  "two_messages = [text_message RUser ''a'', text_message RUser ''b'']"

lemma estimate_m: "estimate_text_tokens ''m'' \<le> 1"
  by (simp add: estimate_text_tokens_def usize_mul_def usize_max_def is_cjk_def scalar_def byte_def)

lemma two_messages_compressed:
  "compress_history plain_summarizer plain_json tight_config Strong two_messages =
     (Inr [text_message RSystem (msg_summary @ [CHR 0x0A] @ ''s''), text_message RUser ''b''], [''m''])"
  using estimate_m
  by (simp add: compress_history_def tight_config_def two_messages_def compression_split_def text_message_def
      summarize_text.simps plain_json_def request_summary_def plain_summarizer_def collect_response_def
      assemble_def accept_def finish_def default_assembler_def)

lemma two_messages_total:
  "0 < estimate_messages (ser_calls plain_json) (compose tight_manager quiet_env two_messages)"
  by (simp add: compose_def estimate_messages_def estimate_message_def)

theorem compression_keeps_context_witness:
  "let (res, h') = prepare plain_summarizer plain_json tight_manager quiet_env quiet_env [] two_messages in
   h' = [text_message RSystem (msg_summary @ [CHR 0x0A] @ ''s''), text_message RUser ''b''] \<and>
   res = Inr (compose tight_manager quiet_env h') \<and> paired_from [] h'"
proof -
  obtain res h' where p: "prepare plain_summarizer plain_json tight_manager quiet_env quiet_env [] two_messages = (res, h')"
    by fastforce
  have c: "cm_config tight_manager = tight_config" "cc_token_budget tight_config = 0"
    by (simp_all add: tight_manager_def tight_config_def)
  with p two_messages_total two_messages_compressed
  have h': "h' = [text_message RSystem (msg_summary @ [CHR 0x0A] @ ''s''), text_message RUser ''b'']"
    and r: "\<exists>ms. res = Inr ms"
    by (auto simp: prepare_def Let_def usize_mul_def)
  have "paired_from [] two_messages" by (simp add: two_messages_def text_message_def)
  with compression_keeps_context [OF p] r h' have "res = Inr (compose tight_manager quiet_env h') \<and> paired_from [] h'"
    by blast
  with p h' show ?thesis by (simp del: paired_from.simps)
qed

theorem summary_requests_bounded_witness:
  "snd (compress_history plain_summarizer plain_json tight_config Strong two_messages) = [''m''] \<and>
   estimate_text_tokens ''m'' \<le> max (cc_chunk_tokens tight_config) 1"
proof -
  have e: "snd (compress_history plain_summarizer plain_json tight_config Strong two_messages) = [''m'']"
    by (simp only: two_messages_compressed snd_conv)
  then show ?thesis
    using conjunct1 [OF summary_requests_bounded [of plain_summarizer plain_json tight_config Strong two_messages]]
    by simp
qed

end
