(* ===== verification/Waves.thy ===== *)
theory Waves
  imports Prelude
begin

text \<open>
  The scheduler of tool calls: \<open>execute_in_waves\<close> of \<open>src/loop_engine.rs\<close>. A maximal run of
  read-only calls is one wave, driven by \<open>buffered(8)\<close>: calls start in order, at most eight
  are between their start and the delivery of their result, results are delivered in call
  order. Any other call is a wave of its own. The wave's results are examined only after
  the wave has ended; the first error ends the batch.

  Calls are numbers below \<open>n\<close>; \<open>ro i\<close> says that call \<open>i\<close> is read-only. \<open>wave_step\<close> is the
  scheduler with every interleaving it allows, \<open>execute_in_waves\<close> the batch as a function of
  the calls' results.
\<close>

section \<open>The batch as a function\<close>

text \<open>\<open>collect::<Result<Vec<_>>>\<close>: the first error, or all the values.\<close>

fun collect_results :: "('e + 'a) list \<Rightarrow> 'e + 'a list" where
  "collect_results [] = Inr []"
| "collect_results (r # rs) = bindE r (\<lambda>x. bindE (collect_results rs) (\<lambda>xs. Inr (x # xs)))"

definition wave_end :: "(nat \<Rightarrow> bool) \<Rightarrow> nat \<Rightarrow> nat \<Rightarrow> nat" where
  "wave_end ro n i =
     (if ro i then Suc i + length (takeWhile ro [Suc i ..< n]) else Suc i)"

lemma wave_end_gt: "i < wave_end ro n i"
  by (simp add: wave_end_def)

lemma wave_end_le: "i < n \<Longrightarrow> wave_end ro n i \<le> n"
  using length_takeWhile_le [of ro "[Suc i ..< n]"] by (auto simp: wave_end_def)

function execute_in_waves :: "(nat \<Rightarrow> bool) \<Rightarrow> nat \<Rightarrow> (nat \<Rightarrow> 'e + 'a) \<Rightarrow> nat \<Rightarrow> 'e + 'a list" where
  "execute_in_waves ro n outcome i =
     (if i \<ge> n then Inr []
      else bindE (collect_results (map outcome [i ..< wave_end ro n i])) (\<lambda>batch.
           bindE (execute_in_waves ro n outcome (wave_end ro n i)) (\<lambda>rest. Inr (batch @ rest))))"
  by pat_completeness auto
termination
  by (relation "measure (\<lambda>(ro, n, outcome, i). n - i)") (auto simp: diff_less_mono2 wave_end_gt)

declare execute_in_waves.simps [simp del]

section \<open>The scheduler\<close>

record ('e, 'a) wave =
  w_cursor :: nat
  w_end :: nat
  w_started :: nat
  w_yielded :: nat
  w_results :: "nat \<Rightarrow> ('e + 'a) option"

definition wave_init :: "(nat \<Rightarrow> bool) \<Rightarrow> nat \<Rightarrow> ('e, 'a) wave" where
  "wave_init ro n =
     \<lparr>w_cursor = 0, w_end = (if n = 0 then 0 else wave_end ro n 0), w_started = 0, w_yielded = 0,
      w_results = Map.empty\<rparr>"

definition wave_batch :: "('e, 'a) wave \<Rightarrow> 'e + 'a list" where
  "wave_batch w = collect_results (map (\<lambda>i. the (w_results w i)) [w_cursor w ..< w_end w])"

inductive wave_step :: "(nat \<Rightarrow> bool) \<Rightarrow> nat \<Rightarrow> ('e, 'a) wave \<Rightarrow> ('e, 'a) wave \<Rightarrow> bool" for ro n where
  start: "w_started w < w_end w \<Longrightarrow> w_started w < w_yielded w + 8 \<Longrightarrow>
     wave_step ro n w (w\<lparr>w_started := Suc (w_started w)\<rparr>)"
| finish: "i < w_started w \<Longrightarrow> w_results w i = None \<Longrightarrow>
     wave_step ro n w (w\<lparr>w_results := (w_results w)(i \<mapsto> r)\<rparr>)"
| yield: "w_yielded w < w_started w \<Longrightarrow> w_results w (w_yielded w) \<noteq> None \<Longrightarrow>
     wave_step ro n w (w\<lparr>w_yielded := Suc (w_yielded w)\<rparr>)"
| advance: "w_yielded w = w_end w \<Longrightarrow> w_end w < n \<Longrightarrow> wave_batch w = Inr rs \<Longrightarrow>
     wave_step ro n w (w\<lparr>w_cursor := w_end w, w_end := wave_end ro n (w_end w)\<rparr>)"

inductive_cases wave_stepE: "wave_step ro n w w'"
inductive_simps wave_step_iff: "wave_step ro n w w'"

definition wave_over :: "nat \<Rightarrow> ('e, 'a) wave \<Rightarrow> bool" where
  "wave_over n w \<longleftrightarrow> w_yielded w = w_end w \<and> (w_end w = n \<or> isl (wave_batch w))"

definition running :: "('e, 'a) wave \<Rightarrow> nat set" where
  "running w = {i. i < w_started w \<and> w_results w i = None}"

abbreviation wave_reachable :: "(nat \<Rightarrow> bool) \<Rightarrow> nat \<Rightarrow> ('e, 'a) wave \<Rightarrow> bool" where
  "wave_reachable ro n \<equiv> (wave_step ro n)\<^sup>*\<^sup>* (wave_init ro n)"

section \<open>The invariant\<close>

definition end_of :: "(nat \<Rightarrow> bool) \<Rightarrow> nat \<Rightarrow> nat \<Rightarrow> nat" where
  "end_of ro n c = (if c < n then wave_end ro n c else n)"

definition wave_ok :: "(nat \<Rightarrow> bool) \<Rightarrow> nat \<Rightarrow> ('e, 'a) wave \<Rightarrow> bool" where
  "wave_ok ro n w \<longleftrightarrow>
     w_cursor w \<le> w_yielded w \<and> w_yielded w \<le> w_started w \<and> w_started w \<le> w_end w \<and> w_end w \<le> n \<and>
     w_started w \<le> w_yielded w + 8 \<and>
     (\<forall>i. w_results w i \<noteq> None \<longrightarrow> i < w_started w) \<and>
     (\<forall>i < w_yielded w. w_results w i \<noteq> None) \<and>
     (\<forall>i < w_cursor w. \<exists>x. w_results w i = Some (Inr x)) \<and>
     end_of ro n (w_cursor w) = w_end w"

lemma collect_results_Inr: "collect_results rs = Inr xs \<longleftrightarrow> rs = map Inr xs"
proof (induction rs arbitrary: xs)
  case (Cons r rs)
  show ?case
  proof (cases r)
    case Inl
    then show ?thesis by (cases xs) (simp_all add: bindE_def)
  next
    case r: (Inr x)
    show ?thesis
    proof (cases "collect_results rs")
      case Inl
      then have "rs \<noteq> map Inr ys" for ys using Cons.IH [of ys] by simp
      with Inl r show ?thesis by (cases xs) (simp_all add: bindE_def)
    next
      case (Inr ys)
      then have "rs = map Inr ys" using Cons.IH by blast
      with Inr r show ?thesis by (cases xs) (auto simp: bindE_def inj_map_eq_map)
    qed
  qed
qed auto

lemma wave_batch_Inr:
  assumes "wave_batch w = Inr rs" "w_cursor w \<le> i" "i < w_end w"
  shows "the (w_results w i) = Inr (rs ! (i - w_cursor w))"
proof -
  from assms(1) have eq: "map (\<lambda>i. the (w_results w i)) [w_cursor w ..< w_end w] = map Inr rs"
    by (simp add: wave_batch_def collect_results_Inr)
  then have "length rs = w_end w - w_cursor w" by (metis length_map length_upt)
  moreover have "[w_cursor w ..< w_end w] ! (i - w_cursor w) = i" using assms(2,3) by simp
  ultimately show ?thesis
    using arg_cong [OF eq, of "\<lambda>l. l ! (i - w_cursor w)"] assms(2,3) by simp
qed

lemma wave_init_ok: "wave_ok ro n (wave_init ro n)"
  by (simp add: wave_ok_def wave_init_def wave_end_le end_of_def)

lemma wave_step_ok: "wave_step ro n w w' \<Longrightarrow> wave_ok ro n w \<Longrightarrow> wave_ok ro n w'"
proof (induction rule: wave_step.induct)
  case (advance w rs)
  have res: "\<exists>x. w_results w i = Some (Inr x)" if "i < w_end w" for i
  proof (cases "i < w_cursor w")
    case True
    with advance.prems show ?thesis by (simp add: wave_ok_def)
  next
    case False
    then have "the (w_results w i) = Inr (rs ! (i - w_cursor w))" by (intro wave_batch_Inr [OF advance(3)]) (use that in simp_all)
    moreover have "w_results w i \<noteq> None" using advance.prems advance(1) that by (simp add: wave_ok_def)
    ultimately show ?thesis by auto
  qed
  moreover have "w_end w < wave_end ro n (w_end w)" "wave_end ro n (w_end w) \<le> n"
    using advance(2) by (simp_all add: wave_end_gt wave_end_le)
  ultimately show ?case
    using advance by (simp add: wave_ok_def end_of_def)
next
  case (yield w)
  have "\<exists>y. w_results w i = Some y" if "i < Suc (w_yielded w)" for i
    using that yield by (cases "i = w_yielded w") (auto simp: wave_ok_def)
  with yield show ?case by (auto simp: wave_ok_def Suc_le_eq)
qed (auto simp: wave_ok_def less_Suc_eq)

lemma reachable_ok: "wave_reachable ro n w \<Longrightarrow> wave_ok ro n w"
  by (induction rule: rtranclp_induct) (auto intro: wave_init_ok wave_step_ok)

section \<open>Every schedule gives the same answer\<close>

definition agrees :: "(nat \<Rightarrow> 'e + 'a) \<Rightarrow> ('e, 'a) wave \<Rightarrow> bool" where
  "agrees outcome w \<longleftrightarrow> (\<forall>i r. w_results w i = Some r \<longrightarrow> r = outcome i)"

definition wave_answer :: "('e, 'a) wave \<Rightarrow> 'e + 'a list" where
  "wave_answer w =
     bindE (wave_batch w) (\<lambda>rs. Inr (map (\<lambda>i. projr (the (w_results w i))) [0 ..< w_cursor w] @ rs))"

lemma wave_step_results:
  "wave_step ro n w w' \<Longrightarrow> w_results w i = Some r \<Longrightarrow> w_results w' i = Some r"
  by (induction rule: wave_step.induct) auto

lemma agrees_before: "wave_step ro n w w' \<Longrightarrow> agrees outcome w' \<Longrightarrow> agrees outcome w"
  using wave_step_results by (fastforce simp: agrees_def)

lemma agrees_batch:
  assumes "wave_ok ro n w" "w_yielded w = w_end w" "agrees outcome w"
  shows "wave_batch w = collect_results (map outcome [w_cursor w ..< w_end w])"
proof -
  have "the (w_results w i) = outcome i" if "i < w_end w" for i
    using assms that by (fastforce simp: wave_ok_def agrees_def)
  then show ?thesis by (auto simp: wave_batch_def intro!: arg_cong [of _ _ collect_results])
qed

lemma execute_unfold:
  assumes "wave_ok ro n w" "w_cursor w < n" "w_yielded w = w_end w" "agrees outcome w"
  shows "execute_in_waves ro n outcome (w_cursor w) =
    bindE (wave_batch w) (\<lambda>batch. bindE (execute_in_waves ro n outcome (w_end w)) (\<lambda>rest. Inr (batch @ rest)))"
proof -
  have "wave_end ro n (w_cursor w) = w_end w" using assms(1,2) by (simp add: wave_ok_def end_of_def)
  then show ?thesis
    using assms(2) by (simp add: execute_in_waves.simps [of ro n outcome "w_cursor w"] agrees_batch [OF assms(1,3,4)])
qed

definition prefix_done :: "(nat \<Rightarrow> bool) \<Rightarrow> nat \<Rightarrow> (nat \<Rightarrow> 'e + 'a) \<Rightarrow> nat \<Rightarrow> bool" where
  "prefix_done ro n outcome c \<longleftrightarrow>
     execute_in_waves ro n outcome 0 =
       bindE (execute_in_waves ro n outcome c) (\<lambda>rest. Inr (map (\<lambda>i. projr (outcome i)) [0 ..< c] @ rest))"

lemma batch_values:
  assumes "collect_results (map outcome [c ..< e]) = Inr rs"
  shows "rs = map (\<lambda>i. projr (outcome i)) [c ..< e]"
proof -
  from assms have eq: "map outcome [c ..< e] = map Inr rs" by (simp only: collect_results_Inr)
  have "map (\<lambda>i. projr (outcome i)) [c ..< e] = map projr (map outcome [c ..< e])" by simp
  also have "\<dots> = rs" unfolding eq by (simp add: comp_def)
  finally show ?thesis by simp
qed

lemma reachable_prefix_done:
  "wave_reachable ro n w \<Longrightarrow> agrees outcome w \<Longrightarrow> prefix_done ro n outcome (w_cursor w)"
proof (induction rule: rtranclp_induct)
  case base
  show ?case by (simp add: prefix_done_def wave_init_def bindE_def split: sum.split)
next
  case (step w w')
  then have IH: "prefix_done ro n outcome (w_cursor w)" and ag: "agrees outcome w"
    using agrees_before by blast+
  from step(2) show ?case
  proof cases
    case (advance rs)
    note ok = reachable_ok [OF step(1)]
    have c: "w_cursor w < n" using ok advance(3) by (auto simp: wave_ok_def end_of_def split: if_splits)
    have rs: "rs = map (\<lambda>i. projr (outcome i)) [w_cursor w ..< w_end w]"
      by (rule batch_values) (use agrees_batch [OF ok advance(2) ag] advance(4) in simp)
    moreover have "[0 ..< w_end w] = [0 ..< w_cursor w] @ [w_cursor w ..< w_end w]"
      using ok by (metis le_trans upt_add_eq_append le_add_diff_inverse le0 wave_ok_def)
    ultimately show ?thesis
      using IH execute_unfold [OF ok c advance(2) ag] advance
      by (simp add: prefix_done_def bindE_def split: sum.splits)
  qed (use IH in simp_all)
qed

lemma schedule_answer:
  assumes "wave_reachable ro n w" "wave_over n w" "agrees outcome w"
  shows "wave_answer w = execute_in_waves ro n outcome 0"
proof -
  note ok = reachable_ok [OF assms(1)]
  have y: "w_yielded w = w_end w" using assms(2) by (simp add: wave_over_def)
  have pre: "map (\<lambda>i. projr (the (w_results w i))) [0 ..< w_cursor w] = map (\<lambda>i. projr (outcome i)) [0 ..< w_cursor w]"
    using ok assms(3) by (fastforce simp: wave_ok_def agrees_def)
  note pd = reachable_prefix_done [OF assms(1,3), unfolded prefix_done_def]
  show ?thesis
  proof (cases "w_cursor w < n")
    case True
    show ?thesis
    proof (cases "wave_batch w")
      case (Inl e)
      with pd execute_unfold [OF ok True y assms(3)] show ?thesis by (simp add: wave_answer_def bindE_def)
    next
      case (Inr rs)
      with assms(2) have "w_end w = n" by (simp add: wave_over_def)
      with Inr pd execute_unfold [OF ok True y assms(3)] pre show ?thesis
        by (simp add: wave_answer_def bindE_def execute_in_waves.simps [of ro n outcome n])
    qed
  next
    case False
    with ok have c: "w_cursor w = n" "w_end w = n" by (auto simp: wave_ok_def end_of_def split: if_splits)
    then have "wave_batch w = Inr []" by (simp add: wave_batch_def)
    with c pd pre show ?thesis by (simp add: wave_answer_def bindE_def execute_in_waves.simps [of ro n outcome n])
  qed
qed

section \<open>Isolation and progress\<close>

lemma wave_end_ro:
  assumes "i < j" "j < wave_end ro n i"
  shows "ro i \<and> ro j"
proof -
  have r: "ro i" using assms by (auto simp: wave_end_def split: if_splits)
  let ?l = "[Suc i ..< n]"
  have "j - Suc i < length (takeWhile ro ?l)" using assms r by (simp add: wave_end_def)
  moreover from this have "takeWhile ro ?l ! (j - Suc i) = ?l ! (j - Suc i)" by (rule takeWhile_nth)
  moreover have "?l ! (j - Suc i) = j"
    using calculation(1) assms(1) length_takeWhile_le [of ro ?l] by (simp add: nth_upt)
  ultimately show ?thesis using r by (metis nth_mem set_takeWhileD)
qed

lemma running_cursor:
  assumes "wave_ok ro n w" "i \<in> running w" "\<not> ro i"
  shows "w_cursor w = i \<and> w_end w = Suc i \<and> i < w_started w \<and> w_results w i = None"
proof -
  from assms(1,2) have i: "w_yielded w \<le> i" "i < w_started w" "w_results w i = None"
    by (auto simp: running_def wave_ok_def not_less [symmetric])
  with assms(1) have c: "w_cursor w \<le> i" "i < w_end w" "w_cursor w < n" "w_end w = wave_end ro n (w_cursor w)"
    by (auto simp: wave_ok_def end_of_def split: if_splits)
  have "\<not> w_cursor w < i"
  proof
    assume "w_cursor w < i"
    from wave_end_ro [OF this, of ro n] c assms(3) show False by simp
  qed
  with c(1) have ci: "w_cursor w = i" by simp
  with c(4) assms(3) have "w_end w = Suc i" by (simp only: wave_end_def if_False)
  with ci i show ?thesis by simp
qed

lemma running_alone:
  assumes "wave_ok ro n w" "i \<in> running w" "\<not> ro i"
  shows "running w = {i} \<and> w_started w = Suc i \<and> (\<forall>j < i. \<exists>x. w_results w j = Some (Inr x))"
proof -
  note c = running_cursor [OF assms]
  with assms(1) have "w_started w = Suc i" "\<forall>j < i. \<exists>x. w_results w j = Some (Inr x)"
    by (simp_all add: wave_ok_def)
  with c show ?thesis by (fastforce simp: running_def less_Suc_eq)
qed

lemma running_bound: "wave_ok ro n w \<Longrightarrow> card (running w) \<le> 8"
proof -
  assume ok: "wave_ok ro n w"
  then have "running w \<subseteq> {w_yielded w ..< w_started w}"
    by (auto simp: running_def wave_ok_def not_less [symmetric])
  then have "card (running w) \<le> card {w_yielded w ..< w_started w}" by (intro card_mono) simp_all
  moreover have "w_started w - w_yielded w \<le> 8" using ok by (simp add: wave_ok_def le_diff_conv)
  ultimately show ?thesis by simp
qed

lemma wave_progress:
  assumes "wave_ok ro n w" "\<not> wave_over n w"
  shows "\<exists>w'. wave_step ro n w w'"
proof (cases "w_yielded w = w_end w")
  case True
  with assms obtain rs where "wave_batch w = Inr rs" "w_end w < n"
    by (cases "wave_batch w") (auto simp: wave_over_def wave_ok_def)
  with True show ?thesis by (blast intro: advance)
next
  case False
  show ?thesis
  proof (cases "w_yielded w < w_started w")
    case True
    then show ?thesis
      by (cases "w_results w (w_yielded w)") (blast intro: finish, metis yield option.distinct(1))
  next
    case nostart: False
    with False assms(1) have "w_started w < w_end w" "w_started w < w_yielded w + 8" by (auto simp: wave_ok_def)
    then show ?thesis by (blast intro: start)
  qed
qed

section \<open>The properties\<close>

text \<open>
  C33: Waves are deterministic. However the calls of a batch overlap and whichever ends first,
  a finished batch answers what running its waves in order would: all results in call order,
  or the error of the first failed call of the first failed wave. A batch that has not ended
  can always go on.
\<close>

theorem waves_deterministic:
  assumes "wave_reachable ro n w"
  shows "(wave_over n w \<and> agrees outcome w \<longrightarrow> wave_answer w = execute_in_waves ro n outcome 0) \<and>
    (\<not> wave_over n w \<longrightarrow> (\<exists>w'. wave_step ro n w w'))"
  using assms schedule_answer wave_progress reachable_ok by metis

text \<open>
  C34: Side effects are isolated. At most eight calls are in flight, and a call that is not
  read-only runs alone: every earlier call has ended and no later one has started.
\<close>

theorem waves_isolated:
  assumes "wave_reachable ro n w"
  shows "card (running w) \<le> 8 \<and>
    (\<forall>i \<in> running w. \<not> ro i \<longrightarrow> running w = {i} \<and> w_started w = Suc i \<and>
       (\<forall>j < i. \<exists>x. w_results w j = Some (Inr x)))"
  using running_alone [OF reachable_ok [OF assms]] running_bound [OF reachable_ok [OF assms]] by blast

definition sample_wave :: "nat \<Rightarrow> nat \<Rightarrow> (nat \<Rightarrow> (bool + nat) option) \<Rightarrow> (bool, nat) wave" where
  "sample_wave s y m = \<lparr>w_cursor = 0, w_end = 2, w_started = s, w_yielded = y, w_results = m\<rparr>"

abbreviation both_read :: "nat \<Rightarrow> bool" where
  "both_read \<equiv> \<lambda>i. True"

lemma sample_steps:
  "wave_step both_read 2 (sample_wave 0 0 m) (sample_wave 1 0 m)"
  "wave_step both_read 2 (sample_wave 1 0 m) (sample_wave 2 0 m)"
  "m i = None \<Longrightarrow> i < 2 \<Longrightarrow> wave_step both_read 2 (sample_wave 2 0 m) (sample_wave 2 0 (m(i \<mapsto> r)))"
  "m 0 \<noteq> None \<Longrightarrow> wave_step both_read 2 (sample_wave 2 0 m) (sample_wave 2 1 m)"
  "m 1 \<noteq> None \<Longrightarrow> wave_step both_read 2 (sample_wave 2 1 m) (sample_wave 2 2 m)"
  using wave_step.start [of "sample_wave 0 0 m" both_read 2] wave_step.start [of "sample_wave 1 0 m" both_read 2]
    wave_step.finish [of i "sample_wave 2 0 m" both_read 2 r] wave_step.yield [of "sample_wave 2 0 m" both_read 2]
    wave_step.yield [of "sample_wave 2 1 m" both_read 2]
  by (simp_all add: sample_wave_def numeral_2_eq_2)

lemma sample_init: "wave_init both_read 2 = sample_wave 0 0 Map.empty"
  by (simp add: wave_init_def sample_wave_def wave_end_def upt_rec)

text \<open>Both calls run at once and the second one ends first.\<close>

lemma sample_reachable:
  "wave_reachable both_read 2 (sample_wave 2 2 [1 \<mapsto> Inr 20, 0 \<mapsto> Inr 10])"
proof -
  have "wave_reachable both_read 2 (sample_wave 1 0 Map.empty)"
    using sample_steps(1) by (simp add: sample_init r_into_rtranclp)
  also have "wave_step both_read 2 (sample_wave 1 0 Map.empty) (sample_wave 2 0 Map.empty)"
    by (rule sample_steps)
  also have "wave_step both_read 2 (sample_wave 2 0 Map.empty) (sample_wave 2 0 [1 \<mapsto> Inr 20])"
    by (rule sample_steps) simp_all
  also have "wave_step both_read 2 (sample_wave 2 0 [1 \<mapsto> Inr 20]) (sample_wave 2 0 [1 \<mapsto> Inr 20, 0 \<mapsto> Inr 10])"
    by (rule sample_steps) simp_all
  also have "wave_step both_read 2 \<dots> (sample_wave 2 1 [1 \<mapsto> Inr 20, 0 \<mapsto> Inr 10])"
    by (rule sample_steps) simp
  also have "wave_step both_read 2 \<dots> (sample_wave 2 2 [1 \<mapsto> Inr 20, 0 \<mapsto> Inr 10])"
    by (rule sample_steps) simp
  finally show ?thesis .
qed

definition sample_outcome :: "nat \<Rightarrow> bool + nat" where
  "sample_outcome i = (if i = 0 then Inr 10 else Inr 20)"

theorem waves_deterministic_witness:
  "wave_answer (sample_wave 2 2 [1 \<mapsto> Inr 20, 0 \<mapsto> Inr 10]) = execute_in_waves both_read 2 sample_outcome 0"
proof -
  let ?w = "sample_wave 2 2 [1 \<mapsto> Inr 20, 0 \<mapsto> Inr 10]"
  have "wave_over 2 ?w" by (simp add: wave_over_def sample_wave_def)
  moreover have "agrees sample_outcome ?w"
    by (simp add: agrees_def sample_wave_def sample_outcome_def)
  ultimately show ?thesis using waves_deterministic [OF sample_reachable, of sample_outcome] by blast
qed

theorem waves_isolated_witness:
  "running (wave_init (\<lambda>i. False) 2\<lparr>w_started := 1\<rparr> :: (bool, nat) wave) = {0} \<and>
   w_started (wave_init (\<lambda>i. False) 2\<lparr>w_started := 1\<rparr> :: (bool, nat) wave) = 1"
proof -
  let ?w = "wave_init (\<lambda>i. False) 2\<lparr>w_started := 1\<rparr> :: (bool, nat) wave"
  have "wave_step (\<lambda>i. False) 2 (wave_init (\<lambda>i. False) 2) ?w"
    using wave_step.start [of "wave_init (\<lambda>i. False) 2 :: (bool, nat) wave" "\<lambda>i. False" 2]
    by (simp add: wave_init_def wave_end_def)
  then have "wave_reachable (\<lambda>i. False) 2 ?w" by (rule r_into_rtranclp)
  from conjunct2 [OF waves_isolated [OF this]] have "\<forall>i \<in> running ?w. running ?w = {i}" by blast
  moreover have "0 \<in> running ?w" by (simp add: running_def wave_init_def)
  ultimately show ?thesis by (simp add: wave_init_def)
qed

end
