(* ===== verification/Loop.thy ===== *)
theory Loop
  imports Context Waves
begin

text \<open>
  The agent loop of \<open>src/loop_engine.rs\<close>: \<open>run_turn_inner\<close> with its rounds, \<open>execute_in_waves\<close> and
  \<open>execute_one\<close>, the token budget, the repeat detector and the failure breaker, and
  \<open>for_delegation\<close>.

  A turn leaves a trace of effects in order: events shown, messages appended to the session,
  model requests, calls of the audit store and tools that act. What the outside decides
  (cancellation, whether an append or a store call succeeds, what a tool returns, the
  environment of a model request) is a function of the trace so far, so it may depend on
  everything that has happened. The calls of a read-only wave appear in the trace one after
  the other; theory Waves shows that overlapping them changes nothing in the results.
  Session trace records are best effort in the code (a failure is only logged) and are left out.
\<close>

section \<open>Data\<close>

datatype turn_event =
    TurnStarted
  | ToolStarted string string nat
  | ToolFinished string string string nat bool "string option"
  | TurnCompleted string

datatype effect =
    Emit turn_event
  | Appended message
  | ModelCalled "message list" "tool_spec list"
  | BatchPrepared nat "(tool_call \<times> string \<times> string) list"
  | CallStarted nat string
  | ToolRan tool_call
  | CallFinished nat string string string json
  | BatchFinished nat

type_synonym trace = "effect list"

record tool_fingerprint =
  fp_tool :: string
  fp_arguments :: u64
  fp_result :: u64

record tool_execution =
  ex_message :: message
  ex_transient :: "message list"
  ex_fingerprint :: tool_fingerprint
  ex_failed :: bool
  ex_error :: "string option"

record repeat_detector =
  rd_last :: "tool_fingerprint list option"
  rd_count :: nat

definition new_detector :: repeat_detector where
  "new_detector = \<lparr>rd_last = None, rd_count = 0\<rparr>"

definition observe_batch :: "tool_fingerprint list \<Rightarrow> repeat_detector \<Rightarrow> nat \<times> repeat_detector" where
  "observe_batch fs d =
     (let d' = (if rd_last d = Some fs then d\<lparr>rd_count := Suc (rd_count d)\<rparr>
                else \<lparr>rd_last = Some fs, rd_count = 1\<rparr>)
      in (rd_count d', d'))"

datatype turn_error =
    TCancelled
  | TModel model_error
  | TContext context_error
  | TStorage
  | TSession
  | RoundLimit nat
  | BudgetSpent nat
  | EmptyCallsStop nat
  | AdmissionStop nat admission_error
  | RepeatStop nat
  | ToolFailureStop nat string
  | AssemblyStop nat string

text \<open>One model request: with a frozen route, or straight to the engine's provider.\<close>

datatype model_env =
    Routed request_config bool
  | Direct bool "(int \<times> provider_event) list" "model_error + unit"

record engine =
  en_tools :: registry
  en_context :: context_manager
  en_round_limit :: "nat option"
  en_token_budget :: "nat option"
  en_session :: bool
  en_audit :: bool
  en_tools_supported :: bool

record turn_env =
  te_cancelled :: bool
  te_lock_cancelled :: bool
  te_append :: "trace \<Rightarrow> message \<Rightarrow> bool"
  te_store :: "trace \<Rightarrow> effect \<Rightarrow> bool"
  te_artifact :: "trace \<Rightarrow> string \<Rightarrow> string option"
  te_usage :: "trace \<Rightarrow> provider_usage option"
  te_compose :: "trace \<Rightarrow> compose_env \<times> compose_env"
  te_summarizer :: "trace \<Rightarrow> summarizer"
  te_model :: "trace \<Rightarrow> message list \<Rightarrow> tool_spec list \<Rightarrow> model_env"
  te_act :: "trace \<Rightarrow> tool \<Rightarrow> json \<Rightarrow> string + tool_output"
  te_cut :: "trace \<Rightarrow> nat option"
  te_duration :: "trace \<Rightarrow> int"
  te_json :: json_text
  te_json_text :: "json \<Rightarrow> string"
  te_hash :: "string \<Rightarrow> u64"
  te_sha256 :: "string \<Rightarrow> string"
  te_enc :: "string \<Rightarrow> string"
  te_parse :: "string \<Rightarrow> string + json"

record turn_state =
  ts_trace :: trace
  ts_history :: "message list"
  ts_transient :: "message list"
  ts_detector :: repeat_detector
  ts_reminder :: bool
  ts_failures :: nat
  ts_tokens :: nat
  ts_round :: nat
  ts_breaker :: breaker

section \<open>Constants\<close>

definition progress_checkpoint_rounds :: nat where
  "progress_checkpoint_rounds = 50"

definition max_consecutive_failures :: nat where
  "max_consecutive_failures = 3"

definition repetition_threshold :: nat where
  "repetition_threshold = 3"

definition repetition_abort :: nat where
  "repetition_abort = 10"

definition msg_repetition :: string where
  "msg_repetition =
     utf8 [26816, 27979, 21040, 36830, 32493, 37325, 22797, 30340, 24037, 20855, 35843, 29992, 12289,
     21442, 25968, 19982, 32467, 26524, 12290, 21487, 20197, 32487, 32493, 20351, 29992, 20219,
     20309, 24037, 20855, 65292, 20294, 35831, 20808, 21028, 26029, 35813, 37325, 22797, 26159,
     21542, 24517, 35201, 65307, 33509, 27809, 26377, 26032, 20449, 24687, 65292, 32771, 34385,
     25442, 20010, 24605, 36335, 25110, 30452, 25509, 32473, 20986, 32467, 35770, 12290]"

definition msg_checkpoint :: string where
  "msg_checkpoint =
     utf8 [36825, 26159, 19968, 27425, 38271, 20219, 21153, 30340, 36827, 24230, 26816, 26597, 28857,
     65292, 19981, 26159, 32456, 27490, 20449, 21495, 12290, 35831, 26680, 23545, 24403, 21069,
     35745, 21010, 21644, 24050, 23436, 25104, 24037, 20316, 65306, 33509, 20219, 21153, 24050,
     32463, 23436, 25104, 65292, 31435, 21363, 32473, 20986, 26368, 32456, 32467, 35770, 65307,
     33509, 20173, 26377, 24517, 35201, 24037, 20316, 65292, 32487, 32493, 25191, 34892, 21097,
     20313, 27493, 39588, 65292, 36991, 20813, 37325, 20570, 24050, 32463, 23436, 25104, 30340,
     20869, 23481, 12290]"

definition msg_empty_calls :: string where
  "msg_empty_calls =
     utf8 [27169, 22411, 36820, 22238, 20102, 31354, 24037, 20855, 35843, 29992, 21015, 34920, 65307,
     35831, 30452, 25509, 22238, 31572, 25110, 29983, 25104, 26377, 25928, 24037, 20855, 35843,
     29992, 12290]"

definition msg_refused_batch :: string where
  "msg_refused_batch =
     utf8 [12290, 26412, 36718, 27809, 26377, 25191, 34892, 20219, 20309, 24037, 20855, 65307, 35831,
     20462, 27491, 20840, 37096, 35843, 29992, 21518, 37325, 35797, 12290]"

definition msg_refused_assembly :: string where
  "msg_refused_assembly =
     utf8 [12290, 26412, 36718, 27809, 26377, 25191, 34892, 20219, 20309, 24037, 20855, 65307, 35831,
     37325, 26032, 29983, 25104, 23436, 25972, 19988, 21512, 27861, 30340, 24037, 20855, 35843,
     29992, 12290]"

definition msg_tool_error :: string where
  "msg_tool_error =
     utf8 [24037, 20855, 25191, 34892, 38169, 35823, 58, 32]"

definition msg_no_detail :: string where
  "msg_no_detail =
     utf8 [26410, 25552, 20379, 38169, 35823, 35814, 24773]"

section \<open>Steps of a turn\<close>

text \<open>A step answers or fails and keeps the state it has reached either way.\<close>

type_synonym 'a turn = "turn_state \<Rightarrow> (turn_error + 'a) \<times> turn_state"

definition bindT :: "'a turn \<Rightarrow> ('a \<Rightarrow> 'b turn) \<Rightarrow> 'b turn" where
  "bindT m f s = (case m s of (Inl e, s') \<Rightarrow> (Inl e, s') | (Inr x, s') \<Rightarrow> f x s')"

definition returnT :: "'a \<Rightarrow> 'a turn" where
  "returnT x s = (Inr x, s)"

definition failT :: "turn_error \<Rightarrow> 'a turn" where
  "failT e s = (Inl e, s)"

definition getT :: "(turn_state \<Rightarrow> 'a) \<Rightarrow> 'a turn" where
  "getT f s = (Inr (f s), s)"

definition modifyT :: "(turn_state \<Rightarrow> turn_state) \<Rightarrow> unit turn" where
  "modifyT f s = (Inr (), f s)"

definition add_effect :: "effect \<Rightarrow> turn_state \<Rightarrow> turn_state" where
  "add_effect e s = s\<lparr>ts_trace := ts_trace s @ [e]\<rparr>"

definition emit :: "turn_event \<Rightarrow> unit turn" where
  "emit ev = modifyT (add_effect (Emit ev))"

text \<open>\<open>record\<close>: the session first, then the history.\<close>

definition record_message :: "turn_env \<Rightarrow> engine \<Rightarrow> message \<Rightarrow> unit turn" where
  "record_message env en m s =
     (if en_session en \<and> \<not> te_append env (ts_trace s) m then (Inl TSession, s)
      else (Inr (), (if en_session en then add_effect (Appended m) s else s)\<lparr>ts_history := ts_history s @ [m]\<rparr>))"

text \<open>A call of the audit store, made only when the turn is audited.\<close>

definition store_call :: "turn_env \<Rightarrow> engine \<Rightarrow> effect \<Rightarrow> unit turn" where
  "store_call env en e s =
     (if en_audit en \<and> \<not> te_store env (ts_trace s) e then (Inl TStorage, s)
      else (Inr (), if en_audit en then add_effect e s else s))"

section \<open>Tools\<close>

definition tool_error_text :: "tool_error \<Rightarrow> string" where
  "tool_error_text e = (case e of Refused a \<Rightarrow> admission_message a | ToolError m \<Rightarrow> m)"

text \<open>The tool acts exactly when admission lets it.\<close>

definition run_tool :: "turn_env \<Rightarrow> engine \<Rightarrow> tool_call \<Rightarrow> (tool_error + tool_output) turn" where
  "run_tool env en call s =
     (Inr (execute_with_cancellation (en_tools en) (te_act env (ts_trace s)) (tc_name call) (tc_arguments call)),
      if isl (admit (en_tools en) (tc_name call) (tc_arguments call)) then s else add_effect (ToolRan call) s)"

definition tool_receipt :: "turn_env \<Rightarrow> bool \<Rightarrow> string \<Rightarrow> string option \<Rightarrow> int \<Rightarrow> json" where
  "tool_receipt env failed content err duration =
     JObj [(''success'', JBool (\<not> failed)), (''output'', JStr (take_chars 4096 content)),
       (''output_truncated'', JBool (char_count content > 4096)),
       (''output_sha256'', JStr (te_sha256 env content)), (''error'', json_opt JStr err),
       (''output_bytes'', JInt (int (length content))), (''duration_ms'', JInt duration)]"

definition finish_call :: "turn_env \<Rightarrow> engine \<Rightarrow> nat \<Rightarrow> tool_call \<Rightarrow> bool \<Rightarrow> string \<Rightarrow> string option \<Rightarrow> unit turn" where
  "finish_call env en round call failed content err s =
     (if \<not> en_audit en then (Inr (), s)
      else case te_artifact env (ts_trace s) content of
          None \<Rightarrow> (Inl TStorage, s)
        | Some artifact \<Rightarrow>
            store_call env en
              (CallFinished round (tc_id call) (if failed then ''tool_error'' else ''success'') artifact
                 (tool_receipt env failed content err (te_duration env (ts_trace s)))) s)"

definition execute_one :: "turn_env \<Rightarrow> engine \<Rightarrow> nat \<Rightarrow> tool_call \<Rightarrow> tool_execution turn" where
  "execute_one env en round call =
     bindT (store_call env en (CallStarted round (tc_id call))) (\<lambda>_.
     bindT (emit (ToolStarted (tc_id call) (tc_name call) round)) (\<lambda>_.
     bindT (run_tool env en call) (\<lambda>outcome.
       let err = (case outcome of Inr out \<Rightarrow> None | Inl e \<Rightarrow> Some (msg_tool_error @ tool_error_text e));
           failed = isl outcome;
           out = (case outcome of Inr out \<Rightarrow> out | Inl e \<Rightarrow> output_text (msg_tool_error @ tool_error_text e))
       in
     bindT (finish_call env en round call failed (to_content out) err) (\<lambda>_.
     bindT (emit (ToolFinished (tc_id call) (tc_name call) (to_content out) round (\<not> failed) err)) (\<lambda>_.
     returnT \<lparr>ex_message = tool_result call (to_content out), ex_transient = to_transient out,
              ex_fingerprint = \<lparr>fp_tool = tc_name call, fp_arguments = te_hash env (te_json_text env (tc_arguments call)),
                                fp_result = te_hash env (to_content out)\<rparr>,
              ex_failed = failed, ex_error = err\<rparr>)))))"

text \<open>One wave: every call runs, whatever the others return.\<close>

fun run_wave ::
  "turn_env \<Rightarrow> engine \<Rightarrow> nat \<Rightarrow> tool_call list \<Rightarrow> turn_state \<Rightarrow>
   (turn_error + tool_execution) list \<times> turn_state" where
  "run_wave env en round [] s = ([], s)"
| "run_wave env en round (c # cs) s =
     (let (r, s) = execute_one env en round c s; (rs, s) = run_wave env en round cs s in (r # rs, s))"

definition wave_calls :: "engine \<Rightarrow> tool_call list \<Rightarrow> tool_call list" where
  "wave_calls en cs =
     (if is_read_only (en_tools en) (tc_name (hd cs))
      then takeWhile (\<lambda>c. is_read_only (en_tools en) (tc_name c)) cs else [hd cs])"

lemma wave_calls_not_Nil: "cs \<noteq> [] \<Longrightarrow> wave_calls en cs \<noteq> []"
  by (cases cs) (simp_all add: wave_calls_def)

function execute_waves ::
  "turn_env \<Rightarrow> engine \<Rightarrow> nat \<Rightarrow> tool_call list \<Rightarrow> turn_state \<Rightarrow>
   (turn_error + tool_execution list) \<times> turn_state" where
  "execute_waves env en round cs s =
     (if cs = [] then (Inr [], s)
      else let (rs, s) = run_wave env en round (wave_calls en cs) s in
        case collect_results rs of
          Inl e \<Rightarrow> (Inl e, s)
        | Inr batch \<Rightarrow>
            bindT (execute_waves env en round (drop (length (wave_calls en cs)) cs))
              (\<lambda>rest. returnT (batch @ rest)) s)"
  by pat_completeness auto
termination
  by (relation "measure (\<lambda>(env, en, round, cs, s). length cs)") (auto simp: wave_calls_not_Nil)

declare execute_waves.simps [simp del]

text \<open>
  The race of the batch with the cancellation: \<open>te_cut\<close> says how many of the batch's effects
  had happened when the cancellation won.
\<close>

definition execute_batch :: "turn_env \<Rightarrow> engine \<Rightarrow> nat \<Rightarrow> tool_call list \<Rightarrow> tool_execution list turn" where
  "execute_batch env en round tcs s =
     (let (r, s') = execute_waves env en round tcs s in
      case te_cut env (ts_trace s) of
        None \<Rightarrow> (r, s')
      | Some k \<Rightarrow> (Inl TCancelled, s\<lparr>ts_trace := take (length (ts_trace s) + k) (ts_trace s')\<rparr>))"

section \<open>One round\<close>

definition model_call ::
  "turn_env \<Rightarrow> message list \<Rightarrow> tool_spec list \<Rightarrow> model_output turn" where
  "model_call env ms sp s =
     (let s' = add_effect (ModelCalled ms sp) s in
      case te_model env (ts_trace s) ms sp of
        Routed cfg cancelled \<Rightarrow>
          (let (r, q) = request_model cfg cancelled (ts_breaker s) in
           (map_sum TModel id r, s'\<lparr>ts_breaker := circuit q\<rparr>))
      | Direct cancelled evs res \<Rightarrow>
          (if cancelled then (Inl (TModel MCancelled), s')
           else (map_sum TModel id (snd (snd (request_model_once (te_enc env) (te_parse env) evs res))), s')))"

definition sat_u64 :: "nat \<Rightarrow> nat" where
  "sat_u64 n = min n usize_max"

definition content_tokens :: "message \<Rightarrow> nat" where
  "content_tokens m = (case msg_content m of None \<Rightarrow> 0 | Some t \<Rightarrow> estimate_text_tokens t)"

definition response_tokens :: "turn_env \<Rightarrow> response \<Rightarrow> nat" where
  "response_tokens env r =
     (case r of
        Text t \<Rightarrow> estimate_text_tokens t
      | ToolCalls cs \<Rightarrow> sum_list (map (\<lambda>c. estimate_text_tokens (te_json_text env (tc_arguments c))) cs)
      | ToolAssemblyFailed e \<Rightarrow> 0)"

definition measured_tokens :: "provider_usage \<Rightarrow> nat" where
  "measured_tokens u = sat_u64
     ((case input_tokens u of None \<Rightarrow> 0 | Some w \<Rightarrow> unat w) + (case output_tokens u of None \<Rightarrow> 0 | Some w \<Rightarrow> unat w))"

definition is_text :: "response \<Rightarrow> bool" where
  "is_text r = (case r of Text t \<Rightarrow> True | _ \<Rightarrow> False)"

definition check_budget :: "turn_env \<Rightarrow> engine \<Rightarrow> message list \<Rightarrow> response \<Rightarrow> unit turn" where
  "check_budget env en ms r s =
     (case en_token_budget en of
        None \<Rightarrow> (Inr (), s)
      | Some budget \<Rightarrow>
          let spent = sat_u64 (ts_tokens s + sat_u64 (sum_list (map content_tokens ms) + response_tokens env r));
              s = s\<lparr>ts_tokens := spent\<rparr>
          in case (if en_audit en then map_option measured_tokens (te_usage env (ts_trace s)) else Some 0) of
               None \<Rightarrow> (Inl TStorage, s)
             | Some measured \<Rightarrow>
                 if max measured spent > budget \<and> \<not> is_text r then (Inl (BudgetSpent budget), s) else (Inr (), s))"

text \<open>A refused response: the model is told and may try again, up to the failure limit.\<close>

definition refuse :: "turn_env \<Rightarrow> engine \<Rightarrow> string \<Rightarrow> (nat \<Rightarrow> turn_error) \<Rightarrow> string option turn" where
  "refuse env en notice stop =
     bindT (modifyT (\<lambda>s. s\<lparr>ts_failures := Suc (ts_failures s)\<rparr>)) (\<lambda>_.
     bindT (record_message env en (text_message RSystem notice)) (\<lambda>_.
     bindT (getT ts_failures) (\<lambda>n.
     if n \<ge> max_consecutive_failures then failT (stop n) else returnT None)))"

definition prepared_call :: "turn_env \<Rightarrow> engine \<Rightarrow> tool_call \<Rightarrow> tool_call \<times> string \<times> string" where
  "prepared_call env en c =
     (c, if is_read_only (en_tools en) (tc_name c) then ''read'' else ''external_side_effect'',
      te_sha256 env (te_json_text env (tc_arguments c)))"

fun record_results :: "turn_env \<Rightarrow> engine \<Rightarrow> tool_execution list \<Rightarrow> unit turn" where
  "record_results env en [] = returnT ()"
| "record_results env en (x # xs) =
     bindT (record_message env en (ex_message x)) (\<lambda>_.
     bindT (modifyT (\<lambda>s. s\<lparr>ts_transient := ts_transient s @ ex_transient x\<rparr>)) (\<lambda>_.
     record_results env en xs))"

definition observeT :: "tool_fingerprint list \<Rightarrow> nat turn" where
  "observeT fs s = (let (n, d) = observe_batch fs (ts_detector s) in (Inr n, s\<lparr>ts_detector := d\<rparr>))"

definition last_failure :: "tool_execution list \<Rightarrow> string option" where
  "last_failure xs = find_map ex_error (rev xs)"

text \<open>The circuit breaker on tool failures, after the batch is on record.\<close>

definition judge_batch :: "tool_execution list \<Rightarrow> string option turn" where
  "judge_batch xs =
     bindT (observeT (map ex_fingerprint xs)) (\<lambda>repeats.
     bindT (modifyT (\<lambda>s. if repeats = repetition_threshold then s\<lparr>ts_reminder := True\<rparr> else s)) (\<lambda>_.
     if repeats \<ge> repetition_abort then failT (RepeatStop repeats)
     else
       let failures = length (filter ex_failed xs) in
       if failures = 0 then bindT (modifyT (\<lambda>s. s\<lparr>ts_failures := 0\<rparr>)) (\<lambda>_. returnT None)
       else
         bindT (modifyT (\<lambda>s. s\<lparr>ts_failures := ts_failures s + failures\<rparr>)) (\<lambda>_.
         bindT (getT ts_failures) (\<lambda>n.
         if n \<ge> max_consecutive_failures
         then failT (ToolFailureStop n (case last_failure xs of Some d \<Rightarrow> d | None \<Rightarrow> msg_no_detail))
         else returnT None))))"

definition run_calls :: "turn_env \<Rightarrow> engine \<Rightarrow> nat \<Rightarrow> tool_call list \<Rightarrow> string option \<Rightarrow> string option turn" where
  "run_calls env en round tcs th =
     bindT (store_call env en (BatchPrepared round (map (prepared_call env en) tcs))) (\<lambda>_.
     bindT (record_message env en (assistant_tool_calls_with_thinking tcs th)) (\<lambda>_.
     bindT (execute_batch env en round tcs) (\<lambda>xs.
     bindT (record_results env en xs) (\<lambda>_.
     bindT (store_call env en (BatchFinished round)) (\<lambda>_.
     judge_batch xs)))))"

definition handle_response :: "turn_env \<Rightarrow> engine \<Rightarrow> nat \<Rightarrow> model_output \<Rightarrow> string option turn" where
  "handle_response env en round output =
     (case out_response output of
        Text t \<Rightarrow>
          bindT (record_message env en (assistant_with_thinking t (out_thinking output))) (\<lambda>_.
          bindT (emit (TurnCompleted t)) (\<lambda>_. returnT (Some t)))
      | ToolCalls tcs \<Rightarrow>
          if tcs = [] then refuse env en (''[empty_tool_calls] '' @ msg_empty_calls) EmptyCallsStop
          else case admit_all (en_tools en) tcs of
            Inl e \<Rightarrow>
              refuse env en (''[tool_call_admission_error:'' @ admission_code e @ ''] '' @ admission_message e @ msg_refused_batch)
                (\<lambda>n. AdmissionStop n e)
          | Inr _ \<Rightarrow> run_calls env en round tcs (out_thinking output)
      | ToolAssemblyFailed e \<Rightarrow>
          refuse env en (''[tool_call_assembly_error:'' @ se_code e @ ''] '' @ se_message e @ msg_refused_assembly)
            (\<lambda>n. AssemblyStop n (se_message e)))"

definition is_checkpoint :: "engine \<Rightarrow> nat \<Rightarrow> bool" where
  "is_checkpoint en round \<longleftrightarrow>
     en_round_limit en = None \<and> round > 1 \<and> (round - 1) mod progress_checkpoint_rounds = 0"

definition prepare_context :: "turn_env \<Rightarrow> engine \<Rightarrow> tool_spec list \<Rightarrow> message list turn" where
  "prepare_context env en sp s =
     (let (e1, e2) = te_compose env (ts_trace s);
          (r, h) = prepare (te_summarizer env (ts_trace s)) (te_json env) (en_context en) e1 e2 sp (ts_history s)
      in (map_sum TContext id r, s\<lparr>ts_history := h\<rparr>))"

definition next_round :: "engine \<Rightarrow> nat turn" where
  "next_round en s =
     (let n = Suc (ts_round s); s = s\<lparr>ts_round := n\<rparr> in
      case en_round_limit en of
        Some limit \<Rightarrow> if n > limit then (Inl (RoundLimit limit), s) else (Inr n, s)
      | None \<Rightarrow> (Inr n, s))"

definition request_messages :: "engine \<Rightarrow> nat \<Rightarrow> message list \<Rightarrow> message list turn" where
  "request_messages en round ms s =
     (Inr (ms @ ts_transient s @
           (if is_checkpoint en round then [text_message RSystem msg_checkpoint] else []) @
           (if ts_reminder s then [text_message RSystem msg_repetition] else [])),
      s\<lparr>ts_reminder := False\<rparr>)"

definition one_round :: "turn_env \<Rightarrow> engine \<Rightarrow> tool_spec list \<Rightarrow> string option turn" where
  "one_round env en sp =
     bindT (next_round en) (\<lambda>round.
     bindT (prepare_context env en sp) (\<lambda>ms.
     bindT (request_messages en round ms) (\<lambda>ms.
     bindT (model_call env ms sp) (\<lambda>output.
     bindT (check_budget env en ms (out_response output)) (\<lambda>_.
     handle_response env en round output)))))"

section \<open>The turn\<close>

text \<open>\<open>None\<close> is a turn that never ends.\<close>

partial_function (option) run_rounds ::
  "turn_env \<Rightarrow> engine \<Rightarrow> tool_spec list \<Rightarrow> turn_state \<Rightarrow> ((turn_error + string) \<times> turn_state) option" where
  "run_rounds env en sp s =
     (case one_round env en sp s of
        (Inl e, s') \<Rightarrow> Some (Inl e, s')
      | (Inr (Some t), s') \<Rightarrow> Some (Inr t, s')
      | (Inr None, s') \<Rightarrow> run_rounds env en sp s')"

definition init_turn :: "message list \<Rightarrow> breaker \<Rightarrow> turn_state" where
  "init_turn history b =
     \<lparr>ts_trace = [], ts_history = history, ts_transient = [], ts_detector = new_detector,
      ts_reminder = False, ts_failures = 0, ts_tokens = 0, ts_round = 0, ts_breaker = b\<rparr>"

definition begin_turn :: "turn_env \<Rightarrow> engine \<Rightarrow> string \<Rightarrow> unit turn" where
  "begin_turn env en input =
     (if te_cancelled env \<or> en_session en \<and> te_lock_cancelled env then failT TCancelled
      else bindT (emit TurnStarted) (\<lambda>_. record_message env en (text_message RUser input)))"

definition run_turn ::
  "turn_env \<Rightarrow> engine \<Rightarrow> message list \<Rightarrow> string \<Rightarrow> breaker \<Rightarrow> ((turn_error + string) \<times> turn_state) option" where
  "run_turn env en history input b =
     (case begin_turn env en input (init_turn history b) of
        (Inl e, s) \<Rightarrow> Some (Inl e, s)
      | (Inr _, s) \<Rightarrow> run_rounds env en (if en_tools_supported en then specs (en_tools en) else []) s)"

section \<open>Delegated engines\<close>

definition for_delegation :: "engine \<Rightarrow> string list \<Rightarrow> nat \<Rightarrow> nat \<Rightarrow> string + engine" where
  "for_delegation en names max_rounds max_tokens =
     bindE (subset_tools (en_tools en) names) (\<lambda>r.
     Inr (en\<lparr>en_tools := r, en_round_limit := Some max_rounds, en_token_budget := Some max_tokens,
             en_context := with_token_budget
               (min max_tokens (cc_token_budget (cm_config (en_context en)))) (en_context en)\<rparr>))"

end
