(* ===== verification/Sessions.thy ===== *)
theory Sessions
  imports Handlers Session Loop Safety "HOL-Library.Multiset" "HOL-Library.Product_Lexorder" "HOL-Library.List_Lexorder" "HOL-Library.Char_ord"
begin

text \<open>
  The sessions a daemon keeps open (\<open>session_runtime\<close>, \<open>session_new\<close>, \<open>session_infos\<close>
  in \<open>src/daemon/handlers.rs\<close>, \<open>list_sessions\<close> in \<open>src/session.rs\<close>): one runtime per
  session with its history and its engine, restricted for the session of a delegated run, and
  the list of sessions with their activity. The tables of the daemon have no order, so their
  keys come as lists in any order; the session directory is a list of entries.
\<close>

section \<open>One runtime per session\<close>

record session_runtime =
  rt_id :: string
  rt_engine :: engine
  rt_history :: "message list"
  rt_path :: "string list"

record session_table =
  sx_default :: session_runtime
  sx_open :: "string \<Rightarrow> session_runtime option"
  sx_current :: string
  sx_dir :: "string list"
  sx_base :: string
  sx_stored :: string

definition msg_bad_snapshot :: string where
  "msg_bad_snapshot = utf8 [22996, 27966, 26435, 38480, 24555, 29031, 26080, 25928]"

definition msg_cwd_lost :: string where
  "msg_cwd_lost = utf8 [23376, 32, 65, 103, 101, 110, 116, 32, 99, 119, 100, 32, 26080, 27861, 24674, 22797, 58, 32]"

text \<open>
  The read tool of a delegated run works under the policy frozen with the run. \<open>new_policy\<close> opens
  a policy on a directory, \<open>read_file\<close> is the tool over a policy in a mode.
\<close>

definition frozen_child_read_tool ::
  "(string \<Rightarrow> string + 'w) \<Rightarrow> ('w \<Rightarrow> safety_mode \<Rightarrow> tool) \<Rightarrow> delegation_row \<Rightarrow> (int \<times> string) + tool" where
  "frozen_child_read_tool new_policy read_file g =
     bindE (ok_or (internal_error, msg_bad_snapshot) (mode_parse (dg_permission g))) (\<lambda>mode.
     bindE (map_sum (\<lambda>e. (internal_error, msg_cwd_lost @ e)) id (new_policy (dg_cwd g))) (\<lambda>policy.
       Inr (read_file policy mode)))"

definition with_tool :: "tool \<Rightarrow> engine \<Rightarrow> engine" where
  "with_tool t en = en\<lparr>en_tools := register t (en_tools en)\<rparr>"

definition session_engine ::
  "(string \<Rightarrow> string + 'w) \<Rightarrow> ('w \<Rightarrow> safety_mode \<Rightarrow> tool) \<Rightarrow> delegation_record option \<Rightarrow> engine \<Rightarrow> (int \<times> string) + engine" where
  "session_engine new_policy read_file child en =
     (case child of
        None \<Rightarrow> Inr en
      | Some r \<Rightarrow>
          bindE (map_sum (\<lambda>e. (internal_error, e)) id
             (for_delegation en (dg_tools (dr_row r)) (nat (dg_max_rounds (dr_row r))) (nat (dg_max_tokens (dr_row r))))) (\<lambda>en.
          bindE (frozen_child_read_tool new_policy read_file (dr_row r)) (\<lambda>t. Inr (with_tool t en))))"

text \<open>The file of a session: one that is there, or one the run store knows.\<close>

definition session_file :: "(string list \<Rightarrow> bool) \<Rightarrow> db \<Rightarrow> session_table \<Rightarrow> string \<Rightarrow> (int \<times> string) + string list" where
  "session_file is_file d s i =
     (case open_session is_file (sx_dir s) (sx_base s) (sx_stored s) i of
        Inr path \<Rightarrow> Inr path
      | Inl e \<Rightarrow>
          if \<not> session_exists d i then Inl (invalid_params, e)
          else map_sum (\<lambda>e. (invalid_params, e)) id (open_known_session (sx_dir s) (sx_base s) i))"

text \<open>
  \<open>session_runtime\<close> up to its last lock: the runtime that is there, or a new one that has been
  read from the file. \<open>load\<close> reads the messages of a file.
\<close>

definition find_runtime :: "session_table \<Rightarrow> string \<Rightarrow> session_runtime option" where
  "find_runtime s i = (if i = rt_id (sx_default s) then Some (sx_default s) else sx_open s i)"

definition load_runtime ::
  "(string list \<Rightarrow> bool) \<Rightarrow> (string list \<Rightarrow> string + message list) \<Rightarrow> (string \<Rightarrow> string + 'w) \<Rightarrow> ('w \<Rightarrow> safety_mode \<Rightarrow> tool) \<Rightarrow>
   db \<Rightarrow> string \<Rightarrow> session_table \<Rightarrow> (int \<times> string) + session_runtime" where
  "load_runtime is_file load new_policy read_file d i s =
     bindE (session_file is_file d s i) (\<lambda>path.
     bindE (map_sum (\<lambda>e. (internal_error, e)) id (load path)) (\<lambda>history.
     bindE (session_engine new_policy read_file (delegation_for_session d i) (rt_engine (sx_default s))) (\<lambda>en.
       Inr \<lparr>rt_id = i, rt_engine = en, rt_history = history, rt_path = path\<rparr>)))"

text \<open>\<open>entry(..).or_insert_with(..)\<close>: another task may have opened the session in the meantime.\<close>

definition insert_runtime :: "session_runtime \<Rightarrow> session_table \<Rightarrow> session_runtime \<times> session_table" where
  "insert_runtime r s =
     (case sx_open s (rt_id r) of
        Some old \<Rightarrow> (old, s)
      | None \<Rightarrow> (r, s\<lparr>sx_open := (sx_open s)(rt_id r \<mapsto> r)\<rparr>))"

definition requested_id :: "string option \<Rightarrow> session_table \<Rightarrow> string" where
  "requested_id requested s = (case requested of Some i \<Rightarrow> i | None \<Rightarrow> sx_current s)"

text \<open>A session made for a client becomes the current one; its id is fresh.\<close>

definition session_new :: "nat \<Rightarrow> nat \<Rightarrow> nat \<Rightarrow> session_table \<Rightarrow> reply \<times> session_table" where
  "session_new timestamp pid sequence s =
     (let i = new_session_id (sx_base s) timestamp pid sequence;
          r = \<lparr>rt_id = i, rt_engine = rt_engine (sx_default s), rt_history = [], rt_path = session_path (sx_dir s) i\<rparr>
      in (Inr (JObj [(''created'', JBool True), (''session_id'', JStr i), (''messages'', JArr []),
                     (''pending_approvals'', JArr []), (''active_requests'', JArr [])]),
          s\<lparr>sx_open := (sx_open s)(i \<mapsto> r), sx_current := i\<rparr>))"

section \<open>Permission modes\<close>

definition msg_no_controller :: string where
  "msg_no_controller = utf8 [24403, 21069, 32, 100, 97, 101, 109, 111, 110, 32, 26410, 26292, 38706, 26435, 38480, 27169,
     24335, 25511, 21046, 22120]"

definition msg_mode_invalid :: string where
  "msg_mode_invalid = utf8 [26435, 38480, 27169, 24335, 26080, 25928, 65292, 21487, 36873, 20540, 65306, 114, 101, 113, 117,
     101, 115, 116, 12289, 114, 105, 115, 107, 12289, 102, 117, 108, 108]"

definition mode_label :: "safety_mode \<Rightarrow> string" where
  "mode_label m = (case m of
     RequestApproval \<Rightarrow> utf8 [35831, 27714, 25209, 20934]
   | RiskApproval \<Rightarrow> utf8 [24110, 25105, 25209, 20934]
   | FullAccess \<Rightarrow> utf8 [23436, 20840, 35775, 38382, 26435, 38480])"

definition mode_description :: "safety_mode \<Rightarrow> string" where
  "mode_description m = (case m of
     RequestApproval \<Rightarrow> utf8 [32534, 36753, 25991, 20214, 25110, 20351, 29992, 20114, 32852, 32593, 21069, 22987, 32456, 35810, 38382]
   | RiskApproval \<Rightarrow> utf8 [20165, 26816, 27979, 21040, 39118, 38505, 25805, 20316, 26102, 35810, 38382]
   | FullAccess \<Rightarrow> utf8 [19981, 35810, 38382, 21363, 21487, 35775, 38382, 30005, 33041, 19978, 30340, 25991, 20214, 21644,
       20114, 32852, 32593])"

definition mode_fields :: "safety_mode \<Rightarrow> (string \<times> json) list" where
  "mode_fields m = [(''mode'', JStr (mode_key m)), (''label'', JStr (mode_label m)), (''description'', JStr (mode_description m))]"

text \<open>\<open>None\<close>: the daemon runs without a policy it may change.\<close>

definition permissions_get :: "safety_mode option \<Rightarrow> reply" where
  "permissions_get safety =
     (case safety of
        None \<Rightarrow> Inl (internal_error, msg_no_controller)
      | Some m \<Rightarrow> Inr (JObj (mode_fields m @
          [(''options'', JArr (map (\<lambda>o'. JObj (mode_fields o')) [RequestApproval, RiskApproval, FullAccess]))])))"

definition permissions_set :: "string \<Rightarrow> safety_mode option \<Rightarrow> reply \<times> safety_mode option" where
  "permissions_set text safety =
     (case safety of
        None \<Rightarrow> (Inl (internal_error, msg_no_controller), safety)
      | Some _ \<Rightarrow>
          (case mode_parse text of
             None \<Rightarrow> (Inl (invalid_params, msg_mode_invalid), safety)
           | Some m \<Rightarrow> (Inr (JObj ((''changed'', JBool True) # mode_fields m)), Some m)))"

section \<open>The list of sessions\<close>

datatype listed_status = Idle | Running_session | Waiting_session

record session_info =
  si_id :: string
  si_path :: "string list"
  si_active :: bool
  si_messages :: nat
  si_modified :: "nat option"
  si_preview :: "string option"
  si_status :: listed_status
  si_requests :: nat
  si_updated :: "nat option"

text \<open>An entry of the directory; \<open>de_bytes\<close> is \<open>None\<close> when it cannot be read.\<close>

record dir_entry =
  de_name :: string
  de_file :: bool
  de_bytes :: "string option"
  de_modified :: "nat option"

definition listed_session ::
  "(string \<Rightarrow> message option) \<Rightarrow> (string \<Rightarrow> string) \<Rightarrow> string list \<Rightarrow> bool \<Rightarrow> dir_entry \<Rightarrow> string \<Rightarrow> session_info" where
  "listed_session de lossy dir active e bytes =
     \<lparr>si_id = de_name e, si_path = dir @ [de_name e], si_active = active,
      si_messages = length (filter (\<lambda>l. \<not> is_blank l) (text_lines (lossy bytes))),
      si_modified = de_modified e, si_preview = session_preview de lossy bytes,
      si_status = Idle, si_requests = 0, si_updated = de_modified e\<rparr>"

fun list_entries ::
  "(string \<Rightarrow> message option) \<Rightarrow> (string \<Rightarrow> string) \<Rightarrow> string list \<Rightarrow> string \<Rightarrow> string \<Rightarrow> dir_entry list \<Rightarrow> string + session_info list" where
  "list_entries de lossy dir base cur [] = Inr []"
| "list_entries de lossy dir base cur (e # es) =
     (if \<not> de_file e \<or> de_name e \<noteq> cur \<and> \<not> is_session_name base (de_name e)
      then list_entries de lossy dir base cur es
      else case de_bytes e of
        None \<Rightarrow> Inl (de_name e)
      | Some bytes \<Rightarrow>
          bindE (list_entries de lossy dir base cur es) (\<lambda>xs.
            Inr (listed_session de lossy dir (de_name e = cur) e bytes # xs)))"

text \<open>The comparison of \<open>sort_by\<close>: active first, then the latest, then by id. A missing time comes last.\<close>

definition info_key :: "session_info \<Rightarrow> bool \<times> int \<times> string" where
  "info_key x = (\<not> si_active x, case si_modified x of Some t \<Rightarrow> - int t | None \<Rightarrow> 1, si_id x)"

definition idle_info :: "string \<Rightarrow> string list \<Rightarrow> bool \<Rightarrow> session_info" where
  "idle_info i path active =
     \<lparr>si_id = i, si_path = path, si_active = active, si_messages = 0, si_modified = None, si_preview = None,
      si_status = Idle, si_requests = 0, si_updated = None\<rparr>"

text \<open>\<open>list_sessions\<close>; \<open>entries\<close> is \<open>None\<close> when there is no directory.\<close>

definition list_sessions ::
  "(string \<Rightarrow> message option) \<Rightarrow> (string \<Rightarrow> string) \<Rightarrow> string list \<Rightarrow> string \<Rightarrow> string \<Rightarrow> dir_entry list option \<Rightarrow>
   string + session_info list" where
  "list_sessions de lossy dir base cur es =
     (case es of
        None \<Rightarrow> Inr []
      | Some es \<Rightarrow>
          bindE (list_entries de lossy dir base cur es) (\<lambda>xs.
            let xs = (if list_ex si_active xs then xs else xs @ [idle_info cur (dir @ [cur]) True])
            in Inr (sort_key info_key xs)))"

text \<open>What the daemon knows of the activity of a session.\<close>

definition active_count :: "active_key list \<Rightarrow> string \<Rightarrow> nat" where
  "active_count keys i = length (filter (\<lambda>k. ak_session k = i) keys)"

definition activity :: "active_key list \<Rightarrow> string set \<Rightarrow> string \<Rightarrow> listed_status" where
  "activity keys pending i =
     (if i \<in> pending then Waiting_session else if 0 < active_count keys i then Running_session else Idle)"

definition live_info :: "active_key list \<Rightarrow> string set \<Rightarrow> string \<Rightarrow> session_info \<Rightarrow> session_info" where
  "live_info keys pending cur x =
     x\<lparr>si_active := (si_id x = cur), si_requests := active_count keys (si_id x),
       si_status := activity keys pending (si_id x), si_updated := si_modified x\<rparr>"

definition add_missing :: "session_info \<Rightarrow> session_info list \<Rightarrow> session_info list" where
  "add_missing x xs = (if list_ex (\<lambda>y. si_id y = si_id x) xs then xs else xs @ [x])"

definition add_runtimes :: "(string \<Rightarrow> session_info) \<Rightarrow> session_runtime list \<Rightarrow> session_info list \<Rightarrow> session_info list" where
  "add_runtimes info rts xs = foldl (\<lambda>xs r. add_missing (info (rt_id r)) xs) xs rts"

text \<open>\<open>keys\<close>: the keys of the active requests; \<open>open\<close>: the values of the table of runtimes.\<close>

definition session_infos ::
  "string + session_info list \<Rightarrow> active_key list \<Rightarrow> string set \<Rightarrow> session_runtime list \<Rightarrow> session_table \<Rightarrow>
   (int \<times> string) + session_info list" where
  "session_infos listed keys pending opened s =
     bindE (map_sum (\<lambda>e. (internal_error, e)) id listed) (\<lambda>xs.
     let info = (\<lambda>i. live_info keys pending (sx_current s) (idle_info i (session_path (sx_dir s) i) False));
         xs = map (live_info keys pending (sx_current s)) xs;
         xs = add_missing (info (sx_current s)) (add_runtimes info opened xs)
     in Inr (sort_key info_key xs))"

section \<open>What the list shows\<close>

lemma live_info_simps [simp]:
  "si_id (live_info keys pending c x) = si_id x" "si_active (live_info keys pending c x) \<longleftrightarrow> si_id x = c"
  "si_requests (live_info keys pending c x) = active_count keys (si_id x)"
  "si_status (live_info keys pending c x) = activity keys pending (si_id x)"
  by (simp_all add: live_info_def)

lemma idle_info_simps [simp]: "si_id (idle_info i p a) = i" "si_active (idle_info i p a) = a"
  by (simp_all add: idle_info_def)

definition shows_activity :: "active_key list \<Rightarrow> string set \<Rightarrow> string \<Rightarrow> session_info \<Rightarrow> bool" where
  "shows_activity keys pending c x \<longleftrightarrow> (si_active x \<longleftrightarrow> si_id x = c) \<and> si_requests x = active_count keys (si_id x) \<and>
     si_status x = activity keys pending (si_id x)"

lemma live_shows [simp]: "shows_activity keys pending c (live_info keys pending c x)"
  by (simp add: shows_activity_def)

lemma missing_set: "set (add_missing x xs) = (if si_id x \<in> si_id ` set xs then set xs else insert x (set xs))"
  by (auto simp: add_missing_def list_ex_iff image_iff eq_commute [of "si_id x"])

lemma missing_ids: "si_id ` set (add_missing x xs) = insert (si_id x) (si_id ` set xs)"
  by (auto simp: missing_set)

lemma missing_distinct: "distinct (map si_id xs) \<Longrightarrow> distinct (map si_id (add_missing x xs))"
  by (auto simp: add_missing_def list_ex_iff)

lemma runtimes_distinct: "distinct (map si_id xs) \<Longrightarrow> distinct (map si_id (add_runtimes info rts xs))"
  unfolding add_runtimes_def by (induction rts arbitrary: xs) (simp_all add: missing_distinct)

text \<open>The entries added are those of the runtimes that were not listed.\<close>

lemma runtimes_ids:
  "(\<And>i. si_id (info i) = i) \<Longrightarrow> si_id ` set (add_runtimes info rts xs) = si_id ` set xs \<union> rt_id ` set rts"
  unfolding add_runtimes_def by (induction rts arbitrary: xs) (simp_all add: missing_ids)

lemma runtimes_set:
  "(\<And>i. si_id (info i) = i) \<Longrightarrow>
   set (add_runtimes info rts xs) = set xs \<union> info ` (rt_id ` set rts - si_id ` set xs)"
proof (induction rts arbitrary: xs)
  case (Cons r rts)
  have "set (add_runtimes info (r # rts) xs) = set (add_runtimes info rts (add_missing (info (rt_id r)) xs))"
    by (simp add: add_runtimes_def)
  then show ?case
    unfolding Cons.IH [OF Cons.prems]
    by (cases "rt_id r \<in> si_id ` set xs") (auto simp: missing_set missing_ids Cons.prems insert_Diff_if)
qed (simp add: add_runtimes_def)

lemma listed_simps [simp]:
  "si_id (listed_session de lossy dir a e b) = de_name e" "si_active (listed_session de lossy dir a e b) = a"
  by (simp_all add: listed_session_def)

lemma distinct_map_sort: "distinct (map f (sort_key k xs)) = distinct (map f xs)"
  by (simp add: distinct_map)

lemma list_entries_spec:
  "list_entries de lossy dir base c es = Inr xs \<Longrightarrow>
   map si_id xs = map de_name (filter (\<lambda>e. de_file e \<and> (de_name e = c \<or> is_session_name base (de_name e))) es)"
proof (induction es arbitrary: xs)
  case (Cons e es)
  then show ?case
    by (auto simp: bindE_Inr_iff split: if_splits option.splits)
qed simp

lemma list_entries_active:
  "list_entries de lossy dir base cur es = Inr xs \<Longrightarrow> \<forall>y \<in> set xs. si_active y \<longleftrightarrow> si_id y = cur"
proof (induction es arbitrary: xs)
  case (Cons e es)
  show ?case
  proof (cases "\<not> de_file e \<or> de_name e \<noteq> cur \<and> \<not> is_session_name base (de_name e)")
    case False
    with Cons.prems obtain b ys where "list_entries de lossy dir base cur es = Inr ys"
        "xs = listed_session de lossy dir (de_name e = cur) e b # ys"
      by (auto simp: bindE_Inr_iff split: option.splits)
    with Cons.IH show ?thesis by simp
  qed (use Cons in auto)
qed simp

lemma list_sessions_spec:
  assumes "list_sessions de lossy dir base cur (Some es) = Inr xs" "distinct (map de_name es)"
  shows "distinct (map si_id xs)"
    and "si_id ` set xs = insert cur {de_name e | e. e \<in> set es \<and> de_file e \<and> is_session_name base (de_name e)}"
proof -
  obtain ys where ys: "list_entries de lossy dir base cur es = Inr ys"
      "xs = sort_key info_key (if list_ex si_active ys then ys else ys @ [idle_info cur (dir @ [cur]) True])"
    using assms(1) by (auto simp: list_sessions_def Let_def bindE_Inr_iff)
  note ids = list_entries_spec [OF ys(1)]
  have act: "si_active y \<longleftrightarrow> si_id y = cur" if "y \<in> set ys" for y
    using list_entries_active [OF ys(1)] that by blast
  have d: "distinct (map si_id ys)"
    unfolding ids using assms(2) by (simp add: distinct_map_filter)
  have set: "si_id ` set ys = {de_name e | e. e \<in> set es \<and> de_file e \<and> (de_name e = cur \<or> is_session_name base (de_name e))}"
    using arg_cong [OF ids, of set] by auto
  have ex: "list_ex si_active ys \<longleftrightarrow> cur \<in> si_id ` set ys" using act by (auto simp: list_ex_iff)
  show "distinct (map si_id xs)"
    unfolding ys(2) distinct_map_sort using d ex by auto
  show "si_id ` set xs = insert cur {de_name e | e. e \<in> set es \<and> de_file e \<and> is_session_name base (de_name e)}"
    using ex by (auto simp: ys(2) set)
qed

lemma sorted_first: "x \<in> set xs \<Longrightarrow> k (hd (sort_key k xs)) \<le> k x" for k :: "'a \<Rightarrow> 'b :: linorder"
proof -
  assume x: "x \<in> set xs"
  then obtain h t where s: "sort_key k xs = h # t" by (metis empty_iff list.exhaust list.set(1) set_sort)
  have "sorted (map k (h # t))" unfolding s [symmetric] by (rule sorted_sort_key)
  moreover have "x \<in> set (h # t)" unfolding s [symmetric] using x by simp
  ultimately show ?thesis by (auto simp: s)
qed

text \<open>
  C4: The list of sessions is complete and says what is going on. Each session appears once: those
  with a file, the current file of the store, those opened by clients and the daemon's current
  one, which comes first and is the only active one. The requests of each are counted, its
  status is waiting when an approval of it is pending, else running when it has a request, and
  the rest are ordered by time and name.
\<close>

theorem session_list_exact:
  assumes "list_sessions de lossy dir base (sx_stored s) (Some es) = Inr listed" "distinct (map de_name es)"
  shows "\<exists>xs. session_infos (Inr listed) keys pending opened s = Inr xs \<and>
    distinct (map si_id xs) \<and>
    si_id ` set xs = {de_name e | e. e \<in> set es \<and> de_file e \<and> is_session_name base (de_name e)} \<union>
      rt_id ` set opened \<union> {sx_stored s, sx_current s} \<and>
    list_all (shows_activity keys pending (sx_current s)) xs \<and>
    sorted (map info_key xs) \<and> xs \<noteq> [] \<and> si_id (hd xs) = sx_current s"
proof -
  note spec = list_sessions_spec [OF assms]
  define info where "info i = live_info keys pending (sx_current s) (idle_info i (session_path (sx_dir s) i) False)" for i
  have info: "si_id (info i) = i" "shows_activity keys pending (sx_current s) (info i)" for i by (simp_all add: info_def)
  define ls where "ls = map (live_info keys pending (sx_current s)) listed"
  have ls: "map si_id ls = map si_id listed" "\<forall>x \<in> set ls. shows_activity keys pending (sx_current s) x"
    by (auto simp: ls_def)
  define ys where "ys = add_missing (info (sx_current s)) (add_runtimes info opened ls)"
  have res: "session_infos (Inr listed) keys pending opened s = Inr (sort_key info_key ys)"
    by (simp add: session_infos_def ys_def ls_def info_def [abs_def] Let_def)
  have "distinct (map si_id ys)"
    unfolding ys_def using spec(1) by (intro missing_distinct runtimes_distinct) (simp add: ls(1))
  then have d: "distinct (map si_id (sort_key info_key ys))" by (simp only: distinct_map_sort)
  have "si_id ` set ls = si_id ` set listed" using arg_cong [OF ls(1), of set] by simp
  then have ids: "si_id ` set ys = {de_name e | e. e \<in> set es \<and> de_file e \<and> is_session_name base (de_name e)} \<union>
      rt_id ` set opened \<union> {sx_stored s, sx_current s}"
    by (simp add: ys_def missing_ids runtimes_ids info spec(2)) blast
  have act: "\<forall>x \<in> set ys. shows_activity keys pending (sx_current s) x"
    using ls(2) info(2) by (auto simp: ys_def missing_set runtimes_set info(1))
  have "sx_current s \<in> si_id ` set ys" by (simp add: ys_def missing_ids info(1))
  then obtain x where x: "x \<in> set ys" "si_id x = sx_current s" by force
  let ?zs = "sort_key info_key ys"
  have ne: "?zs \<noteq> []" using x by (metis empty_iff list.set(1) set_sort)
  have "info_key (hd ?zs) \<le> info_key x" using x(1) by (rule sorted_first)
  moreover have "si_active x" using act x by (auto simp: shows_activity_def)
  ultimately have "si_active (hd ?zs)" by (auto simp: info_key_def less_eq_prod_def less_prod_def)
  moreover have "hd ?zs \<in> set ys" using ne by (metis hd_in_set set_sort)
  ultimately have "si_id (hd ?zs) = sx_current s" using act by (auto simp: shows_activity_def)
  with res d ids act ne show ?thesis by (simp add: list_all_iff)
qed

definition sample_table :: "session_runtime \<Rightarrow> session_table" where
  "sample_table r = \<lparr>sx_default = r, sx_open = (\<lambda>_. None), sx_current = ''s'', sx_dir = [''d''], sx_base = ''s'', sx_stored = ''s''\<rparr>"

lemma session_list_exact_witness:
  "\<forall>r. \<exists>listed xs.
     list_sessions (\<lambda>_. None) id [''d''] ''s'' ''s'' (Some [\<lparr>de_name = ''s'', de_file = True, de_bytes = Some [], de_modified = Some 7\<rparr>]) = Inr listed \<and>
     session_infos (Inr listed) [\<lparr>ak_session = ''s'', ak_request = RNumber 1\<rparr>] {} [] (sample_table r) = Inr xs \<and>
     si_id ` set xs = {''s''} \<and> si_status (hd xs) = Running_session"
proof
  fix r
  let ?e = "\<lparr>de_name = ''s'', de_file = True, de_bytes = Some [], de_modified = Some 7\<rparr>"
  let ?k = "\<lparr>ak_session = ''s'', ak_request = RNumber 1\<rparr>"
  have base: "is_session_name ''s'' ''s''" by (simp add: is_session_name_def)
  obtain listed where l: "list_sessions (\<lambda>_. None) id [''d''] ''s'' (sx_stored (sample_table r)) (Some [?e]) = Inr listed"
    by (simp add: list_sessions_def base sample_table_def)
  have c: "sx_current (sample_table r) = ''s''" "sx_stored (sample_table r) = ''s''" by (simp_all add: sample_table_def)
  from session_list_exact [OF l, of "[?k]" "{}" "[]"] obtain xs where
    xs: "session_infos (Inr listed) [?k] {} [] (sample_table r) = Inr xs" "si_id ` set xs = {''s''}"
      "list_all (shows_activity [?k] {} ''s'') xs" "xs \<noteq> []" "si_id (hd xs) = ''s''"
    by (fastforce simp: base c)
  moreover have "shows_activity [?k] {} ''s'' (hd xs)" using xs(3,4) by (cases xs) simp_all
  then have "si_status (hd xs) = Running_session"
    by (simp add: shows_activity_def activity_def active_count_def xs(5))
  ultimately show "\<exists>listed xs.
     list_sessions (\<lambda>_. None) id [''d''] ''s'' ''s'' (Some [?e]) = Inr listed \<and>
     session_infos (Inr listed) [?k] {} [] (sample_table r) = Inr xs \<and> si_id ` set xs = {''s''} \<and> si_status (hd xs) = Running_session"
    using l c by metis
qed

text \<open>The tables of the daemon have no order, and the list does not depend on the one they are read in.\<close>

lemma active_count_mset: "mset keys = mset keys' \<Longrightarrow> active_count keys i = active_count keys' i"
  unfolding active_count_def by (metis mset_filter size_mset)

theorem session_list_unordered:
  assumes "distinct (map si_id listed)" "mset keys = mset keys'" "mset opened = mset opened'"
  shows "session_infos (Inr listed) keys pending opened s = session_infos (Inr listed) keys' pending opened' s"
proof -
  have k: "live_info keys pending = live_info keys' pending"
    using active_count_mset [OF assms(2)] by (intro ext) (simp add: live_info_def activity_def)
  define info where "info i = live_info keys' pending (sx_current s) (idle_info i (session_path (sx_dir s) i) False)" for i
  have info: "si_id (info i) = i" for i by (simp add: info_def)
  define ls where "ls = map (live_info keys' pending (sx_current s)) listed"
  define ys where "ys rts = add_missing (info (sx_current s)) (add_runtimes info rts ls)" for rts
  have d: "distinct (map si_id (ys rts))" for rts
    unfolding ys_def using assms(1) by (intro missing_distinct runtimes_distinct) (simp add: ls_def comp_def)
  have "set (ys opened) = set (ys opened')"
    using mset_eq_setD [OF assms(3)] by (simp add: ys_def missing_set runtimes_set info)
  moreover have "distinct (ys rts)" for rts using d [of rts] by (simp add: distinct_map)
  ultimately have m: "mset (ys opened) = mset (ys opened')" by (metis set_eq_iff_mset_eq_distinct)
  have "inj_on info_key (set (ys opened'))"
    using d [of opened'] by (auto simp: distinct_map inj_on_def info_key_def)
  then have "inj_on info_key (set (ys opened))" unfolding mset_eq_setD [OF m] .
  moreover have "mset (ys opened) = mset (sort_key info_key (ys opened'))" unfolding m by (rule mset_sort [symmetric])
  ultimately have "sort_key info_key (ys opened) = sort_key info_key (ys opened')"
    by (metis sort_key_inj_key_eq sorted_sort_key)
  then show ?thesis by (simp add: session_infos_def k ys_def ls_def info_def [abs_def] Let_def)
qed

section \<open>What a runtime may do\<close>

lemma map_sum_Inr_iff: "map_sum f id x = Inr y \<longleftrightarrow> x = Inr y"
  by (cases x) auto

text \<open>
  There is one runtime per session: what a task gets is what every later task finds, also when two
  tasks opened the session at the same time, and no other session is touched.
\<close>

theorem one_runtime_per_session:
  assumes "insert_runtime r s = (r', s')" "rt_id r \<noteq> rt_id (sx_default s)"
  shows "find_runtime s' (rt_id r) = Some r' \<and> (\<forall>i x. find_runtime s i = Some x \<longrightarrow> find_runtime s' i = Some x)"
  using assms by (auto simp: insert_runtime_def find_runtime_def split: option.splits if_splits)

text \<open>
  The session of a delegated run has the rights of its delegation, however often it is opened
  again: its tools are among those the delegation names and the read tool frozen with it, its
  rounds and tokens are limited as recorded, and when the recorded permission or directory cannot
  be restored it is not opened at all.
\<close>

theorem child_session_restricted:
  assumes "load_runtime is_file load new_policy read_file d i s = Inr r" "delegation_for_session d i = Some g"
  shows "\<exists>mode policy. mode_parse (dg_permission (dr_row g)) = Some mode \<and> new_policy (dg_cwd (dr_row g)) = Inr policy \<and>
    en_round_limit (rt_engine r) = Some (nat (dg_max_rounds (dr_row g))) \<and>
    en_token_budget (rt_engine r) = Some (nat (dg_max_tokens (dr_row g))) \<and>
    (\<forall>n. n \<noteq> sp_name (read_file policy mode) \<and> n \<notin> set (dg_tools (dr_row g)) \<longrightarrow> resolve (en_tools (rt_engine r)) n = None) \<and>
    resolve (en_tools (rt_engine r)) (sp_name (read_file policy mode)) = Some (read_file policy mode)"
proof -
  obtain en en' mode policy where
    en: "for_delegation (rt_engine (sx_default s)) (dg_tools (dr_row g)) (nat (dg_max_rounds (dr_row g)))
        (nat (dg_max_tokens (dr_row g))) = Inr en"
      "mode_parse (dg_permission (dr_row g)) = Some mode" "new_policy (dg_cwd (dr_row g)) = Inr policy"
      "rt_engine r = with_tool (read_file policy mode) en"
    using assms by (auto simp: load_runtime_def session_engine_def frozen_child_read_tool_def bindE_Inr_iff ok_or_def
        map_sum_Inr_iff split: option.splits)
  obtain reg where reg: "subset_tools (en_tools (rt_engine (sx_default s))) (dg_tools (dr_row g)) = Inr reg"
      "en_tools en = reg" "en_round_limit en = Some (nat (dg_max_rounds (dr_row g)))"
      "en_token_budget en = Some (nat (dg_max_tokens (dr_row g)))"
    using en(1) by (auto simp: for_delegation_def bindE_Inr_iff)
  have "resolve (register t rg) n = (if n = sp_name t then Some t else resolve rg n)" for t rg n
    by (simp add: resolve_def register_def update_conv' split: option.split)
  then show ?thesis
    using en reg resolve_subset [OF reg(1)] by (simp add: with_tool_def)
qed

end
