(* ===== verification/Slash_Exec.thy ===== *)
theory Slash_Exec
  imports Slash Skills Cron Sessions
begin

text \<open>
  What the slash commands do that work on a component of their own (\<open>src/daemon/handlers.rs\<close>:
  \<open>execute_cron_command\<close>, \<open>execute_skill_command\<close>, \<open>execute_models_command\<close>,
  \<open>execute_permissions_command\<close>, \<open>execute_mcp_command\<close>). The texts of the errors, the clock, the
  outcomes of a job and the sources of a skill are arguments. A component the daemon runs
  without is \<open>None\<close>.
\<close>

section \<open>Cron\<close>

definition parse_below :: "nat \<Rightarrow> string \<Rightarrow> nat option" where
  "parse_below n s = (case parse_u64 s of None \<Rightarrow> None | Some k \<Rightarrow> if k < n then Some k else None)"

definition strip_front :: "string \<Rightarrow> string \<Rightarrow> string option" where
  "strip_front p s = (if prefix p s then Some (drop (length p) s) else None)"

definition msg_bad_interval :: string where
  "msg_bad_interval = ''interval '' @ utf8 [24517, 39035, 26159, 27491, 25972, 25968, 31186]"

definition msg_bad_schedule :: string where
  "msg_bad_schedule = ''schedule '' @ utf8 [24517, 39035, 26159] @ '' interval=<'' @ utf8 [31186] @ ''> '' @ utf8
    [25110] @ '' cron=<'' @ utf8 [20998] @ '','' @ utf8 [26102] @ '','' @ utf8 [26085] @ '','' @ utf8 [26376] @
      '','' @ utf8 [21608] @ ''>''"

definition msg_bad_retries :: string where
  "msg_bad_retries = ''--retries '' @ utf8 [24517, 39035, 26159, 38750, 36127, 25972, 25968]"

definition msg_bad_backoff :: string where
  "msg_bad_backoff = ''--backoff '' @ utf8 [24517, 39035, 26159, 38750, 36127, 25972, 25968, 31186]"

definition msg_no_prompt :: string where
  "msg_no_prompt = ''cron prompt '' @ utf8 [19981, 33021, 20026, 31354]"

definition commas_to_spaces :: "string \<Rightarrow> string" where
  "commas_to_spaces = map (\<lambda>c. if c = CHR '','' then CHR '' '' else c)"

definition parse_cron_schedule :: "string \<Rightarrow> string + schedule_spec" where
  "parse_cron_schedule a =
     (case strip_front ''interval='' a of
        Some s \<Rightarrow> (case parse_u64 s of None \<Rightarrow> Inl msg_bad_interval | Some n \<Rightarrow> Inr (Interval (of_nat n)))
      | None \<Rightarrow>
          (case strip_front ''cron='' a of
             Some e \<Rightarrow> Inr (CronExpr (commas_to_spaces e))
           | None \<Rightarrow> Inl msg_bad_schedule))"

text \<open>The options may stand anywhere behind the schedule; the other words are the prompt.\<close>

fun parse_cron_words :: "u32 \<Rightarrow> u64 \<Rightarrow> string list \<Rightarrow> string list \<Rightarrow> string + u32 \<times> u64 \<times> string list" where
  "parse_cron_words retries backoff prompt [] = Inr (retries, backoff, prompt)"
| "parse_cron_words retries backoff prompt (a # as) =
     (case strip_front ''--retries='' a of
        Some v \<Rightarrow>
          (case parse_below (2 ^ 32) v of
             None \<Rightarrow> Inl msg_bad_retries | Some n \<Rightarrow> parse_cron_words (of_nat n) backoff prompt as)
      | None \<Rightarrow>
          (case strip_front ''--backoff='' a of
             Some v \<Rightarrow>
               (case parse_u64 v of
                  None \<Rightarrow> Inl msg_bad_backoff | Some n \<Rightarrow> parse_cron_words retries (of_nat n) prompt as)
           | None \<Rightarrow> parse_cron_words retries backoff (prompt @ [a]) as))"

definition parse_cron_add :: "string list \<Rightarrow> string + string \<times> schedule_spec \<times> string \<times> u32 \<times> u64" where
  "parse_cron_add args =
     bindE (parse_cron_schedule (args ! 2)) (\<lambda>sch.
     bindE (parse_cron_words 0 5 [] (drop 3 args)) (\<lambda>(retries, backoff, prompt).
       if prompt = [] then Inl msg_no_prompt else Inr (args ! 1, sch, join '' '' prompt, retries, backoff)))"

definition display_schedule :: "schedule_spec \<Rightarrow> string" where
  "display_schedule s = (case s of
     Interval n \<Rightarrow> ''interval='' @ dec (unat n) @ ''s'' | CronExpr e \<Rightarrow> ''cron='' @ e)"

definition success_word :: "bool \<Rightarrow> string" where
  "success_word b = (if b then utf8 [25104, 21151] else utf8 [22833, 36133])"

definition msg_dot :: string where
  "msg_dot = '' '' @ utf8 [183] @ '' ''"

definition job_line :: "cron_job \<Rightarrow> string" where
  "job_line j =
     job_name j @ '' ['' @ job_id j @ ''] '' @ (if job_enabled j then utf8 [21551, 29992] else utf8 [20572, 29992]) @
     msg_dot @ display_schedule (job_schedule j) @ msg_dot @ ''next='' @ dec (unat (job_next_run j)) @ msg_dot @
     (if job_history j = [] then utf8 [23578, 26410, 36816, 34892]
      else let r = last (job_history j) in
        utf8 [19978, 27425] @ ''='' @ dec (unat (rn_finished r)) @ utf8 [65292, 23581, 35797] @ ''='' @ dec (unat
          (rn_attempts r)) @ utf8 [65292, 32467, 26524] @ ''='' @ success_word (rn_success r))"

definition msg_cron_usage :: string where
  "msg_cron_usage =
     utf8 [29992, 27861, 65306] @ ''/cron list | add <name> interval=<'' @ utf8 [31186] @ ''>|cron=<'' @ utf8
       [20998] @ '','' @ utf8 [26102] @ '','' @ utf8 [26085] @ '','' @ utf8 [26376] @ '','' @ utf8 [21608] @
         ''> [--retries=N] [--backoff=N] <prompt> | enable|disable|run-now <ID'' @ utf8 [25110, 21517, 31216] @
           ''> | remove <ID'' @ utf8 [25110, 21517, 31216] @ ''> --confirm''"

definition msg_confirm :: "string \<Rightarrow> string" where
  "msg_confirm k = utf8 [21024, 38500, 38656, 35201, 26174, 24335, 30830, 35748, 65306] @ ''/cron remove '' @ k @
    '' --confirm''"

text \<open>What a command answers, before the text of a failure gets its heading.\<close>

definition in_store :: "(cron_error \<Rightarrow> string) \<Rightarrow> (cron_job \<Rightarrow> string) \<Rightarrow> manager \<Rightarrow> cron_error + cron_job \<times> cron_store \<Rightarrow> (string + string) \<times> manager" where
  "in_store show line m r =
     (case r of Inl e \<Rightarrow> (Inl (show e), m) | Inr (j, s) \<Rightarrow> (Inr (line j), m\<lparr>mg_store := s\<rparr>))"

record cron_env =
  ce_lib :: cron_lib
  ce_saved :: bool
  ce_now :: u64
  ce_seq :: u64
  ce_started :: "u64 option"
  ce_finished :: "u64 option"
  ce_outcome :: "nat \<Rightarrow> string + string"
  ce_show :: "cron_error \<Rightarrow> string"

definition cron_result :: "cron_env \<Rightarrow> string list \<Rightarrow> manager \<Rightarrow> ((string + string) \<times> manager) option" where
  "cron_result en args m =
     (let s = mg_store m; show = ce_show en in
      case args of
        [] \<Rightarrow> Some (Inl msg_cron_usage, m)
      | c # as \<Rightarrow>
          if c = ''list'' \<and> as = [] then
            Some (Inr (if cs_jobs s = [] then utf8 [26242, 26080] @ '' cron '' @ utf8 [20219, 21153, 12290] else
              join [nl] (map job_line (cs_jobs s))), m)
          else if c = ''add'' \<and> length args \<ge> 4 then
            Some (case parse_cron_add args of
                Inl e \<Rightarrow> (Inl e, m)
              | Inr (name, sch, prompt, retries, backoff) \<Rightarrow>
                  in_store show (\<lambda>j. utf8 [24050, 28155, 21152] @ '' '' @ job_name j @ '' ['' @ job_id j @
                    '']'' @ utf8 [65292, 19979, 27425, 36816, 34892] @ '' '' @ dec (unat (job_next_run j))) m
                    (add_job (ce_lib en) (ce_saved en) (ce_now en) (ce_seq en) name sch prompt retries backoff s))
          else if c = ''enable'' \<and> length args = 2 then
            Some (in_store show (\<lambda>j. utf8 [24050, 21551, 29992] @ '' '' @ job_name j) m
              (set_enabled (ce_lib en) (ce_saved en) (ce_now en) (hd as) True s))
          else if c = ''disable'' \<and> length args = 2 then
            Some (in_store show (\<lambda>j. utf8 [24050, 20572, 29992] @ '' '' @ job_name j) m
              (set_enabled (ce_lib en) (ce_saved en) (ce_now en) (hd as) False s))
          else if c = ''run-now'' \<and> length args = 2 then
            map_option (\<lambda>(r, m). (case r of
                Inl e \<Rightarrow> Inl (show e)
              | Inr n \<Rightarrow> Inr (utf8 [31435, 21363, 36816, 34892] @ success_word (rn_success n) @ utf8
                [65288, 23581, 35797] @ '' '' @ dec (unat (rn_attempts n)) @ '' '' @ utf8 [27425, 65289, 65306] @
                  rn_result n), m))
              (run_now (ce_saved en) (ce_started en) (ce_finished en) (ce_outcome en) (hd as) m)
          else if c = ''remove'' \<and> length args = 3 \<and> args ! 2 = ''--confirm'' then
            Some (in_store show (\<lambda>j. utf8 [24050, 21024, 38500] @ '' '' @ job_name j) m (remove_job
              (ce_saved en) (hd as) s))
          else if c = ''remove'' \<and> length args = 2 then Some (Inl (msg_confirm (hd as)), m)
          else Some (Inl msg_cron_usage, m))"

definition answer_text :: "string \<Rightarrow> string + string \<Rightarrow> string" where
  "answer_text heading r = (case r of Inl e \<Rightarrow> heading @ e | Inr t \<Rightarrow> t)"

definition execute_cron_command :: "cron_env \<Rightarrow> string list \<Rightarrow> manager option \<Rightarrow> (string \<times> manager option) option" where
  "execute_cron_command en args cron =
     (case cron of
        None \<Rightarrow> Some (utf8 [24403, 21069] @ '' daemon '' @ utf8 [26410, 21551, 29992] @ '' cron '' @
          utf8 [31649, 29702, 22120, 12290], None)
      | Some m \<Rightarrow> map_option (\<lambda>(r, m). (answer_text (''Cron '' @ utf8 [21629, 20196, 22833,
        36133, 65306]) r, Some m)) (cron_result en args m))"

section \<open>Skills\<close>

definition show_outcome :: "('v \<Rightarrow> string) \<Rightarrow> 'v outcome \<Rightarrow> string" where
  "show_outcome show x = (case x of
     Installed n v \<Rightarrow> utf8 [24050, 23433, 35013] @ '' '' @ n @ ''@'' @ show v
   | Skipped n v reason \<Rightarrow> utf8 [24050, 36339, 36807] @ '' '' @ n @ ''@'' @ show v @ utf8 [65306] @
     reason)"

definition msg_skill_usage :: string where
  "msg_skill_usage =
     utf8 [29992, 27861, 65306] @ ''/skill list | install <'' @ utf8 [36335, 24452] @
       ''> [--force] | update <name> <'' @ utf8 [36335, 24452] @ ''> | remove <name> --confirm''"

definition msg_install_usage :: string where
  "msg_install_usage = utf8 [29992, 27861, 65306] @ ''/skill install <'' @ utf8 [36335, 24452] @ ''> [--force]''"

definition msg_remove_usage :: string where
  "msg_remove_usage = utf8 [29992, 27861, 65306] @ ''/skill remove <name> --confirm''"

text \<open>
  \<open>many\<close> and \<open>one\<close> find the files of a path, each with what it holds and how copying it goes; \<open>removed\<close>
  says whether the file system removes a file.
\<close>

record 'v skill_env =
  se_yaml :: "string \<Rightarrow> 'v manifest option"
  se_show :: "'v \<Rightarrow> string"
  se_error :: "skill_error \<Rightarrow> string"
  se_many :: "string \<Rightarrow> skill_error + (string option \<times> io) list"
  se_one :: "string \<Rightarrow> skill_error + string option \<times> io"
  se_removed :: bool

definition skill_result :: "'v :: linorder skill_env \<Rightarrow> string list \<Rightarrow> 'v library \<Rightarrow> (string + string) \<times> 'v library" where
  "skill_result en args s =
     (let failed = map_prod (map_sum (se_error en) (\<lambda>t. t)) (\<lambda>s. s) in
      case args of
        [] \<Rightarrow> (Inl msg_skill_usage, s)
      | c # as \<Rightarrow>
          if c = ''list'' \<and> as = [] then
            (let (xs, s) = ensure_index (se_yaml en) s in
             (Inr (if xs = [] then utf8 [26242, 26080, 24050, 23433, 35013] @ '' skill'' @ utf8 [12290]
                else join [nl] (map (\<lambda>x. skill_title (se_show en) (ix_manifest x) @ utf8 [65306] @
                  mf_description (ix_manifest x)) xs)), s))
          else if c = ''install'' \<and> as \<noteq> [] then
            (let force = last args = ''--force'';
                 words = (if force then butlast as else as);
                 p = join '' '' words in
             if p = [] then (Inl msg_install_usage, s)
             else case se_many en p of
               Inl e \<Rightarrow> (Inl (se_error en e), s)
             | Inr srcs \<Rightarrow>
                 (case install (se_yaml en) (se_show en) force srcs s of
                    (Inl e, s) \<Rightarrow> (Inl (se_error en e), s)
                  | (Inr xs, s) \<Rightarrow> (Inr (join [nl] (map (show_outcome (se_show en)) xs)), s)))
          else if c = ''update'' \<and> length args \<ge> 3 then
            (case bindE (validate_name (hd as)) (\<lambda>_. se_one en (join '' '' (tl as))) of
               Inl e \<Rightarrow> (Inl (se_error en e), s)
             | Inr (bytes, io) \<Rightarrow>
                 (case update_skill (se_yaml en) (se_show en) (hd as) bytes io s of
                    (Inl e, s) \<Rightarrow> (Inl (se_error en e), s)
                  | (Inr x, s) \<Rightarrow> (Inr (show_outcome (se_show en) x), s)))
          else if c = ''remove'' \<and> as \<noteq> [] then
            (if length args > 3 then (Inl msg_remove_usage, s)
             else failed (remove_skill (se_yaml en) (se_removed en) (hd as) (length args = 3 \<and> args ! 2 =
               ''--confirm'') s))
          else (Inl msg_skill_usage, s))"

definition execute_skill_command :: "'v :: linorder skill_env \<Rightarrow> string list \<Rightarrow> 'v library option \<Rightarrow> string \<times> 'v library option" where
  "execute_skill_command en args skills =
     (case skills of
        None \<Rightarrow> (utf8 [24403, 21069] @ '' daemon '' @ utf8 [26410, 21551, 29992] @ '' skill '' @ utf8
          [31649, 29702, 22120, 12290], None)
      | Some s \<Rightarrow> (case skill_result en args s of (r, s) \<Rightarrow> (answer_text (''Skill '' @ utf8
        [21629, 20196, 22833, 36133, 65306]) r, Some s)))"

section \<open>Permissions\<close>

definition describe_mode :: "safety_mode \<Rightarrow> string" where
  "describe_mode m = mode_label m @ utf8 [65288] @ mode_description m @ utf8 [65289]"

definition execute_permissions_command :: "string list \<Rightarrow> safety_mode option \<Rightarrow> string \<times> safety_mode option" where
  "execute_permissions_command args safety =
     (case safety of
        None \<Rightarrow> (msg_no_controller @ utf8 [12290], None)
      | Some mode \<Rightarrow>
          (case args of
             [] \<Rightarrow> (utf8 [24403, 21069, 26435, 38480, 27169, 24335, 65306] @ describe_mode mode @ utf8
               [12290, 20999, 25442, 29992, 27861, 65306] @ ''/permissions request|risk|full'', safety)
           | a # _ \<Rightarrow>
               (case mode_parse a of
                  None \<Rightarrow>
                    (utf8 [26435, 38480, 27169, 24335, 26080, 25928, 65292, 21487, 36873, 20540, 65306] @
                      ''request'' @ utf8 [65288, 35831, 27714, 25209, 20934, 65289, 12289] @ ''risk'' @ utf8
                        [65288, 24110, 25105, 25209, 20934, 65289, 12289] @ ''full'' @ utf8 [65288, 23436, 20840,
                          35775, 38382, 26435, 38480, 65289, 12290], safety)
                | Some m \<Rightarrow> (utf8 [24050, 20999, 25442, 26435, 38480, 27169, 24335, 65306] @
                  describe_mode m, Some m))))"

section \<open>Models\<close>

definition model_line :: "string \<Rightarrow> nat \<Rightarrow> profile_summary \<Rightarrow> string" where
  "model_line active n p =
     (if sm_id p = active then ''*'' else '' '') @ '' '' @ dec n @ ''. '' @ sm_name p @ msg_dot @ api_as_str
       (sm_api_type p) @
     msg_dot @ sm_model p @ msg_dot @ ''id='' @ sm_id p"

definition msg_no_models :: "string \<Rightarrow> string" where
  "msg_no_models file = utf8 [26242, 26080, 27169, 22411, 37197, 32622, 12290, 35831, 22312] @ '' Web '' @ utf8
    [35774, 32622, 20013, 28155, 21152, 27169, 22411, 65292, 25110, 35774, 32622, 29615, 22659, 21464, 37327,
      21518, 37325, 21551] @ '' daemon'' @ utf8 [12290, 37197, 32622, 25991, 20214, 65306] @ file"

text \<open>A number selects by position, from 1; zero and everything else is an identifier.\<close>

definition selected_model :: "profile_summary list \<Rightarrow> string \<Rightarrow> string option" where
  "selected_model ps a =
     (case parse_u64 a of
        None \<Rightarrow> Some a
      | Some n \<Rightarrow>
          if n = 0 then Some a else if n \<le> length ps then Some (sm_id (ps ! (n - 1))) else None)"

definition execute_models_command ::
  "(models_error \<Rightarrow> string) \<Rightarrow> string \<Rightarrow> (string \<Rightarrow> string option) \<Rightarrow> (config_file \<Rightarrow> string) \<Rightarrow> (string \<Rightarrow> config_file option) \<Rightarrow>
   disk_outcome \<Rightarrow> (provider_profile \<Rightarrow> profile_error + 'p) \<Rightarrow> string list \<Rightarrow> file_state \<Rightarrow> 'p Route.manager option \<Rightarrow>
   string \<times> file_state \<times> 'p Route.manager option" where
  "execute_models_command show file url_scheme ser de disk mk args fs mgr =
     (case models_list de mgr fs of
        Inl e \<Rightarrow> (show e, fs, mgr)
      | Inr (active, ps) \<Rightarrow>
          let active = (case active of None \<Rightarrow> utf8 [26410, 35774, 32622] | Some i \<Rightarrow> i) in
          case args of
            [] \<Rightarrow>
              (if ps = [] then msg_no_models file
               else utf8 [24403, 21069, 27169, 22411, 65306] @ active @ [nl] @
                 join [nl] (map (\<lambda>(n, p). model_line active n p) (enumerate 1 ps)) @ [nl] @
                 utf8 [20999, 25442, 29992, 27861, 65306] @ ''/models <'' @ utf8 [32534, 21495, 25110] @ '' ID>'',
                   fs, mgr)
          | a # _ \<Rightarrow>
              (case selected_model ps a of
                 None \<Rightarrow> (utf8 [27169, 22411, 32534, 21495, 36229, 20986, 33539, 22260, 65306] @ a, fs,
                   mgr)
               | Some i \<Rightarrow>
                   (case models_use url_scheme ser de disk mk i fs mgr of
                      (Inl e, x) \<Rightarrow> (show e, x)
                    | (Inr p, x) \<Rightarrow> (utf8 [24050, 20999, 25442, 27169, 22411, 65306] @ sm_name p @
                      msg_dot @ sm_model p, x))))"

section \<open>MCP servers\<close>

record mcp_server =
  ms_name :: string
  ms_connected :: bool
  ms_tools :: "string list"
  ms_error :: "string option"

record mcp_status =
  mc_file_error :: "string option"
  mc_servers :: "mcp_server list"

definition server_line :: "bool \<Rightarrow> mcp_server \<Rightarrow> string" where
  "server_line errors s =
     ms_name s @ utf8 [65306] @ (if ms_connected s then utf8 [24050, 36830, 25509] else utf8 [19981, 21487, 29992])
       @ msg_dot @
     (if ms_tools s = [] then utf8 [26080, 24037, 20855] else join (utf8 [12289]) (ms_tools s)) @
     (case ms_error s of None \<Rightarrow> [] | Some e \<Rightarrow> if errors then msg_dot @ e else [])"

definition format_mcp_status :: "mcp_status \<Rightarrow> bool \<Rightarrow> string" where
  "format_mcp_status status errors =
     (let ls = (case mc_file_error status of None \<Rightarrow> [] | Some e \<Rightarrow> [utf8 [37197, 32622,
       38169, 35823, 65306] @ e]) @ map (server_line errors) (mc_servers status) in
      if ls = [] then utf8 [26410, 37197, 32622] @ '' MCP server'' @ utf8 [65288, 26399, 26395] @
        '' .my-agent/mcp.json'' @ utf8 [65289, 12290] else join [nl] ls)"

text \<open>\<open>reloaded\<close> is the status after the servers have been started again.\<close>

definition execute_mcp_command :: "mcp_status \<Rightarrow> string list \<Rightarrow> mcp_status option \<Rightarrow> string \<times> mcp_status option" where
  "execute_mcp_command reloaded args mcp =
     (case mcp of
        None \<Rightarrow> (utf8 [24403, 21069] @ '' daemon '' @ utf8 [26410, 21551, 29992] @ '' MCP '' @ utf8
          [31649, 29702, 22120, 12290], None)
      | Some now \<Rightarrow>
          if args = [''reload''] then (format_mcp_status reloaded True, Some reloaded)
          else if args = [''status''] then (format_mcp_status now True, mcp)
          else if args = [''list''] then (format_mcp_status now False, mcp)
          else (''MCP '' @ utf8 [21629, 20196, 22833, 36133, 65306, 29992, 27861, 65306] @
            ''/mcp list | status | reload'', mcp))"

section \<open>What the commands do to the jobs\<close>

lemma strip_front_append [simp]: "strip_front p (p @ s) = Some s"
  by (simp add: strip_front_def)

definition prompt_word :: "string \<Rightarrow> bool" where
  "prompt_word w \<longleftrightarrow> strip_front ''--retries='' w = None \<and> strip_front ''--backoff='' w = None"

lemma parse_prompt_words: "list_all prompt_word ws \<Longrightarrow> parse_cron_words r b ps ws = Inr (r, b, ps @ ws)"
  by (induction ws arbitrary: ps) (auto simp: prompt_word_def)

lemma parse_word_dec:
  "parse_u64 (dec (unat (w :: u64))) = Some (unat w)"
  "parse_below (2 ^ 32) (dec (unat (v :: u32))) = Some (unat v)"
proof -
  show "parse_u64 (dec (unat w)) = Some (unat w)"
    using unsigned_less [of w, where 'a = nat] by (intro parse_u64_dec) simp
  have "unat v < 2 ^ 32" using unsigned_less [of v, where 'a = nat] by simp
  moreover from this have "parse_u64 (dec (unat v)) = Some (unat v)" by (intro parse_u64_dec) simp
  ultimately show "parse_below (2 ^ 32) (dec (unat v)) = Some (unat v)" by (simp add: parse_below_def)
qed

lemma cron_add_roundtrip:
  assumes "ws \<noteq> []" "list_all prompt_word ws"
  shows "parse_cron_add ([''add'', name, ''interval='' @ dec (unat s), ''--retries='' @ dec (unat r),
    ''--backoff='' @ dec (unat b)] @ ws) =
    Inr (name, Interval s, join '' '' ws, r, b)"
proof -
  have "strip_front ''--retries='' (''--backoff='' @ x) = None" for x by (simp add: strip_front_def)
  note strip = this strip_front_append [of "''--retries=''"] strip_front_append [of "''--backoff=''"]
    strip_front_append [of "''interval=''"]
  have "parse_cron_schedule (''interval='' @ dec (unat s)) = Inr (Interval s)"
    unfolding parse_cron_schedule_def strip by (simp add: parse_word_dec)
  moreover have "parse_cron_words 0 5 [] ((''--retries='' @ dec (unat r)) # (''--backoff='' @ dec (unat b)) # ws) =
    Inr (r, b, ws)"
    unfolding parse_cron_words.simps strip option.case parse_word_dec using assms(2) by (simp add: parse_prompt_words)
  ultimately show ?thesis using assms(1) by (simp add: parse_cron_add_def)
qed

text \<open>A job without its running state.\<close>

definition job_core :: "cron_job \<Rightarrow> string \<times> string \<times> schedule_spec \<times> string \<times> u32 \<times> u64" where
  "job_core j = (job_id j, job_name j, job_schedule j, job_prompt j, job_max_retries j, job_backoff j)"

lemma set_enabled_cores: "set_enabled lib saved now key b s = Inr (j, s') \<Longrightarrow> map job_core (cs_jobs s') = map job_core (cs_jobs s)"
  by (auto simp: set_enabled_def get_job_def commit_jobs_def bindE_Inr_iff ok_or_def job_core_def
      split: if_splits option.splits intro!: update_found_map)

lemma record_run_cores: "record_run saved key note s = Inr s' \<Longrightarrow> map job_core (cs_jobs s') = map job_core (cs_jobs s)"
  by (auto simp: record_run_def get_job_def commit_jobs_def bindE_Inr_iff ok_or_def job_core_def
      split: if_splits option.splits intro!: update_first_map)

lemma run_now_cores:
  assumes "run_now saved t0 t1 out key m = Some (r, m')"
  shows "map job_core (cs_jobs (mg_store m')) = map job_core (cs_jobs (mg_store m))"
proof (cases "get_job key (mg_store m)")
  case (Inl e)
  then show ?thesis using assms by (simp add: run_now_def)
next
  case (Inr job)
  show ?thesis
  proof (cases "job_id job \<in> mg_running m \<or> t0 = None")
    case True
    then show ?thesis using assms Inr by (auto simp: run_now_def execute_job_def split: if_splits)
  next
    case False
    then obtain s where s: "t0 = Some s" by auto
    with False Inr assms obtain n ok res z where "retry_loop job out 0 0 [] = Some (n, (ok, res), z)"
      by (auto simp: run_now_def execute_job_def Let_def)
    with False s Inr assms show ?thesis
      by (cases t1; cases "record_run saved (job_id job) \<lparr>rn_started = s, rn_finished = the t1, rn_attempts = n, rn_success = ok, rn_result = res\<rparr> (mg_store m)")
        (auto simp: run_now_def execute_job_def Let_def record_run_cores)
  qed
qed

lemma add_job_cores: "add_job lib saved now seq n sch p r b s = Inr (j, s') \<Longrightarrow> \<exists>x. cs_jobs s' = cs_jobs s @ [x]"
  by (auto simp: add_job_def commit_jobs_def bindE_Inr_iff Let_def split: if_splits)

text \<open>
  A cron command never loses or rewrites a job by accident. Whatever words it is given, it
  leaves every job with its name, schedule, prompt and limits in its place, adding at most new
  ones behind them, unless it is exactly the removal of one job with the word that confirms it;
  that takes away this job alone.
\<close>

lemma cron_command_keeps_jobs:
  assumes "cron_result en args m = Some (res, m')"
  shows "prefix (map job_core (cs_jobs (mg_store m))) (map job_core (cs_jobs (mg_store m'))) \<or>
    (\<exists>k. args = [''remove'', k, ''--confirm''] \<and> cs_jobs (mg_store m') = remove_first (job_is k)
      (cs_jobs (mg_store m)))"
proof -
  have store: "prefix (map job_core (cs_jobs (mg_store m))) (map job_core (cs_jobs (mg_store m')))"
    if "Some (in_store (ce_show en) line m x) = Some (res, m')" "\<And>j s. x = Inr (j, s) \<Longrightarrow> prefix (map job_core (cs_jobs (mg_store m))) (map job_core (cs_jobs s))"
    for line x
    using that by (cases x) (auto simp: in_store_def split: prod.splits)
  show ?thesis
  proof (cases args)
    case Nil
    then show ?thesis using assms by (simp add: cron_result_def)
  next
    case (Cons c as)
    note eval = assms [unfolded cron_result_def Cons Let_def list.case]
    consider (add) "c = ''add''" "length args \<ge> 4"
      | (switch) k where "c = ''enable'' \<or> c = ''disable''" "as = [k]"
      | (run) k where "c = ''run-now''" "as = [k]"
      | (remove) k where "c = ''remove''" "as = [k, ''--confirm'']"
      | (other) "m' = m"
    proof -
      have same: "m' = m" if "\<not> (c = ''add'' \<and> length args \<ge> 4)" "\<not> (c = ''enable'' \<and>
        length args = 2)" "\<not> (c = ''disable'' \<and> length args = 2)"
        "\<not> (c = ''run-now'' \<and> length args = 2)" "\<not> (c = ''remove'' \<and> length args = 3 \<and>
          args ! 2 = ''--confirm'')"
        using eval that unfolding Cons by (simp split: if_splits)
      have two: "length args = 2 \<Longrightarrow> \<exists>k. as = [k]" and three: "length args = 3
        \<Longrightarrow> args ! 2 = ''--confirm'' \<Longrightarrow> \<exists>k. as = [k, ''--confirm'']"
        by (auto simp: Cons length_Suc_conv numeral_2_eq_2 numeral_3_eq_3)
      consider "c = ''add'' \<and> length args \<ge> 4" | "c = ''enable'' \<and> length args = 2" | "c =
        ''disable'' \<and> length args = 2"
        | "c = ''run-now'' \<and> length args = 2" | "c = ''remove'' \<and> length args = 3 \<and> args ! 2 =
          ''--confirm''" | "m' = m"
        using same by argo
      then show thesis
      proof cases
        case 1
        then show thesis by (intro add) simp_all
      next
        case 2
        then obtain k where "as = [k]" using two by (meson)
        with 2 show thesis by (intro switch [of k]) simp_all
      next
        case 3
        then obtain k where "as = [k]" using two by (meson)
        with 3 show thesis by (intro switch [of k]) simp_all
      next
        case 4
        then obtain k where "as = [k]" using two by (meson)
        with 4 show thesis by (intro run [of k]) simp_all
      next
        case 5
        then obtain k where "as = [k, ''--confirm'']" using three by (meson)
        with 5 show thesis by (intro remove [of k]) simp_all
      next
        case 6
        then show thesis by (rule other)
      qed
    qed
    then show ?thesis
    proof cases
      case add
      then have "Some (res, m') = Some (case parse_cron_add args of
                Inl e \<Rightarrow> (Inl e, m)
              | Inr (name, sch, prompt, retries, backoff) \<Rightarrow>
                  in_store (ce_show en) (\<lambda>j. utf8 [24050, 28155, 21152] @ '' '' @ job_name j @ '' ['' @
                    job_id j @ '']'' @ utf8 [65292, 19979, 27425, 36816, 34892] @ '' '' @ dec (unat (job_next_run
                      j))) m
                    (add_job (ce_lib en) (ce_saved en) (ce_now en) (ce_seq en) name sch prompt retries backoff (mg_store m)))"
        using eval by (simp add: Cons)
      then show ?thesis using add_job_cores
        by (cases "parse_cron_add args") (auto intro!: store split: prod.splits dest!: add_job_cores)
    next
      case (switch k)
      then show ?thesis using eval by (auto simp: in_store_def set_enabled_cores split: sum.splits prod.splits)
    next
      case (run k)
      then show ?thesis using assms run_now_cores by (fastforce simp: cron_result_def Cons)
    next
      case (remove k)
      then show ?thesis using assms
        by (cases "find (job_is k) (cs_jobs (mg_store m))")
          (auto simp: cron_result_def Cons in_store_def remove_job_def commit_jobs_def get_job_def Let_def ok_or_def split: if_splits)
    next
      case other
      then show ?thesis by simp
    qed
  qed
qed

end
