(* ===== verification/File_Access.thy ===== *)
theory File_Access
  imports Safety
begin

text \<open>
  Access to files after authorisation (\<open>src/safety/file_access.rs\<close>). A disk is a table of inodes;
  an open handle is the number of its inode, which stands for the pair of device and inode number
  and is not given away again while the handle is open. The system calls act as documented:
  \<open>openat\<close> with \<open>O_NOFOLLOW\<close> fails on a symbolic link, \<open>O_EXCL\<close> on an existing name, \<open>renameat\<close>
  replaces the target in one step. The digest is an argument. Every call that may fail on its
  own does so as \<open>faults\<close> says, and other processes change the disk where the code leaves them time to.
\<close>

section \<open>Disks\<close>

record plain =
  pl_bytes :: string
  pl_mode :: nat
  pl_links :: nat

datatype node =
    Directory "string \<Rightarrow> nat option"
  | Regular plain
  | Symlink path
  | Special

record disk =
  dk_nodes :: "nat \<Rightarrow> node option"
  dk_denied :: "nat \<Rightarrow> bool"
  dk_next :: nat

text \<open>The inode of the root directory.\<close>

definition root_dir :: nat where
  "root_dir = 0"

definition listing :: "disk \<Rightarrow> nat \<Rightarrow> string \<Rightarrow> nat option" where
  "listing d i = (case dk_nodes d i of Some (Directory es) \<Rightarrow> es | _ \<Rightarrow> (\<lambda>_. None))"

definition file_at :: "disk \<Rightarrow> nat \<Rightarrow> plain option" where
  "file_at d i = (case dk_nodes d i of Some (Regular p) \<Rightarrow> Some p | _ \<Rightarrow> None)"

definition set_entry :: "nat \<Rightarrow> string \<Rightarrow> nat option \<Rightarrow> disk \<Rightarrow> disk" where
  "set_entry dir n i d = d\<lparr>dk_nodes := (dk_nodes d)(dir \<mapsto> Directory ((listing d dir)(n := i)))\<rparr>"

definition set_file :: "nat \<Rightarrow> plain \<Rightarrow> disk \<Rightarrow> disk" where
  "set_file i p d = d\<lparr>dk_nodes := (dk_nodes d)(i \<mapsto> Regular p)\<rparr>"

definition is_dir :: "disk \<Rightarrow> nat \<Rightarrow> bool" where
  "is_dir d i \<longleftrightarrow> (case dk_nodes d i of Some (Directory _) \<Rightarrow> True | _ \<Rightarrow> False)"

section \<open>Opening\<close>

datatype access_error =
    NoParent
  | NoFileName
  | NameHasNul
  | RelativePath
  | EntryMissing
  | FollowsLink
  | AccessDenied
  | NotDirectory
  | NotRegular
  | MkdirFailed
  | FileMissing path
  | HardLinked path
  | NoOriginal
  | ReadLimit
  | BytesNotUtf8
  | ReadOnlyAccess
  | ParentChanged path
  | TargetChanged path
  | ContentChanged path
  | PresenceChanged path
  | TempFailed
  | ModeFailed
  | WriteFailed
  | SyncFailed
  | RenameFailed
  | DirSyncFailed

record faults =
  fl_mkdir :: bool
  fl_create :: bool
  fl_chmod :: bool
  fl_cut :: "nat option"
  fl_sync :: bool
  fl_rename :: bool
  fl_dirsync :: bool

definition c_name :: "string \<Rightarrow> access_error + string" where
  "c_name n = (if CHR 0x00 \<in> set n then Inl NameHasNul else Inr n)"

definition open_at :: "disk \<Rightarrow> nat \<Rightarrow> string \<Rightarrow> access_error + nat" where
  "open_at d dir n =
     (case listing d dir n of
        None \<Rightarrow> Inl EntryMissing
      | Some i \<Rightarrow>
          (case dk_nodes d i of
             None \<Rightarrow> Inl EntryMissing
           | Some (Symlink _) \<Rightarrow> Inl FollowsLink
           | Some _ \<Rightarrow> if dk_denied d i then Inl AccessDenied else Inr i))"

text \<open>The same with \<open>O_DIRECTORY\<close>.\<close>

definition open_dir_at :: "disk \<Rightarrow> nat \<Rightarrow> string \<Rightarrow> access_error + nat" where
  "open_dir_at d dir n = bindE (open_at d dir n) (\<lambda>i. if is_dir d i then Inr i else Inl NotDirectory)"

definition open_regular_at :: "disk \<Rightarrow> nat \<Rightarrow> string \<Rightarrow> access_error + nat option" where
  "open_regular_at d dir n =
     (case open_at d dir n of
        Inl EntryMissing \<Rightarrow> Inr None
      | Inl e \<Rightarrow> Inl e
      | Inr i \<Rightarrow> if file_at d i = None then Inl NotRegular else Inr (Some i))"

definition mkdir_at :: "faults \<Rightarrow> disk \<Rightarrow> nat \<Rightarrow> string \<Rightarrow> access_error + disk" where
  "mkdir_at fl d dir n =
     (if listing d dir n \<noteq> None then Inr d
      else if fl_mkdir fl \<or> \<not> is_dir d dir then Inl MkdirFailed
      else let i = dk_next d in
        Inr (set_entry dir n (Some i) (d\<lparr>dk_nodes := (dk_nodes d)(i \<mapsto> Directory (\<lambda>_. None)), dk_next := Suc i\<rparr>)))"

fun open_components :: "faults \<Rightarrow> bool \<Rightarrow> path \<Rightarrow> nat \<Rightarrow> disk \<Rightarrow> (access_error + nat) \<times> disk" where
  "open_components fl create [] cur d = (Inr cur, d)"
| "open_components fl create (Normal n # ps) cur d =
     (case c_name n of
        Inl e \<Rightarrow> (Inl e, d)
      | Inr n \<Rightarrow>
          (case open_dir_at d cur n of
             Inr i \<Rightarrow> open_components fl create ps i d
           | Inl e \<Rightarrow>
               if e = EntryMissing \<and> create then
                 (case mkdir_at fl d cur n of
                    Inl e \<Rightarrow> (Inl e, d)
                  | Inr d \<Rightarrow>
                      (case open_dir_at d cur n of
                         Inl e \<Rightarrow> (Inl e, d)
                       | Inr i \<Rightarrow> open_components fl create ps i d))
               else (Inl e, d)))"
| "open_components fl create (_ # ps) cur d = open_components fl create ps cur d"

definition open_directory_tree :: "faults \<Rightarrow> bool \<Rightarrow> path \<Rightarrow> disk \<Rightarrow> (access_error + nat) \<times> disk" where
  "open_directory_tree fl create p d =
     (if p = [] \<or> hd p \<noteq> Root then (Inl RelativePath, d) else open_components fl create p root_dir d)"

section \<open>The authorised path\<close>

text \<open>The identity of the parent is the number of its handle.\<close>

record authorized =
  au_path :: path
  au_parent :: nat
  au_base :: string
  au_intent :: path_intent
  au_original :: "nat option"
  au_version :: "(nat \<times> string) option"

definition parent_path :: "path \<Rightarrow> access_error + path" where
  "parent_path p = (if p = [] \<or> last p = Root then Inl NoParent else Inr (butlast p))"

definition bytes_at :: "disk \<Rightarrow> nat \<Rightarrow> string" where
  "bytes_at d i = (case file_at d i of None \<Rightarrow> [] | Some f \<Rightarrow> pl_bytes f)"

definition links_at :: "disk \<Rightarrow> nat \<Rightarrow> nat" where
  "links_at d i = (case file_at d i of None \<Rightarrow> 0 | Some f \<Rightarrow> pl_links f)"

definition version_of_file :: "(string \<Rightarrow> string) \<Rightarrow> disk \<Rightarrow> nat \<Rightarrow> nat \<times> string" where
  "version_of_file digest d i = (i, digest (bytes_at d i))"

definition open_authorized ::
  "(string \<Rightarrow> string) \<Rightarrow> faults \<Rightarrow> path \<Rightarrow> path_intent \<Rightarrow> disk \<Rightarrow> (access_error + authorized) \<times> disk" where
  "open_authorized digest fl p intent d =
     (case bindE (parent_path p) (\<lambda>q. bindE (ok_or NoFileName (file_name p)) (\<lambda>n. bindE (c_name n) (\<lambda>n. Inr (q, n)))) of
        Inl e \<Rightarrow> (Inl e, d)
      | Inr (q, n) \<Rightarrow>
          (case open_directory_tree fl (intent = Write) q d of
             (Inl e, d) \<Rightarrow> (Inl e, d)
           | (Inr dir, d) \<Rightarrow>
               (bindE (open_regular_at d dir n) (\<lambda>original.
                  if original = None \<and> intent \<noteq> Write then Inl (FileMissing p)
                  else if intent \<noteq> Read \<and> (case original of None \<Rightarrow> False | Some i \<Rightarrow> links_at d i > 1) then Inl (HardLinked p)
                  else Inr \<lparr>au_path = p, au_parent = dir, au_base = n, au_intent = intent, au_original = original,
                    au_version = map_option (version_of_file digest d) original\<rparr>), d)))"

definition max_read :: nat where
  "max_read = 32 * 1024 * 1024"

definition read_bytes :: "disk \<Rightarrow> authorized \<Rightarrow> access_error + string" where
  "read_bytes d au =
     bindE (ok_or NoOriginal (au_original au)) (\<lambda>i.
       if length (bytes_at d i) > max_read then Inl ReadLimit else Inr (bytes_at d i))"

definition read_to_string :: "disk \<Rightarrow> authorized \<Rightarrow> access_error + string" where
  "read_to_string d au = bindE (read_bytes d au) (\<lambda>b. ok_or BytesNotUtf8 (from_utf8 b))"

definition file_size :: "disk \<Rightarrow> authorized \<Rightarrow> access_error + nat" where
  "file_size d au = bindE (ok_or NoOriginal (au_original au)) (\<lambda>i. Inr (length (bytes_at d i)))"

definition validate_current :: "(string \<Rightarrow> string) \<Rightarrow> faults \<Rightarrow> authorized \<Rightarrow> disk \<Rightarrow> access_error + unit" where
  "validate_current digest fl au d =
     bindE (parent_path (au_path au)) (\<lambda>q.
     bindE (fst (open_directory_tree fl False q d)) (\<lambda>dir.
       if dir \<noteq> au_parent au then Inl (ParentChanged (au_path au))
       else bindE (open_regular_at d (au_parent au) (au_base au)) (\<lambda>cur.
         case (au_version au, cur) of
           (None, None) \<Rightarrow> Inr ()
         | (Some (i, h), Some j) \<Rightarrow>
             if i \<noteq> j \<or> links_at d j > 1 then Inl (TargetChanged (au_path au))
             else if digest (bytes_at d j) \<noteq> h then Inl (ContentChanged (au_path au)) else Inr ()
         | _ \<Rightarrow> Inl (PresenceChanged (au_path au)))))"

section \<open>Writing\<close>

definition temp_file :: "nat \<Rightarrow> nat \<Rightarrow> string" where
  "temp_file pid n = ''.agent-write-'' @ dec pid @ ''-'' @ dec n"

definition create_temp :: "faults \<Rightarrow> nat \<Rightarrow> string \<Rightarrow> disk \<Rightarrow> access_error + nat \<times> disk" where
  "create_temp fl dir n d =
     (if fl_create fl \<or> \<not> is_dir d dir \<or> listing d dir n \<noteq> None then Inl TempFailed
      else let i = dk_next d in
        Inr (i, set_entry dir n (Some i)
          (set_file i \<lparr>pl_bytes = [], pl_mode = 384, pl_links = 1\<rparr> (d\<lparr>dk_next := Suc i\<rparr>))))"

definition update_file :: "nat \<Rightarrow> (plain \<Rightarrow> plain) \<Rightarrow> disk \<Rightarrow> disk" where
  "update_file i f d = (case file_at d i of None \<Rightarrow> d | Some p \<Rightarrow> set_file i (f p) d)"

definition mode_at :: "disk \<Rightarrow> nat \<Rightarrow> nat" where
  "mode_at d i = (case file_at d i of None \<Rightarrow> 0 | Some f \<Rightarrow> pl_mode f)"

definition rename_at :: "faults \<Rightarrow> nat \<Rightarrow> string \<Rightarrow> string \<Rightarrow> disk \<Rightarrow> access_error + disk" where
  "rename_at fl dir from to d =
     (case listing d dir from of
        None \<Rightarrow> Inl RenameFailed
      | Some i \<Rightarrow>
          if fl_rename fl then Inl RenameFailed
          else let d1 = (case listing d dir to of
                 None \<Rightarrow> d | Some j \<Rightarrow> update_file j (\<lambda>f. f\<lparr>pl_links := pl_links f - 1\<rparr>) d)
               in Inr (set_entry dir from None (set_entry dir to (Some i) d1)))"

definition unlink_at :: "nat \<Rightarrow> string \<Rightarrow> disk \<Rightarrow> disk" where
  "unlink_at dir n d =
     (case listing d dir n of
        None \<Rightarrow> d
      | Some i \<Rightarrow> set_entry dir n None (update_file i (\<lambda>f. f\<lparr>pl_links := pl_links f - 1\<rparr>) d))"

text \<open>
  \<open>env\<close> is what other processes do while the temporary file is written, \<open>late\<close> what they do between
  the last check and the rename.
\<close>

definition fill_temp ::
  "(string \<Rightarrow> string) \<Rightarrow> faults \<Rightarrow> (disk \<Rightarrow> disk) \<Rightarrow> (disk \<Rightarrow> disk) \<Rightarrow> authorized \<Rightarrow> string \<Rightarrow> string \<Rightarrow> nat \<Rightarrow> disk \<Rightarrow>
   access_error option \<times> disk" where
  "fill_temp digest fl env late au temp bytes t d =
     (if au_original au \<noteq> None \<and> fl_chmod fl then (Some ModeFailed, d)
      else let d = (case au_original au of None \<Rightarrow> d | Some i \<Rightarrow> update_file t (\<lambda>f. f\<lparr>pl_mode := mode_at d i mod 4096\<rparr>) d)
      in case fl_cut fl of
           Some k \<Rightarrow> (Some WriteFailed, update_file t (\<lambda>f. f\<lparr>pl_bytes := take k bytes\<rparr>) d)
         | None \<Rightarrow>
             let d = update_file t (\<lambda>f. f\<lparr>pl_bytes := bytes\<rparr>) d in
             if fl_sync fl then (Some SyncFailed, d)
             else let d = env d in
               case validate_current digest fl au d of
                 Inl e \<Rightarrow> (Some e, d)
               | Inr _ \<Rightarrow>
                   (case rename_at fl (au_parent au) temp (au_base au) (late d) of
                      Inl e \<Rightarrow> (Some e, late d)
                    | Inr d \<Rightarrow> (if fl_dirsync fl then Some DirSyncFailed else None, d)))"

definition atomic_write ::
  "(string \<Rightarrow> string) \<Rightarrow> faults \<Rightarrow> nat \<times> nat \<Rightarrow> (disk \<Rightarrow> disk) \<Rightarrow> (disk \<Rightarrow> disk) \<Rightarrow> authorized \<Rightarrow> string \<Rightarrow> disk \<Rightarrow>
   (access_error + unit) \<times> disk" where
  "atomic_write digest fl tid env late au bytes d =
     (if au_intent au = Read then (Inl ReadOnlyAccess, d)
      else case validate_current digest fl au d of
        Inl e \<Rightarrow> (Inl e, d)
      | Inr _ \<Rightarrow>
          let temp = temp_file (fst tid) (snd tid) in
          (case create_temp fl (au_parent au) temp d of
             Inl e \<Rightarrow> (Inl e, d)
           | Inr (t, d) \<Rightarrow>
               (case fill_temp digest fl env late au temp bytes t d of
                  (Some e, d) \<Rightarrow> (Inl e, unlink_at (au_parent au) temp d)
                | (None, d) \<Rightarrow> (Inr (), d))))"

section \<open>How the calls change a disk\<close>

lemma listing_set_entry [simp]:
  "listing (set_entry dir n i d) dir' n' = (if dir' = dir \<and> n' = n then i else listing d dir' n')"
  by (simp add: listing_def set_entry_def)

lemma file_at_set_entry [simp]: "file_at (set_entry dir n i d) j = (if j = dir then None else file_at d j)"
  by (simp add: file_at_def set_entry_def)

lemma listing_set_file [simp]: "listing (set_file i p d) dir n = (if dir = i then None else listing d dir n)"
  by (simp add: listing_def set_file_def)

lemma file_at_set_file [simp]: "file_at (set_file i p d) j = (if j = i then Some p else file_at d j)"
  by (simp add: file_at_def set_file_def)

lemma listing_file: "file_at d i \<noteq> None \<Longrightarrow> listing d i n = None"
  by (auto simp: listing_def file_at_def split: option.splits node.splits)

lemma listing_update_file [simp]: "listing (update_file i f d) dir n = listing d dir n"
  using listing_file [of d i n] by (auto simp: update_file_def split: option.splits)

lemma file_at_update_file [simp]:
  "file_at (update_file i f d) j = (if j = i then map_option f (file_at d j) else file_at d j)"
  by (simp add: update_file_def split: option.splits)

lemma dk_next_at [simp]: "listing (d\<lparr>dk_next := k\<rparr>) = listing d" "file_at (d\<lparr>dk_next := k\<rparr>) = file_at d"
  by (simp_all add: listing_def file_at_def fun_eq_iff)

lemma absent [simp]: "dk_nodes d i = None \<Longrightarrow> file_at d i = None" "dk_nodes d i = None \<Longrightarrow> listing d i n = None"
  by (simp_all add: file_at_def listing_def)

lemma walk_only [simp]: "snd (open_components fl False ps cur d) = d"
  by (induction fl False ps cur d rule: open_components.induct) (auto split: sum.splits)

section \<open>A write is carried out as a whole\<close>

text \<open>The disk \<open>w\<close> is \<open>d\<close> with the temporary file \<open>t\<close>.\<close>

definition with_temp :: "nat \<Rightarrow> string \<Rightarrow> nat \<Rightarrow> disk \<Rightarrow> disk \<Rightarrow> bool" where
  "with_temp dir temp t d w \<longleftrightarrow> dk_nodes d t = None \<and> t \<noteq> dir \<and> listing d dir temp = None \<and> file_at w t \<noteq> None \<and>
     (\<forall>x n. listing w x n = (if x = dir \<and> n = temp then Some t else listing d x n)) \<and>
     (\<forall>i. i \<noteq> t \<longrightarrow> file_at w i = file_at d i)"

definition same_files :: "nat \<Rightarrow> disk \<Rightarrow> disk \<Rightarrow> bool" where
  "same_files t d w \<longleftrightarrow> (\<forall>x n. listing w x n = listing d x n) \<and> (\<forall>i. i \<noteq> t \<longrightarrow> file_at w i = file_at d i)"

definition replaced :: "authorized \<Rightarrow> string \<Rightarrow> nat \<Rightarrow> disk \<Rightarrow> disk \<Rightarrow> bool" where
  "replaced au bytes t d w \<longleftrightarrow> dk_nodes d t = None \<and>
     (\<forall>x n. listing w x n = (if x = au_parent au \<and> n = au_base au then Some t else listing d x n)) \<and>
     bytes_at w t = bytes \<and> (case au_original au of None \<Rightarrow> mode_at w t = 384 | Some i \<Rightarrow> mode_at w t = mode_at d i mod 4096) \<and>
     (\<forall>i. i \<noteq> t \<and> listing d (au_parent au) (au_base au) \<noteq> Some i \<longrightarrow> file_at w i = file_at d i)"

lemma with_temp_create:
  assumes "create_temp fl dir n d = Inr (t, w)" "dk_nodes d (dk_next d) = None"
  shows "t = dk_next d" "with_temp dir n t d w" "file_at w t = Some \<lparr>pl_bytes = [], pl_mode = 384, pl_links = 1\<rparr>"
proof -
  have d: "is_dir d dir" "listing d dir n = None" and t: "t = dk_next d"
    and w: "w = set_entry dir n (Some t) (set_file t \<lparr>pl_bytes = [], pl_mode = 384, pl_links = 1\<rparr> (d\<lparr>dk_next := Suc t\<rparr>))"
    using assms(1) by (auto simp: create_temp_def Let_def split: if_splits)
  have "t \<noteq> dir" "file_at d dir = None" using d(1) assms(2) t by (auto simp: is_dir_def file_at_def split: option.splits node.splits)
  then show "t = dk_next d" "with_temp dir n t d w" "file_at w t = Some \<lparr>pl_bytes = [], pl_mode = 384, pl_links = 1\<rparr>"
    using assms(2) d t by (auto simp: with_temp_def w)
qed

lemma with_temp_update: "with_temp dir temp t d w \<Longrightarrow> with_temp dir temp t d (update_file t f w)"
  by (simp add: with_temp_def)

lemma with_temp_unlink: "with_temp dir temp t d w \<Longrightarrow> same_files t d (unlink_at dir temp w)"
proof -
  assume w: "with_temp dir temp t d w"
  then have "file_at d dir = None"
    unfolding with_temp_def by (metis listing_file option.distinct(1))
  with w show ?thesis by (auto simp: with_temp_def same_files_def unlink_at_def)
qed

lemma open_regular_Some: "open_regular_at d dir n = Inr (Some i) \<Longrightarrow> listing d dir n = Some i \<and> file_at d i \<noteq> None"
  by (auto simp: open_regular_at_def open_at_def split: option.splits node.splits sum.splits access_error.splits if_splits)

lemma open_regular_None: "open_regular_at d dir n = Inr None \<Longrightarrow> listing d dir n = Some i \<Longrightarrow> file_at d i = None"
  by (auto simp: open_regular_at_def open_at_def split: option.splits node.splits sum.splits access_error.splits if_splits)

definition unchanged :: "(string \<Rightarrow> string) \<Rightarrow> authorized \<Rightarrow> disk \<Rightarrow> bool" where
  "unchanged digest au d \<longleftrightarrow>
     (\<forall>fl. open_directory_tree fl False (butlast (au_path au)) d = (Inr (au_parent au), d)) \<and>
     (case au_version au of
        None \<Rightarrow> open_regular_at d (au_parent au) (au_base au) = Inr None
      | Some (i, h) \<Rightarrow> open_regular_at d (au_parent au) (au_base au) = Inr (Some i) \<and> links_at d i \<le> 1 \<and> digest (bytes_at d i) = h)"

lemma walk_faults: "open_components fl False ps cur d = open_components fl' False ps cur d"
  by (induction fl False ps cur d rule: open_components.induct) (auto split: sum.splits)

lemma validate_unchanged: "validate_current digest fl au d = Inr () \<Longrightarrow> unchanged digest au d"
proof -
  assume v: "validate_current digest fl au d = Inr ()"
  then obtain dir where q: "parent_path (au_path au) = Inr (butlast (au_path au))"
    "fst (open_directory_tree fl False (butlast (au_path au)) d) = Inr dir" "dir = au_parent au"
    by (auto simp: validate_current_def bindE_Inr_iff parent_path_def split: if_splits)
  have "open_directory_tree fl' False (butlast (au_path au)) d = (Inr (au_parent au), d)" for fl'
    using q(2,3) walk_faults [of fl' _ _ d fl]
    by (auto simp: open_directory_tree_def prod_eq_iff split: if_splits)
  moreover have "case au_version au of
      None \<Rightarrow> open_regular_at d (au_parent au) (au_base au) = Inr None
    | Some (i, h) \<Rightarrow> open_regular_at d (au_parent au) (au_base au) = Inr (Some i) \<and> links_at d i \<le> 1 \<and> digest (bytes_at d i) = h"
  proof -
    obtain cur where "open_regular_at d (au_parent au) (au_base au) = Inr cur" and "(case (au_version au, cur) of
           (None, None) \<Rightarrow> Inr ()
         | (Some (i, h), Some j) \<Rightarrow>
             if i \<noteq> j \<or> links_at d j > 1 then Inl (TargetChanged (au_path au))
             else if digest (bytes_at d j) \<noteq> h then Inl (ContentChanged (au_path au)) else Inr ()
         | _ \<Rightarrow> Inl (PresenceChanged (au_path au))) = Inr ()"
      using v q by (auto simp: validate_current_def bindE_Inr_iff)
    then show ?thesis by (cases "au_version au"; cases cur) (auto split: if_splits)
  qed
  ultimately show ?thesis unfolding unchanged_def by blast
qed

lemma base_free:
  assumes "unchanged digest au d" "unchanged digest au w" "listing d (au_parent au) temp = None"
    and "listing w (au_parent au) temp = Some t" "file_at w t \<noteq> None"
  shows "au_base au \<noteq> temp"
proof (cases "au_version au")
  case None
  then show ?thesis using assms open_regular_None [of w "au_parent au" temp t] by (auto simp: unchanged_def)
next
  case (Some v)
  then show ?thesis using assms open_regular_Some [of d "au_parent au" temp "fst v"]
    by (auto simp: unchanged_def split: prod.splits)
qed

lemma base_not_temp:
  assumes "unchanged digest au d" "with_temp (au_parent au) temp t d w" "unchanged digest au w"
  shows "au_base au \<noteq> temp"
  using base_free [OF assms(1,3), of temp t] assms(2) by (simp add: with_temp_def)

definition version_held :: "authorized \<Rightarrow> bool" where
  "version_held au \<longleftrightarrow> au_original au = map_option fst (au_version au)"

lemma open_held: "open_authorized digest fl p intent d = (Inr au, d') \<Longrightarrow> version_held au"
  by (auto simp: open_authorized_def version_held_def version_of_file_def bindE_Inr_iff option.map_comp comp_def
      split: sum.splits prod.splits if_splits option.splits)

lemma open_keeps:
  assumes "open_authorized digest fl p intent d = (res, d')" "intent \<noteq> Write"
  shows "d' = d"
proof -
  have tree: "open_directory_tree fl False q d = (fst (open_directory_tree fl False q d), d)" for q
    by (simp add: open_directory_tree_def prod_eq_iff)
  have no: "(intent = Write) = False" using assms(2) by simp
  show ?thesis
    using assms(1) unfolding open_authorized_def no
    by (subst (asm) tree) (auto split: sum.splits prod.splits)
qed

text \<open>The rename puts the finished file in the place of the old one.\<close>

lemma rename_replaces:
  assumes "with_temp (au_parent au) temp t d w" "au_base au \<noteq> temp" "rename_at fl (au_parent au) temp (au_base au) w = Inr w'"
    and "bytes_at w t = bytes" "case au_original au of None \<Rightarrow> mode_at w t = 384 | Some i \<Rightarrow> mode_at w t = mode_at d i mod 4096"
  shows "replaced au bytes t d w'"
proof -
  have at: "listing w (au_parent au) temp = Some t" and t: "t \<noteq> au_parent au"
    using assms(1) by (simp_all add: with_temp_def)
  have dir: "file_at w (au_parent au) = None" "t \<noteq> au_parent au"
    using at t listing_file [of w "au_parent au" temp] by fastforce+
  let ?w = "case listing w (au_parent au) (au_base au) of None \<Rightarrow> w | Some j \<Rightarrow> update_file j (\<lambda>f. f\<lparr>pl_links := pl_links f - 1\<rparr>) w"
  have w': "w' = set_entry (au_parent au) temp None (set_entry (au_parent au) (au_base au) (Some t) ?w)"
    using assms(3) by (simp only: rename_at_def at option.case Let_def sum.inject sum.distinct if_split split: if_split_asm)
  have l: "listing ?w x n = listing w x n" for x n by (simp split: option.splits)
  have f: "file_at ?w j = (if listing w (au_parent au) (au_base au) = Some j
      then map_option (\<lambda>f. f\<lparr>pl_links := pl_links f - 1\<rparr>) (file_at w j) else file_at w j)" for j
    by (auto split: option.splits)
  have "bytes_at w' t = bytes_at w t" "mode_at w' t = mode_at w t"
    using dir(2) unfolding bytes_at_def mode_at_def w' file_at_set_entry f by (simp_all split: option.splits)
  moreover have "file_at w' j = file_at d j"
    if "j \<noteq> t" "listing d (au_parent au) (au_base au) \<noteq> Some j" for j
    using assms(1,2) that dir unfolding w' file_at_set_entry f by (auto simp: with_temp_def)
  moreover have "listing w' x n = (if x = au_parent au \<and> n = au_base au then Some t else listing d x n)" for x n
    using assms(1,2) unfolding w' listing_set_entry l by (auto simp: with_temp_def)
  ultimately show ?thesis
    using assms(1,4,5) unfolding replaced_def by (cases "au_original au") (simp_all add: with_temp_def)
qed

lemma rename_at_Inr:
  assumes "rename_at fl dir from to d = Inr d'" "listing d dir from = Some t" "t \<noteq> dir"
  shows "listing d' x n = (if x = dir \<and> n = from then None else if x = dir \<and> n = to then Some t else listing d x n)"
    and "bytes_at d' t = bytes_at d t"
proof -
  let ?d = "case listing d dir to of None \<Rightarrow> d | Some j \<Rightarrow> update_file j (\<lambda>f. f\<lparr>pl_links := pl_links f - 1\<rparr>) d"
  have d': "d' = set_entry dir from None (set_entry dir to (Some t) ?d)"
    using assms(1) by (simp only: rename_at_def assms(2) option.case Let_def sum.inject sum.distinct if_split split: if_split_asm)
  have l: "listing ?d x n = listing d x n" for x n by (simp split: option.splits)
  have f: "file_at ?d t = file_at d t \<or> file_at ?d t = map_option (\<lambda>f. f\<lparr>pl_links := pl_links f - 1\<rparr>) (file_at d t)"
    by (simp split: option.splits)
  show "listing d' x n = (if x = dir \<and> n = from then None else if x = dir \<and> n = to then Some t else listing d x n)"
    unfolding d' listing_set_entry l by simp
  show "bytes_at d' t = bytes_at d t" using f assms(3) by (auto simp: d' bytes_at_def split: option.splits)
qed

text \<open>Other processes leave the file \<open>t\<close> and the name \<open>n\<close> in the directory alone.\<close>

definition leaves_alone :: "nat \<Rightarrow> nat \<Rightarrow> string \<Rightarrow> (disk \<Rightarrow> disk) \<Rightarrow> bool" where
  "leaves_alone t dir n f \<longleftrightarrow> (\<forall>w. file_at (f w) t = file_at w t \<and> listing (f w) dir n = listing w dir n)"

lemma fill_temp_outcome:
  assumes w: "with_temp (au_parent au) temp t d w" and f: "file_at w t = Some \<lparr>pl_bytes = [], pl_mode = 384, pl_links = 1\<rparr>"
    and "unchanged digest au d" "version_held au"
    and "fill_temp digest fl (\<lambda>d. d) (\<lambda>d. d) au temp bytes t w = (r, w')"
  shows "case r of
      None \<Rightarrow> replaced au bytes t d w'
    | Some e \<Rightarrow> with_temp (au_parent au) temp t d w' \<or> e = DirSyncFailed \<and> replaced au bytes t d w' \<and> au_base au \<noteq> temp"
proof -
  define m where "m = (case au_original au of None \<Rightarrow> w | Some i \<Rightarrow> update_file t (\<lambda>f. f\<lparr>pl_mode := mode_at w i mod 4096\<rparr>) w)"
  define x where "x = update_file t (\<lambda>f. f\<lparr>pl_bytes := bytes\<rparr>) m"
  have m: "with_temp (au_parent au) temp t d m" using w by (auto simp: m_def with_temp_update split: option.splits)
  then have ready: "with_temp (au_parent au) temp t d x" unfolding x_def by (rule with_temp_update)
  have bytes: "bytes_at x t = bytes" using f by (auto simp: bytes_at_def x_def m_def split: option.splits)
  have mode: "case au_original au of None \<Rightarrow> mode_at x t = 384 | Some i \<Rightarrow> mode_at x t = mode_at d i mod 4096"
  proof (cases "au_original au")
    case None
    then show ?thesis using f by (simp add: mode_at_def x_def m_def)
  next
    case (Some i)
    then obtain h where "au_version au = Some (i, h)" using assms(4) by (cases "au_version au") (auto simp: version_held_def)
    then have "open_regular_at d (au_parent au) (au_base au) = Inr (Some i)" using assms(3) by (simp add: unchanged_def)
    then have "file_at d i \<noteq> None" by (rule open_regular_Some [THEN conjunct2])
    then have "i \<noteq> t" using w by (auto simp: with_temp_def)
    then have "mode_at w i = mode_at d i" using w by (simp add: mode_at_def with_temp_def)
    then show ?thesis using Some f by (simp add: mode_at_def x_def m_def)
  qed
  have swapped: "replaced au bytes t d y \<and> au_base au \<noteq> temp" if "validate_current digest fl au x = Inr ()" "rename_at fl (au_parent au) temp (au_base au) x = Inr y" for y
    using base_not_temp [OF assms(3) ready validate_unchanged [OF that(1)]] rename_replaces [OF ready _ that(2) bytes mode] by blast
  have "fill_temp digest fl (\<lambda>d. d) (\<lambda>d. d) au temp bytes t w =
      (if au_original au \<noteq> None \<and> fl_chmod fl then (Some ModeFailed, w)
       else case fl_cut fl of
         Some k \<Rightarrow> (Some WriteFailed, update_file t (\<lambda>f. f\<lparr>pl_bytes := take k bytes\<rparr>) m)
       | None \<Rightarrow>
           if fl_sync fl then (Some SyncFailed, x)
           else case validate_current digest fl au x of
             Inl e \<Rightarrow> (Some e, x)
           | Inr _ \<Rightarrow> (case rename_at fl (au_parent au) temp (au_base au) x of
               Inl e \<Rightarrow> (Some e, x) | Inr y \<Rightarrow> (if fl_dirsync fl then Some DirSyncFailed else None, y)))"
    unfolding fill_temp_def Let_def x_def m_def by (rule refl)
  note run = this [unfolded assms(5)]
  consider (mode) "au_original au \<noteq> None \<and> fl_chmod fl"
    | (cut) k where "\<not> (au_original au \<noteq> None \<and> fl_chmod fl)" "fl_cut fl = Some k"
    | (rest) "\<not> (au_original au \<noteq> None \<and> fl_chmod fl)" "fl_cut fl = None" by (cases "fl_cut fl") blast+
  then show ?thesis
  proof cases
    case mode
    then show ?thesis using run w by simp
  next
    case (cut k)
    then have "(r, w') = (Some WriteFailed, update_file t (\<lambda>f. f\<lparr>pl_bytes := take k bytes\<rparr>) m)"
      using run by (simp only: if_False option.case)
    then show ?thesis using with_temp_update [OF m] by simp
  next
    case rest
    then have run: "(r, w') = (if fl_sync fl then (Some SyncFailed, x)
           else case validate_current digest fl au x of
             Inl e \<Rightarrow> (Some e, x)
           | Inr _ \<Rightarrow> (case rename_at fl (au_parent au) temp (au_base au) x of
               Inl e \<Rightarrow> (Some e, x) | Inr y \<Rightarrow> (if fl_dirsync fl then Some DirSyncFailed else None, y)))"
      using run by (simp only: if_False option.case)
    show ?thesis
    proof (cases "fl_sync fl \<or> validate_current digest fl au x \<noteq> Inr () \<or> (\<exists>e. rename_at fl (au_parent au) temp (au_base au) x = Inl e)")
      case True
      then show ?thesis using run ready
        by (cases "fl_sync fl"; cases "validate_current digest fl au x"; cases "rename_at fl (au_parent au) temp (au_base au) x")
          simp_all
    next
      case False
      then obtain y where "rename_at fl (au_parent au) temp (au_base au) x = Inr y" "validate_current digest fl au x = Inr ()" "\<not> fl_sync fl"
        by (cases "rename_at fl (au_parent au) temp (au_base au) x") auto
      then show ?thesis using run swapped by simp
    qed
  qed
qed

text \<open>
  A write is carried out as a whole or not at all. Whatever system call fails, either every name
  of every directory stands for the file it stood for, with the bytes, the mode and the links it
  had, or the target alone is replaced by a new file with exactly the given bytes and the
  permissions of the old one; the only failure that may follow a replacement is that of the
  last synchronisation.
\<close>

lemma write_all_or_nothing:
  assumes "version_held au" "dk_nodes d (dk_next d) = None"
    and "atomic_write digest fl tid (\<lambda>d. d) (\<lambda>d. d) au bytes d = (res, d')"
  shows "case res of
      Inr _ \<Rightarrow> replaced au bytes (dk_next d) d d'
    | Inl e \<Rightarrow> same_files (dk_next d) d d' \<or> e = DirSyncFailed \<and> replaced au bytes (dk_next d) d d'"
proof -
  let ?temp = "temp_file (fst tid) (snd tid)"
  have same: "same_files t d d" for t by (simp add: same_files_def)
  have unlinked: "replaced au bytes t d (unlink_at (au_parent au) ?temp w)"
    if "replaced au bytes t d w" "au_base au \<noteq> ?temp" "listing d (au_parent au) ?temp = None" for t w
    using that by (simp add: unlink_at_def replaced_def)
  show ?thesis
  proof (cases "au_intent au = Read \<or> validate_current digest fl au d \<noteq> Inr () \<or> (\<exists>e. create_temp fl (au_parent au) ?temp d = Inl e)")
    case True
    then show ?thesis using assms(3) same by (auto simp: atomic_write_def split: if_splits sum.splits)
  next
    case False
    then obtain t w where c: "create_temp fl (au_parent au) ?temp d = Inr (t, w)" and v: "validate_current digest fl au d = Inr ()"
      by (cases "create_temp fl (au_parent au) ?temp d") auto
    note w = with_temp_create [OF c assms(2)]
    obtain r x where f: "fill_temp digest fl (\<lambda>d. d) (\<lambda>d. d) au ?temp bytes t w = (r, x)" by fastforce
    note out = fill_temp_outcome [OF w(2,3) validate_unchanged [OF v] assms(1) f]
    have d': "(res, d') = (case r of Some e \<Rightarrow> (Inl e, unlink_at (au_parent au) ?temp x) | None \<Rightarrow> (Inr (), x))"
      using assms(3) False v c f by (auto simp: atomic_write_def split: option.splits)
    show ?thesis
    proof (cases r)
      case None
      then show ?thesis using d' out w(1) by simp
    next
      case (Some e)
      then have "with_temp (au_parent au) ?temp t d x \<or> e = DirSyncFailed \<and> replaced au bytes t d x \<and> au_base au \<noteq> ?temp" using out by simp
      then show ?thesis
      proof
        assume "with_temp (au_parent au) ?temp t d x"
        then show ?thesis using d' Some w(1) with_temp_unlink by simp
      next
        assume "e = DirSyncFailed \<and> replaced au bytes t d x \<and> au_base au \<noteq> ?temp"
        moreover have "listing d (au_parent au) ?temp = None" using w(2) by (simp add: with_temp_def)
        ultimately show ?thesis using d' Some w(1) unlinked by simp
      qed
    qed
  qed
qed


section \<open>A concrete disk\<close>

definition sample_disk :: disk where
  "sample_disk = \<lparr>dk_nodes = [0 \<mapsto> Directory [''w'' \<mapsto> 1], 1 \<mapsto> Directory [''a'' \<mapsto> 2],
     2 \<mapsto> Regular \<lparr>pl_bytes = ''xyx'', pl_mode = 493, pl_links = 1\<rparr>], dk_denied = (\<lambda>_. False), dk_next = 3\<rparr>"

definition no_faults :: faults where
  "no_faults = \<lparr>fl_mkdir = False, fl_create = False, fl_chmod = False, fl_cut = None, fl_sync = False, fl_rename = False,
     fl_dirsync = False\<rparr>"

definition sample_authorized :: authorized where
  "sample_authorized = \<lparr>au_path = [Root, Normal ''w'', Normal ''a''], au_parent = 1, au_base = ''a'', au_intent = Edit,
     au_original = Some 2, au_version = Some (2, ''xyx'')\<rparr>"

lemma sample_open:
  "open_authorized (\<lambda>b. b) no_faults [Root, Normal ''w'', Normal ''a''] Edit sample_disk = (Inr sample_authorized, sample_disk)"
proof -
  obtain r d where o: "open_authorized (\<lambda>b. b) no_faults [Root, Normal ''w'', Normal ''a''] Edit sample_disk = (r, d)" by fastforce
  have "fst (open_authorized (\<lambda>b. b) no_faults [Root, Normal ''w'', Normal ''a''] Edit sample_disk) = Inr sample_authorized"
    by code_simp
  then show ?thesis using o open_keeps [OF o] by simp
qed

lemma sample_write:
  "atomic_write (\<lambda>b. b) no_faults (7, 0) (\<lambda>d. d) (\<lambda>d. d) sample_authorized ''new'' sample_disk =
     (Inr (), snd (atomic_write (\<lambda>b. b) no_faults (7, 0) (\<lambda>d. d) (\<lambda>d. d) sample_authorized ''new'' sample_disk))"
proof -
  have "fst (atomic_write (\<lambda>b. b) no_faults (7, 0) (\<lambda>d. d) (\<lambda>d. d) sample_authorized ''new'' sample_disk) = Inr ()"
    by code_simp
  then show ?thesis by (simp add: prod_eq_iff)
qed

lemma sample_next: "dk_nodes sample_disk (dk_next sample_disk) = None"
  by (simp add: sample_disk_def)

lemma sample_fields:
  "au_parent sample_authorized = 1" "au_base sample_authorized = ''a''" "au_path sample_authorized = [Root, Normal ''w'', Normal ''a'']"
  "au_original sample_authorized = Some 2" "dk_next sample_disk = 3"
  by (simp_all add: sample_authorized_def sample_disk_def)


end
