(* ===== verification/File_Tools.thy ===== *)
theory File_Tools
  imports File_Access Anthropic Tools Session
begin

text \<open>
  The built-in tools: \<open>edit_file\<close>, \<open>write_file\<close> and \<open>read_file\<close> (\<open>src/tools/edit.rs\<close>, \<open>write.rs\<close>,
  \<open>read.rs\<close>) over the safety policy and the file access, and \<open>exec\<close> with its sandbox
  (\<open>src/tools/exec.rs\<close>, \<open>sandbox.rs\<close>). The PDF and base64 crates and the run of a child process
  are arguments. A tool gets the disk as it is after the approval.
\<close>

section \<open>Authorised files\<close>

datatype tool_failure =
    BadArguments
  | Refused safety_error
  | Access access_error
  | EmptyOldText
  | OldTextMissing
  | OldTextRepeated nat
  | MediaTooLarge nat path
  | PdfUnreadable path
  | PdfTooLong nat path

definition authorize_file ::
  "policy \<Rightarrow> approver \<Rightarrow> (string \<Rightarrow> string) \<Rightarrow> faults \<Rightarrow> string \<Rightarrow> path_intent \<Rightarrow> disk \<Rightarrow> (tool_failure + authorized) \<times> disk" where
  "authorize_file pol ask digest fl requested intent d =
     (case authorize_path pol ask requested intent of
        Inl e \<Rightarrow> (Inl (Refused e), d)
      | Inr p \<Rightarrow> map_prod (map_sum Access (\<lambda>au. au)) (\<lambda>d. d) (open_authorized digest fl p intent d))"

definition arg_str :: "string \<Rightarrow> json \<Rightarrow> string option" where
  "arg_str k v = (case json_get k v of Some (JStr s) \<Rightarrow> Some s | _ \<Rightarrow> None)"

section \<open>Editing\<close>

record edit_args =
  ea_path :: string
  ea_old :: string
  ea_new :: string
  ea_all :: bool

text \<open>A structure is read from an object or, field by field, from an array.\<close>

definition read_edit_args :: "json \<Rightarrow> edit_args option" where
  "read_edit_args v =
     (case v of
        JArr [JStr p, JStr a, JStr b] \<Rightarrow> Some \<lparr>ea_path = p, ea_old = a, ea_new = b, ea_all = False\<rparr>
      | JArr [JStr p, JStr a, JStr b, JBool c] \<Rightarrow> Some \<lparr>ea_path = p, ea_old = a, ea_new = b, ea_all = c\<rparr>
      | _ \<Rightarrow>
          (case (arg_str ''path'' v, arg_str ''old_text'' v, arg_str ''new_text'' v,
              case json_get ''replace_all'' v of None \<Rightarrow> Some False | Some (JBool c) \<Rightarrow> Some c | _ \<Rightarrow> None) of
             (Some p, Some a, Some b, Some c) \<Rightarrow> Some \<lparr>ea_path = p, ea_old = a, ea_new = b, ea_all = c\<rparr>
           | _ \<Rightarrow> None))"

lemma split_once_Some: "split_once pat s = Some (a, b) \<Longrightarrow> s = a @ pat @ b"
  by (induction pat s arbitrary: a rule: split_once.induct) (auto simp: prefix_def split: if_splits)

text \<open>The pieces between the matches of a pattern that is not empty: leftmost, none overlapping.\<close>

function pieces :: "string \<Rightarrow> string \<Rightarrow> string list" where
  "pieces pat s =
     (case split_once pat s of
        None \<Rightarrow> [s]
      | Some (a, b) \<Rightarrow> if pat = [] then [s] else a # pieces pat b)"
  by pat_completeness auto
termination
  by (relation "measure (\<lambda>(pat, s). length s)") (auto dest!: split_once_Some)

declare pieces.simps [simp del]

text \<open>\<open>matches().count()\<close>, \<open>replace\<close> and \<open>replacen(.., 1)\<close>\<close>

definition match_count :: "string \<Rightarrow> string \<Rightarrow> nat" where
  "match_count pat s = length (pieces pat s) - 1"

definition replace_all :: "string \<Rightarrow> string \<Rightarrow> string \<Rightarrow> string" where
  "replace_all pat by s = join by (pieces pat s)"

definition replace_once :: "string \<Rightarrow> string \<Rightarrow> string \<Rightarrow> string" where
  "replace_once pat by s = (case split_once pat s of None \<Rightarrow> s | Some (a, b) \<Rightarrow> a @ by @ b)"

definition msg_edited :: "path \<Rightarrow> nat \<Rightarrow> string" where
  "msg_edited p n = utf8 [24050, 32534, 36753, 32] @ path_str p @ utf8 [65292, 26367, 25442, 32] @ dec n @ utf8 [32, 22788]"

text \<open>The name of the temporary file is \<open>tid\<close>'s; other processes act as \<open>env\<close> and \<open>late\<close> say.\<close>

definition edit_content :: "edit_args \<Rightarrow> string \<Rightarrow> tool_failure + string" where
  "edit_content a content =
     (let n = match_count (ea_old a) content in
      if n = 0 then Inl OldTextMissing
      else if n > 1 \<and> \<not> ea_all a then Inl (OldTextRepeated n)
      else Inr (if ea_all a then replace_all (ea_old a) (ea_new a) content else replace_once (ea_old a) (ea_new a) content))"

definition edit_file ::
  "policy \<Rightarrow> approver \<Rightarrow> (string \<Rightarrow> string) \<Rightarrow> faults \<Rightarrow> nat \<times> nat \<Rightarrow> (disk \<Rightarrow> disk) \<Rightarrow> (disk \<Rightarrow> disk) \<Rightarrow> json \<Rightarrow> disk \<Rightarrow>
   (tool_failure + string) \<times> disk" where
  "edit_file pol ask digest fl tid env late v d =
     (case read_edit_args v of
        None \<Rightarrow> (Inl BadArguments, d)
      | Some a \<Rightarrow>
          if ea_old a = [] then (Inl EmptyOldText, d)
          else case authorize_file pol ask digest fl (ea_path a) Edit d of
            (Inl e, d) \<Rightarrow> (Inl e, d)
          | (Inr au, d) \<Rightarrow>
              (case read_to_string d au of
                 Inl e \<Rightarrow> (Inl (Access e), d)
               | Inr content \<Rightarrow>
                   (case edit_content a content of
                      Inl e \<Rightarrow> (Inl e, d)
                    | Inr updated \<Rightarrow>
                        (case atomic_write digest fl tid env late au updated d of
                           (Inl e, d) \<Rightarrow> (Inl (Access e), d)
                         | (Inr _, d) \<Rightarrow> (Inr (msg_edited (au_path au) (match_count (ea_old a) content)), d)))))"

section \<open>Writing\<close>

record write_args =
  wa_path :: string
  wa_content :: string

definition read_write_args :: "json \<Rightarrow> write_args option" where
  "read_write_args v =
     (case v of
        JArr [JStr p, JStr c] \<Rightarrow> Some \<lparr>wa_path = p, wa_content = c\<rparr>
      | _ \<Rightarrow> (case (arg_str ''path'' v, arg_str ''content'' v) of
             (Some p, Some c) \<Rightarrow> Some \<lparr>wa_path = p, wa_content = c\<rparr> | _ \<Rightarrow> None))"

definition msg_written :: "path \<Rightarrow> string" where
  "msg_written p = utf8 [24050, 20889, 20837, 32] @ path_str p"

definition write_file ::
  "policy \<Rightarrow> approver \<Rightarrow> (string \<Rightarrow> string) \<Rightarrow> faults \<Rightarrow> nat \<times> nat \<Rightarrow> (disk \<Rightarrow> disk) \<Rightarrow> (disk \<Rightarrow> disk) \<Rightarrow> json \<Rightarrow> disk \<Rightarrow>
   (tool_failure + string) \<times> disk" where
  "write_file pol ask digest fl tid env late v d =
     (case read_write_args v of
        None \<Rightarrow> (Inl BadArguments, d)
      | Some a \<Rightarrow>
          (case authorize_file pol ask digest fl (wa_path a) Write d of
             (Inl e, d) \<Rightarrow> (Inl e, d)
           | (Inr au, d) \<Rightarrow>
               (case atomic_write digest fl tid env late au (wa_content a) d of
                  (Inl e, d) \<Rightarrow> (Inl (Access e), d)
                | (Inr _, d) \<Rightarrow> (Inr (msg_written (au_path au)), d))))"

section \<open>Reading\<close>

datatype file_kind = TextFile | ImageFile string | PdfFile | UnsupportedFile

definition kind_of_file :: "path \<Rightarrow> file_kind" where
  "kind_of_file p =
     (let ext = to_ascii_lowercase (case file_name p of None \<Rightarrow> [] | Some n \<Rightarrow>
        (case snd (split_extension n) of None \<Rightarrow> [] | Some e \<Rightarrow> e))
      in if ext = ''png'' then ImageFile ''image/png''
         else if ext = ''jpg'' \<or> ext = ''jpeg'' then ImageFile ''image/jpeg''
         else if ext = ''webp'' then ImageFile ''image/webp''
         else if ext = ''pdf'' then PdfFile
         else if ext \<in> {''gif'', ''bmp'', ''tiff'', ''svg''} then UnsupportedFile
         else TextFile)"

definition max_media :: nat where
  "max_media = 16 * 1024 * 1024"

definition max_pdf_pages :: nat where
  "max_pdf_pages = 50"

definition max_pdf_chars :: nat where
  "max_pdf_chars = 512 * 1024"

definition ensure_size :: "disk \<Rightarrow> authorized \<Rightarrow> tool_failure + unit" where
  "ensure_size d au =
     (case file_size d au of
        Inl e \<Rightarrow> Inl (Access e)
      | Inr n \<Rightarrow> if n > max_media then Inl (MediaTooLarge n (au_path au)) else Inr ())"

definition msg_pdf_cut :: string where
  "msg_pdf_cut = nl # utf8 [8230, 91, 80, 68, 70, 32, 25991, 26412, 24050, 25130, 26029, 93]"

definition truncate_pdf :: "nat \<Rightarrow> string \<Rightarrow> string" where
  "truncate_pdf n t = take_chars n t @ (if length (chars t) > n then msg_pdf_cut else [])"

text \<open>\<open>pdf\<close>: the number of pages and the text, as far as the crate can read them.\<close>

definition read_pdf :: "(string \<Rightarrow> (nat \<times> string option) option) \<Rightarrow> disk \<Rightarrow> authorized \<Rightarrow> tool_failure + string" where
  "read_pdf pdf d au =
     bindE (ensure_size d au) (\<lambda>_.
     bindE (map_sum Access (\<lambda>b. b) (read_bytes d au)) (\<lambda>bytes.
     bindE (ok_or (PdfUnreadable (au_path au)) (pdf bytes)) (\<lambda>(pages, text).
       if pages > max_pdf_pages then Inl (PdfTooLong pages (au_path au))
       else bindE (ok_or (PdfUnreadable (au_path au)) text) (\<lambda>t. Inr (truncate_pdf max_pdf_chars t)))))"

definition msg_image_read :: "path \<Rightarrow> string" where
  "msg_image_read p = utf8 [24050, 35835, 21462, 22270, 29255, 32] @ path_str p @
     utf8 [65292, 22270, 20687, 20869, 23481, 24050, 20316, 20026, 19979, 19968, 27425, 27169, 22411, 35831, 27714, 30340,
       20020, 26102, 29992, 25143, 20869, 23481, 22359, 25552, 20379, 12290]"

definition msg_image_shown :: "path \<Rightarrow> string" where
  "msg_image_shown p = ''read_file'' @ utf8 [32, 25552, 20379, 30340, 26412, 22320, 22270, 29255, 65306] @ path_str p @
     utf8 [12290, 35831, 32467, 21512, 24403, 21069, 20219, 21153, 20998, 26512, 22270, 29255, 20869, 23481, 12290]"

definition read_image :: "(string \<Rightarrow> string) \<Rightarrow> disk \<Rightarrow> authorized \<Rightarrow> string \<Rightarrow> tool_failure + tool_output" where
  "read_image enc64 d au mime =
     bindE (ensure_size d au) (\<lambda>_.
     bindE (map_sum Access (\<lambda>b. b) (read_bytes d au)) (\<lambda>bytes.
       Inr \<lparr>to_content = msg_image_read (au_path au),
         to_transient = [user_with_images (msg_image_shown (au_path au)) [''data:'' @ mime @ '';base64,'' @ enc64 bytes]]\<rparr>))"

definition msg_no_images :: "path \<Rightarrow> string" where
  "msg_no_images p =
     utf8 [24403, 21069, 27169, 22411, 26410, 21551, 29992, 22810, 27169, 24577, 22270, 29255, 36755, 20837, 65292, 26080,
       27861, 35299, 26512, 22270, 29255, 65306] @ path_str p @ utf8 [12290, 35831, 35774, 32622, 32] @
     ''MULTIMODAL_ENABLED=true'' @ utf8 [32, 25110, 20351, 29992, 21517, 31216, 21547, 32] @ ''vision'' @
     utf8 [32, 30340, 32] @ ''MODEL_NAME'' @ utf8 [12290]"

definition msg_unsupported :: "path \<Rightarrow> string" where
  "msg_unsupported p =
     utf8 [24403, 21069, 29256, 26412, 19981, 35299, 26512, 22270, 29255, 25991, 20214, 65306] @ path_str p @
     utf8 [12290, 25903, 25345, 30340, 22270, 29255, 26684, 24335, 20026, 32] @ ''PNG/JPG/JPEG/WebP'' @ utf8 [65292] @ ''PDF'' @
     utf8 [32, 20250, 22312, 26412, 22320, 25277, 21462, 25991, 23383, 12290]"

definition read_file ::
  "policy \<Rightarrow> approver \<Rightarrow> (string \<Rightarrow> string) \<Rightarrow> faults \<Rightarrow> (string \<Rightarrow> string) \<Rightarrow> (string \<Rightarrow> (nat \<times> string option) option) \<Rightarrow>
   bool \<Rightarrow> json \<Rightarrow> disk \<Rightarrow> tool_failure + tool_output" where
  "read_file pol ask digest fl enc64 pdf multimodal v d =
     bindE (ok_or BadArguments (case v of JArr [JStr p] \<Rightarrow> Some p | _ \<Rightarrow> arg_str ''path'' v)) (\<lambda>requested.
     bindE (map_sum Refused (\<lambda>p. p) (authorize_path pol ask requested Read)) (\<lambda>p.
       let open = fst (authorize_file pol ask digest fl (path_str p) Read d) in
       case kind_of_file p of
         ImageFile mime \<Rightarrow>
           if multimodal then bindE open (\<lambda>au. read_image enc64 d au mime) else Inr (output_text (msg_no_images p))
       | PdfFile \<Rightarrow> bindE open (\<lambda>au. map_sum (\<lambda>e. e) output_text (read_pdf pdf d au))
       | UnsupportedFile \<Rightarrow> Inr (output_text (msg_unsupported p))
       | TextFile \<Rightarrow> bindE open (\<lambda>au. map_sum Access output_text (read_to_string d au))))"

section \<open>Running a command\<close>

datatype backend = Native | Docker

record exec_request =
  rq_command :: string
  rq_cwd :: path
  rq_timeout :: nat
  rq_backend :: backend

record exec_result =
  xr_code :: int
  xr_stdout :: string
  xr_stderr :: string
  xr_requested :: backend
  xr_effective :: backend

text \<open>The processes that run, by number; numbers are taken from a counter that wraps.\<close>

record resources =
  rm_next :: "64 word"
  rm_processes :: "(64 word \<times> nat) list"

definition register_process :: "nat \<Rightarrow> resources \<Rightarrow> 64 word \<times> resources" where
  "register_process pid rm =
     (rm_next rm + 1, rm\<lparr>rm_next := rm_next rm + 1, rm_processes := AList.update (rm_next rm + 1) pid (rm_processes rm)\<rparr>)"

definition unregister :: "64 word \<Rightarrow> resources \<Rightarrow> resources" where
  "unregister i rm = rm\<lparr>rm_processes := AList.delete i (rm_processes rm)\<rparr>"

text \<open>The process groups that are killed.\<close>

definition stop_resource :: "64 word \<Rightarrow> resources \<Rightarrow> nat list" where
  "stop_resource i rm = (case map_of (rm_processes rm) i of None \<Rightarrow> [] | Some pid \<Rightarrow> [pid])"

definition stop_all :: "resources \<Rightarrow> nat list" where
  "stop_all rm = map snd (rm_processes rm)"

definition max_output :: nat where
  "max_output = 64 * 1024"

definition msg_output_cut :: "nat \<Rightarrow> string" where
  "msg_output_cut n = nl # ''...['' @ utf8 [36755, 20986, 24050, 25130, 26029, 65292, 21407, 22987, 22823, 23567, 32] @
     dec n @ utf8 [32, 23383, 33410, 93]"

text \<open>The chunks a pipe gives until its end; \<open>None\<close> is a read that fails.\<close>

fun capture_chunks :: "string \<Rightarrow> nat \<Rightarrow> string option list \<Rightarrow> (string \<times> nat) option" where
  "capture_chunks kept n [] = Some (kept, n)"
| "capture_chunks kept n (None # cs) = None"
| "capture_chunks kept n (Some c # cs) =
     (if c = [] then Some (kept, n)
      else capture_chunks (kept @ take (max_output - length kept) c) (n + length c) cs)"

definition capture_bounded :: "(string \<Rightarrow> string) \<Rightarrow> string option list \<Rightarrow> string option" where
  "capture_bounded lossy cs =
     map_option (\<lambda>(kept, n). lossy kept @ (if n > max_output then msg_output_cut n else []))
       (capture_chunks [] 0 cs)"

text \<open>A child process: its number, whether its pipes are there, how the wait ends and what it puts out.\<close>

datatype wait_end = Exited "int option" | WaitFailed | Cancelled | TimedOut

record child_process =
  cp_pid :: "nat option"
  cp_pipes :: bool
  cp_end :: wait_end
  cp_stdout :: "string option list"
  cp_stderr :: "string option list"

datatype exec_error =
    ExecArguments
  | ExecRefused safety_error
  | ExecCancelled
  | NoDocker
  | SpawnFailed
  | PipeMissing
  | WaitBroken
  | ExecTimeout nat
  | OutputBroken

definition native_execute ::
  "(string \<Rightarrow> string) \<Rightarrow> bool \<Rightarrow> child_process option \<Rightarrow> exec_request \<Rightarrow> resources \<Rightarrow>
   (exec_error + exec_result) \<times> nat list \<times> resources" where
  "native_execute lossy cancelled child rq rm =
     (if rq_backend rq \<noteq> Native then (Inl NoDocker, [], rm)
      else if cancelled then (Inl ExecCancelled, [], rm)
      else case child of
        None \<Rightarrow> (Inl SpawnFailed, [], rm)
      | Some p \<Rightarrow>
          let (group, rm) = (case cp_pid p of
                None \<Rightarrow> ([], rm)
              | Some pid \<Rightarrow> let (i, rm) = register_process pid rm in ([pid], unregister i rm))
          in if \<not> cp_pipes p then (Inl PipeMissing, group, rm)
             else case cp_end p of
               WaitFailed \<Rightarrow> (Inl WaitBroken, group, rm)
             | Cancelled \<Rightarrow> (Inl ExecCancelled, group, rm)
             | TimedOut \<Rightarrow> (Inl (ExecTimeout (rq_timeout rq)), group, rm)
             | Exited code \<Rightarrow>
                 ((case (capture_bounded lossy (cp_stdout p), capture_bounded lossy (cp_stderr p)) of
                     (Some out, Some err) \<Rightarrow> Inr \<lparr>xr_code = (case code of None \<Rightarrow> - 1 | Some c \<Rightarrow> c), xr_stdout = out, xr_stderr = err,
                       xr_requested = rq_backend rq, xr_effective = Native\<rparr>
                   | _ \<Rightarrow> Inl OutputBroken), [], rm))"

definition default_timeout :: nat where
  "default_timeout = 300"

definition execution_timeout :: "string option \<Rightarrow> nat" where
  "execution_timeout env =
     (case env of None \<Rightarrow> default_timeout
      | Some v \<Rightarrow> (case parse_u64 v of None \<Rightarrow> default_timeout | Some n \<Rightarrow> if n > 0 then n else default_timeout))"

definition backend_named :: "string \<Rightarrow> backend option option" where
  "backend_named s = (if s = ''native'' then Some (Some Native) else if s = ''docker'' then Some (Some Docker) else None)"

definition read_backend :: "json option \<Rightarrow> backend option option" where
  "read_backend v =
     (case v of
        None \<Rightarrow> Some None
      | Some JNull \<Rightarrow> Some None
      | Some (JStr s) \<Rightarrow> backend_named s
      | Some (JObj [(s, JNull)]) \<Rightarrow> backend_named s
      | _ \<Rightarrow> None)"

definition read_exec_args :: "json \<Rightarrow> (string \<times> backend option) option" where
  "read_exec_args v =
     (case (case v of JArr [JStr c, b] \<Rightarrow> (Some c, read_backend (Some b))
         | _ \<Rightarrow> (arg_str ''command'' v, read_backend (json_get ''sandbox'' v))) of
        (Some c, Some b) \<Rightarrow> Some (c, b)
      | _ \<Rightarrow> None)"

definition show_backend :: "backend \<Rightarrow> string" where
  "show_backend b = (case b of Native \<Rightarrow> ''Native'' | Docker \<Rightarrow> ''Docker'')"

definition exec_command ::
  "(string \<Rightarrow> string) \<Rightarrow> policy \<Rightarrow> approver \<Rightarrow> string option \<Rightarrow> bool \<times> bool \<Rightarrow> (string \<Rightarrow> child_process option) \<Rightarrow> json \<Rightarrow>
   resources \<Rightarrow> (exec_error + string) \<times> nat list \<times> resources" where
  "exec_command lossy pol ask timeout cancelled spawn v rm =
     (case read_exec_args v of
        Some (c, b) \<Rightarrow>
          (case authorize_command pol ask c of
             Inl e \<Rightarrow> (Inl (ExecRefused e), [], rm)
           | Inr _ \<Rightarrow>
               if fst cancelled then (Inl ExecCancelled, [], rm)
               else
                 (case native_execute lossy (snd cancelled) (spawn c) \<lparr>rq_command = c, rq_cwd = pol_workspace pol,
                     rq_timeout = execution_timeout timeout, rq_backend = (case b of None \<Rightarrow> Native | Some b \<Rightarrow> b)\<rparr> rm of
                    (Inl e, x) \<Rightarrow> (Inl e, x)
                  | (Inr r, x) \<Rightarrow>
                      (Inr (''exit_code: '' @ dec_int (xr_code r) @ nl # ''sandbox_requested: '' @ show_backend (xr_requested r) @
                         nl # ''sandbox_effective: '' @ show_backend (xr_effective r) @ nl # ''stdout:'' @ nl # xr_stdout r @
                         nl # ''stderr:'' @ nl # xr_stderr r), x)))
      | None \<Rightarrow> (Inl ExecArguments, [], rm))"

section \<open>Matches\<close>

lemma pieces_ne [simp]: "pieces pat s \<noteq> []"
  by (subst pieces.simps) (simp split: option.splits)

lemma join_pieces: "join pat (pieces pat s) = s"
proof (induction pat s rule: pieces.induct)
  case (1 pat s)
  show ?case
  proof (cases "split_once pat s")
    case None
    then show ?thesis by (simp add: pieces.simps [of pat s])
  next
    case (Some v)
    obtain a b where v: "v = (a, b)" by fastforce
    then have s: "s = a @ pat @ b" using Some split_once_Some by blast
    show ?thesis
    proof (cases "pat = []")
      case True
      then show ?thesis using Some by (simp add: pieces.simps [of "[]" s])
    next
      case False
      then have "join pat (pieces pat b) = b" using 1 Some v by blast
      moreover have "pieces pat s = a # pieces pat b" using Some v False by (simp add: pieces.simps [of pat s])
      ultimately show ?thesis using s by (cases "pieces pat b") simp_all
    qed
  qed
qed

lemma split_once_None: "split_once pat s = None \<Longrightarrow> \<not> contains s pat"
  by (induction pat s rule: split_once.induct) (auto split: if_splits)

lemma split_once_first: "split_once pat s = Some (a, b) \<Longrightarrow> pat \<noteq> [] \<Longrightarrow> \<not> contains a pat"
proof (induction pat s arbitrary: a rule: split_once.induct)
  case (2 pat c s)
  show ?case
  proof (cases "prefix pat (c # s)")
    case True
    then show ?thesis using 2 by auto
  next
    case False
    then obtain a' where a: "a = c # a'" "split_once pat s = Some (a', b)" using 2(2) by auto
    have "s = a' @ pat @ b" using split_once_Some [OF a(2)] .
    then have "\<not> prefix pat (c # a')" using False by (metis append_Cons prefix_append)
    then show ?thesis using a 2(1) [OF False a(2) 2(3)] by simp
  qed
qed simp

lemma pieces_clean: "pat \<noteq> [] \<Longrightarrow> p \<in> set (pieces pat s) \<Longrightarrow> \<not> contains p pat"
proof (induction pat s rule: pieces.induct)
  case (1 pat s)
  show ?case
  proof (cases "split_once pat s")
    case None
    then show ?thesis using 1(3) split_once_None [OF None] by (simp add: pieces.simps [of pat s])
  next
    case (Some v)
    obtain a b where v: "v = (a, b)" by fastforce
    show ?thesis using 1 Some v split_once_first [of pat s a b] by (auto simp: pieces.simps [of pat s])
  qed
qed

lemma replace_once_pieces: "length (pieces pat s) = 2 \<Longrightarrow> pat \<noteq> [] \<Longrightarrow> replace_once pat by s = join by (pieces pat s)"
proof -
  assume l: "length (pieces pat s) = 2" "pat \<noteq> []"
  then obtain a b where s: "split_once pat s = Some (a, b)" by (cases "split_once pat s") (auto simp: pieces.simps [of pat s])
  then have "length (pieces pat b) = 1" using l by (simp add: pieces.simps [of pat s])
  then have "pieces pat b = [b]" by (cases "split_once pat b") (auto simp: pieces.simps [of pat b] split: prod.splits if_splits)
  with s l show ?thesis by (simp add: replace_once_def pieces.simps [of pat s])
qed

lemma edit_content_Inr:
  assumes "edit_content a content = Inr updated" "ea_old a \<noteq> []"
  shows "let ps = pieces (ea_old a) content in content = join (ea_old a) ps \<and> updated = join (ea_new a) ps \<and> 2 \<le> length ps \<and>
    (ea_all a \<or> length ps = 2) \<and> list_all (\<lambda>p. \<not> contains p (ea_old a)) ps"
proof -
  let ?ps = "pieces (ea_old a) content"
  have "0 < length ?ps" by simp
  then have n: "2 \<le> length ?ps" "ea_all a \<or> length ?ps = 2"
    using assms(1) by (auto simp: edit_content_def match_count_def Let_def split: if_splits)
  moreover have "updated = join (ea_new a) ?ps"
    using assms n(2) replace_once_pieces [of "ea_old a" content "ea_new a"]
    by (auto simp: edit_content_def replace_all_def Let_def split: if_splits)
  ultimately show ?thesis using pieces_clean [OF assms(2)] by (simp add: Let_def join_pieces list_all_iff)
qed

section \<open>Output\<close>

text \<open>What is kept of an output is its beginning, and the whole is counted.\<close>

lemma capture_prefix:
  "list_all (\<lambda>c. c \<noteq> None \<and> c \<noteq> Some []) cs \<Longrightarrow> length kept \<le> max_output \<Longrightarrow>
   capture_chunks kept n cs =
     Some (kept @ take (max_output - length kept) (concat (map the cs)), n + length (concat (map the cs)))"
proof (induction cs arbitrary: kept n)
  case (Cons c cs)
  then obtain x where c: "c = Some x" "x \<noteq> []" by auto
  have "length (kept @ take (max_output - length kept) x) \<le> max_output" using Cons.prems(2) by simp
  from Cons.IH [OF _ this] Cons.prems(1) c show ?case by (simp add: min_def)
qed simp

text \<open>A run leaves no process in the table, and kills the group unless the command came to its end.\<close>

lemma native_leaves_nothing:
  assumes "rm_next rm + 1 \<notin> fst ` set (rm_processes rm)" "native_execute lossy cancelled child rq rm = (res, killed, rm')"
  shows "rm_processes rm' = rm_processes rm"
    and "child = Some p \<Longrightarrow> cp_pid p = Some pid \<Longrightarrow> rq_backend rq = Native \<Longrightarrow> \<not> cancelled \<Longrightarrow>
      killed = (case cp_end p of Exited _ \<Rightarrow> if cp_pipes p then [] else [pid] | _ \<Rightarrow> [pid])"
proof -
  have "AList.delete k (AList.update k v xs) = xs" if "k \<notin> fst ` set xs" for k :: "64 word" and v :: nat and xs
    using that by (induction xs) (auto simp: AList.delete_eq)
  with assms show "rm_processes rm' = rm_processes rm"
    by (auto simp: native_execute_def register_process_def unregister_def Let_def split: if_splits option.splits wait_end.splits)
  show "child = Some p \<Longrightarrow> cp_pid p = Some pid \<Longrightarrow> rq_backend rq = Native \<Longrightarrow> \<not> cancelled \<Longrightarrow>
      killed = (case cp_end p of Exited _ \<Rightarrow> if cp_pipes p then [] else [pid] | _ \<Rightarrow> [pid])"
    using assms(2) by (auto simp: native_execute_def register_process_def Let_def split: if_splits wait_end.splits)
qed

section \<open>An edit changes what it says\<close>

lemma authorize_file_Inr:
  assumes "authorize_file pol ask digest fl requested intent d = (Inr au, d')"
  shows "authorize_path pol ask requested intent = Inr (au_path au)"
    and "open_authorized digest fl (au_path au) intent d = (Inr au, d')"
proof -
  obtain p where p: "authorize_path pol ask requested intent = Inr p"
    using assms by (cases "authorize_path pol ask requested intent") (simp_all add: authorize_file_def)
  obtain r x where o: "open_authorized digest fl p intent d = (r, x)" by fastforce
  have r: "r = Inr au" "x = d'" using assms by (cases r; simp add: authorize_file_def p o)+
  then have "au_path au = p" using o by (auto simp: open_authorized_def bindE_Inr_iff split: sum.splits prod.splits if_splits)
  with p o r show "authorize_path pol ask requested intent = Inr (au_path au)"
    "open_authorized digest fl (au_path au) intent d = (Inr au, d')" by simp_all
qed

lemma authorize_file_keeps: "authorize_file pol ask digest fl requested intent d = (r, d') \<Longrightarrow> intent \<noteq> Write \<Longrightarrow> d' = d"
  using open_keeps by (fastforce simp: authorize_file_def map_prod_def split: sum.splits prod.splits)

text \<open>The ways an edit ends.\<close>

lemma edit_file_cases:
  assumes "edit_file pol ask digest fl tid env late v d = (res, d')"
  obtains (early) e where "res = Inl e" "d' = d"
    | (wrote) a au content updated r where "read_edit_args v = Some a" "ea_old a \<noteq> []"
        "authorize_file pol ask digest fl (ea_path a) Edit d = (Inr au, d)" "read_to_string d au = Inr content"
        "edit_content a content = Inr updated" "atomic_write digest fl tid env late au updated d = (r, d')"
        "(\<exists>e. r = Inl e \<and> res = Inl (Access e)) \<or> r = Inr () \<and> (\<exists>m. res = Inr m)"
proof (cases "read_edit_args v")
  case None
  then show ?thesis using assms by (intro early [of BadArguments]) (simp_all add: edit_file_def)
next
  case (Some a)
  obtain r0 d0 where auth: "authorize_file pol ask digest fl (ea_path a) Edit d = (r0, d0)" by fastforce
  then have "d0 = d" using authorize_file_keeps by blast
  show ?thesis
  proof (cases "ea_old a = [] \<or> (\<exists>e. r0 = Inl e)")
    case True
    then show ?thesis using assms early Some auth \<open>d0 = d\<close> by (auto simp: edit_file_def split: if_splits)
  next
    case False
    then obtain au where au: "r0 = Inr au" by (cases r0) auto
    show ?thesis
    proof (cases "read_to_string d au")
      case (Inl e)
      then show ?thesis using assms Some auth \<open>d0 = d\<close> False au
        by (intro early [of "Access e"]) (simp_all add: edit_file_def)
    next
      case (Inr c)
      note run = assms Some auth \<open>d0 = d\<close> False au Inr
      show ?thesis
      proof (cases "edit_content a c")
        case (Inl e)
        then show ?thesis using run by (intro early [of e]) (simp_all add: edit_file_def)
      next
        case (Inr u)
        obtain r x where aw: "atomic_write digest fl tid env late au u d = (r, x)" by fastforce
        have "x = d'" "(\<exists>e. r = Inl e \<and> res = Inl (Access e)) \<or> r = Inr () \<and> (\<exists>m. res = Inr m)"
          using run Inr aw by (cases r; auto simp: edit_file_def)+
        then show ?thesis using wrote [OF Some _ _ run(7) Inr] False auth au aw \<open>d0 = d\<close> by blast
      qed
    qed
  qed
qed


definition sample_edit :: json where
  "sample_edit = JObj [(''path'', JStr ''a''), (''old_text'', JStr ''x''), (''new_text'', JStr ''zz''), (''replace_all'', JBool True)]"


end
