(* ===== verification/Input_Editor.thy ===== *)
theory Input_Editor
  imports Messages
begin

text \<open>
  The text field of the terminal interface (\<open>src/entry/tui/input_editor.rs\<close>): a buffer and a
  cursor that is a byte offset and moves by graphemes. Splitting a text into graphemes and the
  width of one are the crates' (\<open>unicode_segmentation\<close>, \<open>unicode_width\<close>) and arguments; a
  character is given by its bytes.
\<close>

section \<open>The editor\<close>

record editor =
  ed_buffer :: string
  ed_cursor :: nat

definition empty_editor :: editor where
  "empty_editor = \<lparr>ed_buffer = [], ed_cursor = 0\<rparr>"

text \<open>\<open>buffer[..cursor]\<close> and \<open>buffer[cursor..]\<close>; both panic inside a character.\<close>

definition before :: "editor \<Rightarrow> string" where
  "before e = take (ed_cursor e) (ed_buffer e)"

definition behind :: "editor \<Rightarrow> string" where
  "behind e = drop (ed_cursor e) (ed_buffer e)"

definition all_space :: "string \<Rightarrow> bool" where
  "all_space t \<longleftrightarrow> list_all (\<lambda>k. 0 < ws_len k) (chars t)"

definition editor_blank :: "editor \<Rightarrow> bool" where
  "editor_blank e \<longleftrightarrow> all_space (ed_buffer e)"

definition single_line :: "editor \<Rightarrow> bool" where
  "single_line e \<longleftrightarrow> CHR 0x0A \<notin> set (ed_buffer e)"

definition replace_text :: "string \<Rightarrow> editor \<Rightarrow> editor" where
  "replace_text t e = \<lparr>ed_buffer = t, ed_cursor = length t\<rparr>"

definition take_text :: "editor \<Rightarrow> string \<times> editor" where
  "take_text e = (ed_buffer e, empty_editor)"

type_synonym segmentation = "string \<Rightarrow> string list"

definition previous_start :: "segmentation \<Rightarrow> editor \<Rightarrow> nat option" where
  "previous_start seg e =
     (if seg (before e) = [] then None else Some (length (concat (butlast (seg (before e))))))"

definition next_end :: "segmentation \<Rightarrow> editor \<Rightarrow> nat option" where
  "next_end seg e = (case seg (behind e) of [] \<Rightarrow> None | g # gs \<Rightarrow> Some (ed_cursor e + length g))"

definition previous_space :: "segmentation \<Rightarrow> editor \<Rightarrow> bool" where
  "previous_space seg e \<longleftrightarrow> seg (before e) \<noteq> [] \<and> all_space (last (seg (before e)))"

definition next_space :: "segmentation \<Rightarrow> editor \<Rightarrow> bool" where
  "next_space seg e \<longleftrightarrow> (case seg (behind e) of [] \<Rightarrow> False | g # gs \<Rightarrow> all_space g)"

text \<open>The starts of the graphemes.\<close>

fun starts_from :: "nat \<Rightarrow> string list \<Rightarrow> nat list" where
  "starts_from i [] = []"
| "starts_from i (g # gs) = i # starts_from (i + length g) gs"

definition snap_forward :: "segmentation \<Rightarrow> editor \<Rightarrow> editor" where
  "snap_forward seg e =
     (if ed_cursor e = length (ed_buffer e) then e
      else e\<lparr>ed_cursor := (case find (\<lambda>i. ed_cursor e \<le> i) (starts_from 0 (seg (ed_buffer e)) @ [length (ed_buffer e)]) of
                            None \<Rightarrow> length (ed_buffer e) | Some i \<Rightarrow> i)\<rparr>)"

definition insert_at :: "segmentation \<Rightarrow> string \<Rightarrow> editor \<Rightarrow> editor" where
  "insert_at seg t e = snap_forward seg
     \<lparr>ed_buffer = before e @ t @ behind e, ed_cursor = ed_cursor e + length t\<rparr>"

definition insert_char :: "segmentation \<Rightarrow> string \<Rightarrow> editor \<Rightarrow> editor" where
  "insert_char seg k e = insert_at seg k e"

definition insert_text :: "segmentation \<Rightarrow> string \<Rightarrow> editor \<Rightarrow> editor" where
  "insert_text seg t e = insert_at seg (filter (\<lambda>c. c \<noteq> CHR 0x0D) t) e"

definition backspace :: "segmentation \<Rightarrow> editor \<Rightarrow> editor" where
  "backspace seg e =
     (case previous_start seg e of
        None \<Rightarrow> e
      | Some i \<Rightarrow> \<lparr>ed_buffer = take i (ed_buffer e) @ behind e, ed_cursor = i\<rparr>)"

definition delete_next :: "segmentation \<Rightarrow> editor \<Rightarrow> editor" where
  "delete_next seg e =
     (case next_end seg e of None \<Rightarrow> e | Some i \<Rightarrow> e\<lparr>ed_buffer := before e @ drop i (ed_buffer e)\<rparr>)"

definition move_left :: "segmentation \<Rightarrow> editor \<Rightarrow> editor" where
  "move_left seg e = (case previous_start seg e of None \<Rightarrow> e | Some i \<Rightarrow> e\<lparr>ed_cursor := i\<rparr>)"

definition move_right :: "segmentation \<Rightarrow> editor \<Rightarrow> editor" where
  "move_right seg e = (case next_end seg e of None \<Rightarrow> e | Some i \<Rightarrow> e\<lparr>ed_cursor := i\<rparr>)"

text \<open>\<open>rfind\<close> and \<open>find\<close> of a line end.\<close>

definition move_line_start :: "editor \<Rightarrow> editor" where
  "move_line_start e = e\<lparr>ed_cursor := length (before e) - length (takeWhile (\<lambda>c. c \<noteq> CHR 0x0A) (rev (before e)))\<rparr>"

definition move_line_end :: "editor \<Rightarrow> editor" where
  "move_line_end e = e\<lparr>ed_cursor := ed_cursor e + length (takeWhile (\<lambda>c. c \<noteq> CHR 0x0A) (behind e))\<rparr>"

text \<open>The loops over words; \<open>None\<close>: the loop does not end.\<close>

partial_function (option) skip_left :: "segmentation \<Rightarrow> bool \<Rightarrow> editor \<Rightarrow> editor option" where
  "skip_left seg space e =
     (if 0 < ed_cursor e \<and> previous_space seg e = space then skip_left seg space (move_left seg e) else Some e)"

partial_function (option) skip_right :: "segmentation \<Rightarrow> bool \<Rightarrow> editor \<Rightarrow> editor option" where
  "skip_right seg space e =
     (if ed_cursor e < length (ed_buffer e) \<and> next_space seg e = space
      then skip_right seg space (move_right seg e) else Some e)"

definition move_word_left :: "segmentation \<Rightarrow> editor \<Rightarrow> editor option" where
  "move_word_left seg e = Option.bind (skip_left seg True e) (skip_left seg False)"

definition move_word_right :: "segmentation \<Rightarrow> editor \<Rightarrow> editor option" where
  "move_word_right seg e = Option.bind (skip_right seg True e) (skip_right seg False)"

definition delete_word_left :: "segmentation \<Rightarrow> editor \<Rightarrow> editor option" where
  "delete_word_left seg e =
     map_option (\<lambda>e'. e'\<lparr>ed_buffer := before e' @ behind e\<rparr>) (move_word_left seg e)"

text \<open>The row and the column of the cursor in a field of a given width.\<close>

definition place :: "(string \<Rightarrow> nat) \<Rightarrow> nat \<Rightarrow> nat \<times> nat \<Rightarrow> string \<Rightarrow> nat \<times> nat" where
  "place cells width rc g =
     (if g = [CHR 0x0A] then (fst rc + 1, 0)
      else
        let (row, column) = (if 0 < cells g \<and> snd rc + cells g > width then (fst rc + 1, 0) else rc);
            column = column + cells g
        in if width \<le> column then (row + 1, 0) else (row, column))"

definition visual_cursor :: "segmentation \<Rightarrow> (string \<Rightarrow> nat) \<Rightarrow> nat \<Rightarrow> editor \<Rightarrow> nat \<times> nat" where
  "visual_cursor seg cells width e = foldl (place cells (max 1 width)) (0, 0) (seg (before e))"

text \<open>What a key does to the text.\<close>

datatype edit =
    EInsert string
  | EPaste string
  | EReplace string
  | EClear
  | EBackspace
  | EDelete
  | ELeft
  | ERight
  | ELineStart
  | ELineEnd
  | EWordLeft
  | EWordRight
  | EDeleteWord

fun edit_step :: "segmentation \<Rightarrow> edit \<Rightarrow> editor \<Rightarrow> editor option" where
  "edit_step seg (EInsert k) e = Some (insert_char seg k e)"
| "edit_step seg (EPaste t) e = Some (insert_text seg t e)"
| "edit_step seg (EReplace t) e = Some (replace_text t e)"
| "edit_step seg EClear e = Some empty_editor"
| "edit_step seg EBackspace e = Some (backspace seg e)"
| "edit_step seg EDelete e = Some (delete_next seg e)"
| "edit_step seg ELeft e = Some (move_left seg e)"
| "edit_step seg ERight e = Some (move_right seg e)"
| "edit_step seg ELineStart e = Some (move_line_start e)"
| "edit_step seg ELineEnd e = Some (move_line_end e)"
| "edit_step seg EWordLeft e = move_word_left seg e"
| "edit_step seg EWordRight e = move_word_right seg e"
| "edit_step seg EDeleteWord e = delete_word_left seg e"

fun edit_all :: "segmentation \<Rightarrow> edit list \<Rightarrow> editor \<Rightarrow> editor option" where
  "edit_all seg [] e = Some e"
| "edit_all seg (x # xs) e = Option.bind (edit_step seg x e) (edit_all seg xs)"

section \<open>The cursor stays between characters\<close>

text \<open>
  What \<open>graphemes\<close> documents (UAX 29): the pieces make up the text, none is empty, each consists of
  whole characters, and splitting can be restarted at any of its boundaries. A line end
  is a boundary on both sides, unless a carriage return comes before it.
\<close>

definition segments :: "segmentation \<Rightarrow> bool" where
  "segments seg \<longleftrightarrow>
     (\<forall>s. concat (seg s) = s \<and> [] \<notin> set (seg s)) \<and>
     (\<forall>s. starts_char s \<longrightarrow> list_all starts_char (seg s)) \<and>
     (\<forall>s gs hs. seg s = gs @ hs \<longrightarrow> seg (concat gs) = gs \<and> seg (concat hs) = hs) \<and>
     (\<forall>s t. starts_char t \<longrightarrow> seg (s @ CHR 0x0A # t) = seg (s @ [CHR 0x0A]) @ seg t) \<and>
     (\<forall>s t. s = [] \<or> last s \<noteq> CHR 0x0D \<longrightarrow> seg (s @ CHR 0x0A # t) = seg s @ seg (CHR 0x0A # t))"

text \<open>The part of UTF-8 that matters: no continuation byte at the start or behind an ASCII byte.\<close>

fun sound_from :: "bool \<Rightarrow> string \<Rightarrow> bool" where
  "sound_from b [] = True"
| "sound_from b (c # s) = ((b \<longrightarrow> \<not> cont (byte c)) \<and> sound_from (byte c < 128) s)"

abbreviation sound :: "string \<Rightarrow> bool" where
  "sound \<equiv> sound_from True"

lemma starts_char_simps [simp]: "starts_char []" "starts_char (c # s) \<longleftrightarrow> \<not> cont (byte c)"
  by (simp_all add: starts_char_def)

lemma starts_prefix: "starts_char (s @ t) \<Longrightarrow> starts_char s"
  by (cases s) simp_all

lemma sound_starts: "sound s \<Longrightarrow> starts_char s"
  by (cases s) simp_all

lemma sound_weaken: "sound s \<Longrightarrow> sound_from b s"
  by (cases s) simp_all

lemma sound_append: "sound_from b s \<Longrightarrow> sound t \<Longrightarrow> sound_from b (s @ t)"
  by (induction s arbitrary: b) (simp_all add: sound_weaken)

lemma sound_take: "sound_from b s \<Longrightarrow> sound_from b (take n s)"
proof (induction s arbitrary: b n)
  case (Cons c s)
  then show ?case by (cases n) simp_all
qed simp

lemma sound_drop: "sound_from b s \<Longrightarrow> starts_char (drop n s) \<Longrightarrow> sound (drop n s)"
proof (induction s arbitrary: b n)
  case (Cons c s)
  then show ?case by (cases n) auto
qed simp

lemma sound_filter: "sound_from b s \<Longrightarrow> sound_from b (filter (\<lambda>c. c \<noteq> CHR 0x0D) s)"
proof (induction s arbitrary: b)
  case (Cons c s)
  show ?case
  proof (cases "c = CHR 0x0D")
    case True
    with Cons have "sound (filter (\<lambda>c. c \<noteq> CHR 0x0D) s)" by (simp add: byte_def)
    with True show ?thesis by (simp add: sound_weaken)
  qed (use Cons in auto)
qed simp

lemma sound_at: "sound_from b (s @ c # t) \<Longrightarrow> byte c < 128 \<Longrightarrow> sound t"
  by (induction s arbitrary: b) auto

definition on_char :: "editor \<Rightarrow> bool" where
  "on_char e \<longleftrightarrow> ed_cursor e \<le> length (ed_buffer e) \<and> sound (ed_buffer e) \<and> starts_char (behind e)"

lemma on_char_parts: "on_char e \<Longrightarrow> sound (before e) \<and> sound (behind e) \<and> length (before e) = ed_cursor e \<and> before e @ behind e = ed_buffer e"
  by (auto simp: on_char_def before_def behind_def intro: sound_take sound_drop)

lemma on_charI:
  assumes "ed_buffer e = s @ t" "ed_cursor e = length s" "sound s" "sound t"
  shows "on_char e"
  using assms by (simp add: on_char_def behind_def sound_append sound_starts)

lemma segmentsD:
  assumes "segments seg"
  shows "concat (seg s) = s" "[] \<notin> set (seg s)" "starts_char s \<Longrightarrow> list_all starts_char (seg s)"
    "seg s = gs @ hs \<Longrightarrow> seg (concat gs) = gs" "seg s = gs @ hs \<Longrightarrow> seg (concat hs) = hs"
    "starts_char t \<Longrightarrow> seg (s @ CHR 0x0A # t) = seg (s @ [CHR 0x0A]) @ seg t"
    "s = [] \<or> last s \<noteq> CHR 0x0D \<Longrightarrow> seg (s @ CHR 0x0A # t) = seg s @ seg (CHR 0x0A # t)"
  using assms unfolding segments_def by blast+

text \<open>A boundary of the graphemes of a sound text splits it into sound texts.\<close>

lemma sound_split:
  assumes "segments seg" "sound s" "seg s = gs @ hs"
  shows "sound (concat gs) \<and> sound (concat hs)"
proof -
  have s: "s = concat gs @ concat hs" using segmentsD(1) [OF assms(1), of s] assms(3) by simp
  have "list_all starts_char hs" "[] \<notin> set hs"
    using segmentsD(2,3) [OF assms(1), of s] sound_starts [OF assms(2)] assms(3) by auto
  then have "starts_char (concat hs)" by (cases hs) (auto simp: starts_char_def split: list.splits)
  then have "starts_char (drop (length (concat gs)) s)" by (simp add: s)
  moreover have "sound (take (length (concat gs)) s)" using assms(2) by (rule sound_take)
  ultimately show ?thesis using sound_drop [OF assms(2), of "length (concat gs)"] s by simp
qed

lemma previous_split:
  assumes "segments seg" "previous_start seg e = Some i"
  obtains gs g where "seg (before e) = gs @ [g]" "before e = concat gs @ g" "i = length (concat gs)" "g \<noteq> []"
proof -
  from assms(2) have "seg (before e) = butlast (seg (before e)) @ [last (seg (before e))]"
    "i = length (concat (butlast (seg (before e))))"
    by (auto simp: previous_start_def split: if_splits)
  then show thesis
    using segmentsD(1,2) [OF assms(1), of "before e"]
    by (intro that [of "butlast (seg (before e))" "last (seg (before e))"])
      (metis concat_append concat.simps append_Nil2, metis concat_append concat.simps append_Nil2, assumption,
       metis in_set_conv_decomp)
qed

lemma next_split:
  assumes "segments seg" "next_end seg e = Some i"
  obtains g hs where "seg (behind e) = g # hs" "behind e = g @ concat hs" "i = ed_cursor e + length g" "g \<noteq> []"
proof -
  from assms(2) obtain g hs where g: "seg (behind e) = g # hs" "i = ed_cursor e + length g"
    by (auto simp: next_end_def split: list.splits)
  moreover have "behind e = g @ concat hs" "g \<noteq> []"
    using segmentsD(1,2) [OF assms(1), of "behind e"] g by auto
  ultimately show thesis using that by blast
qed

lemma starts_from_split:
  "i \<in> set (starts_from n gs) \<Longrightarrow> \<exists>as bs. gs = as @ bs \<and> i = n + length (concat as)"
proof (induction gs arbitrary: n)
  case (Cons g gs)
  show ?case
  proof (cases "i = n")
    case True
    then have "g # gs = [] @ g # gs \<and> i = n + length (concat [])" by simp
    then show ?thesis by blast
  next
    case False
    with Cons.prems have "i \<in> set (starts_from (n + length g) gs)" by simp
    from Cons.IH [OF this] obtain as bs where "gs = as @ bs" "i = n + length g + length (concat as)" by blast
    then have "g # gs = (g # as) @ bs \<and> i = n + length (concat (g # as))" by simp
    then show ?thesis by blast
  qed
qed simp

text \<open>Every operation keeps the cursor between characters; the movements keep the text.\<close>

lemma snap_target:
  assumes "segments seg" "ed_cursor e \<le> length (ed_buffer e)"
  obtains gs hs where "seg (ed_buffer e) = gs @ hs" "ed_cursor (snap_forward seg e) = length (concat gs)"
    "ed_buffer (snap_forward seg e) = ed_buffer e"
proof (cases "ed_cursor e = length (ed_buffer e)")
  case True
  then show thesis
    using segmentsD(1) [OF assms(1), of "ed_buffer e"]
    by (intro that [of "seg (ed_buffer e)" "[]"]) (simp_all add: snap_forward_def)
next
  case False
  let ?is = "starts_from 0 (seg (ed_buffer e)) @ [length (ed_buffer e)]"
  obtain i where i: "find (\<lambda>i. ed_cursor e \<le> i) ?is = Some i"
    using assms(2) by (cases "find (\<lambda>i. ed_cursor e \<le> i) ?is") (auto simp: find_None_iff)
  then have "i \<in> set ?is" by (metis find_Some_iff nth_mem)
  moreover have snap: "snap_forward seg e = e\<lparr>ed_cursor := i\<rparr>" using False i by (simp add: snap_forward_def)
  moreover have "length (ed_buffer e) = 0 + length (concat (seg (ed_buffer e)))"
    using segmentsD(1) [OF assms(1), of "ed_buffer e"] by simp
  ultimately have "\<exists>gs hs. seg (ed_buffer e) = gs @ hs \<and> i = length (concat gs)"
    using starts_from_split [of i 0 "seg (ed_buffer e)"] by (metis Un_iff add_0 append_Nil2 empty_iff list.set(1) set_ConsD set_append)
  then obtain gs hs where "seg (ed_buffer e) = gs @ hs" "i = length (concat gs)" by blast
  then show thesis by (intro that [of gs hs]) (simp_all add: snap)
qed

lemma on_char_insert:
  assumes "segments seg" "on_char e" "sound t"
  shows "on_char (insert_at seg t e)"
proof -
  let ?e = "\<lparr>ed_buffer = before e @ t @ behind e, ed_cursor = ed_cursor e + length t\<rparr>"
  note p = on_char_parts [OF assms(2)]
  have s: "sound (ed_buffer ?e)" using p assms(3) by (simp add: sound_append)
  have "ed_cursor ?e \<le> length (ed_buffer ?e)" using p by simp
  then obtain gs hs where g: "seg (ed_buffer ?e) = gs @ hs" "ed_cursor (snap_forward seg ?e) = length (concat gs)"
      "ed_buffer (snap_forward seg ?e) = ed_buffer ?e"
    by (rule snap_target [OF assms(1)])
  have "ed_buffer ?e = concat gs @ concat hs" using segmentsD(1) [OF assms(1), of "ed_buffer ?e"] g(1) by simp
  with g have "on_char (snap_forward seg ?e)"
    using sound_split [OF assms(1) s g(1)] by (intro on_charI [of _ "concat gs" "concat hs"]) (blast | simp)+
  then show ?thesis by (simp add: insert_at_def)
qed

lemma on_char_previous:
  assumes "segments seg" "on_char e" "previous_start seg e = Some i"
  shows "on_char (e\<lparr>ed_cursor := i\<rparr>) \<and> on_char \<lparr>ed_buffer = take i (ed_buffer e) @ behind e, ed_cursor = i\<rparr> \<and> i < ed_cursor e"
proof -
  note p = on_char_parts [OF assms(2)]
  obtain gs g where g: "seg (before e) = gs @ [g]" "before e = concat gs @ g" "i = length (concat gs)" "g \<noteq> []"
    by (rule previous_split [OF assms(1,3)])
  have s: "sound (concat gs)" "sound g"
    using sound_split [OF assms(1) conjunct1 [OF p] g(1)] by simp_all
  have b: "ed_buffer e = concat gs @ g @ behind e" using p g(2) by simp
  have "on_char (e\<lparr>ed_cursor := i\<rparr>)"
    using b s p g(3) by (intro on_charI [of _ "concat gs" "g @ behind e"]) (simp_all add: sound_append)
  moreover have "on_char \<lparr>ed_buffer = take i (ed_buffer e) @ behind e, ed_cursor = i\<rparr>"
    using b s p g(3) by (intro on_charI [of _ "concat gs" "behind e"]) simp_all
  moreover have "i < ed_cursor e" using p g by (metis length_append length_greater_0_conv less_add_same_cancel1)
  ultimately show ?thesis by simp
qed

lemma on_char_next:
  assumes "segments seg" "on_char e" "next_end seg e = Some i"
  shows "on_char (e\<lparr>ed_cursor := i\<rparr>) \<and> on_char (e\<lparr>ed_buffer := before e @ drop i (ed_buffer e)\<rparr>) \<and> ed_cursor e < i"
proof -
  note p = on_char_parts [OF assms(2)]
  obtain g hs where g: "seg (behind e) = g # hs" "behind e = g @ concat hs" "i = ed_cursor e + length g" "g \<noteq> []"
    by (rule next_split [OF assms(1,3)])
  have s: "sound g" "sound (concat hs)"
    using sound_split [OF assms(1), of "behind e" "[g]" hs] p g(1) by simp_all
  have b: "ed_buffer e = before e @ g @ concat hs" using p g(2) by simp
  have "drop i (ed_buffer e) = concat hs" using p by (simp add: b g(3))
  then have "on_char (e\<lparr>ed_buffer := before e @ drop i (ed_buffer e)\<rparr>)"
    using s p by (intro on_charI [of _ "before e" "concat hs"]) simp_all
  moreover have "on_char (e\<lparr>ed_cursor := i\<rparr>)"
    using b s p g(3) by (intro on_charI [of _ "before e @ g" "concat hs"]) (simp_all add: sound_append)
  ultimately show ?thesis using g by simp
qed

lemma on_char_moves:
  assumes "segments seg" "on_char e"
  shows "on_char (move_left seg e)" "on_char (move_right seg e)" "on_char (backspace seg e)" "on_char (delete_next seg e)"
  using assms on_char_previous [OF assms] on_char_next [OF assms]
  by (auto simp: move_left_def move_right_def backspace_def delete_next_def split: option.splits)

lemma moves_buffer [simp]:
  "ed_buffer (move_left seg e) = ed_buffer e" "ed_buffer (move_right seg e) = ed_buffer e"
  by (simp_all add: move_left_def move_right_def split: option.splits)

lemma line_start_split:
  obtains s t where "before e = s @ t" "CHR 0x0A \<notin> set t" "s = [] \<or> last s = CHR 0x0A"
    "move_line_start e = e\<lparr>ed_cursor := length s\<rparr>"
proof -
  let ?t = "takeWhile (\<lambda>c. c \<noteq> CHR 0x0A) (rev (before e))" and ?s = "dropWhile (\<lambda>c. c \<noteq> CHR 0x0A) (rev (before e))"
  have "before e = rev ?s @ rev ?t" by (metis rev_append rev_rev_ident takeWhile_dropWhile_id)
  moreover from this have "length (before e) - length ?t = length (rev ?s)"
    by (metis add_diff_cancel_right' length_append length_rev)
  moreover have "rev ?s = [] \<or> last (rev ?s) = CHR 0x0A"
    using hd_dropWhile [of "\<lambda>c. c \<noteq> CHR 0x0A" "rev (before e)"] by (cases "?s = []") (auto simp: last_rev)
  ultimately show thesis
    by (intro that [of "rev ?s" "rev ?t"]) (auto simp: move_line_start_def dest: set_takeWhileD)
qed

lemma line_end_split:
  obtains s t where "behind e = s @ t" "CHR 0x0A \<notin> set s" "t = [] \<or> hd t = CHR 0x0A"
    "move_line_end e = e\<lparr>ed_cursor := ed_cursor e + length s\<rparr>"
  using hd_dropWhile [of "\<lambda>c. c \<noteq> CHR 0x0A" "behind e"]
  by (intro that [of "takeWhile (\<lambda>c. c \<noteq> CHR 0x0A) (behind e)" "dropWhile (\<lambda>c. c \<noteq> CHR 0x0A) (behind e)"])
    (auto simp: move_line_end_def dest: set_takeWhileD)

lemma on_char_lines:
  assumes "on_char e"
  shows "on_char (move_line_start e)" "on_char (move_line_end e)"
proof -
  note p = on_char_parts [OF assms]
  obtain s t where a: "before e = s @ t" "s = [] \<or> last s = CHR 0x0A" "move_line_start e = e\<lparr>ed_cursor := length s\<rparr>"
    by (rule line_start_split [of e])
  have "sound t"
  proof (cases s rule: rev_cases)
    case (snoc r c)
    then show ?thesis using sound_at [of True r c t] p a by (simp add: byte_def)
  qed (use p a in simp)
  moreover have "sound s" using sound_take [of True "before e" "length s"] p a(1) by simp
  ultimately show "on_char (move_line_start e)"
    using p a by (intro on_charI [of _ s "t @ behind e"]) (metis append_assoc editor.select_convs(1) editor.surjective editor.update_convs(2), simp_all add: sound_append)
  obtain u v where b: "behind e = u @ v" "v = [] \<or> hd v = CHR 0x0A" "move_line_end e = e\<lparr>ed_cursor := ed_cursor e + length u\<rparr>"
    by (rule line_end_split [of e])
  have "starts_char (drop (length u) (behind e))" using b by (cases v) (auto simp: cont_def byte_def)
  then have "sound v" "sound u"
    using sound_drop [of True "behind e" "length u"] sound_take [of True "behind e" "length u"] p b(1) by simp_all
  then show "on_char (move_line_end e)"
    using p b by (intro on_charI [of _ "before e @ u" v]) (simp_all add: sound_append)
qed

text \<open>The loops over words end and keep what the single movements keep.\<close>

lemma skip_left_ends:
  assumes "segments seg" and P: "\<And>e. P e \<Longrightarrow> P (move_left seg e)" "\<And>e. P e \<Longrightarrow> on_char e"
  shows "P e \<Longrightarrow> \<exists>e'. skip_left seg space e = Some e' \<and> P e' \<and> ed_buffer e' = ed_buffer e \<and> ed_cursor e' \<le> ed_cursor e"
proof (induction "ed_cursor e" arbitrary: e rule: less_induct)
  case less
  show ?case
  proof (cases "0 < ed_cursor e \<and> previous_space seg e = space")
    case True
    have "length (before e) = ed_cursor e" using on_char_parts [OF P(2) [OF less.prems]] by simp
    with True have "before e \<noteq> []" by auto
    then have "seg (before e) \<noteq> []" using segmentsD(1) [OF assms(1), of "before e"] by force
    then obtain i where i: "previous_start seg e = Some i" by (simp add: previous_start_def)
    then have m: "move_left seg e = e\<lparr>ed_cursor := i\<rparr>" by (simp add: move_left_def)
    have lt: "i < ed_cursor e" using on_char_previous [OF assms(1) P(2) [OF less.prems] i] by simp
    from less.hyps [of "move_left seg e"] lt P(1) [OF less.prems] m
    obtain e' where "skip_left seg space (move_left seg e) = Some e'" "P e'" "ed_buffer e' = ed_buffer e" "ed_cursor e' \<le> i"
      by auto
    with True lt show ?thesis by (subst skip_left.simps) auto
  next
    case False
    then show ?thesis using less.prems by (subst skip_left.simps) auto
  qed
qed

lemma skip_right_ends:
  assumes "segments seg" and P: "\<And>e. P e \<Longrightarrow> P (move_right seg e)" "\<And>e. P e \<Longrightarrow> on_char e"
  shows "P e \<Longrightarrow> \<exists>e'. skip_right seg space e = Some e' \<and> P e' \<and> ed_buffer e' = ed_buffer e"
proof (induction "length (ed_buffer e) - ed_cursor e" arbitrary: e rule: less_induct)
  case less
  show ?case
  proof (cases "ed_cursor e < length (ed_buffer e) \<and> next_space seg e = space")
    case True
    then have "behind e \<noteq> []" by (simp add: behind_def)
    then have "seg (behind e) \<noteq> []" using segmentsD(1) [OF assms(1), of "behind e"] by force
    then obtain i where i: "next_end seg e = Some i" by (cases "seg (behind e)") (simp_all add: next_end_def)
    then have m: "move_right seg e = e\<lparr>ed_cursor := i\<rparr>" by (simp add: move_right_def)
    have lt: "ed_cursor e < i" using on_char_next [OF assms(1) P(2) [OF less.prems] i] by simp
    have "length (ed_buffer e) - i < length (ed_buffer e) - ed_cursor e" using True lt by (intro diff_less_mono2) auto
    with less.hyps [of "move_right seg e"] P(1) [OF less.prems] m
    obtain e' where "skip_right seg space (move_right seg e) = Some e'" "P e'" "ed_buffer e' = ed_buffer e"
      by auto
    with True show ?thesis by (subst skip_right.simps) auto
  next
    case False
    then show ?thesis using less.prems by (subst skip_right.simps) auto
  qed
qed

lemma move_word_ends:
  assumes "segments seg" "\<And>e. P e \<Longrightarrow> P (move_left seg e)" "\<And>e. P e \<Longrightarrow> P (move_right seg e)"
    "\<And>e. P e \<Longrightarrow> on_char e" "P e"
  shows "\<exists>e'. move_word_left seg e = Some e' \<and> P e' \<and> ed_buffer e' = ed_buffer e \<and> ed_cursor e' \<le> ed_cursor e"
    and "\<exists>e'. move_word_right seg e = Some e' \<and> P e'"
proof -
  note L = skip_left_ends [where P = P, OF assms(1,2,4)] and R = skip_right_ends [where P = P, OF assms(1,3,4)]
  obtain a where a: "skip_left seg True e = Some a" "P a" "ed_buffer a = ed_buffer e" "ed_cursor a \<le> ed_cursor e"
    using L [OF _ _ assms(5), of True] by blast
  obtain b where b: "skip_left seg False a = Some b" "P b" "ed_buffer b = ed_buffer a" "ed_cursor b \<le> ed_cursor a"
    using L [OF _ _ a(2), of False] by blast
  show "\<exists>e'. move_word_left seg e = Some e' \<and> P e' \<and> ed_buffer e' = ed_buffer e \<and> ed_cursor e' \<le> ed_cursor e"
    using a b by (simp add: move_word_left_def)
  obtain c where c: "skip_right seg True e = Some c" "P c" using R [OF _ _ assms(5), of True] by blast
  obtain d where d: "skip_right seg False c = Some d" "P d" using R [OF _ _ c(2), of False] by blast
  show "\<exists>e'. move_word_right seg e = Some e' \<and> P e'" using c d by (simp add: move_word_right_def)
qed

fun sound_edit :: "edit \<Rightarrow> bool" where
  "sound_edit (EInsert k) = sound k"
| "sound_edit (EPaste t) = sound t"
| "sound_edit (EReplace t) = sound t"
| "sound_edit _ = True"

lemma on_char_delete_word:
  assumes "segments seg" "on_char e"
  shows "\<exists>e'. delete_word_left seg e = Some e' \<and> on_char e'"
proof -
  from move_word_ends(1) [where P = on_char, OF assms(1) on_char_moves(1,2) [OF assms(1)] _ assms(2)]
  obtain f where f: "move_word_left seg e = Some f" "on_char f" by blast
  have "on_char (f\<lparr>ed_buffer := before f @ behind e\<rparr>)"
    using on_char_parts [OF assms(2)] on_char_parts [OF f(2)] by (intro on_charI [of _ "before f" "behind e"]) simp_all
  with f show ?thesis by (simp add: delete_word_left_def)
qed

lemma on_char_step:
  assumes "segments seg" "on_char e" "sound_edit x"
  shows "\<exists>e'. edit_step seg x e = Some e' \<and> on_char e'"
proof (cases x)
  case EWordLeft
  with move_word_ends(1) [where P = on_char, OF assms(1) on_char_moves(1,2) [OF assms(1)] _ assms(2)]
  show ?thesis by auto
next
  case EWordRight
  with move_word_ends(2) [where P = on_char, OF assms(1) on_char_moves(1,2) [OF assms(1)] _ assms(2)]
  show ?thesis by auto
next
  case EDeleteWord
  with on_char_delete_word [OF assms(1,2)] show ?thesis by simp
next
  case (EReplace t)
  then show ?thesis using assms(3) by (auto simp: replace_text_def intro: on_charI [of _ t "[]"])
next
  case EClear
  then show ?thesis by (auto simp: empty_editor_def intro: on_charI [of _ "[]" "[]"])
qed (use assms on_char_insert on_char_moves on_char_lines sound_filter in \<open>auto simp: insert_char_def insert_text_def\<close>)


section \<open>Where the cursor is shown\<close>

text \<open>
  The cursor is shown inside the field: its column is below the width, for every text and every
  width, also when a character is wider than the whole field.
\<close>

theorem cursor_in_field: "snd (visual_cursor seg cells width e) < max 1 width"
proof -
  have "snd (foldl (place cells (max 1 width)) rc gs) < max 1 width" if "snd rc < max 1 width" for rc gs
    using that by (induction gs arbitrary: rc) (auto simp: place_def Let_def split: prod.splits)
  then show ?thesis by (simp add: visual_cursor_def)
qed

section \<open>Graphemes\<close>

text \<open>
  A splitting that knows two rules of UAX 29: two regional indicators make one flag, every other
  character is a grapheme of its own. A regional indicator is given by its UTF-8 bytes.
\<close>

definition regional :: "string \<Rightarrow> bool" where
  "regional k \<longleftrightarrow> length k = 4 \<and> map byte (take 3 k) = [0xF0, 0x9F, 0x87]"

fun pair_up :: "string list \<Rightarrow> string list" where
  "pair_up [] = []"
| "pair_up [k] = [k]"
| "pair_up (k # l # ks) = (if regional k \<and> regional l then (k @ l) # pair_up ks else k # pair_up (l # ks))"

definition flags :: segmentation where
  "flags s = pair_up (chars s)"

lemma concat_pair_up [simp]: "concat (pair_up ks) = concat ks"
  by (induction ks rule: pair_up.induct) simp_all

lemma pair_up_split:
  "pair_up ks = gs @ hs \<Longrightarrow> \<exists>as bs. ks = as @ bs \<and> pair_up as = gs \<and> pair_up bs = hs"
proof (induction ks arbitrary: gs rule: pair_up.induct)
  case (3 k l ks)
  show ?case
  proof (cases gs)
    case Nil
    with 3(3) have "k # l # ks = [] @ k # l # ks \<and> pair_up [] = gs \<and> pair_up (k # l # ks) = hs" by simp
    then show ?thesis by blast
  next
    case (Cons g gs')
    show ?thesis
    proof (cases "regional k \<and> regional l")
      case True
      with 3(3) Cons have g: "g = k @ l" "pair_up ks = gs' @ hs" by simp_all
      from 3(1) [OF True g(2)] obtain as bs where "ks = as @ bs" "pair_up as = gs'" "pair_up bs = hs" by blast
      with g True Cons have "k # l # ks = (k # l # as) @ bs \<and> pair_up (k # l # as) = gs \<and> pair_up bs = hs" by simp
      then show ?thesis by blast
    next
      case False
      with 3(3) Cons have g: "g = k" "pair_up (l # ks) = gs' @ hs" by auto
      from 3(2) [OF False g(2)] obtain as bs where ab: "l # ks = as @ bs" "pair_up as = gs'" "pair_up bs = hs" by blast
      have "pair_up (k # as) = k # gs'" using ab False by (cases as) auto
      with g ab Cons have "k # l # ks = (k # as) @ bs \<and> pair_up (k # as) = gs \<and> pair_up bs = hs" by simp
      then show ?thesis by blast
    qed
  qed
next
  case (1 gs)
  then show ?case by simp
next
  case (2 v gs)
  show ?case
  proof (cases gs)
    case Nil
    with 2 have "[v] = [] @ [v] \<and> pair_up [] = gs \<and> pair_up [v] = hs" by auto
    then show ?thesis by blast
  next
    case (Cons g gs')
    with 2 have "[v] = [v] @ [] \<and> pair_up [v] = gs \<and> pair_up [] = hs" by simp
    then show ?thesis by blast
  qed
qed

lemma pair_up_append:
  "ks = [] \<or> \<not> regional (last ks) \<or> ls = [] \<or> \<not> regional (hd ls) \<Longrightarrow> pair_up (ks @ ls) = pair_up ks @ pair_up ls"
proof (induction ks rule: pair_up.induct)
  case (2 v)
  then show ?case by (cases ls) auto
next
  case (3 k l ks)
  then show ?case by (cases "ks = []") auto
qed simp

lemma chars_split: "chars s = as @ bs \<Longrightarrow> chars (concat as) = as \<and> chars (concat bs) = bs"
proof (induction as arbitrary: s)
  case Nil
  then show ?case by (metis append_Nil chars.simps(1) concat.simps(1) concat_chars)
next
  case (Cons k as)
  let ?r = "concat as @ concat bs"
  have s: "s = k @ ?r" using concat_chars [of s] Cons.prems by simp
  have st: "starts_char ?r" using chars_tail_starts [of s k "as @ bs"] Cons.prems by simp
  have k: "chars k = [k]" using chars_is_char [of k s] Cons.prems by (simp add: chars_single)
  from chars_append [OF st, of k] k s Cons.prems have r: "chars ?r = as @ bs" by simp
  have "starts_char (concat as)" using st by (rule starts_prefix)
  from chars_append [OF this, of k] k Cons.IH [OF r] show ?case by simp
qed

lemma pair_up_chars: "chars s = ks \<Longrightarrow> g \<in> set (pair_up ks) \<Longrightarrow> g \<noteq> []"
proof -
  have "g \<in> set (pair_up ks) \<Longrightarrow> \<forall>k \<in> set ks. k \<noteq> [] \<Longrightarrow> g \<noteq> []"
    by (induction ks rule: pair_up.induct) (auto split: if_splits)
  moreover assume "chars s = ks" "g \<in> set (pair_up ks)"
  ultimately show ?thesis using chars_is_char by (fastforce simp: is_char_def)
qed

lemma chars_starts: "chars s = as @ bs \<Longrightarrow> starts_char s \<Longrightarrow> starts_char (concat bs)"
proof (induction as arbitrary: s)
  case Nil
  then show ?case by (metis append_Nil concat_chars)
next
  case (Cons a as)
  have "chars (concat (as @ bs)) = as @ bs" using chars_split [of s "[a]" "as @ bs"] Cons.prems(1) by simp
  moreover have "starts_char (concat (as @ bs))" using chars_tail_starts [of s a "as @ bs"] Cons.prems(1) by simp
  ultimately show ?case by (rule Cons.IH)
qed

lemma pair_up_starts: "starts_char s \<Longrightarrow> list_all starts_char (flags s)"
  unfolding list_all_iff
proof
  fix g assume "starts_char s" "g \<in> set (flags s)"
  then obtain gs hs where "flags s = gs @ g # hs" by (meson split_list)
  then obtain as bs where ab: "chars s = as @ bs" "pair_up bs = g # hs"
    unfolding flags_def using pair_up_split by blast
  have "concat bs = g @ concat hs" using arg_cong [OF ab(2), of concat] by simp
  then show "starts_char g" using chars_starts [OF ab(1) \<open>starts_char s\<close>] by (simp add: starts_prefix)
qed

lemma chars_line: "chars (s @ [CHR 0x0A]) = chars s @ [[CHR 0x0A]]" "chars (CHR 0x0A # t) = [CHR 0x0A] # chars t" if "starts_char t"
proof -
  show "chars (s @ [CHR 0x0A]) = chars s @ [[CHR 0x0A]]"
    by (subst chars_append) (simp_all add: cont_def byte_def)
  show "chars (CHR 0x0A # t) = [CHR 0x0A] # chars t"
    using chars_append [OF that, of "[CHR 0x0A]"] by simp
qed

lemma flags_segments: "segments flags"
  unfolding segments_def
proof (intro conjI allI impI)
  fix s t gs hs
  show "concat (flags s) = s" by (simp add: flags_def)
  show "[] \<notin> set (flags s)" using pair_up_chars by (auto simp: flags_def)
  show "starts_char s \<Longrightarrow> list_all starts_char (flags s)" by (rule pair_up_starts)
  assume "flags s = gs @ hs"
  then obtain as bs where ab: "chars s = as @ bs" "pair_up as = gs" "pair_up bs = hs"
    unfolding flags_def using pair_up_split by blast
  have "concat gs = concat as" "concat hs = concat bs" using ab(2,3) by auto
  then show "flags (concat gs) = gs" "flags (concat hs) = hs"
    using chars_split [OF ab(1)] ab(2,3) by (simp_all add: flags_def)
next
  fix s t :: string
  have nl: "\<not> regional [CHR 0x0A]" by (simp add: regional_def)
  show "flags (s @ CHR 0x0A # t) = flags (s @ [CHR 0x0A]) @ flags t" if "starts_char t"
    using pair_up_append [of "chars s @ [[CHR 0x0A]]" "chars t"] chars_append [OF that, of "s @ [CHR 0x0A]"] chars_line(1) [OF that] nl
    by (simp add: flags_def)
  have "starts_char (CHR 0x0A # t)" by (simp add: cont_def byte_def)
  moreover have "\<not> regional (CHR 0x0A # u)" for u by (simp add: regional_def byte_def take_Cons')
  ultimately show "flags (s @ CHR 0x0A # t) = flags s @ flags (CHR 0x0A # t)"
    using pair_up_append [of "chars s" "chars (CHR 0x0A # t)"] chars_append [of "CHR 0x0A # t" s]
    by (simp add: flags_def)
qed

text \<open>The cursor at a boundary of the graphemes of the whole text.\<close>

definition on_grapheme :: "segmentation \<Rightarrow> editor \<Rightarrow> bool" where
  "on_grapheme seg e \<longleftrightarrow> (\<exists>gs hs. seg (ed_buffer e) = gs @ hs \<and> ed_cursor e = length (concat gs))"

lemma on_graphemeE:
  assumes "segments seg" "on_grapheme seg e"
  obtains gs hs where "seg (ed_buffer e) = gs @ hs" "ed_cursor e = length (concat gs)" "before e = concat gs"
    "behind e = concat hs" "seg (before e) = gs" "seg (behind e) = hs"
proof -
  from assms(2) obtain gs hs where g: "seg (ed_buffer e) = gs @ hs" "ed_cursor e = length (concat gs)"
    by (auto simp: on_grapheme_def)
  have "ed_buffer e = concat gs @ concat hs" using segmentsD(1) [OF assms(1), of "ed_buffer e"] g(1) by simp
  then have "before e = concat gs" "behind e = concat hs" using g(2) by (simp_all add: before_def behind_def)
  with g segmentsD(4) [OF assms(1) g(1)] segmentsD(5) [OF assms(1) g(1)] show thesis by (intro that [of gs hs]) simp_all
qed

lemma on_grapheme_moves:
  assumes "segments seg" "on_grapheme seg e"
  shows "on_grapheme seg (move_left seg e)" "on_grapheme seg (move_right seg e)"
proof -
  obtain gs hs where g: "seg (ed_buffer e) = gs @ hs" "ed_cursor e = length (concat gs)" "before e = concat gs"
    "behind e = concat hs" "seg (before e) = gs" "seg (behind e) = hs"
    by (rule on_graphemeE [OF assms])
  show "on_grapheme seg (move_left seg e)"
  proof (cases "gs = []")
    case False
    then have "seg (ed_buffer e) = butlast gs @ last gs # hs" using g(1) by simp
    then have "on_grapheme seg (e\<lparr>ed_cursor := length (concat (butlast gs))\<rparr>)"
      unfolding on_grapheme_def by (intro exI [of _ "butlast gs"] exI [of _ "last gs # hs"]) simp
    then show ?thesis using False g(5) by (simp add: move_left_def previous_start_def)
  qed (use assms(2) g(5) in \<open>simp add: move_left_def previous_start_def\<close>)
  show "on_grapheme seg (move_right seg e)"
  proof (cases hs)
    case (Cons h hs')
    then have "seg (ed_buffer e) = (gs @ [h]) @ hs'" "ed_cursor e + length h = length (concat (gs @ [h]))" using g by simp_all
    then have "on_grapheme seg (e\<lparr>ed_cursor := ed_cursor e + length h\<rparr>)"
      unfolding on_grapheme_def by (intro exI [of _ "gs @ [h]"] exI [of _ hs']) simp
    then show ?thesis using Cons g(6) by (simp add: move_right_def next_end_def)
  qed (use assms(2) g(6) in \<open>simp add: move_right_def next_end_def\<close>)
qed

lemma on_grapheme_insert:
  assumes "segments seg" "on_char e"
  shows "on_grapheme seg (insert_at seg t e)"
proof -
  let ?e = "\<lparr>ed_buffer = before e @ t @ behind e, ed_cursor = ed_cursor e + length t\<rparr>"
  have "ed_cursor ?e \<le> length (ed_buffer ?e)" using on_char_parts [OF assms(2)] by simp
  from snap_target [OF assms(1) this] show ?thesis unfolding insert_at_def on_grapheme_def by metis
qed

lemma on_grapheme_at:
  assumes "segments seg" "ed_buffer e = s @ t" "ed_cursor e = length s" "seg (s @ t) = seg s @ seg t"
  shows "on_grapheme seg e"
  using assms segmentsD(1) [OF assms(1), of s] unfolding on_grapheme_def by metis

lemma on_grapheme_lines:
  assumes "segments seg" "on_char e" "CHR 0x0D \<notin> set (ed_buffer e)"
  shows "on_grapheme seg (move_line_start e)" "on_grapheme seg (move_line_end e)"
proof -
  note p = on_char_parts [OF assms(2)]
  have nil: "seg [] = []" using segmentsD(1,2) [OF assms(1), of "[]"] by (cases "seg []") auto
  obtain s t where a: "before e = s @ t" "s = [] \<or> last s = CHR 0x0A" "move_line_start e = e\<lparr>ed_cursor := length s\<rparr>"
    by (rule line_start_split [of e])
  have "on_char (e\<lparr>ed_cursor := length s\<rparr>)" using on_char_lines(1) [OF assms(2)] a(3) by simp
  moreover have b: "ed_buffer e = s @ t @ behind e" using p a(1) by simp
  ultimately have st: "starts_char (t @ behind e)" by (simp add: on_char_def behind_def [of "e\<lparr>ed_cursor := length s\<rparr>"])
  have "seg (s @ t @ behind e) = seg s @ seg (t @ behind e)"
  proof (cases s rule: rev_cases)
    case (snoc r c)
    then show ?thesis using a(2) segmentsD(6) [OF assms(1) st, of r] by simp
  qed (simp add: nil)
  with b show "on_grapheme seg (move_line_start e)"
    unfolding a(3) by (intro on_grapheme_at [OF assms(1), of _ s "t @ behind e"]) simp_all
  obtain u v where c: "behind e = u @ v" "v = [] \<or> hd v = CHR 0x0A" "move_line_end e = e\<lparr>ed_cursor := ed_cursor e + length u\<rparr>"
    by (rule line_end_split [of e])
  have d: "ed_buffer e = (before e @ u) @ v" using p c(1) by simp
  have "seg ((before e @ u) @ v) = seg (before e @ u) @ seg v"
  proof (cases v)
    case (Cons x w)
    have "before e @ u = [] \<or> last (before e @ u) \<noteq> CHR 0x0D"
      using assms(3) d by (metis Un_iff last_in_set set_append)
    with Cons c(2) segmentsD(7) [OF assms(1), of "before e @ u" w] show ?thesis by simp
  qed (simp add: nil)
  with d p show "on_grapheme seg (move_line_end e)"
    unfolding c(3) by (intro on_grapheme_at [OF assms(1), of _ "before e @ u" v]) simp_all
qed

text \<open>Keys that take nothing away, with texts without carriage returns.\<close>

fun keeps_text :: "edit \<Rightarrow> bool" where
  "keeps_text (EInsert k) \<longleftrightarrow> CHR 0x0D \<notin> set k"
| "keeps_text (EReplace t) \<longleftrightarrow> CHR 0x0D \<notin> set t"
| "keeps_text EBackspace = False"
| "keeps_text EDelete = False"
| "keeps_text EDeleteWord = False"
| "keeps_text _ = True"

definition well_placed :: "segmentation \<Rightarrow> editor \<Rightarrow> bool" where
  "well_placed seg e \<longleftrightarrow> on_char e \<and> on_grapheme seg e \<and> CHR 0x0D \<notin> set (ed_buffer e)"

lemma snap_buffer [simp]: "ed_buffer (snap_forward seg e) = ed_buffer e"
  by (simp add: snap_forward_def)

lemma well_placed_insert:
  assumes "segments seg" "well_placed seg e" "sound t" "CHR 0x0D \<notin> set t"
  shows "well_placed seg (insert_at seg t e)"
proof -
  have "set (before e) \<union> set (behind e) \<subseteq> set (ed_buffer e)"
    by (auto simp: before_def behind_def dest: in_set_takeD in_set_dropD)
  then show ?thesis
    using assms on_char_insert [OF assms(1)] on_grapheme_insert [OF assms(1)]
    by (auto simp: well_placed_def insert_at_def)
qed

lemma well_placed_end: "segments seg \<Longrightarrow> sound t \<Longrightarrow> CHR 0x0D \<notin> set t \<Longrightarrow> well_placed seg (replace_text t e)"
  using segmentsD(1) [of seg t]
  by (auto simp: well_placed_def replace_text_def on_grapheme_def intro: on_charI [of _ t "[]"] exI [of _ "seg t"] exI [of _ "[]"])

lemma well_placed_moves:
  assumes "segments seg" "well_placed seg e"
  shows "well_placed seg (move_left seg e)" "well_placed seg (move_right seg e)"
    "well_placed seg (move_line_start e)" "well_placed seg (move_line_end e)"
  using assms on_char_moves [OF assms(1)] on_grapheme_moves [OF assms(1)] on_char_lines on_grapheme_lines [OF assms(1)]
  by (simp_all add: well_placed_def) (simp_all add: move_line_start_def move_line_end_def)

lemma well_placed_step:
  assumes "segments seg" "well_placed seg e" "sound_edit x" "keeps_text x"
  shows "\<exists>e'. edit_step seg x e = Some e' \<and> well_placed seg e'"
proof -
  have P: "well_placed seg f \<Longrightarrow> on_char f" for f by (simp add: well_placed_def)
  note words = move_word_ends [where P = "well_placed seg", OF assms(1) well_placed_moves(1,2) [OF assms(1)] P assms(2)]
  show ?thesis
  proof (cases x)
    case EWordLeft
    then show ?thesis using words(1) by auto
  next
    case EWordRight
    then show ?thesis using words(2) by auto
  next
    case EClear
    then show ?thesis using well_placed_end [OF assms(1), of "[]"] by (simp add: empty_editor_def replace_text_def)
  qed (use assms well_placed_insert well_placed_end well_placed_moves sound_filter in \<open>auto simp: insert_char_def insert_text_def\<close>)
qed

text \<open>
  Typing, pasting and moving, in any order, leave the cursor at a boundary of the graphemes of the
  text, so no movement and no insertion ever stands inside a combined character.
\<close>

theorem cursor_on_grapheme:
  assumes "segments seg" "\<forall>x \<in> set xs. sound_edit x \<and> keeps_text x"
  shows "\<exists>e. edit_all seg xs empty_editor = Some e \<and> on_grapheme seg e"
proof -
  have "\<exists>e'. edit_all seg xs e = Some e' \<and> well_placed seg e'" if "well_placed seg e" for e
    using assms(2) that
  proof (induction xs arbitrary: e)
    case (Cons x xs)
    then obtain f where "edit_step seg x e = Some f" "well_placed seg f"
      using well_placed_step [OF assms(1)] by (metis list.set_intros(1))
    with Cons show ?case by simp
  qed simp
  moreover have "well_placed seg empty_editor"
    using well_placed_end [OF assms(1), of "[]" empty_editor] by (simp add: empty_editor_def replace_text_def)
  ultimately show ?thesis by (metis well_placed_def)
qed

text \<open>The first and the second letter of a flag, each a character of its own.\<close>

definition flag_a :: string where
  "flag_a = [CHR 0xF0, CHR 0x9F, CHR 0x87, CHR 0xA6]"

definition flag_b :: string where
  "flag_b = [CHR 0xF0, CHR 0x9F, CHR 0x87, CHR 0xA7]"

lemma cursor_on_grapheme_witness:
  "\<exists>e. edit_all flags [EInsert flag_a, EInsert flag_b, EInsert ''x'', ELeft, ELeft, EWordRight] empty_editor = Some e \<and> on_grapheme flags e"
proof -
  have "sound flag_a" "sound flag_b" "sound ''x''" by code_simp+
  moreover have "CHR 0x0D \<notin> set flag_a" "CHR 0x0D \<notin> set flag_b" by code_simp+
  ultimately show ?thesis by (intro cursor_on_grapheme [OF flags_segments]) simp
qed


text \<open>
  Taking away what stands between two halves of a combined character joins them with the
  cursor inside: the next key takes away half of a flag. The comment of the editor says that
  the cursor is always at a grapheme boundary and no removal splits a combined character.
\<close>

theorem removal_splits_grapheme:
  "let e = backspace flags \<lparr>ed_buffer = flag_a @ ''x'' @ flag_b, ed_cursor = 5\<rparr>
   in flags (ed_buffer e) = [flag_a @ flag_b] \<and> \<not> on_grapheme flags e \<and> ed_buffer (backspace flags e) = flag_b"
proof -
  let ?e = "\<lparr>ed_buffer = flag_a @ flag_b, ed_cursor = 4\<rparr>"
  have e: "backspace flags \<lparr>ed_buffer = flag_a @ ''x'' @ flag_b, ed_cursor = 5\<rparr> = ?e" by code_simp
  have one: "flags (flag_a @ flag_b) = [flag_a @ flag_b]" by code_simp
  have "length flag_a + length flag_b = 8" by (simp add: flag_a_def flag_b_def)
  then have "\<not> on_grapheme flags ?e" by (auto simp: on_grapheme_def one Cons_eq_append_conv)
  moreover have "ed_buffer (backspace flags ?e) = flag_b" by code_simp
  ultimately show ?thesis by (simp add: e [simplified] one Let_def)
qed

end
