(* ===== verification/Keys.thy ===== *)
theory Keys
  imports Rust_Text "HOL-Library.Word"
begin

text \<open>
  The keys of the terminal interface (\<open>src/entry/tui/keybindings.rs\<close>): the table of actions with
  their shortcuts, which action a key event means, and which keys decide an approval. Key codes
  and modifiers are those of the terminal crate; a character is its scalar value.
\<close>

unbundle bit_operations_syntax

datatype tui_action =
    AEscape
  | AToggleHelp
  | APageUp
  | APageDown
  | AToggleToolDetails
  | AClearInput
  | AClearQueue
  | ACancelTurn
  | APrevious
  | ANext
  | AComplete
  | ACursorWordLeft
  | ACursorWordRight
  | ACursorLeft
  | ACursorRight
  | AScrollTop
  | AScrollBottom
  | AScrollLineUp
  | AScrollLineDown
  | ACursorLineStart
  | ACursorLineEnd
  | ADeleteWordLeft
  | ABackspace
  | ADelete
  | AInsertNewline
  | ASubmit

datatype key_code =
    KChar nat
  | KF nat
  | KEsc | KPageUp | KPageDown | KHome | KEnd | KUp | KDown | KLeft | KRight
  | KTab | KBackTab | KBackspace | KDelete | KEnter | KOther nat

text \<open>The modifiers are the bits of a byte.\<close>

abbreviation (input) no_mods :: "8 word" where "no_mods \<equiv> 0"
abbreviation (input) shift :: "8 word" where "shift \<equiv> 1"
abbreviation (input) control :: "8 word" where "control \<equiv> 2"
abbreviation (input) alt :: "8 word" where "alt \<equiv> 4"
abbreviation (input) super :: "8 word" where "super \<equiv> 8"

type_synonym key_event = "key_code \<times> 8 word"

record action_definition =
  ad_action :: tui_action
  ad_shortcuts :: "key_event list"
  ad_display :: string
  ad_help :: "string option"

definition key_row :: "tui_action \<Rightarrow> key_event list \<Rightarrow> string \<Rightarrow> string option \<Rightarrow> action_definition" where
  "key_row a ks d h = \<lparr>ad_action = a, ad_shortcuts = ks, ad_display = d, ad_help = h\<rparr>"

definition ord_of :: "char \<Rightarrow> nat" where
  "ord_of c = byte c"

definition key_table :: "action_definition list" where
  "key_table = [
     key_row AEscape [(KEsc, no_mods)]
       ''Esc'' (Some (utf8 [20851, 38381, 24377, 23618, 32, 47, 32, 36864, 20986])),
     key_row AToggleHelp [(KF 1, no_mods), (KChar (ord_of CHR ''/''), control)]
       ''F1 / Ctrl+/'' (Some (utf8 [25171, 24320, 47, 20851, 38381, 24110, 21161])),
     key_row APageUp [(KPageUp, no_mods)]
       ''PageUp'' (Some (utf8 [23545, 35805, 47, 23457, 25209, 21521, 19978, 32763, 39029])),
     key_row APageDown [(KPageDown, no_mods)]
       ''PageDown'' (Some (utf8 [23545, 35805, 47, 23457, 25209, 21521, 19979, 32763, 39029])),
     key_row AToggleToolDetails [(KChar (ord_of CHR ''t''), control)]
       ''Ctrl+T'' (Some (utf8 [23637, 24320, 47, 25910, 36215, 24037, 20855, 35814, 24773])),
     key_row AClearInput [(KChar (ord_of CHR ''u''), control)]
       ''Ctrl+U'' None,
     key_row AClearQueue [(KChar (ord_of CHR ''k''), control)]
       ''Ctrl+K'' (Some (utf8 [28165, 31354, 25490, 38431, 28040, 24687])),
     key_row ACancelTurn [(KChar (ord_of CHR ''c''), control)]
       ''Ctrl+C'' (Some (utf8 [21462, 28040, 24403, 21069, 35831, 27714])),
     key_row AScrollTop [(KHome, control)]
       ''Ctrl+Home'' None,
     key_row AScrollBottom [(KEnd, control)]
       ''Ctrl+End'' (Some (utf8 [22238, 21040, 26368, 26032, 28040, 24687])),
     key_row AScrollLineUp [(KUp, control)]
       (utf8 [67, 116, 114, 108, 43, 8593]) None,
     key_row AScrollLineDown [(KDown, control)]
       (utf8 [67, 116, 114, 108, 43, 8595]) None,
     key_row ACursorWordLeft [(KLeft, control), (KLeft, alt)]
       (utf8 [67, 116, 114, 108, 47, 65, 108, 116, 43, 8592]) None,
     key_row ACursorWordRight [(KRight, control), (KRight, alt)]
       (utf8 [67, 116, 114, 108, 47, 65, 108, 116, 43, 8594]) None,
     key_row ACursorLeft [(KLeft, no_mods)]
       (utf8 [8592]) None,
     key_row ACursorRight [(KRight, no_mods)]
       (utf8 [8594]) None,
     key_row APrevious [(KUp, no_mods)]
       (utf8 [8593]) (Some (utf8 [19978, 19968, 26465, 36755, 20837, 32, 47, 32, 19978, 19968, 39033])),
     key_row ANext [(KDown, no_mods)]
       (utf8 [8595]) (Some (utf8 [19979, 19968, 26465, 36755, 20837, 32, 47, 32, 19979, 19968, 39033])),
     key_row AComplete [(KTab, no_mods), (KBackTab, no_mods), (KBackTab, shift)]
       ''Tab'' (Some (utf8 [34917, 20840, 26012, 26464, 21629, 20196])),
     key_row ACursorLineStart [(KHome, no_mods), (KChar (ord_of CHR ''a''), control)]
       ''Home / Ctrl+A'' None,
     key_row ACursorLineEnd [(KEnd, no_mods), (KChar (ord_of CHR ''e''), control)]
       ''End / Ctrl+E'' None,
     key_row ADeleteWordLeft [(KBackspace, control), (KBackspace, alt), (KChar (ord_of CHR ''w''), control)]
       ''Ctrl+W'' None,
     key_row ABackspace [(KBackspace, no_mods)]
       ''Backspace'' None,
     key_row ADelete [(KDelete, no_mods), (KChar (ord_of CHR ''d''), control)]
       ''Delete / Ctrl+D'' None,
     key_row AInsertNewline [(KEnter, alt), (KChar (ord_of CHR ''j''), control)]
       ''Alt+Enter / Ctrl+J'' (Some (utf8 [25554, 20837, 25442, 34892])),
     key_row ASubmit [(KEnter, no_mods)]
       ''Enter'' (Some (utf8 [21457, 36865, 28040, 24687, 32, 47, 32, 30830, 35748]))]"

text \<open>The terminal reports a capital letter with the shift key; the shortcuts ignore it.\<close>

fun shortcut_matches :: "key_event \<Rightarrow> key_event \<Rightarrow> bool" where
  "shortcut_matches (KChar c, m) (k, pressed) = (k = KChar c \<and> m = pressed AND NOT shift)"
| "shortcut_matches (c, m) (k, pressed) = (k = c \<and> m = pressed)"

definition resolve_key :: "key_event \<Rightarrow> tui_action option" where
  "resolve_key e =
     map_option ad_action (find (\<lambda>d. list_ex (\<lambda>s. shortcut_matches s e) (ad_shortcuts d)) key_table)"

definition approval_decision :: "key_event \<Rightarrow> bool option" where
  "approval_decision e =
     (if snd e AND (control OR alt OR super) \<noteq> 0 then None
      else if fst e = KChar (ord_of CHR ''y'') \<or> fst e = KChar (ord_of CHR ''Y'') then Some True
      else if fst e = KChar (ord_of CHR ''n'') \<or> fst e = KChar (ord_of CHR ''N'') \<or> fst e = KEnter then Some False
      else None)"

definition help_entries :: "(string \<times> string) list" where
  "help_entries = List.map_filter (\<lambda>d. map_option (Pair (ad_display d)) (ad_help d)) key_table"

section \<open>No shortcut hides another\<close>

definition key_pairs :: "(key_event \<times> tui_action) list" where
  "key_pairs = concat (map (\<lambda>d. map (\<lambda>s. (s, ad_action d)) (ad_shortcuts d)) key_table)"

lemma key_pairs_distinct: "distinct (map fst key_pairs)"
  by (simp add: key_pairs_def key_table_def key_row_def ord_of_def byte_def)

text \<open>An event without the shift key behind a letter.\<close>

definition key_norm :: "key_event \<Rightarrow> key_event" where
  "key_norm e = (case fst e of KChar c \<Rightarrow> (KChar c, snd e AND NOT shift) | k \<Rightarrow> (k, snd e))"

lemma matches_norm: "shortcut_matches s e \<longleftrightarrow> s = key_norm e"
  by (cases "(s, e)" rule: shortcut_matches.cases) (auto simp: key_norm_def split: key_code.splits)

lemma resolve_pairs:
  "map_option ad_action (find (\<lambda>d. list_ex (\<lambda>s. s = k) (ad_shortcuts d)) ds) =
   map_of (concat (map (\<lambda>d. map (\<lambda>s. (s, ad_action d)) (ad_shortcuts d)) ds)) k"
proof (induction ds)
  case (Cons d ds)
  have "map_of (map (\<lambda>s. (s, ad_action d)) ks) k = (if k \<in> set ks then Some (ad_action d) else None)" for ks
    by (induction ks) auto
  with Cons show ?case by (auto simp: list_ex_iff map_add_def)
qed simp

text \<open>
  The order of the table does not matter: a key event means an action exactly when the event,
  without the shift key behind a letter, is one of the shortcuts listed for that action, so no
  entry hides another and no event means two actions.
\<close>

theorem keys_unambiguous: "resolve_key e = Some a \<longleftrightarrow> (key_norm e, a) \<in> set key_pairs"
proof -
  have "resolve_key e = map_of key_pairs (key_norm e)"
    by (simp add: resolve_key_def matches_norm key_pairs_def resolve_pairs)
  then show ?thesis by (simp add: key_pairs_distinct)
qed

end
