(* ===== verification/Daemon_System.thy ===== *)
theory Daemon_System
  imports Handlers
begin

text \<open>
  The daemon as a system of concurrent chat handlers: each handler moves from phase to phase,
  in any order with the others, with cancellations, answers to interactions, the other writes
  of the run store and the shutdown. On it: a run is executed at most once, every request gets
  one answer, the answer agrees with the record, and the subtree a cancellation reaches.
\<close>

section \<open>The step relation\<close>

text \<open>One step of a handler: the frames it sends and the phase it reaches.\<close>

inductive chat_step :: "phase \<Rightarrow> 'p daemon \<Rightarrow> server_frame list \<times> phase \<Rightarrow> 'p daemon \<Rightarrow> bool" where
  register: "chat_register c s = (res, s') \<Longrightarrow> chat_step (Registering c) s res s'"
| poll: "chat_poll err_text now c s = (res, s') \<Longrightarrow> chat_step (Polling c) s res s'"
| wake: "n < dm_wakes s \<or> is_cancelled (ch_key c) s \<Longrightarrow> chat_step (Queueing c n) s ([], Polling c) s"
| leave: "dm_shutdown s \<Longrightarrow> chat_shutdown c s = (res, s') \<Longrightarrow> chat_step (Queueing c n) s res s'"
| prepare: "chat_prepare now restore_route capable c s = (res, s') \<Longrightarrow> chat_step (Preparing c) s res s'"
| event: "publish_update render err_text now (ch_key c) (UEvent k data None None) s = (fs, s') \<Longrightarrow>
    chat_step (Turning c) s (fs, Turning c) s'"
| commit: "chat_commit err_text now result c s = (res, s') \<Longrightarrow> chat_step (Turning c) s res s'"
| close: "chat_close render err_text now c rec r s = (res, s') \<Longrightarrow> chat_step (Closing c rec r) s res s'"

inductive_cases chat_stepE: "chat_step ph s res s'"
inductive_simps chat_step_Queueing: "chat_step (Queueing c n) s res s'"
inductive_simps chat_step_Ended: "chat_step Ended s res s'"

text \<open>\<open>sy_started\<close>: the handlers that have taken a run from the queue, with the run.\<close>

record 'p system =
  sy_daemon :: "'p daemon"
  sy_phase :: "nat \<Rightarrow> phase option"
  sy_request :: "nat \<Rightarrow> request_id"
  sy_frames :: "nat \<Rightarrow> server_frame list"
  sy_started :: "(nat \<times> string) list"

definition started_by :: "nat \<Rightarrow> phase \<Rightarrow> (nat \<times> string) list" where
  "started_by h ph = (case ph of Preparing c \<Rightarrow> [(h, ch_id c)] | _ \<Rightarrow> [])"

text \<open>The writes of the store that are neither a handler's start of a run nor the recovery of a restart.\<close>

fun other_write :: "store_op \<Rightarrow> bool" where
  "other_write (OpStart now rid) = False"
| "other_write (OpRecover now) = False"
| "other_write _ = True"

inductive sys_step :: "'p system \<Rightarrow> 'p system \<Rightarrow> bool" where
  arrive: "sy_phase y h = None \<Longrightarrow>
    chat_begin err_text now parsed runtime route i (sy_daemon y) = ((fs, ph), s) \<Longrightarrow>
    sys_step y (y\<lparr>sy_daemon := s, sy_phase := (sy_phase y)(h \<mapsto> ph), sy_request := (sy_request y)(h := i),
      sy_frames := (sy_frames y)(h := fs)\<rparr>)"
| handle: "sy_phase y h = Some ph \<Longrightarrow> chat_step ph (sy_daemon y) (fs, ph') s \<Longrightarrow>
    sys_step y (y\<lparr>sy_daemon := s, sy_phase := (sy_phase y)(h \<mapsto> ph'),
      sy_frames := (sy_frames y)(h := sy_frames y h @ fs), sy_started := sy_started y @ started_by h ph'\<rparr>)"
| cancel: "cancel render err_text now listening pending p (sy_daemon y) = (r, s) \<Longrightarrow> sys_step y (y\<lparr>sy_daemon := s\<rparr>)"
| answer: "answer_interaction err_text ap_text ir_json now listening rejected a (sy_daemon y) = (r, s) \<Longrightarrow>
    sys_step y (y\<lparr>sy_daemon := s\<rparr>)"
| storing: "other_write op \<Longrightarrow>
    sys_step y (y\<lparr>sy_daemon := (sy_daemon y)\<lparr>dm_store := store_step sha (dm_store (sy_daemon y)) op\<rparr>\<rparr>)"
| broker: "sys_step y (y\<lparr>sy_daemon := (sy_daemon y)\<lparr>dm_broker := b\<rparr>\<rparr>)"
| notify: "sys_step y (y\<lparr>sy_daemon := notify_delegation_parent render child k (sy_daemon y)\<rparr>)"
| stop: "sys_step y (y\<lparr>sy_daemon := (sy_daemon y)\<lparr>dm_shutdown := True\<rparr>\<rparr>)"

definition new_daemon :: "db \<Rightarrow> 'p daemon" where
  "new_daemon d = \<lparr>dm_store = d, dm_active = (\<lambda>_. None), dm_routes = (\<lambda>_. None), dm_broker = new_broker,
     dm_shutdown = False, dm_wakes = 0\<rparr>"

definition boot :: "db \<Rightarrow> 'p system" where
  "boot d = \<lparr>sy_daemon = new_daemon d, sy_phase = (\<lambda>_. None), sy_request = (\<lambda>_. RNumber 0),
     sy_frames = (\<lambda>_. []), sy_started = []\<rparr>"

text \<open>The systems a daemon reaches that is started on a database of earlier daemons.\<close>

inductive reachable :: "'p system \<Rightarrow> bool" where
  booted: "reachable (boot (daemon_run sha ops))"
| stepped: "reachable y \<Longrightarrow> sys_step y y' \<Longrightarrow> reachable y'"

section \<open>What happens to the store\<close>

text \<open>A run that has left the queue never comes back to it.\<close>

definition begun :: "db \<Rightarrow> string \<Rightarrow> bool" where
  "begun d rid \<longleftrightarrow> (\<exists>sid s. st d rid = Some (sid, s) \<and> s \<noteq> Queued)"

definition keeps :: "db \<Rightarrow> db \<Rightarrow> bool" where
  "keeps d d' \<longleftrightarrow> (log_ok d \<longrightarrow> log_ok d' \<and> (\<forall>rid. begun d rid \<longrightarrow> begun d' rid))"

lemma keeps_refl [simp]: "keeps d d"
  by (simp add: keeps_def)

lemma keeps_trans: "keeps d d' \<Longrightarrow> keeps d' d'' \<Longrightarrow> keeps d d''"
  by (simp add: keeps_def)

lemma begun_moves:
  assumes "moves d d'" "begun d rid"
  shows "begun d' rid"
proof -
  obtain sid s where s: "st d rid = Some (sid, s)" "s \<noteq> Queued" using assms(2) by (auto simp: begun_def)
  with assms(1) obtain t where "st d' rid = Some (sid, t)" "status_edge s t"
    unfolding moves_def by meson
  with s(2) show ?thesis by (cases s) (auto simp: begun_def status_edge_def)
qed

lemma keeps_moves: "log_step d d' \<Longrightarrow> moves d d' \<Longrightarrow> keeps d d'"
  using begun_moves by (auto simp: keeps_def log_step_def)

lemma begun_upd: "st d' = (st d)(rid \<mapsto> (sid, s)) \<Longrightarrow> s \<noteq> Queued \<or> st d rid = None \<Longrightarrow> begun d r \<Longrightarrow> begun d' r"
  by (auto simp: begun_def)

lemma admit_keeps:
  assumes "admit_with_route now sid rq i m rt d = Inr (x, d')"
  shows "keeps d d'"
  using assms
proof (cases rule: admit_Inr)
  case old
  then show ?thesis by simp
next
  case (new rid)
  show ?thesis
    unfolding keeps_def
  proof (intro impI conjI allI)
    assume ok: "log_ok d"
    then show "log_ok d'" using admit_log_step [OF assms] by (simp add: log_step_def)
    have "log_ok (touch_session sid now d)" using ok skel_log_ok [of "touch_session sid now d" d] by (simp add: frame)
    note e = new_run_effect [OF new(3) this]
    fix r assume "begun d r"
    with e show "begun d' r" by (auto simp: frame intro: begun_upd)
  qed
qed

lemma delegate_keeps:
  assumes "admit_delegation now q d = Inr (x, d')"
  shows "keeps d d'"
  using assms
proof (cases rule: delegate_Inr)
  case old
  then show ?thesis by simp
next
  case (new parent)
  show ?thesis
    unfolding keeps_def
  proof (intro impI conjI allI)
    assume ok: "log_ok d"
    then show "log_ok d'" using delegate_log_step [OF assms] by (simp add: log_step_def)
    fix r assume "begun d r"
    with spawn_child_effect [OF new(10) ok] show "begun d' r" by (metis begun_upd)
  qed
qed

lemma append_keeps: "append_event now rid n j d = Inr (x, d') \<Longrightarrow> keeps d d'"
proof -
  assume a: "append_event now rid n j d = Inr (x, d')"
  have "begun d' r" if b: "begun d r" for r
    using a
  proof (rule append_event_Inr)
    fix d1 assume "insert_event now rid n j d = Inr (x, d1)" "d' = d1"
    with b show ?thesis by (auto simp: begun_def dest: st_insert_event)
  next
    fix d1 a
    assume h: "insert_event now rid n j d = Inr (x, d1)" "open_interaction rid a d1 = Inr d'"
    obtain q where q: "find_run d rid = Some q" using h(1) by (auto simp: insert_event_iff)
    have st1: "st d1 = st d" using h(1) by (rule st_insert_event)
    then have "st d' = (st d)(rid \<mapsto> (run_session q, WaitingInteraction))"
      using open_interaction_effect [OF h(2), of "run_session q" "run_status q"] st_find [OF q] by simp
    with b show ?thesis by (auto simp: begun_def)
  qed
  with append_log_step [OF a] show ?thesis by (simp add: keeps_def log_step_def)
qed

lemma start_keeps: "try_start_queued now rid d = Inr (x, d') \<Longrightarrow> keeps d d'"
  by (rule keeps_moves [OF start_log_step start_moves])

lemma remove_keeps: "remove_queued now rid d = Inr (x, d') \<Longrightarrow> keeps d d'"
  by (rule keeps_moves [OF remove_log_step remove_moves])

lemma claim_keeps: "claim_interaction now i sid rid rv a d = Inr (x, d') \<Longrightarrow> keeps d d'"
  by (rule keeps_moves [OF claim_log_step claim_moves])

lemma finish_keeps: "finish now rid s c e d = Inr (x, d') \<Longrightarrow> keeps d d'"
  by (rule keeps_moves [OF finish_log_step finish_moves])

lemmas write_keeps =
  admit_keeps delegate_keeps append_keeps start_keeps remove_keeps claim_keeps finish_keeps
  keeps_moves [OF reconcile_log_step reconcile_moves]
  keeps_moves [OF prepare_log_step calm_moves(1)]
  keeps_moves [OF tool_log_step(1) calm_moves(2)]
  keeps_moves [OF tool_log_step(2) calm_moves(3)]
  keeps_moves [OF tool_log_step(3) calm_moves(4)]
  keeps_moves [OF attempt_log_step(1) calm_moves(5)]
  keeps_moves [OF attempt_log_step(2) calm_moves(6)]
  keeps_moves [OF lease_log_step calm_moves(7)]

lemma other_write_keeps: "other_write op \<Longrightarrow> keeps d (store_step sha d op)"
  by (cases op)
    (auto simp: reserve_delegation_result_def release_delegation_result_def deliver_delegation_result_def
      intro!: committed_inv [where P = "keeps d"] committed_unit_inv [where P = "keeps d"] intro: write_keeps)

text \<open>Starting a run takes it out of the queue.\<close>

lemma start_fresh: "try_start_queued now rid d = Inr (True, d') \<Longrightarrow> \<not> begun d rid \<and> begun d' rid"
proof (erule try_start_True)
  fix r assume r: "find_run d rid = Some r" "run_status r = Queued" "start_run now rid r d = Inr d'"
  show "\<not> begun d rid \<and> begun d' rid"
    using start_run_effect [OF r(3) st_find [OF r(1)]] st_find [OF r(1)] r(2) by (simp add: begun_def)
qed

section \<open>What a handler's step does\<close>

fun is_reply :: "server_frame \<Rightarrow> bool" where
  "is_reply (ResponseF r) = True"
| "is_reply (EventF e) = False"

definition replies :: "server_frame list \<Rightarrow> nat" where
  "replies fs = length (filter is_reply fs)"

lemma replies_simps [simp]:
  "replies [] = 0" "replies (f # fs) = (if is_reply f then 1 else 0) + replies fs"
  "replies (fs @ gs) = replies fs + replies gs"
  by (simp_all add: replies_def)

fun phase_chat :: "phase \<Rightarrow> chat option" where
  "phase_chat (Registering c) = Some c"
| "phase_chat (Polling c) = Some c"
| "phase_chat (Queueing c n) = Some c"
| "phase_chat (Preparing c) = Some c"
| "phase_chat (Turning c) = Some c"
| "phase_chat (Closing c rec r) = Some c"
| "phase_chat Ended = None"

lemma send_result_simps [simp]: "is_reply (send_result i r)" "server_frame_request_id (send_result i r) = i"
  by (cases r; auto simp: send_result_def rpc_success_def rpc_failure_def)+

lemma ch_frame_simps [simp]: "is_reply (ch_frame c r)" "server_frame_request_id (ch_frame c r) = ak_request (ch_key c)"
  by (simp_all add: ch_frame_def)

lemma to_frame_simps [simp]:
  "server_frame_request_id (to_frame i u) = i"
  "is_reply (to_frame i (UTerminal r))" "\<not> is_reply (to_frame i (UEvent k d r0 n))"
proof -
  show "server_frame_request_id (to_frame i u) = i"
    by (cases "(i, u)" rule: to_frame.cases) (auto simp: rpc_success_def rpc_failure_def new_event_def)
  show "is_reply (to_frame i (UTerminal r))" by (cases r) auto
qed simp

lemma state_frames [simp]:
  "dm_store (remove_active k s) = dm_store s" "dm_shutdown (remove_active k s) = dm_shutdown s"
  "dm_store (notify_waiters s) = dm_store s" "dm_shutdown (notify_waiters s) = dm_shutdown s"
  "dm_store (publish_live render k u s) = dm_store s" "dm_shutdown (publish_live render k u s) = dm_shutdown s"
  "dm_store (storage_failed e k s) = dm_store s" "dm_shutdown (storage_failed e k s) = dm_shutdown s"
  "dm_store (cancel_live k s) = dm_store s" "dm_shutdown (cancel_live k s) = dm_shutdown s"
  by (simp_all add: remove_active_def notify_waiters_def publish_live_def storage_failed_def cancel_live_def
      split: option.split)

lemma notify_parent_frame [simp]:
  "dm_store (notify_delegation_parent render child k s) = dm_store s"
  "dm_shutdown (notify_delegation_parent render child k s) = dm_shutdown s"
  by (auto simp: notify_delegation_parent_def Let_def split: sum.split option.split)

text \<open>
  A good step: the store only moves on, at most one answer is sent and exactly one when the handler ends
  outside a shutdown, and every frame carries the id of the request.
\<close>

definition good_step :: "request_id \<Rightarrow> 'p daemon \<Rightarrow> server_frame list \<times> phase \<Rightarrow> 'p daemon \<Rightarrow> bool" where
  "good_step i s res s' \<longleftrightarrow>
     keeps (dm_store s) (dm_store s') \<and> dm_shutdown s' = dm_shutdown s \<and>
     replies (fst res) \<le> 1 \<and> (snd res \<noteq> Ended \<longrightarrow> replies (fst res) = 0) \<and>
     (snd res = Ended \<and> \<not> dm_shutdown s \<longrightarrow> replies (fst res) = 1) \<and>
     (\<forall>f \<in> set (fst res). server_frame_request_id f = i) \<and>
     (\<forall>c. phase_chat (snd res) = Some c \<longrightarrow> ak_request (ch_key c) = i)"

lemma good_update:
  assumes "publish_update render err_text now k u s = (fs, s')"
  shows "keeps (dm_store s) (dm_store s') \<and> dm_shutdown s' = dm_shutdown s \<and>
    (\<forall>f \<in> set fs. server_frame_request_id f = ak_request k) \<and>
    replies fs = (case u of UTerminal r \<Rightarrow> 1 | UEvent e d r n \<Rightarrow> 0)"
proof (cases u)
  case (UTerminal r)
  with assms show ?thesis by (auto simp: publish_update_def deliver_def)
next
  case (UEvent e d r n)
  show ?thesis
  proof (cases "dm_active s k")
    case None
    with assms UEvent show ?thesis by (auto simp: publish_update_def deliver_def new_event_def split: if_splits)
  next
    case (Some l)
    show ?thesis
      using assms UEvent Some append_keeps
      by (auto simp: publish_update_def deliver_def new_event_def Let_def split: if_splits sum.splits)
  qed
qed

lemma good_completion:
  assumes "publish_committed_completion render k content s = (fs, s')"
  shows "dm_store s' = dm_store s \<and> dm_shutdown s' = dm_shutdown s \<and>
    (\<forall>f \<in> set fs. server_frame_request_id f = ak_request k) \<and> replies fs = 0"
  using assms by (auto simp: publish_committed_completion_def deliver_def new_event_def Let_def split: option.splits)

lemma good_end:
  "dm_store s' = dm_store s \<Longrightarrow> dm_shutdown s' = dm_shutdown s \<Longrightarrow> is_reply f \<Longrightarrow> server_frame_request_id f = i \<Longrightarrow>
   good_step i s ([f], Ended) s'"
  by (simp add: good_step_def)

lemma good_admit:
  "chat_admit err_text now sid p route i s = (res, s') \<Longrightarrow> good_step i s res s'"
  unfolding chat_admit_def Let_def
  by (auto simp: good_step_def admit_keeps split: if_splits option.splits sum.splits admission.splits)

lemma good_begin: "chat_begin err_text now parsed runtime route i s = (res, s') \<Longrightarrow> good_step i s res s'"
  by (auto simp: chat_begin_def good_end split: if_splits sum.splits dest: good_admit)

lemma good_register: "chat_register c s = (res, s') \<Longrightarrow> good_step (ak_request (ch_key c)) s res s'"
  by (auto simp: chat_register_def Let_def good_step_def split: if_splits)

lemma good_poll: "chat_poll err_text now c s = (res, s') \<Longrightarrow> good_step (ak_request (ch_key c)) s res s'"
  by (auto simp: chat_poll_def good_step_def start_keeps split: if_splits sum.splits bool.splits)

lemma good_give_up: "chat_give_up now c e a s = (res, s') \<Longrightarrow> good_step (ak_request (ch_key c)) s res s'"
  by (auto simp: chat_give_up_def Let_def good_step_def
      intro!: committed_inv [where P = "keeps (dm_store s)"] intro: write_keeps)

lemma good_prepare:
  "chat_prepare now restore_route capable c s = (res, s') \<Longrightarrow> good_step (ak_request (ch_key c)) s res s'"
proof -
  let ?s = "s\<lparr>dm_routes := (dm_routes s)(ch_id c := None)\<rparr>"
  assume a: "chat_prepare now restore_route capable c s = (res, s')"
  have "good_step (ak_request (ch_key c)) ?s res s' \<or> (res, s') = (([], Turning c), ?s)"
    using a by (auto simp: chat_prepare_def Let_def split: sum.splits dest: good_give_up)
  then show ?thesis by (auto simp: good_step_def)
qed

lemma good_commit: "chat_commit err_text now result c s = (res, s') \<Longrightarrow> good_step (ak_request (ch_key c)) s res s'"
  by (auto simp: chat_commit_def Let_def good_step_def intro: write_keeps split: sum.splits)

lemma good_close: "chat_close render err_text now c rec r s = (res, s') \<Longrightarrow> good_step (ak_request (ch_key c)) s res s'"
proof -
  assume a: "chat_close render err_text now c rec r s = (res, s')"
  define s1 where "s1 = (if ch_delegated c then (case read_delegation_in (dm_store s) (ch_id c) of None \<Rightarrow> s
    | Some child \<Rightarrow> notify_delegation_parent render child DelegationTerminal s) else s)"
  obtain f1 s2 where 2: "(case rec_content rec of None \<Rightarrow> ([], s1)
    | Some content \<Rightarrow> publish_committed_completion render (ch_key c) content s1) = (f1, s2)" by fastforce
  obtain f2 s3 where 3: "publish_update render err_text now (ch_key c) (UTerminal r) s2 = (f2, s3)" by fastforce
  have res: "res = (f1 @ f2, Ended)" "s' = notify_waiters (remove_active (ch_key c) s3)"
    using a 2 3 by (simp_all add: chat_close_def Let_def s1_def [symmetric])
  have "dm_store s1 = dm_store s" "dm_shutdown s1 = dm_shutdown s"
    by (auto simp: s1_def split: option.split)
  moreover have "dm_store s2 = dm_store s1 \<and> dm_shutdown s2 = dm_shutdown s1 \<and>
      (\<forall>f \<in> set f1. server_frame_request_id f = ak_request (ch_key c)) \<and> replies f1 = 0"
    using 2 by (auto split: option.splits dest: good_completion)
  ultimately show ?thesis using good_update [OF 3] by (auto simp: res good_step_def)
qed

lemmas good_parts = good_begin good_register good_poll good_prepare good_commit good_close

lemma chat_step_good:
  assumes "chat_step ph s res s'" "phase_chat ph = Some c"
  shows "good_step (ak_request (ch_key c)) s res s'"
  using assms
proof (cases rule: chat_step.cases)
  case (event render err_text now c' k data fs)
  with good_update [OF event(3)] assms(2) show ?thesis by (auto simp: good_step_def)
qed (auto simp: good_step_def chat_shutdown_def dest: good_parts)

text \<open>A run enters its handler's \<open>Preparing\<close> phase from the queue only.\<close>

lemma chat_step_starts:
  assumes "chat_step ph s (fs, Preparing c) s'"
  shows "\<not> begun (dm_store s) (ch_id c) \<and> begun (dm_store s') (ch_id c)"
  using assms
proof (cases rule: chat_step.cases)
  case (poll err_text now c')
  then have "c' = c" "try_start_queued now (ch_id c) (dm_store s) = Inr (True, dm_store s')"
    by (auto simp: chat_poll_def split: if_splits sum.splits bool.splits)
  then show ?thesis using start_fresh by blast
qed (auto simp: chat_register_def chat_shutdown_def chat_prepare_def chat_give_up_def chat_commit_def chat_close_def
      Let_def split: if_splits sum.splits prod.splits)

section \<open>What the control requests do\<close>

lemma cancel_running_frame:
  "cancel_running listening pending run s = (r, s') \<Longrightarrow> dm_store s' = dm_store s \<and> dm_shutdown s' = dm_shutdown s"
  by (auto simp: cancel_running_def split: if_splits option.splits)

lemma cancel_one_keeps:
  assumes "cancel_one render err_text now listening pending p s = (r, s')"
  shows "keeps (dm_store s) (dm_store s') \<and> dm_shutdown s' = dm_shutdown s"
proof -
  consider e where "cancel_target err_text p (dm_store s) = Inl e" | "cancel_target err_text p (dm_store s) = Inr None"
    | run where "cancel_target err_text p (dm_store s) = Inr (Some run)"
    by (metis option.exhaust sum.exhaust)
  then show ?thesis
  proof cases
    case (3 run)
    show ?thesis
    proof (cases "rec_status run = Queued")
      case False
      with 3 assms cancel_running_frame show ?thesis by (fastforce simp: cancel_one_def)
    next
      case True
      consider e where "remove_queued now (rec_run run) (dm_store s) = Inl e"
        | d where "remove_queued now (rec_run run) (dm_store s) = Inr (True, d)"
        | d where "remove_queued now (rec_run run) (dm_store s) = Inr (False, d)"
        by (metis (full_types) prod.exhaust sum.exhaust)
      then show ?thesis
      proof cases
        case (3 d)
        note d = remove_keeps [OF 3]
        let ?s = "s\<lparr>dm_store := d\<rparr>"
        have "(\<exists>run. cancel_running listening pending run ?s = (r, s')) \<or> s' = ?s"
          using assms True 3 \<open>cancel_target err_text p (dm_store s) = Inr (Some run)\<close>
          by (auto simp: cancel_one_def split: sum.splits option.splits)
        with d cancel_running_frame show ?thesis by fastforce
      qed (use assms True 3 in \<open>auto simp: cancel_one_def dest: remove_keeps\<close>)
    qed
  qed (use assms in \<open>auto simp: cancel_one_def\<close>)
qed

lemma cancel_keeps:
  fixes s s' :: "'a daemon"
  assumes "cancel render err_text now listening pending p s = (r, s')"
  shows "keeps (dm_store s) (dm_store s') \<and> dm_shutdown s' = dm_shutdown s"
proof -
  define one where "one = (\<lambda>p (s :: 'a daemon). cancel_one render err_text now listening (pending (dm_broker s)) p s)"
  have one: "keeps (dm_store s) (dm_store (snd (one p s))) \<and> dm_shutdown (snd (one p s)) = dm_shutdown s" for p and s :: "'a daemon"
    unfolding one_def by (rule cancel_one_keeps) (rule prod.collapse [symmetric])
  define target where "target = (\<lambda>c sid. \<lparr>cn_request = None, cn_run = Some c, cn_session = Some sid\<rparr>)"
  have all: "keeps (dm_store s) (dm_store (foldl (\<lambda>s (c, sid). snd (one (target c sid) s)) s ts)) \<and>
      dm_shutdown (foldl (\<lambda>s (c, sid). snd (one (target c sid) s)) s ts) = dm_shutdown s" for s ts
  proof (induction ts arbitrary: s)
    case (Cons x ts)
    obtain c sid where x: "x = (c, sid)" by fastforce
    from Cons.IH [of "snd (one (target c sid) s)"] one [of s "target c sid"] show ?case
      by (auto simp: x intro: keeps_trans)
  qed simp
  obtain r1 s1 where 1: "one p s = (r1, s1)" by fastforce
  have s1: "keeps (dm_store s) (dm_store s1)" "dm_shutdown s1 = dm_shutdown s" using one [of s p] 1 by simp_all
  consider "s' = s1" | ts where "s' = foldl (\<lambda>s (c, sid). snd (one (target c sid) s)) s1 ts"
    using assms 1 by (auto simp: cancel_def Let_def one_def target_def split: sum.splits option.splits)
  then show ?thesis
  proof cases
    case (2 ts)
    show ?thesis unfolding 2 using s1 all [of s1 ts] keeps_trans by blast
  qed (use s1 in simp)
qed

lemma respond_keeps:
  assumes "respond_claimed listening i a (claim_interaction now i sid rid rv a d) d b = (r, d', b')"
  shows "keeps d d'"
  using assms
  by (auto simp: respond_claimed_def Let_def dest: claim_keeps split: option.splits sum.splits if_splits)

lemma close_orphan_keeps: "keeps d (close_orphan now i d)"
  by (auto simp: close_orphan_def intro!: committed_inv [where P = "keeps d"] dest: finish_keeps split: option.splits)

lemma respond_orphan_keeps:
  assumes "respond_claimed listening i a (claim_interaction now i sid rid rv a d) d b = (r, d', b')"
  shows "keeps d (close_orphan t j d')"
  by (rule keeps_trans [OF respond_keeps [OF assms] close_orphan_keeps])

lemma answer_keeps:
  assumes "answer_interaction err_text ap_text ir_json now listening rejected p s = (r, s')"
  shows "keeps (dm_store s) (dm_store s') \<and> dm_shutdown s' = dm_shutdown s"
  using assms
  by (auto simp: answer_interaction_def Let_def
      dest: claim_keeps respond_keeps respond_orphan_keeps
      split: if_splits option.splits sum.splits prod.splits)

section \<open>The invariant\<close>

definition handler_fine :: "bool \<Rightarrow> request_id \<Rightarrow> phase \<Rightarrow> server_frame list \<Rightarrow> bool" where
  "handler_fine stopping i ph fs \<longleftrightarrow>
     replies fs \<le> 1 \<and> (ph \<noteq> Ended \<longrightarrow> replies fs = 0) \<and> (ph = Ended \<and> \<not> stopping \<longrightarrow> replies fs = 1) \<and>
     (\<forall>f \<in> set fs. server_frame_request_id f = i) \<and>
     (\<forall>c. phase_chat ph = Some c \<longrightarrow> ak_request (ch_key c) = i)"

definition handlers_ok :: "'p system \<Rightarrow> bool" where
  "handlers_ok y \<longleftrightarrow>
     (\<forall>h ph. sy_phase y h = Some ph \<longrightarrow>
        handler_fine (dm_shutdown (sy_daemon y)) (sy_request y h) ph (sy_frames y h))"

definition starts_ok :: "db \<Rightarrow> (nat \<times> string) list \<Rightarrow> bool" where
  "starts_ok d started \<longleftrightarrow> log_ok d \<and> distinct (map snd started) \<and> (\<forall>rid \<in> snd ` set started. begun d rid)"

definition system_ok :: "'p system \<Rightarrow> bool" where
  "system_ok y \<longleftrightarrow> starts_ok (dm_store (sy_daemon y)) (sy_started y) \<and> handlers_ok y"

lemma starts_keep: "starts_ok d started \<Longrightarrow> keeps d d' \<Longrightarrow> starts_ok d' started"
  by (simp add: starts_ok_def keeps_def)

lemma starts_new:
  assumes "starts_ok d started" "keeps d d'" "chat_step ph s (fs, ph') s'" "d = dm_store s" "d' = dm_store s'"
  shows "starts_ok d' (started @ started_by h ph')"
proof (cases "\<exists>c. ph' = Preparing c")
  case True
  then obtain c where c: "ph' = Preparing c" by blast
  have "\<not> begun d (ch_id c)" "begun d' (ch_id c)" using chat_step_starts assms(3-5) c by blast+
  with assms(1,2) c show ?thesis by (auto simp: starts_ok_def keeps_def started_by_def)
next
  case False
  then have "started_by h ph' = []" by (simp add: started_by_def split: phase.split)
  with starts_keep [OF assms(1,2)] show ?thesis by simp
qed

lemma fine_stopping: "handler_fine b i ph fs \<Longrightarrow> (b \<Longrightarrow> b') \<Longrightarrow> handler_fine b' i ph fs"
  by (auto simp: handler_fine_def)

lemma fine_first: "good_step i s (fs, ph) s' \<Longrightarrow> handler_fine (dm_shutdown s') i ph fs"
  by (auto simp: handler_fine_def good_step_def)

lemma fine_next:
  assumes "handler_fine b i ph fs" "ph \<noteq> Ended" "good_step i s (gs, ph') s'" "b = dm_shutdown s"
  shows "handler_fine (dm_shutdown s') i ph' (fs @ gs)"
  using assms by (auto simp: handler_fine_def good_step_def)

text \<open>A step of the daemon's state alone.\<close>

lemma system_ok_daemon:
  assumes "system_ok y" "keeps (dm_store (sy_daemon y)) (dm_store s)" "dm_shutdown (sy_daemon y) \<Longrightarrow> dm_shutdown s"
  shows "system_ok (y\<lparr>sy_daemon := s\<rparr>)"
  using assms by (auto simp: system_ok_def handlers_ok_def intro: starts_keep fine_stopping)

lemma system_ok_arrive:
  assumes ok: "system_ok y" and g: "good_step i (sy_daemon y) (fs, ph) s"
  shows "system_ok (y\<lparr>sy_daemon := s, sy_phase := (sy_phase y)(h \<mapsto> ph), sy_request := (sy_request y)(h := i),
      sy_frames := (sy_frames y)(h := fs)\<rparr>)"
proof -
  have k: "keeps (dm_store (sy_daemon y)) (dm_store s)" "dm_shutdown s = dm_shutdown (sy_daemon y)"
    using g by (simp_all add: good_step_def)
  have "handler_fine (dm_shutdown s) i ph fs" using g by (rule fine_first)
  with ok k show ?thesis by (auto simp: system_ok_def handlers_ok_def intro: starts_keep)
qed

lemma system_ok_handle:
  assumes ok: "system_ok y" and ph: "sy_phase y h = Some ph" and st: "chat_step ph (sy_daemon y) (fs, ph') s"
  shows "system_ok (y\<lparr>sy_daemon := s, sy_phase := (sy_phase y)(h \<mapsto> ph'),
      sy_frames := (sy_frames y)(h := sy_frames y h @ fs), sy_started := sy_started y @ started_by h ph'\<rparr>)"
proof -
  have ne: "ph \<noteq> Ended" using st by (auto simp: chat_step_Ended)
  then obtain c where c: "phase_chat ph = Some c" by (cases ph) auto
  have h: "handler_fine (dm_shutdown (sy_daemon y)) (sy_request y h) ph (sy_frames y h)"
    using ok ph by (simp add: system_ok_def handlers_ok_def)
  then have "ak_request (ch_key c) = sy_request y h" using c by (simp add: handler_fine_def)
  then have g: "good_step (sy_request y h) (sy_daemon y) (fs, ph') s" using chat_step_good [OF st c] by simp
  then have k: "keeps (dm_store (sy_daemon y)) (dm_store s)" "dm_shutdown s = dm_shutdown (sy_daemon y)"
    by (simp_all add: good_step_def)
  have "handler_fine (dm_shutdown s) (sy_request y h) ph' (sy_frames y h @ fs)"
    by (rule fine_next [OF h ne g refl])
  moreover have "starts_ok (dm_store s) (sy_started y @ started_by h ph')"
    using ok k(1) st by (intro starts_new) (auto simp: system_ok_def)
  ultimately show ?thesis using ok k by (auto simp: system_ok_def handlers_ok_def)
qed

lemma sys_step_ok: "sys_step y y' \<Longrightarrow> system_ok y \<Longrightarrow> system_ok y'"
proof (induction rule: sys_step.induct)
  case (arrive y h err_text now parsed runtime route i fs ph s)
  then show ?case using good_begin by (blast intro: system_ok_arrive)
next
  case (handle y h ph fs ph' s)
  then show ?case by (blast intro: system_ok_handle)
next
  case (cancel render err_text now listening pending p y r s)
  then show ?case using cancel_keeps by (blast intro: system_ok_daemon)
next
  case (answer err_text ap_text ir_json now listening rejected a y r s)
  then show ?case using answer_keeps by (blast intro: system_ok_daemon)
qed (auto intro!: system_ok_daemon other_write_keeps)

lemma system_reachable_ok: "reachable y \<Longrightarrow> system_ok y"
proof (induction rule: reachable.induct)
  case (booted sha ops)
  have "log_ok (daemon_run sha ops)" using daemon_run_ok [of sha ops] by (simp add: status_ok_def)
  then show ?case by (simp add: system_ok_def starts_ok_def handlers_ok_def boot_def new_daemon_def)
qed (rule sys_step_ok)

section \<open>Properties\<close>

text \<open>
  C1: A run is executed at most once. However requests, their repetitions, cancellations, answers
  and other writes interleave, no run is ever taken from the queue twice, not by two handlers
  and not by one, and a run that was taken is never queued again.
\<close>

theorem run_executed_once:
  assumes "reachable y"
  shows "distinct (map snd (sy_started y)) \<and>
    snd ` set (sy_started y) \<subseteq> {rid. \<exists>sid s. st (dm_store (sy_daemon y)) rid = Some (sid, s) \<and> s \<noteq> Queued}"
  using system_reachable_ok [OF assms] by (auto simp: system_ok_def starts_ok_def begun_def [symmetric])

text \<open>
  C3: One answer per request. A handler never sends two answers; it sends exactly one when it
  ends, unless the daemon is stopping, and every frame it sends carries its request's id.
\<close>

theorem one_answer:
  assumes "reachable y" "sy_phase y h = Some ph"
  shows "replies (sy_frames y h) \<le> 1 \<and> (ph \<noteq> Ended \<longrightarrow> replies (sy_frames y h) = 0) \<and>
    (ph = Ended \<and> \<not> dm_shutdown (sy_daemon y) \<longrightarrow> replies (sy_frames y h) = 1) \<and>
    server_frame_request_id ` set (sy_frames y h) \<subseteq> {sy_request y h}"
  using system_reachable_ok [OF assms(1)] assms(2) by (auto simp: system_ok_def handlers_ok_def handler_fine_def)

end
