(* ===== verification/Daemon_Results.thy ===== *)
theory Daemon_Results
  imports Daemon_System
begin

text \<open>
  What the handlers' steps promise beyond the safety of the whole system: the answer a chat
  request gets agrees with the record of its run, and where a waiting request is left behind.
  It also evaluates the life of one chat request on an empty database.
\<close>

section \<open>The answer and the record\<close>

text \<open>What an answer has to say about the record of its run.\<close>

definition answer_agrees :: "run_record \<Rightarrow> reply \<Rightarrow> bool" where
  "answer_agrees rec r =
     (case rec_status rec of
        Completed \<Rightarrow> (case r of Inr v \<Rightarrow> json_str (json_index ''content'' v) = rec_content rec | Inl _ \<Rightarrow> False)
      | RCancelled \<Rightarrow> r = Inl (request_cancelled, msg_cancelled) \<and> rec_content rec = None
      | RFailed \<Rightarrow> (case r of Inr v \<Rightarrow> False
                   | Inl (code, m) \<Rightarrow> code \<noteq> request_cancelled \<and> rec_error_code rec = Some code \<and>
                       rec_error_message rec = Some m \<and> rec_content rec = None)
      | UnknownAfterRestart \<Rightarrow> r = Inl (- 32002, msg_unknown) \<and> rec_content rec = None
      | _ \<Rightarrow> False)"

lemma chat_response_cases:
  obtains (ok) content where "chat_response e b result run =
      Inr (JObj [(''content'', JStr content), (''run_id'', JStr (rec_run run)), (''turn_id'', JStr (rec_turn run))])"
  | (cancelled) "chat_response e b result run = Inl (request_cancelled, msg_cancelled)"
  | (failed) m where "chat_response e b result run = Inl (internal_error, m)"
proof -
  have "(\<exists>content. chat_response e b result run =
      Inr (JObj [(''content'', JStr content), (''run_id'', JStr (rec_run run)), (''turn_id'', JStr (rec_turn run))])) \<or>
    chat_response e b result run = Inl (request_cancelled, msg_cancelled) \<or>
    (\<exists>m. chat_response e b result run = Inl (internal_error, m))"
    by (auto simp: chat_response_def split: option.split sum.split)
  with that show thesis by blast
qed

lemma finish_moved:
  assumes ok: "log_ok d" and f: "finish now rid s c e d = Inr (rec, d')"
  shows "st d' rid = Some (rec_session rec, rec_status rec) \<and>
    (rec_status rec = s \<and> rec_content rec = c \<and> rec_error_code rec = map_option fst e \<and>
       rec_error_message rec = map_option snd e \<or>
     rec_status rec = effective_status d rid s \<and>
     rec_content rec = (if rec_status rec = Completed then c else None) \<and>
     (rec_status rec \<noteq> UnknownAfterRestart \<longrightarrow>
        rec_error_code rec = map_option fst e \<and> rec_error_message rec = map_option snd e))"
  using f
proof (cases rule: finish_Inr)
  case same
  then show ?thesis using read_run_st [OF same(7)] by simp
next
  case (moved sid s0)
  obtain r where r: "find_run d rid = Some r" using moved(1) by (auto simp: st_def)
  define t where "t = effective_status d rid s"
  define k where "k = (if t = Completed then c else None)"
  define x where "x = (if t = UnknownAfterRestart then Some (- 32002, msg_unknown) else e)"
  note fin = moved(4) [folded t_def, folded k_def x_def]
  have "terminal t" unfolding t_def using moved(3) by (rule effective_terminal)
  from finish_with_row [OF ok r this, of now k x] fin obtain r' where
    r': "find_run d' rid = Some r'" "rec = record_of_run (turn_key (run_rowid r')) r'" "run_status r' = t"
      "run_content r' = k" "run_error_code r' = map_option fst x" "run_error_message r' = map_option snd x"
    by auto
  then have "st d' rid = Some (rec_session rec, rec_status rec)" "rec_status rec = t" "rec_content rec = k"
    "rec_error_code rec = map_option fst x" "rec_error_message rec = map_option snd x"
    by (simp_all add: st_def record_of_run_def)
  then show ?thesis by (simp add: t_def [symmetric] k_def x_def)
qed

text \<open>
  C2: The answer agrees with the record. When a chat handler commits its turn, the status stored
  for the run is the one of the record it goes on with, and the answer it will send is the one of that
  status: the content exactly of a completed run, the error recorded for a failed one, the
  cancellation, or the unknown outcome, whatever the turn itself returned.
\<close>

theorem answer_matches_record:
  assumes "reachable y" "chat_commit err_text now result c (sy_daemon y) = ((fs, Closing c' rec r), s')"
  shows "c' = c \<and> fs = [] \<and> st (dm_store s') (ch_id c) = Some (rec_session rec, rec_status rec) \<and>
    terminal (rec_status rec) \<and> answer_agrees rec r"
proof -
  let ?d = "dm_store (sy_daemon y)"
  define a where "a = chat_response (Option.bind (dm_active (sy_daemon y) (ch_key c)) (\<lambda>l. ac_storage_error (lv_active l)))
    (is_cancelled (ch_key c) (sy_daemon y)) result (ch_run c)"
  obtain d where fin: "finish now (ch_id c) (terminal_status a) (reply_content a) (reply_error a) ?d = Inr (rec, d)"
    and res: "fs = []" "c' = c" "dm_store s' = d"
      "r = (if rec_status rec = UnknownAfterRestart then Inl (- 32002, msg_unknown) else a)"
    using assms(2) by (auto simp: chat_commit_def a_def Let_def split: sum.splits)
  have ok: "log_ok ?d" using system_reachable_ok [OF assms(1)] by (simp add: system_ok_def starts_ok_def)
  note m = finish_moved [OF ok fin]
  note m' = m
  have "terminal (rec_status rec) \<and> answer_agrees rec r"
    using chat_response_cases [of "Option.bind (dm_active (sy_daemon y) (ch_key c)) (\<lambda>l. ac_storage_error (lv_active l))"
        "is_cancelled (ch_key c) (sy_daemon y)" result "ch_run c"]
  proof cases
    case (ok content)
    then have "a = Inr (JObj [(''content'', JStr content), (''run_id'', JStr (rec_run (ch_run c))), (''turn_id'', JStr (rec_turn (ch_run c)))])"
      by (simp add: a_def)
    with m show ?thesis
      by (auto simp: res(4) answer_agrees_def terminal_status_def reply_content_def reply_error_def effective_status_def split: if_split_asm)
  next
    case cancelled
    with m show ?thesis unfolding a_def [symmetric]
      by (auto simp: res(4) answer_agrees_def terminal_status_def reply_content_def reply_error_def effective_status_def split: if_split_asm)
  next
    case (failed m)
    with m' show ?thesis unfolding a_def [symmetric]
      by (auto simp: res(4) answer_agrees_def terminal_status_def reply_content_def reply_error_def effective_status_def
         request_cancelled_def internal_error_def split: if_split_asm)
  qed
  with m res show ?thesis by simp
qed

section \<open>A scenario: two queued requests of one session\<close>

text \<open>One step of handler \<open>h\<close>, as a function; \<open>f\<close> is the part of the handler it executes.\<close>

definition handler_does ::
  "nat \<Rightarrow> (chat \<Rightarrow> 'p daemon \<Rightarrow> (server_frame list \<times> phase) \<times> 'p daemon) \<Rightarrow> 'p system \<Rightarrow> 'p system" where
  "handler_does h f y =
     (case Option.bind (sy_phase y h) phase_chat of
        None \<Rightarrow> y
      | Some c \<Rightarrow>
          let ((fs, ph), s) = f c (sy_daemon y) in
          y\<lparr>sy_daemon := s, sy_phase := (sy_phase y)(h \<mapsto> ph), sy_frames := (sy_frames y)(h := sy_frames y h @ fs),
            sy_started := sy_started y @ started_by h ph\<rparr>)"

definition handler_comes :: "nat \<Rightarrow> request_id \<Rightarrow> chat_params \<Rightarrow> string \<Rightarrow> 'p system \<Rightarrow> 'p system" where
  "handler_comes h i p sid y =
     (let ((fs, ph), s) = chat_begin (\<lambda>_. []) 7 (Inr p) (Inr sid) None i (sy_daemon y) in
      y\<lparr>sy_daemon := s, sy_phase := (sy_phase y)(h \<mapsto> ph), sy_request := (sy_request y)(h := i),
        sy_frames := (sy_frames y)(h := fs)\<rparr>)"

lemma reachable_comes: "reachable y \<Longrightarrow> sy_phase y h = None \<Longrightarrow> reachable (handler_comes h i p sid y)"
  unfolding handler_comes_def Let_def
  by (auto split: prod.split intro: reachable.stepped sys_step.arrive)

lemma reachable_does:
  assumes "reachable y" "sy_phase y h = Some ph" "phase_chat ph = Some c"
    and "\<And>res s. f c (sy_daemon y) = (res, s) \<Longrightarrow> chat_step ph (sy_daemon y) res s"
  shows "reachable (handler_does h f y)"
proof -
  obtain fs ph' s where f: "f c (sy_daemon y) = ((fs, ph'), s)" by (metis prod.collapse)
  from reachable.stepped [OF assms(1) sys_step.handle [OF assms(2) assms(4) [OF f]]] show ?thesis
    by (simp add: handler_does_def assms(2,3) f)
qed

definition small_route :: route_snapshot where
  "small_route = \<lparr>candidates = [], rt_retry_policy = default_retry_policy, rt_timeout_policy = default_timeout_policy,
     token_budget = 0, config_generation = 0\<rparr>"

definition two_requests :: "store_op list" where
  "two_requests = [OpAdmit 5 ''s'' (RNumber 1) ''hi'' Queue (Some small_route), OpAdmit 6 ''s'' (RNumber 2) ''ho'' Queue None]"

definition chatting :: "string \<Rightarrow> chat_params" where
  "chatting m = \<lparr>cp_message = m, cp_session = Some ''s'', cp_mode = None\<rparr>"

text \<open>Both requests come again after a restart, register, and look at the queue.\<close>

definition both_come :: "unit system" where
  "both_come = handler_comes 1 (RNumber 2) (chatting ''ho'') ''s''
     (handler_comes 0 (RNumber 1) (chatting ''hi'') ''s'' (boot (daemon_run id two_requests)))"

definition both_wait :: "unit system" where
  "both_wait = handler_does 1 chat_register (handler_does 0 chat_register both_come)"

definition first_runs :: "unit system" where
  "first_runs = handler_does 1 (chat_poll (\<lambda>_. []) 9) (handler_does 0 (chat_poll (\<lambda>_. []) 8) both_wait)"

definition first_lost :: "unit system" where
  "first_lost = handler_does 0 (chat_prepare 10 (\<lambda>_. Inl ''gone'') (Inr ())) first_runs"

lemma not_blank_hi: "\<not> is_blank ''hi''" "\<not> is_blank ''ho''"
  by (simp_all add: not_blankI ascii_ws_def byte_def ws2_def ws3_def)

definition chat_of :: "nat \<Rightarrow> chat" where
  "chat_of n = \<lparr>ch_key = \<lparr>ak_session = ''s'', ak_request = RNumber (of_nat n)\<rparr>,
     ch_run = \<lparr>rec_run = run_key n, rec_turn = turn_key n, rec_session = ''s'', rec_request = RNumber (of_nat n),
       rec_status = Queued, rec_last_seq = 1, rec_content = None, rec_error_code = None, rec_error_message = None\<rparr>,
     ch_delegated = False\<rparr>"

lemma both_come_is:
  "sy_daemon both_come = new_daemon (daemon_run id two_requests)"
  "sy_phase both_come = [0 \<mapsto> Registering (chat_of 1), 1 \<mapsto> Registering (chat_of 2)]"
  "sy_frames both_come = (\<lambda>_. [])" "sy_started both_come = []"
  "sy_request both_come = (\<lambda>_. RNumber 0)(0 := RNumber 1, 1 := RNumber 2)"
  by (simp_all add: both_come_def handler_comes_def boot_def new_daemon_def two_requests_def daemon_step_def chatting_def
    chat_begin_def chat_admit_def not_blank_hi delegation_for_session_def admission_mode_of_def store_eval
    chat_of_def turn_key_def dec_int_def fun_eq_iff)

lemma two_requests_store:
  obtains d2 rec d3 d4 rec' d5 where
    "try_start_queued 8 (run_key 1) (daemon_run id two_requests) = Inr (True, d2)"
    "try_start_queued 9 (run_key 2) d2 = Inr (False, d2)"
    "route_snapshot_of d2 (run_key 1) = Some small_route"
    "finish 10 (run_key 1) RFailed None (Some (- 32002, msg_route_lost)) d2 = Inr (rec, d3)"
    "try_start_queued 11 (run_key 2) d3 = Inr (True, d4)"
    "finish 12 (run_key 1) Completed (Some ''yo'') None d2 = Inr (rec', d5)" "rec_status rec' = Completed"
proof -
  define d2 where "d2 = (case try_start_queued 8 (run_key 1) (daemon_run id two_requests) of Inr (b, d) \<Rightarrow> d)"
  define d3 where "d3 = (case finish 10 (run_key 1) RFailed None (Some (- 32002, msg_route_lost)) d2 of Inr (b, d) \<Rightarrow> d)"
  note ev = two_requests_def daemon_step_def store_eval
  have 1: "try_start_queued 8 (run_key 1) (daemon_run id two_requests) = Inr (True, d2)"
    "try_start_queued 9 (run_key 2) d2 = Inr (False, d2)"
    "route_snapshot_of d2 (run_key 1) = Some small_route"
    by (simp_all add: d2_def ev)
  have 2: "\<exists>rec. finish 10 (run_key 1) RFailed None (Some (- 32002, msg_route_lost)) d2 = Inr (rec, d3)"
    by (simp add: d3_def d2_def ev)
  have 3: "\<exists>d4. try_start_queued 11 (run_key 2) d3 = Inr (True, d4)"
    by (simp add: d3_def d2_def ev)
  have 4: "\<exists>rec d5. finish 12 (run_key 1) Completed (Some ''yo'') None d2 = Inr (rec, d5) \<and> rec_status rec = Completed"
    by (simp add: d2_def ev)
  from 1 2 3 4 that show thesis by blast
qed

text \<open>The scenario on the handlers: the first one is started and loses its route; the second one waits.\<close>

lemma scenario:
  obtains s rec t where "reachable first_runs" "reachable first_lost"
    "sy_phase first_runs 0 = Some (Preparing (chat_of 1))" "sy_started first_runs = [(0, run_key 1)]"
    "chat_prepare 10 (\<lambda>_. Inl ''gone'') (Inr ()) (chat_of 1) (sy_daemon first_runs) =
       (([ch_frame (chat_of 1) (Inl (internal_error, msg_route_lost @ '': gone''))], Ended), sy_daemon first_lost)"
    "sy_phase first_lost 0 = Some Ended"
    "sy_phase first_lost 1 = Some (Queueing (chat_of 2) 2)" "dm_wakes (sy_daemon first_runs) = 2"
    "\<not> dm_shutdown (sy_daemon first_runs)" "\<not> is_cancelled (ch_key (chat_of 2)) (sy_daemon first_runs)"
    "try_start_queued 11 (run_key 2) (dm_store (sy_daemon first_lost)) = Inr (True, s)" "\<not> dm_shutdown (sy_daemon first_lost)"
    "chat_commit (\<lambda>_. []) 12 (Inr ''yo'') (chat_of 1) (sy_daemon first_runs) =
       (([], Closing (chat_of 1) rec (Inr (JObj [(''content'', JStr ''yo''), (''run_id'', JStr (run_key 1)),
          (''turn_id'', JStr (turn_key 1))]))), t)"
    "rec_status rec = Completed"
    "try_start_queued 8 (run_key 1) (daemon_run id two_requests) = Inr (True, dm_store (sy_daemon first_runs))"
    "dm_active (sy_daemon first_runs) (ch_key (chat_of 1)) =
       Some \<lparr>lv_active = with_origin (new_active (run_key 1)), lv_cancelled = False\<rparr>"
proof -
  obtain d2 rec d3 d4 rec' d5 where d:
    "try_start_queued 8 (run_key 1) (daemon_run id two_requests) = Inr (True, d2)"
    "try_start_queued 9 (run_key 2) d2 = Inr (False, d2)"
    "route_snapshot_of d2 (run_key 1) = Some small_route"
    "finish 10 (run_key 1) RFailed None (Some (- 32002, msg_route_lost)) d2 = Inr (rec, d3)"
    "try_start_queued 11 (run_key 2) d3 = Inr (True, d4)"
    "finish 12 (run_key 1) Completed (Some ''yo'') None d2 = Inr (rec', d5)" "rec_status rec' = Completed"
    by (rule two_requests_store)
  have keys: "ch_id (chat_of n) = run_key n" "ch_key (chat_of 1) \<noteq> ch_key (chat_of 2)" "\<not> ch_delegated (chat_of n)"
    "rec_run (ch_run (chat_of n)) = run_key n" "rec_turn (ch_run (chat_of n)) = turn_key n" for n
    by (simp_all add: chat_of_def ch_id_def)
  note defs = first_lost_def first_runs_def both_wait_def handler_does_def both_come_is new_daemon_def
    chat_register_def chat_poll_def chat_prepare_def chat_give_up_def is_cancelled_def notify_waiters_def
    remove_active_def committed_def started_by_def Let_def
  have facts: "sy_phase first_runs 0 = Some (Preparing (chat_of 1))" "sy_started first_runs = [(0, run_key 1)]"
    "sy_phase first_lost 0 = Some Ended" "sy_phase first_lost 1 = Some (Queueing (chat_of 2) 2)"
    using d keys by (simp_all add: defs keys)
  have waits: "dm_wakes (sy_daemon first_runs) = 2" "\<not> dm_shutdown (sy_daemon first_runs)"
    "\<not> is_cancelled (ch_key (chat_of 2)) (sy_daemon first_runs)"
    using d keys by (simp_all add: defs keys)
  have running: "try_start_queued 8 (run_key 1) (daemon_run id two_requests) = Inr (True, dm_store (sy_daemon first_runs))"
    "dm_active (sy_daemon first_runs) (ch_key (chat_of 1)) =
       Some \<lparr>lv_active = with_origin (new_active (run_key 1)), lv_cancelled = False\<rparr>"
    using d keys by (simp_all add: defs keys)
  have prep: "chat_prepare 10 (\<lambda>_. Inl ''gone'') (Inr ()) (chat_of 1) (sy_daemon first_runs) =
      (([ch_frame (chat_of 1) (Inl (internal_error, msg_route_lost @ '': gone''))], Ended), sy_daemon first_lost)"
    "dm_store (sy_daemon first_lost) = d3" "\<not> dm_shutdown (sy_daemon first_lost)"
    using d keys by (simp_all add: defs keys)
  have com: "\<exists>t. chat_commit (\<lambda>_. []) 12 (Inr ''yo'') (chat_of 1) (sy_daemon first_runs) =
       (([], Closing (chat_of 1) rec' (Inr (JObj [(''content'', JStr ''yo''), (''run_id'', JStr (run_key 1)),
          (''turn_id'', JStr (turn_key 1))]))), t)"
    using d keys
    by (simp add: defs keys chat_commit_def chat_response_def terminal_status_def reply_content_def reply_error_def
        new_active_def with_origin_def json_index_def json_get_def json_str_def)
  have "reachable both_come"
    unfolding both_come_def
    by (intro reachable_comes reachable.booted) (simp_all add: boot_def handler_comes_def split: prod.split)
  then have "reachable (handler_does 0 chat_register both_come)"
    by (rule reachable_does [where ph = "Registering (chat_of 1)"]) (auto simp: both_come_is intro: chat_step.register)
  then have "reachable both_wait"
    unfolding both_wait_def
    by (rule reachable_does [where ph = "Registering (chat_of 2)"])
      (auto simp: both_come_is handler_does_def split: prod.split intro: chat_step.register)
  moreover have "sy_phase both_wait = [0 \<mapsto> Polling (chat_of 1), 1 \<mapsto> Polling (chat_of 2)]"
    using keys(2)
    by (simp add: both_wait_def both_come_is handler_does_def chat_register_def keys new_daemon_def Let_def notify_waiters_def)
  ultimately have "reachable (handler_does 0 (chat_poll (\<lambda>_. []) 8) both_wait)"
    and p1: "sy_phase (handler_does 0 (chat_poll (\<lambda>_. []) 8) both_wait) 1 = Some (Polling (chat_of 2))"
    by (auto intro: chat_step.poll reachable_does [where ph = "Polling (chat_of 1)" and c = "chat_of 1"])
      (simp add: handler_does_def split: prod.split)
  then have runs: "reachable first_runs"
    unfolding first_runs_def
    by (intro reachable_does [OF _ p1]) (auto intro: chat_step.poll)
  then have "reachable first_lost"
    unfolding first_lost_def
    by (rule reachable_does [OF _ facts(1)]) (auto intro: chat_step.prepare)
  with runs facts waits prep d(5,7) com running show thesis using that by fastforce
qed

text \<open>
  Where a waiting request is left behind. When a run that was taken from the queue cannot be
  prepared, its handler ends it and leaves without a notification: no handler that is waiting
  in the queue can move, although the next run of the session could be started.
\<close>

theorem failed_preparation_strands_queue:
  assumes "chat_prepare now restore_route capable c s = ((fs, Ended), s')"
    and "\<not> dm_shutdown s" "\<not> is_cancelled (ch_key b) s" "ch_key b \<noteq> ch_key c" "dm_wakes s \<le> n"
  shows "\<not> chat_step (Queueing b n) s' res s''"
proof -
  have "dm_shutdown s' = dm_shutdown s \<and> dm_wakes s' = dm_wakes s \<and> dm_active s' = (dm_active s)(ch_key c := None)"
    using assms(1) by (auto simp: chat_prepare_def chat_give_up_def remove_active_def Let_def split: sum.splits)
  with assms(2-5) show ?thesis
    by (auto simp: chat_step_Queueing chat_shutdown_def is_cancelled_def)
qed

theorem failed_preparation_strands_queue_witness:
  "reachable first_lost \<and> sy_phase first_lost 1 = Some (Queueing (chat_of 2) 2) \<and> sy_phase first_lost 0 = Some Ended \<and>
   (\<exists>d. try_start_queued 11 (ch_id (chat_of 2)) (dm_store (sy_daemon first_lost)) = Inr (True, d)) \<and>
   \<not> (\<exists>res s. chat_step (Queueing (chat_of 2) 2) (sy_daemon first_lost) res s)"
proof (rule scenario)
  fix d
  assume s: "reachable first_lost" "sy_phase first_lost 0 = Some Ended" "sy_phase first_lost 1 = Some (Queueing (chat_of 2) 2)"
    "chat_prepare 10 (\<lambda>_. Inl ''gone'') (Inr ()) (chat_of 1) (sy_daemon first_runs) =
       (([ch_frame (chat_of 1) (Inl (internal_error, msg_route_lost @ '': gone''))], Ended), sy_daemon first_lost)"
    "dm_wakes (sy_daemon first_runs) = 2" "\<not> dm_shutdown (sy_daemon first_runs)"
    "\<not> is_cancelled (ch_key (chat_of 2)) (sy_daemon first_runs)"
    "try_start_queued 11 (run_key 2) (dm_store (sy_daemon first_lost)) = Inr (True, d)"
  have k: "ch_key (chat_of 2) \<noteq> ch_key (chat_of 1)" "ch_id (chat_of 2) = run_key 2"
    by (simp_all add: chat_of_def ch_id_def)
  from failed_preparation_strands_queue [OF s(4,6,7) k(1), of 2] s k(2) show ?thesis by auto
qed

theorem answer_matches_record_witness:
  "\<exists>rec r s. reachable first_runs \<and>
     chat_commit (\<lambda>_. []) 12 (Inr ''yo'') (chat_of 1) (sy_daemon first_runs) = (([], Closing (chat_of 1) rec r), s) \<and>
     st (dm_store s) (run_key 1) = Some (rec_session rec, Completed) \<and> rec_content rec = Some ''yo'' \<and> answer_agrees rec r"
proof (rule scenario)
  fix rec s
  assume s: "reachable first_runs" "rec_status rec = Completed"
    "chat_commit (\<lambda>_. []) 12 (Inr ''yo'') (chat_of 1) (sy_daemon first_runs) =
       (([], Closing (chat_of 1) rec (Inr (JObj [(''content'', JStr ''yo''), (''run_id'', JStr (run_key 1)),
          (''turn_id'', JStr (turn_key 1))]))), s)"
  have "ch_id (chat_of 1) = run_key 1" by (simp add: chat_of_def ch_id_def)
  with answer_matches_record [OF s(1,3)] s show ?thesis
    by (auto simp: answer_agrees_def json_index_def json_get_def json_str_def)
qed

theorem run_executed_once_witness:
  "reachable first_runs \<and> sy_started first_runs = [(0, run_key 1)] \<and> (\<exists>sid s.
     st (dm_store (sy_daemon first_runs)) (run_key 1) = Some (sid, s) \<and> s \<noteq> Queued)"
proof (rule scenario)
  assume "reachable first_runs" "sy_started first_runs = [(0, run_key 1)]"
  with run_executed_once [of first_runs] show ?thesis by auto
qed

theorem one_answer_witness:
  "reachable first_lost \<and> sy_phase first_lost 0 = Some Ended \<and> replies (sy_frames first_lost 0) = 1"
proof (rule scenario)
  assume s: "reachable first_lost" "sy_phase first_lost 0 = Some Ended" "\<not> dm_shutdown (sy_daemon first_lost)"
  with one_answer [OF s(1,2)] show ?thesis by simp
qed

end
