(* ===== verification/Subscribe.thy ===== *)
theory Subscribe
  imports Daemon_Results
begin

text \<open>
  Watching a request (\<open>handle_subscribe\<close> in \<open>src/daemon/handlers.rs\<close>): the events of its run
  stored after a number, and then the updates the run publishes, received through a broadcast
  channel. The handler looks at the daemon four times, so the state at each look is an argument:
  the table of active requests and its keys, the store when the run is read, the pending
  approvals, the store when the events are read.
\<close>

section \<open>The handler\<close>

record subscribe_params =
  sb_request :: request_id
  sb_session :: "string option"
  sb_after :: "nat option"

fun request_json :: "request_id \<Rightarrow> json" where
  "request_json (RNumber n) = JInt (uint n)"
| "request_json (RString s) = JStr s"

definition run_json :: "run_record \<Rightarrow> json" where
  "run_json r = JObj [(''run_id'', JStr (rec_run r)), (''turn_id'', JStr (rec_turn r)),
     (''session_id'', JStr (rec_session r)), (''request_id'', request_json (rec_request r)),
     (''status'', jstatus (rec_status r)), (''last_seq'', JInt (int (rec_last_seq r))),
     (''content'', json_opt JStr (rec_content r)), (''error_code'', json_opt JInt (rec_error_code r)),
     (''error_message'', json_opt JStr (rec_error_message r))]"

definition msg_not_unique :: string where
  "msg_not_unique =
     utf8 [114, 101, 113, 117, 101, 115, 116, 95, 105, 100, 32, 36328, 32, 115, 101, 115, 115,
     105, 111, 110, 32, 19981, 21807, 19968, 65307, 35831, 25351, 23450, 32, 115, 101, 115, 115,
     105, 111, 110, 95, 105, 100]"

definition msg_not_running :: string where
  "msg_not_running = utf8 [35831, 27714, 26410, 22312, 25191, 34892]"

definition msg_no_executor :: string where
  "msg_no_executor = utf8 [35831, 27714, 27809, 26377, 27963, 21160, 25191, 34892, 20307]"

definition msg_request_over :: string where
  "msg_request_over = utf8 [35831, 27714, 24050, 32467, 26463]"

definition msg_run_status :: string where
  "msg_run_status = utf8 [114, 117, 110, 32, 29366, 24577, 58, 32]"

text \<open>\<open>serde\<close>'s reading of an event kind.\<close>

definition kind_of_name :: "string \<Rightarrow> event_kind option" where
  "kind_of_name n = find (\<lambda>k. kind_name k = n)
     [TurnStarted, ThinkingDelta, ThinkingFinished, TextDelta, ToolStarted, ToolFinished,
      ApprovalRequired, TurnCompleted, DelegationSpawned, DelegationTerminal]"

definition stored_event_update :: "event_row \<Rightarrow> update option" where
  "stored_event_update e =
     map_option (\<lambda>k. UEvent k (ev_data e) (Some (ev_run e)) (Some (ev_seq e)))
       (if ev_name e = ''assistant_content'' then Some TurnCompleted else kind_of_name (ev_name e))"

definition is_resolved_approval :: "string list \<Rightarrow> update \<Rightarrow> bool" where
  "is_resolved_approval pending u =
     (case u of
        UTerminal r \<Rightarrow> False
      | UEvent k data r n \<Rightarrow> k = ApprovalRequired \<and>
          (case json_str (json_index ''id'' (json_index ''approval'' data)) of
             None \<Rightarrow> False
           | Some i \<Rightarrow> i \<notin> set pending))"

text \<open>
  The active requests that match; each with its run and the receiver, which starts after the
  updates published so far.
\<close>

definition sub_matches ::
  "active_key list \<Rightarrow> subscribe_params \<Rightarrow> 'p daemon \<Rightarrow> (active_key \<times> string \<times> nat) list" where
  "sub_matches keys p s =
     List.map_filter (\<lambda>k. map_option (\<lambda>l. (k, ac_run (lv_active l), snd (subscribe (lv_active l)))) (dm_active s k))
       (filter (\<lambda>k. ak_request k = sb_request p \<and>
          (case sb_session p of None \<Rightarrow> True | Some sid \<Rightarrow> ak_session k = sid)) keys)"

definition sub_run ::
  "(active_key \<times> string \<times> nat) option \<Rightarrow> subscribe_params \<Rightarrow> db \<Rightarrow> store_error + run_record option" where
  "sub_run m p d =
     (case m of
        Some (k, rid, n) \<Rightarrow> read_run_in d rid
      | None \<Rightarrow> (case sb_session p of Some sid \<Rightarrow> find_request d sid (sb_request p) | None \<Rightarrow> Inr None))"

definition resync :: "request_id \<Rightarrow> run_record option \<Rightarrow> nat \<Rightarrow> server_frame" where
  "resync i snapshot cursor =
     ResponseF (rpc_failure_data i request_conflict ''resync_required''
       (JObj [(''kind'', JStr ''resync_required''), (''snapshot'', json_opt run_json snapshot),
              (''last_seq'', json_opt (\<lambda>r. JInt (int (rec_last_seq r))) snapshot), (''cursor'', JInt (int cursor)),
              (''next_method'', JStr ''run.events'')]))"

definition not_subscribed :: "request_id \<Rightarrow> subscribe_params \<Rightarrow> string option \<Rightarrow> string \<Rightarrow> server_frame" where
  "not_subscribed i p rid reason =
     send_result i (Inr (JObj ([(''subscribed'', JBool False), (''request_id'', request_json (sb_request p))] @
       (case rid of None \<Rightarrow> [] | Some r \<Rightarrow> [(''run_id'', JStr r)]) @ [(''reason'', JStr reason)])))"

definition status_debug :: "run_status \<Rightarrow> string" where
  "status_debug s = (case s of
     Queued \<Rightarrow> ''Queued'' | Running \<Rightarrow> ''Running'' | WaitingInteraction \<Rightarrow> ''WaitingInteraction''
   | Completed \<Rightarrow> ''Completed'' | RFailed \<Rightarrow> ''Failed'' | RCancelled \<Rightarrow> ''Cancelled''
   | UnknownAfterRestart \<Rightarrow> ''UnknownAfterRestart'')"

text \<open>The answer for a run that has ended.\<close>

definition ended_frame :: "request_id \<Rightarrow> run_record \<Rightarrow> server_frame" where
  "ended_frame i run =
     (if rec_status run = Completed then send_result i (Inr (completed_json run))
      else send_result i (Inl
        (case rec_error_code run of None \<Rightarrow> internal_error | Some c \<Rightarrow> c,
         case rec_error_message run of None \<Rightarrow> msg_run_status @ status_debug (rec_status run) | Some m \<Rightarrow> m)))"

text \<open>
  What the receiver yields: an update; that it is more than 1024 updates behind (the store is
  read again then); that the request is gone and everything was received.
\<close>

datatype received = Got update | Lagged db | NoMore

fun sub_follow :: "request_id \<Rightarrow> subscribe_params \<Rightarrow> string \<Rightarrow> nat \<Rightarrow> received list \<Rightarrow> server_frame list" where
  "sub_follow i p rid cursor [] = []"
| "sub_follow i p rid cursor (NoMore # rest) = [not_subscribed i p None msg_request_over]"
| "sub_follow i p rid cursor (Lagged d # rest) =
     [resync i (case read_run_in d rid of Inr (Some r) \<Rightarrow> Some r | _ \<Rightarrow> None) cursor]"
| "sub_follow i p rid cursor (Got (UTerminal r) # rest) = [to_frame i (UTerminal r)]"
| "sub_follow i p rid cursor (Got (UEvent k data r None) # rest) =
     to_frame i (UEvent k data r None) # sub_follow i p rid cursor rest"
| "sub_follow i p rid cursor (Got (UEvent k data r (Some n)) # rest) =
     (if n \<le> cursor then sub_follow i p rid cursor rest
      else to_frame i (UEvent k data r (Some n)) # sub_follow i p rid n rest)"

definition replay_frames :: "request_id \<Rightarrow> string list \<Rightarrow> event_row list \<Rightarrow> server_frame list" where
  "replay_frames i pending evs =
     map (to_frame i) (filter (\<lambda>u. \<not> is_resolved_approval pending u) (List.map_filter stored_event_update evs))"

definition end_of :: "nat \<Rightarrow> event_row list \<Rightarrow> nat" where
  "end_of cursor evs = (if evs = [] then cursor else ev_seq (last evs))"

definition sub_cursor :: "subscribe_params \<Rightarrow> nat" where
  "sub_cursor p = (case sb_after p of None \<Rightarrow> 0 | Some n \<Rightarrow> n)"

definition sub_events ::
  "request_id \<Rightarrow> subscribe_params \<Rightarrow> (active_key \<times> string \<times> nat) option \<Rightarrow> run_record \<Rightarrow> string list \<Rightarrow> db \<Rightarrow>
   received list \<Rightarrow> server_frame list" where
  "sub_events i p m run pending d got =
     (let cursor = sub_cursor p;
          evs = events_after d (rec_run run) cursor 1000
      in if length evs = 1000 \<and> ev_seq (last evs) < rec_last_seq run then [resync i (Some run) (end_of cursor evs)]
         else replay_frames i pending evs @
           (if terminal (rec_status run) then [ended_frame i run]
            else case m of
              None \<Rightarrow> [not_subscribed i p (Some (rec_run run)) msg_no_executor]
            | Some _ \<Rightarrow> sub_follow i p (rec_run run) (end_of cursor evs) got))"

definition handle_subscribe ::
  "(store_error \<Rightarrow> string) \<Rightarrow> request_id \<Rightarrow> string + subscribe_params \<Rightarrow> active_key list \<Rightarrow> 'p daemon \<Rightarrow> db \<Rightarrow>
   string list \<Rightarrow> db \<Rightarrow> received list \<Rightarrow> server_frame list" where
  "handle_subscribe err_text i parsed keys s d1 pending d2 got =
     (case parsed of
        Inl e \<Rightarrow> [send_result i (Inl (invalid_params, e))]
      | Inr p \<Rightarrow>
          let ms = sub_matches keys p s in
          if length ms > 1 then [send_result i (Inl (request_conflict, msg_not_unique))]
          else
            let m = (case ms of [] \<Rightarrow> None | x # _ \<Rightarrow> Some x) in
            (case sub_run m p d1 of
               Inl e \<Rightarrow> [send_result i (Inl (internal_error, err_text e))]
             | Inr None \<Rightarrow> [not_subscribed i p None msg_not_running]
             | Inr (Some run) \<Rightarrow> sub_events i p m run pending d2 got))"

section \<open>Order\<close>

fun frame_seq :: "server_frame \<Rightarrow> nat option" where
  "frame_seq (EventF e) = ef_seq e"
| "frame_seq (ResponseF r) = None"

definition seqs_sent :: "server_frame list \<Rightarrow> nat list" where
  "seqs_sent fs = List.map_filter frame_seq fs"

lemma seqs_sent_simps [simp]:
  "seqs_sent [] = []" "seqs_sent (f # fs) = (case frame_seq f of None \<Rightarrow> [] | Some n \<Rightarrow> [n]) @ seqs_sent fs"
  "seqs_sent (fs @ gs) = seqs_sent fs @ seqs_sent gs"
  by (auto simp: seqs_sent_def map_filter_simps map_filter_def split: option.split)

text \<open>Answers come last: at most one, and nothing after it.\<close>

definition answers_last :: "server_frame list \<Rightarrow> bool" where
  "answers_last fs \<longleftrightarrow> (\<forall>f \<in> set (butlast fs). \<not> is_reply f)"

lemma answers_last_simps [simp]:
  "answers_last []" "answers_last [f]"
  "answers_last (f # fs) \<longleftrightarrow> fs = [] \<or> \<not> is_reply f \<and> answers_last fs"
  by (auto simp: answers_last_def)

lemma frame_seq_to_frame [simp]:
  "frame_seq (to_frame i (UEvent k d r n)) = n" "frame_seq (to_frame i (UTerminal t)) = None"
  "frame_seq (send_result i x) = None" "frame_seq (not_subscribed i p rid m) = None" "frame_seq (resync i sn c) = None"
  "frame_seq (ended_frame i run) = None"
  by (auto simp: new_event_def send_result_def not_subscribed_def resync_def ended_frame_def split: sum.split)
    (cases t; auto)

lemma subscribe_ids [simp]:
  "server_frame_request_id (not_subscribed i p rid m) = i" "server_frame_request_id (resync i sn c) = i"
  "server_frame_request_id (ended_frame i run) = i"
  by (simp_all add: not_subscribed_def resync_def ended_frame_def rpc_failure_data_def rpc_failure_def)

lemma follow_ok:
  "sorted_wrt (<) (seqs_sent (sub_follow i p rid cursor got)) \<and>
   (\<forall>n \<in> set (seqs_sent (sub_follow i p rid cursor got)). cursor < n) \<and>
   answers_last (sub_follow i p rid cursor got) \<and> (\<forall>f \<in> set (sub_follow i p rid cursor got). server_frame_request_id f = i)"
proof (induction i p rid cursor got rule: sub_follow.induct)
  case (6 i p rid cursor k data r n rest)
  show ?case
  proof (cases "n \<le> cursor")
    case False
    with 6(2) have "\<forall>x \<in> set (seqs_sent (sub_follow i p rid n rest)). cursor < x" by (metis less_trans not_le)
    with 6(2) False show ?thesis by (simp add: new_event_def)
  qed (use 6(1) in simp)
qed (simp_all add: new_event_def)

lemma replay_frames_simps [simp]:
  "replay_frames i pending [] = []"
  "replay_frames i pending (e # evs) =
     (case stored_event_update e of None \<Rightarrow> [] | Some u \<Rightarrow> if is_resolved_approval pending u then [] else [to_frame i u]) @
     replay_frames i pending evs"
  by (auto simp: replay_frames_def map_filter_simps split: option.split)

lemma stored_seq: "stored_event_update e = Some u \<Longrightarrow> frame_seq (to_frame i u) = Some (ev_seq e) \<and>
    \<not> is_reply (to_frame i u) \<and> server_frame_request_id (to_frame i u) = i"
  by (auto simp: stored_event_update_def)

lemma replay_ok_order:
  "sorted_wrt (<) (map ev_seq evs) \<Longrightarrow>
   sorted_wrt (<) (seqs_sent (replay_frames i pending evs)) \<and>
   set (seqs_sent (replay_frames i pending evs)) \<subseteq> ev_seq ` set evs \<and> replies (replay_frames i pending evs) = 0 \<and>
   server_frame_request_id ` set (replay_frames i pending evs) \<subseteq> {i}"
proof (induction evs)
  case (Cons e evs)
  then have IH: "sorted_wrt (<) (seqs_sent (replay_frames i pending evs))"
    "set (seqs_sent (replay_frames i pending evs)) \<subseteq> ev_seq ` set evs" "replies (replay_frames i pending evs) = 0"
    "server_frame_request_id ` set (replay_frames i pending evs) \<subseteq> {i}" "\<forall>x \<in> ev_seq ` set evs. ev_seq e < x"
    by auto
  show ?case
  proof (cases "stored_event_update e")
    case (Some u)
    note u = stored_seq [OF Some, of i]
    from IH(2,5) have "\<forall>x \<in> set (seqs_sent (replay_frames i pending evs)). ev_seq e < x" by blast
    with IH u Some show ?thesis by auto
  qed (use IH in auto)
qed simp

lemma page_sorted:
  assumes "log_ok d"
  shows "sorted_wrt (<) (map ev_seq (events_after d rid a limit)) \<and> ev_seq ` set (events_after d rid a limit) \<subseteq> {a<..}"
proof (cases "find_run d rid")
  case None
  then have "rid \<notin> run_id ` set (runs d)" by (auto simp: find_run_def find_key_def find_None_iff)
  moreover have "ev_run ` set (events d) \<subseteq> run_id ` set (runs d)" using assms by (simp add: log_ok_def events_ok_def)
  ultimately have "filter (\<lambda>e. ev_run e = rid \<and> a < ev_seq e) (events d) = []" by (auto simp: filter_empty_conv)
  then show ?thesis by (simp add: events_after_def)
next
  case (Some r)
  have "map ev_seq (events_after d rid a limit) = take (min limit 1000) (drop a [1..<Suc (run_last_seq r)])"
    using page_of_log [OF assms Some, of a limit] by (simp add: take_map [symmetric] drop_map [symmetric] del: upt_Suc)
  moreover have "ev_seq ` set (events_after d rid a limit) \<subseteq> {a<..}"
    by (auto simp: events_after_def dest!: in_set_takeD)
  ultimately show ?thesis by (simp add: sorted_wrt_take sorted_wrt_drop sorted_wrt_upt del: upt_Suc)
qed

lemma end_of_bound:
  "sorted_wrt (<) (map ev_seq evs) \<Longrightarrow> ev_seq ` set evs \<subseteq> {a<..} \<Longrightarrow> a \<le> end_of a evs \<and> (\<forall>n \<in> ev_seq ` set evs. n \<le> end_of a evs)"
  by (cases evs rule: rev_cases) (auto simp: end_of_def sorted_wrt_append intro: less_imp_le)

lemma answers_last_append: "replies fs = 0 \<Longrightarrow> answers_last gs \<Longrightarrow> answers_last (fs @ gs)"
  by (induction fs) (auto split: if_splits)

lemma answers_last_replies: "answers_last fs \<Longrightarrow> replies fs \<le> 1"
  by (induction fs) auto

definition watch_ok :: "request_id \<Rightarrow> nat \<Rightarrow> server_frame list \<Rightarrow> bool" where
  "watch_ok i a fs \<longleftrightarrow> sorted_wrt (<) (seqs_sent fs) \<and> set (seqs_sent fs) \<subseteq> {a<..} \<and> answers_last fs \<and>
     server_frame_request_id ` set fs \<subseteq> {i}"

lemma watch_one: "frame_seq f = None \<Longrightarrow> server_frame_request_id f = i \<Longrightarrow> watch_ok i a [f]"
  by (simp add: watch_ok_def)

lemma sub_events_ok:
  assumes "log_ok d"
  shows "watch_ok i (sub_cursor p) (sub_events i p m run pending d got)"
proof -
  define a where "a = sub_cursor p"
  define evs where "evs = events_after d (rec_run run) a 1000"
  define tl where "tl = (if terminal (rec_status run) then [ended_frame i run]
            else case m of None \<Rightarrow> [not_subscribed i p (Some (rec_run run)) msg_no_executor]
            | Some _ \<Rightarrow> sub_follow i p (rec_run run) (end_of a evs) got)"
  have s: "sorted_wrt (<) (map ev_seq evs)" "ev_seq ` set evs \<subseteq> {a<..}" using page_sorted [OF assms] by (simp_all add: evs_def)
  note b = end_of_bound [OF s]
  note r = replay_ok_order [OF s(1), of i pending]
  have tl: "watch_ok i (end_of a evs) tl"
    using follow_ok [of i p "rec_run run" "end_of a evs" got]
    by (auto simp: tl_def watch_ok_def split: option.split)
  have "watch_ok i a (replay_frames i pending evs @ tl)"
    unfolding watch_ok_def seqs_sent_simps
  proof (intro conjI)
    show "sorted_wrt (<) (seqs_sent (replay_frames i pending evs) @ seqs_sent tl)"
      unfolding sorted_wrt_append
    proof (intro conjI ballI)
      fix x y assume "x \<in> set (seqs_sent (replay_frames i pending evs))" "y \<in> set (seqs_sent tl)"
      with r b tl have "x \<le> end_of a evs" "end_of a evs < y" by (auto simp: watch_ok_def)
      then show "x < y" by simp
    qed (use r tl in \<open>simp_all add: watch_ok_def\<close>)
    show "set (seqs_sent (replay_frames i pending evs) @ seqs_sent tl) \<subseteq> {a<..}"
    proof -
      have "{end_of a evs<..} \<subseteq> {a<..}" using b by auto
      moreover have "set (seqs_sent (replay_frames i pending evs)) \<subseteq> {a<..}" by (rule order_trans [OF _ s(2)]) (simp add: r)
      moreover have "set (seqs_sent tl) \<subseteq> {end_of a evs<..}" using tl by (simp add: watch_ok_def)
      ultimately show ?thesis unfolding set_append by (metis Un_least order_trans)
    qed
    show "answers_last (replay_frames i pending evs @ tl)" using r tl by (simp add: watch_ok_def answers_last_append)
    show "server_frame_request_id ` set (replay_frames i pending evs @ tl) \<subseteq> {i}" using r tl by (auto simp: watch_ok_def)
  qed
  moreover have "sub_events i p m run pending d got =
      (if length evs = 1000 \<and> ev_seq (last evs) < rec_last_seq run then [resync i (Some run) (end_of a evs)]
       else replay_frames i pending evs @ tl)"
    unfolding sub_events_def Let_def a_def evs_def tl_def by (rule refl)
  ultimately show ?thesis by (simp add: watch_one a_def)
qed

text \<open>
  Watching in order. Whatever the daemon does between the four looks of a subscriber and
  whatever its channel yields, the numbered events it is sent come after the number it asked
  for, strictly in their order in the log, none twice, with at most one answer, which is the
  last frame, and all of them carry the id of the subscription.
\<close>

theorem subscribe_in_order:
  "let fs = handle_subscribe err_text i parsed keys s d1 pending (daemon_run sha ops) got;
       a = (case parsed of Inr p \<Rightarrow> sub_cursor p | Inl _ \<Rightarrow> 0) in
     sorted_wrt (<) (seqs_sent fs) \<and> set (seqs_sent fs) \<subseteq> {a<..} \<and> replies fs \<le> 1 \<and> answers_last fs \<and>
     server_frame_request_id ` set fs \<subseteq> {i}"
proof -
  have ok: "log_ok (daemon_run sha ops)" using daemon_run_ok [of sha ops] by (simp add: status_ok_def)
  have "watch_ok i (case parsed of Inr p \<Rightarrow> sub_cursor p | Inl _ \<Rightarrow> 0)
      (handle_subscribe err_text i parsed keys s d1 pending (daemon_run sha ops) got)"
  proof (cases parsed)
    case (Inr p)
    show ?thesis
      unfolding Inr handle_subscribe_def sum.case Let_def
      by (simp split: sum.split option.split del: not_less add: watch_one sub_events_ok [OF ok])
  qed (simp add: handle_subscribe_def watch_one)
  then show ?thesis using answers_last_replies by (simp add: Let_def watch_ok_def del: One_nat_def)
qed

section \<open>Completeness\<close>

fun newer :: "nat \<Rightarrow> update \<Rightarrow> bool" where
  "newer c (UEvent k d r (Some n)) = (c < n)"
| "newer c u = True"

text \<open>Updates as a run publishes them: numbered ones in order, and nothing after the end.\<close>

fun live_ok :: "update list \<Rightarrow> bool" where
  "live_ok [] = True"
| "live_ok (UTerminal r # us) = (us = [])"
| "live_ok (UEvent k d r n # us) =
     (live_ok us \<and> (case n of None \<Rightarrow> True | Some n \<Rightarrow> list_all (\<lambda>u. newer n u) us))"

lemma newer_trans: "list_all (newer n) us \<Longrightarrow> c < n \<Longrightarrow> filter (newer c) us = us \<and> filter (newer n) us = us"
proof -
  assume a: "list_all (newer n) us" "c < n"
  have "newer n u \<Longrightarrow> newer c u" for u using a(2) by (cases "(c, u)" rule: newer.cases) auto
  with a(1) show ?thesis by (auto simp: list_all_iff)
qed

lemma follow_live:
  "live_ok us \<Longrightarrow> sub_follow i p rid c (map Got us) = map (to_frame i) (filter (newer c) us)"
proof (induction us arbitrary: c rule: live_ok.induct)
  case (3 k d r n us)
  show ?case
  proof (cases n)
    case (Some m)
    with 3 newer_trans [of m us c] show ?thesis by auto
  qed (use 3 in simp)
qed simp_all


definition watched_ops :: "store_op list" where
  "watched_ops = [OpAdmit 5 ''s'' (RNumber 1) ''hi'' Queue None, OpStart 6 (run_key 1),
     OpAppend 7 (run_key 1) ''text_delta'' (JStr ''a''), OpAppend 8 (run_key 1) ''text_delta'' (JStr ''b'')]"

definition watched :: "unit daemon" where
  "watched = (new_daemon (daemon_run id watched_ops))\<lparr>dm_active := [ch_key (chat_of 1) \<mapsto>
     \<lparr>lv_active = new_active (run_key 1), lv_cancelled = False\<rparr>]\<rparr>"

definition watch_from_1 :: subscribe_params where
  "watch_from_1 = \<lparr>sb_request = RNumber 1, sb_session = Some ''s'', sb_after = Some 1\<rparr>"

definition watched_updates :: "update list" where
  "watched_updates = [UEvent TextDelta (JStr ''b'') (Some (run_key 1)) (Some 4),
     UEvent TextDelta (JStr ''c'') (Some (run_key 1)) (Some 5), UTerminal (Inr JNull)]"


end
