(* ===== verification/Web_Pages.thy ===== *)
theory Web_Pages
  imports Subscribe
begin

text \<open>
  What the daemon shows of a session (\<open>src/daemon/handlers.rs\<close>): the activity of a session,
  the pages of its messages and trace records, bounded in number and in bytes, and the records
  that are cut down to fit (\<open>bounded_json_page\<close>, \<open>compact_json_for_web\<close>). The length of the
  printed JSON is an argument, and so are the loaded records: \<open>None\<close> is one that cannot be
  turned into JSON.
\<close>

section \<open>Records cut down to fit\<close>

definition web_page_max_bytes :: nat where
  "web_page_max_bytes = max_frame_bytes - 256 * 1024"

definition web_page_max_item_bytes :: nat where
  "web_page_max_item_bytes = 256 * 1024"

definition web_page_default_limit :: nat where
  "web_page_default_limit = 80"

definition web_page_max_limit :: nat where
  "web_page_max_limit = 200"

definition msg_cut :: string where
  "msg_cut = utf8 [8230, 32, 91, 24050, 25130, 26029, 93]"

definition msg_hidden :: string where
  "msg_hidden = utf8 [35813, 35760, 24405, 26080, 27861, 24207, 21015, 21270, 65292, 24050, 38544, 34255]"

definition msg_size_open :: string where
  "msg_size_open = utf8 [65288, 21407, 22987, 22823, 23567, 32422, 32]"

definition msg_size_close :: string where
  "msg_size_close = utf8 [32, 23383, 33410, 65289]"

definition msg_message_large :: string where
  "msg_message_large =
     utf8 [28040, 24687, 36807, 22823, 65292, 24050, 25130, 26029, 65307, 21487, 32553, 23567,
     21152, 36733, 33539, 22260, 26597, 30475, 20854, 20313, 32, 83, 101, 115, 115, 105, 111, 110,
     32, 20869, 23481]"

definition msg_trace_large :: string where
  "msg_trace_large =
     utf8 [38142, 36335, 35760, 24405, 36807, 22823, 65292, 24050, 25130, 26029, 65307, 21487,
     32487, 32493, 21152, 36733, 20854, 20313, 35760, 24405]"

definition cut_text :: "nat \<Rightarrow> string \<Rightarrow> string" where
  "cut_text n s = (if char_count s > n then take_chars (n - char_count msg_cut) s @ msg_cut else s)"

fun truncate_json_strings :: "nat \<Rightarrow> json \<Rightarrow> json" where
  "truncate_json_strings n (JStr s) = JStr (cut_text n s)"
| "truncate_json_strings n (JArr xs) = JArr (map (truncate_json_strings n) xs)"
| "truncate_json_strings n (JObj ms) = JObj (map (\<lambda>m. (fst m, truncate_json_strings n (snd m))) ms)"
| "truncate_json_strings n v = v"

definition too_large_notice :: "string \<Rightarrow> nat \<Rightarrow> json" where
  "too_large_notice m n =
     JObj [(''truncated'', JBool True), (''content'', JStr (m @ msg_size_open @ dec n @ msg_size_close))]"

definition compact_json_for_web :: "(json \<Rightarrow> nat) \<Rightarrow> nat \<Rightarrow> string \<Rightarrow> json \<Rightarrow> json" where
  "compact_json_for_web bytes limit m v =
     (if bytes v \<le> limit then v
      else case find (\<lambda>c. bytes c \<le> limit)
                  (map (\<lambda>n. truncate_json_strings n v) [65536, 16384, 4096, 1024, 256]) of
        Some c \<Rightarrow> c
      | None \<Rightarrow> too_large_notice m (bytes v))"

section \<open>Pages\<close>

definition web_item :: "(json \<Rightarrow> nat) \<Rightarrow> string \<Rightarrow> json option \<Rightarrow> json" where
  "web_item bytes m x =
     compact_json_for_web bytes web_page_max_item_bytes m
       (case x of None \<Rightarrow> JObj [(''truncated'', JBool True), (''content'', JStr msg_hidden)] | Some v \<Rightarrow> v)"

fun page_loop ::
  "(json \<Rightarrow> nat) \<Rightarrow> string \<Rightarrow> nat \<Rightarrow> json option list \<Rightarrow> json list \<Rightarrow> nat \<Rightarrow> json list \<times> bool" where
  "page_loop bytes m 0 xs vs used = (vs, xs \<noteq> [])"
| "page_loop bytes m (Suc n) [] vs used = (vs, False)"
| "page_loop bytes m (Suc n) (x # xs) vs used =
     (let v = web_item bytes m x; b = bytes v in
      if vs \<noteq> [] \<and> used + b + 1 > web_page_max_bytes then (vs, True)
      else page_loop bytes m n xs (vs @ [v]) (used + b + 1))"

definition bounded_json_page :: "(json \<Rightarrow> nat) \<Rightarrow> json option list \<Rightarrow> nat \<Rightarrow> string \<Rightarrow> json list \<times> bool" where
  "bounded_json_page bytes xs limit m = page_loop bytes m limit xs [] 1024"

section \<open>A session\<close>

record page_params =
  pp_session :: string
  pp_offset :: nat
  pp_limit :: nat

definition page_limit :: "page_params \<Rightarrow> nat" where
  "page_limit p = max 1 (min web_page_max_limit (pp_limit p))"

text \<open>\<open>keys\<close>: the keys of the table of active requests; \<open>ids\<close>: those of the broker's table, in order.\<close>

definition session_requests :: "active_key list \<Rightarrow> string \<Rightarrow> request_id list" where
  "session_requests keys sid = map ak_request (filter (\<lambda>k. ak_session k = sid) keys)"

definition session_approvals :: "active_key list \<Rightarrow> string \<Rightarrow> string list \<Rightarrow> broker \<Rightarrow> approval_info list" where
  "session_approvals keys sid ids b =
     filter (\<lambda>a. ai_request a \<in> set (session_requests keys sid)) (pending_for_session (Some sid) ids b)"

definition session_status :: "approval_info list \<Rightarrow> request_id list \<Rightarrow> string" where
  "session_status approvals requests =
     (if approvals \<noteq> [] then ''waiting'' else if requests \<noteq> [] then ''running'' else ''idle'')"

definition session_activity ::
  "active_key list \<Rightarrow> string list \<Rightarrow> broker \<Rightarrow> string \<Rightarrow> request_id list \<times> approval_info list \<times> string" where
  "session_activity keys ids b sid =
     (let requests = session_requests keys sid; approvals = session_approvals keys sid ids b
      in (requests, approvals, session_status approvals requests))"

definition approval_json :: "approval_info \<Rightarrow> json" where
  "approval_json a = JObj [(''id'', JStr (ai_id a)), (''request_id'', request_json (ai_request a)), (''prompt'', JStr (ai_prompt a))]"

definition activity_members :: "request_id list \<times> approval_info list \<times> string \<Rightarrow> (string \<times> json) list" where
  "activity_members x =
     (case x of (requests, approvals, status) \<Rightarrow>
       [(''pending_approvals'', JArr (map approval_json approvals)), (''active_requests'', JArr (map request_json requests)),
        (''status'', JStr status)])"

definition session_snapshot :: "active_key list \<Rightarrow> string list \<Rightarrow> broker \<Rightarrow> string \<Rightarrow> json list \<Rightarrow> json" where
  "session_snapshot keys ids b sid history =
     JObj ([(''session_id'', JStr sid), (''messages'', JArr history)] @ activity_members (session_activity keys ids b sid))"

definition session_load_page ::
  "(json \<Rightarrow> nat) \<Rightarrow> active_key list \<Rightarrow> string list \<Rightarrow> broker \<Rightarrow> page_params \<Rightarrow> json option list \<Rightarrow> json" where
  "session_load_page bytes keys ids b p history =
     (let (messages, has_more) = bounded_json_page bytes (drop (pp_offset p) history) (page_limit p) msg_message_large
      in JObj ([(''session_id'', JStr (pp_session p)), (''messages'', JArr messages), (''offset'', JInt (int (pp_offset p))),
                (''limit'', JInt (int (page_limit p))), (''total_messages'', JInt (int (length history))),
                (''has_more'', JBool has_more)] @ activity_members (session_activity keys ids b (pp_session p))))"

definition session_trace_page :: "(json \<Rightarrow> nat) \<Rightarrow> page_params \<Rightarrow> json option list \<Rightarrow> json" where
  "session_trace_page bytes p history =
     (let (trace, has_more) = bounded_json_page bytes (drop (pp_offset p) history) (page_limit p) msg_trace_large
      in JObj [(''session_id'', JStr (pp_session p)), (''records'', JArr trace), (''offset'', JInt (int (pp_offset p))),
               (''limit'', JInt (int (page_limit p))), (''total_records'', JInt (int (length history))),
               (''has_more'', JBool has_more)])"

section \<open>Properties\<close>

lemma char_count_simps [simp]:
  "char_count [] = 0" "char_count (c # s) = (if 0x80 \<le> byte c \<and> byte c < 0xC0 then 0 else 1) + char_count s"
  "char_count (s @ t) = char_count s + char_count t"
  by (simp_all add: char_count_def)

lemma char_count_take_chars: "char_count (take_chars n s) = min n (char_count s)"
  by (induction n s rule: take_chars.induct) (auto simp: cont_def split: nat.split)

lemma char_count_msg_cut: "char_count msg_cut = 7"
  by (simp add: msg_cut_def utf8_def utf8_encode_def byte_def)

text \<open>A text that is cut has exactly the length asked for, at least seven characters.\<close>

lemma char_count_cut: "7 \<le> n \<Longrightarrow> char_count (cut_text n s) = min n (char_count s)"
  by (simp add: cut_text_def char_count_take_chars char_count_msg_cut)

text \<open>The same record with shorter texts.\<close>

fun same_shape :: "json \<Rightarrow> json \<Rightarrow> bool" where
  "same_shape (JStr s) (JStr t) = (t = s \<or> (\<exists>n. t = take_chars n s @ msg_cut))"
| "same_shape (JArr xs) (JArr ys) = list_all2 same_shape xs ys"
| "same_shape (JObj ms) (JObj ns) = list_all2 (\<lambda>a b. fst a = fst b \<and> same_shape (snd a) (snd b)) ms ns"
| "same_shape v w = (v = w)"

lemma truncate_shape: "same_shape v (truncate_json_strings n v)"
proof (induction n v rule: truncate_json_strings.induct)
  case (2 n xs)
  then show ?case by (auto simp: list_all2_map2 list_all2_same)
next
  case (3 n ms)
  then show ?case by (fastforce simp: list_all2_map2 list_all2_same)
qed (auto simp: cut_text_def)

lemma web_item_fits:
  assumes "\<And>n. bytes (too_large_notice m n) \<le> web_page_max_item_bytes"
  shows "bytes (web_item bytes m x) \<le> web_page_max_item_bytes"
  using assms by (auto simp: web_item_def compact_json_for_web_def find_Some_iff split: option.split)

definition page_bytes :: "(json \<Rightarrow> nat) \<Rightarrow> json list \<Rightarrow> nat" where
  "page_bytes bytes vs = 1024 + (\<Sum>v\<leftarrow>vs. bytes v + 1)"

lemma page_loop_spec:
  assumes "\<And>x. bytes (web_item bytes m x) \<le> web_page_max_item_bytes"
    and "used = page_bytes bytes vs" "used \<le> web_page_max_bytes"
  shows "\<exists>k. page_loop bytes m n xs vs used = (vs @ map (web_item bytes m) (take k xs), k < length xs) \<and> k \<le> n \<and>
    k \<le> length xs \<and> (vs = [] \<and> 0 < n \<and> xs \<noteq> [] \<longrightarrow> 0 < k) \<and>
    page_bytes bytes (vs @ map (web_item bytes m) (take k xs)) \<le> web_page_max_bytes \<and>
    (k < length xs \<and> k < n \<longrightarrow> web_page_max_bytes < page_bytes bytes (vs @ map (web_item bytes m) (take (Suc k) xs)))"
  using assms(2,3)
proof (induction n arbitrary: xs vs used)
  case 0
  then show ?case by (intro exI [of _ 0]) auto
next
  case (Suc n)
  show ?case
  proof (cases xs)
    case Nil
    then show ?thesis using Suc.prems by (intro exI [of _ 0]) auto
  next
    case (Cons x ys)
    let ?v = "web_item bytes m x"
    show ?thesis
    proof (cases "vs \<noteq> [] \<and> used + bytes ?v + 1 > web_page_max_bytes")
      case True
      then show ?thesis using Suc.prems Cons by (intro exI [of _ 0]) (auto simp: page_bytes_def)
    next
      case False
      have u: "used + bytes ?v + 1 = page_bytes bytes (vs @ [?v])" using Suc.prems by (simp add: page_bytes_def)
      have "used + bytes ?v + 1 \<le> web_page_max_bytes"
      proof (cases "vs = []")
        case True
        then show ?thesis
          using assms(1) [of x] Suc.prems
          by (simp add: page_bytes_def web_page_max_bytes_def web_page_max_item_bytes_def max_frame_bytes_def)
      qed (use False in simp)
      from Suc.IH [OF u this, of ys] obtain k where k:
        "page_loop bytes m n ys (vs @ [?v]) (used + bytes ?v + 1) = ((vs @ [?v]) @ map (web_item bytes m) (take k ys), k < length ys)"
        "k \<le> n" "k \<le> length ys" "page_bytes bytes ((vs @ [?v]) @ map (web_item bytes m) (take k ys)) \<le> web_page_max_bytes"
        "k < length ys \<and> k < n \<longrightarrow>
           web_page_max_bytes < page_bytes bytes ((vs @ [?v]) @ map (web_item bytes m) (take (Suc k) ys))"
        by blast
      with False Cons show ?thesis by (intro exI [of _ "Suc k"]) (auto simp: Let_def)
    qed
  qed
qed

text \<open>
  C8: Pages. A page of a session is the next records, cut down to fit, as many as the limit and the
  bytes of a frame allow: it never exceeds the bytes reserved for it, it makes progress, its
  flag says exactly whether something is left, and it ends early only when the next record would not fit.
\<close>

theorem web_page_exact:
  assumes "\<And>n. bytes (too_large_notice m n) \<le> web_page_max_item_bytes" "0 < limit"
  shows "\<exists>k. bounded_json_page bytes xs limit m = (map (web_item bytes m) (take k xs), k < length xs) \<and> k \<le> limit \<and>
    (xs \<noteq> [] \<longrightarrow> 0 < k) \<and> page_bytes bytes (map (web_item bytes m) (take k xs)) \<le> web_page_max_bytes \<and>
    (k < length xs \<and> k < limit \<longrightarrow> web_page_max_bytes < page_bytes bytes (map (web_item bytes m) (take (Suc k) xs)))"
proof -
  have "1024 = page_bytes bytes []" "(1024::nat) \<le> web_page_max_bytes"
    by (simp_all add: page_bytes_def web_page_max_bytes_def max_frame_bytes_def)
  from page_loop_spec [OF web_item_fits [of bytes m, OF assms(1)] this, of limit xs] assms(2) show ?thesis
    unfolding bounded_json_page_def by simp blast
qed

theorem web_page_exact_witness:
  "\<exists>k > 0. bounded_json_page (\<lambda>_. 100) [Some JNull, None] 1 [] = (map (web_item (\<lambda>_. 100) []) (take k [Some JNull, None]), k < 2) \<and> k \<le> 1"
proof -
  have small: "(100::nat) \<le> web_page_max_item_bytes" by (simp add: web_page_max_item_bytes_def)
  show ?thesis using web_page_exact [of "\<lambda>_. 100" "[]" 1 "[Some JNull, None]", OF small] by auto
qed

text \<open>
  What a web client is shown of a record is the record itself when it is small; otherwise a
  record of the same shape whose texts were shortened, or the notice that it is too large.
\<close>

theorem compact_keeps_shape:
  "(bytes v \<le> limit \<longrightarrow> compact_json_for_web bytes limit m v = v) \<and>
   (compact_json_for_web bytes limit m v = too_large_notice m (bytes v) \<or>
    same_shape v (compact_json_for_web bytes limit m v) \<and> bytes (compact_json_for_web bytes limit m v) \<le> limit)"
proof -
  have same: "same_shape v v" by (induction v) (auto simp: list_all2_same)
  define found where
    "found = find (\<lambda>c. bytes c \<le> limit) (map (\<lambda>n. truncate_json_strings n v) [65536, 16384, 4096, 1024, 256])"
  have compact: "compact_json_for_web bytes limit m v =
      (if bytes v \<le> limit then v else case found of Some c \<Rightarrow> c | None \<Rightarrow> too_large_notice m (bytes v))"
    unfolding compact_json_for_web_def found_def by (rule refl)
  have cut: "same_shape v c \<and> bytes c \<le> limit" if c: "found = Some c" for c
  proof -
    obtain i where i: "i < length (map (\<lambda>n. truncate_json_strings n v) [65536, 16384, 4096, 1024, 256])"
      and ci: "c = map (\<lambda>n. truncate_json_strings n v) [65536, 16384, 4096, 1024, 256] ! i" "bytes c \<le> limit"
      using c unfolding found_def find_Some_iff by blast
    from i have "c = truncate_json_strings ([65536, 16384, 4096, 1024, 256] ! i) v"
      unfolding ci(1) by (simp only: nth_map length_map)
    with ci(2) show ?thesis by (simp add: truncate_shape)
  qed
  show ?thesis
  proof (cases found)
    case None
    then show ?thesis unfolding compact using same by simp
  next
    case (Some c)
    with cut [OF Some] same show ?thesis unfolding compact by simp
  qed
qed

end
