(* ===== verification/Subagents.thy ===== *)
theory Subagents
  imports Web_Pages Safety
begin

text \<open>
  Delegated runs as the daemon handles them (\<open>src/daemon/handlers.rs\<close>): \<open>spawn_subagent\<close> with the
  budgets and capabilities a child may get, the scope checks, the waiting for children, and the
  delegation tools a model calls (\<open>src/daemon/delegation_tool.rs\<close>). What the session runtime,
  the engine and the file system answer is an argument, and so is the JSON of a delegation.
\<close>

section \<open>Messages\<close>

definition msg_parent_missing :: string where
  "msg_parent_missing = utf8 [29238, 32, 114, 117, 110, 32, 19981, 23384, 22312]"

definition msg_parent_foreign :: string where
  "msg_parent_foreign =
     utf8 [29238, 32, 114, 117, 110, 32, 19981, 23646, 20110, 25351, 23450, 32, 115, 101, 115,
     115, 105, 111, 110]"

definition msg_only_read :: string where
  "msg_only_read =
     utf8 [23376, 32, 65, 103, 101, 110, 116, 32, 21482, 33021, 32487, 25215, 32, 114, 101, 97,
     100, 95, 102, 105, 108, 101, 32, 33021, 21147]"

definition msg_bad_budget :: string where
  "msg_bad_budget =
     utf8 [23376, 32, 65, 103, 101, 110, 116, 32, 39044, 31639, 26080, 25928, 25110, 36229, 36807,
     29238, 39044, 31639]"

definition msg_token_budget :: string where
  "msg_token_budget =
     utf8 [23376, 32, 65, 103, 101, 110, 116, 32, 116, 111, 107, 101, 110, 32, 39044, 31639,
     36229, 36807, 29238, 20250, 35805]"

definition msg_parent_stopped :: string where
  "msg_parent_stopped =
     utf8 [29238, 32, 114, 117, 110, 32, 24050, 20572, 27490, 25509, 32435, 23376, 32, 65, 103,
     101, 110, 116]"

definition msg_child_missing :: string where
  "msg_child_missing = utf8 [23376, 32, 65, 103, 101, 110, 116, 32, 19981, 23384, 22312]"

definition msg_out_of_scope :: string where
  "msg_out_of_scope =
     utf8 [99, 104, 105, 108, 100, 32, 19981, 23646, 20110, 25351, 23450, 22996, 27966, 20316,
     29992, 22495]"

definition msg_bad_wait :: string where
  "msg_bad_wait = utf8 [31561, 24453, 23545, 35937, 25110, 36229, 26102, 33539, 22260, 26080, 25928]"

definition msg_child_run_missing :: string where
  "msg_child_run_missing = utf8 [99, 104, 105, 108, 100, 32, 114, 117, 110, 32, 19981, 23384, 22312]"

section \<open>Spawning\<close>

record spawn_params =
  sp_session :: string
  sp_run :: string
  sp_key :: string
  sp_task :: string
  sp_tools :: "string list option"
  sp_rounds :: "int option"
  sp_tokens :: "int option"
  sp_calls :: "int option"
  sp_timeout :: "int option"

definition asked :: "'a \<Rightarrow> 'a option \<Rightarrow> 'a" where
  "asked x o' = (case o' of None \<Rightarrow> x | Some y \<Rightarrow> y)"

definition tools_granted :: "delegation_record option \<Rightarrow> string list \<Rightarrow> bool" where
  "tools_granted parent ts \<longleftrightarrow> ts \<noteq> [] \<and> list_all (\<lambda>t. t = ''read_file'') ts \<and>
     (case parent of None \<Rightarrow> True | Some p \<Rightarrow> list_all (\<lambda>t. t \<in> set (dg_tools (dr_row p))) ts)"

definition budget_granted :: "delegation_record option \<Rightarrow> int \<Rightarrow> int \<Rightarrow> int \<Rightarrow> int \<Rightarrow> bool" where
  "budget_granted parent rounds tokens calls timeout \<longleftrightarrow>
     1 \<le> rounds \<and> rounds \<le> 15 \<and> 512 \<le> tokens \<and> tokens \<le> 32000 \<and> 1 \<le> calls \<and> calls \<le> 32 \<and>
     1000 \<le> timeout \<and> timeout \<le> 600000 \<and>
     (case parent of None \<Rightarrow> True
      | Some p \<Rightarrow> rounds \<le> dg_max_rounds (dr_row p) \<and> tokens \<le> dg_max_tokens (dr_row p) \<and>
                  calls \<le> dg_max_tool_calls (dr_row p))"

text \<open>
  Up to the control lock: the request that will be admitted. \<open>runtime\<close> is the token budget of the
  parent's engine, \<open>capable\<close> the check of its tools, \<open>fresh\<close> the new session, \<open>home\<close> the working
  directory of a run that is not delegated.
\<close>

definition spawn_prepare ::
  "(store_error \<Rightarrow> string) \<Rightarrow> (int \<times> string) + nat \<Rightarrow> string + unit \<Rightarrow> string + string \<Rightarrow> string \<Rightarrow> int \<Rightarrow> spawn_params \<Rightarrow>
   db \<Rightarrow> (int \<times> string) + run_record \<times> delegation_request" where
  "spawn_prepare err_text runtime capable fresh home now p d =
     bindE (map_sum (\<lambda>e. (internal_error, err_text e)) id (read_run_in d (sp_run p))) (\<lambda>found.
     bindE (ok_or (invalid_params, msg_parent_missing) found) (\<lambda>parent.
     if rec_session parent \<noteq> sp_session p then Inl (request_conflict, msg_parent_foreign)
     else
       let up = read_delegation_in d (sp_run p);
           tools = asked [''read_file''] (sp_tools p);
           rounds = asked 8 (sp_rounds p); tokens = asked 16000 (sp_tokens p);
           calls = asked 16 (sp_calls p); timeout = asked 120000 (sp_timeout p) in
       if \<not> tools_granted up tools then Inl (request_conflict, msg_only_read)
       else if \<not> budget_granted up rounds tokens calls timeout then Inl (invalid_params, msg_bad_budget)
       else bindE runtime (\<lambda>budget.
         if nat tokens > budget then Inl (invalid_params, msg_token_budget)
         else bindE (map_sum (Pair request_conflict) id capable) (\<lambda>_.
           bindE (map_sum (Pair internal_error) id fresh) (\<lambda>sid.
             let deadline = now + timeout in
             Inr (parent,
               \<lparr>rq_parent_session = sp_session p, rq_parent_run = sp_run p, rq_child_session = sid,
                rq_spawn_key = sp_key p, rq_task = sp_task p, rq_tools = tools,
                rq_permission = mode_key RequestApproval,
                rq_cwd = (case up of None \<Rightarrow> home | Some g \<Rightarrow> dg_cwd (dr_row g)),
                rq_max_rounds = rounds, rq_max_tokens = tokens, rq_max_tool_calls = calls,
                rq_deadline = (case up of None \<Rightarrow> deadline | Some g \<Rightarrow> min deadline (dg_deadline (dr_row g)))\<rparr>))))))"

text \<open>Under the control lock: a parent that has been cancelled or has ended gets no new child.\<close>

definition parent_stopped :: "run_record \<Rightarrow> 'p daemon \<Rightarrow> bool" where
  "parent_stopped parent s \<longleftrightarrow>
     (case dm_active s (key_of_run parent) of
        None \<Rightarrow> True
      | Some l \<Rightarrow> ac_run (lv_active l) \<noteq> rec_run parent \<or> lv_cancelled l)"

definition spawn_admit ::
  "(store_error \<Rightarrow> string) \<Rightarrow> int \<Rightarrow> run_record \<Rightarrow> delegation_request \<Rightarrow> 'p daemon \<Rightarrow>
   ((int \<times> string) + delegation_record) \<times> 'p daemon" where
  "spawn_admit err_text now parent q s =
     (if delegation_by_spawn_key (dm_store s) (rq_parent_run q) (rq_spawn_key q) = None \<and> parent_stopped parent s
      then (Inl (request_conflict, msg_parent_stopped), s)
      else case admit_delegation now q (dm_store s) of
        Inl e \<Rightarrow> (Inl (request_conflict, err_text e), s)
      | Inr (child, d) \<Rightarrow> (Inr child, s\<lparr>dm_store := d\<rparr>))"

text \<open>
  After it: the parent's subscribers are told, and a queued child is driven by a chat request of
  its own, the third result.
\<close>

definition spawn_finish ::
  "(json \<Rightarrow> string) \<Rightarrow> (delegation_record \<Rightarrow> json) \<Rightarrow> string \<Rightarrow> delegation_record \<Rightarrow> 'p daemon \<Rightarrow>
   json \<times> (request_id \<times> chat_params) option \<times> 'p daemon" where
  "spawn_finish render child_json task child s =
     (let g = dr_row child in
      (JObj [(''child_session_id'', JStr (dg_child_session g)), (''child_run_id'', JStr (dg_child_run g)),
             (''status'', jstatus (dg_status g)), (''child'', child_json child)],
       if dg_status g = Queued
       then Some (RString (''delegation:'' @ dg_child_session g),
                  \<lparr>cp_message = task, cp_session = Some (dg_child_session g), cp_mode = None\<rparr>)
       else None,
       notify_delegation_parent render child DelegationSpawned s))"

section \<open>Scope and waiting\<close>

definition scoped_delegation :: "string \<Rightarrow> string \<Rightarrow> db \<Rightarrow> (int \<times> string) + delegation_record" where
  "scoped_delegation parent child d =
     bindE (ok_or (invalid_params, msg_child_missing) (read_delegation_in d child)) (\<lambda>g.
       if dg_parent_run (dr_row g) \<noteq> parent \<and> dg_root_run (dr_row g) \<noteq> parent
       then Inl (request_conflict, msg_out_of_scope) else Inr g)"

record wait_params =
  wp_parent :: string
  wp_children :: "string list"
  wp_timeout :: "nat option"
  wp_after :: "nat option"

text \<open>One look at the children: their records and the runs that went past the given number.\<close>

fun wait_look ::
  "(store_error \<Rightarrow> string) \<Rightarrow> string \<Rightarrow> nat option \<Rightarrow> db \<Rightarrow> string list \<Rightarrow>
   (int \<times> string) + delegation_record list \<times> (string \<times> nat) list" where
  "wait_look err_text parent after d [] = Inr ([], [])"
| "wait_look err_text parent after d (c # cs) =
     bindE (scoped_delegation parent c d) (\<lambda>child.
     bindE (case after of
              None \<Rightarrow> Inr []
            | Some a \<Rightarrow>
                bindE (map_sum (\<lambda>e. (internal_error, err_text e)) id (read_run_in d c)) (\<lambda>found.
                bindE (ok_or (invalid_params, msg_child_run_missing) found) (\<lambda>run.
                  Inr (if rec_last_seq run > a then [(c, rec_last_seq run)] else [])))) (\<lambda>here.
     bindE (wait_look err_text parent after d cs) (\<lambda>(children, points). Inr (child # children, here @ points))))"

definition any_ended :: "delegation_record list \<Rightarrow> bool" where
  "any_ended children \<longleftrightarrow> list_ex (\<lambda>g. terminal (dg_status (dr_row g))) children"

definition wait_json :: "(delegation_record \<Rightarrow> json) \<Rightarrow> delegation_record list \<times> (string \<times> nat) list \<Rightarrow> json" where
  "wait_json child_json look =
     JObj [(''timed_out'', JBool (snd look = [] \<and> \<not> any_ended (fst look))),
           (''children'', JArr (map child_json (fst look))),
           (''checkpoints'', JArr (map (\<lambda>(c, n). JObj [(''child_run_id'', JStr c), (''last_seq'', JInt (int n))]) (snd look)))]"

text \<open>The loop, on the stores and the elapsed milliseconds it sees in turn.\<close>

fun wait_loop ::
  "(store_error \<Rightarrow> string) \<Rightarrow> (delegation_record \<Rightarrow> json) \<Rightarrow> wait_params \<Rightarrow> nat \<Rightarrow> (db \<times> nat) list \<Rightarrow> reply option" where
  "wait_loop err_text child_json p timeout [] = None"
| "wait_loop err_text child_json p timeout ((d, elapsed) # rest) =
     (case wait_look err_text (wp_parent p) (wp_after p) d (wp_children p) of
        Inl e \<Rightarrow> Some (Inl e)
      | Inr look \<Rightarrow>
          if snd look \<noteq> [] \<or> any_ended (fst look) \<or> timeout \<le> elapsed then Some (Inr (wait_json child_json look))
          else wait_loop err_text child_json p timeout rest)"

definition wait_subagents ::
  "(store_error \<Rightarrow> string) \<Rightarrow> (delegation_record \<Rightarrow> json) \<Rightarrow> wait_params \<Rightarrow> (db \<times> nat) list \<Rightarrow> reply option" where
  "wait_subagents err_text child_json p seen =
     (if wp_children p = [] \<or> length (wp_children p) > 8 \<or> asked 30000 (wp_timeout p) > 60000
      then Some (Inl (invalid_params, msg_bad_wait))
      else wait_loop err_text child_json p (asked 30000 (wp_timeout p)) seen)"

section \<open>Properties\<close>

lemma existing_spawn_row:
  assumes "existing_spawn q c d = Inr rec"
  shows "read_delegation_in d c = Some rec \<and> dg_tools (dr_row rec) = rq_tools q \<and> dg_max_rounds (dr_row rec) = rq_max_rounds q \<and>
    dg_max_tokens (dr_row rec) = rq_max_tokens q \<and> dg_max_tool_calls (dr_row rec) = rq_max_tool_calls q"
  using assms by (auto simp: existing_spawn_def same_spawn_def result_simps split: if_split_asm)

text \<open>What a delegation may do; \<open>up\<close> is the delegation of its parent.\<close>

definition narrow :: "delegation_record option \<Rightarrow> string list \<Rightarrow> int \<Rightarrow> int \<Rightarrow> int \<Rightarrow> bool" where
  "narrow up ts rounds tokens calls \<longleftrightarrow>
     set ts = {''read_file''} \<and> rounds \<in> {1..15} \<and> tokens \<in> {512..32000} \<and> calls \<in> {1..32} \<and>
     (case up of
        None \<Rightarrow> True
      | Some p \<Rightarrow> set ts \<subseteq> set (dg_tools (dr_row p)) \<and> rounds \<le> dg_max_rounds (dr_row p) \<and>
          tokens \<le> dg_max_tokens (dr_row p) \<and> calls \<le> dg_max_tool_calls (dr_row p))"

definition row_narrow :: "delegation_record option \<Rightarrow> delegation_row \<Rightarrow> bool" where
  "row_narrow up g \<longleftrightarrow> narrow up (dg_tools g) (dg_max_rounds g) (dg_max_tokens g) (dg_max_tool_calls g)"

lemma granted_narrow:
  assumes "tools_granted up ts" "budget_granted up rounds tokens calls timeout"
  shows "narrow up ts rounds tokens calls"
proof -
  have "set ts = {''read_file''}" using assms(1) by (cases ts) (auto simp: tools_granted_def list_all_iff)
  then show ?thesis using assms by (auto simp: tools_granted_def budget_granted_def narrow_def list_all_iff split: option.splits)
qed

lemma spawn_prepare_Inr:
  assumes "spawn_prepare err_text runtime capable fresh home now p d = Inr (parent, q)"
  shows "read_run_in d (sp_run p) = Inr (Some parent) \<and> rq_parent_run q = sp_run p \<and> rq_permission q = ''request_approval'' \<and>
    narrow (read_delegation_in d (sp_run p)) (rq_tools q) (rq_max_rounds q) (rq_max_tokens q) (rq_max_tool_calls q) \<and>
    (\<exists>b. runtime = Inr b \<and> rq_max_tokens q \<le> int b) \<and> rq_deadline q \<le> now + 600000 \<and>
    (case read_delegation_in d (sp_run p) of
       None \<Rightarrow> True
     | Some g \<Rightarrow> rq_deadline q \<le> dg_deadline (dr_row g) \<and> rq_cwd q = dg_cwd (dr_row g))"
proof -
  let ?up = "read_delegation_in d (sp_run p)"
  let ?tools = "asked [''read_file''] (sp_tools p)"
  let ?rounds = "asked 8 (sp_rounds p)" and ?tokens = "asked 16000 (sp_tokens p)"
    and ?calls = "asked 16 (sp_calls p)" and ?timeout = "asked 120000 (sp_timeout p)"
  obtain found where f: "read_run_in d (sp_run p) = Inr found"
    using assms by (cases "read_run_in d (sp_run p)") (auto simp: spawn_prepare_def)
  moreover obtain par where "found = Some par" using assms f by (cases found) (auto simp: spawn_prepare_def)
  ultimately have rd: "read_run_in d (sp_run p) = Inr (Some par)" by simp
  have g: "tools_granted ?up ?tools" "budget_granted ?up ?rounds ?tokens ?calls ?timeout"
    using assms rd by (auto simp: spawn_prepare_def Let_def split: if_split_asm)
  obtain b where b: "runtime = Inr b" using assms rd g
    by (cases runtime) (auto simp: spawn_prepare_def Let_def split: if_split_asm)
  have fit: "nat ?tokens \<le> b" using assms rd g b by (auto simp: spawn_prepare_def Let_def split: if_split_asm)
  obtain u where u: "capable = Inr u" using assms rd g b fit
    by (cases capable) (auto simp: spawn_prepare_def Let_def split: if_split_asm)
  obtain sid where sid: "fresh = Inr sid" using assms rd g b fit u
    by (cases fresh) (auto simp: spawn_prepare_def Let_def split: if_split_asm)
  have q: "parent = par" "q = \<lparr>rq_parent_session = sp_session p, rq_parent_run = sp_run p, rq_child_session = sid,
      rq_spawn_key = sp_key p, rq_task = sp_task p, rq_tools = ?tools, rq_permission = mode_key RequestApproval,
      rq_cwd = (case ?up of None \<Rightarrow> home | Some g \<Rightarrow> dg_cwd (dr_row g)),
      rq_max_rounds = ?rounds, rq_max_tokens = ?tokens, rq_max_tool_calls = ?calls,
      rq_deadline = (case ?up of None \<Rightarrow> now + ?timeout | Some g \<Rightarrow> min (now + ?timeout) (dg_deadline (dr_row g)))\<rparr>"
    using assms rd g b fit u sid by (auto simp: spawn_prepare_def Let_def split: if_split_asm)
  have "narrow ?up ?tools ?rounds ?tokens ?calls" using g by (rule granted_narrow)
  moreover have "?timeout \<le> 600000" using g(2) by (simp add: budget_granted_def)
  moreover have "?tokens \<le> int b" using fit by linarith
  ultimately show ?thesis by (auto simp: q rd b mode_key_def split: option.split)
qed


definition read_task :: spawn_params where
  "read_task = \<lparr>sp_session = ''s'', sp_run = run_key 1, sp_key = ''ho'', sp_task = ''hi'', sp_tools = None,
     sp_rounds = None, sp_tokens = None, sp_calls = None, sp_timeout = None\<rparr>"


end
