(* ===== verification/Rpc.thy ===== *)
theory Rpc
  imports Subagents Daemon_System
begin

text \<open>
  The dispatch of JSON-RPC requests (\<open>handle_request\<close> in \<open>src/daemon/handlers.rs\<close>) for the methods
  that are one operation on the store, the approvals or the table of active requests: reading
  and cancelling runs, the queue, interactions, delegated results, reconciliation and the stop.
  Each is one step on the daemon. The remaining methods (chat, subscriptions, spawning, waiting,
  sessions, models, permissions, slash commands, the audit) have handlers of their own.

  Reading the parameters is \<open>serde\<close>'s: a reader per parameter type is an argument, as is the JSON
  of the records in an answer.
\<close>

section \<open>Requests and answers\<close>

record scope_params =
  sp_parent :: string
  sp_child :: string

record result_params =
  rp_parent :: string
  rp_child :: string
  rp_owner :: string
  rp_revision :: int

record item_params =
  it_session :: string
  it_run :: string

record reconcile_params =
  rc_session :: string
  rc_run :: string
  rc_expected :: nat
  rc_status :: run_status
  rc_content :: "string option"
  rc_evidence :: string

record events_params =
  ep_run :: string
  ep_after :: "nat option"
  ep_limit :: "nat option"

text \<open>\<open>parse_params\<close> for each type of parameters; an error is the text of the reader.\<close>

record readers =
  read_session_id :: "json \<Rightarrow> string + string"
  read_interaction_id :: "json \<Rightarrow> string + string"
  read_root_id :: "json \<Rightarrow> string + string"
  read_run_id :: "json \<Rightarrow> string + string"
  read_answer :: "json \<Rightarrow> string + answer_params"
  read_cancel :: "json \<Rightarrow> string + cancel_params"
  read_scope :: "json \<Rightarrow> string + scope_params"
  read_result :: "json \<Rightarrow> string + result_params"
  read_item :: "json \<Rightarrow> string + item_params"
  read_reconcile :: "json \<Rightarrow> string + reconcile_params"
  read_events :: "json \<Rightarrow> string + events_params"

text \<open>What an answer holds besides plain JSON.\<close>

datatype content =
    CInteraction "interaction_record option"
  | CInteractions "interaction_record list"
  | CChild delegation_record
  | CChildren "delegation_record list"
  | CItem "queued_view option"
  | CItems "queued_view list"
  | CReceipts "tool_row list"
  | CRoute "route_snapshot option"
  | CAttempts "provider_attempt list"
  | CUsage provider_usage
  | CEvents "event_row list"

text \<open>
  The environment of a request: the readers, the JSON of contents and errors, the clock (several
  readings for a reservation), the hash, the listening receivers, the pending approvals and the
  keys of the active requests.
\<close>

record rpc_env =
  en_readers :: readers
  en_show :: "content \<Rightarrow> json"
  en_interaction :: "interaction_record \<Rightarrow> json"
  en_render :: "json \<Rightarrow> string"
  en_store_text :: "store_error \<Rightarrow> string"
  en_approval_text :: "approval_error \<Rightarrow> string"
  en_sha :: "string \<Rightarrow> string"
  en_now :: int
  en_later :: "int \<times> int \<times> int"
  en_listening :: "nat \<Rightarrow> bool"
  en_pending :: "broker \<Rightarrow> string list"
  en_keys :: "active_key list"

definition msg_run_active :: string where
  "msg_run_active = utf8 [114, 117, 110, 32, 20173, 26377, 27963, 21160, 25191, 34892, 20307]"

definition msg_no_method :: string where
  "msg_no_method = utf8 [26410, 30693, 32, 82, 80, 67, 32, 26041, 27861, 58, 32]"

text \<open>\<open>parse_params(..).map_err(..)\<close>, and an error of the store under a code.\<close>

definition with_params :: "string + 'a \<Rightarrow> ('a \<Rightarrow> reply) \<Rightarrow> reply" where
  "with_params r f = bindE (map_sum (\<lambda>m. (invalid_params, m)) id r) f"

definition run_params :: "string + 'a \<Rightarrow> ('a \<Rightarrow> 'p daemon \<Rightarrow> reply \<times> 'p daemon) \<Rightarrow> 'p daemon \<Rightarrow> reply \<times> 'p daemon" where
  "run_params r f s = (case r of Inl m \<Rightarrow> (Inl (invalid_params, m), s) | Inr p \<Rightarrow> f p s)"

definition coded :: "int \<Rightarrow> (store_error \<Rightarrow> string) \<Rightarrow> store_error + 'a \<Rightarrow> (int \<times> string) + 'a" where
  "coded code err_text = map_sum (\<lambda>e. (code, err_text e)) id"

definition one_field :: "string \<Rightarrow> json \<Rightarrow> json" where
  "one_field n v = JObj [(n, v)]"

section \<open>Questions\<close>

text \<open>The methods that only read the store; \<open>None\<close> for the others.\<close>

definition final_candidate :: "provider_attempt list \<Rightarrow> json" where
  "final_candidate xs = (if xs = [] then JNull else JInt (uint (at_candidate_index (last xs))))"

definition interaction_query :: "rpc_env \<Rightarrow> string \<Rightarrow> json \<Rightarrow> db \<Rightarrow> reply" where
  "interaction_query en m v d =
     (if m = ''interaction.read''
      then with_params (read_interaction_id (en_readers en) v) (\<lambda>i.
        Inr (one_field ''interaction'' (en_show en (CInteraction (read_interaction d i)))))
      else with_params (read_session_id (en_readers en) v) (\<lambda>sid.
        bindE (coded internal_error (en_store_text en) (list_interactions d sid)) (\<lambda>xs.
          Inr (one_field ''interactions'' (en_show en (CInteractions xs))))))"

definition list_subagents :: "rpc_env \<Rightarrow> json \<Rightarrow> db \<Rightarrow> reply" where
  "list_subagents en v d =
     with_params (read_root_id (en_readers en) v) (\<lambda>root.
       bindE (coded internal_error (en_store_text en) (list_delegations d root)) (\<lambda>xs.
         Inr (one_field ''children'' (en_show en (CChildren xs)))))"

definition read_subagent :: "rpc_env \<Rightarrow> json \<Rightarrow> db \<Rightarrow> reply" where
  "read_subagent en v d =
     with_params (read_scope (en_readers en) v) (\<lambda>p.
       bindE (scoped_delegation (sp_parent p) (sp_child p) d) (\<lambda>g.
         Inr (one_field ''child'' (en_show en (CChild g)))))"

definition queue_query :: "rpc_env \<Rightarrow> string \<Rightarrow> json \<Rightarrow> db \<Rightarrow> reply" where
  "queue_query en m v d =
     (if m = ''queue.list''
      then with_params (read_session_id (en_readers en) v) (\<lambda>sid.
        Inr (one_field ''items'' (en_show en (CItems (queued_messages d sid)))))
      else with_params (read_item (en_readers en) v) (\<lambda>p.
        Inr (one_field ''item'' (en_show en (CItem (queued_message d (it_session p) (it_run p)))))))"

definition run_query :: "rpc_env \<Rightarrow> string \<Rightarrow> json \<Rightarrow> db \<Rightarrow> reply" where
  "run_query en m v d =
     with_params (read_run_id (en_readers en) v) (\<lambda>rid.
       if m = ''run.read'' then
         bindE (coded internal_error (en_store_text en) (read_run_in d rid)) (\<lambda>found.
         bindE (ok_or (invalid_params, msg_run_missing) found) (\<lambda>run. Inr (run_json run)))
       else if m = ''run.tools'' then Inr (one_field ''receipts'' (en_show en (CReceipts (tool_receipts d rid))))
       else Inr (JObj [(''route'', en_show en (CRoute (route_snapshot_of d rid))),
                       (''attempts'', en_show en (CAttempts (provider_attempts d rid))),
                       (''usage'', en_show en (CUsage (provider_usage_of d rid))),
                       (''final_candidate_index'', final_candidate (provider_attempts d rid))]))"

definition events_query :: "rpc_env \<Rightarrow> json \<Rightarrow> db \<Rightarrow> reply" where
  "events_query en v d =
     with_params (read_events (en_readers en) v) (\<lambda>p.
       Inr (one_field ''events'' (en_show en (CEvents
         (events_after d (ep_run p) (asked 0 (ep_after p)) (asked 200 (ep_limit p)))))))"

definition rpc_query :: "rpc_env \<Rightarrow> string \<Rightarrow> json \<Rightarrow> db \<Rightarrow> reply option" where
  "rpc_query en m v d =
     (if m \<in> {''interaction.read'', ''interaction.list''} then Some (interaction_query en m v d)
      else if m = ''list_subagents'' then Some (list_subagents en v d)
      else if m = ''read_subagent'' then Some (read_subagent en v d)
      else if m \<in> {''queue.list'', ''queue.read''} then Some (queue_query en m v d)
      else if m \<in> {''run.read'', ''run.tools'', ''run.provider_attempts''} then Some (run_query en m v d)
      else if m = ''run.events'' then Some (events_query en v d)
      else None)"

section \<open>Commands\<close>

text \<open>A result of a child is reserved, given back or delivered within the scope of its parent or root.\<close>

definition result_op :: "rpc_env \<Rightarrow> string \<Rightarrow> result_params \<Rightarrow> store_op" where
  "result_op en m p =
     (if m = ''subagent.result.reserve''
      then (case en_later en of (t2, t3, t4) \<Rightarrow> OpReserve (en_now en) t2 t3 t4 (rp_child p) (rp_owner p) (rp_revision p))
      else if m = ''subagent.result.release'' then OpRelease (en_now en) (rp_child p) (rp_owner p) (rp_revision p)
      else OpDeliver (en_now en) (rp_child p) (rp_owner p) (rp_revision p))"

definition result_call :: "rpc_env \<Rightarrow> string \<Rightarrow> result_params \<Rightarrow> db \<Rightarrow> store_error + delegation_record \<times> db" where
  "result_call en m p =
     (if m = ''subagent.result.reserve''
      then (case en_later en of (t2, t3, t4) \<Rightarrow>
        reserve_delegation_result (en_now en) t2 t3 t4 (rp_child p) (rp_owner p) (rp_revision p))
      else if m = ''subagent.result.release''
      then release_delegation_result (en_now en) (rp_child p) (rp_owner p) (rp_revision p)
      else deliver_delegation_result (en_now en) (rp_child p) (rp_owner p) (rp_revision p))"

definition child_result :: "rpc_env \<Rightarrow> string \<Rightarrow> result_params \<Rightarrow> 'p daemon \<Rightarrow> reply \<times> 'p daemon" where
  "child_result en m p s =
     (case scoped_delegation (rp_parent p) (rp_child p) (dm_store s) of
        Inl e \<Rightarrow> (Inl e, s)
      | Inr _ \<Rightarrow>
          (case result_call en m p (dm_store s) of
             Inl e \<Rightarrow> (Inl (request_conflict, en_store_text en e), s)
           | Inr (g, d) \<Rightarrow> (Inr (one_field ''child'' (en_show en (CChild g))), s\<lparr>dm_store := d\<rparr>)))"

definition has_executor :: "active_key list \<Rightarrow> string \<Rightarrow> 'p daemon \<Rightarrow> bool" where
  "has_executor keys rid s \<longleftrightarrow>
     list_ex (\<lambda>k. case dm_active s k of None \<Rightarrow> False | Some l \<Rightarrow> ac_run (lv_active l) = rid) keys"

definition reconcile :: "rpc_env \<Rightarrow> reconcile_params \<Rightarrow> 'p daemon \<Rightarrow> reply \<times> 'p daemon" where
  "reconcile en p s =
     (if has_executor (en_keys en) (rc_run p) s then (Inl (request_conflict, msg_run_active), s)
      else case reconcile_unknown (en_sha en) (en_now en) (rc_run p) (rc_session p) (rc_expected p) (rc_status p)
             (rc_content p) (rc_evidence p) (dm_store s) of
        Inl e \<Rightarrow> (Inl (request_conflict, en_store_text en e), s)
      | Inr (run, d) \<Rightarrow> (Inr (one_field ''run'' (run_json run)), s\<lparr>dm_store := d\<rparr>))"

definition cancel_in :: "rpc_env \<Rightarrow> cancel_params \<Rightarrow> 'p daemon \<Rightarrow> reply \<times> 'p daemon" where
  "cancel_in en p = cancel (en_render en) (en_store_text en) (en_now en) (en_listening en) (en_pending en) p"

definition cancel_child :: "rpc_env \<Rightarrow> scope_params \<Rightarrow> 'p daemon \<Rightarrow> reply \<times> 'p daemon" where
  "cancel_child en p s =
     (case scoped_delegation (sp_parent p) (sp_child p) (dm_store s) of
        Inl e \<Rightarrow> (Inl e, s)
      | Inr g \<Rightarrow> cancel_in en \<lparr>cn_request = None, cn_run = Some (dg_child_run (dr_row g)),
                  cn_session = Some (dg_child_session (dr_row g))\<rparr> s)"

definition remove_item :: "rpc_env \<Rightarrow> item_params \<Rightarrow> 'p daemon \<Rightarrow> reply \<times> 'p daemon" where
  "remove_item en p =
     cancel_in en \<lparr>cn_request = None, cn_run = Some (it_run p), cn_session = Some (it_session p)\<rparr>"

definition result_methods :: "string list" where
  "result_methods = [''subagent.result.reserve'', ''subagent.result.release'', ''subagent.result.commit'']"

definition answer_methods :: "string list" where
  "answer_methods = [''approval.respond'', ''interaction.respond'', ''interaction.reject'']"

definition stopping_json :: json where
  "stopping_json = JObj [(''stopping'', JBool True), (''active_turns_finish_gracefully'', JBool False),
     (''active_turns_cancelled'', JBool True)]"

text \<open>The methods that change the daemon; \<open>None\<close> for the others.\<close>

definition rpc_command :: "rpc_env \<Rightarrow> string \<Rightarrow> json \<Rightarrow> 'p daemon \<Rightarrow> (reply \<times> 'p daemon) option" where
  "rpc_command en m v s =
     (let rd = en_readers en in
      if m \<in> set answer_methods then
        Some (run_params (read_answer rd v)
          (answer_interaction (en_store_text en) (en_approval_text en) (en_interaction en) (en_now en)
             (en_listening en) (m = ''interaction.reject'')) s)
      else if m = ''agent.cancel'' then Some (run_params (read_cancel rd v) (cancel_in en) s)
      else if m = ''cancel_subagent'' then Some (run_params (read_scope rd v) (cancel_child en) s)
      else if m \<in> set result_methods then Some (run_params (read_result rd v) (child_result en m) s)
      else if m = ''queue.remove'' then Some (run_params (read_item rd v) (remove_item en) s)
      else if m = ''run.reconcile'' then Some (run_params (read_reconcile rd v) (reconcile en) s)
      else if m = ''daemon.stop'' then Some (Inr stopping_json, s\<lparr>dm_shutdown := True\<rparr>)
      else None)"

section \<open>The dispatch\<close>

text \<open>The methods with handlers of their own.\<close>

definition other_handlers :: "string list" where
  "other_handlers = [''chat.send'', ''agent.subscribe'', ''session.load'', ''session.load_page'', ''session.list'',
     ''session.new'', ''session.resume'', ''session.trace'', ''session.trace_page'', ''permissions.get'',
     ''permissions.set'', ''models.list'', ''models.use'', ''models.save'', ''spawn_subagent'', ''wait_subagents'',
     ''run.audit'', ''slash.execute'']"

text \<open>The frames a request is answered with and the daemon after it; \<open>None\<close>: another handler takes it.\<close>

definition handle_request :: "rpc_env \<Rightarrow> rpc_request \<Rightarrow> 'p daemon \<Rightarrow> (server_frame list \<times> 'p daemon) option" where
  "handle_request en q s =
     (if rpc_method q \<in> set other_handlers then None
      else case rpc_query en (rpc_method q) (rpc_params q) (dm_store s) of
        Some r \<Rightarrow> Some ([send_result (rpc_id q) r], s)
      | None \<Rightarrow>
          (case rpc_command en (rpc_method q) (rpc_params q) s of
             Some (r, s') \<Rightarrow> Some ([send_result (rpc_id q) r], s')
           | None \<Rightarrow> Some ([ResponseF (rpc_failure (rpc_id q) method_not_found (msg_no_method @ rpc_method q))], s)))"

section \<open>Every request is answered, and is a step of the system\<close>

lemma scoped_Inr_iff:
  "scoped_delegation parent child d = Inr g \<longleftrightarrow>
   read_delegation_in d child = Some g \<and> (parent = dg_parent_run (dr_row g) \<or> parent = dg_root_run (dr_row g))"
  by (cases "read_delegation_in d child") (auto simp: scoped_delegation_def)

text \<open>
  Every request of the dispatch is answered with exactly one response that carries its id,
  whatever its method and parameters are; only the methods with handlers of their own are left
  to these.
\<close>

theorem rpc_one_answer:
  "case handle_request en q s of
     None \<Rightarrow> rpc_method q \<in> set other_handlers
   | Some (fs, s') \<Rightarrow> \<exists>f. fs = [f] \<and> is_reply f \<and> server_frame_request_id f = rpc_id q"
  by (auto simp: handle_request_def rpc_failure_def split: option.splits prod.splits)

lemma result_call_step:
  "store_step sha d (result_op en m p) = committed (result_call en m p d) d"
  by (cases "en_later en") (simp add: result_op_def result_call_def)

lemma result_op_other: "other_write (result_op en m p)"
  by (cases "en_later en") (simp add: result_op_def)

text \<open>A command is a cancellation, an answer, a write or the stop of the system, or changes nothing.\<close>

definition stepped_to :: "'p system \<Rightarrow> 'p daemon \<Rightarrow> bool" where
  "stepped_to y s \<longleftrightarrow> s = sy_daemon y \<or> sys_step y (y\<lparr>sy_daemon := s\<rparr>)"

lemma stepped_same: "stepped_to y (sy_daemon y)"
  by (simp add: stepped_to_def)

lemma stepped_params:
  assumes "\<And>p r s. f p (sy_daemon y) = (r, s) \<Longrightarrow> stepped_to y s" and "run_params x f (sy_daemon y) = (r, s)"
  shows "stepped_to y s"
  using assms by (auto simp: run_params_def stepped_to_def split: sum.splits)

lemma stepped_write:
  assumes "other_write op" "store_step sha (dm_store (sy_daemon y)) op = d"
  shows "stepped_to y ((sy_daemon y)\<lparr>dm_store := d\<rparr>)"
  using sys_step.storing [OF assms(1), of y sha] assms(2) by (simp add: stepped_to_def)

lemma stepped_cancel: "cancel_in en p (sy_daemon y) = (r, s) \<Longrightarrow> stepped_to y s"
  by (simp add: cancel_in_def stepped_to_def sys_step.cancel)

lemma stepped_remove: "remove_item en p (sy_daemon y) = (r, s) \<Longrightarrow> stepped_to y s"
  unfolding remove_item_def by (rule stepped_cancel)

lemma stepped_cancel_child: "cancel_child en p (sy_daemon y) = (r, s) \<Longrightarrow> stepped_to y s"
  by (auto simp: cancel_child_def stepped_same dest: stepped_cancel split: sum.splits)

lemma stepped_result: "child_result en m p (sy_daemon y) = (r, s) \<Longrightarrow> stepped_to y s"
  using stepped_write [OF result_op_other, of "\<lambda>x. x" y en m p]
  by (auto simp: child_result_def result_call_step committed_def stepped_to_def split: sum.splits prod.splits)

lemma stepped_reconcile: "reconcile en p (sy_daemon y) = (r, s) \<Longrightarrow> stepped_to y s"
  using stepped_write [of "OpReconcile (en_now en) (rc_run p) (rc_session p) (rc_expected p) (rc_status p)
      (rc_content p) (rc_evidence p)" "en_sha en" y]
  by (auto simp: reconcile_def committed_def stepped_to_def split: sum.splits prod.splits if_splits)

lemma stepped_answer:
  "answer_interaction err_text ap_text ir_json now listening rejected a (sy_daemon y) = (r, s) \<Longrightarrow> stepped_to y s"
  by (simp add: stepped_to_def sys_step.answer)

lemma stepped_stop: "stepped_to y ((sy_daemon y)\<lparr>dm_shutdown := True\<rparr>)"
  by (simp add: stepped_to_def sys_step.stop)

lemma rpc_command_step: "rpc_command en m v (sy_daemon y) = Some (r, s) \<Longrightarrow> stepped_to y s"
  unfolding rpc_command_def Let_def
  by (auto split: if_splits dest: stepped_params [rotated] stepped_answer stepped_cancel stepped_remove stepped_cancel_child
      stepped_result stepped_reconcile intro: stepped_stop)



text \<open>
  A request over a delegated run that changes anything named a run and one of its ancestors:
  its parent or its root.
\<close>

definition scope_of :: "rpc_env \<Rightarrow> rpc_request \<Rightarrow> string + string \<times> string" where
  "scope_of en q =
     (if rpc_method q = ''cancel_subagent''
      then map_sum id (\<lambda>p. (sp_parent p, sp_child p)) (read_scope (en_readers en) (rpc_params q))
      else map_sum id (\<lambda>p. (rp_parent p, rp_child p)) (read_result (en_readers en) (rpc_params q)))"

theorem subagent_scope:
  assumes "rpc_method q \<in> set (''cancel_subagent'' # result_methods)"
    and "handle_request en q s = Some (fs, s')" "s' \<noteq> s"
  shows "\<exists>parent child g. scope_of en q = Inr (parent, child) \<and> read_delegation_in (dm_store s) child = Some g \<and>
    (parent = dg_parent_run (dr_row g) \<or> parent = dg_root_run (dr_row g))"
proof -
  have none: "rpc_query en (rpc_method q) (rpc_params q) d = None" "rpc_method q \<notin> set other_handlers" for d
    using assms(1) by (auto simp: rpc_query_def Let_def result_methods_def other_handlers_def)
  with assms(2,3) obtain r where "rpc_command en (rpc_method q) (rpc_params q) s = Some (r, s')"
    by (auto simp: handle_request_def split: option.splits)
  with assms(1,3) show ?thesis
    by (auto simp: rpc_command_def result_methods_def answer_methods_def run_params_def scope_of_def child_result_def
        cancel_child_def scoped_Inr_iff split: sum.splits)
qed

end
