(* ===== verification/Daemon_Cancel.thy ===== *)
theory Daemon_Cancel
  imports Handlers
begin

text \<open>
  What a cancellation reaches (src/src/daemon/handlers.rs, \<^verbatim>\<open>cancel\<close>): the passes over the
  delegations of a root run that collect the descendants of the cancelled run.
\<close>

definition below :: "delegation_record list \<Rightarrow> (string \<times> string) set" where
  "below rows = (\<lambda>g. (dg_parent_run (dr_row g), dg_child_run (dr_row g))) ` set rows"

definition child_of :: "delegation_record \<Rightarrow> string \<times> string" where
  "child_of g = (dg_child_run (dr_row g), dg_child_session (dr_row g))"

definition sub_inv :: "delegation_record list \<Rightarrow> string \<Rightarrow> string list \<times> (string \<times> string) list \<Rightarrow> bool" where
  "sub_inv rows rid ow \<longleftrightarrow>
     fst ow = rid # map fst (snd ow) \<and> distinct (fst ow) \<and>
     set (map fst (snd ow)) \<subseteq> (below rows)\<^sup>+ `` {rid} \<and> set (snd ow) \<subseteq> child_of ` set rows"

lemma own_pass_inv:
  "set rs \<subseteq> set rows \<Longrightarrow> sub_inv rows rid ow \<Longrightarrow> sub_inv rows rid (own_pass rs ow)"
proof (induction rs ow rule: own_pass.induct)
  case (2 g rs owned targets)
  let ?p = "dg_parent_run (dr_row g)" and ?c = "dg_child_run (dr_row g)"
  show ?case
  proof (cases "?p \<in> set owned \<and> ?c \<notin> set owned")
    case True
    have edge: "(?p, ?c) \<in> below rows" and child: "(?c, dg_child_session (dr_row g)) \<in> child_of ` set rows"
      using 2(3) by (auto simp: below_def child_of_def)
    from 2(4) have inv: "owned = rid # map fst targets" "distinct owned"
      "set (map fst targets) \<subseteq> (below rows)\<^sup>+ `` {rid}" "set targets \<subseteq> child_of ` set rows"
      unfolding sub_inv_def fst_conv snd_conv by blast+
    from True inv(1) have "?p = rid \<or> ?p \<in> set (map fst targets)" by simp
    with inv(3) have "?p = rid \<or> (rid, ?p) \<in> (below rows)\<^sup>+" by blast
    with edge have "(rid, ?c) \<in> (below rows)\<^sup>+" by (auto intro: trancl_into_trancl)
    with True inv child have "sub_inv rows rid (owned @ [?c], targets @ [(?c, dg_child_session (dr_row g))])"
      by (auto simp: sub_inv_def)
    with 2 True show ?thesis by simp
  qed (use 2 in auto)
qed simp

lemma own_pass_length: "length (fst ow) \<le> length (fst (own_pass rs ow))"
  by (induction rs ow rule: own_pass.induct) auto

lemma own_pass_closed:
  "length (fst (own_pass rs ow)) = length (fst ow) \<Longrightarrow>
   own_pass rs ow = ow \<and> (\<forall>g \<in> set rs. dg_parent_run (dr_row g) \<in> set (fst ow) \<longrightarrow> dg_child_run (dr_row g) \<in> set (fst ow))"
proof (induction rs ow rule: own_pass.induct)
  case (2 g rs owned targets)
  let ?c = "dg_child_run (dr_row g)"
  have "\<not> (dg_parent_run (dr_row g) \<in> set owned \<and> ?c \<notin> set owned)"
  proof
    assume a: "dg_parent_run (dr_row g) \<in> set owned \<and> ?c \<notin> set owned"
    have "length (owned @ [?c]) \<le> length (fst (own_pass rs (owned @ [?c], targets @ [(?c, dg_child_session (dr_row g))])))"
      using own_pass_length [of "(owned @ [?c], targets @ [(?c, dg_child_session (dr_row g))])" rs] by simp
    with a 2(3) show False by simp
  qed
  with 2 show ?case by auto
qed simp

lemma own_all_spec:
  "sub_inv rows rid ow \<Longrightarrow> sub_inv rows rid (own_all rows ow) \<and>
   (\<forall>g \<in> set rows. dg_parent_run (dr_row g) \<in> set (fst (own_all rows ow)) \<longrightarrow> dg_child_run (dr_row g) \<in> set (fst (own_all rows ow)))"
proof (induction rows ow rule: own_all.induct)
  case (1 rows ow)
  have inv: "sub_inv rows rid (own_pass rows ow)" using 1(2) by (rule own_pass_inv [OF order_refl])
  show ?case
  proof (cases "length (fst (own_pass rows ow)) = length (fst ow)")
    case True
    with own_pass_closed [OF True] 1(2) show ?thesis by (simp add: own_all.simps [of rows ow] Let_def)
  next
    case False
    with 1(1) [OF refl False inv] show ?thesis by (simp add: own_all.simps [of rows ow] Let_def)
  qed
qed


end
