(* ===== verification/Turn_Logic.thy ===== *)
theory Turn_Logic
  imports Loop
begin

text \<open>
  Reasoning about turns: triples over the steps of \<open>Loop\<close> and the facts the properties share.
  \<open>triple P m Q E\<close> says that from a state with \<open>P\<close> the step \<open>m\<close> either answers \<open>x\<close> in a state
  with \<open>Q x\<close> or fails with \<open>e\<close> in a state with \<open>E e\<close>.
\<close>

named_theorems triples

definition triple ::
  "(turn_state \<Rightarrow> bool) \<Rightarrow> 'a turn \<Rightarrow> ('a \<Rightarrow> turn_state \<Rightarrow> bool) \<Rightarrow> (turn_error \<Rightarrow> turn_state \<Rightarrow> bool) \<Rightarrow> bool" where
  "triple P m Q E \<longleftrightarrow>
     (\<forall>s. P s \<longrightarrow> (case m s of (Inl e, s') \<Rightarrow> E e s' | (Inr x, s') \<Rightarrow> Q x s'))"

lemma tripleI: "(\<And>s. P s \<Longrightarrow> case m s of (Inl e, s') \<Rightarrow> E e s' | (Inr x, s') \<Rightarrow> Q x s') \<Longrightarrow> triple P m Q E"
  by (simp add: triple_def)

lemma triple_Inr: "triple P m Q E \<Longrightarrow> P s \<Longrightarrow> m s = (Inr x, s') \<Longrightarrow> Q x s'"
  by (fastforce simp: triple_def)

lemma triple_Inl: "triple P m Q E \<Longrightarrow> P s \<Longrightarrow> m s = (Inl e, s') \<Longrightarrow> E e s'"
  by (fastforce simp: triple_def)

lemma triple_bind:
  assumes "triple P m R E" "\<And>x. triple (R x) (f x) Q E"
  shows "triple P (bindT m f) Q E"
proof (rule tripleI)
  fix s assume "P s"
  show "case bindT m f s of (Inl e, s') \<Rightarrow> E e s' | (Inr x, s') \<Rightarrow> Q x s'"
  proof (cases "m s")
    case (Pair r s1)
    then show ?thesis
      using triple_Inl [OF assms(1) \<open>P s\<close>] triple_Inr [OF assms(1) \<open>P s\<close>] assms(2)
      by (cases r) (auto simp: bindT_def triple_def)
  qed
qed

lemma triple_weaken:
  assumes "triple P m Q E" "\<And>s. P' s \<Longrightarrow> P s" "\<And>x s. Q x s \<Longrightarrow> Q' x s" "\<And>e s. E e s \<Longrightarrow> E' e s"
  shows "triple P' m Q' E'"
  using assms by (fastforce simp: triple_def split: prod.splits sum.splits)

lemma triple_pre: "triple P m Q E \<Longrightarrow> (\<And>s. P' s \<Longrightarrow> P s) \<Longrightarrow> triple P' m Q E"
  by (erule triple_weaken) auto

lemma triple_return: "(\<And>s. P s \<Longrightarrow> Q x s) \<Longrightarrow> triple P (returnT x) Q E"
  by (simp add: triple_def returnT_def)

lemma triple_fail: "(\<And>s. P s \<Longrightarrow> E e s) \<Longrightarrow> triple P (failT e) Q E"
  by (simp add: triple_def failT_def)

lemma triple_modify: "(\<And>s. P s \<Longrightarrow> Q () (f s)) \<Longrightarrow> triple P (modifyT f) Q E"
  by (simp add: triple_def modifyT_def)

lemma triple_get: "(\<And>s. P s \<Longrightarrow> Q (f s) s) \<Longrightarrow> triple P (getT f) Q E"
  by (simp add: triple_def getT_def)

lemma triple_if:
  "(b \<Longrightarrow> triple P m Q E) \<Longrightarrow> (\<not> b \<Longrightarrow> triple P m' Q E) \<Longrightarrow> triple P (if b then m else m') Q E"
  by simp

section \<open>Steps that only add to the trace\<close>

text \<open>The effects a batch of tools leaves.\<close>

fun tool_effect :: "effect \<Rightarrow> bool" where
  "tool_effect (Appended m) = False"
| "tool_effect (ModelCalled ms sp) = False"
| "tool_effect _ = True"

definition only_tools :: "('a turn) \<Rightarrow> bool" where
  "only_tools m \<longleftrightarrow>
     (\<forall>s. \<exists>new. snd (m s) = s\<lparr>ts_trace := ts_trace s @ new\<rparr> \<and> list_all tool_effect new)"

lemma only_toolsE:
  assumes "only_tools m" "m s = (r, s')"
  obtains new where "s' = s\<lparr>ts_trace := ts_trace s @ new\<rparr>" "list_all tool_effect new"
  using assms by (metis only_tools_def snd_conv)

lemma only_tools_bind:
  assumes "only_tools m" "\<And>x. only_tools (f x)"
  shows "only_tools (bindT m f)"
  unfolding only_tools_def
proof
  fix s
  obtain r s1 where m: "m s = (r, s1)" by fastforce
  obtain new where new: "s1 = s\<lparr>ts_trace := ts_trace s @ new\<rparr>" "list_all tool_effect new"
    using only_toolsE [OF assms(1) m] .
  show "\<exists>new. snd (bindT m f s) = s\<lparr>ts_trace := ts_trace s @ new\<rparr> \<and> list_all tool_effect new"
  proof (cases r)
    case (Inl e)
    with m new show ?thesis by (auto simp: bindT_def)
  next
    case (Inr x)
    obtain r2 s2 where f: "f x s1 = (r2, s2)" by fastforce
    obtain new2 where "s2 = s1\<lparr>ts_trace := ts_trace s1 @ new2\<rparr>" "list_all tool_effect new2"
      using only_toolsE [OF assms(2) f] .
    with new have "s2 = s\<lparr>ts_trace := ts_trace s @ (new @ new2)\<rparr>" "list_all tool_effect (new @ new2)" by simp_all
    with Inr m f show ?thesis by (auto simp: bindT_def simp del: append_assoc)
  qed
qed

lemma only_tools_nothing: "(\<And>s. snd (m s) = s) \<Longrightarrow> only_tools m"
  unfolding only_tools_def by (intro allI exI [of _ "[]"]) simp

lemma only_tools_add: "tool_effect e \<Longrightarrow> only_tools (modifyT (add_effect e))"
  unfolding only_tools_def by (intro allI exI [of _ "[e]"]) (simp add: modifyT_def add_effect_def)

lemma only_tools_one:
  assumes "\<And>s. snd (m s) = s \<or> (\<exists>e. tool_effect e \<and> snd (m s) = add_effect e s)"
  shows "only_tools m"
  unfolding only_tools_def
proof
  fix s
  from assms [of s] show "\<exists>new. snd (m s) = s\<lparr>ts_trace := ts_trace s @ new\<rparr> \<and> list_all tool_effect new"
  proof (elim disjE exE)
    assume "snd (m s) = s"
    then show ?thesis by (intro exI [of _ "[]"]) simp
  next
    fix e assume "tool_effect e \<and> snd (m s) = add_effect e s"
    then show ?thesis by (intro exI [of _ "[e]"]) (simp add: add_effect_def)
  qed
qed

lemma only_tools_store_call: "tool_effect e \<Longrightarrow> only_tools (store_call env en e)"
  by (rule only_tools_one) (auto simp: store_call_def)

lemma added_tool: "tool_effect e \<Longrightarrow> \<exists>e'. tool_effect e' \<and> add_effect e s = add_effect e' s"
  by blast

lemma only_tools_finish_call: "only_tools (finish_call env en round c failed content err)"
proof (rule only_tools_one)
  fix s
  show "snd (finish_call env en round c failed content err s) = s \<or>
      (\<exists>e. tool_effect e \<and> snd (finish_call env en round c failed content err s) = add_effect e s)"
    by (cases "te_artifact env (ts_trace s) content")
      (simp_all add: finish_call_def store_call_def added_tool)
qed

lemma only_tools_run_tool: "only_tools (run_tool env en c)"
proof (rule only_tools_one)
  fix s
  show "snd (run_tool env en c s) = s \<or> (\<exists>e. tool_effect e \<and> snd (run_tool env en c s) = add_effect e s)"
    using added_tool [of "ToolRan c" s] by (simp add: run_tool_def)
qed

lemma only_tools_execute_one: "only_tools (execute_one env en round c)"
  unfolding execute_one_def emit_def Let_def
  by (intro only_tools_bind only_tools_store_call only_tools_add only_tools_run_tool only_tools_finish_call
      only_tools_nothing) (simp_all add: returnT_def)

lemma run_wave_trace:
  "\<exists>new. snd (run_wave env en round cs s) = s\<lparr>ts_trace := ts_trace s @ new\<rparr> \<and> list_all tool_effect new"
proof (induction cs arbitrary: s)
  case Nil
  show ?case by (auto intro: exI [of _ "[]"])
next
  case (Cons c cs)
  obtain r s1 where e: "execute_one env en round c s = (r, s1)" by fastforce
  obtain new where new: "s1 = s\<lparr>ts_trace := ts_trace s @ new\<rparr>" "list_all tool_effect new"
    using only_toolsE [OF only_tools_execute_one e] .
  obtain new2 where "snd (run_wave env en round cs s1) = s1\<lparr>ts_trace := ts_trace s1 @ new2\<rparr>" "list_all tool_effect new2"
    using Cons by blast
  with new have "snd (run_wave env en round cs s1) = s\<lparr>ts_trace := ts_trace s @ (new @ new2)\<rparr>"
    "list_all tool_effect (new @ new2)" by simp_all
  with e show ?case by (auto simp: split_beta simp del: append_assoc)
qed

lemma only_tools_execute_waves: "only_tools (execute_waves env en round cs)"
proof (induction cs rule: measure_induct_rule [where f = length])
  case (less cs)
  show ?case
    unfolding only_tools_def
  proof
    fix s
    show "\<exists>new. snd (execute_waves env en round cs s) = s\<lparr>ts_trace := ts_trace s @ new\<rparr> \<and> list_all tool_effect new"
    proof (cases "cs = []")
      case True
      then show ?thesis by (auto simp: execute_waves.simps intro: exI [of _ "[]"])
    next
      case False
      obtain rl s1 where r: "run_wave env en round (wave_calls en cs) s = (rl, s1)" by fastforce
      obtain new where new: "s1 = s\<lparr>ts_trace := ts_trace s @ new\<rparr>" "list_all tool_effect new"
        using run_wave_trace [of env en round "wave_calls en cs" s] r by auto
      show ?thesis
      proof (cases "collect_results rl")
        case (Inl e)
        with False r new show ?thesis by (auto simp: execute_waves.simps [of env en round cs s])
      next
        case (Inr batch)
        define m where "m = bindT (execute_waves env en round (drop (length (wave_calls en cs)) cs))
          (\<lambda>rest. returnT (batch @ rest))"
        have "only_tools m"
          using False unfolding m_def
          by (intro only_tools_bind less only_tools_nothing) (simp_all add: returnT_def wave_calls_not_Nil)
        moreover obtain r2 s2 where m: "m s1 = (r2, s2)" by fastforce
        ultimately obtain new2 where "s2 = s1\<lparr>ts_trace := ts_trace s1 @ new2\<rparr>" "list_all tool_effect new2"
          by (rule only_toolsE)
        with new have "s2 = s\<lparr>ts_trace := ts_trace s @ (new @ new2)\<rparr>" "list_all tool_effect (new @ new2)"
          by simp_all
        moreover have "snd (execute_waves env en round cs s) = s2"
          using False r Inr m by (simp add: execute_waves.simps [of env en round cs s] m_def [symmetric])
        ultimately show ?thesis by blast
      qed
    qed
  qed
qed

lemma only_tools_execute_batch: "only_tools (execute_batch env en round cs)"
  unfolding only_tools_def
proof
  fix s
  obtain r s1 where e: "execute_waves env en round cs s = (r, s1)" by fastforce
  obtain new where new: "s1 = s\<lparr>ts_trace := ts_trace s @ new\<rparr>" "list_all tool_effect new"
    using only_toolsE [OF only_tools_execute_waves e] .
  have "list_all tool_effect (take k new)" for k
    using new(2) by (auto simp: list_all_iff dest: in_set_takeD)
  with e new show "\<exists>new. snd (execute_batch env en round cs s) = s\<lparr>ts_trace := ts_trace s @ new\<rparr> \<and> list_all tool_effect new"
    by (auto simp: execute_batch_def split: option.split)
qed

section \<open>The results of a batch\<close>

definition answers_call :: "tool_call \<Rightarrow> tool_execution \<Rightarrow> bool" where
  "answers_call c x \<longleftrightarrow>
     msg_role (ex_message x) = RTool \<and> msg_call_id (ex_message x) = Some (tc_id c) \<and> msg_calls (ex_message x) = []"

lemma execute_one_answers: "execute_one env en round c s = (Inr x, s') \<Longrightarrow> answers_call c x"
  by (auto simp: execute_one_def bindT_def returnT_def answers_call_def tool_result_def Let_def
      split: prod.splits sum.splits)

lemma run_wave_answers:
  "run_wave env en round cs s = (rl, s') \<Longrightarrow> collect_results rl = Inr xs \<Longrightarrow> list_all2 answers_call cs xs"
proof (induction cs arbitrary: s s' rl xs)
  case (Cons c cs)
  obtain r s1 where e: "execute_one env en round c s = (r, s1)" by fastforce
  obtain rl2 s2 where w: "run_wave env en round cs s1 = (rl2, s2)" by fastforce
  from Cons.prems e w have rl: "rl = r # rl2" by simp
  with Cons.prems(2) obtain x xs2 where x: "r = Inr x" "collect_results rl2 = Inr xs2" "xs = x # xs2"
    by (auto simp: bindE_def split: sum.splits)
  with Cons.IH [OF w x(2)] execute_one_answers e show ?case by auto
qed simp

lemma wave_calls_take: "cs \<noteq> [] \<Longrightarrow> wave_calls en cs = take (length (wave_calls en cs)) cs"
  using takeWhile_eq_take [of "\<lambda>c. is_read_only (en_tools en) (tc_name c)" cs]
  by (cases cs) (simp_all add: wave_calls_def split: if_splits)

lemma execute_waves_answers:
  "execute_waves env en round cs s = (Inr xs, s') \<Longrightarrow> list_all2 answers_call cs xs"
proof (induction cs arbitrary: s s' xs rule: measure_induct_rule [where f = length])
  case (less cs)
  show ?case
  proof (cases "cs = []")
    case True
    with less.prems show ?thesis by (simp add: execute_waves.simps)
  next
    case False
    let ?w = "wave_calls en cs"
    obtain rl s1 where r: "run_wave env en round ?w s = (rl, s1)" by fastforce
    with less.prems False obtain batch rest s2 where
      b: "collect_results rl = Inr batch" "xs = batch @ rest"
        "execute_waves env en round (drop (length ?w) cs) s1 = (Inr rest, s2)"
      by (auto simp: execute_waves.simps [of env en round cs s] bindT_def returnT_def
          split: sum.splits prod.splits)
    have "list_all2 answers_call (take (length ?w) cs) batch"
      using run_wave_answers [OF r b(1)] wave_calls_take [OF False, of en] by simp
    moreover have "list_all2 answers_call (drop (length ?w) cs) rest"
      using less.IH [OF _ b(3)] False by (simp add: wave_calls_not_Nil)
    ultimately show ?thesis
      unfolding b(2) by (metis append_take_drop_id list_all2_appendI)
  qed
qed

lemma execute_batch_answers:
  "execute_batch env en round cs s = (Inr xs, s') \<Longrightarrow> list_all2 answers_call cs xs"
  by (auto simp: execute_batch_def intro: execute_waves_answers split: prod.splits option.splits)

end
