(* ===== verification/Turn_Contract.thy ===== *)
theory Turn_Contract
  imports Turn_Logic
begin

text \<open>
  The contract of one round: a locale names what a predicate on turn states has to survive
  (\<open>ready\<close> before the round, \<open>asked\<close> until the model is called, \<open>kept\<close> afterwards) and derives
  that a whole round and, for a holds predicate, a whole turn keeps it.
\<close>

text \<open>The state after a message is on record.\<close>

definition appended :: "engine \<Rightarrow> message \<Rightarrow> turn_state \<Rightarrow> turn_state" where
  "appended en m s =
     (if en_session en then add_effect (Appended m) s else s)\<lparr>ts_history := ts_history s @ [m]\<rparr>"

lemma record_message_cases:
  "record_message env en m s = (Inl TSession, s) \<or> record_message env en m s = (Inr (), appended en m s)"
  by (auto simp: record_message_def appended_def)

lemma triple_record:
  assumes "\<And>s. P s \<Longrightarrow> Q () (appended en m s)" "\<And>s. P s \<Longrightarrow> E TSession s"
  shows "triple P (record_message env en m) Q E"
proof (rule tripleI)
  fix s assume "P s"
  with assms record_message_cases [of env en m s]
  show "case record_message env en m s of (Inl e, s') \<Rightarrow> E e s' | (Inr x, s') \<Rightarrow> Q x s'" by auto
qed

lemma triple_store_call:
  assumes "\<And>s. P s \<Longrightarrow> Q () (if en_audit en then add_effect e s else s)" "\<And>s. P s \<Longrightarrow> E TStorage s"
  shows "triple P (store_call env en e) Q E"
proof (rule tripleI)
  fix s assume "P s"
  with assms show "case store_call env en e s of (Inl e, s') \<Rightarrow> E e s' | (Inr x, s') \<Rightarrow> Q x s'"
    by (auto simp: store_call_def)
qed

text \<open>Messages without tool calls and tool results.\<close>

definition plain_message :: "message \<Rightarrow> bool" where
  "plain_message m \<longleftrightarrow> msg_role m \<noteq> RTool \<and> msg_calls m = []"

lemma plain_messages [simp]:
  "r \<noteq> RTool \<Longrightarrow> plain_message (text_message r t)" "plain_message (assistant_with_thinking t th)"
  by (simp_all add: plain_message_def message_defs)

locale round_contract =
  fixes env :: turn_env and en :: engine
    and ready asked kept :: "turn_state \<Rightarrow> bool"
    and err :: "turn_error \<Rightarrow> turn_state \<Rightarrow> bool"
  assumes round_ok: "ready s \<Longrightarrow> (\<forall>n. en_round_limit en = Some n \<longrightarrow> Suc (ts_round s) \<le> n) \<Longrightarrow>
      asked (s\<lparr>ts_round := Suc (ts_round s)\<rparr>)"
    and round_err: "ready s \<Longrightarrow> en_round_limit en = Some n \<Longrightarrow> n < Suc (ts_round s) \<Longrightarrow>
      err (RoundLimit n) (s\<lparr>ts_round := Suc (ts_round s)\<rparr>)"
    and context_ok: "asked s \<Longrightarrow> prepare sm js cm e1 e2 sp (ts_history s) = (r, h) \<Longrightarrow> asked (s\<lparr>ts_history := h\<rparr>)"
    and asked_reminder: "asked s \<Longrightarrow> asked (s\<lparr>ts_reminder := b\<rparr>)"
    and asked_err: "asked s \<Longrightarrow> err e s"
    and model_ok: "asked s \<Longrightarrow> kept (add_effect (ModelCalled ms sp) s\<lparr>ts_breaker := br\<rparr>)"
    and kept_err: "kept s \<Longrightarrow> err e s"
    and kept_counters: "kept s \<Longrightarrow> kept (s\<lparr>ts_tokens := t, ts_failures := f\<rparr>)"
    and kept_emit: "kept s \<Longrightarrow> kept (add_effect (Emit ev) s)"
    and kept_append: "kept s \<Longrightarrow> plain_message m \<Longrightarrow> kept (appended en m s)"
    and kept_calls: "cs \<noteq> [] \<Longrightarrow> admit_all (en_tools en) cs = Inr () \<Longrightarrow>
      triple kept (run_calls env en round cs th) (\<lambda>_. kept) err"
begin

lemma kept_failures: "kept s \<Longrightarrow> kept (s\<lparr>ts_failures := f\<rparr>)"
  using kept_counters [where s = s and t = "ts_tokens s" and f = f] by simp

lemma kept_tokens: "kept s \<Longrightarrow> kept (s\<lparr>ts_tokens := t\<rparr>)"
  using kept_counters [where s = s and t = t and f = "ts_failures s"] by simp

lemma round_next: "triple ready (next_round en) (\<lambda>_. asked) err"
  by (rule tripleI) (auto simp: next_round_def Let_def split: option.split intro: round_ok round_err)

lemma round_prepare: "triple asked (prepare_context env en sp) (\<lambda>_. asked) err"
proof (rule tripleI)
  fix s assume a: "asked s"
  obtain e1 e2 where e: "te_compose env (ts_trace s) = (e1, e2)" by fastforce
  obtain r h where p: "prepare (te_summarizer env (ts_trace s)) (te_json env) (en_context en) e1 e2 sp (ts_history s) = (r, h)"
    by fastforce
  have "asked (s\<lparr>ts_history := h\<rparr>)" by (rule context_ok [OF a p])
  with e p asked_err show "case prepare_context env en sp s of (Inl e, s') \<Rightarrow> err e s' | (Inr x, s') \<Rightarrow> asked s'"
    by (cases r) (auto simp: prepare_context_def Let_def)
qed

lemma round_model: "triple asked (model_call env ms sp) (\<lambda>_. kept) err"
proof (rule tripleI)
  fix s assume a: "asked s"
  note k = model_ok [OF a, where ms = ms and sp = sp]
  have "kept (add_effect (ModelCalled ms sp) s)"
    using k [where br = "ts_breaker s"] by (simp add: add_effect_def)
  with k kept_err show "case model_call env ms sp s of (Inl e, s') \<Rightarrow> err e s' | (Inr x, s') \<Rightarrow> kept s'"
    by (auto simp: model_call_def Let_def map_sum_def split: model_env.split prod.split sum.split)
qed

lemma round_budget: "triple kept (check_budget env en ms r) (\<lambda>_. kept) err"
  by (rule tripleI)
    (auto simp: check_budget_def Let_def split: option.split intro: kept_err kept_tokens)

lemma round_refuse: "triple kept (refuse env en notice stop) (\<lambda>_. kept) err"
  unfolding refuse_def
  by (intro triple_bind [where R = "\<lambda>_. kept"] triple_modify triple_record triple_get triple_if triple_fail triple_return)
    (simp_all add: kept_failures kept_append kept_err)

lemma round_response: "triple kept (handle_response env en round output) (\<lambda>_. kept) err"
proof (cases "out_response output")
  case (Text t)
  then show ?thesis
    unfolding handle_response_def emit_def
    by (simp, intro triple_bind [where R = "\<lambda>_. kept"] triple_record triple_modify triple_return)
      (simp_all add: kept_append kept_emit kept_err)
next
  case (ToolCalls cs)
  then show ?thesis
    using round_refuse kept_calls
    by (cases "cs = []"; cases "admit_all (en_tools en) cs") (simp_all add: handle_response_def)
next
  case (ToolAssemblyFailed e)
  then show ?thesis using round_refuse by (simp add: handle_response_def)
qed

lemma round_kept: "triple ready (one_round env en sp) (\<lambda>_. kept) err"
  unfolding one_round_def
proof (rule triple_bind [OF round_next], rule triple_bind [OF round_prepare])
  fix round ms
  have "triple asked (request_messages en round ms) (\<lambda>_. asked) err"
    by (rule tripleI) (simp add: request_messages_def asked_reminder)
  then show "triple asked (bindT (request_messages en round ms) (\<lambda>ms. bindT (model_call env ms sp) (\<lambda>output.
      bindT (check_budget env en ms (out_response output)) (\<lambda>_. handle_response env en round output)))) (\<lambda>_. kept) err"
    by (intro triple_bind [OF _ triple_bind [OF round_model triple_bind [OF round_budget round_response]]])
qed

end

section \<open>Turns\<close>

text \<open>The round that ended a turn.\<close>

definition ends_turn ::
  "turn_env \<Rightarrow> engine \<Rightarrow> tool_spec list \<Rightarrow> turn_state \<Rightarrow> (turn_error + string) \<times> turn_state \<Rightarrow> bool" where
  "ends_turn env en sp s res \<longleftrightarrow>
     one_round env en sp s = (case res of (Inl e, s') \<Rightarrow> (Inl e, s') | (Inr t, s') \<Rightarrow> (Inr (Some t), s'))"

lemma last_round:
  assumes "run_rounds env en sp s = Some res" and "holds s"
    and step: "\<And>s s'. holds s \<Longrightarrow> one_round env en sp s = (Inr None, s') \<Longrightarrow> holds s'"
  shows "\<exists>s1. holds s1 \<and> ends_turn env en sp s1 res"
proof -
  have "holds s \<longrightarrow> env = env \<and> en = en \<and> sp = sp \<longrightarrow> (\<exists>s1. holds s1 \<and> ends_turn env en sp s1 res)"
  proof (rule run_rounds.raw_induct [where P = "\<lambda>env' en' sp' s res. holds s \<longrightarrow> env' = env \<and> en' = en \<and> sp' = sp \<longrightarrow>
        (\<exists>s1. holds s1 \<and> ends_turn env en sp s1 res)", OF _ assms(1)], intro impI, elim conjE, hypsubst)
    fix f s y
    assume IH: "\<And>env' en' sp' s y. f env' en' sp' s = Some y \<Longrightarrow> holds s \<longrightarrow> env' = env \<and> en' = en \<and> sp' = sp \<longrightarrow>
        (\<exists>s1. holds s1 \<and> ends_turn env en sp s1 y)"
      and body: "(case one_round env en sp s of (Inl e, s') \<Rightarrow> Some (Inl e, s') | (Inr None, s') \<Rightarrow> f env en sp s'
        | (Inr (Some t), s') \<Rightarrow> Some (Inr t, s')) = Some y"
      and i: "holds s"
    obtain r s' where r: "one_round env en sp s = (r, s')" by fastforce
    consider e where "r = Inl e" | "r = Inr None" | t where "r = Inr (Some t)"
      by (metis option.exhaust sum.exhaust)
    then show "\<exists>s1. holds s1 \<and> ends_turn env en sp s1 y"
    proof cases
      case 2
      with body r have "f env en sp s' = Some y" by simp
      with IH step [OF i] r 2 show ?thesis by blast
    qed (use body r i in \<open>auto simp: ends_turn_def intro!: exI [of _ s]\<close>)
  qed
  with assms(2) show ?thesis by blast
qed

text \<open>A predicate that every round hands on unchanged holds until the turn ends.\<close>

locale turn_invariant = round_contract env en holds asked holds err for env en holds asked err
begin

lemma rounds_kept:
  assumes "run_rounds env en sp s = Some (r, s')" "holds s"
  shows "case r of Inl e \<Rightarrow> err e s' | Inr t \<Rightarrow> holds s'"
proof -
  have "\<exists>s1. holds s1 \<and> ends_turn env en sp s1 (r, s')"
    by (rule last_round [where holds = holds, OF assms]) (rule triple_Inr [OF round_kept])
  then obtain s1 where s1: "holds s1" "ends_turn env en sp s1 (r, s')" by (elim exE conjE)
  show ?thesis
  proof (cases r)
    case (Inl e)
    with s1(2) have "one_round env en sp s1 = (Inl e, s')" by (simp add: ends_turn_def)
    from triple_Inl [OF round_kept s1(1) this] Inl show ?thesis by simp
  next
    case (Inr t)
    with s1(2) have "one_round env en sp s1 = (Inr (Some t), s')" by (simp add: ends_turn_def)
    from triple_Inr [OF round_kept s1(1) this] Inr show ?thesis by simp
  qed
qed

lemma turn_kept:
  assumes "run_turn env en history input b = Some (r, s')" and "holds (init_turn history b)"
  shows "case r of Inl e \<Rightarrow> err e s' | Inr t \<Rightarrow> holds s'"
proof -
  have b: "triple holds (begin_turn env en input) (\<lambda>_. holds) err"
    unfolding begin_turn_def emit_def
    by (intro triple_if triple_fail triple_bind [where R = "\<lambda>_. holds"] triple_modify triple_record)
      (simp_all add: kept_err kept_emit kept_append)
  obtain r1 s1 where r1: "begin_turn env en input (init_turn history b) = (r1, s1)" by fastforce
  show ?thesis
  proof (cases r1)
    case (Inl e)
    with assms r1 triple_Inl [OF b assms(2)] show ?thesis by (auto simp: run_turn_def)
  next
    case (Inr u)
    with r1 triple_Inr [OF b assms(2)] have "holds s1" by simp
    with assms(1) Inr r1 rounds_kept show ?thesis by (auto simp: run_turn_def)
  qed
qed

end

end
