(* ===== verification/Turn_Sample.thy ===== *)
theory Turn_Sample
  imports Turn_Contract
begin

text \<open>
  A concrete turn the properties of turns are tried on: the model asks for one file, the tool
  answers, the model ends with a text. Session and audit store are on and accept everything.
\<close>

definition roomy_manager :: context_manager where
  "roomy_manager = tight_manager\<lparr>cm_config := tight_config\<lparr>cc_recent_messages := 100\<rparr>\<rparr>"

definition sample_engine :: engine where
  "sample_engine = \<lparr>en_tools = sample_registry, en_context = roomy_manager, en_round_limit = Some 3,
     en_token_budget = None, en_session = True, en_audit = True, en_tools_supported = True\<rparr>"

definition asked_before :: "trace \<Rightarrow> bool" where
  "asked_before tr \<longleftrightarrow> (\<exists>e \<in> set tr. case e of ModelCalled ms sp \<Rightarrow> True | _ \<Rightarrow> False)"

definition call_events :: "(int \<times> provider_event) list" where
  "call_events = [(0, ToolCallStarted (wire Ollama ''c1'') ''read''), (0, ToolCallDelta (wire Ollama ''c1'') (Append ''{}'')),
     (0, ToolCallCompleted (wire Ollama ''c1''))]"

definition sample_env :: turn_env where
  "sample_env = \<lparr>te_cancelled = False, te_lock_cancelled = False, te_append = (\<lambda>tr m. True),
     te_store = (\<lambda>tr e. True), te_artifact = (\<lambda>tr c. Some ''f''), te_usage = (\<lambda>tr. None),
     te_compose = (\<lambda>tr. (quiet_env, quiet_env)), te_summarizer = (\<lambda>tr. plain_summarizer),
     te_model = (\<lambda>tr ms sp. Direct False (if asked_before tr then [(0, TextDelta ''ok'')] else call_events) (Inr ())),
     te_act = (\<lambda>tr t a. Inr (output_text ''x'')), te_cut = (\<lambda>tr. None), te_duration = (\<lambda>tr. 0),
     te_json = plain_json, te_json_text = (\<lambda>j. ''j''), te_hash = (\<lambda>s. 0), te_sha256 = (\<lambda>s. ''h''),
     te_enc = id, te_parse = (\<lambda>s. Inr (tc_arguments read_call))\<rparr>"

definition sample_call :: tool_call where
  "sample_call = read_call\<lparr>tc_id := identity_encode id (wire Ollama ''c1'')\<rparr>"

lemma sample_first_answer:
  "snd (snd (request_model_once id (\<lambda>s. Inr (tc_arguments read_call)) call_events (Inr ()))) =
     Inr \<lparr>out_response = ToolCalls [sample_call], out_thinking = None\<rparr>"
proof -
  have "\<not> is_blank ''read''" "\<not> is_blank ''{}''" "trim ''{}'' = ''{}''"
    by (auto simp: is_blank_def trim_id ascii_ws_def byte_def ws2_def ws3_def)
  then show ?thesis
  by (simp add: request_model_once_def call_events_def init_stream_def consume_provider_event_def finish_thinking_def
      default_assembler_def accept_def accept_started_def accept_delta_def accept_completed_def finish_def
      incomplete_def put_def call_arguments_def observe_all_def default_observation_def observe_tool_def
      mark_first_event_def sample_call_def read_call_def Let_def)
qed

lemma sample_last_answer:
  "snd (snd (request_model_once id p [(0, TextDelta ''ok'')] (Inr ()))) =
     Inr \<lparr>out_response = Text ''ok'', out_thinking = None\<rparr>"
  by (simp add: request_model_once_def init_stream_def consume_provider_event_def finish_thinking_def
      default_assembler_def accept_def finish_def observe_all_def default_observation_def observe_text_def
      mark_first_event_def Let_def)

lemma roomy_prepare:
  "length h \<le> 100 \<Longrightarrow> prepare sm js roomy_manager e1 e2 sp h = (Inr (compose roomy_manager e2 h), h)"
  by (simp add: prepare_def compress_history_def roomy_manager_def tight_manager_def tight_config_def Let_def)

lemma sample_admitted: "admit sample_registry ''read'' (tc_arguments read_call) = Inr ()"
  using read_call_admitted admit_all_ok [of sample_registry "[read_call]"] by (simp add: read_call_def)

lemma sample_admit_all: "admit_all (en_tools sample_engine) [sample_call] = Inr ()"
  using sample_admitted by (simp add: sample_engine_def sample_call_def bindE_def) (simp add: read_call_def)

lemma sample_resolved: "resolve sample_registry ''read'' = Some read_tool"
  by (simp add: sample_registry_defs)

lemma sample_runs:
  "run_tool sample_env sample_engine sample_call s = (Inr (Inr (output_text ''x'')), add_effect (ToolRan sample_call) s)"
  using sample_admitted sample_resolved
  by (simp add: run_tool_def execute_with_cancellation_def sample_engine_def sample_env_def sample_call_def)
     (simp add: read_call_def)

text \<open>Engine and environment, reduced to what the steps read.\<close>

lemma sample_reads [simp]:
  "en_session sample_engine" "en_audit sample_engine" "en_round_limit sample_engine = Some 3"
  "en_token_budget sample_engine = None" "en_tools_supported sample_engine" "en_context sample_engine = roomy_manager"
  "te_append sample_env tr m" "te_store sample_env tr e" "te_artifact sample_env tr c = Some ''f''"
  "\<not> te_cancelled sample_env" "\<not> te_lock_cancelled sample_env" "te_cut sample_env tr = None"
  "te_compose sample_env tr = (quiet_env, quiet_env)"
  by (simp_all add: sample_engine_def sample_env_def)

lemma sample_model:
  "model_call sample_env ms sp s =
     (Inr (if asked_before (ts_trace s) then \<lparr>out_response = Text ''ok'', out_thinking = None\<rparr>
           else \<lparr>out_response = ToolCalls [sample_call], out_thinking = None\<rparr>),
      add_effect (ModelCalled ms sp) s)"
  using sample_first_answer sample_last_answer
  by (simp add: model_call_def sample_env_def Let_def)

lemma sample_execute_one:
  "\<exists>x ev1 ev2 receipt. execute_one sample_env sample_engine round sample_call s =
     (Inr x, s\<lparr>ts_trace := ts_trace s @ [CallStarted round (tc_id sample_call), Emit ev1, ToolRan sample_call,
        CallFinished round (tc_id sample_call) ''success'' ''f'' receipt, Emit ev2]\<rparr>) \<and>
     \<not> ex_failed x \<and> ex_message x = tool_result sample_call ''x'' \<and> ex_transient x = [] \<and> ex_error x = None"
  by (auto simp: execute_one_def bindT_def store_call_def emit_def modifyT_def sample_runs finish_call_def
      returnT_def output_text_def add_effect_def Let_def)

lemma sample_execute_batch:
  "\<exists>x new. execute_batch sample_env sample_engine round [sample_call] s =
     (Inr [x], s\<lparr>ts_trace := ts_trace s @ new\<rparr>) \<and> ToolRan sample_call \<in> set new \<and> list_all tool_effect new \<and>
     \<not> ex_failed x \<and> ex_message x = tool_result sample_call ''x'' \<and> ex_transient x = [] \<and> ex_error x = None"
proof -
  obtain x ev1 ev2 receipt where x: "execute_one sample_env sample_engine round sample_call s =
     (Inr x, s\<lparr>ts_trace := ts_trace s @ [CallStarted round (tc_id sample_call), Emit ev1, ToolRan sample_call,
        CallFinished round (tc_id sample_call) ''success'' ''f'' receipt, Emit ev2]\<rparr>)"
     "\<not> ex_failed x" "ex_message x = tool_result sample_call ''x''" "ex_transient x = []" "ex_error x = None"
    using sample_execute_one by blast
  have w: "wave_calls sample_engine [sample_call] = [sample_call]" by (simp add: wave_calls_def)
  show ?thesis
    using x by (auto simp: execute_batch_def execute_waves.simps w bindE_def bindT_def returnT_def)
qed

lemma sample_round_calls:
  assumes "\<not> asked_before (ts_trace s)" "ts_round s < 3" "length (ts_history s) \<le> 10"
    "ts_detector s = new_detector"
  shows "\<exists>s' tr. one_round sample_env sample_engine sp s = (Inr None, s') \<and>
     ts_trace s' = ts_trace s @ tr \<and> ToolRan sample_call \<in> set tr \<and> asked_before tr \<and>
     ts_round s' = Suc (ts_round s) \<and> ts_failures s' = 0 \<and>
     ts_history s' = ts_history s @ [assistant_tool_calls [sample_call], tool_result sample_call ''x'']"
proof -
  define s1 where "s1 = (add_effect (ModelCalled (compose roomy_manager quiet_env (ts_history s) @ ts_transient s @
      (if ts_reminder s then [text_message RSystem msg_repetition] else [])) sp)
    (s\<lparr>ts_round := Suc (ts_round s), ts_reminder := False\<rparr>))"
  have round: "one_round sample_env sample_engine sp s =
      run_calls sample_env sample_engine (Suc (ts_round s)) [sample_call] None s1"
    using assms sample_admit_all
    by (simp add: one_round_def bindT_def next_round_def prepare_context_def roomy_prepare request_messages_def
        is_checkpoint_def sample_model check_budget_def handle_response_def s1_def)
  obtain x new where x: "execute_batch sample_env sample_engine (Suc (ts_round s)) [sample_call]
       (appended sample_engine (assistant_tool_calls [sample_call])
          (add_effect (BatchPrepared (Suc (ts_round s)) [prepared_call sample_env sample_engine sample_call]) s1)) =
     (Inr [x], appended sample_engine (assistant_tool_calls [sample_call])
          (add_effect (BatchPrepared (Suc (ts_round s)) [prepared_call sample_env sample_engine sample_call]) s1)
        \<lparr>ts_trace := ts_trace (appended sample_engine (assistant_tool_calls [sample_call])
          (add_effect (BatchPrepared (Suc (ts_round s)) [prepared_call sample_env sample_engine sample_call]) s1)) @ new\<rparr>)"
     "ToolRan sample_call \<in> set new" "\<not> ex_failed x" "ex_message x = tool_result sample_call ''x''" "ex_transient x = []"
    using sample_execute_batch by blast
  have "store_call sample_env sample_engine e t = (Inr (), add_effect e t)" for e t by (simp add: store_call_def)
  moreover have "record_message sample_env sample_engine m t = (Inr (), appended sample_engine m t)" for m t
    by (simp add: record_message_def appended_def)
  ultimately have calls: "run_calls sample_env sample_engine (Suc (ts_round s)) [sample_call] None s1 =
      bindT (record_results sample_env sample_engine [x]) (\<lambda>_.
      bindT (store_call sample_env sample_engine (BatchFinished (Suc (ts_round s)))) (\<lambda>_. judge_batch [x]))
      (snd (execute_batch sample_env sample_engine (Suc (ts_round s)) [sample_call]
       (appended sample_engine (assistant_tool_calls [sample_call])
          (add_effect (BatchPrepared (Suc (ts_round s)) [prepared_call sample_env sample_engine sample_call]) s1))))"
    using x(1) by (simp add: run_calls_def bindT_def assistant_tool_calls_with_thinking_def)
  show ?thesis
    unfolding round calls
    using x assms(4)
    by (auto simp: bindT_def record_message_def modifyT_def returnT_def store_call_def judge_batch_def observeT_def
        observe_batch_def new_detector_def repetition_threshold_def repetition_abort_def Let_def appended_def
        add_effect_def s1_def asked_before_def)
qed

lemma sample_round_text:
  assumes "asked_before (ts_trace s)" "ts_round s < 3" "length (ts_history s) \<le> 10"
  shows "\<exists>s' tr. one_round sample_env sample_engine sp s = (Inr (Some ''ok''), s') \<and>
     ts_trace s' = ts_trace s @ tr \<and> ts_history s' = ts_history s @ [assistant_with_thinking ''ok'' None]"
  using assms
  by (simp add: one_round_def bindT_def next_round_def prepare_context_def roomy_prepare request_messages_def
      is_checkpoint_def sample_model check_budget_def handle_response_def record_message_def emit_def modifyT_def
      returnT_def add_effect_def)

definition sample_history :: "message list" where
  "sample_history = [text_message RUser ''q'', assistant_tool_calls [sample_call], tool_result sample_call ''x'',
     assistant_with_thinking ''ok'' None]"

lemma sample_turn:
  "\<exists>s. run_turn sample_env sample_engine [] ''q'' default_breaker = Some (Inr ''ok'', s) \<and>
     ToolRan sample_call \<in> set (ts_trace s) \<and> ts_history s = sample_history"
proof -
  define s0 where "s0 = appended sample_engine (text_message RUser ''q'')
    (add_effect (Emit TurnStarted) (init_turn [] default_breaker))"
  define sp where "sp = specs (en_tools sample_engine)"
  have b: "run_turn sample_env sample_engine [] ''q'' default_breaker = run_rounds sample_env sample_engine sp s0"
    by (simp add: run_turn_def begin_turn_def bindT_def emit_def modifyT_def record_message_def appended_def s0_def sp_def)
  have s0: "ts_history s0 = [text_message RUser ''q'']" "ts_round s0 = 0" "\<not> asked_before (ts_trace s0)"
      "ts_detector s0 = new_detector"
    by (simp_all add: s0_def appended_def init_turn_def add_effect_def asked_before_def)
  obtain s1 tr where r1: "one_round sample_env sample_engine sp s0 = (Inr None, s1)"
      "ts_trace s1 = ts_trace s0 @ tr" "ToolRan sample_call \<in> set tr" "asked_before tr" "ts_round s1 = Suc 0"
      "ts_history s1 = [text_message RUser ''q'', assistant_tool_calls [sample_call], tool_result sample_call ''x'']"
    using sample_round_calls [of s0 sp] s0 by auto
  have "asked_before (ts_trace s1)" using r1(2,4) by (auto simp: asked_before_def)
  then obtain s2 tr2 where r2: "one_round sample_env sample_engine sp s1 = (Inr (Some ''ok''), s2)"
      "ts_trace s2 = ts_trace s1 @ tr2" "ts_history s2 = ts_history s1 @ [assistant_with_thinking ''ok'' None]"
    using sample_round_text [of s1 sp] r1 by auto
  have "run_rounds sample_env sample_engine sp s0 = Some (Inr ''ok'', s2)"
    using r1(1) r2(1) by (simp add: run_rounds.simps [of _ _ _ s0] run_rounds.simps [of _ _ _ s1])
  with b r1 r2 show ?thesis by (auto simp: sample_history_def)
qed

end
