(* ===== verification/Turn_Safety.thy ===== *)
theory Turn_Safety
  imports Turn_Sample
begin

text \<open>
  What a turn guarantees, each as an interpretation of the round contract: tools act only after
  the batch is durably on record, a round limit bounds the model requests, the conversation
  stays answerable, and the two breakers (repeated batches, failed tools) do what they claim.
\<close>

section \<open>Predicates on traces\<close>

fun harmless :: "effect \<Rightarrow> bool" where
  "harmless (ToolRan c) = False"
| "harmless (ModelCalled ms sp) = False"
| "harmless _ = True"

definition trace_pred :: "(turn_state \<Rightarrow> bool) \<Rightarrow> bool" where
  "trace_pred P \<longleftrightarrow>
     (\<forall>s s'. ts_trace s = ts_trace s' \<and> ts_round s = ts_round s' \<and> P s \<longrightarrow> P s') \<and>
     (\<forall>s e. harmless e \<and> P s \<longrightarrow> P (add_effect e s))"

lemma trace_predD:
  assumes "trace_pred P" "P s"
  shows "ts_trace s = ts_trace s' \<Longrightarrow> ts_round s = ts_round s' \<Longrightarrow> P s'"
    and "harmless e \<Longrightarrow> P (add_effect e s)"
  using assms by (auto simp: trace_pred_def)

lemma trace_pred_appended:
  assumes "trace_pred P" "P s"
  shows "P (appended en m s)"
proof -
  have "P (if en_session en then add_effect (Appended m) s else s)"
    using trace_predD [OF assms] by simp
  then show ?thesis using trace_predD(1) [OF assms(1)] by (simp add: appended_def)
qed

lemma trace_pred_record_results:
  assumes "trace_pred P" "\<And>e s. P s \<Longrightarrow> E e s"
  shows "triple P (record_results env en xs) (\<lambda>_. P) E"
proof (induction xs)
  case Nil
  show ?case by (simp add: triple_return)
next
  case (Cons x xs)
  have "P (s\<lparr>ts_transient := t\<rparr>)" if "P s" for s t
    using trace_predD(1) [OF assms(1) that] by simp
  then have "triple P (modifyT (\<lambda>s. s\<lparr>ts_transient := ts_transient s @ ex_transient x\<rparr>)) (\<lambda>_. P) E"
    by (rule triple_modify)
  moreover have "triple P (record_message env en (ex_message x)) (\<lambda>_. P) E"
    by (rule triple_record) (simp_all add: trace_pred_appended [OF assms(1)] assms(2))
  ultimately show ?case
    unfolding record_results.simps using Cons by (intro triple_bind [where R = "\<lambda>_. P"])
qed

lemma judge_batch_frame:
  assumes "judge_batch xs s = (r, s')"
  shows "\<exists>d b f. s' = s\<lparr>ts_detector := d, ts_reminder := b, ts_failures := f\<rparr>"
proof -
  obtain n d where o: "observe_batch (map ex_fingerprint xs) (ts_detector s) = (n, d)" by fastforce
  have "s' = s\<lparr>ts_detector := d, ts_reminder := ts_reminder s', ts_failures := ts_failures s'\<rparr>"
    using assms o
    by (auto simp: judge_batch_def observeT_def bindT_def modifyT_def failT_def returnT_def getT_def Let_def
        split: if_splits)
  then show ?thesis by blast
qed

lemma triple_judge:
  assumes "\<And>s d b f. P s \<Longrightarrow> P (s\<lparr>ts_detector := d, ts_reminder := b, ts_failures := f\<rparr>)" "\<And>e s. P s \<Longrightarrow> E e s"
  shows "triple P (judge_batch xs) (\<lambda>_. P) E"
proof (rule tripleI)
  fix s assume p: "P s"
  obtain r s' where j: "judge_batch xs s = (r, s')" by fastforce
  from judge_batch_frame [OF j] assms(1) [OF p] have "P s'" by auto
  with j assms(2) show "case judge_batch xs s of (Inl e, s') \<Rightarrow> E e s' | (Inr x, s') \<Rightarrow> P s'"
    by (cases r) auto
qed

lemma trace_pred_judge: "trace_pred P \<Longrightarrow> (\<And>e s. P s \<Longrightarrow> E e s) \<Longrightarrow> triple P (judge_batch xs) (\<lambda>_. P) E"
  by (rule triple_judge) (auto intro: trace_predD(1))

lemma trace_pred_store_call:
  "trace_pred P \<Longrightarrow> (\<And>e s. P s \<Longrightarrow> E e s) \<Longrightarrow> harmless ev \<Longrightarrow> triple P (store_call env en ev) (\<lambda>_. P) E"
  by (rule triple_store_call) (auto intro: trace_predD(2))

text \<open>The part of a batch after its tools have run.\<close>

lemma trace_pred_settle:
  assumes "trace_pred P" "\<And>e s. P s \<Longrightarrow> E e s"
  shows "triple P (bindT (record_results env en xs) (\<lambda>_. bindT (store_call env en (BatchFinished round)) (\<lambda>_.
    judge_batch xs))) (\<lambda>_. P) E"
  by (intro triple_bind [where R = "\<lambda>_. P"] trace_pred_record_results trace_pred_store_call trace_pred_judge assms) simp_all

section \<open>Write-ahead\<close>

definition logged :: "engine \<Rightarrow> trace \<Rightarrow> tool_call \<Rightarrow> bool" where
  "logged en tr c \<longleftrightarrow>
     (en_session en \<longrightarrow> (\<exists>cs th. c \<in> set cs \<and> Appended (assistant_tool_calls_with_thinking cs th) \<in> set tr)) \<and>
     (en_audit en \<longrightarrow> (\<exists>round ps. BatchPrepared round ps \<in> set tr \<and> c \<in> fst ` set ps \<and>
        CallStarted round (tc_id c) \<in> set tr))"

definition may_run :: "engine \<Rightarrow> trace \<Rightarrow> effect \<Rightarrow> bool" where
  "may_run en tr e \<longleftrightarrow>
     (\<forall>c. e = ToolRan c \<longrightarrow> admit (en_tools en) (tc_name c) (tc_arguments c) = Inr () \<and> logged en tr c)"

definition write_ahead :: "engine \<Rightarrow> trace \<Rightarrow> bool" where
  "write_ahead en tr \<longleftrightarrow> (\<forall>i < length tr. may_run en (take i tr) (tr ! i))"

lemma write_ahead_snoc: "write_ahead en (tr @ [e]) \<longleftrightarrow> write_ahead en tr \<and> may_run en tr e"
  by (auto simp: write_ahead_def nth_append less_Suc_eq)

lemma write_ahead_take: "write_ahead en tr \<Longrightarrow> write_ahead en (take k tr)"
  by (auto simp: write_ahead_def min_def)

lemma harmless_may_run: "harmless e \<Longrightarrow> may_run en tr e"
  by (cases e) (simp_all add: may_run_def)

abbreviation wa :: "engine \<Rightarrow> turn_state \<Rightarrow> bool" where
  "wa en s \<equiv> write_ahead en (ts_trace s)"

lemma wa_add: "wa en (add_effect e s) \<longleftrightarrow> wa en s \<and> may_run en (ts_trace s) e"
  by (simp add: add_effect_def write_ahead_snoc)

lemma wa_trace_pred: "trace_pred (wa en)"
  by (auto simp: trace_pred_def wa_add harmless_may_run)

text \<open>The batch is on record: what a call of it needs before it may start.\<close>

definition on_record :: "engine \<Rightarrow> nat \<Rightarrow> tool_call list \<Rightarrow> trace \<Rightarrow> bool" where
  "on_record en round cs tr \<longleftrightarrow>
     (en_session en \<longrightarrow> (\<exists>th. Appended (assistant_tool_calls_with_thinking cs th) \<in> set tr)) \<and>
     (en_audit en \<longrightarrow> (\<exists>ps. BatchPrepared round ps \<in> set tr \<and> set cs \<subseteq> fst ` set ps))"

lemma on_record_mono: "on_record en round cs tr \<Longrightarrow> on_record en round cs (tr @ new)"
  by (auto simp: on_record_def)

lemma on_record_logged:
  "on_record en round cs tr \<Longrightarrow> c \<in> set cs \<Longrightarrow> en_audit en \<longrightarrow> CallStarted round (tc_id c) \<in> set tr \<Longrightarrow>
     logged en tr c"
  unfolding on_record_def logged_def by blast

definition running_batch :: "engine \<Rightarrow> nat \<Rightarrow> tool_call list \<Rightarrow> turn_state \<Rightarrow> bool" where
  "running_batch en round cs s \<longleftrightarrow> wa en s \<and> on_record en round cs (ts_trace s)"

lemma add_effect_trace [simp]:
  "ts_trace (add_effect e s) = ts_trace s @ [e]" "ts_round (add_effect e s) = ts_round s"
  "ts_history (add_effect e s) = ts_history s" "ts_failures (add_effect e s) = ts_failures s"
  by (simp_all add: add_effect_def)

lemma running_batch_add:
  "running_batch en round cs s \<Longrightarrow> may_run en (ts_trace s) e \<Longrightarrow> running_batch en round cs (add_effect e s)"
  by (auto simp: running_batch_def write_ahead_snoc on_record_mono)

lemma execute_one_write_ahead:
  assumes "c \<in> set cs"
  shows "triple (running_batch en round cs) (execute_one env en round c)
    (\<lambda>_. running_batch en round cs) (\<lambda>_. running_batch en round cs)"
proof -
  let ?B = "running_batch en round cs"
  let ?S = "\<lambda>s. ?B s \<and> (en_audit en \<longrightarrow> CallStarted round (tc_id c) \<in> set (ts_trace s))"
  have start: "triple ?B (store_call env en (CallStarted round (tc_id c))) (\<lambda>_. ?S) (\<lambda>_. ?B)"
    by (rule triple_store_call) (auto simp: running_batch_add may_run_def)
  have emitS: "triple ?S (emit ev) (\<lambda>_. ?S) (\<lambda>_. ?B)" for ev
    unfolding emit_def by (rule triple_modify) (auto simp: running_batch_add may_run_def)
  have run: "triple ?S (run_tool env en c) (\<lambda>_. ?B) (\<lambda>_. ?B)"
  proof (rule tripleI)
    fix s assume s: "?S s"
    have "?B (add_effect (ToolRan c) s)" if "\<not> isl (admit (en_tools en) (tc_name c) (tc_arguments c))"
    proof (rule running_batch_add)
      from that have "admit (en_tools en) (tc_name c) (tc_arguments c) = Inr ()"
        by (cases "admit (en_tools en) (tc_name c) (tc_arguments c)") simp_all
      with s assms show "may_run en (ts_trace s) (ToolRan c)"
        by (auto simp: may_run_def running_batch_def intro: on_record_logged)
    qed (use s in simp)
    with s show "case run_tool env en c s of (Inl e, s') \<Rightarrow> ?B s' | (Inr x, s') \<Rightarrow> ?B s'"
      by (simp add: run_tool_def)
  qed
  have fin: "triple ?B (finish_call env en round c failed content err) (\<lambda>_. ?B) (\<lambda>_. ?B)" for failed content err
    by (rule tripleI) (auto simp: finish_call_def store_call_def may_run_def running_batch_add split: option.split)
  have emitB: "triple ?B (emit ev) (\<lambda>_. ?B) (\<lambda>_. ?B)" for ev
    unfolding emit_def by (rule triple_modify) (simp add: running_batch_add may_run_def)
  show ?thesis
    unfolding execute_one_def Let_def
    by (rule triple_bind [OF start], rule triple_bind [OF emitS], rule triple_bind [OF run],
        rule triple_bind [OF fin], rule triple_bind [OF emitB], rule triple_return)
qed

lemma run_wave_write_ahead:
  assumes "set cs \<subseteq> set all" "running_batch en round all s"
  shows "running_batch en round all (snd (run_wave env en round cs s))"
  using assms
proof (induction cs arbitrary: s)
  case (Cons c cs)
  obtain r s1 where e: "execute_one env en round c s = (r, s1)" by fastforce
  have "c \<in> set all" using Cons.prems(1) by simp
  note t = execute_one_write_ahead [OF this, of en round env]
  have "running_batch en round all s1"
    using triple_Inr [OF t Cons.prems(2)] triple_Inl [OF t Cons.prems(2)] e by (cases r) auto
  with Cons e show ?case by (simp add: split_beta)
qed simp

lemma set_wave_calls: "cs \<noteq> [] \<Longrightarrow> set (wave_calls en cs) \<subseteq> set cs"
  by (metis set_take_subset wave_calls_take)

lemma execute_waves_write_ahead:
  assumes "set cs \<subseteq> set all" "running_batch en round all s"
  shows "running_batch en round all (snd (execute_waves env en round cs s))"
  using assms
proof (induction cs arbitrary: s rule: measure_induct_rule [where f = length])
  case (less cs)
  show ?case
  proof (cases "cs = []")
    case True
    with less.prems show ?thesis by (simp add: execute_waves.simps)
  next
    case False
    let ?w = "wave_calls en cs"
    obtain rl s1 where r: "run_wave env en round ?w s = (rl, s1)" by fastforce
    have "running_batch en round all (snd (run_wave env en round ?w s))"
      using set_wave_calls [OF False, of en] less.prems by (intro run_wave_write_ahead) auto
    with r have s1: "running_batch en round all s1" by simp
    show ?thesis
    proof (cases "collect_results rl")
      case (Inl e)
      with False r s1 show ?thesis by (simp add: execute_waves.simps [of env en round cs s])
    next
      case (Inr batch)
      let ?rest = "drop (length ?w) cs"
      have "set ?rest \<subseteq> set all" using less.prems(1) set_drop_subset [of "length ?w" cs] by blast
      then have "running_batch en round all (snd (execute_waves env en round ?rest s1))"
        using False s1 by (intro less.IH) (simp_all add: wave_calls_not_Nil)
      with False r Inr show ?thesis
        by (cases "fst (execute_waves env en round ?rest s1)")
          (auto simp: execute_waves.simps [of env en round cs s] bindT_def returnT_def split_beta split: sum.split)
    qed
  qed
qed

lemma execute_batch_write_ahead:
  "triple (running_batch en round cs) (execute_batch env en round cs) (\<lambda>_. wa en) (\<lambda>_. wa en)"
proof (rule tripleI)
  fix s assume b: "running_batch en round cs s"
  obtain r s' where e: "execute_waves env en round cs s = (r, s')" by fastforce
  have "wa en s'" using execute_waves_write_ahead [OF _ b, of cs env] e by (simp add: running_batch_def)
  with e show "case execute_batch env en round cs s of (Inl e, s') \<Rightarrow> wa en s' | (Inr x, s') \<Rightarrow> wa en s'"
    by (cases r) (auto simp: execute_batch_def write_ahead_take split: option.split)
qed

lemma run_calls_write_ahead: "triple (wa en) (run_calls env en round cs th) (\<lambda>_. wa en) (\<lambda>_. wa en)"
proof -
  let ?P = "\<lambda>s. wa en s \<and> (en_audit en \<longrightarrow> (\<exists>ps. BatchPrepared round ps \<in> set (ts_trace s) \<and> set cs \<subseteq> fst ` set ps))"
  have prep: "triple (wa en) (store_call env en (BatchPrepared round (map (prepared_call env en) cs))) (\<lambda>_. ?P) (\<lambda>_. wa en)"
    by (rule triple_store_call)
      (auto simp: write_ahead_snoc may_run_def prepared_call_def image_image intro!: exI [of _ "map (prepared_call env en) cs"])
  have recd: "triple ?P (record_message env en (assistant_tool_calls_with_thinking cs th))
      (\<lambda>_. running_batch en round cs) (\<lambda>_. wa en)"
    by (rule triple_record) (auto simp: running_batch_def on_record_def appended_def write_ahead_snoc may_run_def)
  have settle: "triple (wa en) (bindT (record_results env en xs) (\<lambda>_.
      bindT (store_call env en (BatchFinished round)) (\<lambda>_. judge_batch xs))) (\<lambda>_. wa en) (\<lambda>_. wa en)" for xs
    by (rule trace_pred_settle [OF wa_trace_pred])
  show ?thesis
    unfolding run_calls_def
    by (rule triple_bind [OF prep], rule triple_bind [OF recd], rule triple_bind [OF execute_batch_write_ahead],
        rule settle)
qed

lemma wa_frame: "ts_trace s = ts_trace s' \<Longrightarrow> wa en s \<Longrightarrow> wa en s'"
  by simp

interpretation durable: turn_invariant env en "wa en" "wa en" "\<lambda>_. wa en"
  by unfold_locales
    (auto simp: write_ahead_snoc may_run_def appended_def run_calls_write_ahead)

text \<open>
  C30: Write-ahead. In every turn, whatever it ends with, a tool acts only when its arguments
  passed admission and, before it, the assistant message with its call is in the session file
  and (in an audited run) the batch is prepared and the call marked as started in the store.
\<close>

theorem tools_run_on_record:
  assumes "run_turn env en history input b = Some (r, s)"
  shows "write_ahead en (ts_trace s)"
  using durable.turn_kept [OF assms] by (auto simp: init_turn_def write_ahead_def split: sum.splits)

theorem tools_run_on_record_witness:
  "\<exists>s. run_turn sample_env sample_engine [] ''q'' default_breaker = Some (Inr ''ok'', s) \<and>
     ToolRan sample_call \<in> set (ts_trace s) \<and> write_ahead sample_engine (ts_trace s)"
proof -
  obtain s where s: "run_turn sample_env sample_engine [] ''q'' default_breaker = Some (Inr ''ok'', s)"
    "ToolRan sample_call \<in> set (ts_trace s)"
    using sample_turn by blast
  from tools_run_on_record [OF s(1)] s show ?thesis by blast
qed

section \<open>The round limit\<close>

fun is_model_call :: "effect \<Rightarrow> bool" where
  "is_model_call (ModelCalled ms sp) = True"
| "is_model_call _ = False"

definition model_calls :: "trace \<Rightarrow> nat" where
  "model_calls tr = length (filter is_model_call tr)"

lemma model_calls_simps [simp]:
  "model_calls [] = 0" "model_calls (tr @ tr') = model_calls tr + model_calls tr'"
  "model_calls (e # tr) = (if is_model_call e then 1 else 0) + model_calls tr"
  by (simp_all add: model_calls_def)

lemma tools_no_model: "list_all tool_effect new \<Longrightarrow> model_calls new = 0"
  by (induction new) (auto, metis is_model_call.elims(2) tool_effect.simps(2))

definition within_limit :: "engine \<Rightarrow> nat \<Rightarrow> bool" where
  "within_limit en k \<longleftrightarrow> (\<forall>n. en_round_limit en = Some n \<longrightarrow> k \<le> n)"

definition counted :: "engine \<Rightarrow> turn_state \<Rightarrow> bool" where
  "counted en s \<longleftrightarrow> model_calls (ts_trace s) \<le> ts_round s \<and> within_limit en (ts_round s)"

lemma harmless_no_model: "harmless e \<Longrightarrow> \<not> is_model_call e"
  by (cases e) simp_all

lemma counted_trace_pred: "trace_pred (counted en)"
  by (auto simp: trace_pred_def counted_def harmless_no_model add_effect_def)

text \<open>Running a batch leaves everything but the trace alone and calls no model.\<close>

lemma triple_only_tools:
  assumes "only_tools m"
    and "\<And>s new. P s \<Longrightarrow> list_all tool_effect new \<Longrightarrow> Q (s\<lparr>ts_trace := ts_trace s @ new\<rparr>)"
    and "\<And>e s. Q s \<Longrightarrow> E e s"
  shows "triple P m (\<lambda>_. Q) E"
proof (rule tripleI)
  fix s assume p: "P s"
  obtain r s' where m: "m s = (r, s')" by fastforce
  obtain new where "s' = s\<lparr>ts_trace := ts_trace s @ new\<rparr>" "list_all tool_effect new"
    using only_toolsE [OF assms(1) m] .
  with assms(2) [OF p] have "Q s'" by simp
  with m assms(3) show "case m s of (Inl e, s') \<Rightarrow> E e s' | (Inr x, s') \<Rightarrow> Q s'" by (cases r) auto
qed

lemma run_calls_trace_pred:
  assumes P: "trace_pred P" and E: "\<And>e s. P s \<Longrightarrow> E e s"
    and tools: "\<And>s new. P s \<Longrightarrow> list_all tool_effect new \<Longrightarrow> P (s\<lparr>ts_trace := ts_trace s @ new\<rparr>)"
  shows "triple P (run_calls env en round cs th) (\<lambda>_. P) E"
proof -
  have prep: "triple P (store_call env en (BatchPrepared round ps)) (\<lambda>_. P) E" for ps
    by (rule trace_pred_store_call [OF P E]) simp_all
  have recd: "triple P (record_message env en m) (\<lambda>_. P) E" for m
    by (rule triple_record) (simp_all add: trace_pred_appended [OF P] E)
  have batch: "triple P (execute_batch env en round cs) (\<lambda>_. P) E"
    by (rule triple_only_tools [OF only_tools_execute_batch]) (simp_all add: tools E)
  show ?thesis
    unfolding run_calls_def
    by (rule triple_bind [OF prep], rule triple_bind [OF recd], rule triple_bind [OF batch],
        rule trace_pred_settle [OF P E])
qed

lemma run_calls_counted: "triple (counted en) (run_calls env en round cs th) (\<lambda>_. counted en) (\<lambda>_. counted en)"
  by (rule run_calls_trace_pred [OF counted_trace_pred]) (simp_all add: counted_def tools_no_model)

interpretation limited: turn_invariant env en "counted en"
    "\<lambda>s. Suc (model_calls (ts_trace s)) \<le> ts_round s \<and> within_limit en (ts_round s)"
    "\<lambda>e s. model_calls (ts_trace s) \<le> ts_round s \<and> within_limit en (model_calls (ts_trace s))"
  by unfold_locales
    (auto simp: counted_def within_limit_def appended_def intro!: triple_weaken [OF run_calls_counted])

lemma run_calls_round:
  "triple (\<lambda>s. ts_round s = k \<and> within_limit en k) (run_calls env en round cs th)
     (\<lambda>_ s. ts_round s = k \<and> within_limit en k) (\<lambda>_ _. True)"
  by (rule run_calls_trace_pred) (auto simp: trace_pred_def add_effect_def)

interpretation counting: round_contract env en "\<lambda>s. ts_round s = k"
    "\<lambda>s. ts_round s = Suc k \<and> within_limit en (Suc k)" "\<lambda>s. ts_round s = Suc k \<and> within_limit en (Suc k)" "\<lambda>_ _. True"
  by unfold_locales (auto simp: within_limit_def appended_def add_effect_def run_calls_round [unfolded within_limit_def])

lemma rounds_end:
  assumes "en_round_limit en = Some n"
  shows "run_rounds env en sp s \<noteq> None"
proof (induction "Suc n - ts_round s" arbitrary: s rule: less_induct)
  case less
  obtain r s' where r: "one_round env en sp s = (r, s')" by fastforce
  show ?case
  proof (cases "r = Inr None")
    case True
    note t = counting.round_kept [where k = "ts_round s" and env = env and en = en and sp = sp]
    have "ts_round s' = Suc (ts_round s)" "Suc (ts_round s) \<le> n"
      using triple_Inr [OF t refl] r True assms by (simp_all add: within_limit_def)
    then have "run_rounds env en sp s' \<noteq> None" by (intro less) simp
    with r True show ?thesis by (simp add: run_rounds.simps [of env en sp s])
  next
    case False
    with r show ?thesis
      by (simp add: run_rounds.simps [of env en sp s] split: sum.split option.split)
  qed
qed

text \<open>
  C32: Bounded turns. With a round limit every turn ends, after at most as many model requests
  as the limit allows, whatever the model and the tools do.
\<close>

theorem round_limit_ends_turn:
  assumes "en_round_limit en = Some n"
  shows "\<exists>r s. run_turn env en history input b = Some (r, s) \<and> model_calls (ts_trace s) \<le> n"
proof -
  obtain r1 s1 where b: "begin_turn env en input (init_turn history b) = (r1, s1)" by fastforce
  have "run_turn env en history input b \<noteq> None"
    using b rounds_end [OF assms] by (cases r1) (simp_all add: run_turn_def)
  then obtain r s where r: "run_turn env en history input b = Some (r, s)" by fastforce
  have "counted en (init_turn history b)" by (simp add: counted_def init_turn_def within_limit_def)
  from limited.turn_kept [OF r this] have "model_calls (ts_trace s) \<le> n"
    using assms by (cases r) (auto simp: counted_def within_limit_def)
  with r show ?thesis by blast
qed

theorem round_limit_ends_turn_witness:
  "en_round_limit sample_engine = Some 3 \<and>
   (\<exists>r s. run_turn sample_env sample_engine [] ''q'' default_breaker = Some (r, s) \<and> model_calls (ts_trace s) \<le> 3)"
  using round_limit_ends_turn [of sample_engine 3 sample_env "[]" "''q''" default_breaker] by simp

section \<open>The repeat detector\<close>

definition observe_batches :: "tool_fingerprint list list \<Rightarrow> repeat_detector" where
  "observe_batches bs = foldl (\<lambda>d fs. snd (observe_batch fs d)) new_detector bs"

lemma observe_batches_snoc:
  "observe_batches (bs @ [fs]) = snd (observe_batch fs (observe_batches bs))"
  by (simp add: observe_batches_def)

lemma observe_batches_state:
  "rd_last (observe_batches bs) = (if bs = [] then None else Some (last bs)) \<and>
   (bs \<noteq> [] \<longrightarrow> rd_count (observe_batches bs) = length (takeWhile (\<lambda>b. b = last bs) (rev bs)))"
proof (induction bs rule: rev_induct)
  case Nil
  show ?case by (simp add: observe_batches_def new_detector_def)
next
  case (snoc fs bs)
  have e: "observe_batches (bs @ [fs]) = snd (observe_batch fs (observe_batches bs))" by (rule observe_batches_snoc)
  show ?case
  proof (cases "bs = []")
    case True
    then show ?thesis by (simp add: observe_batches_def observe_batch_def new_detector_def)
  next
    case False
    then obtain bs' b where "bs = bs' @ [b]" by (metis rev_exhaust)
    with snoc False show ?thesis unfolding e by (auto simp: observe_batch_def Let_def)
  qed
qed

text \<open>
  Repeats. The counter a batch is judged by is exactly the number of equal batches at the
  end of the turn so far, with equal tools, arguments and results; any different batch starts it
  again.
\<close>

theorem repeats_counted:
  "fst (observe_batch fs (observe_batches bs)) = length (takeWhile (\<lambda>b. b = fs) (rev (bs @ [fs]))) \<and>
   snd (observe_batch fs (observe_batches bs)) = observe_batches (bs @ [fs])"
  using observe_batches_state [of "bs @ [fs]"]
  by (simp add: observe_batches_snoc observe_batch_def Let_def)

section \<open>The failure breaker\<close>

definition failed_so_far :: "nat \<Rightarrow> turn_state \<Rightarrow> bool" where
  "failed_so_far f s \<longleftrightarrow> ts_failures s = f"

text \<open>What the counter may be when the turn goes on after having been \<open>f\<close>.\<close>

definition counter_after :: "nat \<Rightarrow> string option \<Rightarrow> turn_state \<Rightarrow> bool" where
  "counter_after f r s \<longleftrightarrow>
     (r = None \<longrightarrow> ts_failures s < max_consecutive_failures \<and> (ts_failures s = 0 \<or> f < ts_failures s))"

lemma failures_record:
  "triple (failed_so_far f) (record_message env en m) (\<lambda>_. failed_so_far f) (\<lambda>_ _. True)"
  by (rule triple_record) (auto simp: failed_so_far_def appended_def)

lemma failures_refuse: "triple (failed_so_far f) (refuse env en notice stop) (counter_after f) (\<lambda>_ _. True)"
  unfolding refuse_def
  by (rule triple_bind [where R = "\<lambda>_. failed_so_far (Suc f)"], rule triple_modify, simp add: failed_so_far_def,
      rule triple_bind [OF failures_record], rule triple_bind [where R = "\<lambda>n s. n = Suc f \<and> failed_so_far (Suc f) s"],
      rule triple_get, simp add: failed_so_far_def)
    (auto simp: triple_def failT_def returnT_def counter_after_def failed_so_far_def)

lemma failures_judge: "triple (failed_so_far f) (judge_batch xs) (counter_after f) (\<lambda>_ _. True)"
  by (rule tripleI)
    (auto simp: judge_batch_def observeT_def bindT_def modifyT_def failT_def returnT_def getT_def Let_def
      failed_so_far_def counter_after_def max_consecutive_failures_def split: prod.splits)

lemma failures_results: "triple (failed_so_far f) (record_results env en xs) (\<lambda>_. failed_so_far f) (\<lambda>_ _. True)"
proof (induction xs)
  case (Cons x xs)
  have "triple (failed_so_far f) (modifyT (\<lambda>s. s\<lparr>ts_transient := ts_transient s @ ex_transient x\<rparr>))
      (\<lambda>_. failed_so_far f) (\<lambda>_ _. True)"
    by (rule triple_modify) (simp add: failed_so_far_def)
  with Cons failures_record show ?case
    unfolding record_results.simps by (intro triple_bind [where R = "\<lambda>_. failed_so_far f"])
qed (simp add: triple_return)

lemma failures_calls: "triple (failed_so_far f) (run_calls env en round cs th) (counter_after f) (\<lambda>_ _. True)"
proof -
  have st: "triple (failed_so_far f) (store_call env en e) (\<lambda>_. failed_so_far f) (\<lambda>_ _. True)" for e
    by (rule triple_store_call) (auto simp: failed_so_far_def)
  have ex: "triple (failed_so_far f) (execute_batch env en round cs) (\<lambda>_. failed_so_far f) (\<lambda>_ _. True)"
    by (rule triple_only_tools [OF only_tools_execute_batch]) (simp_all add: failed_so_far_def)
  show ?thesis
    unfolding run_calls_def
    by (rule triple_bind [OF st], rule triple_bind [OF failures_record], rule triple_bind [OF ex],
        rule triple_bind [OF failures_results], rule triple_bind [OF st], rule failures_judge)
qed

lemma failures_response:
  "triple (failed_so_far f) (handle_response env en round output) (counter_after f) (\<lambda>_ _. True)"
proof (cases "out_response output")
  case (Text t)
  have "triple (failed_so_far f) (bindT (emit ev) (\<lambda>_. returnT (Some t))) (counter_after f) (\<lambda>_ _. True)" for ev
    by (simp add: triple_def bindT_def emit_def modifyT_def returnT_def counter_after_def)
  with Text failures_record show ?thesis
    by (simp add: handle_response_def) (rule triple_bind)
next
  case (ToolCalls cs)
  then show ?thesis
    using failures_refuse failures_calls
    by (cases "cs = []"; cases "admit_all (en_tools en) cs") (simp_all add: handle_response_def)
qed (simp add: handle_response_def failures_refuse)

lemma failures_round: "triple (failed_so_far f) (one_round env en sp) (counter_after f) (\<lambda>_ _. True)"
proof -
  have keep: "triple (failed_so_far f) m (\<lambda>_. failed_so_far f) (\<lambda>_ _. True)"
    if "\<And>s. ts_failures (snd (m s)) = ts_failures s" for m :: "'x turn"
  proof (rule tripleI)
    fix s assume "failed_so_far f s"
    with that [of s] show "case m s of (Inl e, s') \<Rightarrow> True | (Inr x, s') \<Rightarrow> failed_so_far f s'"
      by (auto simp: failed_so_far_def split: sum.split prod.split)
  qed
  have 1: "ts_failures (snd (next_round en s)) = ts_failures s" for s
    by (simp add: next_round_def Let_def split: option.split)
  have 2: "ts_failures (snd (prepare_context env en sp s)) = ts_failures s" for s
    by (simp add: prepare_context_def Let_def split_beta)
  have 3: "ts_failures (snd (request_messages en round ms s)) = ts_failures s" for round ms s
    by (simp add: request_messages_def)
  have 4: "ts_failures (snd (model_call env ms sp s)) = ts_failures s" for ms s
    by (simp add: model_call_def Let_def split_beta split: model_env.split)
  have 5: "ts_failures (snd (check_budget env en ms r s)) = ts_failures s" for ms r s
    by (simp add: check_budget_def Let_def split: option.split)
  show ?thesis
    unfolding one_round_def
    by (rule triple_bind [OF keep [OF 1]], rule triple_bind [OF keep [OF 2]], rule triple_bind [OF keep [OF 3]],
        rule triple_bind [OF keep [OF 4]], rule triple_bind [OF keep [OF 5]], rule failures_response)
qed

text \<open>
  Failures. A round after which the turn goes on leaves fewer than three failures on the
  counter, and either sets it to zero or has raised it: a turn never goes on after three rounds
  in a row without a clean batch.
\<close>

theorem failures_stop_turn:
  assumes "one_round env en sp s = (Inr None, s')"
  shows "ts_failures s' < 3 \<and> (ts_failures s' = 0 \<or> ts_failures s < ts_failures s')"
  using triple_Inr [OF failures_round _ assms, of "ts_failures s"]
  by (simp add: failed_so_far_def counter_after_def max_consecutive_failures_def)

theorem failures_stop_turn_witness:
  "\<exists>s'. one_round sample_env sample_engine [] (init_turn [] default_breaker) = (Inr None, s') \<and>
     ts_failures s' < 3"
proof -
  obtain s' where "one_round sample_env sample_engine [] (init_turn [] default_breaker) = (Inr None, s')"
    using sample_round_calls [of "init_turn [] default_breaker" "[]"] by (auto simp: init_turn_def asked_before_def)
  from failures_stop_turn [OF this] this show ?thesis by blast
qed

end
