(* ===== verification/Turn_Conversation.thy ===== *)
theory Turn_Conversation
  imports Turn_Safety
begin

text \<open>
  The shape of a conversation: after a message with tool calls the next messages are the
  results of exactly these calls, in order. Providers refuse a request whose history breaks
  this rule. A turn keeps the rule, except when it ends while a batch is being worked on.
\<close>

section \<open>Calls still to be answered\<close>

text \<open>The ids still waiting for a result at the end of a history, \<open>None\<close> if the rule is broken.\<close>

fun pending_ids :: "string list \<Rightarrow> message list \<Rightarrow> string list option" where
  "pending_ids ids [] = Some ids"
| "pending_ids ids (m # ms) =
     (if msg_role m = RTool
      then (case ids of
              [] \<Rightarrow> None
            | i # rest \<Rightarrow> if msg_call_id m = Some i then pending_ids rest ms else None)
      else if ids = [] then pending_ids (map tc_id (msg_calls m)) ms else None)"

definition answered :: "message list \<Rightarrow> bool" where
  "answered h \<longleftrightarrow> pending_ids [] h = Some []"

lemma pending_append: "pending_ids ids (a @ b) = Option.bind (pending_ids ids a) (\<lambda>is. pending_ids is b)"
  by (induction ids a rule: pending_ids.induct) (auto split: list.split)

lemma answered_plain: "answered h \<Longrightarrow> plain_message m \<Longrightarrow> answered (h @ [m])"
  by (simp add: answered_def pending_append plain_message_def)

text \<open>Cutting an answered history before a message that is no result leaves an answered one.\<close>

lemma answered_drop:
  assumes "pending_ids ids h = Some []" "n < length h \<longrightarrow> msg_role (h ! n) \<noteq> RTool"
  shows "answered (drop n h)"
  using assms
proof (induction ids h arbitrary: n rule: pending_ids.induct)
  case (1 ids)
  then show ?case by (simp add: answered_def)
next
  case (2 ids m ms)
  show ?case
  proof (cases n)
    case 0
    with 2 show ?thesis by (auto simp: answered_def split: if_splits)
  next
    case (Suc k)
    show ?thesis
    proof (cases "msg_role m = RTool")
      case True
      with 2(3) obtain i rest where "ids = i # rest" "msg_call_id m = Some i" "pending_ids rest ms = Some []"
        by (auto split: list.splits if_splits)
      with 2(1) [OF True] 2(4) Suc show ?thesis by simp
    next
      case False
      with 2(3) have "ids = []" "pending_ids (map tc_id (msg_calls m)) ms = Some []" by (auto split: if_splits)
      with 2(2) [OF False] 2(4) Suc show ?thesis by simp
    qed
  qed
qed

lemma answered_prepare:
  assumes "answered h" "prepare sm js cm e1 e2 sp h = (r, h')"
  shows "answered h'"
proof (cases "h' = h")
  case False
  obtain summary n where n: "h' = text_message RSystem summary # drop n h" "n < length h \<longrightarrow> msg_role (h ! n) \<noteq> RTool"
    using prepare_result [OF assms(2) False] by blast
  from answered_drop [OF assms(1) [unfolded answered_def] n(2)] show ?thesis
    by (simp add: n(1) answered_def text_message_def)
qed (use assms in simp)

section \<open>A batch in progress\<close>

definition waiting_for :: "string list \<Rightarrow> turn_state \<Rightarrow> bool" where
  "waiting_for ids s \<longleftrightarrow> pending_ids [] (ts_history s) = Some ids"

text \<open>How a turn may end: answered, or stopped in the middle of a batch for one of three reasons.\<close>

definition stopped :: "turn_error \<Rightarrow> turn_state \<Rightarrow> bool" where
  "stopped e s \<longleftrightarrow>
     (\<exists>ids. waiting_for ids s \<and> (ids = [] \<or> e = TCancelled \<or> e = TStorage \<or> e = TSession))"

lemma waiting_frame: "ts_history s = ts_history s' \<Longrightarrow> waiting_for ids s \<Longrightarrow> waiting_for ids s'"
  by (simp add: waiting_for_def)

lemma waiting_stopped: "waiting_for [] s \<Longrightarrow> stopped e s"
  by (auto simp: stopped_def)

lemma waiting_store_call: "triple (waiting_for ids) (store_call env en e) (\<lambda>_. waiting_for ids) stopped"
  by (rule triple_store_call) (auto simp: waiting_for_def stopped_def)

lemma results_answer:
  "list_all2 answers_call cs xs \<Longrightarrow>
   triple (waiting_for (map tc_id cs)) (record_results env en xs) (\<lambda>_. waiting_for []) stopped"
proof (induction cs xs rule: list_all2_induct)
  case Nil
  show ?case by (simp add: triple_return)
next
  case (Cons c cs x xs)
  have "triple (waiting_for (map tc_id (c # cs))) (record_message env en (ex_message x))
      (\<lambda>_. waiting_for (map tc_id cs)) stopped"
    using Cons.hyps(1)
    by (intro triple_record) (auto simp: waiting_for_def appended_def pending_append answers_call_def stopped_def)
  moreover have "triple (waiting_for (map tc_id cs)) (modifyT (\<lambda>s. s\<lparr>ts_transient := ts_transient s @ ex_transient x\<rparr>))
      (\<lambda>_. waiting_for (map tc_id cs)) stopped"
    by (rule triple_modify) (simp add: waiting_for_def)
  ultimately show ?case
    unfolding record_results.simps using Cons.IH by (meson triple_bind)
qed

text \<open>The batch function itself fails with two errors only.\<close>

abbreviation storage_only :: "turn_error \<Rightarrow> turn_state \<Rightarrow> bool" where
  "storage_only e s \<equiv> e = TStorage"

lemma store_call_error: "triple (\<lambda>_. True) (store_call env en e) (\<lambda>_ _. True) storage_only"
  by (rule triple_store_call) simp_all

lemma finish_call_error: "triple (\<lambda>_. True) (finish_call env en round c failed t err) (\<lambda>_ _. True) storage_only"
proof (rule tripleI)
  fix s :: turn_state
  show "case finish_call env en round c failed t err s of (Inl e, s') \<Rightarrow> e = TStorage | (Inr x, s') \<Rightarrow> True"
    by (auto simp: finish_call_def store_call_def split: option.split)
qed

lemma execute_one_error: "triple (\<lambda>_. True) (execute_one env en round c) (\<lambda>_ _. True) storage_only"
proof -
  have run: "triple (\<lambda>_. True) (run_tool env en c) (\<lambda>_ _. True) storage_only"
    by (rule tripleI) (simp add: run_tool_def)
  show ?thesis
    unfolding execute_one_def emit_def Let_def
    by (intro triple_bind [where R = "\<lambda>_ _. True"] store_call_error finish_call_error run triple_modify triple_return)
      simp_all
qed

lemma run_wave_error:
  "list_all (\<lambda>r. case r of Inl e \<Rightarrow> e = TStorage | Inr x \<Rightarrow> True) (fst (run_wave env en round cs s))"
proof (induction cs arbitrary: s)
  case (Cons c cs)
  obtain r s1 where o: "execute_one env en round c s = (r, s1)" by fastforce
  have "e = TStorage" if "r = Inl e" for e
    using triple_Inl [OF execute_one_error TrueI o [unfolded that]] .
  with Cons.IH [of s1] o show ?case by (cases r) (simp_all add: split_beta)
qed simp

lemma collect_results_error:
  "list_all (\<lambda>r. case r of Inl e \<Rightarrow> e = TStorage | Inr x \<Rightarrow> True) rl \<Longrightarrow> collect_results rl = Inl e \<Longrightarrow> e = TStorage"
  by (induction rl) (auto simp: bindE_def split: sum.splits)

lemma execute_waves_error: "triple (\<lambda>_. True) (execute_waves env en round cs) (\<lambda>_ _. True) storage_only"
proof (induction cs rule: measure_induct_rule [where f = length])
  case (less cs)
  show ?case
  proof (cases "cs = []")
    case True
    then show ?thesis by (intro tripleI) (simp add: execute_waves.simps)
  next
    case False
    let ?rest = "drop (length (wave_calls en cs)) cs"
    have rest: "triple (\<lambda>_. True) (bindT (execute_waves env en round ?rest) (\<lambda>rest. returnT (batch @ rest)))
        (\<lambda>_ _. True) storage_only" for batch
      using False by (intro triple_bind [OF less] triple_return) (simp_all add: wave_calls_not_Nil)
    show ?thesis
    proof (rule tripleI)
      fix s
      obtain rl s1 where r: "run_wave env en round (wave_calls en cs) s = (rl, s1)" by fastforce
      show "case execute_waves env en round cs s of (Inl e, s') \<Rightarrow> e = TStorage | (Inr x, s') \<Rightarrow> True"
      proof (cases "collect_results rl")
        case (Inl e)
        with False r collect_results_error run_wave_error [of env en round "wave_calls en cs" s] show ?thesis
          by (simp add: execute_waves.simps [of env en round cs s])
      next
        case (Inr batch)
        with False r rest [of batch] show ?thesis
          by (simp add: execute_waves.simps [of env en round cs s] triple_def)
      qed
    qed
  qed
qed

lemma batch_answers:
  "triple (waiting_for ids) (execute_batch env en round cs)
     (\<lambda>xs s. waiting_for ids s \<and> list_all2 answers_call cs xs) stopped"
proof (rule tripleI)
  fix s assume w: "waiting_for ids s"
  obtain r s' where e: "execute_batch env en round cs s = (r, s')" by fastforce
  obtain new where "s' = s\<lparr>ts_trace := ts_trace s @ new\<rparr>" "list_all tool_effect new"
    using only_toolsE [OF only_tools_execute_batch e] .
  with w have s': "waiting_for ids s'" by (simp add: waiting_for_def)
  obtain r0 s0 where x: "execute_waves env en round cs s = (r0, s0)" by fastforce
  have "e0 = TStorage" if "r0 = Inl e0" for e0
    using triple_Inl [OF execute_waves_error TrueI x [unfolded that]] .
  with e x have "e1 = TStorage \<or> e1 = TCancelled" if "r = Inl e1" for e1
    using that by (auto simp: execute_batch_def split: option.splits)
  with s' execute_batch_answers e show "case execute_batch env en round cs s of (Inl e, s') \<Rightarrow> stopped e s'
      | (Inr xs, s') \<Rightarrow> waiting_for ids s' \<and> list_all2 answers_call cs xs"
    by (cases r) (auto simp: stopped_def)
qed

lemma triple_pure: "(F \<Longrightarrow> triple P m Q E) \<Longrightarrow> triple (\<lambda>s. P s \<and> F) m Q E"
  by (auto simp: triple_def)

lemma run_calls_answers:
  "triple (waiting_for []) (run_calls env en round cs th) (\<lambda>_. waiting_for []) stopped"
proof -
  have recd: "triple (waiting_for []) (record_message env en (assistant_tool_calls_with_thinking cs th))
      (\<lambda>_. waiting_for (map tc_id cs)) stopped"
    by (rule triple_record)
      (auto simp: waiting_for_def appended_def pending_append stopped_def message_defs)
  have judge: "triple (waiting_for []) (judge_batch xs) (\<lambda>_. waiting_for []) stopped" for xs
    by (rule triple_judge) (auto simp: waiting_for_def stopped_def)
  show ?thesis
    unfolding run_calls_def
    by (rule triple_bind [OF waiting_store_call], rule triple_bind [OF recd], rule triple_bind [OF batch_answers],
        rule triple_pure, rule triple_bind [OF results_answer], assumption,
        rule triple_bind [OF waiting_store_call], rule judge)
qed

interpretation conversation: turn_invariant env en "waiting_for []" "waiting_for []" stopped
proof
  fix s :: turn_state and sm js cm e1 e2 sp r h
  assume "waiting_for [] s" "prepare sm js cm e1 e2 sp (ts_history s) = (r, h)"
  then show "waiting_for [] (s\<lparr>ts_history := h\<rparr>)"
    using answered_prepare by (simp add: waiting_for_def answered_def)
qed (auto simp: waiting_stopped waiting_for_def appended_def pending_append plain_message_def
      intro: triple_weaken [OF run_calls_answers])

section \<open>Properties\<close>

text \<open>
  C31: Conversations. From a history in which every tool call has its result, a turn that answers
  leaves such a history, however many rounds and compressions it took. A turn that ends with an
  error may leave calls without results, and then only for a cancellation, a refused store call
  or a refused session append.
\<close>

theorem turn_keeps_conversation:
  assumes "answered history" "run_turn env en history input b = Some (r, s)"
  shows "case r of Inr t \<Rightarrow> answered (ts_history s)
    | Inl e \<Rightarrow> \<exists>ids. pending_ids [] (ts_history s) = Some ids \<and>
        (ids = [] \<or> e = TCancelled \<or> e = TStorage \<or> e = TSession)"
proof -
  have "waiting_for [] (init_turn history b)"
    using assms(1) by (simp add: waiting_for_def answered_def init_turn_def)
  from conversation.turn_kept [OF assms(2) this] show ?thesis
    by (cases r) (simp_all add: stopped_def waiting_for_def answered_def)
qed

theorem turn_keeps_conversation_witness:
  "\<exists>s. run_turn sample_env sample_engine [] ''q'' default_breaker = Some (Inr ''ok'', s) \<and> answered (ts_history s)"
proof -
  obtain s where s: "run_turn sample_env sample_engine [] ''q'' default_breaker = Some (Inr ''ok'', s)"
    using sample_turn by blast
  have "answered []" by (simp add: answered_def)
  from turn_keeps_conversation [OF this s] s show ?thesis by auto
qed

text \<open>
  A cancelled batch. When the cancellation wins the race with a batch, the turn leaves the
  assistant message with the tool calls on record without their results. The next turn begins
  with a message that is no result, so the history it sends breaks the rule of the providers.
\<close>

theorem cancelled_batch_dangles:
  assumes "answered (ts_history s)" "cs \<noteq> []"
    and "\<And>tr m. te_append env tr m" "\<And>tr e. te_store env tr e" "\<And>tr. te_cut env tr \<noteq> None"
  shows "\<exists>s'. run_calls env en round cs th s = (Inl TCancelled, s') \<and>
    ts_history s' = ts_history s @ [assistant_tool_calls_with_thinking cs th] \<and>
    (\<forall>m later. msg_role m \<noteq> RTool \<longrightarrow> pending_ids [] (ts_history s' @ m # later) = None)"
proof -
  define s1 where "s1 = appended en (assistant_tool_calls_with_thinking cs th)
    (if en_audit en then add_effect (BatchPrepared round (map (prepared_call env en) cs)) s else s)"
  have h: "ts_history s1 = ts_history s @ [assistant_tool_calls_with_thinking cs th]"
    by (simp add: s1_def appended_def)
  obtain r s2 where x: "execute_batch env en round cs s1 = (r, s2)" by fastforce
  obtain k where "te_cut env (ts_trace s1) = Some k" using assms(5) by fastforce
  with x have r: "r = Inl TCancelled" by (auto simp: execute_batch_def split: prod.splits)
  obtain new where "s2 = s1\<lparr>ts_trace := ts_trace s1 @ new\<rparr>" "list_all tool_effect new"
    using only_toolsE [OF only_tools_execute_batch x] .
  then have h2: "ts_history s2 = ts_history s @ [assistant_tool_calls_with_thinking cs th]" using h by simp
  have "run_calls env en round cs th s = (Inl TCancelled, s2)"
    using assms(3,4) x r by (simp add: run_calls_def bindT_def store_call_def record_message_def s1_def appended_def)
  moreover have "pending_ids [] (ts_history s2 @ m # later) = None" if "msg_role m \<noteq> RTool" for m later
    using assms(1,2) that by (simp add: h2 pending_append answered_def message_defs)
  ultimately show ?thesis using h2 by blast
qed

theorem cancelled_batch_dangles_witness:
  "\<exists>s'. run_calls (sample_env\<lparr>te_cut := \<lambda>tr. Some 0\<rparr>) sample_engine 1 [sample_call] None (init_turn [] default_breaker)
     = (Inl TCancelled, s') \<and>
   pending_ids [] (ts_history s' @ [text_message RUser ''next'']) = None"
proof -
  have "answered (ts_history (init_turn [] default_breaker))" by (simp add: answered_def init_turn_def)
  from cancelled_batch_dangles [OF this, of "[sample_call]" "sample_env\<lparr>te_cut := \<lambda>tr. Some 0\<rparr>" sample_engine 1 None]
  obtain s' where s': "run_calls (sample_env\<lparr>te_cut := \<lambda>tr. Some 0\<rparr>) sample_engine 1 [sample_call] None
      (init_turn [] default_breaker) = (Inl TCancelled, s')"
      "\<And>m later. msg_role m \<noteq> RTool \<Longrightarrow> pending_ids [] (ts_history s' @ m # later) = None"
    by (auto simp: sample_env_def)
  then show ?thesis by (auto simp: text_message_def)
qed

end
