(* ===== verification/Spec2Isabelle.thy ===== *)
theory Spec2Isabelle
  imports ModelRequest Ollama Configuration Memory Slash_Exec File_Tools Input_Editor Keys Rpc Sessions Daemon_Cancel Cron Session Turn_Conversation
begin

text \<open>
  A model of the agent under \<open>src/src\<close>: a daemon that takes requests of clients, runs them as
  turns of a language model with tools, and records every step in a store that survives
  restarts. The theories follow the modules of the program; each definition carries the name of
  the function it translates.

  \<^bold>\<open>The parts and how they work together.\<close> A client sends a frame (\<open>Protocol\<close>: \<open>daemon/protocol.rs\<close>,
  \<open>client.rs\<close>, the line loop of \<open>daemon/server.rs\<close>). The daemon admits it to the run store
  (\<open>storage/mod.rs\<close>, \<open>storage/delegation.rs\<close>), which queues it, hands it out once and logs its
  events; one handler task per request (\<open>Handlers\<close>: \<open>daemon/handlers.rs\<close>) waits for its turn in the
  queue, runs it, and answers with what the store recorded; the events reach the clients through a replay buffer and an approval broker (\<open>Active\<close>:
  \<open>daemon/mod.rs\<close>, \<open>daemon/approval.rs\<close>). A running request is a turn (\<open>Loop\<close>, \<open>Waves\<close>:
  \<open>loop_engine.rs\<close>): it records messages in the session (\<open>Session\<close>: \<open>session.rs\<close>), composes the
  context (\<open>Context\<close>: \<open>context.rs\<close>; \<open>Plan\<close>: \<open>plan.rs\<close>), asks a model (\<open>ModelRequest\<close>, over \<open>Route\<close>,
  \<open>Circuit\<close>, \<open>Retry\<close>, \<open>ToolCalls\<close> and the wire formats \<open>Openai\<close>, \<open>Anthropic\<close>, \<open>Ollama\<close>:
  \<open>provider/*.rs\<close>, \<open>tool_calls.rs\<close>), admits the tool calls of the
  answer (\<open>Tools\<close>: \<open>tools/mod.rs\<close>) under the safety policy (\<open>Safety\<close>: \<open>safety.rs\<close>) and runs them; the
  built-in tools (\<open>File_Tools\<close>: \<open>tools/*.rs\<close>) reach files only through an authorised path
  (\<open>File_Access\<close>: \<open>safety/file_access.rs\<close>). Cron jobs (\<open>Cron\<close>: \<open>cron.rs\<close>) start turns by the clock.
  Around this stand the dispatch of the requests (\<open>Rpc\<close>), the sessions of the daemon (\<open>Sessions\<close>), the
  model configuration (\<open>Configuration\<close>: \<open>config.rs\<close>), the long-term memory (\<open>Memory\<close>: \<open>memory.rs\<close>), the
  skills (\<open>Skills\<close>: \<open>skills.rs\<close>), the slash commands (\<open>Slash\<close>: \<open>slash.rs\<close>) and, of the terminal
  interface, the input field and the key bindings (\<open>Input_Editor\<close>, \<open>Keys\<close>: \<open>entry/tui/\<close>).

  \<^bold>\<open>Theories.\<close>
  \<open>Prelude\<close>, \<open>Rust_Text\<close>, \<open>Text_Words\<close>: results as sums, saturating arithmetic, association lists,
  UTF-8 texts as byte lists, trimming, splitting, words, JSON values.
  \<open>Circuit\<close>: the breaker per candidate, refining three phases.
  \<open>Provider_Types\<close>, \<open>Messages\<close>: identities, events, messages and token estimates.
  \<open>ToolCalls\<close>: the assembler of streamed tool calls against a grammar per call.
  \<open>Retry\<close>, \<open>Route\<close>, \<open>ModelRequest\<close>: classification of failures, the retry decision, frozen routes
  and the request loop over candidates with its audit.
  \<open>Sse\<close>: the reading of a response in chunks, equal to reading its lines; \<open>Wire_Calls\<close>: the calls
  of a stream counted against those an adapter holds; \<open>Openai\<close>, \<open>Anthropic\<close>, \<open>Ollama\<close>: requests
  and streams of the wire formats, whose calls the assembler accepts.
  \<open>Store_Status\<close> \<open>Store\<close> \<open>Store_Ops\<close> \<open>Store_Runs\<close> \<open>Store_Side\<close> \<open>Store_Life\<close> \<open>Store_Daemon\<close>
  \<open>Delegation_Ops\<close>: the tables and one definition per transaction; \<open>Store_Machine\<close> \<open>Store_Frame\<close>
  \<open>Store_Log\<close> \<open>Store_Contract\<close> \<open>Store_Results\<close>: the store as a machine of all its operations, what
  each leaves alone, the event log, the row invariants, the status machine and the results.
  \<open>Safety\<close>, \<open>Cron\<close>, \<open>Protocol\<close>, \<open>Active\<close>, \<open>Plan\<close>, \<open>Session\<close>, \<open>Context\<close>, \<open>Tools\<close>: one module each.
  \<open>Waves\<close>: the scheduler of a batch as a step relation over overlapping calls, equal to its
  sequential reading. \<open>Loop\<close>: the turn, with every effect it has on the outside in a trace.
  \<open>Turn_Logic\<close>, \<open>Turn_Contract\<close>: triples over turns and the locale a predicate has to satisfy to
  survive a round; \<open>Turn_Sample\<close>: a concrete turn for the witnesses; \<open>Turn_Safety\<close>,
  \<open>Turn_Conversation\<close>: write-ahead, limits and the pairing of calls and results.
  \<open>Handlers\<close>: a chat request from admission to its answer, one atomic step at a time;
  \<open>Daemon_System\<close>: all handlers over one store, interleaved in any way, with executions and
  answers counted; \<open>Daemon_Results\<close>: what the answer says against the record; \<open>Daemon_Cancel\<close>: the
  cancellation of a tree of delegations; \<open>Subscribe\<close>: what a subscriber of a run is sent;
  \<open>Web_Pages\<close>: bounded pages of sessions and events; \<open>Subagents\<close>: spawning, waiting for and
  closing delegated runs.
  \<open>Rpc\<close>: every request of the dispatch as a step of the system of handlers; \<open>Sessions\<close>: the table of
  running sessions, the session list and the permission mode; \<open>Configuration\<close>: the file of models in
  step with the running manager; \<open>Memory\<close>: saving, loading and recall; \<open>Skills\<close>: installation as a
  whole or not at all, and the ranking of matches; \<open>File_Access\<close>: a disk of inodes, opening without
  links and writing through a temporary file while other processes interfere; \<open>File_Tools\<close>: edit,
  write, read and the sandbox of \<open>exec\<close>; \<open>Slash\<close>: parsing and help of the commands; \<open>Slash_Exec\<close>: what
  those on jobs, skills, models and permissions do; \<open>Input_Editor\<close>: a
  text with a cursor between graphemes; \<open>Keys\<close>: the table of shortcuts.

  \<^bold>\<open>Conventions.\<close> Fallible operations return \<open>Inl\<close> the error or \<open>Inr\<close> the value. Texts are lists of
  bytes, so lengths and limits are those of the code. Counters that wrap or saturate in the code
  do so in the model (\<open>64 word\<close>, \<open>sat_i64\<close>, \<open>usize_add\<close>); the others are natural numbers. Loops that
  may not end are partial functions or relations (\<open>run_rounds\<close>, \<open>retry_loop\<close>, \<open>wave_step\<close>), and
  that they end is a property of its own; there is no fuel.
  A concurrent program is modelled where its interleavings matter: the store operations are
  atomic (one lock, one transaction) and occur in any order; the calls of a wave overlap in any
  way; a cancellation may strike at any point of a batch.

  \<^bold>\<open>Parameters.\<close> Code that is not in the repository is an argument of the model: the JSON and hash
  functions, the file system (existence, canonical paths, contents, failing writes), the clock,
  the cron crate, git and the model's answers. A property that relies on their documented
  behaviour states it as a hypothesis (such as \<open>codec\<close>: reading what was written gives it back)
  and has a witness on a concrete instance. The clock is read once per store operation, except
  in the reservation of delegation results, where the code reads it several times.

  \<^bold>\<open>Not modelled.\<close> Of \<open>daemon/handlers.rs\<close> the slash commands that repeat a request of the dispatch,
  the audit report and the export of logs; the life of the daemon process (\<open>daemon/server.rs\<close> outside its line loop,
  \<open>daemon/runtime.rs\<close>, \<open>daemon/lifecycle.rs\<close>: sockets, lock files and signals), the delegation tools
  that forward to the handlers (\<open>daemon/delegation_tool.rs\<close>), the user interfaces (\<open>entry/\<close> except
  the input field and the key bindings, \<open>main.rs\<close>: drawing and input and output) and the MCP client
  (child processes and the protocol crate). Within modelled modules: SQL text and migrations,
  tracing output, session trace records (best effort in the code), the stream events of a model
  request inside a turn, the HTTP exchange of the wire adapters, the capacity of broadcast
  channels, environment variables, the resolution of source paths of skills, and the run of a
  child process between its start and its end.
\<close>

end
